(* ===== verification/Prelude.thy ===== *)
theory Prelude imports Main "HOL-Library.Word" begin

text \<open>
  Shared vocabulary of the development: the fixed-width integer types of
  \<^verbatim>\<open>src/src/common/Define.h\<close>, the result type that stands for C++ exceptions and
  failed \<^verbatim>\<open>ASSERT\<close>s, bit lists (most significant bit first) used by the wire format
  theories, and generic lemmas that several components need.
\<close>

unbundle bit_operations_syntax

named_theorems result_simps \<open>equations that unfold sequencing of fallible operations\<close>

type_synonym u8 = "8 word"
type_synonym u16 = "16 word"
type_synonym u32 = "32 word"
type_synonym u64 = "64 word"

section \<open>Fallible computations\<close>

text \<open>An operation that may throw or assert returns \<open>Inl\<close> the error or \<open>Inr\<close> the result.\<close>

fun bind_res :: "'e + 'a \<Rightarrow> ('a \<Rightarrow> 'e + 'b) \<Rightarrow> 'e + 'b" where
  "bind_res (Inl e) f = Inl e"
| "bind_res (Inr x) f = f x"

lemma bind_res_Inr_iff [result_simps]:
  "bind_res m f = Inr y \<longleftrightarrow> (\<exists>x. m = Inr x \<and> f x = Inr y)"
  by (cases m) auto

lemma bind_res_Inl_iff [result_simps]:
  "bind_res m f = Inl e \<longleftrightarrow> m = Inl e \<or> (\<exists>x. m = Inr x \<and> f x = Inl e)"
  by (cases m) auto

lemma bind_res_assoc [result_simps]:
  "bind_res (bind_res m f) g = bind_res m (\<lambda>x. bind_res (f x) g)"
  by (cases m) auto

lemma bind_res_Inr_right [simp]: "bind_res m Inr = m"
  by (cases m) auto

lemma bind_res_cong [fundef_cong]:
  "m = m' \<Longrightarrow> (\<And>x. m' = Inr x \<Longrightarrow> f x = g x) \<Longrightarrow> bind_res m f = bind_res m' g"
  by (cases m') auto

text \<open>A fold that stops at the first error, as a loop left by an exception does.\<close>

fun fold_res :: "('a \<Rightarrow> 's \<Rightarrow> 'e + 's) \<Rightarrow> 'a list \<Rightarrow> 's \<Rightarrow> 'e + 's" where
  "fold_res f [] s = Inr s"
| "fold_res f (x # xs) s = bind_res (f x s) (fold_res f xs)"

lemma fold_res_append:
  "fold_res f (xs @ ys) s = bind_res (fold_res f xs s) (fold_res f ys)"
  by (induction xs arbitrary: s) (auto simp: result_simps intro!: bind_res_cong)

lemma fold_res_invariant:
  assumes "\<And>x s s'. x \<in> set xs \<Longrightarrow> P s \<Longrightarrow> f x s = Inr s' \<Longrightarrow> P s'"
    and "P s" and "fold_res f xs s = Inr s'"
  shows "P s'"
  using assms
proof (induction xs arbitrary: s)
  case (Cons x xs)
  then show ?case by (auto simp: result_simps)
qed simp

section \<open>Sums of machine sizes\<close>

text \<open>\<^verbatim>\<open>size_t\<close> arithmetic is modulo \<open>2 ^ 64\<close>.\<close>

definition size_add :: "nat \<Rightarrow> nat \<Rightarrow> nat" where
  "size_add a b = (a + b) mod 2 ^ 64"

lemma size_add_exact [simp]: "a + b < 2 ^ 64 \<Longrightarrow> size_add a b = a + b"
  by (simp add: size_add_def)

section \<open>Bit lists, most significant bit first\<close>

definition msb_bits :: "nat \<Rightarrow> 'a::len word \<Rightarrow> bool list" where
  "msb_bits n w = map (bit w) (rev [0..<n])"

lemma length_msb_bits [simp]: "length (msb_bits n w) = n"
  by (simp add: msb_bits_def)

lemma nth_msb_bits [simp]: "i < n \<Longrightarrow> msb_bits n w ! i = bit w (n - Suc i)"
  by (simp add: msb_bits_def rev_nth)

lemma msb_bits_Suc: "msb_bits (Suc n) w = bit w n # msb_bits n w"
  by (simp add: msb_bits_def)

lemma msb_bits_0 [simp]: "msb_bits 0 w = []"
  by (simp add: msb_bits_def)

lemma msb_bits_add:
  "msb_bits (m + n) w = msb_bits m (drop_bit n w) @ msb_bits n w"
  by (rule nth_equalityI) (auto simp: nth_append bit_drop_bit_eq intro!: arg_cong [where f = "bit w"])

lemma msb_bits_eqI:
  "(\<And>i. i < n \<Longrightarrow> bit v i = bit w i) \<Longrightarrow> msb_bits n v = msb_bits n w"
  by (simp add: msb_bits_def)

lemma msb_bits_ucast:
  "n \<le> LENGTH('b) \<Longrightarrow> msb_bits n (ucast (w :: 'a::len word) :: 'b::len word) = msb_bits n w"
  by (rule msb_bits_eqI) (simp add: bit_ucast_iff)

lemma msb_bits_eq_iff:
  "msb_bits n v = msb_bits n w \<longleftrightarrow> (\<forall>i < n. bit v i = bit w i)"
  by (auto simp: msb_bits_def)

lemma msb_bits_inj:
  fixes v w :: "'a::len word"
  assumes "msb_bits LENGTH('a) v = msb_bits LENGTH('a) w"
  shows "v = w"
  using assms by (intro bit_word_eqI) (auto simp: msb_bits_eq_iff)

lemma word_less_power_iff_bits:
  fixes w :: "'a::len word"
  assumes "n < LENGTH('a)"
  shows "unat w < 2 ^ n \<longleftrightarrow> (\<forall>i. n \<le> i \<and> i < LENGTH('a) \<longrightarrow> \<not> bit w i)"
proof -
  have "unat w < 2 ^ n \<longleftrightarrow> take_bit n (unat w) = unat w"
    by (simp add: take_bit_nat_eq_self_iff)
  also have "\<dots> \<longleftrightarrow> take_bit n w = w"
    by (metis unsigned_take_bit_eq unsigned_word_eqI)
  also have "\<dots> \<longleftrightarrow> (\<forall>i. n \<le> i \<and> i < LENGTH('a) \<longrightarrow> \<not> bit w i)"
    by (auto simp: bit_eq_iff bit_take_bit_iff not_less)
  finally show ?thesis .
qed

lemma exp_minus_1_mask [simp]: "(2 :: 'a::len word) ^ n - 1 = mask n"
  by (simp add: mask_eq_exp_minus_1)

lemma test_bit_and_1 [simp]: "drop_bit k w AND 1 \<noteq> 0 \<longleftrightarrow> bit (w :: 'a::len word) k"
  by (simp add: and_one_eq bit_iff_odd_drop_bit even_iff_mod_2_eq_zero)

lemma msb_bits_mask: "msb_bits n (v AND mask n) = msb_bits n v"
  by (rule msb_bits_eqI) (auto simp: bit_and_iff bit_mask_iff bit_imp_le_length)

definition bytes_bits :: "u8 list \<Rightarrow> bool list" where
  "bytes_bits bs = concat (map (msb_bits 8) bs)"

lemma bytes_bits_simps [simp]:
  "bytes_bits [] = []"
  "bytes_bits (b # bs) = msb_bits 8 b @ bytes_bits bs"
  "bytes_bits (bs @ cs) = bytes_bits bs @ bytes_bits cs"
  by (simp_all add: bytes_bits_def)

lemma length_bytes_bits [simp]: "length (bytes_bits bs) = 8 * length bs"
  by (induction bs) auto

lemma bytes_bits_inj: "bytes_bits bs = bytes_bits cs \<Longrightarrow> bs = cs"
proof (induction bs arbitrary: cs)
  case Nil
  then show ?case by (cases cs) (auto simp: msb_bits_def)
next
  case (Cons b bs)
  then obtain c cs' where cs: "cs = c # cs'"
    by (cases cs) (auto simp: msb_bits_def)
  with Cons.prems have "msb_bits 8 b = msb_bits 8 c" and "bytes_bits bs = bytes_bits cs'"
    by simp_all
  then show ?case
    using Cons.IH msb_bits_inj [of b c] by (simp add: cs)
qed

end
