(* ===== verification/ByteBuffer.thy ===== *)
theory ByteBuffer imports Prelude begin

text \<open>
  The packet buffer of \<^verbatim>\<open>src/src/server/shared/Packets/ByteBuffer.{h,cpp}\<close>: byte-aligned
  scalars and strings, and the bit packing that shares one partial byte between consecutive
  \<^verbatim>\<open>WriteBit\<close>/\<^verbatim>\<open>WriteBits\<close> calls. Exceptions and failed assertions are values of
  \<open>bb_error\<close>; positions are natural numbers with the \<^verbatim>\<open>size_t\<close> wrap-around of the
  bounds checks written out; \<^verbatim>\<open>uint8\<close>, \<^verbatim>\<open>uint32\<close> and \<^verbatim>\<open>uint64\<close> values are words.
  The host is little-endian (\<^verbatim>\<open>TRINITY_LITTLEENDIAN\<close>), so \<^verbatim>\<open>EndianConvert\<close> is the
  identity and a scalar's memory image lists its low byte first. The validity of UTF-8
  text, decided by the vendored utf8cpp library, is a parameter of the string readers.
\<close>

section \<open>State and errors\<close>

record byte_buffer =
  bb_rpos :: nat
  bb_wpos :: nat
  bb_bitpos :: nat
  bb_curbitval :: u8
  bb_storage :: "u8 list"

text \<open>
  \<open>PositionException pos size valueSize\<close> keeps the constructor's argument order.
\<close>

datatype bb_error =
    PositionException nat nat nat
  | InvalidValueException "u8 list"
  | AssertionFailure

definition InitialBitPos :: nat where
  "InitialBitPos = 8"

definition ByteBuffer_empty :: byte_buffer where
  "ByteBuffer_empty = \<lparr>bb_rpos = 0, bb_wpos = 0, bb_bitpos = InitialBitPos, bb_curbitval = 0, bb_storage = []\<rparr>"

definition ByteBuffer_of_vector :: "u8 list \<Rightarrow> byte_buffer" where
  "ByteBuffer_of_vector buffer =
     \<lparr>bb_rpos = 0, bb_wpos = length buffer, bb_bitpos = InitialBitPos, bb_curbitval = 0, bb_storage = buffer\<rparr>"

definition ByteBuffer_clear :: "byte_buffer \<Rightarrow> byte_buffer" where
  "ByteBuffer_clear b =
     b\<lparr>bb_rpos := 0, bb_wpos := 0, bb_bitpos := InitialBitPos, bb_curbitval := 0, bb_storage := []\<rparr>"

definition ByteBuffer_resize :: "nat \<Rightarrow> byte_buffer \<Rightarrow> byte_buffer" where
  "ByteBuffer_resize newsize b =
     (let s = take newsize (bb_storage b) @ replicate (newsize - length (bb_storage b)) 0
      in b\<lparr>bb_storage := s, bb_rpos := 0, bb_wpos := length s\<rparr>)"

definition OnInvalidPosition :: "nat \<Rightarrow> nat \<Rightarrow> byte_buffer \<Rightarrow> bb_error + 'a" where
  "OnInvalidPosition pos valueSize b = Inl (PositionException pos (length (bb_storage b)) valueSize)"

section \<open>Appending bytes\<close>

definition append_asserts :: "nat \<Rightarrow> byte_buffer \<Rightarrow> bb_error + byte_buffer" where
  "append_asserts cnt b =
     (if cnt = 0 then Inl AssertionFailure
      else if \<not> length (bb_storage b) + cnt < 100000000 then Inl AssertionFailure
      else Inr b)"

text \<open>
  The copying half of \<^verbatim>\<open>append\<close>: grow the storage with zeros when needed, then
  overwrite from the write position (which callers may have moved back).
\<close>

definition append_copy :: "u8 list \<Rightarrow> byte_buffer \<Rightarrow> byte_buffer" where
  "append_copy src b =
     (let newSize = size_add (bb_wpos b) (length src);
          s = bb_storage b @ replicate (newSize - length (bb_storage b)) 0
      in b\<lparr>bb_storage := take (bb_wpos b) s @ src @ drop newSize s, bb_wpos := newSize\<rparr>)"

text \<open>
  \<^verbatim>\<open>FlushBits\<close> and \<^verbatim>\<open>append\<close> call each other; the inner \<^verbatim>\<open>append\<close> runs with the
  bit position already reset, so its own flush does nothing (\<open>FlushBits_via_append\<close>).
\<close>

definition FlushBits :: "byte_buffer \<Rightarrow> bb_error + byte_buffer" where
  "FlushBits b =
     (if bb_bitpos b = 8 then Inr b
      else bind_res (append_asserts 1 (b\<lparr>bb_bitpos := 8\<rparr>))
             (\<lambda>b'. Inr ((append_copy [bb_curbitval b'] b')\<lparr>bb_curbitval := 0\<rparr>)))"

definition ByteBuffer_append :: "u8 list \<Rightarrow> byte_buffer \<Rightarrow> bb_error + byte_buffer" where
  "ByteBuffer_append src b =
     bind_res (append_asserts (length src) b)
       (\<lambda>b. bind_res (FlushBits b) (\<lambda>b. Inr (append_copy src b)))"

lemma FlushBits_via_append:
  "FlushBits b =
     (if bb_bitpos b = 8 then Inr b
      else bind_res (ByteBuffer_append [bb_curbitval b] (b\<lparr>bb_bitpos := 8\<rparr>))
             (\<lambda>b'. Inr (b'\<lparr>bb_curbitval := 0\<rparr>)))"
  by (simp add: FlushBits_def ByteBuffer_append_def append_asserts_def)

definition ResetBitPos :: "byte_buffer \<Rightarrow> byte_buffer" where
  "ResetBitPos b = b\<lparr>bb_bitpos := 8, bb_curbitval := 0\<rparr>"

definition HasUnfinishedBitPack :: "byte_buffer \<Rightarrow> bool" where
  "HasUnfinishedBitPack b \<longleftrightarrow> bb_bitpos b \<noteq> 8"

section \<open>Scalars\<close>

definition le_bytes :: "'a::len word \<Rightarrow> u8 list" where
  "le_bytes w = map (\<lambda>i. ucast (drop_bit (8 * i) w)) [0..<LENGTH('a) div 8]"

definition le_word :: "u8 list \<Rightarrow> 'a::len word" where
  "le_word bs = foldr (\<lambda>b acc. push_bit 8 acc OR ucast b) bs 0"

definition append_scalar :: "'a::len word \<Rightarrow> byte_buffer \<Rightarrow> bb_error + byte_buffer" where
  "append_scalar value b = ByteBuffer_append (le_bytes value) b"

section \<open>Writing bits\<close>

text \<open>The bit position is a \<^verbatim>\<open>uint8\<close>: decrementing 0 gives 255.\<close>

definition WriteBit :: "bool \<Rightarrow> byte_buffer \<Rightarrow> bb_error + byte_buffer" where
  "WriteBit bt b =
     (let p = (bb_bitpos b + 255) mod 256;
          c = (if bt then bb_curbitval b OR push_bit p 1 else bb_curbitval b);
          b' = b\<lparr>bb_bitpos := p, bb_curbitval := c\<rparr>
      in if p = 0
         then bind_res (ByteBuffer_append [c] (b'\<lparr>bb_bitpos := 8\<rparr>))
                (\<lambda>b''. Inr (b''\<lparr>bb_curbitval := 0\<rparr>))
         else Inr b')"

fun WriteBits_bytes :: "u64 \<Rightarrow> nat \<Rightarrow> byte_buffer \<Rightarrow> bb_error + (nat \<times> byte_buffer)" where
  "WriteBits_bytes value bits b =
     (if bits \<ge> 8
      then bind_res (append_scalar (ucast (drop_bit (bits - 8) value) :: u8) b)
             (\<lambda>b'. WriteBits_bytes value (bits - 8) b')
      else Inr (bits, b))"

declare WriteBits_bytes.simps [simp del]

definition WriteBits :: "u64 \<Rightarrow> nat \<Rightarrow> byte_buffer \<Rightarrow> bb_error + byte_buffer" where
  "WriteBits value0 bits b =
     (let value = value0 AND (push_bit bits 1 - 1) in
      if bits > bb_bitpos b
      then let c = bb_curbitval b OR ucast (drop_bit (bits - bb_bitpos b) value);
               bits' = bits - bb_bitpos b
           in bind_res (ByteBuffer_append [c] (b\<lparr>bb_curbitval := c, bb_bitpos := 8\<rparr>))
                (\<lambda>b1. bind_res (WriteBits_bytes value bits' b1)
                   (\<lambda>(r, b2). Inr (b2\<lparr>bb_bitpos := 8 - r,
                       bb_curbitval := ucast (push_bit (8 - r) (value AND (push_bit r 1 - 1)))\<rparr>)))
      else let p = bb_bitpos b - bits;
               c = bb_curbitval b OR ucast (push_bit p value);
               b' = b\<lparr>bb_bitpos := p, bb_curbitval := c\<rparr>
           in if p = 0
              then bind_res (ByteBuffer_append [c] (b'\<lparr>bb_bitpos := 8\<rparr>))
                     (\<lambda>b''. Inr (b''\<lparr>bb_curbitval := 0\<rparr>))
              else Inr b')"

section \<open>Reading\<close>

definition read_bytes :: "nat \<Rightarrow> byte_buffer \<Rightarrow> bb_error + (u8 list \<times> byte_buffer)" where
  "read_bytes len b =
     (if size_add (bb_rpos b) len > length (bb_storage b) then OnInvalidPosition (bb_rpos b) len b
      else Inr (take len (drop (bb_rpos b) (bb_storage b)),
                (ResetBitPos b)\<lparr>bb_rpos := size_add (bb_rpos b) len\<rparr>))"

definition read_scalar_at :: "nat \<Rightarrow> byte_buffer \<Rightarrow> bb_error + 'a::len word" where
  "read_scalar_at pos b =
     (let sz = LENGTH('a) div 8
      in if size_add pos sz > length (bb_storage b) then OnInvalidPosition pos sz b
         else Inr (le_word (take sz (drop pos (bb_storage b)))))"

definition read_scalar :: "byte_buffer \<Rightarrow> bb_error + ('a::len word \<times> byte_buffer)" where
  "read_scalar b =
     (let b' = ResetBitPos b
      in bind_res (read_scalar_at (bb_rpos b') b')
           (\<lambda>r. Inr (r, b'\<lparr>bb_rpos := size_add (bb_rpos b') (LENGTH('a) div 8)\<rparr>)))"

definition read_skip :: "nat \<Rightarrow> byte_buffer \<Rightarrow> bb_error + byte_buffer" where
  "read_skip skip b =
     (if size_add (bb_rpos b) skip > length (bb_storage b) then OnInvalidPosition (bb_rpos b) skip b
      else Inr ((ResetBitPos b)\<lparr>bb_rpos := size_add (bb_rpos b) skip\<rparr>))"

text \<open>\<^verbatim>\<open>read(&_curbitval, 1)\<close>: the byte read becomes the current bit byte.\<close>

definition read_curbitval :: "byte_buffer \<Rightarrow> bb_error + byte_buffer" where
  "read_curbitval b = bind_res (read_bytes 1 b) (\<lambda>(bs, b'). Inr (b'\<lparr>bb_curbitval := hd bs\<rparr>))"

definition ReadBit :: "byte_buffer \<Rightarrow> bb_error + (bool \<times> byte_buffer)" where
  "ReadBit b =
     bind_res (if bb_bitpos b \<ge> 8
               then bind_res (read_curbitval b) (\<lambda>b'. Inr (b'\<lparr>bb_bitpos := 0\<rparr>))
               else Inr b)
       (\<lambda>b'. let p = bb_bitpos b' + 1
             in Inr (drop_bit (8 - p) (bb_curbitval b') AND 1 \<noteq> 0, b'\<lparr>bb_bitpos := p\<rparr>))"

fun ReadBits_bytes :: "u32 \<Rightarrow> nat \<Rightarrow> byte_buffer \<Rightarrow> bb_error + (u32 \<times> nat \<times> byte_buffer)" where
  "ReadBits_bytes value bits b =
     (if bits \<ge> 8
      then bind_res (read_scalar b :: bb_error + (u8 \<times> byte_buffer))
             (\<lambda>(x, b'). ReadBits_bytes (value OR push_bit (bits - 8) (ucast x)) (bits - 8) b')
      else Inr (value, bits, b))"

declare ReadBits_bytes.simps [simp del]

definition ReadBits :: "nat \<Rightarrow> byte_buffer \<Rightarrow> bb_error + (u32 \<times> byte_buffer)" where
  "ReadBits bits b =
     (if bits > 8 - bb_bitpos b
      then let inBuffer = 8 - bb_bitpos b;
               value = ucast (push_bit (bits - inBuffer)
                         ((ucast (bb_curbitval b) :: u64) AND (push_bit inBuffer 1 - 1)));
               bits' = bits - inBuffer
           in bind_res (ReadBits_bytes value bits' b)
                (\<lambda>(v, r, b1). if r \<noteq> 0
                   then bind_res (read_curbitval b1)
                          (\<lambda>b2. Inr (v OR ucast (drop_bit (8 - r) (ucast (bb_curbitval b2) :: u64)
                                              AND (push_bit r 1 - 1)),
                                     b2\<lparr>bb_bitpos := r\<rparr>))
                   else Inr (v, b1))
      else Inr (ucast (drop_bit (8 - bb_bitpos b - bits) (ucast (bb_curbitval b) :: u64)
                         AND (push_bit bits 1 - 1)),
                b\<lparr>bb_bitpos := bb_bitpos b + bits\<rparr>))"

section \<open>Strings, raw blocks and patching\<close>

definition ReadBytes :: "nat \<Rightarrow> byte_buffer \<Rightarrow> bb_error + (u8 list \<times> byte_buffer)" where
  "ReadBytes len b =
     (if size_add (bb_rpos b) len > length (bb_storage b) then OnInvalidPosition (bb_rpos b) len b
      else let b' = ResetBitPos b
           in Inr (take len (drop (bb_rpos b') (bb_storage b')),
                   b'\<lparr>bb_rpos := size_add (bb_rpos b') len\<rparr>))"

definition WriteString :: "u8 list \<Rightarrow> byte_buffer \<Rightarrow> bb_error + byte_buffer" where
  "WriteString str b = (if length str \<noteq> 0 then ByteBuffer_append str b else Inr b)"

definition append_cstring :: "u8 list \<Rightarrow> byte_buffer \<Rightarrow> bb_error + byte_buffer" where
  "append_cstring value b =
     bind_res (if length value \<noteq> 0 then ByteBuffer_append value b else Inr b)
       (append_scalar (0 :: u8))"

definition ReadCString :: "(u8 list \<Rightarrow> bool) \<Rightarrow> bool \<Rightarrow> byte_buffer \<Rightarrow> bb_error + (u8 list \<times> byte_buffer)" where
  "ReadCString valid_utf8 requireValidUtf8 b =
     (if bb_rpos b \<ge> length (bb_storage b)
      then Inl (PositionException (bb_rpos b) 1 (length (bb_storage b)))
      else let b' = ResetBitPos b;
               rest = drop (bb_rpos b') (bb_storage b');
               value = takeWhile (\<lambda>c. c \<noteq> 0) rest
           in if length value = length rest
              then Inl (PositionException (length (bb_storage b)) 1 (length (bb_storage b)))
              else if requireValidUtf8 \<and> \<not> valid_utf8 value then Inl (InvalidValueException value)
              else Inr (value, b'\<lparr>bb_rpos := bb_rpos b' + length value + 1\<rparr>))"

definition ReadString :: "(u8 list \<Rightarrow> bool) \<Rightarrow> nat \<Rightarrow> bool \<Rightarrow> byte_buffer \<Rightarrow> bb_error + (u8 list \<times> byte_buffer)" where
  "ReadString valid_utf8 len requireValidUtf8 b =
     (if size_add (bb_rpos b) len > length (bb_storage b)
      then Inl (PositionException (bb_rpos b) len (length (bb_storage b)))
      else let b' = ResetBitPos b
           in if len = 0 then Inr ([], b')
              else let value = take len (drop (bb_rpos b') (bb_storage b'))
                   in if requireValidUtf8 \<and> \<not> valid_utf8 value then Inl (InvalidValueException value)
                      else Inr (value, b'\<lparr>bb_rpos := size_add (bb_rpos b') len\<rparr>))"

definition ByteBuffer_put :: "nat \<Rightarrow> u8 list \<Rightarrow> byte_buffer \<Rightarrow> bb_error + byte_buffer" where
  "ByteBuffer_put pos src b =
     (if \<not> size_add pos (length src) \<le> length (bb_storage b) then Inl AssertionFailure
      else if length src = 0 then Inl AssertionFailure
      else Inr (b\<lparr>bb_storage := take pos (bb_storage b) @ src @ drop (size_add pos (length src)) (bb_storage b)\<rparr>))"

definition PutBit_at :: "nat \<Rightarrow> u64 \<Rightarrow> nat \<Rightarrow> nat \<Rightarrow> u8 list \<Rightarrow> u8 list" where
  "PutBit_at pos value bitCount i s =
     (let wp = (pos + i) div 8; bt = (pos + i) mod 8
      in if drop_bit (bitCount - i - 1) value AND 1 \<noteq> 0
         then s[wp := (s ! wp) OR push_bit (7 - bt) 1]
         else s[wp := (s ! wp) AND NOT (push_bit (7 - bt) 1)])"

definition PutBits :: "nat \<Rightarrow> u64 \<Rightarrow> nat \<Rightarrow> byte_buffer \<Rightarrow> bb_error + byte_buffer" where
  "PutBits pos value bitCount b =
     (if \<not> size_add pos bitCount \<le> length (bb_storage b) * 8 then Inl AssertionFailure
      else if bitCount = 0 then Inl AssertionFailure
      else Inr (b\<lparr>bb_storage := fold (PutBit_at pos value bitCount) [0..<bitCount] (bb_storage b)\<rparr>))"

definition bitwpos :: "byte_buffer \<Rightarrow> nat" where
  "bitwpos b = bb_wpos b * 8 + 8 - bb_bitpos b"

definition set_bitwpos :: "nat \<Rightarrow> byte_buffer \<Rightarrow> byte_buffer" where
  "set_bitwpos newPos b = b\<lparr>bb_wpos := newPos div 8, bb_bitpos := 8 - newPos mod 8\<rparr>"

end
