(* ===== verification/ByteBuffer_Bits.thy ===== *)
theory ByteBuffer_Bits imports ByteBuffer begin

text \<open>
  The bit packer of \<open>ByteBuffer\<close> against an abstract view. A buffer being written stands for
  the list of bits written so far (\<open>written_bits\<close>: whole bytes, then the high bits of the partial
  byte); a buffer being read stands for the bits still ahead (\<open>unread_bits\<close>). The specifications
  of \<open>WriteBit\<close>, \<open>WriteBits\<close>, \<open>ReadBit\<close> and \<open>ReadBits\<close> say that they append to and take
  from these lists; the equivalence of the block operations with the bitwise ones and the round
  trip of whole field lists follow.
\<close>

section \<open>Writing\<close>

definition high_bits :: "nat \<Rightarrow> u8 \<Rightarrow> bool list" where
  "high_bits p c = map (bit c) (rev [p..<8])"

definition written_bits :: "byte_buffer \<Rightarrow> bool list" where
  "written_bits b = bytes_bits (take (bb_wpos b) (bb_storage b)) @ high_bits (bb_bitpos b) (bb_curbitval b)"

definition write_ok :: "byte_buffer \<Rightarrow> bool" where
  "write_ok b \<longleftrightarrow> bb_wpos b = length (bb_storage b) \<and> 1 \<le> bb_bitpos b \<and> bb_bitpos b \<le> 8
     \<and> (\<forall>i < bb_bitpos b. \<not> bit (bb_curbitval b) i) \<and> length (bb_storage b) < 100000000"

lemma high_bits_8 [simp]: "high_bits 8 c = []"
  by (simp add: high_bits_def)

lemma high_bits_0: "high_bits 0 c = msb_bits 8 c"
  by (simp add: high_bits_def msb_bits_def)

lemma length_high_bits [simp]: "length (high_bits p c) = 8 - p"
  by (simp add: high_bits_def)

lemma nth_high_bits [simp]: "i < 8 - p \<Longrightarrow> high_bits p c ! i = bit c (7 - i)"
  by (simp add: high_bits_def rev_nth)

lemma high_bits_or_push:
  fixes v :: u64
  assumes "n \<le> p" "p \<le> 8" "\<forall>i < p. \<not> bit c i" "\<And>i. n \<le> i \<Longrightarrow> \<not> bit v i"
  shows "high_bits (p - n) (c OR ucast (push_bit (p - n) v)) = high_bits p c @ msb_bits n v"
proof (rule nth_equalityI)
  fix i assume "i < length (high_bits (p - n) (c OR ucast (push_bit (p - n) v)))"
  then have i: "i < 8 - (p - n)" by simp
  show "high_bits (p - n) (c OR ucast (push_bit (p - n) v)) ! i = (high_bits p c @ msb_bits n v) ! i"
  proof (cases "i < 8 - p")
    case True
    then have "\<not> bit v (7 - i - (p - n))" using assms by auto
    with True i show ?thesis
      by (simp add: nth_append bit_or_iff bit_ucast_iff bit_push_bit_iff)
  next
    case False
    then have *: "7 - i - (p - n) = n - Suc (i - (8 - p))" "7 - i < p" "p - n \<le> 7 - i"
        "i - (8 - p) < n" "7 - i < 8" "7 - i < 64" "n - Suc (i - (8 - p)) = n + (8 - p) - Suc i"
      using assms i by auto
    with False i assms(3) show ?thesis
      by (simp add: nth_append bit_or_iff bit_ucast_iff bit_push_bit_iff)
  qed
qed (use assms in simp)

lemma low_bits_or_push:
  fixes v :: u64
  assumes "n \<le> p" "\<forall>i < p. \<not> bit c i" "i < p - n"
  shows "\<not> bit (c OR ucast (push_bit (p - n) v) :: u8) i"
  using assms by (auto simp: bit_or_iff bit_ucast_iff bit_push_bit_iff)

lemma append_aligned:
  assumes "bb_bitpos b = 8" "bb_wpos b = length (bb_storage b)" "src \<noteq> []"
    "length (bb_storage b) + length src < 100000000"
  shows "ByteBuffer_append src b =
    Inr (b\<lparr>bb_storage := bb_storage b @ src, bb_wpos := bb_wpos b + length src\<rparr>)"
  using assms
  by (simp add: ByteBuffer_append_def append_asserts_def FlushBits_def append_copy_def Let_def)

lemma append_scalar_u8: "append_scalar (x :: u8) b = ByteBuffer_append [x] b"
  by (simp add: append_scalar_def le_bytes_def)

lemma WriteBits_bytes_spec:
  assumes "bb_bitpos b = 8" "bb_wpos b = length (bb_storage b)"
    "length (bb_storage b) + bits div 8 < 100000000"
  shows "\<exists>bs. WriteBits_bytes v bits b =
      Inr (bits mod 8, b\<lparr>bb_storage := bb_storage b @ bs, bb_wpos := bb_wpos b + bits div 8\<rparr>)
    \<and> length bs = bits div 8 \<and> bytes_bits bs @ msb_bits (bits mod 8) v = msb_bits bits v"
  using assms
proof (induction v bits b rule: WriteBits_bytes.induct)
  case (1 v bits b)
  show ?case
  proof (cases "bits \<ge> 8")
    case True
    let ?x = "ucast (drop_bit (bits - 8) v) :: u8"
    let ?b = "b\<lparr>bb_storage := bb_storage b @ [?x], bb_wpos := bb_wpos b + 1\<rparr>"
    have div: "bits div 8 = Suc ((bits - 8) div 8)" and md: "bits mod 8 = (bits - 8) mod 8"
      using True by (simp_all add: le_div_geq le_mod_geq)
    have app: "append_scalar ?x b = Inr ?b"
      using "1.prems" div by (simp add: append_scalar_u8 append_aligned)
    from "1.IH" [OF True app] "1.prems" div obtain bs where
      bs: "WriteBits_bytes v (bits - 8) ?b =
        Inr (bits mod 8, ?b\<lparr>bb_storage := bb_storage b @ ?x # bs, bb_wpos := bb_wpos b + bits div 8\<rparr>)"
        "length bs = (bits - 8) div 8"
        "bytes_bits bs @ msb_bits (bits mod 8) v = msb_bits (bits - 8) v"
      by (auto simp: md)
    have "msb_bits bits v = msb_bits 8 ?x @ msb_bits (bits - 8) v"
      using True msb_bits_add [of 8 "bits - 8" v] by (simp add: msb_bits_ucast)
    with bs app True div show ?thesis
      by (intro exI [of _ "?x # bs"]) (simp add: WriteBits_bytes.simps [of v bits b])
  next
    case False
    then show ?thesis by (intro exI [of _ "[]"]) (simp add: WriteBits_bytes.simps [of v bits b])
  qed
qed


lemma WriteBit_spec:
  assumes "write_ok b" "length (bb_storage b) + 1 < 100000000"
  shows "\<exists>b'. WriteBit x b = Inr b' \<and> write_ok b' \<and> written_bits b' = written_bits b @ [x]
    \<and> bb_rpos b' = bb_rpos b \<and> length (bb_storage b') = length (bb_storage b) + (if bb_bitpos b = 1 then 1 else 0)"
proof -
  obtain p where p: "bb_bitpos b = Suc p" "p < 8" 
    using assms by (cases "bb_bitpos b") (auto simp: write_ok_def)
  have q: "(bb_bitpos b + 255) mod 256 = p" using p by simp
  define c where "c = (if x then bb_curbitval b OR push_bit p 1 else bb_curbitval b)"
  have c: "c = bb_curbitval b OR ucast (push_bit (Suc p - 1) (of_bool x :: u64))"
    unfolding c_def by (rule bit_word_eqI) (auto simp: bit_or_iff bit_ucast_iff bit_push_bit_iff bit_1_iff bit_exp_iff push_bit_of_1 simp del: push_bit_of_1)
  have low: "\<forall>i < Suc p. \<not> bit (bb_curbitval b) i" using assms p by (simp add: write_ok_def)
  have hb: "high_bits p c = high_bits (Suc p) (bb_curbitval b) @ [x]"
    using high_bits_or_push [of 1 "Suc p" "bb_curbitval b" "of_bool x"] low p unfolding c
    by (auto simp: msb_bits_def bit_1_iff)
  have lw: "\<forall>i < p. \<not> bit c i"
    using low_bits_or_push [of 1 "Suc p" "bb_curbitval b" _ "of_bool x"] low unfolding c by auto
  have W: "WriteBit x b = (let b' = b\<lparr>bb_bitpos := p, bb_curbitval := c\<rparr> in if p = 0
     then bind_res (ByteBuffer_append [c] (b'\<lparr>bb_bitpos := 8\<rparr>)) (\<lambda>b''. Inr (b''\<lparr>bb_curbitval := 0\<rparr>))
     else Inr b')"
    by (simp add: WriteBit_def Let_def q c_def)
  show ?thesis
  proof (cases "p = 0")
    case True
    with assms hb p show ?thesis
      by (simp add: W append_aligned write_ok_def written_bits_def high_bits_0)
  next
    case False
    with assms p hb lw show ?thesis
      by (simp add: W write_ok_def written_bits_def)
  qed
qed

lemma WriteBits_spec:
  assumes "write_ok b" "n < 64" "length (bb_storage b) + 9 < 100000000"
  shows "\<exists>b'. WriteBits v n b = Inr b' \<and> write_ok b' \<and> written_bits b' = written_bits b @ msb_bits n v
    \<and> bb_rpos b' = bb_rpos b \<and> length (bb_storage b') = length (bb_storage b) + (8 - bb_bitpos b + n) div 8"
proof -
  define w where "w = v AND mask n"
  let ?p = "bb_bitpos b" and ?cur = "bb_curbitval b"
  have hi: "\<not> bit w i" if "n \<le> i" for i using that by (simp add: w_def bit_and_iff bit_mask_iff)
  have wv: "msb_bits n w = msb_bits n v" by (simp add: w_def msb_bits_mask)
  have low: "\<forall>i < ?p. \<not> bit ?cur i" and p: "1 \<le> ?p" "?p \<le> 8" and wp: "bb_wpos b = length (bb_storage b)"
    using assms by (simp_all add: write_ok_def)
  show ?thesis
  proof (cases "n > ?p")
    case True
    define r where "r = n - ?p"
    define c where "c = ?cur OR ucast (drop_bit r w)"
    define d where "d = (ucast (push_bit (8 - r mod 8) (w AND mask (r mod 8))) :: u8)"
    let ?b1 = "b\<lparr>bb_curbitval := c, bb_bitpos := 8, bb_storage := bb_storage b @ [c], bb_wpos := bb_wpos b + 1\<rparr>"
    have app: "ByteBuffer_append [c] (b\<lparr>bb_curbitval := c, bb_bitpos := 8\<rparr>) = Inr ?b1"
      using assms wp by (simp add: append_aligned)
    have hd: "\<not> bit (drop_bit r w) i" if "?p \<le> i" for i
      using hi [of "r + i"] that True by (simp add: bit_drop_bit_eq r_def)
    have c: "msb_bits 8 c = high_bits ?p ?cur @ msb_bits ?p (drop_bit r w)"
      using high_bits_or_push [OF order.refl p(2) low hd] by (simp add: high_bits_0 c_def)
    have "r div 8 \<le> 7" using assms(2) p by (auto simp: r_def)
    then have "length (bb_storage ?b1) + r div 8 < 100000000" using assms(3) by simp
    then obtain bs where bs: "WriteBits_bytes w r ?b1 =
        Inr (r mod 8, ?b1\<lparr>bb_storage := bb_storage ?b1 @ bs, bb_wpos := bb_wpos ?b1 + r div 8\<rparr>)"
      "length bs = r div 8" "bytes_bits bs @ msb_bits (r mod 8) w = msb_bits r w"
      using WriteBits_bytes_spec [of ?b1 r w] wp by auto
    have d: "high_bits (8 - r mod 8) d = msb_bits (r mod 8) w"
      using high_bits_or_push [of "r mod 8" 8 0 "w AND mask (r mod 8)"]
      by (simp add: d_def msb_bits_mask bit_and_iff bit_mask_iff)
    have dl: "\<forall>i < 8 - r mod 8. \<not> bit d i"
      by (auto simp: d_def bit_and_iff bit_ucast_iff bit_push_bit_iff)
    have all: "msb_bits n v = msb_bits ?p (drop_bit r w) @ bytes_bits bs @ msb_bits (r mod 8) w"
      using msb_bits_add [of ?p r w] True bs(3) wv by (simp add: r_def)
    have len: "Suc (r div 8) = (8 - ?p + n) div 8"
    proof -
      have "8 - ?p + n = 8 + r" using True p by (simp add: r_def)
      then show ?thesis by simp
    qed
    have "WriteBits v n b = Inr (?b1\<lparr>bb_storage := bb_storage ?b1 @ bs, bb_wpos := bb_wpos ?b1 + r div 8,
        bb_bitpos := 8 - r mod 8, bb_curbitval := d\<rparr>)"
      using True app bs(1)
      by (simp add: WriteBits_def Let_def c_def [symmetric] r_def [symmetric] w_def [symmetric]) (simp add: d_def)
    moreover have "length (bb_storage b) + r div 8 < 99999999" using assms(3) \<open>r div 8 \<le> 7\<close> by simp
    ultimately show ?thesis
      using bs(2) d dl c all wp len
      by (simp add: write_ok_def written_bits_def)
  next
    case False
    define q where "q = ?p - n"
    define c where "c = ?cur OR ucast (push_bit q w)"
    have c: "high_bits q c = high_bits ?p ?cur @ msb_bits n v"
      using high_bits_or_push [of n ?p ?cur w] low p False hi wv by (simp add: q_def c_def)
    have cl: "\<forall>i < q. \<not> bit c i"
      using low_bits_or_push [of n ?p ?cur _ w] low False by (auto simp: q_def c_def)
    have W: "WriteBits v n b = (if q = 0
        then bind_res (ByteBuffer_append [c] (b\<lparr>bb_curbitval := c, bb_bitpos := 8\<rparr>)) (\<lambda>b''. Inr (b''\<lparr>bb_curbitval := 0\<rparr>))
        else Inr (b\<lparr>bb_bitpos := q, bb_curbitval := c\<rparr>))"
      using False by (simp add: WriteBits_def Let_def w_def [symmetric] q_def [symmetric]) (simp add: c_def)
    show ?thesis
    proof (cases "q = 0")
      case True
      have app: "ByteBuffer_append [c] (b\<lparr>bb_curbitval := c, bb_bitpos := 8\<rparr>) =
         Inr (b\<lparr>bb_curbitval := c, bb_bitpos := 8, bb_storage := bb_storage b @ [c], bb_wpos := bb_wpos b + 1\<rparr>)"
        using assms wp by (simp add: append_aligned)
      have "n = ?p" using True False by (simp add: q_def)
      with True app W c wp p assms(3) show ?thesis
        by (simp add: write_ok_def written_bits_def high_bits_0)
    next
      case q: False
      then have "(8 - ?p + n) div 8 = 0" using False p by (simp add: q_def)
      with q W c cl wp p assms(3) show ?thesis
        by (auto simp: write_ok_def written_bits_def q_def)
    qed
  qed
qed

section \<open>Reading\<close>

definition unread_bits :: "byte_buffer \<Rightarrow> bool list" where
  "unread_bits b = msb_bits (8 - bb_bitpos b) (bb_curbitval b) @ bytes_bits (drop (bb_rpos b) (bb_storage b))"

definition read_ok :: "byte_buffer \<Rightarrow> bool" where
  "read_ok b \<longleftrightarrow> bb_bitpos b \<le> 8 \<and> bb_rpos b \<le> length (bb_storage b) \<and> length (bb_storage b) < 100000000"

lemma length_unread_bits: "length (unread_bits b) = 8 - bb_bitpos b + 8 * (length (bb_storage b) - bb_rpos b)"
  by (simp add: unread_bits_def)

lemma le_word_single [simp]: "le_word [x] = (x :: u8)"
  by (simp add: le_word_def)

lemma read_scalar_u8:
  assumes "read_ok b"
  shows "(read_scalar b :: bb_error + (u8 \<times> byte_buffer)) =
    (if bb_rpos b < length (bb_storage b)
     then Inr (bb_storage b ! bb_rpos b, (ResetBitPos b)\<lparr>bb_rpos := Suc (bb_rpos b)\<rparr>)
     else Inl (PositionException (bb_rpos b) (length (bb_storage b)) 1))"
  using assms
  by (auto simp: read_scalar_def read_scalar_at_def ResetBitPos_def OnInvalidPosition_def read_ok_def Let_def
      take_Suc_conv_app_nth hd_drop_conv_nth take_Suc)

lemma read_curbitval_eq:
  assumes "read_ok b"
  shows "read_curbitval b =
    (if bb_rpos b < length (bb_storage b)
     then Inr (b\<lparr>bb_bitpos := 8, bb_curbitval := bb_storage b ! bb_rpos b, bb_rpos := Suc (bb_rpos b)\<rparr>)
     else Inl (PositionException (bb_rpos b) (length (bb_storage b)) 1))"
  using assms
  by (auto simp: read_curbitval_def read_bytes_def ResetBitPos_def OnInvalidPosition_def read_ok_def Let_def
      hd_drop_conv_nth)

lemma bytes_bits_drop_Cons:
  "p < length s \<Longrightarrow> bytes_bits (drop p s) = msb_bits 8 (s ! p) @ bytes_bits (drop (Suc p) s)"
  by (simp flip: Cons_nth_drop_Suc)

lemma bytes_bits_drop: "bytes_bits (drop j bs) = drop (8 * j) (bytes_bits bs)"
proof (induction bs arbitrary: j)
  case (Cons b bs)
  then show ?case by (cases j) simp_all
qed simp

lemma drop_msb_bits: "drop k (msb_bits n w) = msb_bits (n - k) w"
  by (rule nth_equalityI) auto

lemma ReadBit_spec:
  assumes "read_ok b" "unread_bits b \<noteq> []"
  shows "\<exists>b'. ReadBit b = Inr (hd (unread_bits b), b') \<and> read_ok b' \<and> unread_bits b' = tl (unread_bits b)
    \<and> bb_storage b' = bb_storage b"
proof (cases "bb_bitpos b \<ge> 8")
  case True
  have "0 < length (unread_bits b)" using assms by simp
  with True assms have p: "bb_bitpos b = 8" "bb_rpos b < length (bb_storage b)"
    by (auto simp: read_ok_def length_unread_bits)
  let ?x = "bb_storage b ! bb_rpos b"
  have u: "unread_bits b = bit ?x 7 # msb_bits 7 ?x @ bytes_bits (drop (Suc (bb_rpos b)) (bb_storage b))"
    using p bytes_bits_drop_Cons msb_bits_Suc [of 7 ?x] by (simp add: unread_bits_def)
  show ?thesis using p assms(1)
    by (simp add: ReadBit_def read_curbitval_eq Let_def u) (simp add: read_ok_def unread_bits_def)
next
  case False
  define q where "q = 7 - bb_bitpos b"
  have q: "bb_bitpos b = 7 - q" "q < 8" using False by (auto simp: q_def)
  have "8 - bb_bitpos b = Suc q" using q by simp
  then have u: "unread_bits b = bit (bb_curbitval b) q # msb_bits q (bb_curbitval b) @ bytes_bits (drop (bb_rpos b) (bb_storage b))"
    by (simp add: unread_bits_def msb_bits_Suc)
  have "8 - Suc (7 - q) = q" using q by simp
  then show ?thesis using q assms(1) False
    by (simp add: ReadBit_def Let_def u) (simp add: read_ok_def unread_bits_def)
qed

lemma ReadBits_bytes_spec:
  assumes "read_ok b" "bits \<le> 32" "bits div 8 \<le> length (bb_storage b) - bb_rpos b"
  shows "\<exists>v'. ReadBits_bytes v bits b = Inr (v', bits mod 8,
      if bits < 8 then b else (ResetBitPos b)\<lparr>bb_rpos := bb_rpos b + bits div 8\<rparr>)
    \<and> (\<forall>i. bit v' i \<longleftrightarrow> bit v i \<or> (bits mod 8 \<le> i \<and> i < bits \<and> bytes_bits (drop (bb_rpos b) (bb_storage b)) ! (bits - 1 - i)))"
  using assms
proof (induction v bits b rule: ReadBits_bytes.induct)
  case (1 v bits b)
  show ?case
  proof (cases "bits \<ge> 8")
    case True
    have div: "bits div 8 = Suc ((bits - 8) div 8)" and md: "bits mod 8 = (bits - 8) mod 8"
      using True by (simp_all add: le_div_geq le_mod_geq)
    let ?x = "bb_storage b ! bb_rpos b" and ?b = "(ResetBitPos b)\<lparr>bb_rpos := Suc (bb_rpos b)\<rparr>"
    let ?v = "v OR push_bit (bits - 8) (ucast ?x)" and ?s = "bytes_bits (drop (Suc (bb_rpos b)) (bb_storage b))"
    have lt: "bb_rpos b < length (bb_storage b)" using "1.prems" div by simp
    have rd: "(read_scalar b :: bb_error + (u8 \<times> byte_buffer)) = Inr (?x, ?b)"
      using "1.prems" lt by (simp add: read_scalar_u8)
    have ok: "read_ok ?b" and le: "(bits - 8) div 8 \<le> length (bb_storage ?b) - bb_rpos ?b"
      using "1.prems" lt div by (auto simp: read_ok_def ResetBitPos_def)
    have l32: "bits - 8 \<le> 32" using "1.prems" by simp
    have "\<exists>v'. ReadBits_bytes ?v (bits - 8) ?b = Inr (v', (bits - 8) mod 8,
        if bits - 8 < 8 then ?b else (ResetBitPos ?b)\<lparr>bb_rpos := bb_rpos ?b + (bits - 8) div 8\<rparr>)
      \<and> (\<forall>i. bit v' i \<longleftrightarrow> bit ?v i \<or> ((bits - 8) mod 8 \<le> i \<and> i < bits - 8
           \<and> bytes_bits (drop (bb_rpos ?b) (bb_storage ?b)) ! (bits - 8 - 1 - i)))"
      by (rule "1.IH" [OF True rd refl ok l32 le])
    then obtain v' where v':
      "ReadBits_bytes ?v (bits - 8) ?b = Inr (v', bits mod 8,
         if bits - 8 < 8 then ?b else (ResetBitPos ?b)\<lparr>bb_rpos := bb_rpos ?b + (bits - 8) div 8\<rparr>)"
      "\<And>i. bit v' i \<longleftrightarrow> bit ?v i \<or> (bits mod 8 \<le> i \<and> i < bits - 8 \<and> ?s ! (bits - 8 - 1 - i))"
      by (auto simp: md ResetBitPos_def simp del: diff_diff_left)
    have s: "bytes_bits (drop (bb_rpos b) (bb_storage b)) = msb_bits 8 ?x @ ?s"
      using lt by (rule bytes_bits_drop_Cons)
    have "bit v' i \<longleftrightarrow> bit v i \<or> (bits mod 8 \<le> i \<and> i < bits \<and> (msb_bits 8 ?x @ ?s) ! (bits - 1 - i))" for i
    proof (cases "bits - 8 \<le> i \<and> i < bits")
      case True
      moreover from True have "bits - Suc i < 8" "8 - Suc (bits - Suc i) = i - (bits - 8)" using \<open>bits \<ge> 8\<close> by auto
      moreover have "bits mod 8 \<le> i" using True md by (metis le_trans mod_less_eq_dividend)
      moreover have "i < 32" using True "1.prems" by simp
      ultimately show ?thesis
        by (auto simp: v'(2) nth_append bit_or_iff bit_push_bit_iff bit_ucast_iff)
    next
      case False
      then have "\<not> bit (push_bit (bits - 8) (ucast ?x) :: u32) i" using \<open>bits \<ge> 8\<close>
        by (auto simp: bit_push_bit_iff bit_ucast_iff dest: bit_imp_le_length)
      with False show ?thesis using \<open>bits \<ge> 8\<close>
        by (auto simp: v'(2) nth_append bit_or_iff)
    qed
    with True rd v'(1) div show ?thesis
      by (auto simp: ReadBits_bytes.simps [of v bits b] s ResetBitPos_def)
  next
    case False
    then show ?thesis by (auto simp: ReadBits_bytes.simps [of v bits b])
  qed
qed

lemma unread_bits_low:
  assumes "read_ok b" "i < 8 - bb_bitpos b"
  shows "unread_bits b ! i = bit (bb_curbitval b) (8 - bb_bitpos b - Suc i)"
  using assms by (simp add: unread_bits_def nth_append)

lemma ReadBits_in_buffer:
  assumes ok: "read_ok b" and n: "n \<le> 8 - bb_bitpos b"
  shows "\<exists>v. ReadBits n b = Inr (v, b\<lparr>bb_bitpos := bb_bitpos b + n\<rparr>)
    \<and> unread_bits (b\<lparr>bb_bitpos := bb_bitpos b + n\<rparr>) = drop n (unread_bits b)
    \<and> (\<forall>i. bit v i \<longleftrightarrow> i < n \<and> unread_bits b ! (n - 1 - i))"
proof -
  let ?p = "bb_bitpos b"
  define v where "v = (ucast (drop_bit (8 - ?p - n) (ucast (bb_curbitval b) :: u64) AND (push_bit n 1 - 1)) :: u32)"
  have bv: "bit v i \<longleftrightarrow> i < 32 \<and> i < n \<and> bit (bb_curbitval b) (8 - ?p - n + i)" for i
    unfolding v_def using n by (auto simp: bit_ucast_iff bit_and_iff bit_mask_iff bit_drop_bit_eq)
  have "bit v i \<longleftrightarrow> i < n \<and> unread_bits b ! (n - 1 - i)" for i
  proof (cases "i < n")
    case True
    with n ok have "unread_bits b ! (n - 1 - i) = bit (bb_curbitval b) (8 - ?p - n + i)"
      by (simp add: unread_bits_low)
    moreover have "i < 32" using True n by simp
    ultimately show ?thesis using True by (simp add: bv)
  qed (simp add: bv)
  moreover have "unread_bits (b\<lparr>bb_bitpos := ?p + n\<rparr>) = drop n (unread_bits b)"
  proof -
    have "8 - ?p = n + (8 - (?p + n))" using n by simp
    then have "msb_bits (8 - ?p) (bb_curbitval b) =
        msb_bits n (drop_bit (8 - (?p + n)) (bb_curbitval b)) @ msb_bits (8 - (?p + n)) (bb_curbitval b)"
      using msb_bits_add by metis
    then show ?thesis by (simp add: unread_bits_def)
  qed
  moreover have "ReadBits n b = Inr (v, b\<lparr>bb_bitpos := ?p + n\<rparr>)"
    using n by (simp add: ReadBits_def v_def)
  ultimately show ?thesis by blast
qed

lemma bytes_bits_tail:
  assumes "i < r" "r \<le> 8" "s ! p = x" "p < length s" "p = q + j"
  shows "bytes_bits (drop q s) ! (8 * j + (r - 1 - i)) = bit x (8 - r + i)"
proof -
  have "bytes_bits (drop q s) ! (8 * j + (r - 1 - i)) = bytes_bits (drop p s) ! (r - 1 - i)"
    using assms by (simp add: bytes_bits_drop algebra_simps)
  also have "\<dots> = msb_bits 8 x ! (r - 1 - i)"
    using assms bytes_bits_drop_Cons [of p s] by (auto simp: nth_append)
  also have "\<dots> = bit x (8 - r + i)" using assms by simp
  finally show ?thesis .
qed

lemma ReadBits_first_part:
  assumes ok: "read_ok b" and n: "n \<le> 32" "n > 8 - bb_bitpos b"
  defines "m \<equiv> n - (8 - bb_bitpos b)"
  shows "bit (ucast (push_bit m ((ucast (bb_curbitval b) :: u64) AND (push_bit (8 - bb_bitpos b) 1 - 1))) :: u32) i
    \<longleftrightarrow> m \<le> i \<and> i < n \<and> unread_bits b ! (n - 1 - i)"
proof (cases "m \<le> i \<and> i < n")
  case True
  have *: "n - 1 - i < 8 - bb_bitpos b" "8 - bb_bitpos b - Suc (n - 1 - i) = i - m" "i - m < 8 - bb_bitpos b"
    using True n by (auto simp: m_def)
  have "unread_bits b ! (n - 1 - i) = bit (bb_curbitval b) (i - m)"
    using unread_bits_low [OF ok *(1)] *(2) by simp
  moreover have "i < 32" "i < 64" "i - m < 64" "i - m < 8" using True n * by auto
  ultimately show ?thesis using True *(3)
    by (simp add: bit_ucast_iff bit_and_iff bit_mask_iff bit_push_bit_iff)
next
  case False
  then show ?thesis using n
    by (auto simp: m_def bit_ucast_iff bit_and_iff bit_mask_iff bit_push_bit_iff)
qed

lemma ReadBits_beyond:
  assumes ok: "read_ok b" and n: "n \<le> 32" "n \<le> length (unread_bits b)" "n > 8 - bb_bitpos b"
  shows "\<exists>v b'. ReadBits n b = Inr (v, b') \<and> read_ok b' \<and> bb_storage b' = bb_storage b
    \<and> unread_bits b' = drop n (unread_bits b)
    \<and> (\<forall>i. bit v i \<longleftrightarrow> i < n \<and> unread_bits b ! (n - 1 - i))"
proof -
  define m where "m = n - (8 - bb_bitpos b)"
  define s where "s = bytes_bits (drop (bb_rpos b) (bb_storage b))"
  define v0 where "v0 = (ucast (push_bit m ((ucast (bb_curbitval b) :: u64) AND (push_bit (8 - bb_bitpos b) 1 - 1))) :: u32)"
  define b1 where "b1 = (if m < 8 then b else (ResetBitPos b)\<lparr>bb_rpos := bb_rpos b + m div 8\<rparr>)"
  have m0: "0 < m" and md: "m div 8 \<le> length (bb_storage b) - bb_rpos b" and m32: "m \<le> 32"
    using n by (auto simp: length_unread_bits m_def)
  obtain v1 where v1: "ReadBits_bytes v0 m b = Inr (v1, m mod 8, b1)"
    "\<And>i. bit v1 i \<longleftrightarrow> bit v0 i \<or> (m mod 8 \<le> i \<and> i < m \<and> s ! (m - 1 - i))"
    using ReadBits_bytes_spec [OF ok m32 md, of v0] unfolding b1_def s_def by blast
  have v0: "bit v0 i \<longleftrightarrow> m \<le> i \<and> i < n \<and> unread_bits b ! (n - 1 - i)" for i
    unfolding v0_def m_def using ReadBits_first_part [OF ok n(1,3)] .
  have low: "unread_bits b ! (n - 1 - i) = s ! (m - 1 - i)" if "i < m" for i
    using that n(3) by (auto simp: unread_bits_def nth_append add.commute m_def s_def)
  have ok1: "read_ok b1" and rp1: "bb_rpos b1 = bb_rpos b + m div 8" "bb_storage b1 = bb_storage b"
    using ok md by (auto simp: b1_def read_ok_def ResetBitPos_def)
  have db: "drop n (unread_bits b) = drop m s" using n(3) by (simp add: unread_bits_def m_def s_def)
  have d8: "drop (8 * (m div 8)) s = bytes_bits (drop (bb_rpos b1) (bb_storage b))"
    by (simp add: s_def rp1 add.commute flip: bytes_bits_drop)
  have R: "ReadBits n b = (if m mod 8 \<noteq> 0
      then bind_res (read_curbitval b1) (\<lambda>b2. Inr (v1 OR ucast (drop_bit (8 - m mod 8) (ucast (bb_curbitval b2) :: u64)
           AND (push_bit (m mod 8) 1 - 1)), b2\<lparr>bb_bitpos := m mod 8\<rparr>))
      else Inr (v1, b1))"
    using n(3) v1(1) by (simp add: ReadBits_def Let_def m_def [symmetric]) (simp add: v0_def)
  show ?thesis
  proof (cases "m mod 8 = 0")
    case True
    then have "bb_bitpos b1 = 8" using m0 by (auto simp: b1_def ResetBitPos_def)
    then have "unread_bits b1 = drop (8 * (m div 8)) s" by (simp add: unread_bits_def d8 rp1)
    moreover have "8 * (m div 8) = m" using True by (simp flip: minus_mod_eq_mult_div)
    ultimately have "unread_bits b1 = drop n (unread_bits b)" using db by simp
    moreover have "bit v1 i \<longleftrightarrow> i < n \<and> unread_bits b ! (n - 1 - i)" for i
      using v1(2) [of i] v0 [of i] low [of i] True n(3) by (cases "i < m") (auto simp: m_def)
    ultimately show ?thesis using R True ok1 rp1 by auto
  next
    case False
    define r where "r = m mod 8"
    have r: "0 < r" "r < 8" and mr: "m = 8 * (m div 8) + r" using False by (simp_all add: r_def)
    have lt: "bb_rpos b1 < length (bb_storage b1)"
    proof -
      have "m \<le> 8 * (length (bb_storage b) - bb_rpos b)" using n by (auto simp: length_unread_bits m_def)
      then have "m div 8 < length (bb_storage b) - bb_rpos b" using mr r(1) by linarith
      then show ?thesis using rp1 by simp
    qed
    define x where "x = bb_storage b ! bb_rpos b1"
    let ?b2 = "b1\<lparr>bb_bitpos := r, bb_curbitval := x, bb_rpos := Suc (bb_rpos b1)\<rparr>"
    let ?v = "v1 OR ucast (drop_bit (8 - r) (ucast x :: u64) AND (push_bit r 1 - 1))"
    have "bit ?v i \<longleftrightarrow> i < n \<and> unread_bits b ! (n - 1 - i)" for i
    proof (cases "i < r")
      case True
      then have i: "m - 1 - i = 8 * (m div 8) + (r - 1 - i)" "i < m" using mr by linarith+
      have "s ! (m - 1 - i) = bit x (8 - r + i)" unfolding i(1) s_def
        by (rule bytes_bits_tail [OF True _ _ _ rp1(1)]) (use lt r rp1 in \<open>simp_all add: x_def\<close>)
      moreover have "8 - r + i < 8" using True r by simp
      ultimately show ?thesis
        using low [OF i(2)] v0 [of i] v1(2) [of i] True r i(2) n(3)
        by (simp add: bit_or_iff bit_ucast_iff bit_and_iff bit_mask_iff bit_drop_bit_eq r_def [symmetric]) (auto simp: m_def)
    next
      case False
      then show ?thesis using v1(2) [of i] v0 [of i] low [of i] n(3)
        by (cases "i < m") (auto simp: bit_or_iff bit_ucast_iff bit_and_iff bit_mask_iff r_def m_def)
    qed
    moreover have "ReadBits n b = Inr (?v, ?b2)"
      using R False lt read_curbitval_eq [OF ok1] rp1 by (simp add: r_def x_def)
    moreover have "unread_bits ?b2 = drop n (unread_bits b)"
    proof -
      have "drop m s = drop r (drop (8 * (m div 8)) s)" using mr by (simp add: add.commute)
      also have "\<dots> = drop r (msb_bits 8 x @ bytes_bits (drop (Suc (bb_rpos b1)) (bb_storage b)))"
        unfolding d8 using bytes_bits_drop_Cons [of "bb_rpos b1" "bb_storage b"] lt rp1 by (simp add: x_def)
      finally show ?thesis unfolding db using r rp1 by (simp add: unread_bits_def drop_msb_bits)
    qed
    moreover have "read_ok ?b2" using ok1 lt r by (simp add: read_ok_def)
    ultimately show ?thesis using rp1 by (intro exI [of _ ?v] exI [of _ ?b2]) simp
  qed
qed

theorem ReadBits_spec:
  assumes ok: "read_ok b" and n: "n \<le> 32" "n \<le> length (unread_bits b)"
  shows "\<exists>v b'. ReadBits n b = Inr (v, b') \<and> read_ok b' \<and> bb_storage b' = bb_storage b
    \<and> unread_bits b' = drop n (unread_bits b)
    \<and> (\<forall>i. bit v i \<longleftrightarrow> i < n \<and> unread_bits b ! (n - 1 - i))"
proof (cases "n > 8 - bb_bitpos b")
  case False
  then have "n \<le> 8 - bb_bitpos b" by simp
  from ReadBits_in_buffer [OF ok this] obtain v where v:
    "ReadBits n b = Inr (v, b\<lparr>bb_bitpos := bb_bitpos b + n\<rparr>)"
    "unread_bits (b\<lparr>bb_bitpos := bb_bitpos b + n\<rparr>) = drop n (unread_bits b)"
    "\<forall>i. bit v i \<longleftrightarrow> i < n \<and> unread_bits b ! (n - 1 - i)" by blast
  moreover have "read_ok (b\<lparr>bb_bitpos := bb_bitpos b + n\<rparr>)" using ok False by (auto simp: read_ok_def)
  ultimately show ?thesis by (intro exI [of _ v] exI [of _ "b\<lparr>bb_bitpos := bb_bitpos b + n\<rparr>"]) simp
qed (rule ReadBits_beyond [OF ok n])

section \<open>Equivalence and round trip\<close>

lemma bit_count_unique:
  "\<lbrakk>8 * a + (8 - p) = l; 8 * b + (8 - q) = l; 1 \<le> p; p \<le> 8; 1 \<le> q; q \<le> 8\<rbrakk> \<Longrightarrow> a = b \<and> p = (q :: nat)"
  by presburger

lemma write_ok_determined:
  assumes "write_ok b1" "write_ok b2" "written_bits b1 = written_bits b2" "bb_rpos b1 = bb_rpos b2"
  shows "b1 = b2"
proof -
  have len: "8 * length (bb_storage b) + (8 - bb_bitpos b) = length (written_bits b)" if "write_ok b" for b
    using that by (simp add: written_bits_def write_ok_def)
  have p: "1 \<le> bb_bitpos b1" "bb_bitpos b1 \<le> 8" "1 \<le> bb_bitpos b2" "bb_bitpos b2 \<le> 8"
    using assms by (simp_all add: write_ok_def)
  have lq: "length (bb_storage b1) = length (bb_storage b2) \<and> bb_bitpos b1 = bb_bitpos b2"
    using bit_count_unique [OF len [OF assms(1)] _ p] len [OF assms(2)] assms(3) by simp
  then have q: "bb_bitpos b1 = bb_bitpos b2" by simp
  with assms lq have s: "bb_storage b1 = bb_storage b2"
    and h: "high_bits (bb_bitpos b1) (bb_curbitval b1) = high_bits (bb_bitpos b1) (bb_curbitval b2)"
    by (auto simp: written_bits_def write_ok_def dest: bytes_bits_inj)
  have "bb_curbitval b1 = bb_curbitval b2"
  proof (rule bit_word_eqI)
    fix i assume "i < LENGTH(8)"
    then show "bit (bb_curbitval b1) i = bit (bb_curbitval b2) i"
      using assms(1,2) q h by (cases "i < bb_bitpos b1") (auto simp: write_ok_def high_bits_def)
  qed
  with assms q s show ?thesis by (auto simp: write_ok_def)
qed

lemma fold_WriteBit_spec:
  assumes "write_ok b" "length (bb_storage b) + length xs < 100000000"
  shows "\<exists>b'. fold_res WriteBit xs b = Inr b' \<and> write_ok b' \<and> written_bits b' = written_bits b @ xs
     \<and> bb_rpos b' = bb_rpos b"
  using assms
proof (induction xs arbitrary: b)
  case (Cons x xs)
  then obtain b' where b': "WriteBit x b = Inr b'" "write_ok b'" "written_bits b' = written_bits b @ [x]"
      "bb_rpos b' = bb_rpos b" "length (bb_storage b') \<le> length (bb_storage b) + 1"
    using WriteBit_spec [of b x] by (auto split: if_splits)
  with Cons.IH [of b'] Cons.prems show ?case by auto
qed simp

text \<open>
  Writing a value of \<open>n\<close> bits with \<^verbatim>\<open>WriteBits\<close>, which fills the partial byte, emits whole bytes and
  keeps a remainder, leaves the buffer in the same state as \<open>n\<close> calls of \<^verbatim>\<open>WriteBit\<close> from the most
  significant bit down.
\<close>

theorem WriteBits_eq_WriteBit:
  assumes "write_ok b" "n < 64" "length (bb_storage b) < 99999900"
  shows "WriteBits v n b = fold_res WriteBit (msb_bits n v) b"
proof -
  obtain b1 where b1: "WriteBits v n b = Inr b1" "write_ok b1"
      "written_bits b1 = written_bits b @ msb_bits n v" "bb_rpos b1 = bb_rpos b"
    using WriteBits_spec [of b n v] assms by auto
  obtain b2 where b2: "fold_res WriteBit (msb_bits n v) b = Inr b2" "write_ok b2"
      "written_bits b2 = written_bits b @ msb_bits n v" "bb_rpos b2 = bb_rpos b"
    using fold_WriteBit_spec [of b "msb_bits n v"] assms by auto
  have "b1 = b2" using b1 b2 by (intro write_ok_determined) simp_all
  with b1 b2 show ?thesis by simp
qed

lemma WriteBits_eq_WriteBit_witness:
  "WriteBits 0x2A5 11 (ByteBuffer_empty\<lparr>bb_bitpos := 5, bb_curbitval := 0xA0\<rparr>) =
   fold_res WriteBit (msb_bits 11 (0x2A5 :: u64)) (ByteBuffer_empty\<lparr>bb_bitpos := 5, bb_curbitval := 0xA0\<rparr>)"
proof (rule WriteBits_eq_WriteBit)
  have "\<forall>i<5. \<not> bit (0xA0 :: u8) i" by code_simp
  then show "write_ok (ByteBuffer_empty\<lparr>bb_bitpos := 5, bb_curbitval := 0xA0\<rparr>)"
    by (simp add: write_ok_def ByteBuffer_empty_def)
qed (simp_all add: ByteBuffer_empty_def)

fun write_fields :: "(u64 \<times> nat) list \<Rightarrow> byte_buffer \<Rightarrow> bb_error + byte_buffer" where
  "write_fields [] b = Inr b"
| "write_fields ((v, n) # fs) b = bind_res (WriteBits v n b) (write_fields fs)"

fun read_fields :: "nat list \<Rightarrow> byte_buffer \<Rightarrow> bb_error + (u32 list \<times> byte_buffer)" where
  "read_fields [] b = Inr ([], b)"
| "read_fields (n # ns) b = bind_res (ReadBits n b)
     (\<lambda>(v, b'). bind_res (read_fields ns b') (\<lambda>(vs, b''). Inr (v # vs, b'')))"

abbreviation field_bits :: "(u64 \<times> nat) list \<Rightarrow> bool list" where
  "field_bits fs \<equiv> concat (map (\<lambda>(v, n). msb_bits n v) fs)"

lemma write_fields_spec:
  assumes "write_ok b" "\<forall>(v, n) \<in> set fs. n \<le> 32" "length (bb_storage b) + 9 + 5 * length fs < 100000000"
  shows "\<exists>b'. write_fields fs b = Inr b' \<and> write_ok b' \<and> written_bits b' = written_bits b @ field_bits fs
     \<and> bb_rpos b' = bb_rpos b \<and> length (bb_storage b') \<le> length (bb_storage b) + 5 * length fs"
  using assms
proof (induction fs arbitrary: b)
  case (Cons f fs)
  obtain v n where f: "f = (v, n)" by (cases f)
  with Cons.prems have n: "n \<le> 32" by auto
  with Cons.prems obtain b' where b': "WriteBits v n b = Inr b'" "write_ok b'"
      "written_bits b' = written_bits b @ msb_bits n v" "bb_rpos b' = bb_rpos b"
      "length (bb_storage b') = length (bb_storage b) + (8 - bb_bitpos b + n) div 8"
    using WriteBits_spec [of b n v] by auto
  have "(8 - bb_bitpos b + n) div 8 \<le> 5" using n by linarith
  then have l: "length (bb_storage b') \<le> length (bb_storage b) + 5" using b'(5) by simp
  with Cons.IH [of b'] Cons.prems b' obtain b'' where "write_fields fs b' = Inr b''" "write_ok b''"
     "written_bits b'' = written_bits b' @ field_bits fs" "bb_rpos b'' = bb_rpos b'"
     "length (bb_storage b'') \<le> length (bb_storage b') + 5 * length fs" by auto
  with b' l f show ?case by auto
qed simp

lemma FlushBits_spec:
  assumes "write_ok b" "length (bb_storage b) + 1 < 100000000"
  shows "\<exists>b'. FlushBits b = Inr b' \<and> bb_bitpos b' = 8 \<and> bb_rpos b' = bb_rpos b
    \<and> length (bb_storage b') \<le> length (bb_storage b) + 1
    \<and> (\<exists>pad. bytes_bits (bb_storage b') = written_bits b @ pad)"
proof (cases "bb_bitpos b = 8")
  case True
  with assms show ?thesis by (simp add: FlushBits_def written_bits_def write_ok_def)
next
  case False
  let ?b = "b\<lparr>bb_bitpos := 8\<rparr>"
  have "ByteBuffer_append [bb_curbitval b] ?b = Inr (?b\<lparr>bb_storage := bb_storage b @ [bb_curbitval b], bb_wpos := bb_wpos b + 1\<rparr>)"
    using assms by (simp add: append_aligned write_ok_def)
  moreover have "msb_bits 8 (bb_curbitval b) = high_bits (bb_bitpos b) (bb_curbitval b) @ msb_bits (bb_bitpos b) (bb_curbitval b)"
  proof -
    have "8 = (8 - bb_bitpos b) + bb_bitpos b" using assms by (simp add: write_ok_def)
    then have "msb_bits 8 (bb_curbitval b) = msb_bits (8 - bb_bitpos b) (drop_bit (bb_bitpos b) (bb_curbitval b)) @ msb_bits (bb_bitpos b) (bb_curbitval b)"
      using msb_bits_add by metis
    moreover have "msb_bits (8 - bb_bitpos b) (drop_bit (bb_bitpos b) (bb_curbitval b)) = high_bits (bb_bitpos b) (bb_curbitval b)"
      using assms by (intro nth_equalityI) (auto simp: bit_drop_bit_eq write_ok_def)
    ultimately show ?thesis by simp
  qed
  ultimately show ?thesis using False assms
    by (auto simp: FlushBits_via_append written_bits_def write_ok_def)
qed

lemma msb_bits_value:
  assumes "n \<le> 32" and "\<And>i. bit w i \<longleftrightarrow> i < n \<and> (msb_bits n (v :: u64) @ rest) ! (n - 1 - i)"
  shows "(w :: u32) = ucast (take_bit n v)"
proof (rule bit_word_eqI)
  fix i assume "i < LENGTH(32)"
  then show "bit w i = bit (ucast (take_bit n v) :: u32) i"
    using assms(1) by (auto simp: assms(2) nth_append bit_ucast_iff bit_take_bit_iff)
qed

lemma read_fields_spec:
  assumes "read_ok b" "\<forall>(v, n) \<in> set fs. n \<le> 32" "unread_bits b = field_bits fs @ rest"
  shows "\<exists>b'. read_fields (map snd fs) b = Inr (map (\<lambda>(v, n). ucast (take_bit n v)) fs, b')
     \<and> unread_bits b' = rest"
  using assms
proof (induction fs arbitrary: b)
  case (Cons f fs)
  obtain v n where f: "f = (v, n)" by (cases f)
  with Cons.prems have n: "n \<le> 32" "n \<le> length (unread_bits b)" by auto
  from ReadBits_spec [OF Cons.prems(1) n] obtain w b' where w: "ReadBits n b = Inr (w, b')" "read_ok b'"
    "unread_bits b' = drop n (unread_bits b)" "\<And>i. bit w i \<longleftrightarrow> i < n \<and> unread_bits b ! (n - 1 - i)" by blast
  have "w = ucast (take_bit n v)"
    using n w(4) Cons.prems(3) f by (intro msb_bits_value) auto
  moreover have "unread_bits b' = field_bits fs @ rest" using w(3) Cons.prems(3) f by simp
  with Cons.IH [OF w(2)] Cons.prems(2) obtain b'' where
    "read_fields (map snd fs) b' = Inr (map (\<lambda>(v, n). ucast (take_bit n v)) fs, b'')" "unread_bits b'' = rest" by auto
  ultimately show ?case using w(1) f by simp
qed simp

text \<open>
  C13: Any list of bit fields of at most 32 bits written to an empty buffer with \<^verbatim>\<open>WriteBits\<close> and
  flushed is read back by \<^verbatim>\<open>ReadBits\<close> with the same widths as the low bits of the values written.
\<close>

theorem bit_fields_roundtrip:
  assumes "\<forall>(v, n) \<in> set fs. n \<le> 32" "length fs < 10000000"
  shows "\<exists>b1 b2 b3. write_fields fs ByteBuffer_empty = Inr b1 \<and> FlushBits b1 = Inr b2
     \<and> read_fields (map snd fs) b2 = Inr (map (\<lambda>(v, n). ucast (take_bit n v)) fs, b3)"
proof -
  have e: "write_ok ByteBuffer_empty" "written_bits ByteBuffer_empty = []" "bb_rpos ByteBuffer_empty = 0"
    by (simp_all add: write_ok_def ByteBuffer_empty_def InitialBitPos_def written_bits_def)
  have l: "length (bb_storage ByteBuffer_empty) = 0" by (simp add: ByteBuffer_empty_def)
  obtain b1 where b1: "write_fields fs ByteBuffer_empty = Inr b1" "write_ok b1" "written_bits b1 = field_bits fs"
      "bb_rpos b1 = 0" "length (bb_storage b1) \<le> 5 * length fs"
    using write_fields_spec [OF e(1) assms(1)] assms(2) e l by auto
  obtain b2 pad where b2: "FlushBits b1 = Inr b2" "bb_bitpos b2 = 8" "bb_rpos b2 = 0"
      "length (bb_storage b2) \<le> length (bb_storage b1) + 1" "bytes_bits (bb_storage b2) = field_bits fs @ pad"
    using FlushBits_spec [OF b1(2)] b1 assms(2) by auto
  have "read_ok b2" "unread_bits b2 = field_bits fs @ pad"
    using b1 b2 assms(2) by (auto simp: read_ok_def unread_bits_def)
  from read_fields_spec [OF this(1) assms(1) this(2)] b1(1) b2(1) show ?thesis by blast
qed


lemma bit_fields_roundtrip_witness:
  "\<exists>b1 b2 b3. write_fields [(5, 3), (0x1FF, 12), (1, 1), (0xDEADBEEF, 32)] ByteBuffer_empty = Inr b1
     \<and> FlushBits b1 = Inr b2
     \<and> read_fields [3, 12, 1, 32] b2 = Inr ([5, 0x1FF, 1, 0xDEADBEEF], b3)"
  using bit_fields_roundtrip [of "[(5, 3), (0x1FF, 12), (1, 1), (0xDEADBEEF, 32)]"]
  by (simp add: take_bit_eq_mod)

section \<open>Scalars, strings and patching\<close>


lemma bit_le_word:
  "bit (le_word bs :: 'a::len word) i \<longleftrightarrow> i < LENGTH('a) \<and> i div 8 < length bs \<and> bit (bs ! (i div 8)) (i mod 8)"
proof (induction bs arbitrary: i)
  case Nil
  then show ?case by (simp add: le_word_def)
next
  case (Cons b bs)
  have step: "le_word (b # bs) = (push_bit 8 (le_word bs) OR ucast b :: 'a word)"
    by (simp add: le_word_def)
  show ?case
  proof (cases "i < 8")
    case True
    then show ?thesis unfolding step
      by (auto simp: bit_or_iff bit_push_bit_iff bit_ucast_iff)
  next
    case False
    have "\<not> bit b i" using False by (auto dest: bit_imp_le_length)
    moreover have "i div 8 = Suc ((i - 8) div 8)" "i mod 8 = (i - 8) mod 8"
      using False by (simp_all add: le_div_geq le_mod_geq)
    ultimately show ?thesis unfolding step using False Cons.IH [of "i - 8"]
      by (auto simp: bit_or_iff bit_push_bit_iff bit_ucast_iff)
  qed
qed

lemma le_word_le_bytes:
  assumes "8 dvd LENGTH('a)"
  shows "le_word (le_bytes w) = (w :: 'a::len word)"
proof (rule bit_word_eqI)
  fix i assume i: "i < LENGTH('a)"
  then have "i div 8 < LENGTH('a) div 8"
    using assms by (metis div_less_mono zero_less_numeral dvd_imp_mod_0 div_le_mono  mod_less_divisor less_mult_imp_div_less dvd_div_mult_self)
  moreover have "bit w (8 * (i div 8) + i mod 8) = bit w i" by simp
  ultimately show "bit (le_word (le_bytes w) :: 'a word) i = bit w i"
    using i by (simp add: bit_le_word le_bytes_def bit_ucast_iff bit_drop_bit_eq del: mult_div_mod_eq div_mod_decomp)
qed

lemma length_le_bytes [simp]: "length (le_bytes (w :: 'a::len word)) = LENGTH('a) div 8"
  by (simp add: le_bytes_def)

text \<open>
  A scalar of any whole number of bytes appended at the end of an aligned buffer is read back at the
  position it was written to, and the write position advances by its size.
\<close>

theorem scalar_roundtrip:
  fixes x :: "'a::len word"
  assumes "8 dvd LENGTH('a)" "bb_bitpos b = 8" "bb_wpos b = length (bb_storage b)"
    "length (bb_storage b) + LENGTH('a) div 8 < 100000000"
  shows "\<exists>b'. append_scalar x b = Inr b' \<and> read_scalar_at (bb_wpos b) b' = Inr x
     \<and> bb_wpos b' = bb_wpos b + LENGTH('a) div 8"
proof -
  have "LENGTH('a) div 8 \<noteq> 0" using assms(1) by (metis dvd_div_eq_0_iff len_not_eq_0 dvd_0_left_iff)
  then have "le_bytes x \<noteq> []" by (simp flip: length_0_conv)
  then have "append_scalar x b = Inr (b\<lparr>bb_storage := bb_storage b @ le_bytes x, bb_wpos := bb_wpos b + LENGTH('a) div 8\<rparr>)"
    using assms by (simp add: append_scalar_def append_aligned)
  moreover have "length (bb_storage b) + LENGTH('a) div 8 < 2 ^ 64" using assms(4) by simp
  ultimately show ?thesis using assms(3)
    by (simp add: read_scalar_at_def Let_def le_word_le_bytes [OF assms(1)])
qed

lemma scalar_roundtrip_witness:
  "\<exists>b'. append_scalar (0x12345678 :: u32) (ByteBuffer_of_vector [1]) = Inr b' \<and>
     read_scalar_at 1 b' = Inr (0x12345678 :: u32) \<and> bb_wpos b' = 5"
  using scalar_roundtrip [where x = "0x12345678 :: u32" and b = "ByteBuffer_of_vector [1]"]
  by (simp add: ByteBuffer_of_vector_def InitialBitPos_def)

lemma takeWhile_append_zero: "0 \<notin> set s \<Longrightarrow> takeWhile (\<lambda>c. c \<noteq> 0) (s @ 0 # r) = (s :: u8 list)"
  by (induction s) auto

text \<open>
  A string without NUL bytes that is valid UTF-8 for the (parameter) validator, appended with its
  terminator, is read back by \<^verbatim>\<open>ReadCString\<close>, which leaves the read position behind the terminator.
\<close>

theorem cstring_roundtrip:
  assumes "bb_bitpos b = 8" "bb_wpos b = length (bb_storage b)" "bb_rpos b = bb_wpos b"
    "0 \<notin> set s" "valid_utf8 s" "length (bb_storage b) + length s + 1 < 100000000"
  shows "\<exists>b'. append_cstring s b = Inr b' \<and>
     ReadCString valid_utf8 req b' = Inr (s, (ResetBitPos b')\<lparr>bb_rpos := bb_wpos b'\<rparr>)"
proof -
  let ?b1 = "b\<lparr>bb_storage := bb_storage b @ s, bb_wpos := bb_wpos b + length s\<rparr>"
  let ?b' = "b\<lparr>bb_storage := bb_storage b @ s @ [0], bb_wpos := bb_wpos b + length s + 1\<rparr>"
  have "(if length s \<noteq> 0 then ByteBuffer_append s b else Inr b) = Inr ?b1"
    using assms by (auto simp: append_aligned)
  moreover have "ByteBuffer_append [0] ?b1 = Inr ?b'"
    using assms by (simp add: append_aligned)
  ultimately have "append_cstring s b = Inr ?b'"
    by (simp add: append_cstring_def append_scalar_u8)
  moreover have "takeWhile (\<lambda>c. c \<noteq> 0) (s @ [0]) = s"
    using takeWhile_append_zero [of s "[]"] assms(4) by simp
  ultimately show ?thesis using assms
    by (simp add: ReadCString_def ResetBitPos_def Let_def)
qed

lemma cstring_roundtrip_witness:
  "\<exists>b'. append_cstring [72, 105] (ByteBuffer_of_vector []) = Inr b' \<and>
     ReadCString (list_all (\<lambda>c. c < 128)) True b' = Inr ([72, 105], (ResetBitPos b')\<lparr>bb_rpos := bb_wpos b'\<rparr>)"
  by (rule cstring_roundtrip) (simp_all add: ByteBuffer_of_vector_def InitialBitPos_def)

lemma nth_bytes_bits:
  "j < 8 * length s \<Longrightarrow> bytes_bits s ! j = bit (s ! (j div 8)) (7 - j mod 8)"
proof (induction s arbitrary: j)
  case (Cons b s)
  show ?case
  proof (cases "j < 8")
    case False
    then have "j div 8 = Suc ((j - 8) div 8)" "j mod 8 = (j - 8) mod 8"
      by (simp_all add: le_div_geq le_mod_geq)
    with Cons False show ?thesis by (simp add: nth_append)
  qed (simp add: nth_append)
qed simp

lemma bit_two_power: "bit (2 ^ n :: 'a::len word) k \<longleftrightarrow> k = n \<and> k < LENGTH('a)"
  by (auto simp: bit_exp_iff)

lemma same_byte: "j div 8 = q div 8 \<Longrightarrow> 7 - j mod 8 = 7 - q mod 8 \<longleftrightarrow> j = (q :: nat)"
proof
  assume d: "j div 8 = q div 8" and e: "7 - j mod 8 = 7 - q mod 8"
  have "a < 8 \<Longrightarrow> c < 8 \<Longrightarrow> 7 - a = 7 - c \<Longrightarrow> a = c" for a c :: nat by arith
  from this [OF _ _ e] have "j mod 8 = q mod 8" by simp
  with d have "8 * (j div 8) + j mod 8 = 8 * (q div 8) + q mod 8" by simp
  then show "j = q" by simp
qed simp

lemma PutBit_at_bits:
  assumes "pos + i < 8 * length s"
  shows "length (PutBit_at pos v n i s) = length s"
    and "j < 8 * length s \<Longrightarrow>
      bytes_bits (PutBit_at pos v n i s) ! j = (if j = pos + i then bit v (n - i - 1) else bytes_bits s ! j)"
proof -
  show l: "length (PutBit_at pos v n i s) = length s" by (simp add: PutBit_at_def Let_def)
  define q where "q = pos + i"
  define x where "x = bit v (n - i - 1)"
  assume j: "j < 8 * length s"
  have w: "q div 8 < length s" using assms by (simp add: less_mult_imp_div_less mult.commute q_def)
  have P: "PutBit_at pos v n i s = (if x then s[q div 8 := (s ! (q div 8)) OR 2 ^ (7 - q mod 8)]
      else s[q div 8 := (s ! (q div 8)) AND NOT (2 ^ (7 - q mod 8))])"
    by (simp add: PutBit_at_def Let_def q_def x_def)
  have "bit (PutBit_at pos v n i s ! (j div 8)) (7 - j mod 8) = (if j = q then x else bit (s ! (j div 8)) (7 - j mod 8))"
  proof (cases "j div 8 = q div 8")
    case True
    have eq: "7 - j mod 8 = 7 - q mod 8 \<longleftrightarrow> j = q" using True by (rule same_byte)
    define y where "y = s ! (q div 8)"
    have lt: "7 - j mod 8 < 8" by simp
    have "bit (y OR 2 ^ (7 - q mod 8)) (7 - j mod 8) \<longleftrightarrow> j = q \<or> bit y (7 - j mod 8)"
      using eq lt by (simp only: bit_or_iff bit_two_power) auto
    moreover have "bit (y AND NOT (2 ^ (7 - q mod 8))) (7 - j mod 8) \<longleftrightarrow> j \<noteq> q \<and> bit y (7 - j mod 8)"
      using eq lt by (simp only: bit_and_iff bit_not_iff bit_two_power) auto
    ultimately show ?thesis using True w unfolding P y_def by (cases "j = q") simp_all
  next
    case False
    then show ?thesis unfolding P by auto
  qed
  then show "bytes_bits (PutBit_at pos v n i s) ! j = (if j = pos + i then bit v (n - i - 1) else bytes_bits s ! j)"
    using j l by (simp add: nth_bytes_bits q_def x_def)
qed

text \<open>
  \<^verbatim>\<open>PutBits\<close> inside the storage replaces exactly the \<open>n\<close> bits at the bit position by the
  low \<open>n\<close> bits of the value, most significant first, and changes nothing else.
\<close>

theorem PutBits_spec:
  assumes "0 < n" "pos + n \<le> 8 * length (bb_storage b)" "length (bb_storage b) < 100000000"
  shows "\<exists>b'. PutBits pos v n b = Inr b' \<and> b' = b\<lparr>bb_storage := bb_storage b'\<rparr>
     \<and> bytes_bits (bb_storage b') =
        take pos (bytes_bits (bb_storage b)) @ msb_bits n v @ drop (pos + n) (bytes_bits (bb_storage b))"
proof -
  let ?s = "bb_storage b"
  have "length (fold (PutBit_at pos v n) [0..<k] ?s) = length ?s \<and>
      (\<forall>j < 8 * length ?s. bytes_bits (fold (PutBit_at pos v n) [0..<k] ?s) ! j =
        (if pos \<le> j \<and> j < pos + k then bit v (n - (j - pos) - 1) else bytes_bits ?s ! j))" if "k \<le> n" for k
    using that
  proof (induction k)
    case (Suc k)
    then have IH: "length (fold (PutBit_at pos v n) [0..<k] ?s) = length ?s"
      "\<And>j. j < 8 * length ?s \<Longrightarrow> bytes_bits (fold (PutBit_at pos v n) [0..<k] ?s) ! j =
        (if pos \<le> j \<and> j < pos + k then bit v (n - (j - pos) - 1) else bytes_bits ?s ! j)" by auto
    have "pos + k < 8 * length ?s" using Suc.prems assms by simp
    with IH PutBit_at_bits [of pos k "fold (PutBit_at pos v n) [0..<k] ?s"] show ?case
      by (auto simp: less_Suc_eq)
  qed auto
  from this [of n] have F: "length (fold (PutBit_at pos v n) [0..<n] ?s) = length ?s"
    "\<And>j. j < 8 * length ?s \<Longrightarrow> bytes_bits (fold (PutBit_at pos v n) [0..<n] ?s) ! j =
        (if pos \<le> j \<and> j < pos + n then bit v (n - (j - pos) - 1) else bytes_bits ?s ! j)" by auto
  have "bytes_bits (fold (PutBit_at pos v n) [0..<n] ?s) =
      take pos (bytes_bits ?s) @ msb_bits n v @ drop (pos + n) (bytes_bits ?s)"
    using assms F by (intro nth_equalityI) (auto simp: nth_append)
  with assms show ?thesis by (simp add: PutBits_def)
qed

lemma PutBits_spec_witness:
  "\<exists>b'. PutBits 5 0x2D 6 (ByteBuffer_of_vector [0xFF, 0xFF]) = Inr b' \<and>
     b' = (ByteBuffer_of_vector [0xFF, 0xFF])\<lparr>bb_storage := bb_storage b'\<rparr> \<and>
     bytes_bits (bb_storage b') = take 5 (bytes_bits [0xFF, 0xFF]) @ msb_bits 6 (0x2D :: u64) @ drop 11 (bytes_bits [0xFF, 0xFF])"
  using PutBits_spec [of 6 5 "ByteBuffer_of_vector [0xFF, 0xFF]" "0x2D"]
  by (simp add: ByteBuffer_of_vector_def)

end
