(* ===== verification/StdContainers.thy ===== *)
theory StdContainers imports Prelude "HOL-Library.Multiset" begin

text \<open>
  The standard containers the components share, as the C++ standard specifies them.
  \<^verbatim>\<open>std::multimap\<close> is a key-sorted list of pairs; an insertion goes behind the entries with an
  equal key (\<^verbatim>\<open>emplace\<close>, \<^verbatim>\<open>insert\<close>, hinted \<^verbatim>\<open>insert\<close> at the end and \<^verbatim>\<open>merge\<close> all do).
  \<^verbatim>\<open>std::map\<close> and \<^verbatim>\<open>std::set\<close> are strictly sorted lists, so that iteration order, which several
  components depend on, is part of the model. The locale \<open>ordered_queue\<close> is the interface through
  which schedulers use the multimap: a time-ordered queue that is first-in first-out per time.
\<close>

section \<open>Multimaps\<close>

type_synonym ('k, 'v) multimap = "('k \<times> 'v) list"

fun mm_insert :: "'k::linorder \<Rightarrow> 'v \<Rightarrow> ('k, 'v) multimap \<Rightarrow> ('k, 'v) multimap" where
  "mm_insert k v [] = [(k, v)]"
| "mm_insert k v ((k', v') # m) = (if k' \<le> k then (k', v') # mm_insert k v m else (k, v) # (k', v') # m)"

definition mm_sorted :: "('k::linorder, 'v) multimap \<Rightarrow> bool" where
  "mm_sorted m \<longleftrightarrow> sorted (map fst m)"

lemma mm_sorted_simps [simp]:
  "mm_sorted []"
  "mm_sorted ((k, v) # m) \<longleftrightarrow> (\<forall>x \<in> set m. k \<le> fst x) \<and> mm_sorted m"
  by (auto simp: mm_sorted_def)

lemma mset_mm_insert [simp]: "mset (mm_insert k v m) = add_mset (k, v) (mset m)"
  by (induction m) auto

lemma set_mm_insert [simp]: "set (mm_insert k v m) = insert (k, v) (set m)"
  by (metis mset_mm_insert set_mset_add_mset_insert set_mset_mset)

lemma length_mm_insert [simp]: "length (mm_insert k v m) = Suc (length m)"
  by (metis mset_mm_insert size_add_mset size_mset)

lemma mm_insert_not_Nil [simp]: "mm_insert k v m \<noteq> []"
  by (cases m) (auto split: if_splits)

lemma mm_sorted_insert [simp]: "mm_sorted m \<Longrightarrow> mm_sorted (mm_insert k v m)"
proof (induction m)
  case (Cons x m)
  obtain a b where x: "x = (a, b)" by (cases x)
  show ?case
  proof (cases "a \<le> k")
    case False
    then have "k \<le> a" by simp
    with Cons.prems x False show ?thesis by (auto intro: order.trans)
  qed (use Cons x in auto)
qed simp

lemma mm_sorted_filter: "mm_sorted m \<Longrightarrow> mm_sorted (filter P m)"
  by (induction m) auto

lemma mm_sorted_append:
  "mm_sorted (m @ n) \<longleftrightarrow> mm_sorted m \<and> mm_sorted n \<and> (\<forall>x \<in> set m. \<forall>y \<in> set n. fst x \<le> fst y)"
  by (auto simp: mm_sorted_def sorted_append)

lemma mm_insert_append_last:
  "\<forall>x \<in> set m. fst x \<le> k \<Longrightarrow> mm_insert k v m = m @ [(k, v)]"
  by (induction m) auto

section \<open>The queue interface of schedulers\<close>

locale ordered_queue =
  fixes ins :: "'k::linorder \<Rightarrow> 'v \<Rightarrow> 'q \<Rightarrow> 'q"
    and entries :: "'q \<Rightarrow> ('k \<times> 'v) list"
    and wf :: "'q \<Rightarrow> bool"
  assumes wf_sorted: "wf q \<Longrightarrow> sorted (map fst (entries q))"
    and wf_ins: "wf q \<Longrightarrow> wf (ins k v q)"
    and entries_ins: "wf q \<Longrightarrow> mset (entries (ins k v q)) = add_mset (k, v) (mset (entries q))"
    and fifo_ins: "wf q \<Longrightarrow> filter (\<lambda>x. fst x = j) (entries (ins k v q)) =
        filter (\<lambda>x. fst x = j) (entries q) @ (if j = k then [(k, v)] else [])"
begin

lemma wf_ins_all: "wf q \<Longrightarrow> wf (fold (\<lambda>(k, v). ins k v) xs q)"
  by (induction xs arbitrary: q) (auto simp: wf_ins)

lemma entries_ins_all:
  "wf q \<Longrightarrow> mset (entries (fold (\<lambda>(k, v). ins k v) xs q)) = mset xs + mset (entries q)"
  by (induction xs arbitrary: q) (auto simp: wf_ins entries_ins)

lemma fifo_ins_all:
  "wf q \<Longrightarrow> filter (\<lambda>x. fst x = j) (entries (fold (\<lambda>(k, v). ins k v) xs q)) =
     filter (\<lambda>x. fst x = j) (entries q) @ filter (\<lambda>x. fst x = j) xs"
  by (induction xs arbitrary: q) (auto simp: wf_ins fifo_ins)

lemma in_entries_ins: "wf q \<Longrightarrow> x \<in> set (entries (ins k v q)) \<longleftrightarrow> x = (k, v) \<or> x \<in> set (entries q)"
  using entries_ins [of q k v] by (metis insert_iff set_mset_add_mset_insert set_mset_mset)

lemma head_minimal:
  "wf q \<Longrightarrow> entries q = (k, v) # r \<Longrightarrow> x \<in> set (entries q) \<Longrightarrow> k \<le> fst x"
  using wf_sorted [of q] by auto

end

interpretation mmq: ordered_queue mm_insert "\<lambda>m. m" mm_sorted
proof (unfold_locales)
  fix j k :: "'a" and v :: 'b and q :: "('a \<times> 'b) list"
  assume "mm_sorted q"
  then show "filter (\<lambda>x. fst x = j) (mm_insert k v q) =
      filter (\<lambda>x. fst x = j) q @ (if j = k then [(k, v)] else [])"
  proof (induction q)
    case (Cons x q)
    obtain a b where x: "x = (a, b)" by (cases x)
    show ?case
    proof (cases "a \<le> k")
      case False
      with Cons.prems x have "filter (\<lambda>y. fst y = k) (x # q) = []"
        by (auto simp: filter_empty_conv)
      with False x show ?thesis by auto
    qed (use Cons x in auto)
  qed simp
qed (auto simp: mm_sorted_def [symmetric])

text \<open>Inserting the entries of one container into another, in their order.\<close>

definition mm_insert_all :: "('k::linorder, 'v) multimap \<Rightarrow> ('k, 'v) multimap \<Rightarrow> ('k, 'v) multimap" where
  "mm_insert_all xs m = fold (\<lambda>(k, v). mm_insert k v) xs m"

lemmas mm_insert_all_facts =
  mmq.wf_ins_all [folded mm_insert_all_def]
  mmq.entries_ins_all [folded mm_insert_all_def]
  mmq.fifo_ins_all [folded mm_insert_all_def]

section \<open>Ordered maps and sets\<close>

type_synonym ('k, 'v) omap = "('k \<times> 'v) list"

definition om_ok :: "('k::linorder, 'v) omap \<Rightarrow> bool" where
  "om_ok m \<longleftrightarrow> sorted_wrt (<) (map fst m)"

fun om_find :: "'k \<Rightarrow> ('k, 'v) omap \<Rightarrow> 'v option" where
  "om_find k [] = None"
| "om_find k ((k', v) # m) = (if k = k' then Some v else om_find k m)"

text \<open>\<^verbatim>\<open>m[k] = v\<close>: overwrite or insert at the key's place.\<close>

fun om_set :: "'k::linorder \<Rightarrow> 'v \<Rightarrow> ('k, 'v) omap \<Rightarrow> ('k, 'v) omap" where
  "om_set k v [] = [(k, v)]"
| "om_set k v ((k', v') # m) =
     (if k = k' then (k, v) # m else if k < k' then (k, v) # (k', v') # m else (k', v') # om_set k v m)"

definition om_erase :: "'k \<Rightarrow> ('k, 'v) omap \<Rightarrow> ('k, 'v) omap" where
  "om_erase k m = filter (\<lambda>x. fst x \<noteq> k) m"

lemma om_find_eq_map_of: "om_find k m = map_of m k"
  by (induction m) auto

lemma om_ok_simps [simp]:
  "om_ok []"
  "om_ok ((k, v) # m) \<longleftrightarrow> (\<forall>x \<in> set m. k < fst x) \<and> om_ok m"
  by (auto simp: om_ok_def)

lemma om_find_set [simp]: "om_find j (om_set k v m) = (if j = k then Some v else om_find j m)"
  by (induction m) auto

lemma set_om_set_keys: "fst ` set (om_set k v m) = insert k (fst ` set m)"
proof (induction m)
  case (Cons x m)
  obtain a b where x: "x = (a, b)" by (cases x)
  have "fst ` set (om_set k v (x # m)) = insert k (insert a (fst ` set m))"
    using Cons x by (simp add: insert_commute)
  then show ?case using x by simp
qed simp

lemma om_ok_set [simp]: "om_ok m \<Longrightarrow> om_ok (om_set k v m)"
proof (induction m)
  case (Cons x m)
  obtain a b where x: "x = (a, b)" by (cases x)
  have "\<forall>y \<in> set (om_set k v m). a < fst y" if "a < k" "\<forall>y \<in> set m. a < fst y"
    using that set_om_set_keys [of k v m] by (metis (no_types, lifting) imageE image_eqI insertE)
  with Cons x show ?case by auto
qed simp

lemma om_find_erase [simp]: "om_find j (om_erase k m) = (if j = k then None else om_find j m)"
  by (induction m) (auto simp: om_erase_def)

lemma om_ok_filter: "om_ok m \<Longrightarrow> om_ok (filter P m)"
  by (induction m) auto

lemma om_ok_erase [simp]: "om_ok m \<Longrightarrow> om_ok (om_erase k m)"
  by (simp add: om_erase_def om_ok_filter)

lemma om_find_None_iff: "om_find k m = None \<longleftrightarrow> k \<notin> fst ` set m"
  by (simp add: om_find_eq_map_of map_of_eq_None_iff)

lemma om_find_in_set: "om_find k m = Some v \<Longrightarrow> (k, v) \<in> set m"
  by (simp add: om_find_eq_map_of map_of_SomeD)

lemma om_ok_distinct: "om_ok m \<Longrightarrow> distinct (map fst m)"
  by (simp add: om_ok_def strict_sorted_iff)

lemma om_find_iff: "om_ok m \<Longrightarrow> om_find k m = Some v \<longleftrightarrow> (k, v) \<in> set m"
  by (simp add: om_find_eq_map_of om_ok_distinct map_of_eq_Some_iff)

text \<open>The map interface: what clients of \<^verbatim>\<open>std::map\<close> and \<^verbatim>\<open>std::unordered_map\<close> rely on.\<close>

locale std_map =
  fixes find :: "'k \<Rightarrow> 'm \<Rightarrow> 'v option"
    and upd :: "'k \<Rightarrow> 'v \<Rightarrow> 'm \<Rightarrow> 'm"
    and erase :: "'k \<Rightarrow> 'm \<Rightarrow> 'm"
    and wf :: "'m \<Rightarrow> bool"
  assumes find_upd: "wf m \<Longrightarrow> find j (upd k v m) = (if j = k then Some v else find j m)"
    and find_erase: "wf m \<Longrightarrow> find j (erase k m) = (if j = k then None else find j m)"
    and wf_upd: "wf m \<Longrightarrow> wf (upd k v m)"
    and wf_erase: "wf m \<Longrightarrow> wf (erase k m)"
begin

lemma upd_upd: "wf m \<Longrightarrow> find j (upd k v (upd k w m)) = find j (upd k v m)"
  by (simp add: find_upd wf_upd)

lemma erase_upd: "wf m \<Longrightarrow> find j (erase k (upd k v m)) = find j (erase k m)"
  by (simp add: find_upd find_erase wf_upd)

lemma upd_other_commute:
  "wf m \<Longrightarrow> k \<noteq> l \<Longrightarrow> find j (upd k v (upd l w m)) = find j (upd l w (upd k v m))"
  by (simp add: find_upd wf_upd)

end

interpretation om: std_map om_find om_set om_erase om_ok
  by unfold_locales simp_all

interpretation fm: std_map "\<lambda>k m. m k" "\<lambda>k v m. m(k \<mapsto> v)" "\<lambda>k m. m(k := None)" "\<lambda>_. True"
  by unfold_locales simp_all

section \<open>Sets\<close>

text \<open>\<^verbatim>\<open>std::set\<close> as a strictly sorted list, iterated in that order.\<close>

definition ss_ok :: "'a::linorder list \<Rightarrow> bool" where
  "ss_ok s \<longleftrightarrow> sorted_wrt (<) s"

fun ss_insert :: "'a::linorder \<Rightarrow> 'a list \<Rightarrow> 'a list" where
  "ss_insert x [] = [x]"
| "ss_insert x (y # s) = (if x = y then y # s else if x < y then x # y # s else y # ss_insert x s)"

definition ss_erase :: "'a \<Rightarrow> 'a list \<Rightarrow> 'a list" where
  "ss_erase x s = filter (\<lambda>y. y \<noteq> x) s"

lemma ss_ok_simps [simp]:
  "ss_ok []"
  "ss_ok (x # s) \<longleftrightarrow> (\<forall>y \<in> set s. x < y) \<and> ss_ok s"
  by (simp_all add: ss_ok_def)

text \<open>The set interface.\<close>

locale std_set =
  fixes insert_el :: "'a \<Rightarrow> 's \<Rightarrow> 's" and erase_el :: "'a \<Rightarrow> 's \<Rightarrow> 's"
    and elems :: "'s \<Rightarrow> 'a set" and wf :: "'s \<Rightarrow> bool"
  assumes elems_insert: "wf s \<Longrightarrow> elems (insert_el x s) = insert x (elems s)"
    and elems_erase: "wf s \<Longrightarrow> elems (erase_el x s) = elems s - {x}"
    and wf_insert: "wf s \<Longrightarrow> wf (insert_el x s)"
    and wf_erase: "wf s \<Longrightarrow> wf (erase_el x s)"
begin

lemma insert_all: "wf s \<Longrightarrow> elems (fold insert_el xs s) = set xs \<union> elems s \<and> wf (fold insert_el xs s)"
  by (induction xs arbitrary: s) (auto simp: elems_insert wf_insert)

lemma erase_all: "wf s \<Longrightarrow> elems (fold erase_el xs s) = elems s - set xs \<and> wf (fold erase_el xs s)"
  by (induction xs arbitrary: s) (auto simp: elems_erase wf_erase)

end

lemma set_ss_insert [simp]: "set (ss_insert x s) = insert x (set s)"
  by (induction s) auto

lemma ss_ok_insert [simp]: "ss_ok s \<Longrightarrow> ss_ok (ss_insert x s)"
  by (induction s) auto

lemma set_ss_erase [simp]: "set (ss_erase x s) = set s - {x}"
  by (auto simp: ss_erase_def)

lemma ss_ok_erase [simp]: "ss_ok s \<Longrightarrow> ss_ok (ss_erase x s)"
  by (simp add: ss_erase_def ss_ok_def sorted_wrt_filter)

interpretation ss: std_set ss_insert ss_erase set ss_ok
  by unfold_locales simp_all

lemma ss_ok_distinct: "ss_ok s \<Longrightarrow> distinct s"
  by (induction s) auto

section \<open>Flat sets and sorted intersection\<close>

text \<open>
  \<^verbatim>\<open>Trinity::Containers::FlatSet\<close> (\<^verbatim>\<open>src/src/common/Containers/FlatSet.h\<close>): a sorted vector searched with
  \<^verbatim>\<open>std::lower_bound\<close>, which returns the first position whose key is not less than the one sought.
  The comparison reads one key field, given as \<open>key\<close>.
\<close>

definition fs_lower_bound :: "('a \<Rightarrow> 'k::linorder) \<Rightarrow> 'k \<Rightarrow> 'a list \<Rightarrow> 'a list \<times> 'a list" where
  "fs_lower_bound key k s = (takeWhile (\<lambda>x. key x < k) s, dropWhile (\<lambda>x. key x < k) s)"

definition fs_find :: "('a \<Rightarrow> 'k::linorder) \<Rightarrow> 'k \<Rightarrow> 'a list \<Rightarrow> 'a option" where
  "fs_find key k s =
     (case snd (fs_lower_bound key k s) of [] \<Rightarrow> None | x # _ \<Rightarrow> if k < key x then None else Some x)"

definition fs_emplace :: "('a \<Rightarrow> 'k::linorder) \<Rightarrow> 'a \<Rightarrow> 'a list \<Rightarrow> 'a list \<times> bool" where
  "fs_emplace key e s =
     (case fs_lower_bound key (key e) s of
        (before, []) \<Rightarrow> (before @ [e], True)
      | (before, x # after) \<Rightarrow> if \<not> key e < key x then (s, False) else (before @ e # x # after, True))"

definition fs_erase :: "('a \<Rightarrow> 'k::linorder) \<Rightarrow> 'k \<Rightarrow> 'a list \<Rightarrow> 'a list" where
  "fs_erase key k s =
     (case fs_lower_bound key k s of
        (before, []) \<Rightarrow> s
      | (before, x # after) \<Rightarrow> if k < key x then s else before @ after)"

definition fs_ok :: "('a \<Rightarrow> 'k::linorder) \<Rightarrow> 'a list \<Rightarrow> bool" where
  "fs_ok key s \<longleftrightarrow> sorted_wrt (\<lambda>x y. key x < key y) s"

lemma fs_ok_simps [simp]:
  "fs_ok key []"
  "fs_ok key (x # s) \<longleftrightarrow> (\<forall>y \<in> set s. key x < key y) \<and> fs_ok key s"
  by (simp_all add: fs_ok_def)

lemma fs_ok_append:
  "fs_ok key (s @ t) \<longleftrightarrow> fs_ok key s \<and> fs_ok key t \<and> (\<forall>x \<in> set s. \<forall>y \<in> set t. key x < key y)"
  by (simp add: fs_ok_def sorted_wrt_append)

lemma fs_dropWhile_ge: "fs_ok key s \<Longrightarrow> \<forall>x \<in> set (dropWhile (\<lambda>x. key x < k) s). k \<le> key x"
proof (induction s)
  case (Cons y s)
  show ?case
  proof (cases "key y < k")
    case True
    with Cons show ?thesis by simp
  next
    case False
    with Cons.prems have "\<forall>z \<in> set s. k \<le> key z" by (auto intro: order.strict_implies_order le_less_trans)
    with False show ?thesis by auto
  qed
qed simp

lemma fs_lower_bound_cases:
  assumes "fs_ok key s"
  obtains a b where "fs_lower_bound key k s = (a, b)" "s = a @ b" "\<forall>x \<in> set a. key x < k"
    "\<forall>x \<in> set b. k \<le> key x"
proof
  show "fs_lower_bound key k s = (takeWhile (\<lambda>x. key x < k) s, dropWhile (\<lambda>x. key x < k) s)"
    by (simp add: fs_lower_bound_def)
  show "\<forall>x \<in> set (takeWhile (\<lambda>x. key x < k) s). key x < k" by (auto dest: set_takeWhileD)
  show "\<forall>x \<in> set (dropWhile (\<lambda>x. key x < k) s). k \<le> key x"
    using assms by (rule fs_dropWhile_ge)
qed simp

lemma fs_find_iff:
  assumes "fs_ok key s"
  shows "fs_find key k s = Some x \<longleftrightarrow> x \<in> set s \<and> key x = k"
proof -
  obtain a b where *: "fs_lower_bound key k s = (a, b)" "s = a @ b" "\<forall>x \<in> set a. key x < k"
    "\<forall>x \<in> set b. k \<le> key x"
    using fs_lower_bound_cases [OF assms] by metis
  show ?thesis
  proof (cases b)
    case Nil
    with * show ?thesis by (auto simp: fs_find_def)
  next
    case (Cons y r)
    with *(2) assms have r: "\<forall>z \<in> set r. key y < key z" by (simp add: fs_ok_append)
    have a: "key x = k \<Longrightarrow> x \<notin> set a" using *(3) by auto
    have f: "fs_find key k s = (if k < key y then None else Some y)" by (simp add: fs_find_def *(1) Cons)
    have set_s: "set s = set a \<union> insert y (set r)" by (simp add: *(2) Cons)
    show ?thesis
    proof (cases "k < key y")
      case True
      with r have "\<forall>z \<in> set b. key z \<noteq> k" using Cons by auto
      with True a Cons show ?thesis by (auto simp: f set_s)
    next
      case False
      with *(4) Cons have "key y = k" by auto
      with False r a show ?thesis by (auto simp: f set_s)
    qed
  qed
qed

lemma fs_find_None_iff: "fs_ok key s \<Longrightarrow> fs_find key k s = None \<longleftrightarrow> (\<forall>x \<in> set s. key x \<noteq> k)"
  using fs_find_iff [of key s k] by (metis not_None_eq)

lemma fs_emplace_present:
  "fs_ok key s \<Longrightarrow> fs_find key (key e) s = Some x \<Longrightarrow> fs_emplace key e s = (s, False)"
  by (cases "dropWhile (\<lambda>x. key x < key e) s")
     (auto simp: fs_find_def fs_emplace_def fs_lower_bound_def split: if_splits)

lemma fs_emplace_absent:
  assumes "fs_ok key s" "fs_find key (key e) s = None"
  obtains a b where "s = a @ b" "fs_emplace key e s = (a @ e # b, True)" "fs_ok key (a @ e # b)"
proof -
  obtain a b where *: "fs_lower_bound key (key e) s = (a, b)" "s = a @ b" "\<forall>x \<in> set a. key x < key e"
    "\<forall>x \<in> set b. key e \<le> key x"
    using fs_lower_bound_cases [OF assms(1)] by metis
  have "\<forall>x \<in> set b. key e < key x"
    using * fs_find_None_iff [OF assms(1)] assms(2) by (metis UnCI order.not_eq_order_implies_strict set_append)
  then have "fs_ok key (a @ e # b)" using * assms(1) by (auto simp: fs_ok_append)
  moreover have "fs_emplace key e s = (a @ e # b, True)"
    using * \<open>\<forall>x \<in> set b. key e < key x\<close> by (cases b) (auto simp: fs_emplace_def)
  ultimately show ?thesis using that * by blast
qed

lemma fs_erase_present:
  assumes "fs_ok key s" "fs_find key k s = Some x"
  obtains a b where "s = a @ x # b" "fs_erase key k s = a @ b" "fs_ok key (a @ b)"
proof -
  obtain a b where *: "fs_lower_bound key k s = (a, b)" "s = a @ b" "\<forall>x \<in> set a. key x < k"
    "\<forall>x \<in> set b. k \<le> key x"
    using fs_lower_bound_cases [OF assms(1)] by metis
  with assms obtain b' where "b = x # b'" "\<not> k < key x"
    by (auto simp: fs_find_def split: list.splits if_splits)
  with * assms(1) show ?thesis by (intro that [of a b']) (auto simp: fs_erase_def fs_ok_append)
qed

text \<open>
  \<^verbatim>\<open>Trinity::Containers::Intersects\<close> with a predicate (\<^verbatim>\<open>Containers.h\<close>): one pass over two sorted ranges.
\<close>

fun Intersects :: "('a \<Rightarrow> 'k::linorder) \<Rightarrow> ('a \<Rightarrow> 'a \<Rightarrow> bool) \<Rightarrow> 'a list \<Rightarrow> 'a list \<Rightarrow> bool" where
  "Intersects key eq (x # xs) (y # ys) =
     (if key x < key y then Intersects key eq xs (y # ys)
      else if key y < key x then Intersects key eq (x # xs) ys
      else if \<not> eq x y then Intersects key eq xs ys
      else True)"
| "Intersects key eq _ _ = False"

lemma Intersects_iff:
  "fs_ok key xs \<Longrightarrow> fs_ok key ys \<Longrightarrow>
   Intersects key eq xs ys \<longleftrightarrow> (\<exists>x \<in> set xs. \<exists>y \<in> set ys. key x = key y \<and> eq x y)"
proof (induction key eq xs ys rule: Intersects.induct)
  case (1 key eq x xs y ys)
  consider "key x < key y" | "key y < key x" | "key x = key y" by fastforce
  then show ?case
  proof cases
    case 1
    with "1.prems" have "\<forall>z \<in> set (y # ys). key x \<noteq> key z" by auto
    with 1 "1.IH"(1) "1.prems" show ?thesis by auto
  next
    case 2
    with "1.prems" have "\<forall>z \<in> set (x # xs). key z \<noteq> key y" by auto
    with 2 "1.IH"(2) "1.prems" show ?thesis by auto
  next
    case 3
    with "1.prems" have "\<forall>z \<in> set xs. key z \<noteq> key y" "\<forall>z \<in> set ys. key x \<noteq> key z" by auto
    with 3 "1.IH"(3) "1.prems" show ?thesis by auto
  qed
qed auto

end
