(* ===== verification/EventMap.thy ===== *)
theory EventMap imports StdContainers begin

text \<open>
  The per-creature event scheduler of \<^verbatim>\<open>src/src/common/Utilities/EventMap.{h,cpp}\<close>: events with
  an id, an optional grp and an optional phase, ordered by the time point at which they fire, and
  series of delays that re-arm an event each time it fires. Time points are nanoseconds of the steady
  clock (\<^verbatim>\<open>TimePoint\<close>), delays milliseconds; their 64-bit overflow, undefined in C++, is outside the
  model. \<^verbatim>\<open>randtime\<close> is a parameter of the overloads that draw a delay.
\<close>

section \<open>State\<close>

record event =
  ev_id :: u16
  ev_groupMask :: u8
  ev_phaseMask :: u8

definition Event :: "u16 \<Rightarrow> nat \<Rightarrow> nat \<Rightarrow> event" where
  "Event eid groupIndex phaseIndex =
     \<lparr>ev_id = eid,
      ev_groupMask = (if groupIndex \<noteq> 0 then push_bit (groupIndex - 1) 1 else 0),
      ev_phaseMask = (if phaseIndex \<noteq> 0 then push_bit (phaseIndex - 1) 1 else 0)\<rparr>"

record event_map =
  em_time :: int
  em_phaseMask :: u8
  em_events :: "(int, event) multimap"
  em_lastEvent :: event
  em_timerSeries :: "event \<rightharpoonup> int list"

definition TimePoint_min :: int where
  "TimePoint_min = - (2 ^ 63)"

text \<open>\<^verbatim>\<open>time_point + Milliseconds\<close>.\<close>

definition plus_ms :: "int \<Rightarrow> int \<Rightarrow> int" where
  "plus_ms t ms = t + ms * 1000000"

definition EventMap_new :: event_map where
  "EventMap_new = \<lparr>em_time = TimePoint_min, em_phaseMask = 0, em_events = [],
     em_lastEvent = Event 0 0 0, em_timerSeries = Map.empty\<rparr>"

section \<open>Operations\<close>

definition EventMap_Reset :: "event_map \<Rightarrow> event_map" where
  "EventMap_Reset m = m\<lparr>em_events := [], em_time := TimePoint_min, em_phaseMask := 0\<rparr>"

definition EventMap_Update :: "int \<Rightarrow> event_map \<Rightarrow> event_map" where
  "EventMap_Update time m = m\<lparr>em_time := plus_ms (em_time m) time\<rparr>"

definition EventMap_Empty :: "event_map \<Rightarrow> bool" where
  "EventMap_Empty m \<longleftrightarrow> em_events m = []"

definition EventMap_SetPhase :: "nat \<Rightarrow> event_map \<Rightarrow> event_map" where
  "EventMap_SetPhase phase m =
     (if phase = 0 then m\<lparr>em_phaseMask := 0\<rparr>
      else if phase \<le> 8 then m\<lparr>em_phaseMask := push_bit (phase - 1) 1\<rparr>
      else m)"

definition EventMap_AddPhase :: "nat \<Rightarrow> event_map \<Rightarrow> event_map" where
  "EventMap_AddPhase phase m =
     (if phase \<noteq> 0 \<and> phase \<le> 8 then m\<lparr>em_phaseMask := em_phaseMask m OR push_bit (phase - 1) 1\<rparr> else m)"

definition EventMap_RemovePhase :: "nat \<Rightarrow> event_map \<Rightarrow> event_map" where
  "EventMap_RemovePhase phase m =
     (if phase \<noteq> 0 \<and> phase \<le> 8 then m\<lparr>em_phaseMask := em_phaseMask m AND NOT (push_bit (phase - 1) 1)\<rparr> else m)"

definition EventMap_IsInPhase :: "nat \<Rightarrow> event_map \<Rightarrow> bool" where
  "EventMap_IsInPhase phase m \<longleftrightarrow>
     phase \<le> 8 \<and> (phase = 0 \<or> em_phaseMask m AND push_bit (phase - 1) 1 \<noteq> 0)"

definition EventMap_ScheduleEvent :: "u16 \<Rightarrow> int \<Rightarrow> nat \<Rightarrow> nat \<Rightarrow> event_map \<Rightarrow> event_map" where
  "EventMap_ScheduleEvent eventId time grp phase m =
     (if grp > 8 then m
      else if phase > 8 then m
      else m\<lparr>em_events := mm_insert (plus_ms (em_time m) time) (Event eventId grp phase) (em_events m)\<rparr>)"

definition EventMap_Repeat :: "int \<Rightarrow> event_map \<Rightarrow> event_map" where
  "EventMap_Repeat time m = m\<lparr>em_events := mm_insert (plus_ms (em_time m) time) (em_lastEvent m) (em_events m)\<rparr>"

definition EventMap_CancelEvent :: "u16 \<Rightarrow> event_map \<Rightarrow> event_map" where
  "EventMap_CancelEvent eventId m =
     (if EventMap_Empty m then m
      else m\<lparr>em_events := filter (\<lambda>x. ev_id (snd x) \<noteq> eventId) (em_events m),
             em_timerSeries := (\<lambda>e. if ev_id e = eventId then None else em_timerSeries m e)\<rparr>)"

definition EventMap_CancelEventGroup :: "nat \<Rightarrow> event_map \<Rightarrow> event_map" where
  "EventMap_CancelEventGroup grp m =
     (if grp = 0 \<or> grp > 8 \<or> EventMap_Empty m then m
      else let gm = push_bit (grp - 1) 1
           in m\<lparr>em_events := filter (\<lambda>x. ev_groupMask (snd x) AND gm = 0) (em_events m),
                em_timerSeries := (\<lambda>e. if ev_groupMask e AND gm \<noteq> 0 then None else em_timerSeries m e)\<rparr>)"

definition EventMap_RescheduleEvent :: "u16 \<Rightarrow> int \<Rightarrow> nat \<Rightarrow> nat \<Rightarrow> event_map \<Rightarrow> event_map" where
  "EventMap_RescheduleEvent eventId time grp phase m =
     EventMap_ScheduleEvent eventId time grp phase (EventMap_CancelEvent eventId m)"

text \<open>The overloads that draw the delay between two bounds.\<close>

definition EventMap_ScheduleEvent_rand ::
  "(int \<Rightarrow> int \<Rightarrow> int) \<Rightarrow> u16 \<Rightarrow> int \<Rightarrow> int \<Rightarrow> nat \<Rightarrow> nat \<Rightarrow> event_map \<Rightarrow> event_map" where
  "EventMap_ScheduleEvent_rand randtime eventId minTime maxTime grp phase m =
     EventMap_ScheduleEvent eventId (randtime minTime maxTime) grp phase m"

definition EventMap_RescheduleEvent_rand ::
  "(int \<Rightarrow> int \<Rightarrow> int) \<Rightarrow> u16 \<Rightarrow> int \<Rightarrow> int \<Rightarrow> nat \<Rightarrow> nat \<Rightarrow> event_map \<Rightarrow> event_map" where
  "EventMap_RescheduleEvent_rand randtime eventId minTime maxTime grp phase m =
     EventMap_RescheduleEvent eventId (randtime minTime maxTime) grp phase m"

definition EventMap_Repeat_rand :: "(int \<Rightarrow> int \<Rightarrow> int) \<Rightarrow> int \<Rightarrow> int \<Rightarrow> event_map \<Rightarrow> event_map" where
  "EventMap_Repeat_rand randtime minTime maxTime m = EventMap_Repeat (randtime minTime maxTime) m"

definition EventMap_ScheduleNextFromSeries :: "event \<Rightarrow> event_map \<Rightarrow> event_map" where
  "EventMap_ScheduleNextFromSeries eventData m =
     (case em_timerSeries m eventData of
        None \<Rightarrow> m
      | Some series \<Rightarrow>
          m\<lparr>em_events := mm_insert (plus_ms (em_time m) (hd series)) eventData (em_events m),
            em_timerSeries := (em_timerSeries m)(eventData :=
              (if length series > 1 then Some (tl series) else None))\<rparr>)"

definition EventMap_ScheduleEventSeries :: "u16 \<Rightarrow> nat \<Rightarrow> nat \<Rightarrow> int list \<Rightarrow> event_map \<Rightarrow> event_map" where
  "EventMap_ScheduleEventSeries eventId grp phase timeSeries m =
     (if grp > 8 then m
      else if phase > 8 then m
      else if length timeSeries = 0 then m
      else let ev = Event eventId grp phase;
               series = (case em_timerSeries m ev of None \<Rightarrow> [] | Some s \<Rightarrow> s) @ timeSeries
           in EventMap_ScheduleNextFromSeries ev (m\<lparr>em_timerSeries := (em_timerSeries m)(ev \<mapsto> series)\<rparr>))"

definition event_masked :: "u8 \<Rightarrow> event \<Rightarrow> bool" where
  "event_masked pm e \<longleftrightarrow> pm \<noteq> 0 \<and> ev_phaseMask e \<noteq> 0 \<and> ev_phaseMask e AND pm = 0"

text \<open>\<^verbatim>\<open>ExecuteEvent\<close>: the while loop over the front of the store.\<close>

fun ExecuteEvent_loop :: "(int, event) multimap \<Rightarrow> event_map \<Rightarrow> u16 \<times> event_map" where
  "ExecuteEvent_loop [] m = (0, m\<lparr>em_events := []\<rparr>)"
| "ExecuteEvent_loop ((t, e) # rest) m =
     (if t > em_time m then (0, m\<lparr>em_events := (t, e) # rest\<rparr>)
      else if event_masked (em_phaseMask m) e then ExecuteEvent_loop rest m
      else (ev_id e, EventMap_ScheduleNextFromSeries e (m\<lparr>em_lastEvent := e, em_events := rest\<rparr>)))"

definition EventMap_ExecuteEvent :: "event_map \<Rightarrow> u16 \<times> event_map" where
  "EventMap_ExecuteEvent m = ExecuteEvent_loop (em_events m) m"

definition delay_entry :: "int \<Rightarrow> int \<times> event \<Rightarrow> int \<times> event" where
  "delay_entry delay x = (plus_ms (fst x) delay, snd x)"

definition EventMap_DelayEvents :: "int \<Rightarrow> event_map \<Rightarrow> event_map" where
  "EventMap_DelayEvents delay m =
     (if EventMap_Empty m then m
      else m\<lparr>em_events := mm_insert_all (map (delay_entry delay) (em_events m)) []\<rparr>)"

definition EventMap_DelayEvents_group :: "int \<Rightarrow> nat \<Rightarrow> event_map \<Rightarrow> event_map" where
  "EventMap_DelayEvents_group delay grp m =
     (if grp = 0 \<or> grp > 8 \<or> EventMap_Empty m then m
      else let gm = push_bit (grp - 1) 1;
               sel = (\<lambda>x. ev_groupMask (snd x) AND gm \<noteq> 0);
               delayed = mm_insert_all (map (delay_entry delay) (filter sel (em_events m))) []
           in m\<lparr>em_events := mm_insert_all delayed (filter (\<lambda>x. \<not> sel x) (em_events m))\<rparr>)"

text \<open>
  \<^verbatim>\<open>SetMinimalDelay\<close>: entries before the bound move to it while the loop walks on; the moved
  entry lands ahead of the iterator, where it is met again and kept.
\<close>

function SetMinimalDelay_loop ::
  "u16 \<Rightarrow> int \<Rightarrow> (int, event) multimap \<Rightarrow> (int, event) multimap \<Rightarrow> (int, event) multimap" where
  "SetMinimalDelay_loop eventId bound seen [] = seen"
| "SetMinimalDelay_loop eventId bound seen ((t, e) # rest) =
     (if ev_id e = eventId \<and> t < bound
      then SetMinimalDelay_loop eventId bound seen (mm_insert bound e rest)
      else SetMinimalDelay_loop eventId bound (seen @ [(t, e)]) rest)"
  by pat_completeness auto

termination
  by (relation "measures [\<lambda>(i, b, s, r). size (filter_mset (\<lambda>x. fst x < b) (mset r)), \<lambda>(i, b, s, r). length r]") auto

definition EventMap_SetMinimalDelay :: "u16 \<Rightarrow> int \<Rightarrow> event_map \<Rightarrow> event_map" where
  "EventMap_SetMinimalDelay eventId delay m =
     (if EventMap_Empty m then m
      else m\<lparr>em_events := SetMinimalDelay_loop eventId (plus_ms (em_time m) delay) [] (em_events m)\<rparr>)"

text \<open>\<open>None\<close> stands for \<^verbatim>\<open>Milliseconds::max()\<close>; \<^verbatim>\<open>duration_cast\<close> truncates towards zero.\<close>

definition duration_cast_ms :: "int \<Rightarrow> int" where
  "duration_cast_ms d = sgn d * (\<bar>d\<bar> div 1000000)"

definition EventMap_GetTimeUntilEvent :: "u16 \<Rightarrow> event_map \<Rightarrow> int option" where
  "EventMap_GetTimeUntilEvent eventId m =
     (case filter (\<lambda>x. ev_id (snd x) = eventId) (em_events m) of
        [] \<Rightarrow> None
      | x # _ \<Rightarrow> Some (duration_cast_ms (fst x - em_time m)))"

definition EventMap_HasEventScheduled :: "u16 \<Rightarrow> event_map \<Rightarrow> bool" where
  "EventMap_HasEventScheduled eventId m \<longleftrightarrow> EventMap_GetTimeUntilEvent eventId m \<noteq> None"

section \<open>Correctness\<close>


definition em_inv :: "event_map \<Rightarrow> bool" where
  "em_inv m \<longleftrightarrow> mm_sorted (em_events m) \<and> (\<forall>e s. em_timerSeries m e = Some s \<longrightarrow> s \<noteq> [])"

text \<open>The public operations as the transitions of the scheduler.\<close>

inductive em_step :: "event_map \<Rightarrow> event_map \<Rightarrow> bool" where
  reset: "em_step m (EventMap_Reset m)"
| update: "0 \<le> t \<Longrightarrow> em_step m (EventMap_Update t m)"
| set_phase: "em_step m (EventMap_SetPhase p m)"
| add_phase: "em_step m (EventMap_AddPhase p m)"
| remove_phase: "em_step m (EventMap_RemovePhase p m)"
| schedule: "em_step m (EventMap_ScheduleEvent i t g p m)"
| reschedule: "em_step m (EventMap_RescheduleEvent i t g p m)"
| repeat: "em_step m (EventMap_Repeat t m)"
| exec: "em_step m (snd (EventMap_ExecuteEvent m))"
| delay: "em_step m (EventMap_DelayEvents t m)"
| delay_group: "em_step m (EventMap_DelayEvents_group t g m)"
| minimal_delay: "em_step m (EventMap_SetMinimalDelay i t m)"
| cancel: "em_step m (EventMap_CancelEvent i m)"
| cancel_group: "em_step m (EventMap_CancelEventGroup g m)"
| next_from_series: "em_step m (EventMap_ScheduleNextFromSeries e m)"
| series: "em_step m (EventMap_ScheduleEventSeries i g p ts m)"

inductive em_reachable :: "event_map \<Rightarrow> bool" where
  start: "em_reachable EventMap_new"
| step: "em_reachable m \<Longrightarrow> em_step m m' \<Longrightarrow> em_reachable m'"

named_theorems em_defs \<open>definitions of the event map operations\<close>

lemmas [em_defs] = EventMap_Reset_def EventMap_Update_def EventMap_Empty_def EventMap_SetPhase_def
  EventMap_AddPhase_def EventMap_RemovePhase_def EventMap_ScheduleEvent_def EventMap_RescheduleEvent_def
  EventMap_Repeat_def EventMap_CancelEvent_def EventMap_CancelEventGroup_def EventMap_DelayEvents_def
  EventMap_DelayEvents_group_def EventMap_SetMinimalDelay_def Let_def

lemma em_inv_next_from_series: "em_inv m \<Longrightarrow> em_inv (EventMap_ScheduleNextFromSeries e m)"
proof -
  assume i: "em_inv m"
  have "tl s \<noteq> []" if "length s > 1" for s :: "int list" using that by (cases s) auto
  with i show ?thesis
    by (auto simp: em_inv_def EventMap_ScheduleNextFromSeries_def split: option.splits if_splits)
qed

lemma ExecuteEvent_loop_spec:
  assumes "mm_sorted q"
  obtains sk rest where "q = sk @ rest" "\<forall>(t, e) \<in> set sk. t \<le> em_time m \<and> event_masked (em_phaseMask m) e"
    "rest = [] \<or> em_time m < fst (hd rest) \<Longrightarrow> ExecuteEvent_loop q m = (0, m\<lparr>em_events := rest\<rparr>)"
    "rest \<noteq> [] \<Longrightarrow> fst (hd rest) \<le> em_time m \<Longrightarrow> \<not> event_masked (em_phaseMask m) (snd (hd rest)) \<and>
       ExecuteEvent_loop q m = (ev_id (snd (hd rest)),
         EventMap_ScheduleNextFromSeries (snd (hd rest)) (m\<lparr>em_lastEvent := snd (hd rest), em_events := tl rest\<rparr>))"
  using assms
proof (induction q m arbitrary: thesis rule: ExecuteEvent_loop.induct)
  case (1 m)
  show ?case by (rule "1.prems"(1) [of "[]" "[]"]) auto
next
  case (2 t e q m)
  show ?case
  proof (cases "t \<le> em_time m \<and> event_masked (em_phaseMask m) e")
    case True
    obtain sk rest where *: "q = sk @ rest" "\<forall>(t, e) \<in> set sk. t \<le> em_time m \<and> event_masked (em_phaseMask m) e"
      "rest = [] \<or> em_time m < fst (hd rest) \<Longrightarrow> ExecuteEvent_loop q m = (0, m\<lparr>em_events := rest\<rparr>)"
      "rest \<noteq> [] \<Longrightarrow> fst (hd rest) \<le> em_time m \<Longrightarrow> \<not> event_masked (em_phaseMask m) (snd (hd rest)) \<and>
       ExecuteEvent_loop q m = (ev_id (snd (hd rest)),
         EventMap_ScheduleNextFromSeries (snd (hd rest)) (m\<lparr>em_lastEvent := snd (hd rest), em_events := tl rest\<rparr>))"
      using "2.IH" True "2.prems"(2) by (metis linorder_not_less mm_sorted_simps(2))
    show ?thesis by (rule "2.prems"(1) [of "(t, e) # sk" rest]) (use * True in auto)
  next
    case False
    show ?thesis by (rule "2.prems"(1) [of "[]" "(t, e) # q"]) (use False in auto)
  qed
qed

lemma em_inv_execute: "em_inv m \<Longrightarrow> em_inv (snd (EventMap_ExecuteEvent m))"
proof -
  assume i: "em_inv m"
  then have s: "mm_sorted (em_events m)" by (simp add: em_inv_def)
  obtain sk rest where r: "em_events m = sk @ rest"
    "rest = [] \<or> em_time m < fst (hd rest) \<Longrightarrow> ExecuteEvent_loop (em_events m) m = (0, m\<lparr>em_events := rest\<rparr>)"
    "rest \<noteq> [] \<Longrightarrow> fst (hd rest) \<le> em_time m \<Longrightarrow> \<not> event_masked (em_phaseMask m) (snd (hd rest)) \<and>
       ExecuteEvent_loop (em_events m) m = (ev_id (snd (hd rest)),
         EventMap_ScheduleNextFromSeries (snd (hd rest)) (m\<lparr>em_lastEvent := snd (hd rest), em_events := tl rest\<rparr>))"
    using ExecuteEvent_loop_spec [OF s, of m] by metis
  have "mm_sorted rest" "mm_sorted (tl rest)"
    using s r(1) by (auto simp: mm_sorted_append) (cases rest, auto)
  then have "em_inv (m\<lparr>em_events := rest\<rparr>)" "em_inv (m\<lparr>em_lastEvent := e, em_events := tl rest\<rparr>)" for e
    using i by (auto simp: em_inv_def)
  then show ?thesis using r(2,3) unfolding EventMap_ExecuteEvent_def
    by (cases "rest = [] \<or> em_time m < fst (hd rest)") (auto intro: em_inv_next_from_series)
qed

lemma SetMinimalDelay_loop_sorted:
  "mm_sorted (seen @ rest) \<Longrightarrow> mm_sorted (SetMinimalDelay_loop i b seen rest)"
proof (induction i b seen rest rule: SetMinimalDelay_loop.induct)
  case (2 i b seen t e rest)
  show ?case
  proof (cases "ev_id e = i \<and> t < b")
    case True
    with "2.prems" have "mm_sorted (seen @ mm_insert b e rest)"
      by (auto simp: mm_sorted_append)
    with "2.IH"(1) True show ?thesis by simp
  next
    case False
    with 2 show ?thesis by auto
  qed
qed simp

lemma em_step_inv: "em_step m m' \<Longrightarrow> em_inv m \<Longrightarrow> em_inv m'"
proof (induction rule: em_step.induct)
  case (exec m)
  then show ?case by (rule em_inv_execute)
next
  case (next_from_series m e)
  then show ?case by (rule em_inv_next_from_series)
next
  case (minimal_delay m i t)
  then show ?case using SetMinimalDelay_loop_sorted [of "[]"] by (simp add: em_inv_def em_defs)
next
  case (series m i g p ts)
  then have "em_inv (m\<lparr>em_timerSeries := (em_timerSeries m)(Event i g p \<mapsto>
      (case em_timerSeries m (Event i g p) of None \<Rightarrow> [] | Some s \<Rightarrow> s) @ ts)\<rparr>)" if "ts \<noteq> []"
    using that by (auto simp: em_inv_def)
  with series show ?case by (simp add: EventMap_ScheduleEventSeries_def Let_def em_inv_next_from_series)
qed (auto simp: em_inv_def em_defs mm_sorted_filter mm_insert_all_facts)

text \<open>
  C19: In every state reachable through the public operations the event store is sorted by time and
  no stored timer series is empty (so \<^verbatim>\<open>ScheduleNextFromSeries\<close> never reads the front of an empty queue).
\<close>

theorem EventMap_reachable_inv: "em_reachable m \<Longrightarrow> em_inv m"
proof (induction rule: em_reachable.induct)
  case start
  show ?case by (simp add: em_inv_def EventMap_new_def)
qed (blast intro: em_step_inv)

lemma EventMap_reachable_inv_witness:
  "em_inv (EventMap_ScheduleEventSeries 3 1 0 [500, 700] (EventMap_ScheduleEvent 7 1000 0 0 EventMap_new))"
  by (intro EventMap_reachable_inv) (blast intro: em_reachable.intros em_step.intros)

text \<open>
  C30: When an event that is due and not masked by the phase is stored, \<^verbatim>\<open>ExecuteEvent\<close> returns
  the id of a due, unmasked event that no other unmasked event precedes, and remembers it for \<^verbatim>\<open>Repeat\<close>.
\<close>

theorem ExecuteEvent_earliest:
  assumes "em_inv m" "EventMap_ExecuteEvent m = (i, m')" 
    "(t, e) \<in> set (em_events m)" "t \<le> em_time m" "\<not> event_masked (em_phaseMask m) e"
  shows "\<exists>t0 e0. (t0, e0) \<in> set (em_events m) \<and> i = ev_id e0 \<and> em_lastEvent m' = e0 \<and> t0 \<le> em_time m
    \<and> \<not> event_masked (em_phaseMask m) e0
    \<and> (\<forall>(t1, e1) \<in> set (em_events m). t1 < t0 \<longrightarrow> event_masked (em_phaseMask m) e1)"
proof -
  have s: "mm_sorted (em_events m)" using assms by (simp add: em_inv_def)
  obtain sk rest where r: "em_events m = sk @ rest" "\<forall>(t, e) \<in> set sk. t \<le> em_time m \<and> event_masked (em_phaseMask m) e"
    "rest \<noteq> [] \<Longrightarrow> fst (hd rest) \<le> em_time m \<Longrightarrow> \<not> event_masked (em_phaseMask m) (snd (hd rest)) \<and>
       ExecuteEvent_loop (em_events m) m = (ev_id (snd (hd rest)),
         EventMap_ScheduleNextFromSeries (snd (hd rest)) (m\<lparr>em_lastEvent := snd (hd rest), em_events := tl rest\<rparr>))"
    using ExecuteEvent_loop_spec [OF s, of m] by metis
  from assms r(2) have in_rest: "(t, e) \<in> set rest" unfolding r(1) by auto
  then obtain t0 e0 rest' where rest: "rest = (t0, e0) # rest'" by (cases rest) auto
  have le: "\<forall>x \<in> set rest. t0 \<le> fst x" using s r(1) rest by (auto simp: mm_sorted_append)
  with in_rest assms(4) have t0: "t0 \<le> em_time m" by fastforce
  have "em_lastEvent (EventMap_ScheduleNextFromSeries e0 x) = em_lastEvent x" for x
    by (auto simp: EventMap_ScheduleNextFromSeries_def split: option.splits)
  then have "i = ev_id e0" "em_lastEvent m' = e0" "\<not> event_masked (em_phaseMask m) e0"
    using r(3) rest t0 assms(2) by (auto simp: EventMap_ExecuteEvent_def)
  moreover have "\<forall>(t1, e1) \<in> set (em_events m). t1 < t0 \<longrightarrow> event_masked (em_phaseMask m) e1"
    using r(1,2) le by fastforce
  ultimately show ?thesis using t0 r(1) rest by auto
qed

lemma ExecuteEvent_earliest_witness:
  "let m = EventMap_new\<lparr>em_time := 10, em_events := [(3, Event 7 1 0), (4, Event 9 0 0)]\<rparr>;
       (i, m') = EventMap_ExecuteEvent m
   in \<exists>t0 e0. (t0, e0) \<in> set (em_events m) \<and> i = ev_id e0 \<and> em_lastEvent m' = e0 \<and> t0 \<le> em_time m
    \<and> \<not> event_masked (em_phaseMask m) e0
    \<and> (\<forall>(t1, e1) \<in> set (em_events m). t1 < t0 \<longrightarrow> event_masked (em_phaseMask m) e1)"
proof -
  let ?m = "EventMap_new\<lparr>em_time := 10, em_events := [(3, Event 7 1 0), (4, Event 9 0 0)]\<rparr>"
  have "em_inv ?m" "(4, Event 9 0 0) \<in> set (em_events ?m)" "4 \<le> em_time ?m"
    "\<not> event_masked (em_phaseMask ?m) (Event 9 0 0)"
    by (simp_all add: em_inv_def EventMap_new_def event_masked_def)
  from ExecuteEvent_earliest [OF this(1) surjective_pairing this(2-4)] show ?thesis
    by (simp only: Let_def case_prod_unfold)
qed

text \<open>
  Delaying all events shifts every firing time by the delay and keeps the order of the store, ties
  included.
\<close>

theorem DelayEvents_exact:
  assumes "em_inv m"
  shows "em_events (EventMap_DelayEvents d m) = map (delay_entry d) (em_events m)"
proof -
  have "mm_insert_all (map (delay_entry d) xs) ys = ys @ map (delay_entry d) xs"
    if "mm_sorted xs" "\<forall>x \<in> set xs. \<forall>y \<in> set ys. fst y \<le> plus_ms (fst x) d" for xs ys
    using that
  proof (induction xs arbitrary: ys)
    case (Cons x xs)
    obtain t e where x: "x = (t, e)" by (cases x)
    have "mm_insert (plus_ms t d) e ys = ys @ [(plus_ms t d, e)]"
      using Cons.prems x by (intro mm_insert_append_last) auto
    moreover have "\<forall>x \<in> set xs. \<forall>y \<in> set (ys @ [(plus_ms t d, e)]). fst y \<le> plus_ms (fst x) d"
      using Cons.prems x by (auto simp: plus_ms_def)
    ultimately show ?case using Cons x by (simp add: mm_insert_all_def delay_entry_def)
  qed (simp add: mm_insert_all_def)
  from this [of "em_events m" "[]"] assms show ?thesis by (simp add: em_inv_def em_defs)
qed

lemma DelayEvents_exact_witness:
  "em_events (EventMap_DelayEvents 2 (EventMap_new\<lparr>em_events := [(3, Event 7 1 0), (3, Event 9 0 0)]\<rparr>)) =
   [(2000003, Event 7 1 0), (2000003, Event 9 0 0)]"
  using DelayEvents_exact [of "EventMap_new\<lparr>em_events := [(3, Event 7 1 0), (3, Event 9 0 0)]\<rparr>" 2]
  by (simp add: em_inv_def EventMap_new_def delay_entry_def plus_ms_def)

text \<open>
  Cancelling an event of a non-empty map removes it and all its timer series; every other id keeps its
  next firing time.
\<close>

theorem CancelEvent_complete:
  assumes "\<not> EventMap_Empty m"
  shows "EventMap_GetTimeUntilEvent i (EventMap_CancelEvent i m) = None
    \<and> (\<forall>e. ev_id e = i \<longrightarrow> em_timerSeries (EventMap_CancelEvent i m) e = None)
    \<and> (\<forall>j. j \<noteq> i \<longrightarrow> EventMap_GetTimeUntilEvent j (EventMap_CancelEvent i m) = EventMap_GetTimeUntilEvent j m)"
proof -
  have f: "filter (\<lambda>x. ev_id (snd x) = j) (filter (\<lambda>x. ev_id (snd x) \<noteq> i) q) = 
      (if j = i then [] else filter (\<lambda>x. ev_id (snd x) = j) q)" for j and q :: "(int, event) multimap"
    by (auto simp: filter_filter intro: filter_cong)
  show ?thesis
    using assms by (auto simp: EventMap_GetTimeUntilEvent_def EventMap_CancelEvent_def f simp del: filter_filter split: list.splits)
qed

lemma CancelEvent_complete_witness:
  "let m = EventMap_new\<lparr>em_events := [(3, Event 7 1 0), (4, Event 9 0 0)], em_timerSeries := [Event 7 1 0 \<mapsto> [5]]\<rparr>
   in EventMap_GetTimeUntilEvent 7 (EventMap_CancelEvent 7 m) = None
    \<and> em_timerSeries (EventMap_CancelEvent 7 m) (Event 7 1 0) = None
    \<and> EventMap_GetTimeUntilEvent 9 (EventMap_CancelEvent 7 m) = EventMap_GetTimeUntilEvent 9 m"
  using CancelEvent_complete [of "EventMap_new\<lparr>em_events := [(3, Event 7 1 0), (4, Event 9 0 0)],
    em_timerSeries := [Event 7 1 0 \<mapsto> [5]]\<rparr>" 7]
  by (simp add: EventMap_Empty_def Event_def Let_def)

definition due :: "event_map \<Rightarrow> (int \<times> event) list" where
  "due m = filter (\<lambda>x. fst x \<le> em_time m) (em_events m)"

definition positive_series :: "event_map \<Rightarrow> bool" where
  "positive_series m \<longleftrightarrow> (\<forall>e s d. em_timerSeries m e = Some s \<longrightarrow> d \<in> set s \<longrightarrow> 0 < d)"

lemma ExecuteEvent_shrinks:
  assumes "em_inv m" "positive_series m" "due m \<noteq> []"
  shows "length (due (snd (EventMap_ExecuteEvent m))) < length (due m)"
    "positive_series (snd (EventMap_ExecuteEvent m))"
    "em_time (snd (EventMap_ExecuteEvent m)) = em_time m"
proof -
  have s: "mm_sorted (em_events m)" using assms by (simp add: em_inv_def)
  obtain sk rest where r: "em_events m = sk @ rest" "\<forall>(t, e) \<in> set sk. t \<le> em_time m \<and> event_masked (em_phaseMask m) e"
    "rest = [] \<or> em_time m < fst (hd rest) \<Longrightarrow> ExecuteEvent_loop (em_events m) m = (0, m\<lparr>em_events := rest\<rparr>)"
    "rest \<noteq> [] \<Longrightarrow> fst (hd rest) \<le> em_time m \<Longrightarrow> \<not> event_masked (em_phaseMask m) (snd (hd rest)) \<and>
       ExecuteEvent_loop (em_events m) m = (ev_id (snd (hd rest)),
         EventMap_ScheduleNextFromSeries (snd (hd rest)) (m\<lparr>em_lastEvent := snd (hd rest), em_events := tl rest\<rparr>))"
    using ExecuteEvent_loop_spec [OF s, of m] by metis
  have nx: "filter (\<lambda>x. fst x \<le> em_time y) (em_events (EventMap_ScheduleNextFromSeries e y)) = due y"
    "em_time (EventMap_ScheduleNextFromSeries e y) = em_time y"
    "positive_series (EventMap_ScheduleNextFromSeries e y)"
    if "positive_series y" "em_inv y" for e y
  proof -
    have ins: "filter (\<lambda>x. fst x \<le> em_time y) (mm_insert (plus_ms (em_time y) d) e q) =
        filter (\<lambda>x. fst x \<le> em_time y) q" if "0 < d" for d q
      using that by (induction q) (auto simp: plus_ms_def)
    have "0 < hd l" if "em_timerSeries y e = Some l" for l
      using that \<open>positive_series y\<close> \<open>em_inv y\<close> by (auto simp: positive_series_def em_inv_def)
    then show "filter (\<lambda>x. fst x \<le> em_time y) (em_events (EventMap_ScheduleNextFromSeries e y)) = due y"
      by (auto simp: EventMap_ScheduleNextFromSeries_def due_def ins split: option.splits)
    show "em_time (EventMap_ScheduleNextFromSeries e y) = em_time y"
      by (auto simp: EventMap_ScheduleNextFromSeries_def split: option.splits)
    show "positive_series (EventMap_ScheduleNextFromSeries e y)"
      using \<open>positive_series y\<close>
      by (auto simp: EventMap_ScheduleNextFromSeries_def positive_series_def split: option.splits if_splits
          dest: list.set_sel(2) [rotated])
  qed
  have "length (due (snd (EventMap_ExecuteEvent m))) < length (due m) \<and>
      positive_series (snd (EventMap_ExecuteEvent m)) \<and> em_time (snd (EventMap_ExecuteEvent m)) = em_time m"
  proof (cases "rest = [] \<or> em_time m < fst (hd rest)")
    case True
    have "sk \<noteq> []"
    proof
      assume "sk = []"
      with r(1) True s have "due m = []" by (cases rest) (fastforce simp: due_def filter_empty_conv)+
      with assms show False by simp
    qed
    with True r s assms(2) show ?thesis
      by (cases sk) (auto simp: EventMap_ExecuteEvent_def due_def positive_series_def)
  next
    case False
    let ?y = "m\<lparr>em_lastEvent := snd (hd rest), em_events := tl rest\<rparr>"
    have y: "positive_series ?y" "em_inv ?y"
      using assms s r(1) False by (auto simp: positive_series_def em_inv_def mm_sorted_append) (cases rest, auto)
    have "length (due ?y) < length (due m)"
      using False r(1) by (cases rest) (auto simp: due_def)
    with nx [OF y] r(4) False show ?thesis
      by (simp add: EventMap_ExecuteEvent_def due_def)
  qed
  then show "length (due (snd (EventMap_ExecuteEvent m))) < length (due m)"
    "positive_series (snd (EventMap_ExecuteEvent m))"
    "em_time (snd (EventMap_ExecuteEvent m)) = em_time m" by simp_all
qed

definition execute_once :: "event_map \<Rightarrow> event_map" where
  "execute_once m = snd (EventMap_ExecuteEvent m)"

text \<open>
  The loop \<^verbatim>\<open>while (eventId = events.ExecuteEvent())\<close> that the scripts run ends: while every series
  delay is positive, at most as many calls as there are due events leave nothing due.
\<close>

theorem ExecuteEvent_drains:
  assumes "em_inv m" "positive_series m"
  shows "\<exists>k \<le> length (due m). due ((execute_once ^^ k) m) = []"
  using assms
proof (induction "length (due m)" arbitrary: m rule: less_induct)
  case less
  show ?case
  proof (cases "due m = []")
    case False
    let ?m = "execute_once m"
    note sh = ExecuteEvent_shrinks [OF less.prems False, folded execute_once_def]
    with less.hyps [of ?m] em_inv_execute [OF less.prems(1), folded execute_once_def] obtain k where
      "k \<le> length (due ?m)" "due ((execute_once ^^ k) ?m) = []" by blast
    with sh(1) show ?thesis by (intro exI [of _ "Suc k"]) (simp add: funpow_swap1)
  qed (auto intro: exI [of _ 0])
qed

lemma ExecuteEvent_drains_witness:
  "let m = EventMap_new\<lparr>em_time := 10, em_events := [(3, Event 7 1 0), (4, Event 9 0 0), (99, Event 7 0 0)]\<rparr>
   in \<exists>k \<le> 2. due ((execute_once ^^ k) m) = []"
  using ExecuteEvent_drains [of "EventMap_new\<lparr>em_time := 10,
      em_events := [(3, Event 7 1 0), (4, Event 9 0 0), (99, Event 7 0 0)]\<rparr>"]
  by (simp add: em_inv_def EventMap_new_def positive_series_def due_def numeral_2_eq_2)

text \<open>
  Although \<^verbatim>\<open>Reset\<close> is documented to remove all scheduled events, timer series survive it: a one-shot
  event scheduled afterwards under the same id, group and phase re-arms itself with the left-over delay.
\<close>

theorem Reset_keeps_series:
  assumes "em_timerSeries m (Event i g p) = Some (d # ds)" "g \<le> 8" "p \<le> 8" "0 \<le> t"
  shows "let m1 = EventMap_Update t (EventMap_ScheduleEvent i t g p (EventMap_Reset m));
             (fired, m2) = EventMap_ExecuteEvent m1
         in fired = i \<and> em_events m2 = [(plus_ms (em_time m1) d, Event i g p)]"
  using assms
  by (simp add: em_defs EventMap_ExecuteEvent_def event_masked_def EventMap_ScheduleNextFromSeries_def plus_ms_def)
    (simp add: Event_def)

lemma Reset_keeps_series_witness:
  "let m = EventMap_ScheduleEventSeries 7 1 0 [5, 8] EventMap_new;
       m1 = EventMap_Update 2 (EventMap_ScheduleEvent 7 2 1 0 (EventMap_Reset m));
       (fired, m2) = EventMap_ExecuteEvent m1
   in fired = 7 \<and> em_events m2 = [(plus_ms (em_time m1) 8, Event 7 1 0)]"
  unfolding Let_def [of "EventMap_ScheduleEventSeries 7 1 0 [5, 8] EventMap_new"]
  by (rule Reset_keeps_series)
     (simp_all add: EventMap_ScheduleEventSeries_def EventMap_ScheduleNextFromSeries_def EventMap_new_def Let_def)

end
