(* ===== verification/EventProcessor.thy ===== *)
theory EventProcessor imports StdContainers begin

text \<open>
  Delayed events of world objects, \<^verbatim>\<open>src/src/common/Utilities/EventProcessor.{h,cpp}\<close>. Events are heap objects,
  the queue is a multimap from the time of execution to an address. What an event does when executed or aborted
  is code of the scripts: it is a parameter (\<open>event_code\<close>), a list of calls on the processor. \<open>None\<close> is an access to a
  deleted event, an invalid iterator, a failed assertion, or a loop that does not end. Times are milliseconds and do
  not reach \<open>2 ^ 64\<close>. Executions, abortions and deletions are recorded in order.
\<close>

section \<open>State\<close>

datatype abort_state = STATE_RUNNING | STATE_ABORT_SCHEDULED | STATE_ABORTED

record basic_event =
  m_abortState :: abort_state
  m_addTime :: nat
  m_execTime :: nat

datatype event_action = Executed nat nat | AbortedEvent nat | Deleted nat

record event_processor =
  m_time :: nat
  m_events :: "(nat, nat) multimap"
  ep_heap :: "nat \<rightharpoonup> basic_event"
  ep_next :: nat
  ep_trace :: "event_action list"

text \<open>The calls an event makes: a new event, itself again, moving an event, scheduling an abort.\<close>

datatype event_call = CallNew nat bool | CallAdd nat nat bool | CallModify nat nat | CallAbort nat

record event_code =
  ev_Execute :: "nat \<Rightarrow> nat \<Rightarrow> event_processor \<Rightarrow> event_call list \<times> bool"
  ev_Abort :: "nat \<Rightarrow> event_processor \<Rightarrow> event_call list"
  ev_IsDeletable :: "nat \<Rightarrow> event_processor \<Rightarrow> bool"

definition BasicEvent_new :: basic_event where
  "BasicEvent_new = \<lparr>m_abortState = STATE_RUNNING, m_addTime = 0, m_execTime = 0\<rparr>"

definition EventProcessor_new :: event_processor where
  "EventProcessor_new = \<lparr>m_time = 0, m_events = [], ep_heap = Map.empty, ep_next = 0, ep_trace = []\<rparr>"

definition IsRunning :: "basic_event \<Rightarrow> bool" where "IsRunning ev \<longleftrightarrow> m_abortState ev = STATE_RUNNING"
definition IsAbortScheduled :: "basic_event \<Rightarrow> bool" where
  "IsAbortScheduled ev \<longleftrightarrow> m_abortState ev = STATE_ABORT_SCHEDULED"
definition IsAborted :: "basic_event \<Rightarrow> bool" where "IsAborted ev \<longleftrightarrow> m_abortState ev = STATE_ABORTED"

section \<open>Operations\<close>

definition log_action :: "event_action \<Rightarrow> event_processor \<Rightarrow> event_processor" where
  "log_action x s = s\<lparr>ep_trace := ep_trace s @ [x]\<rparr>"

definition ScheduleAbort :: "nat \<Rightarrow> event_processor \<Rightarrow> event_processor option" where
  "ScheduleAbort a s =
     Option.bind (ep_heap s a) (\<lambda>ev.
       if IsRunning ev
       then Some (s\<lparr>ep_heap := (ep_heap s)(a \<mapsto> ev\<lparr>m_abortState := STATE_ABORT_SCHEDULED\<rparr>)\<rparr>) else None)"

definition SetAborted :: "nat \<Rightarrow> event_processor \<Rightarrow> event_processor option" where
  "SetAborted a s =
     Option.bind (ep_heap s a) (\<lambda>ev.
       if \<not> IsAborted ev
       then Some (s\<lparr>ep_heap := (ep_heap s)(a \<mapsto> ev\<lparr>m_abortState := STATE_ABORTED\<rparr>)\<rparr>) else None)"

definition CalculateTime :: "nat \<Rightarrow> event_processor \<Rightarrow> nat" where
  "CalculateTime t_offset s = m_time s + t_offset"

definition AddEvent :: "nat \<Rightarrow> nat \<Rightarrow> bool \<Rightarrow> event_processor \<Rightarrow> event_processor option" where
  "AddEvent a e_time set_addtime s =
     Option.bind (ep_heap s a) (\<lambda>ev.
       let ev = (if set_addtime then ev\<lparr>m_addTime := m_time s\<rparr> else ev);
           ev = ev\<lparr>m_execTime := e_time\<rparr>
       in Some (s\<lparr>ep_heap := (ep_heap s)(a \<mapsto> ev), m_events := mm_insert e_time a (m_events s)\<rparr>))"

definition AddNewEvent :: "nat \<Rightarrow> bool \<Rightarrow> event_processor \<Rightarrow> event_processor option" where
  "AddNewEvent e_time set_addtime s =
     AddEvent (ep_next s) e_time set_addtime
       (s\<lparr>ep_heap := (ep_heap s)(ep_next s \<mapsto> BasicEvent_new), ep_next := Suc (ep_next s)\<rparr>)"

definition AddEventAtOffset :: "nat \<Rightarrow> event_processor \<Rightarrow> event_processor option" where
  "AddEventAtOffset offset s = AddNewEvent (CalculateTime offset s) True s"

fun remove_first_event :: "nat \<Rightarrow> (nat, nat) multimap \<Rightarrow> (nat, nat) multimap option" where
  "remove_first_event a [] = None"
| "remove_first_event a ((t, b) # m) =
     (if b \<noteq> a then map_option (Cons (t, b)) (remove_first_event a m) else Some m)"

definition ModifyEventTime :: "nat \<Rightarrow> nat \<Rightarrow> event_processor \<Rightarrow> event_processor option" where
  "ModifyEventTime a newTime s =
     (case remove_first_event a (m_events s) of
        None \<Rightarrow> Some s
      | Some m \<Rightarrow> Option.bind (ep_heap s a) (\<lambda>ev.
          Some (s\<lparr>ep_heap := (ep_heap s)(a \<mapsto> ev\<lparr>m_execTime := newTime\<rparr>), m_events := mm_insert newTime a m\<rparr>)))"

definition delete_event :: "nat \<Rightarrow> event_processor \<Rightarrow> event_processor option" where
  "delete_event a s =
     (if ep_heap s a = None then None else Some (log_action (Deleted a) (s\<lparr>ep_heap := (ep_heap s)(a := None)\<rparr>)))"

fun perform :: "event_call \<Rightarrow> event_processor \<Rightarrow> event_processor option" where
  "perform (CallNew t b) s = AddNewEvent t b s"
| "perform (CallAdd a t b) s = AddEvent a t b s"
| "perform (CallModify a t) s = ModifyEventTime a t s"
| "perform (CallAbort a) s = ScheduleAbort a s"

fun perform_all :: "event_call list \<Rightarrow> event_processor \<Rightarrow> event_processor option" where
  "perform_all [] s = Some s"
| "perform_all (c # cs) s = Option.bind (perform c s) (perform_all cs)"

definition Update_event :: "event_code \<Rightarrow> nat \<Rightarrow> nat \<Rightarrow> event_processor \<Rightarrow> event_processor option" where
  "Update_event E p_time a s =
     Option.bind (ep_heap s a) (\<lambda>ev.
       if IsRunning ev
       then (let (calls, finished) = ev_Execute E a p_time s in
             Option.bind (perform_all calls (log_action (Executed a (m_time s)) s)) (\<lambda>s.
               if finished then delete_event a s else Some s))
       else
         Option.bind
           (if IsAbortScheduled ev
            then Option.bind (perform_all (ev_Abort E a s) (log_action (AbortedEvent a) s)) (SetAborted a)
            else Some s) (\<lambda>s.
         if ev_IsDeletable E a s then delete_event a s
         else AddEvent a (CalculateTime 1 s) False s))"

partial_function (option) EventProcessor_loop :: "event_code \<Rightarrow> nat \<Rightarrow> event_processor \<Rightarrow> event_processor option" where
  "EventProcessor_loop E p_time s =
     (case m_events s of
        [] \<Rightarrow> Some s
      | (t, a) # m \<Rightarrow>
          if t \<le> m_time s
          then Option.bind (Update_event E p_time a (s\<lparr>m_events := m\<rparr>)) (EventProcessor_loop E p_time)
          else Some s)"

definition EventProcessor_Update :: "event_code \<Rightarrow> nat \<Rightarrow> event_processor \<Rightarrow> event_processor option" where
  "EventProcessor_Update E p_time s = EventProcessor_loop E p_time (s\<lparr>m_time := m_time s + p_time\<rparr>)"

text \<open>The iterator of \<^verbatim>\<open>KillAllEvents\<close> stands on an entry; its successor is found when it moves on.\<close>

fun entries_after :: "nat \<times> nat \<Rightarrow> (nat, nat) multimap \<Rightarrow> (nat, nat) multimap option" where
  "entries_after x [] = None"
| "entries_after x (y # m) = (if x = y then Some m else entries_after x m)"

definition kill_event :: "event_code \<Rightarrow> nat \<Rightarrow> event_processor \<Rightarrow> event_processor option" where
  "kill_event E a s =
     Option.bind (ep_heap s a) (\<lambda>ev.
       if \<not> IsAborted ev
       then Option.bind (SetAborted a s) (\<lambda>s. perform_all (ev_Abort E a s) (log_action (AbortedEvent a) s))
       else Some s)"

partial_function (option) Kill_loop ::
  "event_code \<Rightarrow> bool \<Rightarrow> (nat \<times> nat) option \<Rightarrow> event_processor \<Rightarrow> event_processor option" where
  "Kill_loop E force itr s =
     (case itr of
        None \<Rightarrow> Some s
      | Some (t, a) \<Rightarrow>
          Option.bind (kill_event E a s) (\<lambda>s.
          Option.bind (entries_after (t, a) (m_events s)) (\<lambda>rest.
            let next = (case rest of [] \<Rightarrow> None | x # _ \<Rightarrow> Some x) in
            if \<not> force \<and> \<not> ev_IsDeletable E a s then Kill_loop E force next s
            else Option.bind (delete_event a s) (\<lambda>s.
              if force then Kill_loop E force next s
              else Kill_loop E force next (s\<lparr>m_events := remove1 (t, a) (m_events s)\<rparr>)))))"

definition KillAllEvents :: "event_code \<Rightarrow> bool \<Rightarrow> event_processor \<Rightarrow> event_processor option" where
  "KillAllEvents E force s =
     Option.bind (Kill_loop E force (case m_events s of [] \<Rightarrow> None | x # _ \<Rightarrow> Some x) s) (\<lambda>s.
       if force then Some (s\<lparr>m_events := []\<rparr>) else Some s)"


section \<open>Invariant\<close>

definition due :: "event_processor \<Rightarrow> (nat, nat) multimap" where
  "due s = filter (\<lambda>x. fst x \<le> m_time s) (m_events s)"

definition running :: "event_processor \<Rightarrow> nat \<Rightarrow> bool" where
  "running s a \<longleftrightarrow> (\<exists>ev. ep_heap s a = Some ev \<and> IsRunning ev)"

definition executed :: "event_action list \<Rightarrow> nat list" where
  "executed tr = concat (map (\<lambda>x. case x of Executed a t \<Rightarrow> [a] | _ \<Rightarrow> []) tr)"

lemma executed_simps [simp]:
  "executed [] = []" "executed (Executed a t # tr) = a # executed tr" "executed (AbortedEvent a # tr) = executed tr"
  "executed (Deleted a # tr) = executed tr" "executed (tr @ tr') = executed tr @ executed tr'"
  by (simp_all add: executed_def)

lemma executed_iff: "a \<in> set (executed tr) \<longleftrightarrow> (\<exists>t. Executed a t \<in> set tr)"
  by (induction tr) (auto simp: executed_def split: event_action.splits)

definition ep_inv :: "event_processor \<Rightarrow> bool" where
  "ep_inv s \<longleftrightarrow> mm_sorted (m_events s) \<and> distinct (map snd (m_events s)) \<and>
     (\<forall>t a. (t, a) \<in> set (m_events s) \<longrightarrow> (\<exists>ev. ep_heap s a = Some ev \<and> m_execTime ev = t)) \<and>
     (\<forall>a. ep_heap s a \<noteq> None \<longrightarrow> a < ep_next s)"

lemma queued_live: "ep_inv s \<Longrightarrow> (t, a) \<in> set (m_events s) \<Longrightarrow> \<exists>ev. ep_heap s a = Some ev \<and> m_execTime ev = t"
  by (simp add: ep_inv_def)

text \<open>Well behaved scripts: what runs in an update adds events for later, and re-adds the running event at most
  once, only when it also returns that it is not finished. Moving and aborting other events is left to the code
  that runs between updates.\<close>

definition call_ok :: "nat \<Rightarrow> nat \<Rightarrow> event_call \<Rightarrow> bool" where
  "call_ok a now c = (case c of CallNew t b \<Rightarrow> now < t | CallAdd x t b \<Rightarrow> x = a \<and> now < t | _ \<Rightarrow> False)"

definition is_add :: "event_call \<Rightarrow> bool" where
  "is_add c = (case c of CallAdd a t b \<Rightarrow> True | _ \<Rightarrow> False)"

definition script_ok :: "event_code \<Rightarrow> bool" where
  "script_ok E \<longleftrightarrow> (\<forall>a p s. (\<forall>c \<in> set (fst (ev_Execute E a p s)). call_ok a (m_time s) c) \<and>
     length (filter is_add (fst (ev_Execute E a p s))) \<le> (if snd (ev_Execute E a p s) then 0 else 1) \<and>
     (\<forall>c \<in> set (ev_Abort E a s). call_ok a (m_time s) c \<and> \<not> is_add c))"

lemma filter_mm_insert: "\<not> P (k, v) \<Longrightarrow> filter P (mm_insert k v m) = filter P m"
  by (induction k v m rule: mm_insert.induct) auto

lemma distinct_snd_insert: "distinct (map snd (mm_insert k v m)) \<longleftrightarrow> v \<notin> snd ` set m \<and> distinct (map snd m)"
proof -
  have "mset (map snd (mm_insert k v m)) = mset (map snd ((k, v) # m))" by simp
  then have "distinct (map snd (mm_insert k v m)) \<longleftrightarrow> distinct (map snd ((k, v) # m))"
    by (metis distinct_count_atmost_1 set_mset_mset)
  then show ?thesis by (simp add: image_image)
qed

text \<open>\<open>keeps_others a s s'\<close>: what a running event may do to the rest.\<close>

definition keeps_others :: "nat \<Rightarrow> event_processor \<Rightarrow> event_processor \<Rightarrow> bool" where
  "keeps_others a s s' \<longleftrightarrow> m_time s' = m_time s \<and> due s' = due s \<and> set (m_events s) \<subseteq> set (m_events s') \<and>
     (\<forall>b ev. b \<noteq> a \<longrightarrow> ep_heap s b = Some ev \<longrightarrow> ep_heap s' b = Some ev)"

lemma keeps_others_refl [simp]: "keeps_others a s s"
  by (simp add: keeps_others_def)

lemma keeps_others_trans: "keeps_others a s s' \<Longrightarrow> keeps_others a s' s'' \<Longrightarrow> keeps_others a s s''"
  by (auto simp: keeps_others_def)

lemma AddEvent_ok:
  assumes i: "ep_inv s" and h: "ep_heap s a = Some ev" and q: "a \<notin> snd ` set (m_events s)" and t: "m_time s < t"
  obtains s' ev' where "AddEvent a t b s = Some s'" "ep_inv s'" "keeps_others a s s'" "ep_trace s' = ep_trace s"
    "ep_heap s' a = Some ev'" "m_abortState ev' = m_abortState ev" "m_events s' = mm_insert t a (m_events s)"
proof -
  let ?ev = "(if b then ev\<lparr>m_addTime := m_time s\<rparr> else ev)\<lparr>m_execTime := t\<rparr>"
  let ?s = "s\<lparr>ep_heap := (ep_heap s)(a \<mapsto> ?ev), m_events := mm_insert t a (m_events s)\<rparr>"
  have e: "AddEvent a t b s = Some ?s" using h by (simp add: AddEvent_def Let_def)
  have "\<exists>x. ep_heap ?s c = Some x \<and> m_execTime x = u" if "(u, c) \<in> set (m_events ?s)" for u c
  proof (cases "c = a")
    case True
    then show ?thesis using that q by force
  next
    case False
    then show ?thesis using that i by (simp add: ep_inv_def)
  qed
  then have "ep_inv ?s" using i q h by (auto simp: ep_inv_def distinct_snd_insert)
  moreover have "keeps_others a s ?s" using t by (auto simp: keeps_others_def due_def filter_mm_insert)
  ultimately show ?thesis using that [OF e, of ?ev] by simp
qed

lemma AddNewEvent_ok:
  assumes i: "ep_inv s" and t: "m_time s < t"
  obtains s' where "AddNewEvent t b s = Some s'" "ep_inv s'" "keeps_others a s s'" "ep_trace s' = ep_trace s"
    "ep_heap s a \<noteq> None \<Longrightarrow> ep_heap s' a = ep_heap s a" "ep_heap s a \<noteq> None \<Longrightarrow> a \<in> snd ` set (m_events s') \<longleftrightarrow> a \<in> snd ` set (m_events s)"
proof -
  let ?n = "ep_next s"
  let ?s0 = "s\<lparr>ep_heap := (ep_heap s)(?n \<mapsto> BasicEvent_new), ep_next := Suc ?n\<rparr>"
  have n: "ep_heap s ?n = None" using i by (auto simp: ep_inv_def)
  have q: "?n \<notin> snd ` set (m_events s)"
  proof
    assume "?n \<in> snd ` set (m_events s)"
    then obtain u where "(u, ?n) \<in> set (m_events s)" by auto
    with i n show False by (auto simp: ep_inv_def)
  qed
  have "\<exists>x. ep_heap ?s0 c = Some x \<and> m_execTime x = u" if "(u, c) \<in> set (m_events ?s0)" for u c
  proof -
    have "c \<noteq> ?n" using q that by force
    then show ?thesis using that i by (simp add: ep_inv_def)
  qed
  then have i0: "ep_inv ?s0" using i by (simp add: ep_inv_def less_SucI)
  obtain s' ev' where s': "AddEvent ?n t b ?s0 = Some s'" "ep_inv s'" "keeps_others ?n ?s0 s'" "ep_trace s' = ep_trace ?s0"
      "m_events s' = mm_insert t ?n (m_events ?s0)"
    using AddEvent_ok [OF i0, of ?n BasicEvent_new t b] q t by auto
  have o: "ep_heap s' c = Some x" if "ep_heap s c = Some x" for c x
  proof -
    have "c \<noteq> ?n" using that n by auto
    with s'(3) that show ?thesis by (simp add: keeps_others_def)
  qed
  then have "keeps_others a s s'" using s'(3) by (auto simp: keeps_others_def due_def)
  moreover have "ep_heap s' a = ep_heap s a" if "ep_heap s a \<noteq> None" using that o by auto
  moreover have "a \<in> snd ` set (m_events s') \<longleftrightarrow> a \<in> snd ` set (m_events s)" if "ep_heap s a \<noteq> None"
    using that n s'(5) by auto
  ultimately show ?thesis using that [of s'] s' by (simp add: AddNewEvent_def)
qed


lemma perform_all_ok:
  "ep_inv s \<Longrightarrow> ep_heap s a = Some ev \<Longrightarrow> (\<forall>c \<in> set cs. call_ok a (m_time s) c) \<Longrightarrow>
   length (filter is_add cs) \<le> (if a \<in> snd ` set (m_events s) then 0 else 1) \<Longrightarrow>
   \<exists>s' ev'. perform_all cs s = Some s' \<and> ep_inv s' \<and> keeps_others a s s' \<and> ep_trace s' = ep_trace s \<and>
     ep_heap s' a = Some ev' \<and> m_abortState ev' = m_abortState ev \<and>
     (filter is_add cs = [] \<longrightarrow> a \<notin> snd ` set (m_events s) \<longrightarrow> a \<notin> snd ` set (m_events s'))"
proof (induction cs arbitrary: s ev)
  case (Cons c cs)
  show ?case
  proof (cases c)
    case (CallNew t b)
    then have t: "m_time s < t" and n: "\<not> is_add c" using Cons.prems(3) by (simp_all add: call_ok_def is_add_def)
    obtain s1 where s1: "AddNewEvent t b s = Some s1" "ep_inv s1" "keeps_others a s s1" "ep_trace s1 = ep_trace s"
      "ep_heap s1 a = Some ev" "a \<in> snd ` set (m_events s1) \<longleftrightarrow> a \<in> snd ` set (m_events s)"
      using AddNewEvent_ok [OF Cons.prems(1) t, of b a] Cons.prems(2) by (metis option.distinct(1))
    have "\<forall>c \<in> set cs. call_ok a (m_time s1) c" using Cons.prems(3) s1(3) by (simp add: keeps_others_def)
    moreover have "length (filter is_add cs) \<le> (if a \<in> snd ` set (m_events s1) then 0 else 1)"
      using Cons.prems(4) n unfolding s1(6) by simp
    ultimately obtain s2 ev' where s2: "perform_all cs s1 = Some s2" "ep_inv s2" "keeps_others a s1 s2" "ep_trace s2 = ep_trace s1"
      "ep_heap s2 a = Some ev'" "m_abortState ev' = m_abortState ev"
      "filter is_add cs = [] \<longrightarrow> a \<notin> snd ` set (m_events s1) \<longrightarrow> a \<notin> snd ` set (m_events s2)"
      using Cons.IH [OF s1(2,5)] by blast
    with CallNew s1(1,4,6) keeps_others_trans [OF s1(3) s2(3)] n show ?thesis by simp
  next
    case (CallAdd x t b)
    then have t: "x = a" "m_time s < t" using Cons.prems(3) by (simp_all add: call_ok_def)
    have n: "is_add c" using CallAdd by (simp add: is_add_def)
    then have q: "a \<notin> snd ` set (m_events s)" and f: "filter is_add cs = []" using Cons.prems(4) by (auto split: if_splits)
    obtain s1 ev1 where s1: "AddEvent a t b s = Some s1" "ep_inv s1" "keeps_others a s s1" "ep_trace s1 = ep_trace s"
      "ep_heap s1 a = Some ev1" "m_abortState ev1 = m_abortState ev"
      using AddEvent_ok [OF Cons.prems(1,2) q t(2), of b] by metis
    have "\<forall>c \<in> set cs. call_ok a (m_time s1) c" using Cons.prems(3) s1(3) by (simp add: keeps_others_def)
    moreover have "length (filter is_add cs) \<le> (if a \<in> snd ` set (m_events s1) then 0 else 1)" by (simp add: f)
    ultimately obtain s2 ev' where s2: "perform_all cs s1 = Some s2" "ep_inv s2" "keeps_others a s1 s2" "ep_trace s2 = ep_trace s1"
      "ep_heap s2 a = Some ev'" "m_abortState ev' = m_abortState ev1"
      using Cons.IH [OF s1(2,5)] by blast
    with CallAdd t(1) n s1(1,4,6) keeps_others_trans [OF s1(3) s2(3)] show ?thesis by simp
  qed (use Cons.prems(3) in \<open>simp_all add: call_ok_def\<close>)
qed simp

lemma delete_event_ok:
  assumes i: "ep_inv s" and h: "ep_heap s a \<noteq> None" and q: "a \<notin> snd ` set (m_events s)"
  obtains s' where "delete_event a s = Some s'" "ep_inv s'" "keeps_others a s s'" "ep_trace s' = ep_trace s @ [Deleted a]"
proof -
  let ?s = "log_action (Deleted a) (s\<lparr>ep_heap := (ep_heap s)(a := None)\<rparr>)"
  have "\<exists>x. ep_heap ?s c = Some x \<and> m_execTime x = u" if "(u, c) \<in> set (m_events ?s)" for u c
  proof -
    have "(u, c) \<in> set (m_events s)" using that by (simp add: log_action_def)
    moreover from this have "c \<noteq> a" using q by force
    ultimately show ?thesis using i by (simp add: ep_inv_def log_action_def)
  qed
  then have "ep_inv ?s" using i by (simp add: ep_inv_def log_action_def)
  moreover have "keeps_others a s ?s" by (simp add: keeps_others_def log_action_def due_def)
  ultimately show ?thesis using that [of ?s] h by (simp add: delete_event_def log_action_def)
qed

lemma log_action_inv [simp]: "ep_inv (log_action x s) = ep_inv s" "ep_heap (log_action x s) = ep_heap s"
  "m_events (log_action x s) = m_events s" "m_time (log_action x s) = m_time s"
  "ep_trace (log_action x s) = ep_trace s @ [x]" "keeps_others a (log_action x s) s' = keeps_others a s s'"
  by (simp_all add: ep_inv_def log_action_def keeps_others_def due_def)

lemma SetAborted_ok:
  assumes i: "ep_inv s" and h: "ep_heap s a = Some ev" "\<not> IsAborted ev"
  obtains s' ev' where "SetAborted a s = Some s'" "ep_inv s'" "keeps_others a s s'" "ep_trace s' = ep_trace s"
    "ep_heap s' a = Some ev'" "m_abortState ev' = STATE_ABORTED" "m_events s' = m_events s"
proof -
  let ?s = "s\<lparr>ep_heap := (ep_heap s)(a \<mapsto> ev\<lparr>m_abortState := STATE_ABORTED\<rparr>)\<rparr>"
  have "\<exists>x. ep_heap ?s c = Some x \<and> m_execTime x = u" if "(u, c) \<in> set (m_events s)" for u c
  proof -
    have "\<exists>x. ep_heap s c = Some x \<and> m_execTime x = u" using that i by (simp add: ep_inv_def)
    then show ?thesis using h by (cases "c = a") auto
  qed
  then have "ep_inv ?s" using i h by (auto simp: ep_inv_def)
  moreover have "keeps_others a s ?s" by (simp add: keeps_others_def due_def)
  ultimately show ?thesis using that [of ?s] h by (simp add: SetAborted_def)
qed

text \<open>One turn of the loop: the event is executed if it is running, and nothing else that waits is touched.\<close>

lemma Update_event_ok:
  assumes E: "script_ok E" and i: "ep_inv s" and h: "ep_heap s a = Some ev" and q: "a \<notin> snd ` set (m_events s)"
  shows "\<exists>s' tr. Update_event E p a s = Some s' \<and> ep_inv s' \<and> keeps_others a s s' \<and> ep_trace s' = ep_trace s @ tr \<and>
    executed tr = (if IsRunning ev then [a] else []) \<and> (\<forall>b t. Executed b t \<in> set tr \<longrightarrow> t = m_time s)"
proof (cases "IsRunning ev")
  case True
  obtain cs fin where x: "ev_Execute E a p s = (cs, fin)" by (cases "ev_Execute E a p s")
  let ?l = "log_action (Executed a (m_time s)) s"
  have c: "\<forall>c \<in> set cs. call_ok a (m_time ?l) c" "length (filter is_add cs) \<le> (if fin then 0 else 1)"
    using E x unfolding script_ok_def by (metis fst_conv log_action_inv(4), metis fst_conv snd_conv)
  have l: "length (filter is_add cs) \<le> (if a \<in> snd ` set (m_events ?l) then 0 else 1)"
    using c(2) q by (simp split: if_splits)
  obtain s1 ev1 where s1: "perform_all cs ?l = Some s1" "ep_inv s1" "keeps_others a s s1"
      "ep_trace s1 = ep_trace s @ [Executed a (m_time s)]" "ep_heap s1 a = Some ev1"
      "filter is_add cs = [] \<longrightarrow> a \<notin> snd ` set (m_events s1)"
    using perform_all_ok [of ?l a ev cs] i h c(1) l q by auto
  show ?thesis
  proof (cases fin)
    case fin: True
    then have "a \<notin> snd ` set (m_events s1)" using c(2) s1(6) by simp
    then obtain s2 where s2: "delete_event a s1 = Some s2" "ep_inv s2" "keeps_others a s1 s2" "ep_trace s2 = ep_trace s1 @ [Deleted a]"
      using delete_event_ok [OF s1(2)] s1(5) by (metis option.distinct(1))
    have "Update_event E p a s = Some s2" using h True x s1(1) s2(1) fin by (simp add: Update_event_def)
    with s2 s1(4) True keeps_others_trans [OF s1(3) s2(3)] show ?thesis
      by (intro exI [of _ s2] exI [of _ "[Executed a (m_time s), Deleted a]"]) simp
  next
    case False
    then have "Update_event E p a s = Some s1" using h True x s1(1) by (simp add: Update_event_def)
    with s1 True show ?thesis by (intro exI [of _ s1] exI [of _ "[Executed a (m_time s)]"]) simp
  qed
next
  case False
  obtain s1 tr1 ev1 where s1: "(if IsAbortScheduled ev
            then Option.bind (perform_all (ev_Abort E a s) (log_action (AbortedEvent a) s)) (SetAborted a)
            else Some s) = Some s1" "ep_inv s1" "keeps_others a s s1" "ep_trace s1 = ep_trace s @ tr1" "executed tr1 = []"
            "ep_heap s1 a = Some ev1" "a \<notin> snd ` set (m_events s1)"
  proof (cases "IsAbortScheduled ev")
    case True
    let ?l = "log_action (AbortedEvent a) s" and ?cs = "ev_Abort E a s"
    have c: "\<forall>c \<in> set ?cs. call_ok a (m_time ?l) c" "filter is_add ?cs = []"
      using E by (auto simp: script_ok_def filter_empty_conv)
    then have l: "length (filter is_add ?cs) \<le> (if a \<in> snd ` set (m_events ?l) then 0 else 1)" by simp
    obtain s2 ev2 where s2: "perform_all ?cs ?l = Some s2" "ep_inv s2" "keeps_others a s s2" "ep_trace s2 = ep_trace s @ [AbortedEvent a]"
        "ep_heap s2 a = Some ev2" "m_abortState ev2 = m_abortState ev" "a \<notin> snd ` set (m_events s2)"
      using perform_all_ok [of ?l a ev ?cs] i h c l q by auto
    have "\<not> IsAborted ev2" using True s2(6) by (simp add: IsAbortScheduled_def IsAborted_def)
    then obtain s3 ev3 where s3: "SetAborted a s2 = Some s3" "ep_inv s3" "keeps_others a s2 s3" "ep_trace s3 = ep_trace s2"
        "ep_heap s3 a = Some ev3" "m_events s3 = m_events s2"
      using SetAborted_ok [OF s2(2,5)] by metis
    show ?thesis
      using that [of s3 "[AbortedEvent a]" ev3] True s2 s3 keeps_others_trans [OF s2(3) s3(3)] by simp
  qed (use that [of s "[]" ev] i h q in auto)
  show ?thesis
  proof (cases "ev_IsDeletable E a s1")
    case True
    obtain s2 where s2: "delete_event a s1 = Some s2" "ep_inv s2" "keeps_others a s1 s2" "ep_trace s2 = ep_trace s1 @ [Deleted a]"
      using delete_event_ok [OF s1(2) _ s1(7)] s1(6) by (metis option.distinct(1))
    have "Update_event E p a s = Some s2" using h False True s1(1) s2(1) by (simp add: Update_event_def)
    with s2 s1(4,5) False keeps_others_trans [OF s1(3) s2(3)] show ?thesis
      by (intro exI [of _ s2] exI [of _ "tr1 @ [Deleted a]"]) (use executed_iff [of _ tr1] in auto)
  next
    case nd: False
    obtain s2 where s2: "AddEvent a (CalculateTime 1 s1) False s1 = Some s2" "ep_inv s2" "keeps_others a s1 s2" "ep_trace s2 = ep_trace s1"
      using AddEvent_ok [OF s1(2,6,7), of "CalculateTime 1 s1" False] by (metis CalculateTime_def less_add_one)
    have "Update_event E p a s = Some s2" using h False nd s1(1) s2(1) by (simp add: Update_event_def)
    with s2 s1(4,5) False keeps_others_trans [OF s1(3) s2(3)] show ?thesis
      by (intro exI [of _ s2] exI [of _ tr1]) (use executed_iff [of _ tr1] in auto)
  qed
qed


section \<open>One update\<close>

lemma EventProcessor_loop_ok:
  assumes E: "script_ok E"
  shows "ep_inv s \<Longrightarrow> \<exists>s' tr. EventProcessor_loop E p s = Some s' \<and> ep_inv s' \<and> m_time s' = m_time s \<and> due s' = [] \<and>
    ep_trace s' = ep_trace s @ tr \<and> executed tr = filter (running s) (map snd (due s)) \<and>
    (\<forall>b t. Executed b t \<in> set tr \<longrightarrow> t = m_time s) \<and>
    (\<forall>x \<in> set (m_events s). m_time s < fst x \<longrightarrow> x \<in> set (m_events s') \<and> ep_heap s' (snd x) = ep_heap s (snd x))"
proof (induction "length (due s)" arbitrary: s rule: less_induct)
  case less
  note step = EventProcessor_loop.simps [of E p s]
  show ?case
  proof (cases "due s = []")
    case True
    have "EventProcessor_loop E p s = Some s"
    proof (cases "m_events s")
      case Nil
      with step show ?thesis by simp
    next
      case (Cons x m)
      obtain t a where "x = (t, a)" by (cases x)
      with True Cons step show ?thesis by (auto simp: due_def split: if_splits)
    qed
    with True less.prems show ?thesis by (intro exI [of _ s] exI [of _ "[]"]) simp
  next
    case False
    have sorted: "mm_sorted (m_events s)" using less.prems by (simp add: ep_inv_def)
    obtain t a m where ev: "m_events s = (t, a) # m" using False by (cases "m_events s") (auto simp: due_def)
    have t: "t \<le> m_time s"
    proof (rule ccontr)
      assume "\<not> t \<le> m_time s"
      then have "\<forall>x \<in> set (m_events s). \<not> fst x \<le> m_time s" using sorted ev by auto
      with False show False by (simp add: due_def filter_empty_conv)
    qed
    let ?s = "s\<lparr>m_events := m\<rparr>"
    have i0: "ep_inv ?s" using less.prems ev by (auto simp: ep_inv_def)
    have q: "a \<notin> snd ` set (m_events ?s)" using less.prems ev by (auto simp: ep_inv_def)
    have "\<exists>e. ep_heap s a = Some e" using queued_live [OF less.prems, of t a] ev by auto
    then obtain e where h: "ep_heap ?s a = Some e" by auto
    have d: "due s = (t, a) # due ?s" using ev t by (simp add: due_def)
    obtain s1 tr1 where s1: "Update_event E p a ?s = Some s1" "ep_inv s1" "keeps_others a ?s s1"
        "ep_trace s1 = ep_trace ?s @ tr1" "executed tr1 = (if IsRunning e then [a] else [])"
        "\<forall>b t. Executed b t \<in> set tr1 \<longrightarrow> t = m_time ?s"
      using Update_event_ok [OF E i0 h q, of p] by blast
    have d1: "due s1 = due ?s" and m1: "m_time s1 = m_time s" using s1(3) by (simp_all add: keeps_others_def)
    have "length (due s1) < length (due s)" by (simp add: d d1)
    from less.hyps [OF this s1(2)] obtain s2 tr2 where s2: "EventProcessor_loop E p s1 = Some s2" "ep_inv s2"
        "m_time s2 = m_time s1" "due s2 = []" "ep_trace s2 = ep_trace s1 @ tr2"
        "executed tr2 = filter (running s1) (map snd (due s1))" "\<forall>b t. Executed b t \<in> set tr2 \<longrightarrow> t = m_time s1"
        "\<forall>x \<in> set (m_events s1). m_time s1 < fst x \<longrightarrow> x \<in> set (m_events s2) \<and> ep_heap s2 (snd x) = ep_heap s1 (snd x)"
      by blast
    have l: "EventProcessor_loop E p s = Some s2" using step ev t s1(1) s2(1) by simp
    have keep: "ep_heap s1 c = ep_heap s c" if "c \<in> snd ` set m" for c
    proof -
      have "c \<noteq> a" using that q by auto
      moreover obtain u where "(u, c) \<in> set (m_events s)" using \<open>c \<in> snd ` set m\<close> unfolding ev by force
      then obtain x where "ep_heap s c = Some x" using queued_live [OF less.prems] by blast
      ultimately show ?thesis using s1(3) by (simp add: keeps_others_def)
    qed
    have keep2: "ep_heap s1 c = ep_heap s c" if "(u, c) \<in> set m" for u c
      by (rule keep) (use that in force)
    have "filter (running s1) (map snd (due ?s)) = filter (running s) (map snd (due ?s))"
      by (rule filter_cong) (auto simp: due_def running_def keep2)
    moreover have "running s a = IsRunning e" using h by (simp add: running_def)
    ultimately have ex: "executed (tr1 @ tr2) = filter (running s) (map snd (due s))"
      using s1(5) s2(6) by (simp add: d d1)
    have "x \<in> set (m_events s2) \<and> ep_heap s2 (snd x) = ep_heap s (snd x)" if "x \<in> set (m_events s)" "m_time s < fst x" for x
    proof -
      have x: "x \<in> set m" using that ev t by auto
      then have "x \<in> set (m_events s1)" using s1(3) by (auto simp: keeps_others_def)
      with s2(8) that(2) m1 keep [of "snd x"] x show ?thesis by auto
    qed
    with l s1(4,6) s2 m1 ex show ?thesis
      by (intro exI [of _ s2] exI [of _ "tr1 @ tr2"]) auto
  qed
qed

section \<open>Transitions\<close>

lemma advance_inv: "ep_inv s \<Longrightarrow> ep_inv (s\<lparr>m_time := t\<rparr>)"
  by (simp add: ep_inv_def)

lemma remove_first_event_Some:
  "remove_first_event a m = Some m' \<Longrightarrow> \<exists>xs t ys. m = xs @ (t, a) # ys \<and> m' = xs @ ys \<and> a \<notin> snd ` set xs"
proof (induction a m arbitrary: m' rule: remove_first_event.induct)
  case (2 a t b m)
  show ?case
  proof (cases "b = a")
    case True
    with 2(2) show ?thesis by (intro exI [of _ "[]"]) auto
  next
    case False
    with 2(2) obtain m1 where m1: "remove_first_event a m = Some m1" "m' = (t, b) # m1" by auto
    from 2(1) [OF False m1(1)] obtain xs u ys where "m = xs @ (u, a) # ys" "m1 = xs @ ys" "a \<notin> snd ` set xs" by blast
    with m1(2) False show ?thesis by (intro exI [of _ "(t, b) # xs"]) auto
  qed
qed simp

lemma ModifyEventTime_inv:
  assumes i: "ep_inv s" and m: "ModifyEventTime a t s = Some s'"
  shows "ep_inv s'"
proof (cases "remove_first_event a (m_events s)")
  case None
  with m i show ?thesis by (simp add: ModifyEventTime_def)
next
  case (Some m')
  obtain xs u ys where x: "m_events s = xs @ (u, a) # ys" "m' = xs @ ys" using remove_first_event_Some [OF Some] by blast
  obtain ev where ev: "ep_heap s a = Some ev" "s' = s\<lparr>ep_heap := (ep_heap s)(a \<mapsto> ev\<lparr>m_execTime := t\<rparr>), m_events := mm_insert t a m'\<rparr>"
    using m Some by (auto simp: ModifyEventTime_def bind_eq_Some_conv)
  have q: "a \<notin> snd ` set m'" using i x by (auto simp: ep_inv_def)
  have "mm_sorted m'" "distinct (map snd m')" using i x by (auto simp: ep_inv_def mm_sorted_append)
  moreover have "\<exists>z. ep_heap s' c = Some z \<and> m_execTime z = v" if "(v, c) \<in> set (m_events s')" for v c
  proof (cases "c = a")
    case True
    then show ?thesis using that q ev(2) by force
  next
    case False
    then show ?thesis using that i x ev(2) by (auto simp: ep_inv_def)
  qed
  ultimately show ?thesis using i q ev by (auto simp: ep_inv_def distinct_snd_insert)
qed

lemma ScheduleAbort_inv:
  assumes i: "ep_inv s" and m: "ScheduleAbort a s = Some s'"
  shows "ep_inv s'"
proof -
  obtain ev where ev: "ep_heap s a = Some ev" "s' = s\<lparr>ep_heap := (ep_heap s)(a \<mapsto> ev\<lparr>m_abortState := STATE_ABORT_SCHEDULED\<rparr>)\<rparr>"
    using m by (auto simp: ScheduleAbort_def bind_eq_Some_conv split: if_splits)
  have "\<exists>x. ep_heap s' c = Some x \<and> m_execTime x = u" if "(u, c) \<in> set (m_events s)" for u c
  proof -
    have "\<exists>x. ep_heap s c = Some x \<and> m_execTime x = u" using that i by (simp add: ep_inv_def)
    then show ?thesis using ev by (cases "c = a") auto
  qed
  then show ?thesis using i ev by (auto simp: ep_inv_def)
qed

lemma AddNewEvent_inv:
  assumes i: "ep_inv s"
  shows "\<exists>s'. AddNewEvent t b s = Some s' \<and> ep_inv s'"
proof -
  let ?z = "s\<lparr>m_time := 0\<rparr>" 
  let ?n = "ep_next s"
  have n: "ep_heap s ?n = None" using i by (auto simp: ep_inv_def)
  have q: "?n \<notin> snd ` set (m_events s)"
  proof
    assume "?n \<in> snd ` set (m_events s)"
    then obtain u where "(u, ?n) \<in> set (m_events s)" by auto
    with i n show False by (auto simp: ep_inv_def)
  qed
  obtain s' where s': "AddNewEvent t b s = Some s'" by (simp add: AddNewEvent_def AddEvent_def Let_def)
  have f: "m_events s' = mm_insert t ?n (m_events s)" "ep_next s' = Suc ?n"
    "ep_heap s' c = (if c = ?n then ep_heap s' ?n else ep_heap s c)" "\<exists>x. ep_heap s' ?n = Some x \<and> m_execTime x = t" for c
    using s' by (auto simp: AddNewEvent_def AddEvent_def Let_def)
  have "\<exists>x. ep_heap s' c = Some x \<and> m_execTime x = u" if "(u, c) \<in> set (m_events s')" for u c
  proof (cases "c = ?n")
    case True
    then show ?thesis using that q f(1,4) by force
  next
    case False
    then show ?thesis using that i f(1) f(3) [of c] by (simp add: ep_inv_def)
  qed
  moreover have "c < ep_next s'" if "ep_heap s' c \<noteq> None" for c
    using that i f(2) f(3) [of c] by (cases "c = ?n") (auto simp: ep_inv_def less_SucI)
  ultimately have "ep_inv s'" using i q f(1) by (simp add: ep_inv_def distinct_snd_insert)
  with s' show ?thesis by blast
qed

text \<open>What the owner of a processor does with it, as transitions.\<close>

inductive ep_step :: "event_code \<Rightarrow> event_processor \<Rightarrow> event_processor \<Rightarrow> bool" for E where
  add: "AddNewEvent t b s = Some s' \<Longrightarrow> ep_step E s s'"
| add_offset: "AddEventAtOffset t s = Some s' \<Longrightarrow> ep_step E s s'"
| move: "ModifyEventTime a t s = Some s' \<Longrightarrow> ep_step E s s'"
| abort: "ScheduleAbort a s = Some s' \<Longrightarrow> ep_step E s s'"
| update: "EventProcessor_Update E p s = Some s' \<Longrightarrow> ep_step E s s'"

definition updated ::
  "event_code \<Rightarrow> nat \<Rightarrow> event_processor \<Rightarrow> event_processor \<Rightarrow> event_action list \<Rightarrow> bool" where
  "updated E p s s' tr \<longleftrightarrow> EventProcessor_Update E p s = Some s' \<and> ep_inv s' \<and> m_time s' = m_time s + p \<and> due s' = [] \<and>
    ep_trace s' = ep_trace s @ tr \<and>
    executed tr = filter (running s) (map snd (filter (\<lambda>x. fst x \<le> m_time s + p) (m_events s))) \<and>
    (\<forall>b t. Executed b t \<in> set tr \<longrightarrow> t = m_time s + p) \<and>
    (\<forall>x \<in> set (m_events s). m_time s + p < fst x \<longrightarrow> x \<in> set (m_events s') \<and> ep_heap s' (snd x) = ep_heap s (snd x))"

lemma updatedD:
  assumes "updated E p s s' tr"
  shows "EventProcessor_Update E p s = Some s'" "ep_inv s'" "m_time s' = m_time s + p" "due s' = []"
    "ep_trace s' = ep_trace s @ tr"
    "executed tr = filter (running s) (map snd (filter (\<lambda>x. fst x \<le> m_time s + p) (m_events s)))"
    "Executed b u \<in> set tr \<Longrightarrow> u = m_time s + p"
    "(t, a) \<in> set (m_events s) \<Longrightarrow> m_time s + p < t \<Longrightarrow> (t, a) \<in> set (m_events s')"
    "(t, a) \<in> set (m_events s) \<Longrightarrow> m_time s + p < t \<Longrightarrow> ep_heap s' a = ep_heap s a"
  using assms unfolding updated_def by (simp, simp, simp, simp, simp, simp, blast, force, force)

lemma Update_ok:
  assumes "script_ok E" "ep_inv s"
  obtains s' tr where "updated E p s s' tr"
proof -
  let ?s = "s\<lparr>m_time := m_time s + p\<rparr>"
  have r: "running ?s = running s" by (intro ext) (simp add: running_def)
  have d: "due ?s = filter (\<lambda>x. fst x \<le> m_time s + p) (m_events s)" by (simp add: due_def)
  have "\<exists>s' tr. updated E p s s' tr"
    using EventProcessor_loop_ok [OF assms(1) advance_inv [OF assms(2)], of p "m_time s + p"]
    unfolding r d by (simp add: updated_def EventProcessor_Update_def)
  then show ?thesis using that by blast
qed

lemma ep_step_inv: "ep_step E s s' \<Longrightarrow> script_ok E \<Longrightarrow> ep_inv s \<Longrightarrow> ep_inv s'"
proof (induction rule: ep_step.induct)
  case (update p s s')
  obtain s2 tr where "updated E p s s2 tr" using Update_ok [OF update(2,3)] .
  with update(1) updatedD(1,2) show ?case by force
next
  case (add t b s s')
  then show ?case using AddNewEvent_inv [of s t b] by auto
next
  case (add_offset t s s')
  then show ?case using AddNewEvent_inv [of s "CalculateTime t s" True] by (auto simp: AddEventAtOffset_def)
qed (auto intro: ModifyEventTime_inv ScheduleAbort_inv)

lemma ep_inv_new: "ep_inv EventProcessor_new"
  by (simp add: ep_inv_def EventProcessor_new_def)

lemma ep_reachable_inv:
  assumes "script_ok E" "(ep_step E)\<^sup>*\<^sup>* EventProcessor_new s"
  shows "ep_inv s"
  using assms(2) by (induction rule: rtranclp_induct) (auto intro: ep_inv_new ep_step_inv [OF _ assms(1)])

section \<open>Properties\<close>

text \<open>A script for the witnesses: every event wants to run again after five milliseconds.\<close>

definition ticking :: event_code where
  "ticking = \<lparr>ev_Execute = \<lambda>a p s. ([CallAdd a (m_time s + 5) True], False), ev_Abort = \<lambda>a s. [],
     ev_IsDeletable = \<lambda>a s. True\<rparr>"

lemma ticking_ok: "script_ok ticking"
  by (simp add: script_ok_def ticking_def call_ok_def is_add_def)

definition two_events :: event_processor where
  "two_events = the (Option.bind (AddNewEvent 7 True EventProcessor_new) (AddNewEvent 3 True))"

lemma two_events_facts:
  "(ep_step E)\<^sup>*\<^sup>* EventProcessor_new two_events" "m_events two_events = [(3, 1), (7, 0)]" "m_time two_events = 0"
  "running two_events 0" "running two_events 1"
proof -
  obtain s where s: "AddNewEvent 7 True EventProcessor_new = Some s" "AddNewEvent 3 True s = Some two_events"
    by (simp add: AddNewEvent_def AddEvent_def two_events_def Let_def)
  show "(ep_step E)\<^sup>*\<^sup>* EventProcessor_new two_events"
    using ep_step.add [OF s(1)] ep_step.add [OF s(2)] by (meson rtranclp.simps)
  show "m_events two_events = [(3, 1), (7, 0)]" "m_time two_events = 0" "running two_events 0" "running two_events 1"
    by (simp_all add: AddNewEvent_def AddEvent_def two_events_def Let_def EventProcessor_new_def running_def
        IsRunning_def BasicEvent_new_def)
qed

text \<open>
  One update ends, whatever well behaved scripts add meanwhile, and executes exactly the running events that
  are due, each once, in the order of their times and, for equal times, of their insertion; afterwards nothing that
  is due is left and what is not due waits unchanged.
\<close>

theorem Update_executes_due:
  assumes "script_ok E" "(ep_step E)\<^sup>*\<^sup>* EventProcessor_new s"
  shows "\<exists>s' tr. EventProcessor_Update E p s = Some s' \<and> ep_trace s' = ep_trace s @ tr \<and>
    executed tr = filter (running s) (map snd (filter (\<lambda>x. fst x \<le> m_time s + p) (m_events s))) \<and>
    (\<forall>x \<in> set (m_events s'). m_time s' < fst x) \<and>
    {x \<in> set (m_events s). m_time s + p < fst x} \<subseteq> set (m_events s')"
proof -
  obtain s' tr where u: "updated E p s s' tr" using Update_ok [OF assms(1) ep_reachable_inv [OF assms]] .
  have "\<forall>x \<in> set (m_events s'). m_time s' < fst x"
    using updatedD(4) [OF u] by (auto simp: due_def filter_empty_conv not_le)
  moreover have "{x \<in> set (m_events s). m_time s + p < fst x} \<subseteq> set (m_events s')" using updatedD(8) [OF u] by auto
  ultimately show ?thesis using updatedD(1,5,6) [OF u] by blast
qed

lemma Update_executes_due_witness:
  "\<exists>s' tr. EventProcessor_Update ticking 7 two_events = Some s' \<and> ep_trace s' = ep_trace two_events @ tr \<and> executed tr = [1, 0]"
  using Update_executes_due [OF ticking_ok two_events_facts(1), of 7] by (auto simp: two_events_facts simp del: One_nat_def)

primrec updates :: "event_code \<Rightarrow> nat list \<Rightarrow> event_processor \<Rightarrow> event_processor option" where
  "updates E [] s = Some s"
| "updates E (p # ps) s = Option.bind (EventProcessor_Update E p s) (updates E ps)"
lemma updates_append: "updates E (ps @ qs) s = Option.bind (updates E ps s) (updates E qs)"
proof (induction ps arbitrary: s)
  case (Cons p ps)
  then show ?case by (cases "EventProcessor_Update E p s") simp_all
qed simp

lemma updates_trace:
  assumes "script_ok E"
  shows "ep_inv s \<Longrightarrow> \<exists>s' tr. updates E ps s = Some s' \<and> ep_inv s' \<and> m_time s' = m_time s + sum_list ps \<and>
    ep_trace s' = ep_trace s @ tr"
proof (induction ps arbitrary: s)
  case (Cons p ps)
  obtain s1 tr1 where u: "updated E p s s1 tr1" using Update_ok [OF assms Cons.prems] .
  from Cons.IH [OF updatedD(2) [OF u]] updatedD(1,3,5) [OF u] show ?case by (auto simp: add.assoc)
qed simp

lemma updates_wait:
  assumes "script_ok E"
  shows "ep_inv s \<Longrightarrow> (t, a) \<in> set (m_events s) \<Longrightarrow> m_time s + sum_list ps < t \<Longrightarrow>
    \<exists>s' tr. updates E ps s = Some s' \<and> ep_inv s' \<and> m_time s' = m_time s + sum_list ps \<and> (t, a) \<in> set (m_events s') \<and>
      ep_heap s' a = ep_heap s a \<and> ep_trace s' = ep_trace s @ tr \<and> a \<notin> set (executed tr)"
proof (induction ps arbitrary: s)
  case (Cons p ps)
  obtain s1 tr1 where u: "updated E p s s1 tr1" using Update_ok [OF assms Cons.prems(1)] .
  have l: "m_time s + p < t" using Cons.prems(3) by simp
  note s1 = updatedD(1-3,5,6) [OF u] updatedD(8,9) [OF u Cons.prems(2) l]
  have "a \<notin> set (executed tr1)"
  proof
    assume "a \<in> set (executed tr1)"
    then obtain u where u: "(u, a) \<in> set (m_events s)" "u \<le> m_time s + p" unfolding s1(5) by auto
    have "u = t" using queued_live [OF Cons.prems(1) u(1)] queued_live [OF Cons.prems(1,2)] by auto
    with u(2) Cons.prems(3) show False by simp
  qed
  moreover have "m_time s1 + sum_list ps < t" using Cons.prems(3) s1(3) by simp
  from Cons.IH [OF s1(2,6) this] s1 calculation show ?case by (auto simp: add.assoc)
qed simp

text \<open>
  C14: Every event is delivered: a running event that nobody moves or aborts is executed by the update that reaches
  its time, however the time is cut into updates; as long as that time is not reached it waits in the queue and is
  not executed.
\<close>

theorem EventProcessor_delivers:
  assumes "script_ok E" "(ep_step E)\<^sup>*\<^sup>* EventProcessor_new s" "(t, a) \<in> set (m_events s)" "running s a" "m_time s < t"
  shows "\<exists>s' tr. updates E ps s = Some s' \<and> ep_trace s' = ep_trace s @ tr \<and>
    (if m_time s + sum_list ps < t then (t, a) \<in> set (m_events s') \<and> a \<notin> set (executed tr)
     else \<exists>qs p rs. ps = qs @ p # rs \<and> m_time s + sum_list qs < t \<and> t \<le> m_time s + sum_list qs + p \<and>
       Executed a (m_time s + sum_list qs + p) \<in> set tr)"
proof -
  note i = ep_reachable_inv [OF assms(1,2)]
  show ?thesis
  proof (cases "m_time s + sum_list ps < t")
    case True
    from updates_wait [OF assms(1) i assms(3) True] True show ?thesis by auto
  next
    case False
    have "\<exists>qs p rs. ps = qs @ p # rs \<and> m_time s + sum_list qs < t \<and> t \<le> m_time s + sum_list qs + p"
      using False assms(5)
    proof (induction ps rule: rev_induct)
      case (snoc p ps)
      show ?case
      proof (cases "m_time s + sum_list ps < t")
        case True
        with snoc.prems(1) show ?thesis by (intro exI [of _ ps] exI [of _ p] exI [of _ "[]"]) simp
      next
        case False
        from snoc.IH [OF this snoc.prems(2)] show ?thesis by fastforce
      qed
    qed simp
    then obtain qs p rs where q: "ps = qs @ p # rs" "m_time s + sum_list qs < t" "t \<le> m_time s + sum_list qs + p" by blast
    obtain s1 tr1 where s1: "updates E qs s = Some s1" "ep_inv s1" "m_time s1 = m_time s + sum_list qs"
        "(t, a) \<in> set (m_events s1)" "ep_heap s1 a = ep_heap s a" "ep_trace s1 = ep_trace s @ tr1"
      using updates_wait [OF assms(1) i assms(3) q(2)] by blast
    obtain s2 tr2 where u: "updated E p s1 s2 tr2" using Update_ok [OF assms(1) s1(2)] .
    note s2 = updatedD(1,2,5,6,7) [OF u]
    have "running s1 a" using assms(4) s1(5) by (simp add: running_def)
    then have "a \<in> set (executed tr2)" unfolding s2(4) using s1(3,4) q(3) by force
    then have x: "Executed a (m_time s + sum_list qs + p) \<in> set tr2" using s2(5) s1(3) executed_iff by metis
    obtain s3 tr3 where s3: "updates E rs s2 = Some s3" "ep_trace s3 = ep_trace s2 @ tr3"
      using updates_trace [OF assms(1) s2(2)] by blast
    have "updates E ps s = Some s3" using s1(1) s2(1) s3(1) by (simp add: q(1) updates_append)
    moreover have "ep_trace s3 = ep_trace s @ (tr1 @ tr2 @ tr3)" using s1(6) s2(3) s3(2) by simp
    ultimately show ?thesis using False q x by (intro exI [of _ s3] exI [of _ "tr1 @ tr2 @ tr3"]) auto
  qed
qed

lemma EventProcessor_delivers_witness:
  "\<exists>s' tr. updates ticking [2, 2, 4, 1] two_events = Some s' \<and> ep_trace s' = ep_trace two_events @ tr \<and>
    0 \<in> set (executed tr)"
proof -
  have "(7, 0) \<in> set (m_events two_events)" "m_time two_events < 7" by (simp_all add: two_events_facts)
  from EventProcessor_delivers [OF ticking_ok two_events_facts(1) this(1) two_events_facts(4) this(2), of "[2, 2, 4, 1]"]
  show ?thesis using executed_iff [of 0] by (auto simp: two_events_facts)
qed

end
