(* ===== verification/TaskScheduler.thy ===== *)
theory TaskScheduler imports StdContainers begin

text \<open>
  Scheduled tasks, \<^verbatim>\<open>src/src/common/Utilities/TaskScheduler.{h,cpp}\<close>. Tasks are heap objects, the queue is a multiset of
  pointers ordered by the end of the task it points to, so an insertion compares the ends of the moment. What a handler does is a
  parameter: the calls it makes on its context. Times are nanoseconds of the steady clock, as integers. The overloads that draw a random
  duration call the others with it. A scheduler that a handler destroys is only marked as such.
\<close>

section \<open>State\<close>

record task =
  tk_end :: int
  tk_duration :: int
  tk_group :: "u32 option"
  tk_repeated :: u32
  tk_handler :: nat

datatype task_event = Invoked nat int int | Finished

text \<open>\<open>Invoked a end now\<close> records which task ran, when it was due and when it ran. \<open>None\<close> as validator is \<^verbatim>\<open>EmptyValidator\<close>.\<close>

record task_scheduler =
  ts_heap :: "nat \<rightharpoonup> task"
  ts_next :: nat
  ts_now :: int
  ts_queue :: "nat list"
  ts_validator :: "nat option"
  ts_alive :: bool
  ts_trace :: "task_event list"

definition TaskScheduler_new :: "int \<Rightarrow> task_scheduler" where
  "TaskScheduler_new clock = \<lparr>ts_heap = (\<lambda>_. None), ts_next = 0, ts_now = clock, ts_queue = [], ts_validator = None,
     ts_alive = True, ts_trace = []\<rparr>"

definition IsInGroup :: "u32 \<Rightarrow> task \<Rightarrow> bool" where
  "IsInGroup g t \<longleftrightarrow> tk_group t = Some g"

section \<open>The queue\<close>

definition end_of :: "(nat \<rightharpoonup> task) \<Rightarrow> nat \<Rightarrow> int" where
  "end_of h a = (case h a of None \<Rightarrow> 0 | Some t \<Rightarrow> tk_end t)"

text \<open>An insertion goes behind the tasks with the same end.\<close>

fun tq_insert :: "(nat \<Rightarrow> int) \<Rightarrow> nat \<Rightarrow> nat list \<Rightarrow> nat list" where
  "tq_insert e a [] = [a]"
| "tq_insert e a (b # q) = (if e b \<le> e a then b # tq_insert e a q else a # b # q)"

definition tq_push :: "nat \<Rightarrow> task_scheduler \<Rightarrow> task_scheduler" where
  "tq_push a s = s\<lparr>ts_queue := tq_insert (end_of (ts_heap s)) a (ts_queue s)\<rparr>"

definition tq_remove_if :: "(task \<Rightarrow> bool) \<Rightarrow> task_scheduler \<Rightarrow> task_scheduler" where
  "tq_remove_if filt s = s\<lparr>ts_queue := filter (\<lambda>a. case ts_heap s a of None \<Rightarrow> True | Some t \<Rightarrow> \<not> filt t) (ts_queue s)\<rparr>"

text \<open>
  The filter of \<^verbatim>\<open>ModifyIf\<close> changes a task while it is in the queue; it is taken out afterwards and put into the cache, whose elements are
  merged back one by one. \<open>filt t = Some t'\<close> is a filter that changes \<open>t\<close> to \<open>t'\<close> and returns true.
\<close>

fun modify_loop :: "(task \<Rightarrow> task option) \<Rightarrow> nat list \<Rightarrow> (nat \<rightharpoonup> task) \<times> nat list \<times> nat list \<Rightarrow> (nat \<rightharpoonup> task) \<times> nat list \<times> nat list" where
  "modify_loop filt [] st = st"
| "modify_loop filt (a # q) (h, kept, cache) =
     modify_loop filt q
       (case Option.bind (h a) filt of
          Some t \<Rightarrow> let h = h(a \<mapsto> t) in (h, kept, tq_insert (end_of h) a cache)
        | None \<Rightarrow> (h, kept @ [a], cache))"

definition tq_modify_if :: "(task \<Rightarrow> task option) \<Rightarrow> task_scheduler \<Rightarrow> task_scheduler" where
  "tq_modify_if filt s =
     (let (h, kept, cache) = modify_loop filt (ts_queue s) (ts_heap s, [], [])
      in s\<lparr>ts_heap := h, ts_queue := fold (tq_insert (end_of h)) cache kept\<rparr>)"

section \<open>The scheduler\<close>

definition ScheduleAt :: "int \<Rightarrow> int \<Rightarrow> u32 option \<Rightarrow> nat \<Rightarrow> task_scheduler \<Rightarrow> task_scheduler" where
  "ScheduleAt due time grp handler s =
     tq_push (ts_next s)
       (s\<lparr>ts_heap := (ts_heap s)(ts_next s \<mapsto> \<lparr>tk_end = due + time, tk_duration = time, tk_group = grp, tk_repeated = 0, tk_handler = handler\<rparr>),
          ts_next := ts_next s + 1\<rparr>)"

definition Schedule :: "int \<Rightarrow> u32 option \<Rightarrow> nat \<Rightarrow> task_scheduler \<Rightarrow> task_scheduler" where
  "Schedule time grp handler s = ScheduleAt (ts_now s) time grp handler s"

definition Async :: "nat \<Rightarrow> task_scheduler \<Rightarrow> task_scheduler" where
  "Async callable s = Schedule 1 None callable s"

definition CancelAll :: "task_scheduler \<Rightarrow> task_scheduler" where
  "CancelAll s = s\<lparr>ts_queue := []\<rparr>"

definition CancelGroup :: "u32 \<Rightarrow> task_scheduler \<Rightarrow> task_scheduler" where
  "CancelGroup g = tq_remove_if (IsInGroup g)"

definition CancelGroupsOf :: "u32 list \<Rightarrow> task_scheduler \<Rightarrow> task_scheduler" where
  "CancelGroupsOf gs = tq_remove_if (\<lambda>t. list_ex (\<lambda>g. IsInGroup g t) gs)"

definition DelayAll :: "int \<Rightarrow> task_scheduler \<Rightarrow> task_scheduler" where
  "DelayAll duration = tq_modify_if (\<lambda>t. Some (t\<lparr>tk_end := tk_end t + duration\<rparr>))"

definition DelayGroup :: "u32 \<Rightarrow> int \<Rightarrow> task_scheduler \<Rightarrow> task_scheduler" where
  "DelayGroup g duration = tq_modify_if (\<lambda>t. if IsInGroup g t then Some (t\<lparr>tk_end := tk_end t + duration\<rparr>) else None)"

definition RescheduleAll :: "int \<Rightarrow> task_scheduler \<Rightarrow> task_scheduler" where
  "RescheduleAll duration s = tq_modify_if (\<lambda>t. Some (t\<lparr>tk_end := ts_now s + duration\<rparr>)) s"

definition RescheduleGroup :: "u32 \<Rightarrow> int \<Rightarrow> task_scheduler \<Rightarrow> task_scheduler" where
  "RescheduleGroup g duration s =
     tq_modify_if (\<lambda>t. if IsInGroup g t then Some (t\<lparr>tk_end := ts_now s + duration\<rparr>) else None) s"

definition SetValidator :: "nat \<Rightarrow> task_scheduler \<Rightarrow> task_scheduler" where
  "SetValidator v s = s\<lparr>ts_validator := Some v\<rparr>"

definition ClearValidator :: "task_scheduler \<Rightarrow> task_scheduler" where
  "ClearValidator s = s\<lparr>ts_validator := None\<rparr>"

section \<open>The context of a running task\<close>

text \<open>
  The context knows the task and whether its queue node has been given back (\<open>consumed\<close>). It reaches the scheduler through a weak
  pointer, so its calls do nothing once the scheduler is destroyed. \<open>CallDestroy\<close> is a handler that destroys the scheduler.
\<close>

record task_context =
  cx_task :: nat
  cx_consumed :: bool

datatype task_call =
  CallRepeat int | CallRepeatSame | CallSetGroup u32 | CallClearGroup
| CallSchedule int "u32 option" nat | CallAsync nat
| CallCancelAll | CallCancelGroup u32 | CallCancelGroupsOf "u32 list"
| CallDelayAll int | CallDelayGroup u32 int | CallRescheduleAll int | CallRescheduleGroup u32 int
| CallDestroy

definition with_owner :: "(task_scheduler \<Rightarrow> task_scheduler) \<Rightarrow> task_scheduler \<Rightarrow> task_scheduler" where
  "with_owner f s = (if ts_alive s then f s else s)"

text \<open>\<open>None\<close> is the failed assertion that a context repeats its task only once.\<close>

definition TaskContext_Repeat :: "int \<Rightarrow> task_context \<Rightarrow> task_scheduler \<Rightarrow> (task_context \<times> task_scheduler) option" where
  "TaskContext_Repeat duration cx s =
     (if cx_consumed cx then None
      else case ts_heap s (cx_task cx) of
             None \<Rightarrow> None
           | Some t \<Rightarrow>
               Some (cx\<lparr>cx_consumed := True\<rparr>,
                 with_owner (tq_push (cx_task cx))
                   (s\<lparr>ts_heap := (ts_heap s)(cx_task cx \<mapsto> t\<lparr>tk_duration := duration, tk_end := tk_end t + duration,
                        tk_repeated := tk_repeated t + 1\<rparr>)\<rparr>)))"

definition set_group :: "u32 option \<Rightarrow> task_context \<Rightarrow> task_scheduler \<Rightarrow> task_scheduler" where
  "set_group g cx s = s\<lparr>ts_heap := (ts_heap s)(cx_task cx := map_option (\<lambda>t. t\<lparr>tk_group := g\<rparr>) (ts_heap s (cx_task cx)))\<rparr>"

fun task_perform :: "task_call \<Rightarrow> task_context \<times> task_scheduler \<Rightarrow> (task_context \<times> task_scheduler) option" where
  "task_perform (CallRepeat duration) (cx, s) = TaskContext_Repeat duration cx s"
| "task_perform CallRepeatSame (cx, s) =
     (case ts_heap s (cx_task cx) of None \<Rightarrow> None | Some t \<Rightarrow> TaskContext_Repeat (tk_duration t) cx s)"
| "task_perform (CallSetGroup g) (cx, s) = Some (cx, set_group (Some g) cx s)"
| "task_perform CallClearGroup (cx, s) = Some (cx, set_group None cx s)"
| "task_perform (CallSchedule time grp handler) (cx, s) =
     Some (cx, with_owner (ScheduleAt (end_of (ts_heap s) (cx_task cx)) time grp handler) s)"
| "task_perform (CallAsync callable) (cx, s) = Some (cx, with_owner (Async callable) s)"
| "task_perform CallCancelAll (cx, s) = Some (cx, with_owner CancelAll s)"
| "task_perform (CallCancelGroup g) (cx, s) = Some (cx, with_owner (CancelGroup g) s)"
| "task_perform (CallCancelGroupsOf gs) (cx, s) = Some (cx, with_owner (CancelGroupsOf gs) s)"
| "task_perform (CallDelayAll d) (cx, s) = Some (cx, with_owner (DelayAll d) s)"
| "task_perform (CallDelayGroup g d) (cx, s) = Some (cx, with_owner (DelayGroup g d) s)"
| "task_perform (CallRescheduleAll d) (cx, s) = Some (cx, with_owner (RescheduleAll d) s)"
| "task_perform (CallRescheduleGroup g d) (cx, s) = Some (cx, with_owner (RescheduleGroup g d) s)"
| "task_perform CallDestroy (cx, s) = Some (cx, s\<lparr>ts_queue := [], ts_alive := False\<rparr>)"

fun task_perform_all :: "task_call list \<Rightarrow> task_context \<times> task_scheduler \<Rightarrow> (task_context \<times> task_scheduler) option" where
  "task_perform_all [] st = Some st"
| "task_perform_all (c # cs) st = Option.bind (task_perform c st) (task_perform_all cs)"

section \<open>Dispatching\<close>

text \<open>
  \<open>tc_run\<close> is what a handler does, given the task and the time; a callable of \<open>Async\<close> is a handler too. \<open>tc_valid\<close> are the validators.
\<close>

record task_code =
  tc_run :: "nat \<Rightarrow> task \<Rightarrow> int \<Rightarrow> task_call list"
  tc_valid :: "nat \<Rightarrow> task_scheduler \<Rightarrow> bool"

definition task_predicate :: "task_code \<Rightarrow> task_scheduler \<Rightarrow> bool" where
  "task_predicate E s = (case ts_validator s of None \<Rightarrow> True | Some v \<Rightarrow> tc_valid E v s)"

definition Invoke :: "task_code \<Rightarrow> nat \<Rightarrow> task_scheduler \<Rightarrow> task_scheduler option" where
  "Invoke E a s =
     (case ts_heap s a of
        None \<Rightarrow> None
      | Some t \<Rightarrow>
          map_option snd
            (task_perform_all (tc_run E (tk_handler t) t (ts_now s))
               (\<lparr>cx_task = a, cx_consumed = False\<rparr>, s\<lparr>ts_trace := ts_trace s @ [Invoked a (tk_end t) (ts_now s)]\<rparr>)))"

definition dispatch_finish :: "bool \<Rightarrow> task_scheduler \<Rightarrow> task_scheduler" where
  "dispatch_finish callback s = (if callback then s\<lparr>ts_trace := ts_trace s @ [Finished]\<rparr> else s)"

text \<open>
  The dispatch reads members of the scheduler: \<^verbatim>\<open>_predicate\<close> before the first and after each task, \<^verbatim>\<open>_task_holder\<close> at the head of the
  loop and \<^verbatim>\<open>_now\<close> for its first task. A member can be read as long as the object lives.
\<close>

definition read_member :: "(task_scheduler \<Rightarrow> 'a) \<Rightarrow> task_scheduler \<Rightarrow> 'a option" where
  "read_member f s = (if ts_alive s then Some (f s) else None)"

partial_function (option) dispatch_loop :: "task_code \<Rightarrow> bool \<Rightarrow> task_scheduler \<Rightarrow> task_scheduler option" where
  "dispatch_loop E callback s =
     Option.bind (read_member ts_queue s) (\<lambda>holder.
       case holder of
         [] \<Rightarrow> Some (dispatch_finish callback s)
       | a # q \<Rightarrow>
           Option.bind (read_member ts_now s) (\<lambda>now.
             if now < end_of (ts_heap s) a then Some (dispatch_finish callback s)
             else Option.bind (Invoke E a (s\<lparr>ts_queue := q\<rparr>)) (\<lambda>s.
               Option.bind (read_member (task_predicate E) s) (\<lambda>valid.
                 if \<not> valid then Some s else dispatch_loop E callback s))))"

definition Dispatch :: "task_code \<Rightarrow> bool \<Rightarrow> task_scheduler \<Rightarrow> task_scheduler option" where
  "Dispatch E callback s =
     Option.bind (read_member (task_predicate E) s) (\<lambda>valid. if \<not> valid then Some s else dispatch_loop E callback s)"

definition TaskScheduler_Update :: "task_code \<Rightarrow> bool \<Rightarrow> int \<Rightarrow> task_scheduler \<Rightarrow> task_scheduler option" where
  "TaskScheduler_Update E callback clock s = Dispatch E callback (s\<lparr>ts_now := clock\<rparr>)"

definition TaskScheduler_Update_diff :: "task_code \<Rightarrow> bool \<Rightarrow> int \<Rightarrow> task_scheduler \<Rightarrow> task_scheduler option" where
  "TaskScheduler_Update_diff E callback difftime s = Dispatch E callback (s\<lparr>ts_now := ts_now s + difftime\<rparr>)"

end
