(* ===== verification/TaskScheduler_Props.thy ===== *)
theory TaskScheduler_Props imports TaskScheduler begin

text \<open>
  The queue of tasks stays sorted under every operation, an update runs the due tasks in order and returns when all durations are
  positive, and what happens when a task destroys its scheduler.
\<close>

section \<open>The queue\<close>

definition by_end :: "(nat \<Rightarrow> int) \<Rightarrow> nat list \<Rightarrow> bool" where
  "by_end e q \<longleftrightarrow> sorted_wrt (\<lambda>a b. e a \<le> e b) q"

lemma by_end_simps [simp]:
  "by_end e []" "by_end e (a # q) \<longleftrightarrow> (\<forall>b \<in> set q. e a \<le> e b) \<and> by_end e q"
  by (simp_all add: by_end_def)

lemma mset_tq_insert [simp]: "mset (tq_insert e a q) = add_mset a (mset q)"
  by (induction q) auto

lemma set_tq_insert [simp]: "set (tq_insert e a q) = insert a (set q)"
  by (metis mset_tq_insert set_mset_add_mset_insert set_mset_mset)

text \<open>With the ends of the moment as keys it is the multimap of the other schedulers, and shares its interface.\<close>

definition keyed :: "(nat \<Rightarrow> int) \<Rightarrow> nat list \<Rightarrow> (int, nat) multimap" where
  "keyed e q = map (\<lambda>b. (e b, b)) q"

lemma keyed_insert: "keyed e (tq_insert e a q) = mm_insert (e a) a (keyed e q)"
  by (induction q) (auto simp: keyed_def)

lemma by_end_keyed: "by_end e q \<longleftrightarrow> mm_sorted (keyed e q)"
  by (induction q) (auto simp: keyed_def)

lemma by_end_insert [simp]: "by_end e q \<Longrightarrow> by_end e (tq_insert e a q)"
  by (simp add: by_end_keyed keyed_insert mmq.wf_ins)

text \<open>Tasks with the same end stay in the order in which they were inserted.\<close>

lemma tq_insert_fifo:
  assumes "by_end e q"
  shows "filter (\<lambda>b. e b = j) (tq_insert e a q) = filter (\<lambda>b. e b = j) q @ (if j = e a then [a] else [])"
proof -
  have k: "map snd (filter (\<lambda>x. fst x = j) (keyed e r)) = filter (\<lambda>b. e b = j) r" for r
    by (induction r) (auto simp: keyed_def)
  have "filter (\<lambda>x. fst x = j) (keyed e (tq_insert e a q)) = filter (\<lambda>x. fst x = j) (keyed e q) @ (if j = e a then [(e a, a)] else [])"
    using assms by (simp add: by_end_keyed keyed_insert mmq.fifo_ins)
  then show ?thesis using k [of q] k [of "tq_insert e a q"] by auto
qed

lemma by_end_cong: "(\<And>a. a \<in> set q \<Longrightarrow> e a = e' a) \<Longrightarrow> by_end e q = by_end e' q"
  by (induction q) auto

lemma by_end_filter: "by_end e q \<Longrightarrow> by_end e (filter P q)"
  by (simp add: by_end_def sorted_wrt_filter)

lemma mset_fold_insert: "mset (fold (tq_insert e) cache q) = mset cache + mset q"
  by (induction cache arbitrary: q) auto

lemma by_end_fold_insert: "by_end e q \<Longrightarrow> by_end e (fold (tq_insert e) cache q)"
  by (induction cache arbitrary: q) auto

lemma end_of_upd [simp]: "end_of (h(a \<mapsto> t)) b = (if b = a then tk_end t else end_of h b)"
  by (simp add: end_of_def)

text \<open>What \<^verbatim>\<open>ModifyIf\<close> does to one task.\<close>

definition modified :: "(task \<Rightarrow> task option) \<Rightarrow> task \<Rightarrow> task" where
  "modified filt t = (case filt t of None \<Rightarrow> t | Some t' \<Rightarrow> t')"

lemma modify_loop_spec:
  "modify_loop filt q (h, kept, cache) = (h', kept', cache') \<Longrightarrow> distinct (kept @ cache @ q) \<Longrightarrow>
   by_end (end_of h) (kept @ q) \<Longrightarrow> by_end (end_of h) cache \<Longrightarrow>
   h' = (\<lambda>a. if a \<in> set q then map_option (modified filt) (h a) else h a) \<and>
   mset kept' + mset cache' = mset kept + mset cache + mset q \<and> by_end (end_of h') kept' \<and> by_end (end_of h') cache'"
proof (induction q arbitrary: h kept cache)
  case Nil
  then show ?case by auto
next
  case (Cons a q)
  show ?case
  proof (cases "Option.bind (h a) filt")
    case None
    then have "modify_loop filt q (h, kept @ [a], cache) = (h', kept', cache')" using Cons.prems(1) by simp
    from Cons.IH [OF this] Cons.prems(2-4) have "h' = (\<lambda>b. if b \<in> set q then map_option (modified filt) (h b) else h b) \<and>
      mset kept' + mset cache' = mset (kept @ [a]) + mset cache + mset q \<and> by_end (end_of h') kept' \<and> by_end (end_of h') cache'"
      by auto
    moreover have "map_option (modified filt) (h a) = h a" using None by (cases "h a") (auto simp: modified_def)
    then have "(\<lambda>b. if b \<in> set q then map_option (modified filt) (h b) else h b) =
        (\<lambda>b. if b \<in> set (a # q) then map_option (modified filt) (h b) else h b)" by auto
    ultimately show ?thesis by auto
  next
    case (Some t)
    let ?h = "h(a \<mapsto> t)"
    have k: "by_end (end_of h) (kept @ q)" using Cons.prems(3) by (auto simp: by_end_def sorted_wrt_append)
    have "by_end (end_of ?h) (kept @ q) = by_end (end_of h) (kept @ q)" "by_end (end_of ?h) cache = by_end (end_of h) cache"
      using Cons.prems(2) by (intro by_end_cong; auto)+
    then have k1: "by_end (end_of ?h) (kept @ q)" and k2: "by_end (end_of ?h) (tq_insert (end_of ?h) a cache)"
      using k Cons.prems(4) by simp_all
    have l: "modify_loop filt q (?h, kept, tq_insert (end_of ?h) a cache) = (h', kept', cache')" using Cons.prems(1) Some by (simp add: Let_def)
    have d: "distinct (kept @ tq_insert (end_of ?h) a cache @ q)"
      using Cons.prems(2) mset_eq_imp_distinct_iff [of "tq_insert (end_of ?h) a cache" "a # cache"] by auto
    have "h' = (\<lambda>b. if b \<in> set q then map_option (modified filt) (?h b) else ?h b) \<and>
      mset kept' + mset cache' = mset kept + mset (tq_insert (end_of ?h) a cache) + mset q \<and> by_end (end_of h') kept' \<and> by_end (end_of h') cache'"
      by (rule Cons.IH [OF l d k1 k2])
    moreover have "map_option (modified filt) (h a) = Some t" using Some by (cases "h a") (auto simp: modified_def)
    then have "(\<lambda>b. if b \<in> set q then map_option (modified filt) (?h b) else ?h b) =
        (\<lambda>b. if b \<in> set (a # q) then map_option (modified filt) (h b) else h b)" using Cons.prems(2) by auto
    ultimately show ?thesis by auto
  qed
qed

definition ts_inv :: "task_scheduler \<Rightarrow> bool" where
  "ts_inv s \<longleftrightarrow> distinct (ts_queue s) \<and> by_end (end_of (ts_heap s)) (ts_queue s) \<and>
     set (ts_queue s) \<subseteq> dom (ts_heap s) \<and> dom (ts_heap s) \<subseteq> {..<ts_next s}"

lemma tq_modify_if_spec:
  assumes "ts_inv s"
  obtains q where "tq_modify_if filt s = s\<lparr>ts_heap := (\<lambda>a. if a \<in> set (ts_queue s) then map_option (modified filt) (ts_heap s a) else ts_heap s a),
      ts_queue := q\<rparr>" "mset q = mset (ts_queue s)" "ts_inv (tq_modify_if filt s)"
proof -
  obtain h kept cache where l: "modify_loop filt (ts_queue s) (ts_heap s, [], []) = (h, kept, cache)" by (metis prod_cases3)
  have m: "h = (\<lambda>a. if a \<in> set (ts_queue s) then map_option (modified filt) (ts_heap s a) else ts_heap s a)"
    "mset kept + mset cache = mset (ts_queue s)" "by_end (end_of h) kept" "by_end (end_of h) cache"
    using modify_loop_spec [OF l] assms by (auto simp: ts_inv_def)
  let ?q = "fold (tq_insert (end_of h)) cache kept"
  have q: "mset ?q = mset (ts_queue s)" using m(2) by (simp add: mset_fold_insert add.commute)
  have r: "tq_modify_if filt s = s\<lparr>ts_heap := h, ts_queue := ?q\<rparr>" by (simp add: tq_modify_if_def l)
  have "dom h = dom (ts_heap s)" unfolding m(1) by (auto split: if_splits)
  then have "ts_inv (tq_modify_if filt s)"
    using assms q m(3) mset_eq_setD [OF q] mset_eq_imp_distinct_iff [OF q] by (simp add: r ts_inv_def by_end_fold_insert)
  moreover have "tq_modify_if filt s = s\<lparr>ts_heap := (\<lambda>a. if a \<in> set (ts_queue s) then map_option (modified filt) (ts_heap s a) else ts_heap s a),
      ts_queue := ?q\<rparr>"
    unfolding m(1) [symmetric] by (rule r)
  ultimately show thesis using that q by blast
qed

lemma tq_push_inv:
  "ts_inv s \<Longrightarrow> a \<notin> set (ts_queue s) \<Longrightarrow> a \<in> dom (ts_heap s) \<Longrightarrow> ts_inv (tq_push a s)"
  using mset_eq_imp_distinct_iff [of "tq_insert (end_of (ts_heap s)) a (ts_queue s)" "a # ts_queue s"]
  by (auto simp: ts_inv_def tq_push_def)

lemma tq_remove_if_inv: "ts_inv s \<Longrightarrow> ts_inv (tq_remove_if filt s)"
  by (auto simp: ts_inv_def tq_remove_if_def by_end_filter)

lemma ts_inv_upd:
  assumes "ts_inv s" "a \<notin> set (ts_queue s)" "a < ts_next s"
  shows "ts_inv (s\<lparr>ts_heap := (ts_heap s)(a \<mapsto> t)\<rparr>)"
proof -
  have "by_end (end_of ((ts_heap s)(a \<mapsto> t))) (ts_queue s) = by_end (end_of (ts_heap s)) (ts_queue s)"
    using assms(2) by (intro by_end_cong) auto
  with assms show ?thesis by (auto simp: ts_inv_def)
qed

lemma ScheduleAt_inv: assumes "ts_inv s" shows "ts_inv (ScheduleAt due time grp handler s)"
proof -
  let ?t = "\<lparr>tk_end = due + time, tk_duration = time, tk_group = grp, tk_repeated = 0, tk_handler = handler\<rparr>"
  have new: "ts_next s \<notin> set (ts_queue s)" using assms by (auto simp: ts_inv_def)
  have "ts_inv (s\<lparr>ts_next := ts_next s + 1\<rparr>)" using assms by (auto simp: ts_inv_def)
  from ts_inv_upd [OF this, of "ts_next s" ?t] new
  show ?thesis unfolding ScheduleAt_def by (intro tq_push_inv) (simp_all add: ts_inv_def)
qed

section \<open>The states an outside caller and the handlers reach\<close>

inductive task_step :: "task_code \<Rightarrow> task_scheduler \<Rightarrow> task_scheduler \<Rightarrow> bool" for E where
  schedule: "task_step E s (Schedule time grp handler s)"
| async: "task_step E s (Async callable s)"
| cancel: "task_step E s (CancelAll s)"
| cancel_group: "task_step E s (CancelGroup g s)"
| cancel_groups: "task_step E s (CancelGroupsOf gs s)"
| delay: "task_step E s (DelayAll d s)"
| delay_group: "task_step E s (DelayGroup g d s)"
| reschedule: "task_step E s (RescheduleAll d s)"
| reschedule_group: "task_step E s (RescheduleGroup g d s)"
| validator: "task_step E s (SetValidator v s)"
| no_validator: "task_step E s (ClearValidator s)"
| update: "TaskScheduler_Update E c clock s = Some s' \<Longrightarrow> task_step E s s'"
| update_diff: "TaskScheduler_Update_diff E c d s = Some s' \<Longrightarrow> task_step E s s'"

inductive task_reachable :: "task_code \<Rightarrow> task_scheduler \<Rightarrow> bool" for E where
  start: "task_reachable E (TaskScheduler_new clock)"
| step: "task_reachable E s \<Longrightarrow> task_step E s s' \<Longrightarrow> task_reachable E s'"

lemma ts_inv_frame [simp]:
  "ts_inv (s\<lparr>ts_now := n\<rparr>) = ts_inv s" "ts_inv (s\<lparr>ts_validator := v\<rparr>) = ts_inv s" "ts_inv (s\<lparr>ts_trace := t\<rparr>) = ts_inv s"
  by (simp_all add: ts_inv_def)

lemma tq_modify_if_inv: "ts_inv s \<Longrightarrow> ts_inv (tq_modify_if filt s)"
  by (rule tq_modify_if_spec)

lemmas scheduler_defs = Schedule_def Async_def CancelAll_def CancelGroup_def CancelGroupsOf_def DelayAll_def DelayGroup_def
  RescheduleAll_def RescheduleGroup_def SetValidator_def ClearValidator_def

lemma scheduler_ops_inv:
  assumes "ts_inv s"
  shows "ts_inv (Schedule time grp handler s)" "ts_inv (Async callable s)" "ts_inv (CancelAll s)" "ts_inv (CancelGroup g s)"
    "ts_inv (CancelGroupsOf gs s)" "ts_inv (DelayAll d s)" "ts_inv (DelayGroup g d s)" "ts_inv (RescheduleAll d s)"
    "ts_inv (RescheduleGroup g d s)" "ts_inv (SetValidator v s)" "ts_inv (ClearValidator s)"
  using assms unfolding scheduler_defs
  by (simp_all add: ScheduleAt_inv tq_remove_if_inv tq_modify_if_inv) (simp add: ts_inv_def)

text \<open>
  While a task runs it is in the queue only if it was repeated, and it stays alive.
\<close>

definition running_ok :: "task_context \<times> task_scheduler \<Rightarrow> bool" where
  "running_ok st \<longleftrightarrow> (case st of (cx, s) \<Rightarrow> ts_inv s \<and> cx_task cx \<in> dom (ts_heap s) \<and>
     (\<not> cx_consumed cx \<longrightarrow> cx_task cx \<notin> set (ts_queue s)))"

lemma ops_frame [simp]:
  "ts_heap (tq_remove_if filt s) = ts_heap s" "ts_heap (CancelAll s) = ts_heap s"
  "set (ts_queue (tq_remove_if filt s)) \<subseteq> set (ts_queue s)" "ts_queue (CancelAll s) = []"
  "ts_heap (tq_push a s) = ts_heap s" "set (ts_queue (tq_push a s)) = insert a (set (ts_queue s))"
  by (auto simp: tq_remove_if_def CancelAll_def tq_push_def)

lemma ScheduleAt_queue: "set (ts_queue (ScheduleAt due time grp handler s)) = insert (ts_next s) (set (ts_queue s))"
  "dom (ts_heap (ScheduleAt due time grp handler s)) = insert (ts_next s) (dom (ts_heap s))"
  by (auto simp: ScheduleAt_def)

lemma modify_queue:
  assumes "ts_inv s"
  shows "set (ts_queue (tq_modify_if filt s)) = set (ts_queue s)" "dom (ts_heap (tq_modify_if filt s)) = dom (ts_heap s)"
proof -
  obtain q where q: "tq_modify_if filt s = s\<lparr>ts_heap := (\<lambda>a. if a \<in> set (ts_queue s) then map_option (modified filt) (ts_heap s a) else ts_heap s a),
      ts_queue := q\<rparr>" "mset q = mset (ts_queue s)" "ts_inv (tq_modify_if filt s)" by (rule tq_modify_if_spec [OF assms])
  show "set (ts_queue (tq_modify_if filt s)) = set (ts_queue s)" using mset_eq_setD [OF q(2)] by (simp add: q(1))
  show "dom (ts_heap (tq_modify_if filt s)) = dom (ts_heap s)" by (auto simp: q(1) split: if_splits)
qed

lemma set_group_inv: assumes "ts_inv s" shows "ts_inv (set_group g cx s)"
proof -
  have "end_of ((ts_heap s)(cx_task cx := map_option (\<lambda>t. t\<lparr>tk_group := g\<rparr>) (ts_heap s (cx_task cx)))) = end_of (ts_heap s)"
    by (auto simp: end_of_def fun_eq_iff split: option.split)
  then show ?thesis using assms by (auto simp: ts_inv_def set_group_def split: if_splits)
qed

lemma task_perform_ok:
  assumes "running_ok st" "task_perform c st = Some st'"
  shows "running_ok st'"
proof -
  obtain cx s where st: "st = (cx, s)" by (cases st)
  have i: "ts_inv s" "cx_task cx \<in> dom (ts_heap s)" "\<not> cx_consumed cx \<longrightarrow> cx_task cx \<notin> set (ts_queue s)"
    using assms(1) by (auto simp: running_ok_def st)
  have fresh: "cx_task cx \<noteq> ts_next s" using i by (auto simp: ts_inv_def)
  have owner: "running_ok (cx, with_owner f s)"
    if "ts_inv (f s)" "cx_task cx \<in> dom (ts_heap (f s))" "set (ts_queue (f s)) \<subseteq> insert (ts_next s) (set (ts_queue s))" for f
    using that i fresh by (auto simp: running_ok_def with_owner_def)
  have repeat: "running_ok (cx', s')" if "TaskContext_Repeat d cx s = Some (cx', s')" for d cx' s'
  proof -
    from that obtain t where c: "\<not> cx_consumed cx" "ts_heap s (cx_task cx) = Some t" "cx' = cx\<lparr>cx_consumed := True\<rparr>"
      "s' = with_owner (tq_push (cx_task cx)) (s\<lparr>ts_heap := (ts_heap s)(cx_task cx \<mapsto> t\<lparr>tk_duration := d, tk_end := tk_end t + d,
         tk_repeated := tk_repeated t + 1\<rparr>)\<rparr>)"
      by (auto simp: TaskContext_Repeat_def split: if_splits option.splits)
    let ?s = "s\<lparr>ts_heap := (ts_heap s)(cx_task cx \<mapsto> t\<lparr>tk_duration := d, tk_end := tk_end t + d, tk_repeated := tk_repeated t + 1\<rparr>)\<rparr>"
    have "cx_task cx < ts_next s" using i by (auto simp: ts_inv_def)
    then have "ts_inv ?s" using ts_inv_upd [OF i(1)] i(3) c(1) by blast
    then have "ts_inv (tq_push (cx_task cx) ?s)" using i(3) c(1) by (intro tq_push_inv) auto
    with \<open>ts_inv ?s\<close> show ?thesis by (auto simp: running_ok_def c with_owner_def)
  qed
  have rm: "set (ts_queue (tq_remove_if f s)) \<subseteq> insert (ts_next s) (set (ts_queue s))" for f by (auto simp: tq_remove_if_def)
  have em: "ts_inv (s\<lparr>ts_queue := []\<rparr>)" using i(1) by (simp add: ts_inv_def)
  have o: "running_ok (cx, with_owner (ScheduleAt d t g h) s)" "running_ok (cx, with_owner (Async h) s)" "running_ok (cx, with_owner CancelAll s)"
    "running_ok (cx, with_owner (CancelGroup g') s)" "running_ok (cx, with_owner (CancelGroupsOf gs) s)" "running_ok (cx, with_owner (DelayAll d) s)"
    "running_ok (cx, with_owner (DelayGroup g' d) s)" "running_ok (cx, with_owner (RescheduleAll d) s)"
    "running_ok (cx, with_owner (RescheduleGroup g' d) s)" for d t g h g' gs
    by (-, (rule owner; use i rm em in \<open>auto simp: scheduler_ops_inv ScheduleAt_inv ScheduleAt_queue modify_queue scheduler_defs tq_remove_if_inv tq_modify_if_inv\<close>)+)
  have sg: "running_ok (cx, set_group g cx s)" for g using i set_group_inv [OF i(1)] by (auto simp: running_ok_def set_group_def)
  have ds: "running_ok (cx, s\<lparr>ts_queue := [], ts_alive := False\<rparr>)" using i by (auto simp: running_ok_def ts_inv_def)
  show ?thesis
    using assms(2) repeat o sg ds unfolding st by (cases c; cases st') (auto split: option.splits)
qed

lemma task_perform_all_ok: "running_ok st \<Longrightarrow> task_perform_all cs st = Some st' \<Longrightarrow> running_ok st'"
  by (induction cs st rule: task_perform_all.induct) (auto simp: bind_eq_Some_conv intro: task_perform_ok)

lemma Invoke_inv:
  assumes "ts_inv s" "a \<notin> set (ts_queue s)" "Invoke E a s = Some s'"
  shows "ts_inv s'"
proof -
  from assms(3) obtain t cs st' where "ts_heap s a = Some t"
    "task_perform_all cs (\<lparr>cx_task = a, cx_consumed = False\<rparr>, s\<lparr>ts_trace := ts_trace s @ [Invoked a (tk_end t) (ts_now s)]\<rparr>) = Some st'" "s' = snd st'"
    by (auto simp: Invoke_def split: option.splits)
  moreover have "running_ok (\<lparr>cx_task = a, cx_consumed = False\<rparr>, s\<lparr>ts_trace := ts_trace s @ [Invoked a (tk_end t) (ts_now s)]\<rparr>)"
    using assms(1,2) \<open>ts_heap s a = Some t\<close> by (auto simp: running_ok_def)
  ultimately have "running_ok st'" by (blast intro: task_perform_all_ok)
  with \<open>s' = snd st'\<close> show ?thesis by (auto simp: running_ok_def)
qed

lemma pop_inv: "ts_inv s \<Longrightarrow> ts_queue s = a # q \<Longrightarrow> ts_inv (s\<lparr>ts_queue := q\<rparr>) \<and> a \<notin> set q"
  by (auto simp: ts_inv_def)

lemma read_member_bind [simp]: "Option.bind (read_member f s) g = (if ts_alive s then g (f s) else None)"
  by (simp add: read_member_def)

lemma dispatch_finish_inv [simp]: "ts_inv (dispatch_finish c s) = ts_inv s"
  by (simp add: dispatch_finish_def)

lemma dispatch_loop_inv: "dispatch_loop E c s = Some s' \<Longrightarrow> ts_inv s \<longrightarrow> ts_inv s'"
proof (induction rule: dispatch_loop.raw_induct [rotated, consumes 1, case_names loop])
  case (loop loop E c s s')
  show ?case
  proof
    assume i: "ts_inv s"
    show "ts_inv s'"
    proof (cases "ts_queue s")
      case Nil
      with loop(2) i show ?thesis by (auto split: if_splits)
    next
      case (Cons a q)
      show ?thesis
      proof (cases "ts_now s < end_of (ts_heap s) a")
        case False
        then obtain s1 where s1: "Invoke E a (s\<lparr>ts_queue := q\<rparr>) = Some s1" "(if \<not> ts_alive s1 then None else if \<not> task_predicate E s1 then Some s1 else loop E c s1) = Some s'"
          using loop(2) Cons by (auto simp: bind_eq_Some_conv split: if_splits)
        have "ts_inv s1" using Invoke_inv [OF _ _ s1(1)] pop_inv [OF i Cons] by auto
        with s1(2) loop(1) [of E c s1 s'] show ?thesis by (auto split: if_splits)
      qed (use loop(2) Cons i in \<open>auto split: if_splits\<close>)
    qed
  qed
qed

lemma task_step_inv: "task_step E s s' \<Longrightarrow> ts_inv s \<Longrightarrow> ts_inv s'"
  by (induction rule: task_step.induct)
     (auto simp: scheduler_ops_inv TaskScheduler_Update_def TaskScheduler_Update_diff_def Dispatch_def dest!: dispatch_loop_inv split: if_splits)

text \<open>
  In every reachable state, whatever the tasks do, the queue of tasks is ordered by their ends and contains no task twice and
  only tasks that exist: delaying and rescheduling tasks, which changes the keys of elements of the queue, keeps the order.
\<close>

theorem TaskScheduler_reachable_inv: "task_reachable E s \<Longrightarrow> ts_inv s"
proof (induction rule: task_reachable.induct)
  case (start clock)
  show ?case by (simp add: ts_inv_def TaskScheduler_new_def)
next
  case (step s s')
  from task_step_inv [OF step.hyps(2) step.IH] show ?case .
qed

text \<open>An update that returns has not lost the scheduler, and no call of an outside caller destroys it.\<close>

lemma dispatch_loop_alive: "dispatch_loop E c s = Some s' \<Longrightarrow> ts_alive s \<longrightarrow> ts_alive s'"
proof (induction rule: dispatch_loop.raw_induct [rotated, consumes 1, case_names loop])
  case (loop loop E c s s')
  show ?case
  proof
    assume "ts_alive s"
    with loop(2) show "ts_alive s'"
      by (auto simp: dispatch_finish_def bind_eq_Some_conv split: list.splits if_splits dest: loop(1))
  qed
qed

lemma task_reachable_alive: "task_reachable E s \<Longrightarrow> ts_alive s"
proof (induction rule: task_reachable.induct)
  case (step s s')
  from step.hyps(2) step.IH show ?case unfolding scheduler_defs
    by (cases rule: task_step.cases)
       (auto simp: scheduler_defs ScheduleAt_def tq_push_def tq_remove_if_def tq_modify_if_def TaskScheduler_Update_def TaskScheduler_Update_diff_def
          Dispatch_def dest!: dispatch_loop_alive split: if_splits prod.splits)
qed (simp add: TaskScheduler_new_def)

end
