(* ===== verification/TaskScheduler_Run.thy ===== *)
theory TaskScheduler_Run imports TaskScheduler_Props begin

text \<open>
  What an update of a scheduler does: when every duration that a handler uses is positive it returns, having run the tasks that are due
  in the order of their ends; and what happens when a task destroys its scheduler.
\<close>

section \<open>Handlers with positive durations\<close>

fun is_repeat :: "task_call \<Rightarrow> bool" where
  "is_repeat (CallRepeat d) = True"
| "is_repeat CallRepeatSame = True"
| "is_repeat _ = False"

fun positive_call :: "task_call \<Rightarrow> bool" where
  "positive_call (CallRepeat d) = (0 < d)"
| "positive_call (CallSchedule time grp handler) = (0 < time)"
| "positive_call (CallDelayAll d) = (0 \<le> d)"
| "positive_call (CallDelayGroup g d) = (0 \<le> d)"
| "positive_call (CallRescheduleAll d) = (0 < d)"
| "positive_call (CallRescheduleGroup g d) = (0 < d)"
| "positive_call _ = True"

text \<open>A run of a handler repeats its task at most once, as the documentation of \<^verbatim>\<open>TaskContext\<close> asks.\<close>

definition positive_run :: "task_call list \<Rightarrow> bool" where
  "positive_run cs \<longleftrightarrow> list_all positive_call cs \<and> length (filter is_repeat cs) \<le> 1"

definition positive_code :: "task_code \<Rightarrow> bool" where
  "positive_code E \<longleftrightarrow> (\<forall>n t now. positive_run (tc_run E n t now))"

definition durations_ok :: "task_scheduler \<Rightarrow> bool" where
  "durations_ok s \<longleftrightarrow> (\<forall>t \<in> ran (ts_heap s). 0 < tk_duration t)"

section \<open>What a run keeps\<close>

text \<open>The number of queued tasks with the end \<open>e\<close>.\<close>

definition at_end :: "int \<Rightarrow> task_scheduler \<Rightarrow> nat" where
  "at_end e s = length (filter (\<lambda>a. end_of (ts_heap s) a = e) (ts_queue s))"

definition bounded_queue :: "int \<Rightarrow> nat \<Rightarrow> task_scheduler \<Rightarrow> bool" where
  "bounded_queue e k s \<longleftrightarrow> ts_inv s \<and> e \<le> ts_now s \<and> (\<forall>b \<in> set (ts_queue s). e \<le> end_of (ts_heap s) b) \<and> at_end e s \<le> k \<and>
     durations_ok s \<and> ts_alive s"

lemma filter_mset_eq: "mset q = mset q' \<Longrightarrow> length (filter P q) = length (filter P q')"
  by (metis mset_filter size_mset)

lemma length_filter_insert: "length (filter P (tq_insert e a q)) = length (filter P (a # q))"
  by (rule filter_mset_eq) simp

lemma length_filter_mono: "(\<And>b. b \<in> set q \<Longrightarrow> P b \<Longrightarrow> Q b) \<Longrightarrow> length (filter P q) \<le> length (filter Q q)"
  by (induction q) (auto simp: le_Suc_eq)

lemma bounded_push:
  assumes "bounded_queue e k s" "a \<notin> set (ts_queue s)" "a < ts_next s" "e < tk_end t" "0 < tk_duration t"
  shows "bounded_queue e k (tq_push a (s\<lparr>ts_heap := (ts_heap s)(a \<mapsto> t)\<rparr>))"
proof -
  have i: "ts_inv s" using assms(1) by (simp add: bounded_queue_def)
  have "ts_inv (tq_push a (s\<lparr>ts_heap := (ts_heap s)(a \<mapsto> t)\<rparr>))"
    using ts_inv_upd [OF i assms(2,3)] assms(2) by (intro tq_push_inv) auto
  moreover have "filter (\<lambda>b. end_of ((ts_heap s)(a \<mapsto> t)) b = e) (ts_queue s) = filter (\<lambda>b. end_of (ts_heap s) b = e) (ts_queue s)"
    using assms(2) by (intro filter_cong) auto
  then have "at_end e (tq_push a (s\<lparr>ts_heap := (ts_heap s)(a \<mapsto> t)\<rparr>)) = at_end e s"
    using assms(4) by (simp add: at_end_def tq_push_def length_filter_insert)
  moreover have "durations_ok (tq_push a (s\<lparr>ts_heap := (ts_heap s)(a \<mapsto> t)\<rparr>))"
    using assms(1,5) by (auto simp: bounded_queue_def durations_ok_def tq_push_def ran_def)
  ultimately show ?thesis using assms by (auto simp: bounded_queue_def tq_push_def)
qed

lemma bounded_remove: "bounded_queue e k s \<Longrightarrow> bounded_queue e k (tq_remove_if filt s)"
proof -
  assume b: "bounded_queue e k s"
  have "at_end e (tq_remove_if filt s) \<le> at_end e s" by (auto simp: at_end_def tq_remove_if_def intro!: length_filter_mono)
  with b show ?thesis using tq_remove_if_inv [of s filt] by (auto simp: bounded_queue_def tq_remove_if_def durations_ok_def)
qed

text \<open>A filter that moves no task to \<open>e\<close> or before it.\<close>

definition keeps_after :: "int \<Rightarrow> (task \<Rightarrow> task option) \<Rightarrow> bool" where
  "keeps_after e filt \<longleftrightarrow> (\<forall>t t'. filt t = Some t' \<longrightarrow> tk_duration t' = tk_duration t \<and>
     (e \<le> tk_end t \<longrightarrow> e \<le> tk_end t' \<and> (tk_end t' = e \<longrightarrow> tk_end t = e)))"

lemma modified_after:
  "keeps_after e filt \<Longrightarrow> tk_duration (modified filt t) = tk_duration t"
  "keeps_after e filt \<Longrightarrow> e \<le> tk_end t \<Longrightarrow> e \<le> tk_end (modified filt t)"
  "keeps_after e filt \<Longrightarrow> e \<le> tk_end t \<Longrightarrow> tk_end (modified filt t) = e \<Longrightarrow> tk_end t = e"
  by (auto simp: keeps_after_def modified_def split: option.splits)

lemma bounded_modify:
  assumes "bounded_queue e k s" "keeps_after e filt"
  shows "bounded_queue e k (tq_modify_if filt s)"
proof -
  have i: "ts_inv s" using assms(1) by (simp add: bounded_queue_def)
  obtain q where q: "tq_modify_if filt s = s\<lparr>ts_heap := (\<lambda>a. if a \<in> set (ts_queue s) then map_option (modified filt) (ts_heap s a) else ts_heap s a),
      ts_queue := q\<rparr>" "mset q = mset (ts_queue s)" "ts_inv (tq_modify_if filt s)" by (rule tq_modify_if_spec [OF i])
  let ?h = "\<lambda>a. if a \<in> set (ts_queue s) then map_option (modified filt) (ts_heap s a) else ts_heap s a"
  have ends: "e \<le> end_of ?h b \<and> (end_of ?h b = e \<longrightarrow> end_of (ts_heap s) b = e)" if b: "b \<in> set (ts_queue s)" for b
  proof -
    obtain t where t: "ts_heap s b = Some t" using i b unfolding ts_inv_def by blast
    then have "e \<le> tk_end t" using assms(1) b by (force simp: bounded_queue_def end_of_def)
    with t b show ?thesis using modified_after [OF assms(2)] by (simp add: end_of_def)
  qed
  have "length (filter (\<lambda>b. end_of ?h b = e) q) = length (filter (\<lambda>b. end_of ?h b = e) (ts_queue s))" by (rule filter_mset_eq [OF q(2)])
  also have "\<dots> \<le> at_end e s" using ends unfolding at_end_def by (intro length_filter_mono) blast
  finally have "at_end e (tq_modify_if filt s) \<le> k" using assms(1) by (simp add: at_end_def q(1) bounded_queue_def)
  moreover have "durations_ok (tq_modify_if filt s)"
    using assms(1) modified_after(1) [OF assms(2)] by (auto simp: bounded_queue_def durations_ok_def q(1) ran_def split: if_splits)
  moreover have "\<forall>b \<in> set (ts_queue (tq_modify_if filt s)). e \<le> end_of (ts_heap (tq_modify_if filt s)) b"
    using ends mset_eq_setD [OF q(2)] by (simp add: q(1))
  ultimately show ?thesis using assms(1) q(3) by (auto simp: bounded_queue_def) (simp_all add: q(1))
qed

lemma bounded_schedule:
  assumes "bounded_queue e k s" "e \<le> due" "0 < time"
  shows "bounded_queue e k (ScheduleAt due time grp handler s)"
proof -
  let ?s = "s\<lparr>ts_next := ts_next s + 1\<rparr>"
  let ?t = "\<lparr>tk_end = due + time, tk_duration = time, tk_group = grp, tk_repeated = 0, tk_handler = handler\<rparr>"
  have "bounded_queue e k ?s" using assms(1) by (auto simp: bounded_queue_def ts_inv_def at_end_def durations_ok_def)
  moreover have "ts_next s \<notin> set (ts_queue s)" using assms(1) by (auto simp: bounded_queue_def ts_inv_def)
  ultimately have "bounded_queue e k (tq_push (ts_next s) (?s\<lparr>ts_heap := (ts_heap ?s)(ts_next s \<mapsto> ?t)\<rparr>))"
    using assms(2,3) by (intro bounded_push) auto
  moreover have "ScheduleAt due time grp handler s = tq_push (ts_next s) (?s\<lparr>ts_heap := (ts_heap ?s)(ts_next s \<mapsto> ?t)\<rparr>)"
    by (cases s) (simp add: ScheduleAt_def)
  ultimately show ?thesis by simp
qed

lemma bounded_cancel: "bounded_queue e k s \<Longrightarrow> bounded_queue e k (CancelAll s)"
  by (auto simp: bounded_queue_def CancelAll_def ts_inv_def at_end_def durations_ok_def)

lemma bounded_ops:
  assumes "bounded_queue e k s"
  shows "bounded_queue e k (Async callable s)" "bounded_queue e k (CancelAll s)" "bounded_queue e k (CancelGroup g s)"
    "bounded_queue e k (CancelGroupsOf gs s)" "0 \<le> d \<Longrightarrow> bounded_queue e k (DelayAll d s)" "0 \<le> d \<Longrightarrow> bounded_queue e k (DelayGroup g d s)"
    "0 < d \<Longrightarrow> bounded_queue e k (RescheduleAll d s)" "0 < d \<Longrightarrow> bounded_queue e k (RescheduleGroup g d s)"
proof -
  have now: "e \<le> ts_now s" using assms by (simp add: bounded_queue_def)
  show "bounded_queue e k (Async callable s)" using bounded_schedule [OF assms now] by (simp add: Async_def Schedule_def)
  show "0 \<le> d \<Longrightarrow> bounded_queue e k (DelayAll d s)" "0 \<le> d \<Longrightarrow> bounded_queue e k (DelayGroup g d s)"
    unfolding scheduler_defs by (intro bounded_modify [OF assms]; auto simp: keeps_after_def)+
  show "0 < d \<Longrightarrow> bounded_queue e k (RescheduleAll d s)" "0 < d \<Longrightarrow> bounded_queue e k (RescheduleGroup g d s)"
    unfolding scheduler_defs using now by (intro bounded_modify [OF assms]; auto simp: keeps_after_def split: if_splits)+
qed (use assms in \<open>simp_all add: bounded_cancel bounded_remove CancelGroup_def CancelGroupsOf_def\<close>)

lemma set_group_ends [simp]: "end_of (ts_heap (set_group grp cx s)) = end_of (ts_heap s)"
  by (auto simp: end_of_def set_group_def fun_eq_iff split: option.split)

lemma bounded_set_group:
  assumes "bounded_queue e k s" shows "bounded_queue e k (set_group grp cx s)"
proof -
  have "ts_inv (set_group grp cx s)" using assms by (intro set_group_inv) (simp add: bounded_queue_def)
  moreover have "ts_queue (set_group grp cx s) = ts_queue s" "ts_now (set_group grp cx s) = ts_now s" "ts_alive (set_group grp cx s) = ts_alive s"
    by (simp_all add: set_group_def)
  moreover have "durations_ok (set_group grp cx s)"
    using assms by (fastforce simp: bounded_queue_def durations_ok_def set_group_def ran_def split: if_splits)
  ultimately show ?thesis using assms by (simp add: bounded_queue_def at_end_def)
qed

text \<open>What no call of a handler changes.\<close>

definition same_clock :: "task_scheduler \<Rightarrow> task_scheduler \<Rightarrow> bool" where
  "same_clock s s' \<longleftrightarrow> ts_now s' = ts_now s \<and> ts_validator s' = ts_validator s \<and> ts_trace s' = ts_trace s"

lemma same_clock_ops:
  "same_clock s (ScheduleAt due time grp handler s)" "same_clock s (Async callable s)" "same_clock s (CancelAll s)" "same_clock s (CancelGroup g s)"
  "same_clock s (CancelGroupsOf gs s)" "same_clock s (DelayAll d s)" "same_clock s (DelayGroup g d s)" "same_clock s (RescheduleAll d s)"
  "same_clock s (RescheduleGroup g d s)" "same_clock s (set_group grp cx s)" "same_clock s (s\<lparr>ts_queue := [], ts_alive := False\<rparr>)"
  "same_clock s (tq_push a (s\<lparr>ts_heap := h\<rparr>))" "same_clock s (s\<lparr>ts_heap := h\<rparr>)" "same_clock s s"
  unfolding scheduler_defs
  by (simp_all add: same_clock_def ScheduleAt_def tq_push_def tq_remove_if_def tq_modify_if_def set_group_def split: prod.split)

lemma task_perform_clock: "task_perform c (cx, s) = Some (cx', s') \<Longrightarrow> same_clock s s'"
  by (cases c) (auto simp: TaskContext_Repeat_def with_owner_def same_clock_ops split: option.splits if_splits) 

definition busy :: "int \<Rightarrow> nat \<Rightarrow> task_context \<times> task_scheduler \<Rightarrow> bool" where
  "busy e k st \<longleftrightarrow> running_ok st \<and> bounded_queue e k (snd st) \<and> e \<le> end_of (ts_heap (snd st)) (cx_task (fst st))"

lemma busy_repeat:
  assumes b: "busy e k (cx, s)" and "0 < d" "\<not> cx_consumed cx"
  shows "\<exists>s'. TaskContext_Repeat d cx s = Some (cx\<lparr>cx_consumed := True\<rparr>, s') \<and> bounded_queue e k s' \<and> e \<le> end_of (ts_heap s') (cx_task cx)"
proof -
  obtain t where t: "ts_heap s (cx_task cx) = Some t" using b by (auto simp: busy_def running_ok_def)
  let ?t = "t\<lparr>tk_duration := d, tk_end := tk_end t + d, tk_repeated := tk_repeated t + 1\<rparr>"
  have e: "e < tk_end ?t" using b assms(2) t by (auto simp: busy_def end_of_def)
  have "bounded_queue e k (tq_push (cx_task cx) (s\<lparr>ts_heap := (ts_heap s)(cx_task cx \<mapsto> ?t)\<rparr>))"
    using b assms(2,3) e by (intro bounded_push) (auto simp: busy_def running_ok_def ts_inv_def)
  moreover have "ts_alive s" using b by (simp add: busy_def bounded_queue_def)
  ultimately show ?thesis using assms(3) t e by (simp add: TaskContext_Repeat_def with_owner_def tq_push_def)
qed

lemma busy_modify:
  assumes "busy e k (cx, s)" "bounded_queue e k (tq_modify_if filt s)"
  shows "e \<le> end_of (ts_heap (tq_modify_if filt s)) (cx_task cx)"
proof (cases "cx_task cx \<in> set (ts_queue s)")
  case True
  have "ts_inv s" using assms(1) by (simp add: busy_def running_ok_def)
  with True show ?thesis using assms(2) modify_queue(1) by (auto simp: bounded_queue_def)
next
  case False
  have "ts_inv s" using assms(1) by (simp add: busy_def running_ok_def)
  then obtain q where "tq_modify_if filt s = s\<lparr>ts_heap := (\<lambda>a. if a \<in> set (ts_queue s) then map_option (modified filt) (ts_heap s a) else ts_heap s a),
      ts_queue := q\<rparr>" by (rule tq_modify_if_spec)
  with False show ?thesis using assms(1) by (simp add: busy_def end_of_def)
qed

lemma busy_call:
  assumes b: "busy e k (cx, s)" and "positive_call c" "is_repeat c \<longrightarrow> \<not> cx_consumed cx" and alive: "c \<noteq> CallDestroy"
  shows "\<exists>cx' s'. task_perform c (cx, s) = Some (cx', s') \<and> busy e k (cx', s') \<and> (cx_consumed cx' \<longleftrightarrow> cx_consumed cx \<or> is_repeat c)"
proof -
  have q: "bounded_queue e k s" "ts_alive s" "e \<le> end_of (ts_heap s) (cx_task cx)" and dom: "cx_task cx \<in> dom (ts_heap s)"
    and fresh: "cx_task cx \<noteq> ts_next s"
    using b by (auto simp: busy_def bounded_queue_def running_ok_def ts_inv_def)
  have m: "e \<le> end_of (ts_heap (f s)) (cx_task cx)"
    if "f = tq_modify_if filt" "bounded_queue e k (f s)" for f filt using busy_modify [OF b] that by simp
  have "\<exists>cx' s'. task_perform c (cx, s) = Some (cx', s') \<and> bounded_queue e k s' \<and> e \<le> end_of (ts_heap s') (cx_task cx') \<and>
      (cx_consumed cx' \<longleftrightarrow> cx_consumed cx \<or> is_repeat c)"
  proof (cases c)
    case (CallRepeat d)
    with busy_repeat [OF b, of d] assms(2,3) show ?thesis by auto
  next
    case CallRepeatSame
    obtain t where t: "ts_heap s (cx_task cx) = Some t" using dom by auto
    then have "0 < tk_duration t" using q(1) by (auto simp: bounded_queue_def durations_ok_def ran_def)
    with busy_repeat [OF b, of "tk_duration t"] assms(3) t CallRepeatSame show ?thesis by auto
  next
    case (CallSetGroup g)
    then show ?thesis using q bounded_set_group [OF q(1)] by simp
  next
    case CallClearGroup
    then show ?thesis using q bounded_set_group [OF q(1)] by simp
  next
    case (CallSchedule time grp handler)
    then show ?thesis using q fresh assms(2) bounded_schedule [OF q(1), of "end_of (ts_heap s) (cx_task cx)" time grp handler]
      by (simp add: with_owner_def) (simp add: ScheduleAt_def tq_push_def)
  next
    case (CallAsync callable)
    then show ?thesis using q fresh bounded_ops(1) [OF q(1), of callable]
      by (simp add: with_owner_def) (simp add: Async_def Schedule_def ScheduleAt_def tq_push_def)
  next
    case CallCancelAll
    then show ?thesis using q bounded_ops(2) [OF q(1)] by (simp add: with_owner_def)
  next
    case (CallCancelGroup g)
    then show ?thesis using q bounded_ops(3) [OF q(1)] by (simp add: with_owner_def CancelGroup_def)
  next
    case (CallCancelGroupsOf gs)
    then show ?thesis using q bounded_ops(4) [OF q(1)] by (simp add: with_owner_def CancelGroupsOf_def)
  next
    case (CallDelayAll d)
    then show ?thesis using q m [OF DelayAll_def] bounded_ops(5) [OF q(1)] assms(2) by (simp add: with_owner_def)
  next
    case (CallDelayGroup g d)
    then show ?thesis using q m [OF DelayGroup_def] bounded_ops(6) [OF q(1)] assms(2) by (simp add: with_owner_def)
  next
    case (CallRescheduleAll d)
    then show ?thesis using q busy_modify [OF b] bounded_ops(7) [OF q(1), of d] assms(2) by (simp add: with_owner_def RescheduleAll_def)
  next
    case (CallRescheduleGroup g d)
    then show ?thesis using q busy_modify [OF b] bounded_ops(8) [OF q(1), of d] assms(2) by (simp add: with_owner_def RescheduleGroup_def)
  qed (use alive in simp)
  then obtain cx' s' where r: "task_perform c (cx, s) = Some (cx', s')" "bounded_queue e k s'" "e \<le> end_of (ts_heap s') (cx_task cx')"
      "cx_consumed cx' \<longleftrightarrow> cx_consumed cx \<or> is_repeat c" by blast
  moreover have "running_ok (cx', s')" using task_perform_ok [OF _ r(1)] b by (simp add: busy_def)
  ultimately show ?thesis by (auto simp: busy_def)
qed

text \<open>Once the scheduler is destroyed the calls of the context do nothing; a second repetition is still refused.\<close>

lemma dead_call:
  assumes "running_ok (cx, s)" "\<not> ts_alive s" "is_repeat c \<longrightarrow> \<not> cx_consumed cx"
  shows "\<exists>cx' s'. task_perform c (cx, s) = Some (cx', s') \<and> running_ok (cx', s') \<and> \<not> ts_alive s' \<and> (cx_consumed cx' \<longleftrightarrow> cx_consumed cx \<or> is_repeat c)"
proof -
  obtain t where t: "ts_heap s (cx_task cx) = Some t" using assms(1) by (auto simp: running_ok_def)
  have "\<exists>cx' s'. task_perform c (cx, s) = Some (cx', s') \<and> \<not> ts_alive s' \<and> (cx_consumed cx' \<longleftrightarrow> cx_consumed cx \<or> is_repeat c)"
    using assms(2,3) t by (cases c) (auto simp: TaskContext_Repeat_def with_owner_def set_group_def)
  with task_perform_ok [OF assms(1)] show ?thesis by blast
qed

lemma dead_calls:
  "running_ok (cx, s) \<Longrightarrow> \<not> ts_alive s \<Longrightarrow> length (filter is_repeat cs) + (if cx_consumed cx then 1 else 0) \<le> 1 \<Longrightarrow>
   \<exists>cx' s'. task_perform_all cs (cx, s) = Some (cx', s') \<and> \<not> ts_alive s'"
proof (induction cs arbitrary: cx s)
  case (Cons c cs)
  then have "is_repeat c \<longrightarrow> \<not> cx_consumed cx" by auto
  with dead_call [OF Cons.prems(1,2)] obtain cx1 s1 where c: "task_perform c (cx, s) = Some (cx1, s1)" "running_ok (cx1, s1)" "\<not> ts_alive s1"
    "cx_consumed cx1 \<longleftrightarrow> cx_consumed cx \<or> is_repeat c" by blast
  have "length (filter is_repeat cs) + (if cx_consumed cx1 then 1 else 0) \<le> 1" using Cons.prems(3) c(4) by (auto split: if_splits)
  with Cons.IH [OF c(2,3)] c(1) show ?case by auto
qed simp

lemma busy_calls:
  "busy e k (cx, s) \<Longrightarrow> list_all positive_call cs \<Longrightarrow> length (filter is_repeat cs) + (if cx_consumed cx then 1 else 0) \<le> 1 \<Longrightarrow>
   \<exists>cx' s'. task_perform_all cs (cx, s) = Some (cx', s') \<and>
     (if CallDestroy \<in> set cs then \<not> ts_alive s' else busy e k (cx', s') \<and> same_clock s s')"
proof (induction cs arbitrary: cx s)
  case Nil
  then show ?case by (simp add: same_clock_ops)
next
  case (Cons c cs)
  show ?case
  proof (cases "c = CallDestroy")
    case True
    have "running_ok (cx, s\<lparr>ts_queue := [], ts_alive := False\<rparr>)"
      using task_perform_ok [of "(cx, s)" CallDestroy] Cons.prems(1) by (simp add: busy_def)
    from dead_calls [OF this, of cs] Cons.prems(3) True show ?thesis by auto
  next
    case False
    have "is_repeat c \<longrightarrow> \<not> cx_consumed cx" using Cons.prems(3) by auto
    with Cons.prems False obtain cx1 s1 where c: "task_perform c (cx, s) = Some (cx1, s1)" "busy e k (cx1, s1)" "cx_consumed cx1 \<longleftrightarrow> cx_consumed cx \<or> is_repeat c"
      using busy_call [of e k cx s c] by auto
    have "length (filter is_repeat cs) + (if cx_consumed cx1 then 1 else 0) \<le> 1" using Cons.prems(3) c(3) by (auto split: if_splits)
    with Cons.IH [OF c(2)] Cons.prems(2) obtain cx' s' where "task_perform_all cs (cx1, s1) = Some (cx', s')"
      "if CallDestroy \<in> set cs then \<not> ts_alive s' else busy e k (cx', s') \<and> same_clock s1 s'" by auto
    with c(1) False task_perform_clock [OF c(1)] show ?thesis by (auto simp: same_clock_def split: if_splits)
  qed
qed

text \<open>A code whose handlers leave the scheduler alive.\<close>

definition keeps_scheduler :: "task_code \<Rightarrow> bool" where
  "keeps_scheduler E \<longleftrightarrow> (\<forall>n t now. CallDestroy \<notin> set (tc_run E n t now))"

lemma Invoke_runs:
  assumes "positive_code E" "ts_inv s" "ts_queue s = a # q" "end_of (ts_heap s) a \<le> ts_now s" "durations_ok s" "ts_alive s"
  shows "\<exists>s'. Invoke E a (s\<lparr>ts_queue := q\<rparr>) = Some s' \<and> (keeps_scheduler E \<longrightarrow> ts_alive s') \<and>
    (ts_alive s' \<longrightarrow>
      bounded_queue (end_of (ts_heap s) a) (length (filter (\<lambda>b. end_of (ts_heap s) b = end_of (ts_heap s) a) q)) s' \<and>
      ts_now s' = ts_now s \<and> ts_trace s' = ts_trace s @ [Invoked a (end_of (ts_heap s) a) (ts_now s)])"
proof -
  obtain t where t: "ts_heap s a = Some t" using assms(2,3) by (auto simp: ts_inv_def)
  let ?e = "end_of (ts_heap s) a"
  let ?k = "length (filter (\<lambda>b. end_of (ts_heap s) b = ?e) q)"
  let ?s = "s\<lparr>ts_queue := q, ts_trace := ts_trace s @ [Invoked a (tk_end t) (ts_now s)]\<rparr>"
  let ?cx = "\<lparr>cx_task = a, cx_consumed = False\<rparr>"
  let ?cs = "tc_run E (tk_handler t) t (ts_now s)"
  have i: "ts_inv ?s" "a \<notin> set q" using assms(2,3) by (auto simp: ts_inv_def)
  have "bounded_queue ?e ?k ?s" using i(1) assms by (auto simp: bounded_queue_def at_end_def durations_ok_def ts_inv_def)
  with i t have "busy ?e ?k (?cx, ?s)" by (auto simp: busy_def running_ok_def)
  moreover have "positive_run ?cs" using assms(1) by (simp add: positive_code_def)
  ultimately obtain cx' s' where r: "task_perform_all ?cs (?cx, ?s) = Some (cx', s')"
      "if CallDestroy \<in> set ?cs then \<not> ts_alive s' else busy ?e ?k (cx', s') \<and> same_clock ?s s'"
    using busy_calls [of ?e ?k ?cx ?s ?cs] by (auto simp: positive_run_def)
  have "Invoke E a (s\<lparr>ts_queue := q\<rparr>) = Some s'" using t r(1) by (simp add: Invoke_def)
  moreover have "tk_end t = ?e" using t by (simp add: end_of_def)
  moreover have "keeps_scheduler E \<longrightarrow> CallDestroy \<notin> set ?cs" by (simp add: keeps_scheduler_def)
  ultimately show ?thesis using r(2) by (auto simp: busy_def same_clock_def bounded_queue_def split: if_splits)
qed

section \<open>Updates\<close>

text \<open>
  What a dispatch is meant to do: as long as the validator agrees it takes the first task off the queue, if that is due, and invokes it.
  \<open>due_run E s xs s'\<close>: the tasks \<open>xs\<close>, with the ends they were due at, have been taken and invoked one after the other since \<open>s\<close>.
\<close>

inductive due_run :: "task_code \<Rightarrow> task_scheduler \<Rightarrow> (nat \<times> int) list \<Rightarrow> task_scheduler \<Rightarrow> bool" for E where
  due_none: "due_run E s [] s"
| due_first: "ts_alive s \<Longrightarrow> task_predicate E s \<Longrightarrow> ts_queue s = a # q \<Longrightarrow> end_of (ts_heap s) a \<le> ts_now s \<Longrightarrow>
    Invoke E a (s\<lparr>ts_queue := q\<rparr>) = Some s1 \<Longrightarrow> due_run E s1 xs s' \<Longrightarrow> due_run E s ((a, end_of (ts_heap s) a) # xs) s'"

inductive_cases due_run_NilE: "due_run E s [] s'"
inductive_cases due_run_ConsE: "due_run E s (x # xs) s'"

text \<open>Nothing is left to invoke: no queued task is due, or the validator has said no.\<close>

definition run_complete :: "task_code \<Rightarrow> task_scheduler \<Rightarrow> bool" where
  "run_complete E s \<longleftrightarrow> \<not> task_predicate E s \<or> (\<forall>a \<in> set (ts_queue s). ts_now s < end_of (ts_heap s) a)"

definition invocations :: "task_scheduler \<Rightarrow> (nat \<times> int) list \<Rightarrow> task_event list" where
  "invocations s xs = map (\<lambda>(a, e). Invoked a e (ts_now s)) xs"

lemma complete_run_unique:
  "due_run E s xs s1 \<Longrightarrow> ts_alive s1 \<Longrightarrow> run_complete E s1 \<Longrightarrow> due_run E s ys s2 \<Longrightarrow> ts_alive s2"
proof (induction arbitrary: ys rule: due_run.induct)
  case (due_none s)
  then show ?case by (cases ys) (auto simp: run_complete_def elim: due_run_NilE due_run_ConsE)
next
  case (due_first s a q s1 xs s')
  then show ?case by (cases ys) (auto elim!: due_run_NilE due_run_ConsE)
qed

definition has_run :: "task_code \<Rightarrow> bool \<Rightarrow> task_scheduler \<Rightarrow> (nat \<times> int) list \<Rightarrow> task_scheduler \<Rightarrow> bool" where
  "has_run E callback s xs s1 \<longleftrightarrow> due_run E s xs s1 \<and> run_complete E s1 \<and> sorted (map snd xs) \<and> (\<forall>e \<in> set (map snd xs). e \<le> ts_now s) \<and>
     ts_trace s1 = ts_trace s @ invocations s xs \<and> ts_now s1 = ts_now s \<and> ts_inv s1 \<and> durations_ok s1 \<and> ts_alive s1"

abbreviation dispatch_result :: "task_code \<Rightarrow> bool \<Rightarrow> task_scheduler \<Rightarrow> task_scheduler" where
  "dispatch_result E callback s1 \<equiv> if task_predicate E s1 then dispatch_finish callback s1 else s1"

lemma loop_result:
  assumes "positive_code E"
  shows "bounded_queue e k s \<Longrightarrow> task_predicate E s \<Longrightarrow>
    (\<exists>xs s1. due_run E s xs s1 \<and> \<not> ts_alive s1 \<and> \<not> keeps_scheduler E \<and> dispatch_loop E c s = None) \<or>
    (\<exists>xs s1. has_run E c s xs s1 \<and> (\<forall>x \<in> set xs. e \<le> snd x) \<and> dispatch_loop E c s = Some (dispatch_result E c s1))"
proof (induction "(nat (ts_now s - e), k)" arbitrary: e k s rule: wf_induct_rule [OF wf_lex_prod [OF wf_less_than wf_less_than]])
  case 1
  have i: "ts_inv s" "durations_ok s" "ts_alive s" using 1(2) by (simp_all add: bounded_queue_def)
  show ?case
  proof (cases "ts_queue s = [] \<or> ts_now s < end_of (ts_heap s) (hd (ts_queue s))")
    case True
    then have "dispatch_loop E c s = Some (dispatch_finish c s)" using i(3) by (subst dispatch_loop.simps) (auto split: list.split)
    moreover have "run_complete E s" using True i(1) by (cases "ts_queue s") (auto simp: run_complete_def ts_inv_def)
    then have "has_run E c s [] s" using i by (simp add: has_run_def due_none invocations_def)
    ultimately show ?thesis using 1(3) by (intro disjI2 exI [of _ "[]"] exI [of _ s]) simp
  next
    case False
    then obtain a q where q: "ts_queue s = a # q" "end_of (ts_heap s) a \<le> ts_now s" by (cases "ts_queue s") auto
    let ?e = "end_of (ts_heap s) a"
    let ?k = "length (filter (\<lambda>b. end_of (ts_heap s) b = ?e) q)"
    obtain s1 where s1: "Invoke E a (s\<lparr>ts_queue := q\<rparr>) = Some s1" "keeps_scheduler E \<longrightarrow> ts_alive s1"
        "ts_alive s1 \<longrightarrow> bounded_queue ?e ?k s1 \<and> ts_now s1 = ts_now s \<and> ts_trace s1 = ts_trace s @ [Invoked a ?e (ts_now s)]"
      using Invoke_runs [OF assms i(1) q i(2,3)] by auto
    note first = due_first [OF i(3) 1(3) q s1(1)]
    have le: "e \<le> ?e" using 1(2) q(1) by (simp add: bounded_queue_def)
    have loop: "dispatch_loop E c s = (if \<not> ts_alive s1 then None else if \<not> task_predicate E s1 then Some s1 else dispatch_loop E c s1)"
      using q s1(1) i(3) by (subst dispatch_loop.simps) simp
    show ?thesis
    proof (cases "ts_alive s1")
      case False
      then show ?thesis using first [OF due_none] loop s1(2) by auto
    next
      case alive: True
      then have b: "bounded_queue ?e ?k s1" "ts_now s1 = ts_now s" "ts_trace s1 = ts_trace s @ [Invoked a ?e (ts_now s)]" using s1(3) by simp_all
      show ?thesis
      proof (cases "task_predicate E s1")
        case False
        then have "has_run E c s [(a, ?e)] s1"
          using first [OF due_none] b q(2) alive by (simp add: has_run_def run_complete_def invocations_def bounded_queue_def)
        with False alive loop le show ?thesis by (intro disjI2 exI [of _ "[(a, ?e)]"] exI [of _ s1]) simp
      next
        case True
        have "at_end e s = Suc ?k" if "?e = e" using that q(1) by (simp add: at_end_def)
        then have "((nat (ts_now s1 - ?e), ?k), (nat (ts_now s - e), k)) \<in> less_than <*lex*> less_than"
          using le 1(2) q(2) b(2) by (cases "?e = e") (auto simp: bounded_queue_def)
        from 1(1) [OF this b(1) True] show ?thesis
        proof (elim disjE exE conjE)
          fix xs s2 assume "due_run E s1 xs s2" "\<not> ts_alive s2" "\<not> keeps_scheduler E" "dispatch_loop E c s1 = None"
          with first loop alive True show ?thesis by auto
        next
          fix xs s2 assume r: "has_run E c s1 xs s2" "\<forall>x \<in> set xs. ?e \<le> snd x" "dispatch_loop E c s1 = Some (dispatch_result E c s2)"
          have "has_run E c s ((a, ?e) # xs) s2" using r(1,2) first b q(2) by (auto simp: has_run_def invocations_def)
          with r(2,3) loop alive True le show ?thesis by (intro disjI2 exI [of _ "(a, ?e) # xs"] exI [of _ s2]) auto
        qed
      qed
    qed
  qed
qed

lemma Dispatch_result:
  assumes "positive_code E" "ts_inv s" "durations_ok s" "ts_alive s"
  shows "(\<exists>xs s1. due_run E s xs s1 \<and> \<not> ts_alive s1 \<and> \<not> keeps_scheduler E \<and> Dispatch E c s = None) \<or>
    (\<exists>xs s1. has_run E c s xs s1 \<and> Dispatch E c s = Some (dispatch_result E c s1))"
proof (cases "task_predicate E s")
  case False
  then have "has_run E c s [] s" using assms by (simp add: has_run_def due_none run_complete_def invocations_def)
  with False assms show ?thesis by (intro disjI2 exI [of _ "[]"] exI [of _ s]) (simp add: Dispatch_def)
next
  case True
  show ?thesis
  proof (cases "ts_queue s = []")
    case True
    then have "has_run E c s [] s" using assms by (simp add: has_run_def due_none run_complete_def invocations_def)
    moreover have "Dispatch E c s = Some (dispatch_result E c s)"
      using True \<open>task_predicate E s\<close> assms(4) by (simp add: Dispatch_def dispatch_loop.simps [of E c s])
    ultimately show ?thesis by blast
  next
    case False
    show ?thesis
    proof (cases "ts_now s < end_of (ts_heap s) (hd (ts_queue s))")
      case late: True
      then have "run_complete E s" using False assms(2) by (cases "ts_queue s") (auto simp: run_complete_def ts_inv_def)
      then have "has_run E c s [] s" using assms by (simp add: has_run_def due_none invocations_def)
      moreover have "Dispatch E c s = Some (dispatch_result E c s)"
        using late False True assms(4) by (cases "ts_queue s") (simp_all add: Dispatch_def dispatch_loop.simps [of E c s])
      ultimately show ?thesis by blast
    next
      case due: False
      let ?e = "end_of (ts_heap s) (hd (ts_queue s))"
      have "bounded_queue ?e (at_end ?e s) s" using due False assms by (cases "ts_queue s") (auto simp: bounded_queue_def ts_inv_def)
      from loop_result [OF assms(1) this True, of c] have "(\<exists>xs s1. due_run E s xs s1 \<and> \<not> ts_alive s1 \<and> \<not> keeps_scheduler E \<and> dispatch_loop E c s = None) \<or>
          (\<exists>xs s1. has_run E c s xs s1 \<and> dispatch_loop E c s = Some (dispatch_result E c s1))" by blast
      moreover have "Dispatch E c s = dispatch_loop E c s" using True assms(4) by (simp add: Dispatch_def)
      ultimately show ?thesis by simp
    qed
  qed
qed

lemma Update_result:
  assumes "positive_code E" "task_reachable E s" "durations_ok s"
  shows "(\<exists>xs s1. due_run E (s\<lparr>ts_now := clock\<rparr>) xs s1 \<and> \<not> ts_alive s1 \<and> \<not> keeps_scheduler E \<and> TaskScheduler_Update E c clock s = None) \<or>
    (\<exists>xs s1. has_run E c (s\<lparr>ts_now := clock\<rparr>) xs s1 \<and> TaskScheduler_Update E c clock s = Some (dispatch_result E c s1))"
  using Dispatch_result [OF assms(1), of "s\<lparr>ts_now := clock\<rparr>" c] TaskScheduler_reachable_inv [OF assms(2)]
    task_reachable_alive [OF assms(2)] assms(3) by (simp add: TaskScheduler_Update_def durations_ok_def)

text \<open>
  C15: An update with handlers that use positive durations returns, whatever tasks they schedule, repeat, delay, reschedule or cancel
  while they run, although a delayed dispatch catches up with a repeated task by running it many times. It took tasks off the front of
  the queue and invoked each of them, in the order of their ends, none before its end, and stopped only when no queued task was due
  or the validator said no; in the first case it called the success callback.
\<close>

theorem Update_runs_due_tasks:
  assumes "positive_code E" "keeps_scheduler E" "task_reachable E s" "durations_ok s"
  shows "\<exists>xs s1. due_run E (s\<lparr>ts_now := clock\<rparr>) xs s1 \<and>
    TaskScheduler_Update E callback clock s = Some (if task_predicate E s1 then dispatch_finish callback s1 else s1) \<and>
    (task_predicate E s1 \<longrightarrow> (\<forall>a \<in> set (ts_queue s1). clock < end_of (ts_heap s1) a)) \<and>
    ts_trace s1 = ts_trace s @ map (\<lambda>(a, e). Invoked a e clock) xs \<and> sorted (map snd xs) \<and> (\<forall>e \<in> set (map snd xs). e \<le> clock)"
proof -
  from Update_result [OF assms(1,3,4), of clock callback] assms(2) obtain xs s1 where r: "has_run E callback (s\<lparr>ts_now := clock\<rparr>) xs s1"
    "TaskScheduler_Update E callback clock s = Some (dispatch_result E callback s1)" by auto
  then show ?thesis by (intro exI [of _ xs] exI [of _ s1]) (auto simp: has_run_def run_complete_def invocations_def)
qed

text \<open>A handler \<open>0\<close> that repeats itself every 3 and a handler \<open>1\<close> that delays group 7.\<close>

definition sample_tasks :: task_code where
  "sample_tasks = \<lparr>tc_run = (\<lambda>n t now. if n = 0 then [CallRepeat 3] else [CallDelayGroup 7 2]), tc_valid = (\<lambda>v s. True)\<rparr>"

lemma Update_runs_due_tasks_witness:
  "\<exists>xs s1. due_run sample_tasks (Schedule 4 None 1 (Schedule 3 (Some 7) 0 (TaskScheduler_new 0))\<lparr>ts_now := 10\<rparr>) xs s1 \<and>
    TaskScheduler_Update sample_tasks True 10 (Schedule 4 None 1 (Schedule 3 (Some 7) 0 (TaskScheduler_new 0))) = Some (dispatch_finish True s1)"
proof -
  let ?s = "Schedule 4 None 1 (Schedule 3 (Some 7) 0 (TaskScheduler_new 0))"
  have "positive_code sample_tasks" "keeps_scheduler sample_tasks" by (simp_all add: positive_code_def positive_run_def sample_tasks_def keeps_scheduler_def)
  moreover have "task_reachable sample_tasks ?s" by (intro task_reachable.step [OF _ task_step.schedule] task_reachable.start)
  moreover have "durations_ok ?s" by (auto simp: durations_ok_def Schedule_def ScheduleAt_def tq_push_def TaskScheduler_new_def ran_def split: if_splits)
  moreover have "task_predicate sample_tasks s1" for s1 by (simp add: task_predicate_def sample_tasks_def split: option.split)
  ultimately show ?thesis using Update_runs_due_tasks [of sample_tasks ?s 10 True] by auto
qed

section \<open>Errors\<close>

text \<open>
  C33: An update with handlers that use positive durations is undefined exactly when one of the tasks it invokes destroys the scheduler: the
  dispatch reads members of the destroyed object next. No assertion fails otherwise, and it ends. The context holds a weak pointer
  to the scheduler to catch its destruction, but only the calls of the context check it.
\<close>

theorem Dispatch_after_destruction:
  assumes "positive_code E" "task_reachable E s" "durations_ok s"
  shows "TaskScheduler_Update E callback clock s = None \<longleftrightarrow> (\<exists>xs s1. due_run E (s\<lparr>ts_now := clock\<rparr>) xs s1 \<and> \<not> ts_alive s1)"
  using Update_result [OF assms, of clock callback] complete_run_unique [of E "s\<lparr>ts_now := clock\<rparr>"] by (auto simp: has_run_def)

text \<open>Of two tasks the second destroys the scheduler.\<close>

definition last_words :: task_code where
  "last_words = \<lparr>tc_run = (\<lambda>n t now. if n = 0 then [CallRepeat 3] else [CallDestroy, CallCancelAll]), tc_valid = (\<lambda>v s. True)\<rparr>"

lemma Dispatch_after_destruction_witness:
  "TaskScheduler_Update last_words True 4 (Schedule 4 None 1 (Schedule 3 None 0 (TaskScheduler_new 0))) = None"
proof -
  let ?s = "Schedule 4 None 1 (Schedule 3 None 0 (TaskScheduler_new 0))"
  have "positive_code last_words" by (simp add: positive_code_def positive_run_def last_words_def)
  moreover have "task_reachable last_words ?s" by (intro task_reachable.step [OF _ task_step.schedule] task_reachable.start)
  moreover have "durations_ok ?s" by (auto simp: durations_ok_def Schedule_def ScheduleAt_def tq_push_def TaskScheduler_new_def ran_def split: if_splits)
  moreover have "\<exists>xs s1. due_run last_words (?s\<lparr>ts_now := 4\<rparr>) xs s1 \<and> \<not> ts_alive s1"
  proof -
    have q: "ts_queue (?s\<lparr>ts_now := 4\<rparr>) = [0, 1]" by code_simp
    obtain s1 where s1: "Invoke last_words 0 (?s\<lparr>ts_now := 4, ts_queue := [1]\<rparr>) = Some s1" "ts_queue s1 = [1, 0]" "ts_alive s1" "ts_now s1 = 4"
        "ts_heap s1 1 = Some \<lparr>tk_end = 4, tk_duration = 4, tk_group = None, tk_repeated = 0, tk_handler = 1\<rparr>"
      by (simp add: Invoke_def last_words_def TaskContext_Repeat_def with_owner_def Schedule_def ScheduleAt_def tq_push_def TaskScheduler_new_def end_of_def)
    obtain s2 where s2: "Invoke last_words 1 (s1\<lparr>ts_queue := [0]\<rparr>) = Some s2" "\<not> ts_alive s2"
      using s1(5) by (simp add: Invoke_def last_words_def with_owner_def)
    have p: "task_predicate last_words s" for s by (simp add: task_predicate_def last_words_def split: option.split)
    have "due_run last_words s1 [(1, end_of (ts_heap s1) 1)] s2"
      using s1 by (intro due_first [OF s1(3) p s1(2) _ s2(1) due_none]) (simp add: end_of_def)
    from due_first [OF _ p q _ _ this] s1(1) s2(2) show ?thesis
      by (simp add: Schedule_def ScheduleAt_def tq_push_def TaskScheduler_new_def end_of_def) blast
  qed
  ultimately show ?thesis using Dispatch_after_destruction by blast
qed

end
