(* ===== verification/PhaseShift.thy ===== *)
theory PhaseShift imports StdContainers begin

text \<open>
  Phase visibility, \<^verbatim>\<open>src/src/server/game/Phasing/PhaseShift.{h,cpp}\<close>: the reference-counted set of
  phases an object is in, the derived counters and flags, and \<^verbatim>\<open>CanSee\<close>, which decides whether two
  objects see each other. Pointers to area conditions and terrain swaps are opaque values of type
  \<^typ>\<open>nat option\<close>; iterators returned by the erasing operations become \<open>erase_result\<close>. The reference
  counters are mathematical integers (\<^verbatim>\<open>int32\<close> in the code, whose overflow is undefined).
\<close>

section \<open>Flags\<close>

definition PhaseShiftFlags_AlwaysVisible :: u32 where "PhaseShiftFlags_AlwaysVisible = 0x01"
definition PhaseShiftFlags_Inverse :: u32 where "PhaseShiftFlags_Inverse = 0x02"
definition PhaseShiftFlags_InverseUnphased :: u32 where "PhaseShiftFlags_InverseUnphased = 0x04"
definition PhaseShiftFlags_Unphased :: u32 where "PhaseShiftFlags_Unphased = 0x08"
definition PhaseShiftFlags_NoCosmetic :: u32 where "PhaseShiftFlags_NoCosmetic = 0x10"

definition PhaseFlags_None :: u16 where "PhaseFlags_None = 0x0"
definition PhaseFlags_Cosmetic :: u16 where "PhaseFlags_Cosmetic = 0x1"
definition PhaseFlags_Personal :: u16 where "PhaseFlags_Personal = 0x2"

definition HasFlag :: "'a::len word \<Rightarrow> 'a word \<Rightarrow> bool" where
  "HasFlag v flag \<longleftrightarrow> v AND flag \<noteq> 0"

definition DEFAULT_PHASE :: u16 where "DEFAULT_PHASE = 169"

lemmas phase_flag_defs =
  PhaseShiftFlags_AlwaysVisible_def PhaseShiftFlags_Inverse_def PhaseShiftFlags_InverseUnphased_def
  PhaseShiftFlags_Unphased_def PhaseShiftFlags_NoCosmetic_def
  PhaseFlags_None_def PhaseFlags_Cosmetic_def PhaseFlags_Personal_def

section \<open>State\<close>

record phase_ref =
  pr_Id :: u16
  pr_Flags :: u16
  pr_References :: int
  pr_AreaConditions :: "nat option"

text \<open>The constructor stores the 32-bit id in 16 bits.\<close>

definition PhaseRef :: "u32 \<Rightarrow> u16 \<Rightarrow> nat option \<Rightarrow> phase_ref" where
  "PhaseRef phaseId flags conditions =
     \<lparr>pr_Id = ucast phaseId, pr_Flags = flags, pr_References = 0, pr_AreaConditions = conditions\<rparr>"

record phase_shift =
  ps_Flags :: u32
  ps_PersonalGuid :: nat
  ps_Phases :: "phase_ref list"
  ps_VisibleMapIds :: "(u32, int \<times> nat option) omap"
  ps_UiWorldMapAreaIdSwaps :: "(u32, int) omap"
  ps_NonCosmeticReferences :: int
  ps_CosmeticReferences :: int
  ps_PersonalReferences :: int
  ps_DefaultReferences :: int
  ps_IsDbPhaseShift :: bool

text \<open>The empty guid is 0.\<close>

definition PhaseShift_new :: phase_shift where
  "PhaseShift_new = \<lparr>ps_Flags = PhaseShiftFlags_Unphased, ps_PersonalGuid = 0, ps_Phases = [],
     ps_VisibleMapIds = [], ps_UiWorldMapAreaIdSwaps = [], ps_NonCosmeticReferences = 0,
     ps_CosmeticReferences = 0, ps_PersonalReferences = 0, ps_DefaultReferences = 0,
     ps_IsDbPhaseShift = False\<rparr>"

datatype erase_result = ErNotFound | ErKept | ErErased

section \<open>Operations\<close>

definition UpdateUnphasedFlag :: "phase_shift \<Rightarrow> phase_shift" where
  "UpdateUnphasedFlag s =
     (let inverse = HasFlag (ps_Flags s) PhaseShiftFlags_Inverse;
          unphasedFlag = (if \<not> inverse then PhaseShiftFlags_Unphased else PhaseShiftFlags_InverseUnphased);
          flags = ps_Flags s AND NOT (if \<not> inverse then PhaseShiftFlags_InverseUnphased else PhaseShiftFlags_Unphased)
      in if ps_NonCosmeticReferences s \<noteq> 0 \<and> ps_DefaultReferences s = 0
         then s\<lparr>ps_Flags := flags AND NOT unphasedFlag\<rparr>
         else s\<lparr>ps_Flags := flags OR unphasedFlag\<rparr>)"

definition UpdatePersonalGuid :: "phase_shift \<Rightarrow> phase_shift" where
  "UpdatePersonalGuid s = (if ps_PersonalReferences s = 0 then s\<lparr>ps_PersonalGuid := 0\<rparr> else s)"

definition fs_modify :: "('a \<Rightarrow> 'k) \<Rightarrow> 'k \<Rightarrow> ('a \<Rightarrow> 'a) \<Rightarrow> 'a list \<Rightarrow> 'a list" where
  "fs_modify key k f s = map (\<lambda>x. if key x = k then f x else x) s"

text \<open>The counters follow the flags stored in the set, \<open>p\<close> being the element the iterator points to.\<close>

definition ModifyPhasesReferences :: "phase_ref \<Rightarrow> int \<Rightarrow> phase_shift \<Rightarrow> phase_shift" where
  "ModifyPhasesReferences p references s =
     (let s = s\<lparr>ps_Phases := fs_modify pr_Id (pr_Id p)
                  (\<lambda>x. x\<lparr>pr_References := pr_References x + references\<rparr>) (ps_Phases s)\<rparr>
      in if \<not> ps_IsDbPhaseShift s
         then let s = (if HasFlag (pr_Flags p) PhaseFlags_Cosmetic
                       then s\<lparr>ps_CosmeticReferences := ps_CosmeticReferences s + references\<rparr>
                       else if pr_Id p \<noteq> DEFAULT_PHASE
                       then s\<lparr>ps_NonCosmeticReferences := ps_NonCosmeticReferences s + references\<rparr>
                       else s\<lparr>ps_DefaultReferences := ps_DefaultReferences s + references\<rparr>);
                  s = (if HasFlag (pr_Flags p) PhaseFlags_Personal
                       then s\<lparr>ps_PersonalReferences := ps_PersonalReferences s + references\<rparr> else s);
                  s = (if ps_CosmeticReferences s \<noteq> 0
                       then s\<lparr>ps_Flags := ps_Flags s OR PhaseShiftFlags_NoCosmetic\<rparr>
                       else s\<lparr>ps_Flags := ps_Flags s AND NOT PhaseShiftFlags_NoCosmetic\<rparr>)
              in UpdatePersonalGuid (UpdateUnphasedFlag s)
         else s)"

definition PhaseShift_AddPhase :: "u32 \<Rightarrow> u16 \<Rightarrow> nat option \<Rightarrow> int \<Rightarrow> phase_shift \<Rightarrow> bool \<times> phase_shift" where
  "PhaseShift_AddPhase phaseId flags areaConditions references s =
     (let (phases, inserted) = fs_emplace pr_Id (PhaseRef phaseId flags None) (ps_Phases s);
          s = s\<lparr>ps_Phases := phases\<rparr>;
          s = (case fs_find pr_Id (ucast phaseId) phases of
                 None \<Rightarrow> s
               | Some p \<Rightarrow> ModifyPhasesReferences p references s);
          s = (if areaConditions \<noteq> None
               then s\<lparr>ps_Phases := fs_modify pr_Id (ucast phaseId)
                        (\<lambda>x. x\<lparr>pr_AreaConditions := areaConditions\<rparr>) (ps_Phases s)\<rparr>
               else s)
      in (inserted, s))"

definition PhaseShift_RemovePhase :: "u32 \<Rightarrow> phase_shift \<Rightarrow> erase_result \<times> phase_shift" where
  "PhaseShift_RemovePhase phaseId s =
     (case fs_find pr_Id (ucast phaseId) (ps_Phases s) of
        None \<Rightarrow> (ErNotFound, s)
      | Some p \<Rightarrow>
          let s = ModifyPhasesReferences p (-1) s
          in if pr_References p - 1 = 0
             then (ErErased, s\<lparr>ps_Phases := fs_erase pr_Id (pr_Id p) (ps_Phases s)\<rparr>)
             else (ErKept, s))"

definition PhaseShift_HasPhase :: "u32 \<Rightarrow> phase_shift \<Rightarrow> bool" where
  "PhaseShift_HasPhase phaseId s \<longleftrightarrow> fs_find pr_Id (ucast phaseId) (ps_Phases s) \<noteq> None"

definition PhaseShift_AddVisibleMapId :: "u32 \<Rightarrow> nat option \<Rightarrow> int \<Rightarrow> phase_shift \<Rightarrow> bool \<times> phase_shift" where
  "PhaseShift_AddVisibleMapId visibleMapId visibleMapInfo references s =
     (case om_find visibleMapId (ps_VisibleMapIds s) of
        None \<Rightarrow> (True, s\<lparr>ps_VisibleMapIds := om_set visibleMapId (references, visibleMapInfo) (ps_VisibleMapIds s)\<rparr>)
      | Some (r, i) \<Rightarrow> (False, s\<lparr>ps_VisibleMapIds := om_set visibleMapId (r + references, i) (ps_VisibleMapIds s)\<rparr>))"

definition PhaseShift_RemoveVisibleMapId :: "u32 \<Rightarrow> phase_shift \<Rightarrow> erase_result \<times> phase_shift" where
  "PhaseShift_RemoveVisibleMapId visibleMapId s =
     (case om_find visibleMapId (ps_VisibleMapIds s) of
        None \<Rightarrow> (ErNotFound, s)
      | Some (r, i) \<Rightarrow>
          if r - 1 = 0 then (ErErased, s\<lparr>ps_VisibleMapIds := om_erase visibleMapId (ps_VisibleMapIds s)\<rparr>)
          else (ErKept, s\<lparr>ps_VisibleMapIds := om_set visibleMapId (r - 1, i) (ps_VisibleMapIds s)\<rparr>))"

definition PhaseShift_AddUiWorldMapAreaIdSwap :: "u32 \<Rightarrow> int \<Rightarrow> phase_shift \<Rightarrow> bool \<times> phase_shift" where
  "PhaseShift_AddUiWorldMapAreaIdSwap areaId references s =
     (case om_find areaId (ps_UiWorldMapAreaIdSwaps s) of
        None \<Rightarrow> (True, s\<lparr>ps_UiWorldMapAreaIdSwaps := om_set areaId references (ps_UiWorldMapAreaIdSwaps s)\<rparr>)
      | Some r \<Rightarrow> (False, s\<lparr>ps_UiWorldMapAreaIdSwaps := om_set areaId (r + references) (ps_UiWorldMapAreaIdSwaps s)\<rparr>))"

definition PhaseShift_RemoveUiWorldMapAreaIdSwap :: "u32 \<Rightarrow> phase_shift \<Rightarrow> erase_result \<times> phase_shift" where
  "PhaseShift_RemoveUiWorldMapAreaIdSwap areaId s =
     (case om_find areaId (ps_UiWorldMapAreaIdSwaps s) of
        None \<Rightarrow> (ErNotFound, s)
      | Some r \<Rightarrow>
          if r - 1 = 0 then (ErErased, s\<lparr>ps_UiWorldMapAreaIdSwaps := om_erase areaId (ps_UiWorldMapAreaIdSwaps s)\<rparr>)
          else (ErKept, s\<lparr>ps_UiWorldMapAreaIdSwaps := om_set areaId (r - 1) (ps_UiWorldMapAreaIdSwaps s)\<rparr>))"

definition PhaseShift_ClearPhases :: "phase_shift \<Rightarrow> phase_shift" where
  "PhaseShift_ClearPhases s =
     UpdateUnphasedFlag
       (s\<lparr>ps_Flags := ps_Flags s AND (PhaseShiftFlags_AlwaysVisible OR PhaseShiftFlags_Inverse),
          ps_PersonalGuid := 0, ps_Phases := [], ps_NonCosmeticReferences := 0,
          ps_CosmeticReferences := 0, ps_PersonalReferences := 0, ps_DefaultReferences := 0\<rparr>)"

definition PhaseShift_Clear :: "phase_shift \<Rightarrow> phase_shift" where
  "PhaseShift_Clear s = (PhaseShift_ClearPhases s)\<lparr>ps_VisibleMapIds := [], ps_UiWorldMapAreaIdSwaps := []\<rparr>"

definition PhaseShift_HasPersonalPhase :: "phase_shift \<Rightarrow> bool" where
  "PhaseShift_HasPersonalPhase s \<longleftrightarrow> list_ex (\<lambda>p. HasFlag (pr_Flags p) PhaseFlags_Personal) (ps_Phases s)"

text \<open>The lambda of \<^verbatim>\<open>CanSee\<close> for one inverse side.\<close>

definition checkInversePhaseShift :: "u16 \<Rightarrow> phase_shift \<Rightarrow> phase_shift \<Rightarrow> bool" where
  "checkInversePhaseShift excludeFlag phaseShift excludedPhaseShift =
     (if HasFlag (ps_Flags phaseShift) PhaseShiftFlags_Unphased \<and>
         HasFlag (ps_Flags excludedPhaseShift) PhaseShiftFlags_InverseUnphased
      then False
      else list_all (\<lambda>phase.
             if HasFlag (pr_Flags phase) excludeFlag then True
             else case find (\<lambda>q. pr_Id q = pr_Id phase) (ps_Phases excludedPhaseShift) of
                    None \<Rightarrow> True
                  | Some q \<Rightarrow> HasFlag (pr_Flags q) excludeFlag)
           (ps_Phases phaseShift))"

definition PhaseShift_CanSee :: "phase_shift \<Rightarrow> phase_shift \<Rightarrow> bool" where
  "PhaseShift_CanSee a other =
     (let has = (\<lambda>s f. HasFlag (ps_Flags s) f) in
      if has a PhaseShiftFlags_Unphased \<and> has other PhaseShiftFlags_Unphased then True
      else if has a PhaseShiftFlags_AlwaysVisible \<or> has other PhaseShiftFlags_AlwaysVisible then True
      else if has a PhaseShiftFlags_Inverse \<and> has other PhaseShiftFlags_Inverse then True
      else let excludeFlag = (if has a PhaseShiftFlags_NoCosmetic \<and> has other PhaseShiftFlags_NoCosmetic
                              then PhaseFlags_Cosmetic else PhaseFlags_None)
           in if \<not> has a PhaseShiftFlags_Inverse \<and> \<not> has other PhaseShiftFlags_Inverse
              then Intersects pr_Id
                     (\<lambda>myPhase _. \<not> HasFlag (pr_Flags myPhase) excludeFlag \<and>
                        (\<not> HasFlag (pr_Flags myPhase) PhaseFlags_Personal \<or>
                         ps_PersonalGuid a = ps_PersonalGuid other))
                     (ps_Phases a) (ps_Phases other)
              else if has other PhaseShiftFlags_Inverse then checkInversePhaseShift excludeFlag a other
              else checkInversePhaseShift excludeFlag other a)"



section \<open>Facts about the flags\<close>

lemma HasFlag_exp: "HasFlag (w :: 'a::len word) (2 ^ k) \<longleftrightarrow> bit w k"
  by (simp add: HasFlag_def and_exp_eq_0_iff_not_bit)

lemma phase_shift_flag_bits [simp]:
  "HasFlag w PhaseShiftFlags_AlwaysVisible \<longleftrightarrow> bit w 0"
  "HasFlag w PhaseShiftFlags_Inverse \<longleftrightarrow> bit w 1"
  "HasFlag w PhaseShiftFlags_InverseUnphased \<longleftrightarrow> bit w 2"
  "HasFlag w PhaseShiftFlags_Unphased \<longleftrightarrow> bit w 3"
  "HasFlag w PhaseShiftFlags_NoCosmetic \<longleftrightarrow> bit w 4"
  using HasFlag_exp [of w 0] HasFlag_exp [of w 1] HasFlag_exp [of w 2] HasFlag_exp [of w 3] HasFlag_exp [of w 4]
  by (simp_all add: phase_flag_defs)

lemma phase_shift_bit_flags [simp]:
  "bit PhaseShiftFlags_AlwaysVisible k \<longleftrightarrow> k = 0"
  "bit PhaseShiftFlags_Inverse k \<longleftrightarrow> k = 1"
  "bit PhaseShiftFlags_InverseUnphased k \<longleftrightarrow> k = 2"
  "bit PhaseShiftFlags_Unphased k \<longleftrightarrow> k = 3"
  "bit PhaseShiftFlags_NoCosmetic k \<longleftrightarrow> k = 4"
proof -
  have *: "bit ((2 :: u32) ^ n) k \<longleftrightarrow> k = n" if "n < 32" for n
    using that by (auto simp: bit_exp_iff)
  from *[of 0] *[of 1] *[of 2] *[of 3] *[of 4]
  show "bit PhaseShiftFlags_AlwaysVisible k \<longleftrightarrow> k = 0"
  "bit PhaseShiftFlags_Inverse k \<longleftrightarrow> k = 1"
  "bit PhaseShiftFlags_InverseUnphased k \<longleftrightarrow> k = 2"
  "bit PhaseShiftFlags_Unphased k \<longleftrightarrow> k = 3"
  "bit PhaseShiftFlags_NoCosmetic k \<longleftrightarrow> k = 4"
    by (simp_all add: phase_flag_defs)
qed

lemma bit_flag_not: "bit (NOT (w :: u32)) k \<longleftrightarrow> k < 32 \<and> \<not> bit w k"
  by (simp add: bit_not_iff)

lemmas flag_bits = bit_flag_not bit_or_iff bit_and_iff

section \<open>The reference counters\<close>

definition refs_of :: "(phase_ref \<Rightarrow> bool) \<Rightarrow> phase_ref list \<Rightarrow> int" where
  "refs_of P ps = (\<Sum>p \<leftarrow> filter P ps. pr_References p)"

lemma refs_of_simps [simp]:
  "refs_of P [] = 0"
  "refs_of P (p # ps) = (if P p then pr_References p else 0) + refs_of P ps"
  "refs_of P (ps @ qs) = refs_of P ps + refs_of P qs"
  by (simp_all add: refs_of_def)

definition is_cosmetic :: "phase_ref \<Rightarrow> bool" where
  "is_cosmetic p \<longleftrightarrow> HasFlag (pr_Flags p) PhaseFlags_Cosmetic"

definition is_personal :: "phase_ref \<Rightarrow> bool" where
  "is_personal p \<longleftrightarrow> HasFlag (pr_Flags p) PhaseFlags_Personal"

definition is_noncosmetic :: "phase_ref \<Rightarrow> bool" where
  "is_noncosmetic p \<longleftrightarrow> \<not> is_cosmetic p \<and> pr_Id p \<noteq> DEFAULT_PHASE"

definition is_default :: "phase_ref \<Rightarrow> bool" where
  "is_default p \<longleftrightarrow> \<not> is_cosmetic p \<and> pr_Id p = DEFAULT_PHASE"

definition class_of :: "(phase_ref \<Rightarrow> bool) \<Rightarrow> bool" where
  "class_of P \<longleftrightarrow> (\<forall>x r. P (x\<lparr>pr_References := r\<rparr>) = P x)"

lemma classes [simp]: "class_of is_cosmetic" "class_of is_personal" "class_of is_noncosmetic" "class_of is_default"
  by (auto simp: class_of_def is_cosmetic_def is_personal_def is_noncosmetic_def is_default_def)

lemma fs_modify_simps [simp]:
  "fs_modify key k f [] = []"
  "fs_modify key k f (x # s) = (if key x = k then f x else x) # fs_modify key k f s"
  by (simp_all add: fs_modify_def)

lemma fs_modify_ok:
  "(\<And>x. key (f x) = key x) \<Longrightarrow> fs_ok key (fs_modify key k f s) = fs_ok key s"
  by (simp add: fs_modify_def fs_ok_def sorted_wrt_map if_distrib cong: if_cong)

lemma fs_modify_absent: "k \<notin> key ` set s \<Longrightarrow> fs_modify key k f s = s"
  by (induction s) auto

lemma refs_of_modify:
  "class_of P \<Longrightarrow> fs_ok pr_Id ps \<Longrightarrow> p \<in> set ps \<Longrightarrow>
   refs_of P (fs_modify pr_Id (pr_Id p) (\<lambda>x. x\<lparr>pr_References := pr_References x + r\<rparr>) ps)
     = refs_of P ps + (if P p then r else 0)"
proof (induction ps)
  case (Cons q ps)
  have absent: "p = q \<Longrightarrow> fs_modify pr_Id (pr_Id p) (\<lambda>x. x\<lparr>pr_References := pr_References x + r\<rparr>) ps = ps"
    using Cons.prems by (intro fs_modify_absent) auto
  have "p \<noteq> q \<Longrightarrow> pr_Id q \<noteq> pr_Id p" using Cons.prems by auto
  with Cons absent show ?case by (cases "p = q") (auto simp: class_of_def)
qed simp

definition ps_counts :: "phase_shift \<Rightarrow> bool" where
  "ps_counts s \<longleftrightarrow> ps_CosmeticReferences s = refs_of is_cosmetic (ps_Phases s)
     \<and> ps_NonCosmeticReferences s = refs_of is_noncosmetic (ps_Phases s)
     \<and> ps_DefaultReferences s = refs_of is_default (ps_Phases s)
     \<and> ps_PersonalReferences s = refs_of is_personal (ps_Phases s)"

definition ps_unphased :: "phase_shift \<Rightarrow> bool" where
  "ps_unphased s \<longleftrightarrow> \<not> (ps_NonCosmeticReferences s \<noteq> 0 \<and> ps_DefaultReferences s = 0)"

definition ps_flags_ok :: "phase_shift \<Rightarrow> bool" where
  "ps_flags_ok s \<longleftrightarrow> (HasFlag (ps_Flags s) PhaseShiftFlags_NoCosmetic \<longleftrightarrow> ps_CosmeticReferences s \<noteq> 0)
     \<and> (HasFlag (ps_Flags s) PhaseShiftFlags_Unphased
          \<longleftrightarrow> \<not> HasFlag (ps_Flags s) PhaseShiftFlags_Inverse \<and> ps_unphased s)
     \<and> (HasFlag (ps_Flags s) PhaseShiftFlags_InverseUnphased
          \<longleftrightarrow> HasFlag (ps_Flags s) PhaseShiftFlags_Inverse \<and> ps_unphased s)
     \<and> (ps_PersonalReferences s = 0 \<longrightarrow> ps_PersonalGuid s = 0)"

definition ps_inv :: "phase_shift \<Rightarrow> bool" where
  "ps_inv s \<longleftrightarrow> \<not> ps_IsDbPhaseShift s \<and> fs_ok pr_Id (ps_Phases s) \<and> ps_counts s \<and> ps_flags_ok s"

lemma UpdateUnphasedFlag_fields [simp]:
  "ps_Phases (UpdateUnphasedFlag s) = ps_Phases s"
  "ps_PersonalGuid (UpdateUnphasedFlag s) = ps_PersonalGuid s"
  "ps_CosmeticReferences (UpdateUnphasedFlag s) = ps_CosmeticReferences s"
  "ps_NonCosmeticReferences (UpdateUnphasedFlag s) = ps_NonCosmeticReferences s"
  "ps_DefaultReferences (UpdateUnphasedFlag s) = ps_DefaultReferences s"
  "ps_PersonalReferences (UpdateUnphasedFlag s) = ps_PersonalReferences s"
  "ps_IsDbPhaseShift (UpdateUnphasedFlag s) = ps_IsDbPhaseShift s"
  by (simp_all add: UpdateUnphasedFlag_def Let_def)

lemma UpdateUnphasedFlag_bits [simp]:
  "bit (ps_Flags (UpdateUnphasedFlag s)) 0 = bit (ps_Flags s) 0"
  "bit (ps_Flags (UpdateUnphasedFlag s)) (Suc 0) = bit (ps_Flags s) (Suc 0)"
  "bit (ps_Flags (UpdateUnphasedFlag s)) 4 = bit (ps_Flags s) 4"
  "bit (ps_Flags (UpdateUnphasedFlag s)) 3 \<longleftrightarrow> \<not> bit (ps_Flags s) 1 \<and> ps_unphased s"
  "bit (ps_Flags (UpdateUnphasedFlag s)) 2 \<longleftrightarrow> bit (ps_Flags s) 1 \<and> ps_unphased s"
  by (auto simp: UpdateUnphasedFlag_def Let_def flag_bits ps_unphased_def)

lemma UpdatePersonalGuid_fields [simp]:
  "ps_Phases (UpdatePersonalGuid s) = ps_Phases s"
  "ps_Flags (UpdatePersonalGuid s) = ps_Flags s"
  "ps_CosmeticReferences (UpdatePersonalGuid s) = ps_CosmeticReferences s"
  "ps_NonCosmeticReferences (UpdatePersonalGuid s) = ps_NonCosmeticReferences s"
  "ps_DefaultReferences (UpdatePersonalGuid s) = ps_DefaultReferences s"
  "ps_PersonalReferences (UpdatePersonalGuid s) = ps_PersonalReferences s"
  "ps_IsDbPhaseShift (UpdatePersonalGuid s) = ps_IsDbPhaseShift s"
  "ps_PersonalReferences s = 0 \<Longrightarrow> ps_PersonalGuid (UpdatePersonalGuid s) = 0"
  by (simp_all add: UpdatePersonalGuid_def)

lemma ps_unphased_cong [simp]:
  "ps_unphased (UpdatePersonalGuid s) = ps_unphased s"
  "ps_unphased (UpdateUnphasedFlag s) = ps_unphased s"
  "ps_unphased (s\<lparr>ps_Flags := f\<rparr>) = ps_unphased s"
  by (simp_all add: ps_unphased_def)

lemma ModifyPhasesReferences_Phases:
  "ps_Phases (ModifyPhasesReferences p r s) =
     fs_modify pr_Id (pr_Id p) (\<lambda>x. x\<lparr>pr_References := pr_References x + r\<rparr>) (ps_Phases s)"
  by (simp add: ModifyPhasesReferences_def Let_def)

lemma ModifyPhasesReferences_db [simp]:
  "ps_IsDbPhaseShift (ModifyPhasesReferences p r s) = ps_IsDbPhaseShift s"
  by (simp add: ModifyPhasesReferences_def Let_def)

lemma ModifyPhasesReferences_counts:
  assumes "\<not> ps_IsDbPhaseShift s" "fs_ok pr_Id (ps_Phases s)" "p \<in> set (ps_Phases s)" "ps_counts s"
  shows "ps_counts (ModifyPhasesReferences p r s)"
  using assms(1,4) refs_of_modify [OF _ assms(2,3)]
  by (auto simp: ps_counts_def ModifyPhasesReferences_def Let_def is_cosmetic_def [symmetric]
      is_personal_def [symmetric] is_noncosmetic_def is_default_def)

lemma ModifyPhasesReferences_flags:
  "\<not> ps_IsDbPhaseShift s \<Longrightarrow> ps_flags_ok (ModifyPhasesReferences p r s)"
  by (auto simp: ps_flags_ok_def ModifyPhasesReferences_def Let_def flag_bits)

lemma ModifyPhasesReferences_inv:
  assumes "\<not> ps_IsDbPhaseShift s" "fs_ok pr_Id (ps_Phases s)" "p \<in> set (ps_Phases s)" "ps_counts s"
  shows "ps_inv (ModifyPhasesReferences p r s)"
  using assms by (simp add: ps_inv_def ModifyPhasesReferences_counts ModifyPhasesReferences_flags
      ModifyPhasesReferences_Phases fs_modify_ok)

lemma fs_find_modified:
  assumes "fs_ok pr_Id ps" "fs_find pr_Id k ps = Some p"
  shows "p \<in> set ps" "pr_Id p = k"
  using assms by (simp_all add: fs_find_iff)

lemma PhaseShift_AddPhase_inv:
  assumes i: "ps_inv s"
  shows "ps_inv (snd (PhaseShift_AddPhase phaseId flags conds r s))"
proof -
  define e where "e = PhaseRef phaseId flags None"
  have e: "pr_Id e = ucast phaseId" "pr_References e = 0" by (simp_all add: e_def PhaseRef_def)
  define ps where "ps = fst (fs_emplace pr_Id e (ps_Phases s))"
  have ok: "fs_ok pr_Id (ps_Phases s)" using i by (simp add: ps_inv_def)
  have emp: "fs_ok pr_Id ps \<and> (\<forall>P. refs_of P ps = refs_of P (ps_Phases s)) \<and> (\<exists>p. fs_find pr_Id (ucast phaseId) ps = Some p)"
  proof (cases "fs_find pr_Id (pr_Id e) (ps_Phases s)")
    case None
    then obtain a b where ab: "ps_Phases s = a @ b" "ps = a @ e # b" "fs_ok pr_Id ps"
      using fs_emplace_absent [OF ok None] unfolding ps_def by (metis fst_conv)
    moreover have "fs_find pr_Id (ucast phaseId) ps = Some e"
      using ab e by (simp add: fs_find_iff)
    ultimately show ?thesis using e by auto
  next
    case (Some p)
    then have "ps = ps_Phases s" using fs_emplace_present [OF ok Some] by (simp add: ps_def)
    with Some e ok show ?thesis by auto
  qed
  then obtain p where p: "fs_find pr_Id (ucast phaseId) ps = Some p" by blast
  let ?s = "s\<lparr>ps_Phases := ps\<rparr>"
  have "\<not> ps_IsDbPhaseShift ?s" "fs_ok pr_Id (ps_Phases ?s)" "p \<in> set (ps_Phases ?s)" "ps_counts ?s"
    using i emp p by (auto simp: ps_inv_def ps_counts_def fs_find_iff)
  then have inv: "ps_inv (ModifyPhasesReferences p r ?s)" by (rule ModifyPhasesReferences_inv)
  have cond: "ps_inv (t\<lparr>ps_Phases := fs_modify pr_Id k (\<lambda>x. x\<lparr>pr_AreaConditions := conds\<rparr>) (ps_Phases t)\<rparr>)"
    if "ps_inv t" for t k
  proof -
    have "refs_of P (fs_modify pr_Id k (\<lambda>x. x\<lparr>pr_AreaConditions := conds\<rparr>) qs) = refs_of P qs"
      if "\<And>x c. P (x\<lparr>pr_AreaConditions := c\<rparr>) = P x" for P qs
      using that by (induction qs) auto
    with that show ?thesis
      by (simp add: ps_inv_def ps_counts_def ps_flags_ok_def ps_unphased_def fs_modify_ok
          is_cosmetic_def is_personal_def is_noncosmetic_def is_default_def)
  qed
  show ?thesis using inv cond [OF inv] p
    by (simp add: PhaseShift_AddPhase_def e_def [symmetric] ps_def split_def Let_def)
qed

lemma refs_of_erase:
  assumes "fs_ok pr_Id ps" "fs_find pr_Id k ps = Some p" "pr_References p = 0"
  shows "fs_ok pr_Id (fs_erase pr_Id k ps)" "refs_of P (fs_erase pr_Id k ps) = refs_of P ps"
proof -
  obtain a b where "ps = a @ p # b" "fs_erase pr_Id k ps = a @ b" "fs_ok pr_Id (a @ b)"
    using fs_erase_present [OF assms(1,2)] by metis
  with assms(3) show "fs_ok pr_Id (fs_erase pr_Id k ps)" "refs_of P (fs_erase pr_Id k ps) = refs_of P ps"
    by simp_all
qed

lemma fs_find_fs_modify:
  assumes "fs_ok pr_Id ps" "fs_find pr_Id k ps = Some p" and that: "\<And>x. pr_Id (f x) = pr_Id x"
  shows "fs_find pr_Id k (fs_modify pr_Id k f ps) = Some (f p)"
proof -
  have "p \<in> set ps" "pr_Id p = k" using assms by (simp_all add: fs_find_iff)
  then have "f p \<in> set (fs_modify pr_Id k f ps)" by (auto simp: fs_modify_def)
  with assms that \<open>pr_Id p = k\<close> show ?thesis by (simp add: fs_find_iff fs_modify_ok)
qed

lemma PhaseShift_RemovePhase_inv:
  assumes i: "ps_inv s"
  shows "ps_inv (snd (PhaseShift_RemovePhase phaseId s))"
proof (cases "fs_find pr_Id (ucast phaseId) (ps_Phases s)")
  case (Some p)
  have ok: "fs_ok pr_Id (ps_Phases s)" using i by (simp add: ps_inv_def)
  have p: "p \<in> set (ps_Phases s)" "pr_Id p = ucast phaseId" using Some ok by (simp_all add: fs_find_iff)
  let ?s = "ModifyPhasesReferences p (-1) s"
  have inv: "ps_inv ?s" using i ok p by (intro ModifyPhasesReferences_inv) (simp_all add: ps_inv_def)
  have "fs_find pr_Id (pr_Id p) (ps_Phases ?s) = Some (p\<lparr>pr_References := pr_References p + -1\<rparr>)"
    unfolding ModifyPhasesReferences_Phases by (rule fs_find_fs_modify) (use ok Some p in auto)
  then have "ps_inv (?s\<lparr>ps_Phases := fs_erase pr_Id (pr_Id p) (ps_Phases ?s)\<rparr>)" if "pr_References p - 1 = 0"
    using inv that refs_of_erase [of "ps_Phases ?s" "pr_Id p"]
    by (simp add: ps_inv_def ps_counts_def ps_flags_ok_def ps_unphased_def)
  with inv Some show ?thesis by (simp add: PhaseShift_RemovePhase_def Let_def)
qed (use i in \<open>simp add: PhaseShift_RemovePhase_def\<close>)

end
