(* ===== verification/PhasingHandler.thy ===== *)
theory PhasingHandler imports PhaseShift begin

text \<open>
  The operations of \<^verbatim>\<open>src/src/server/game/Phasing/PhasingHandler.cpp\<close> that set the phase shift of
  one object: the flags set by auras and scripts, the personal owner, and the shifts built from database
  spawns. The client data stores (\<^verbatim>\<open>sPhaseStore\<close>, \<^verbatim>\<open>sDB2Manager\<close>) and the terrain information are
  parameters; visibility updates sent to clients are not modelled.
\<close>

section \<open>Operations\<close>

definition PhaseEntryFlags_Cosmetic :: u16 where "PhaseEntryFlags_Cosmetic = 0x10"
definition PhaseEntryFlags_Personal :: u16 where "PhaseEntryFlags_Personal = 0x20"

text \<open>\<open>sPhaseStore\<close> gives the flags of a phase entry.\<close>

definition GetPhaseFlags :: "(u32 \<Rightarrow> u16 option) \<Rightarrow> u32 \<Rightarrow> u16" where
  "GetPhaseFlags sPhaseStore phaseId =
     (case sPhaseStore phaseId of
        None \<Rightarrow> PhaseFlags_None
      | Some flags \<Rightarrow>
          if HasFlag flags PhaseEntryFlags_Cosmetic then PhaseFlags_Cosmetic
          else if HasFlag flags PhaseEntryFlags_Personal then PhaseFlags_Personal
          else PhaseFlags_None)"

definition IsPersonalPhase :: "(u32 \<Rightarrow> u16 option) \<Rightarrow> u32 \<Rightarrow> bool" where
  "IsPersonalPhase sPhaseStore phaseId =
     (case sPhaseStore phaseId of None \<Rightarrow> False | Some flags \<Rightarrow> HasFlag flags PhaseEntryFlags_Personal)"

text \<open>The part of \<^verbatim>\<open>AddPhase\<close>, \<^verbatim>\<open>RemovePhase\<close> and their group versions that acts on one object's shift.\<close>

definition set_personal_guid :: "nat \<Rightarrow> phase_shift \<Rightarrow> phase_shift" where
  "set_personal_guid personalGuid s = (if ps_PersonalReferences s \<noteq> 0 then s\<lparr>ps_PersonalGuid := personalGuid\<rparr> else s)"

definition PhasingHandler_AddPhase :: "(u32 \<Rightarrow> u16 option) \<Rightarrow> u32 \<Rightarrow> nat \<Rightarrow> phase_shift \<Rightarrow> bool \<times> phase_shift" where
  "PhasingHandler_AddPhase sPhaseStore phaseId personalGuid s =
     (let (changed, s) = PhaseShift_AddPhase phaseId (GetPhaseFlags sPhaseStore phaseId) None 1 s
      in (changed, set_personal_guid personalGuid s))"

definition PhasingHandler_RemovePhase :: "u32 \<Rightarrow> phase_shift \<Rightarrow> bool \<times> phase_shift" where
  "PhasingHandler_RemovePhase phaseId s =
     (let (r, s) = PhaseShift_RemovePhase phaseId s in (r = ErErased, s))"

fun add_phases :: "(u32 \<Rightarrow> u16 option) \<Rightarrow> u32 list \<Rightarrow> bool \<Rightarrow> phase_shift \<Rightarrow> bool \<times> phase_shift" where
  "add_phases sPhaseStore [] changed s = (changed, s)"
| "add_phases sPhaseStore (phaseId # ids) changed s =
     (let (c, s) = PhaseShift_AddPhase phaseId (GetPhaseFlags sPhaseStore phaseId) None 1 s
      in add_phases sPhaseStore ids (c \<or> changed) s)"

definition PhasingHandler_AddPhaseGroup ::
  "(u32 \<Rightarrow> u16 option) \<Rightarrow> u32 list \<Rightarrow> nat \<Rightarrow> phase_shift \<Rightarrow> bool \<times> phase_shift" where
  "PhasingHandler_AddPhaseGroup sPhaseStore phasesInGroup personalGuid s =
     (let (changed, s) = add_phases sPhaseStore phasesInGroup False s
      in (changed, set_personal_guid personalGuid s))"

fun remove_phases :: "u32 list \<Rightarrow> bool \<Rightarrow> phase_shift \<Rightarrow> bool \<times> phase_shift" where
  "remove_phases [] changed s = (changed, s)"
| "remove_phases (phaseId # ids) changed s =
     (let (r, s) = PhaseShift_RemovePhase phaseId s in remove_phases ids (r = ErErased \<or> changed) s)"

definition PhasingHandler_RemovePhaseGroup :: "u32 list \<Rightarrow> phase_shift \<Rightarrow> bool \<times> phase_shift" where
  "PhasingHandler_RemovePhaseGroup phasesInGroup s = remove_phases phasesInGroup False s"

definition SetAlwaysVisible :: "bool \<Rightarrow> phase_shift \<Rightarrow> phase_shift" where
  "SetAlwaysVisible on s =
     (if on then s\<lparr>ps_Flags := ps_Flags s OR PhaseShiftFlags_AlwaysVisible\<rparr>
      else s\<lparr>ps_Flags := ps_Flags s AND NOT PhaseShiftFlags_AlwaysVisible\<rparr>)"

definition SetInversed :: "bool \<Rightarrow> phase_shift \<Rightarrow> phase_shift" where
  "SetInversed on s =
     UpdateUnphasedFlag
       (if on then s\<lparr>ps_Flags := ps_Flags s OR PhaseShiftFlags_Inverse\<rparr>
        else s\<lparr>ps_Flags := ps_Flags s AND PhaseShiftFlags_Inverse\<rparr>)"

definition PHASE_USE_FLAGS_ALWAYS_VISIBLE :: u8 where "PHASE_USE_FLAGS_ALWAYS_VISIBLE = 0x1"
definition PHASE_USE_FLAGS_INVERSE :: u8 where "PHASE_USE_FLAGS_INVERSE = 0x2"

definition InitDbPhaseShift ::
  "(u32 \<Rightarrow> u16 option) \<Rightarrow> (u32 \<Rightarrow> u32 list option) \<Rightarrow> u8 \<Rightarrow> u16 \<Rightarrow> u32 \<Rightarrow> phase_shift \<Rightarrow> phase_shift" where
  "InitDbPhaseShift sPhaseStore GetPhasesForGroup phaseUseFlags phaseId phaseGroupId s =
     (let s = (PhaseShift_ClearPhases s)\<lparr>ps_IsDbPhaseShift := True\<rparr>;
          flags = 0;
          flags = (if phaseUseFlags AND PHASE_USE_FLAGS_ALWAYS_VISIBLE \<noteq> 0
                   then flags OR PhaseShiftFlags_AlwaysVisible OR PhaseShiftFlags_Unphased else flags);
          flags = (if phaseUseFlags AND PHASE_USE_FLAGS_INVERSE \<noteq> 0
                   then flags OR PhaseShiftFlags_Inverse else flags);
          s = (if phaseId \<noteq> 0 then snd (add_phases sPhaseStore [ucast phaseId] False s)
               else case GetPhasesForGroup phaseGroupId of
                      None \<Rightarrow> s
                    | Some phasesInGroup \<Rightarrow> snd (add_phases sPhaseStore phasesInGroup False s));
          flags = (if ps_Phases s = [] \<or> PhaseShift_HasPhase (ucast DEFAULT_PHASE) s
                   then if HasFlag flags PhaseShiftFlags_Inverse
                        then flags OR PhaseShiftFlags_InverseUnphased
                        else flags OR PhaseShiftFlags_Unphased
                   else flags)
      in s\<lparr>ps_Flags := flags\<rparr>)"

text \<open>\<open>None\<close> is a failed assertion.\<close>

definition InitDbPersonalOwnership :: "nat \<Rightarrow> phase_shift \<Rightarrow> phase_shift option" where
  "InitDbPersonalOwnership personalGuid s =
     (if \<not> ps_IsDbPhaseShift s then None
      else if \<not> PhaseShift_HasPersonalPhase s then None
      else Some (s\<lparr>ps_PersonalGuid := personalGuid\<rparr>))"

definition InitDbVisibleMapId :: "(int \<Rightarrow> nat option) \<Rightarrow> int \<Rightarrow> phase_shift \<Rightarrow> phase_shift" where
  "InitDbVisibleMapId GetTerrainSwapInfo visibleMapId s =
     (let s = s\<lparr>ps_VisibleMapIds := []\<rparr>
      in if visibleMapId \<noteq> -1
         then snd (PhaseShift_AddVisibleMapId (word_of_int visibleMapId) (GetTerrainSwapInfo visibleMapId) 1 s)
         else s)"

definition InDbPhaseShift ::
  "(u32 \<Rightarrow> u16 option) \<Rightarrow> (u32 \<Rightarrow> u32 list option) \<Rightarrow> phase_shift \<Rightarrow> u8 \<Rightarrow> u16 \<Rightarrow> u32 \<Rightarrow> bool" where
  "InDbPhaseShift sPhaseStore GetPhasesForGroup objectShift phaseUseFlags phaseId phaseGroupId =
     PhaseShift_CanSee objectShift
       (InitDbPhaseShift sPhaseStore GetPhasesForGroup phaseUseFlags phaseId phaseGroupId PhaseShift_new)"

text \<open>\<open>HasChild\<close> stands for \<^verbatim>\<open>terrain->HasChildTerrainGridFile(id, gx, gy)\<close> at the coordinates asked for.\<close>

definition GetTerrainMapId :: "(u32 \<Rightarrow> bool) \<Rightarrow> phase_shift \<Rightarrow> u32 \<Rightarrow> u32" where
  "GetTerrainMapId HasChild s mapId =
     (if ps_VisibleMapIds s = [] then mapId
      else if length (ps_VisibleMapIds s) = 1 then fst (hd (ps_VisibleMapIds s))
      else case find (\<lambda>(k, _). HasChild k) (ps_VisibleMapIds s) of
             Some (k, _) \<Rightarrow> k
           | None \<Rightarrow> mapId)"

section \<open>The counters are always the sums over the phases\<close>

inductive ps_step :: "phase_shift \<Rightarrow> phase_shift \<Rightarrow> bool" where
  add: "ps_step s (snd (PhaseShift_AddPhase i f c r s))"
| remove: "ps_step s (snd (PhaseShift_RemovePhase i s))"
| add_map: "ps_step s (snd (PhaseShift_AddVisibleMapId m info r s))"
| remove_map: "ps_step s (snd (PhaseShift_RemoveVisibleMapId m s))"
| add_swap: "ps_step s (snd (PhaseShift_AddUiWorldMapAreaIdSwap a r s))"
| remove_swap: "ps_step s (snd (PhaseShift_RemoveUiWorldMapAreaIdSwap a s))"
| clear_phases: "ps_step s (PhaseShift_ClearPhases s)"
| clear: "ps_step s (PhaseShift_Clear s)"
| always_visible: "ps_step s (SetAlwaysVisible b s)"
| inversed: "ps_step s (SetInversed True s)"
| personal: "ps_step s (set_personal_guid g s)"

inductive ps_reachable :: "phase_shift \<Rightarrow> bool" where
  start: "ps_reachable PhaseShift_new"
| step: "ps_reachable s \<Longrightarrow> ps_step s s' \<Longrightarrow> ps_reachable s'"

lemma ps_inv_cong:
  "ps_inv s \<Longrightarrow> ps_inv (s\<lparr>ps_VisibleMapIds := v\<rparr>)"
  "ps_inv s \<Longrightarrow> ps_inv (s\<lparr>ps_UiWorldMapAreaIdSwaps := w\<rparr>)"
  by (simp_all add: ps_inv_def ps_counts_def ps_flags_ok_def ps_unphased_def)

lemma ps_inv_clear_phases: "ps_inv s \<Longrightarrow> ps_inv (PhaseShift_ClearPhases s)"
  by (simp add: ps_inv_def ps_counts_def ps_flags_ok_def PhaseShift_ClearPhases_def flag_bits)

lemma ps_step_inv: "ps_step s s' \<Longrightarrow> ps_inv s \<Longrightarrow> ps_inv s'"
proof (induction rule: ps_step.induct)
  case (inversed s)
  then show ?case by (auto simp: ps_inv_def ps_counts_def ps_flags_ok_def SetInversed_def flag_bits)
next
  case (always_visible s b)
  then show ?case
    by (auto simp: ps_inv_def ps_counts_def ps_flags_ok_def ps_unphased_def SetAlwaysVisible_def flag_bits)
next
  case (personal s g)
  then show ?case
    by (auto simp: ps_inv_def ps_counts_def ps_flags_ok_def ps_unphased_def set_personal_guid_def)
qed (auto simp: PhaseShift_AddVisibleMapId_def PhaseShift_RemoveVisibleMapId_def
    PhaseShift_AddUiWorldMapAreaIdSwap_def PhaseShift_RemoveUiWorldMapAreaIdSwap_def PhaseShift_Clear_def
    split: option.splits
    intro: PhaseShift_AddPhase_inv PhaseShift_RemovePhase_inv ps_inv_cong ps_inv_clear_phases)

text \<open>
  C18: In every phase shift reachable by adding and removing phases and maps, by making it always
  visible or not and by inversing it (database shifts and the faulty un-inversing aside), the four counters are the sums of the references of the phases of their class, and the
  flags \<^verbatim>\<open>Unphased\<close>, \<^verbatim>\<open>InverseUnphased\<close> and \<^verbatim>\<open>NoCosmetic\<close> say what the counters say.
\<close>

theorem PhaseShift_reachable_inv: "ps_reachable s \<Longrightarrow> ps_inv s"
proof (induction rule: ps_reachable.induct)
  case start
  have "fs_ok pr_Id ([] :: phase_ref list)" by simp
  then show ?case
    by (simp add: ps_inv_def ps_counts_def ps_flags_ok_def ps_unphased_def PhaseShift_new_def)
qed (blast intro: ps_step_inv)

lemma PhaseShift_reachable_inv_witness:
  "ps_inv (snd (PhaseShift_RemovePhase 5 (snd (PhaseShift_AddPhase 7 PhaseFlags_Cosmetic None 2
     (SetInversed True PhaseShift_new)))))"
  by (intro PhaseShift_reachable_inv ps_reachable.step [OF _ ps_step.remove] ps_reachable.step [OF _ ps_step.add]
      ps_reachable.step [OF _ ps_step.inversed] ps_reachable.start)

section \<open>Visibility\<close>

text \<open>
  Two objects agree on whether they see each other, provided the phases they share carry the same
  flags (the flags come from the client data of the phase).
\<close>

theorem CanSee_symmetric:
  assumes "fs_ok pr_Id (ps_Phases a)" "fs_ok pr_Id (ps_Phases b)"
    "\<forall>p \<in> set (ps_Phases a). \<forall>q \<in> set (ps_Phases b). pr_Id p = pr_Id q \<longrightarrow> pr_Flags p = pr_Flags q"
  shows "PhaseShift_CanSee a b = PhaseShift_CanSee b a"
proof -
  have "Intersects pr_Id (\<lambda>p _. \<not> HasFlag (pr_Flags p) x \<and>
        (\<not> HasFlag (pr_Flags p) PhaseFlags_Personal \<or> ps_PersonalGuid a = ps_PersonalGuid b)) (ps_Phases a) (ps_Phases b) =
      Intersects pr_Id (\<lambda>p _. \<not> HasFlag (pr_Flags p) x \<and>
        (\<not> HasFlag (pr_Flags p) PhaseFlags_Personal \<or> ps_PersonalGuid b = ps_PersonalGuid a)) (ps_Phases b) (ps_Phases a)" for x
    using assms by (simp add: Intersects_iff) metis
  then show ?thesis by (auto simp: PhaseShift_CanSee_def Let_def conj_commute)
qed

lemma CanSee_symmetric_witness:
  "let a = snd (PhaseShift_AddPhase 5 0 None 1 PhaseShift_new);
       b = snd (PhaseShift_AddPhase 7 1 None 1 (SetInversed True PhaseShift_new))
   in PhaseShift_CanSee a b = PhaseShift_CanSee b a"
  unfolding Let_def
  by (rule CanSee_symmetric)
     (simp_all add: PhaseShift_AddPhase_def PhaseShift_new_def fs_emplace_def fs_lower_bound_def PhaseRef_def fs_find_def
       ModifyPhasesReferences_Phases SetInversed_def)

lemma ucast_u16_u32 [simp]: "ucast (ucast (x :: u16) :: u32) = x"
  by (rule bit_word_eqI) (simp add: bit_ucast_iff)

lemma add_phases_db_single:
  assumes "ps_IsDbPhaseShift s" "ps_Phases s = []"
  shows "ps_Phases (snd (add_phases st [i] False s)) =
      [\<lparr>pr_Id = ucast i, pr_Flags = GetPhaseFlags st i, pr_References = 1, pr_AreaConditions = None\<rparr>]"
  using assms by (simp add: PhaseShift_AddPhase_def fs_emplace_def fs_lower_bound_def PhaseRef_def fs_find_def
      ModifyPhasesReferences_Phases)

lemma ModifyPhasesReferences_guid_db [simp]:
  "ps_IsDbPhaseShift s \<Longrightarrow> ps_PersonalGuid (ModifyPhasesReferences p r s) = ps_PersonalGuid s"
  by (simp add: ModifyPhasesReferences_def Let_def)

lemma add_phases_db_guid:
  "ps_IsDbPhaseShift s \<Longrightarrow> ps_PersonalGuid (snd (add_phases st is c s)) = ps_PersonalGuid s
     \<and> ps_IsDbPhaseShift (snd (add_phases st is c s))"
  by (induction st "is" c s rule: add_phases.induct)
     (auto simp: PhaseShift_AddPhase_def split_def Let_def split: option.splits)

text \<open>
  A database spawn with one phase is visible to a phased object that is neither inverse nor always
  visible exactly when the object is in that phase, a personal phase only when the object has no owner guid.
\<close>

theorem InDbPhaseShift_single:
  assumes "ps_inv s" "\<not> HasFlag (ps_Flags s) PhaseShiftFlags_Inverse"
    "\<not> HasFlag (ps_Flags s) PhaseShiftFlags_AlwaysVisible" "phaseId \<noteq> 0" "phaseId \<noteq> DEFAULT_PHASE"
  shows "InDbPhaseShift st grp s 0 phaseId g \<longleftrightarrow>
    (\<exists>p \<in> set (ps_Phases s). pr_Id p = phaseId \<and>
       (HasFlag (pr_Flags p) PhaseFlags_Personal \<longrightarrow> ps_PersonalGuid s = 0))"
proof -
  let ?c = "(PhaseShift_ClearPhases PhaseShift_new)\<lparr>ps_IsDbPhaseShift := True\<rparr>"
  let ?d = "InitDbPhaseShift st grp 0 phaseId g PhaseShift_new"
  have "ps_Phases ?c = []" "ps_PersonalGuid ?c = 0" by (simp_all add: PhaseShift_ClearPhases_def)
  then have d: "ps_Phases ?d = [\<lparr>pr_Id = phaseId, pr_Flags = GetPhaseFlags st (ucast phaseId), pr_References = 1,
      pr_AreaConditions = None\<rparr>]" "ps_PersonalGuid ?d = 0"
    using add_phases_db_single [of ?c st "ucast phaseId"] add_phases_db_guid [of ?c st "[ucast phaseId]" False] assms(4)
    by (simp_all add: InitDbPhaseShift_def Let_def)
  have f: "ps_Flags ?d = 0"
    using add_phases_db_single [of ?c st "ucast phaseId"] assms(4,5)  \<open>ps_Phases ?c = []\<close>
    by (simp add: InitDbPhaseShift_def Let_def PhaseShift_HasPhase_def fs_find_def fs_lower_bound_def DEFAULT_PHASE_def
        split: list.splits)
  have ok: "fs_ok pr_Id (ps_Phases s)" "fs_ok pr_Id (ps_Phases ?d)" using assms(1) d by (simp_all add: ps_inv_def)
  have "InDbPhaseShift st grp s 0 phaseId g = Intersects pr_Id (\<lambda>p _. \<not> HasFlag (pr_Flags p) PhaseFlags_None \<and>
      (\<not> HasFlag (pr_Flags p) PhaseFlags_Personal \<or> ps_PersonalGuid s = ps_PersonalGuid ?d)) (ps_Phases s) (ps_Phases ?d)"
    using assms(2,3) f by (simp add: InDbPhaseShift_def PhaseShift_CanSee_def Let_def)
  then show ?thesis using d ok by (auto simp: Intersects_iff HasFlag_def PhaseFlags_None_def)
qed

lemma InDbPhaseShift_single_witness:
  "InDbPhaseShift (\<lambda>_. None) (\<lambda>_. None) PhaseShift_new 0 5 0 \<longleftrightarrow>
    (\<exists>p \<in> set (ps_Phases PhaseShift_new). pr_Id p = 5 \<and>
       (HasFlag (pr_Flags p) PhaseFlags_Personal \<longrightarrow> ps_PersonalGuid PhaseShift_new = 0))"
  by (rule InDbPhaseShift_single)
     (simp_all add: ps_inv_def ps_counts_def ps_flags_ok_def ps_unphased_def PhaseShift_new_def DEFAULT_PHASE_def)

text \<open>
  Once set, the inverse flag cannot be cleared: \<^verbatim>\<open>SetInversed(object, false)\<close> masks the flags with
  \<^verbatim>\<open>Inverse\<close> instead of its complement. The flag stays, \<^verbatim>\<open>AlwaysVisible\<close> is lost, and so is
  \<^verbatim>\<open>NoCosmetic\<close>, which contradicts the counters of an object in a cosmetic phase.
\<close>

theorem SetInversed_cannot_clear:
  "HasFlag (ps_Flags (SetInversed False (SetInversed True s))) PhaseShiftFlags_Inverse
   \<and> \<not> HasFlag (ps_Flags (SetInversed False s)) PhaseShiftFlags_AlwaysVisible
   \<and> (ps_flags_ok (SetInversed False s) \<longrightarrow> ps_CosmeticReferences s = 0)"
  by (simp add: SetInversed_def flag_bits ps_flags_ok_def)

lemma SetInversed_cannot_clear_witness:
  "\<not> ps_flags_ok (SetInversed False (PhaseShift_new\<lparr>ps_CosmeticReferences := 1\<rparr>))"
  using SetInversed_cannot_clear [of "PhaseShift_new\<lparr>ps_CosmeticReferences := 1\<rparr>"] by simp

end
