(* ===== verification/PhasingVisitor.thy ===== *)
theory PhasingVisitor imports PhasingHandler begin

text \<open>
  The operations of \<^verbatim>\<open>PhasingHandler.cpp\<close> that change the phases of an object together with the units it
  controls: the class \<^verbatim>\<open>ControlledUnitVisitor\<close> and the recursive versions of \<^verbatim>\<open>AddPhase\<close>, \<^verbatim>\<open>RemovePhase\<close>, their
  group versions, \<^verbatim>\<open>AddVisibleMapId\<close> and \<^verbatim>\<open>RemoveVisibleMapId\<close>. They all walk the same way, so the walk is one
  definition with the change of a shift as its argument. The virtual \<^verbatim>\<open>OnPhaseChange\<close>, the removal of single
  target auras and the visibility updates are recorded as events; what they trigger is not modelled.
\<close>

section \<open>Objects and their surroundings\<close>

text \<open>
  Objects live at addresses. \<open>m_Controlled\<close> holds addresses, \<open>m_SummonSlot\<close> and the seats of the vehicle kit hold guids;
  0 is the empty guid. The two aura lists are the misc values of the phase auras on a unit.
\<close>

record phase_object =
  po_guid :: nat
  po_isUnit :: bool
  po_isPlayer :: bool
  po_inWorld :: bool
  po_hasVehicle :: bool
  po_map :: nat
  po_mapId :: u32
  po_areaId :: u32
  po_shift :: phase_shift
  po_suppressed :: phase_shift
  m_Controlled :: "nat list"
  m_SummonSlot :: "nat list"
  po_seats :: "nat list option"
  po_phaseAuras :: "u32 list"
  po_phaseGroupAuras :: "u32 list"

text \<open>What is read of the client data, of \<^verbatim>\<open>ObjectAccessor\<close> and of \<^verbatim>\<open>ObjectMgr\<close>; terrain swaps are numbers.\<close>

record phasing_env =
  pe_PhaseStore :: "u32 \<Rightarrow> u16 option"
  pe_PhasesForGroup :: "u32 \<Rightarrow> u32 list option"
  pe_TerrainSwapInfo :: "u32 \<Rightarrow> nat option"
  pe_UiSwaps :: "nat \<Rightarrow> u32 list"
  pe_GetCreature :: "nat \<Rightarrow> nat \<Rightarrow> nat option"
  pe_GetUnit :: "nat \<Rightarrow> nat \<Rightarrow> nat option"

record phase_packet =
  pp_Client :: nat
  pp_Flags :: u32
  pp_PersonalGUID :: nat
  pp_Phases :: "(u16 \<times> u16) list"
  pp_VisibleMapIDs :: "u16 list"
  pp_UiWorldMapAreaIDSwaps :: "u16 list"

datatype phase_event =
  OnPhaseChange nat | RemoveNotOwnSingleTargetAuras nat | PhaseShiftChange nat phase_packet
| SendUpdateTransportVisibility nat | UpdateObjectVisibility nat

record phase_world =
  pw_objects :: "nat \<rightharpoonup> phase_object"
  pw_events :: "phase_event list"

definition phase_emit :: "phase_event \<Rightarrow> phase_world \<Rightarrow> phase_world" where
  "phase_emit e w = w\<lparr>pw_events := pw_events w @ [e]\<rparr>"

definition set_object :: "nat \<Rightarrow> phase_object \<Rightarrow> phase_world \<Rightarrow> phase_world" where
  "set_object a ob w = w\<lparr>pw_objects := (pw_objects w)(a \<mapsto> ob)\<rparr>"

section \<open>Packets\<close>

text \<open>The lists of map ids and area swaps in the packet have 16-bit elements.\<close>

definition phase_shift_packet :: "nat \<Rightarrow> phase_shift \<Rightarrow> phase_packet" where
  "phase_shift_packet guid s =
     \<lparr>pp_Client = guid, pp_Flags = ps_Flags s, pp_PersonalGUID = ps_PersonalGuid s,
      pp_Phases = map (\<lambda>p. (pr_Flags p, pr_Id p)) (ps_Phases s),
      pp_VisibleMapIDs = map (\<lambda>(k, _). ucast k) (ps_VisibleMapIds s),
      pp_UiWorldMapAreaIDSwaps = map (\<lambda>(k, _). ucast k) (ps_UiWorldMapAreaIdSwaps s)\<rparr>"

definition SendToPlayer :: "nat \<Rightarrow> phase_object \<Rightarrow> phase_world \<Rightarrow> phase_world" where
  "SendToPlayer a ob = phase_emit (PhaseShiftChange a (phase_shift_packet (po_guid ob) (po_shift ob)))"

definition FillPartyMemberPhase :: "phase_shift \<Rightarrow> u32 \<times> nat \<times> (u16 \<times> u16) list" where
  "FillPartyMemberPhase s = (ps_Flags s, ps_PersonalGuid s, map (\<lambda>p. (pr_Flags p, pr_Id p)) (ps_Phases s))"

definition UpdateVisibilityIfNeeded :: "nat \<Rightarrow> bool \<Rightarrow> bool \<Rightarrow> phase_world \<Rightarrow> phase_world" where
  "UpdateVisibilityIfNeeded a updateVisibility changed w =
     (case pw_objects w a of
        None \<Rightarrow> w
      | Some ob \<Rightarrow>
          if changed \<and> po_inWorld ob
          then let w = (if po_isPlayer ob then SendToPlayer a ob w else w)
               in if updateVisibility
                  then phase_emit (UpdateObjectVisibility a)
                         (if po_isPlayer ob then phase_emit (SendUpdateTransportVisibility a) w else w)
                  else w
          else w)"

section \<open>The visitor\<close>

text \<open>
  The units \<^verbatim>\<open>VisitControlledOf\<close> considers, in the order of its three loops; \<open>None\<close> is a dangling pointer in
  \<open>m_Controlled\<close>. The calls it makes change neither these lists nor the lookups.
\<close>

fun controlled_loop :: "phase_world \<Rightarrow> nat list \<Rightarrow> nat list option" where
  "controlled_loop w [] = Some []"
| "controlled_loop w (a # as) =
     (case pw_objects w a of
        None \<Rightarrow> None
      | Some controlled \<Rightarrow>
          map_option (\<lambda>r. if \<not> po_isPlayer controlled \<and> \<not> po_hasVehicle controlled then a # r else r)
            (controlled_loop w as))"

definition summon_targets :: "phasing_env \<Rightarrow> phase_object \<Rightarrow> nat list" where
  "summon_targets E ob = List.map_filter (\<lambda>g. if g = 0 then None else pe_GetCreature E (po_map ob) g) (m_SummonSlot ob)"

definition passenger_targets :: "phasing_env \<Rightarrow> nat \<Rightarrow> phase_object \<Rightarrow> nat list" where
  "passenger_targets E a ob =
     (case po_seats ob of
        None \<Rightarrow> []
      | Some seats \<Rightarrow> filter (\<lambda>b. b \<noteq> a) (List.map_filter (pe_GetUnit E (po_map ob)) seats))"

definition controlled_targets :: "phasing_env \<Rightarrow> phase_world \<Rightarrow> nat \<Rightarrow> phase_object \<Rightarrow> nat list option" where
  "controlled_targets E w a ob =
     map_option (\<lambda>cs. cs @ summon_targets E ob @ passenger_targets E a ob) (controlled_loop w (m_Controlled ob))"

text \<open>
  One operation: the change of a shift, whether units are told of it (the map operations do not), and the
  argument for the visibility update. The visited set is a flat set of addresses.
\<close>

record phase_op =
  op_change :: "phase_shift \<Rightarrow> bool \<times> phase_shift"
  op_notify :: bool
  op_updateVisibility :: bool

text \<open>The fuel bounds the depth of the recursion; \<open>None\<close> is no fuel left or a dangling pointer.\<close>

fun phase_visit :: "phasing_env \<Rightarrow> phase_op \<Rightarrow> nat \<Rightarrow> nat \<Rightarrow> nat list \<Rightarrow> phase_world \<Rightarrow> (nat list \<times> phase_world) option"
and phase_visit_all :: "phasing_env \<Rightarrow> phase_op \<Rightarrow> nat \<Rightarrow> nat list \<Rightarrow> nat list \<Rightarrow> phase_world \<Rightarrow> (nat list \<times> phase_world) option" where
  "phase_visit E p 0 a visited w = None"
| "phase_visit E p (Suc n) a visited w =
     (case pw_objects w a of
        None \<Rightarrow> None
      | Some ob \<Rightarrow>
          let (changed, s) = op_change p (po_shift ob);
              w = set_object a (ob\<lparr>po_shift := s\<rparr>) w
          in if \<not> po_isUnit ob then Some (visited, UpdateVisibilityIfNeeded a (op_updateVisibility p) changed w)
             else let w = (if op_notify p then phase_emit (OnPhaseChange a) w else w)
                  in case controlled_targets E w a ob of
                       None \<Rightarrow> None
                     | Some ts \<Rightarrow>
                         map_option (\<lambda>(visited, w).
                             (visited, UpdateVisibilityIfNeeded a (op_updateVisibility p) changed
                                (if op_notify p then phase_emit (RemoveNotOwnSingleTargetAuras a) w else w)))
                           (phase_visit_all E p n ts visited w))"
| "phase_visit_all E p n [] visited w = Some (visited, w)"
| "phase_visit_all E p n (b # bs) visited w =
     (let (visited, inserted) = fs_emplace (\<lambda>x. x) b visited
      in if \<not> inserted then phase_visit_all E p n bs visited w
         else case phase_visit E p n b visited w of
                None \<Rightarrow> None
              | Some (visited, w) \<Rightarrow> phase_visit_all E p n bs visited w)"

text \<open>The constructor of the visitor marks the object itself; every object is entered at most once.\<close>

definition visit_from :: "phasing_env \<Rightarrow> phase_op \<Rightarrow> nat \<Rightarrow> phase_world \<Rightarrow> phase_world option" where
  "visit_from E p a w = map_option snd (phase_visit E p (card (dom (pw_objects w)) + 1) a [a] w)"

section \<open>The operations on an object and what it controls\<close>

definition AddPhase_all :: "phasing_env \<Rightarrow> nat \<Rightarrow> u32 \<Rightarrow> bool \<Rightarrow> phase_world \<Rightarrow> phase_world option" where
  "AddPhase_all E a phaseId updateVisibility w =
     (case pw_objects w a of
        None \<Rightarrow> None
      | Some ob \<Rightarrow> visit_from E \<lparr>op_change = PhasingHandler_AddPhase (pe_PhaseStore E) phaseId (po_guid ob),
                    op_notify = True, op_updateVisibility = updateVisibility\<rparr> a w)"

definition RemovePhase_all :: "phasing_env \<Rightarrow> nat \<Rightarrow> u32 \<Rightarrow> bool \<Rightarrow> phase_world \<Rightarrow> phase_world option" where
  "RemovePhase_all E a phaseId updateVisibility w =
     visit_from E \<lparr>op_change = PhasingHandler_RemovePhase phaseId, op_notify = True,
       op_updateVisibility = updateVisibility\<rparr> a w"

definition AddPhaseGroup_all :: "phasing_env \<Rightarrow> nat \<Rightarrow> u32 \<Rightarrow> bool \<Rightarrow> phase_world \<Rightarrow> phase_world option" where
  "AddPhaseGroup_all E a phaseGroupId updateVisibility w =
     (case pe_PhasesForGroup E phaseGroupId of
        None \<Rightarrow> Some w
      | Some phasesInGroup \<Rightarrow>
          (case pw_objects w a of
             None \<Rightarrow> None
           | Some ob \<Rightarrow> visit_from E \<lparr>op_change = PhasingHandler_AddPhaseGroup (pe_PhaseStore E) phasesInGroup (po_guid ob),
                         op_notify = True, op_updateVisibility = updateVisibility\<rparr> a w))"

definition RemovePhaseGroup_all :: "phasing_env \<Rightarrow> nat \<Rightarrow> u32 \<Rightarrow> bool \<Rightarrow> phase_world \<Rightarrow> phase_world option" where
  "RemovePhaseGroup_all E a phaseGroupId updateVisibility w =
     (case pe_PhasesForGroup E phaseGroupId of
        None \<Rightarrow> Some w
      | Some phasesInGroup \<Rightarrow>
          visit_from E \<lparr>op_change = PhasingHandler_RemovePhaseGroup phasesInGroup, op_notify = True,
            op_updateVisibility = updateVisibility\<rparr> a w)"

fun add_swaps :: "u32 list \<Rightarrow> bool \<Rightarrow> phase_shift \<Rightarrow> bool \<times> phase_shift" where
  "add_swaps [] changed s = (changed, s)"
| "add_swaps (areaId # ids) changed s =
     (let (c, s) = PhaseShift_AddUiWorldMapAreaIdSwap areaId 1 s in add_swaps ids (c \<or> changed) s)"

fun remove_swaps :: "u32 list \<Rightarrow> bool \<Rightarrow> phase_shift \<Rightarrow> bool \<times> phase_shift" where
  "remove_swaps [] changed s = (changed, s)"
| "remove_swaps (areaId # ids) changed s =
     (let (r, s) = PhaseShift_RemoveUiWorldMapAreaIdSwap areaId s in remove_swaps ids (r = ErErased \<or> changed) s)"

definition add_visible_map :: "phasing_env \<Rightarrow> u32 \<Rightarrow> nat \<Rightarrow> phase_shift \<Rightarrow> bool \<times> phase_shift" where
  "add_visible_map E visibleMapId info s =
     (let (changed, s) = PhaseShift_AddVisibleMapId visibleMapId (Some info) 1 s
      in add_swaps (pe_UiSwaps E info) changed s)"

definition remove_visible_map :: "phasing_env \<Rightarrow> u32 \<Rightarrow> nat \<Rightarrow> phase_shift \<Rightarrow> bool \<times> phase_shift" where
  "remove_visible_map E visibleMapId info s =
     (let (r, s) = PhaseShift_RemoveVisibleMapId visibleMapId s
      in remove_swaps (pe_UiSwaps E info) (r = ErErased) s)"

text \<open>Both read the swaps of the terrain swap info without a check: \<open>None\<close> when there is none for the map.\<close>

definition AddVisibleMapId_all :: "phasing_env \<Rightarrow> nat \<Rightarrow> u32 \<Rightarrow> phase_world \<Rightarrow> phase_world option" where
  "AddVisibleMapId_all E a visibleMapId w =
     (case pe_TerrainSwapInfo E visibleMapId of
        None \<Rightarrow> None
      | Some info \<Rightarrow> visit_from E \<lparr>op_change = add_visible_map E visibleMapId info, op_notify = False,
                       op_updateVisibility = False\<rparr> a w)"

definition RemoveVisibleMapId_all :: "phasing_env \<Rightarrow> nat \<Rightarrow> u32 \<Rightarrow> phase_world \<Rightarrow> phase_world option" where
  "RemoveVisibleMapId_all E a visibleMapId w =
     (case pe_TerrainSwapInfo E visibleMapId of
        None \<Rightarrow> None
      | Some info \<Rightarrow> visit_from E \<lparr>op_change = remove_visible_map E visibleMapId info, op_notify = False,
                       op_updateVisibility = False\<rparr> a w)"

section \<open>The walk reaches what is controlled, directly or not, once\<close>

definition direct_targets :: "phasing_env \<Rightarrow> phase_world \<Rightarrow> nat \<Rightarrow> nat list" where
  "direct_targets E w a =
     (case pw_objects w a of
        None \<Rightarrow> []
      | Some ob \<Rightarrow> if po_isUnit ob then the (controlled_targets E w a ob) else [])"

inductive controls :: "phasing_env \<Rightarrow> phase_world \<Rightarrow> nat \<Rightarrow> nat \<Rightarrow> bool" for E w a where
  self: "controls E w a a"
| step: "controls E w a b \<Longrightarrow> c \<in> set (direct_targets E w b) \<Longrightarrow> controls E w a c"

text \<open>Pointers and lookups lead to objects that exist.\<close>

definition phase_world_ok :: "phasing_env \<Rightarrow> phase_world \<Rightarrow> bool" where
  "phase_world_ok E w \<longleftrightarrow> finite (dom (pw_objects w)) \<and>
     (\<forall>a ob. pw_objects w a = Some ob \<longrightarrow> set (m_Controlled ob) \<subseteq> dom (pw_objects w)) \<and>
     (\<forall>m g b. pe_GetCreature E m g = Some b \<or> pe_GetUnit E m g = Some b \<longrightarrow> b \<in> dom (pw_objects w))"

definition same_units :: "phase_world \<Rightarrow> phase_world \<Rightarrow> bool" where
  "same_units w w' \<longleftrightarrow> (\<forall>a. map_option (\<lambda>ob. ob\<lparr>po_shift := PhaseShift_new\<rparr>) (pw_objects w' a) =
     map_option (\<lambda>ob. ob\<lparr>po_shift := PhaseShift_new\<rparr>) (pw_objects w a))"

lemma same_units_refl [simp]: "same_units w w"
  by (simp add: same_units_def)

lemma same_units_trans: "same_units w w' \<Longrightarrow> same_units w' w'' \<Longrightarrow> same_units w w''"
  by (simp add: same_units_def)

lemma phase_emit_objects [simp]: "pw_objects (phase_emit e w) = pw_objects w"
  by (simp add: phase_emit_def)

lemma UpdateVisibilityIfNeeded_objects [simp]: "pw_objects (UpdateVisibilityIfNeeded a u c w) = pw_objects w"
  by (simp add: UpdateVisibilityIfNeeded_def SendToPlayer_def Let_def split: option.split)

lemma same_units_cong: "pw_objects w' = pw_objects w'' \<Longrightarrow> same_units w w' = same_units w w''"
  by (simp add: same_units_def)

lemma same_units_set_object:
  "pw_objects w a = Some ob \<Longrightarrow> same_units w (set_object a (ob\<lparr>po_shift := s\<rparr>) w)"
  by (simp add: same_units_def set_object_def)

lemma phase_object_same:
  "ob\<lparr>po_shift := s\<rparr> = ob'\<lparr>po_shift := s\<rparr> \<Longrightarrow> \<exists>t. ob' = ob\<lparr>po_shift := t\<rparr>"
  by (cases ob; cases ob') auto

lemma same_units_Some:
  assumes "same_units w w'" "pw_objects w a = Some ob"
  obtains s where "pw_objects w' a = Some (ob\<lparr>po_shift := s\<rparr>)"
proof -
  have "map_option (\<lambda>ob. ob\<lparr>po_shift := PhaseShift_new\<rparr>) (pw_objects w' a) = Some (ob\<lparr>po_shift := PhaseShift_new\<rparr>)"
    using assms by (simp add: same_units_def)
  then obtain ob' where "pw_objects w' a = Some ob'" "ob\<lparr>po_shift := PhaseShift_new\<rparr> = ob'\<lparr>po_shift := PhaseShift_new\<rparr>"
    by auto
  then show thesis using phase_object_same [where ob = ob and ob' = ob'] that by auto
qed

lemma same_units_None: "same_units w w' \<Longrightarrow> pw_objects w a = None \<longleftrightarrow> pw_objects w' a = None"
  unfolding same_units_def by (metis map_option_is_None)

lemma same_units_dom: "same_units w w' \<Longrightarrow> dom (pw_objects w') = dom (pw_objects w)"
  using same_units_None [of w w'] by (simp add: set_eq_iff domIff)

lemma same_units_loop:
  assumes "same_units w w'" shows "controlled_loop w' as = controlled_loop w as"
proof (induction "as")
  case (Cons a as)
  show ?case
  proof (cases "pw_objects w a")
    case None
    with same_units_None [OF assms, of a] show ?thesis by simp
  next
    case (Some ob)
    then obtain s where "pw_objects w' a = Some (ob\<lparr>po_shift := s\<rparr>)" using same_units_Some [OF assms] by blast
    with Some Cons show ?thesis by simp
  qed
qed simp

lemma targets_shift [simp]: "controlled_targets E w a (ob\<lparr>po_shift := s\<rparr>) = controlled_targets E w a ob"
  by (simp add: controlled_targets_def summon_targets_def passenger_targets_def cong: if_cong option.case_cong)

lemma same_units_targets: "same_units w w' \<Longrightarrow> controlled_targets E w' a ob = controlled_targets E w a ob"
  by (simp add: controlled_targets_def same_units_loop)

lemma same_units_direct: assumes "same_units w w'" shows "direct_targets E w' a = direct_targets E w a"
proof (cases "pw_objects w a")
  case (Some ob)
  then obtain s where "pw_objects w' a = Some (ob\<lparr>po_shift := s\<rparr>)" using same_units_Some [OF assms] by blast
  with Some show ?thesis by (simp add: direct_targets_def same_units_targets [OF assms])
qed (use same_units_None [OF assms, of a] in \<open>simp add: direct_targets_def\<close>)

lemma controlled_loop_ok: "set as \<subseteq> dom (pw_objects w) \<Longrightarrow> \<exists>r. controlled_loop w as = Some r \<and> set r \<subseteq> set as"
proof (induction "as")
  case (Cons a as)
  then obtain ob r where "pw_objects w a = Some ob" "controlled_loop w as = Some r" "set r \<subseteq> set as" by auto
  then show ?case by auto
qed simp

lemma set_map_filter: "set (List.map_filter f xs) = {y. \<exists>x \<in> set xs. f x = Some y}"
  by (force simp: map_filter_def)

lemma targets_ok:
  assumes "phase_world_ok E w" "pw_objects w a = Some ob"
  obtains ts where "controlled_targets E w a ob = Some ts" "set ts \<subseteq> dom (pw_objects w)"
proof -
  have sub: "set (m_Controlled ob) \<subseteq> dom (pw_objects w)" using assms by (simp add: phase_world_ok_def)
  from controlled_loop_ok [OF this] obtain r where r: "controlled_loop w (m_Controlled ob) = Some r" "set r \<subseteq> set (m_Controlled ob)"
    by blast
  have found: "pe_GetCreature E m g = Some b \<Longrightarrow> b \<in> dom (pw_objects w)" "pe_GetUnit E m g = Some b \<Longrightarrow> b \<in> dom (pw_objects w)" for m g b
    using assms(1) unfolding phase_world_ok_def by blast+
  have "set (summon_targets E ob) \<subseteq> dom (pw_objects w)"
    by (auto simp: summon_targets_def set_map_filter simp del: domIff dest!: found split: if_splits)
  moreover have "set (passenger_targets E a ob) \<subseteq> dom (pw_objects w)"
    by (auto simp: passenger_targets_def set_map_filter simp del: domIff dest!: found split: option.splits)
  ultimately show thesis using r sub that by (auto simp: controlled_targets_def)
qed

lemma fs_emplace_id:
  assumes "fs_ok (\<lambda>x. x) (V :: 'a::linorder list)"
  obtains V' where "fs_emplace (\<lambda>x. x) b V = (V', b \<notin> set V)" "set V' = insert b (set V)" "fs_ok (\<lambda>x. x) V'"
proof (cases "b \<in> set V")
  case True
  then show thesis using that [of V] fs_emplace_present [OF assms, of b b] fs_find_iff [OF assms, of b b] assms by auto
next
  case False
  then have "fs_find (\<lambda>x. x) b V = None" using assms by (auto simp: fs_find_None_iff)
  from fs_emplace_absent [OF assms this] obtain x y where "V = x @ y" "fs_emplace (\<lambda>x. x) b V = (x @ b # y, True)" "fs_ok (\<lambda>x. x) (x @ b # y)"
    by metis
  with False show thesis using that [of "x @ b # y"] by auto
qed

text \<open>\<open>w'\<close> is \<open>w\<close> with the shifts of the objects of \<open>S\<close> changed once.\<close>

definition changed_on :: "(phase_shift \<Rightarrow> phase_shift) \<Rightarrow> nat set \<Rightarrow> phase_world \<Rightarrow> phase_world \<Rightarrow> bool" where
  "changed_on f S w w' \<longleftrightarrow> pw_objects w' =
     (\<lambda>a. if a \<in> S then map_option (\<lambda>ob. ob\<lparr>po_shift := f (po_shift ob)\<rparr>) (pw_objects w a) else pw_objects w a)"

lemma changed_on_same_units: "changed_on f S w w' \<Longrightarrow> same_units w w'"
  by (auto simp: changed_on_def same_units_def option.map_comp comp_def)

lemma changed_on_empty: "changed_on f {} w w' \<longleftrightarrow> pw_objects w' = pw_objects w"
  by (auto simp: changed_on_def)

lemma changed_on_trans:
  "changed_on f S w w' \<Longrightarrow> changed_on f T w' w'' \<Longrightarrow> S \<inter> T = {} \<Longrightarrow> changed_on f (S \<union> T) w w''"
  by (auto simp: changed_on_def fun_eq_iff)

lemma changed_on_cong: "pw_objects w' = pw_objects w'' \<Longrightarrow> changed_on f S w w' = changed_on f S w w''"
  by (simp add: changed_on_def)

lemma changed_on_cong2: "pw_objects w' = pw_objects w'' \<Longrightarrow> changed_on f S w' w = changed_on f S w'' w"
  unfolding changed_on_def by presburger

lemma changed_on_set_object:
  "pw_objects w a = Some ob \<Longrightarrow> changed_on f {a} w (set_object a (ob\<lparr>po_shift := f (po_shift ob)\<rparr>) w)"
  by (auto simp: changed_on_def set_object_def)

lemma controls_trans: "controls E w b c \<Longrightarrow> controls E w a b \<Longrightarrow> controls E w a c"
  by (induction rule: controls.induct) (auto intro: controls.step)

lemma controls_direct: "b \<in> set (direct_targets E w a) \<Longrightarrow> controls E w b c \<Longrightarrow> controls E w a c"
  by (rule controls_trans) (auto intro: controls.intros)

text \<open>
  What one call does to the visited set and the world: the newly visited objects are controlled by those it was given and
  changed once, and what they control is visited.
\<close>

definition visit_result ::
  "phasing_env \<Rightarrow> phase_world \<Rightarrow> (phase_shift \<Rightarrow> phase_shift) \<Rightarrow> nat set \<Rightarrow> nat set \<Rightarrow> nat list \<Rightarrow> phase_world \<Rightarrow> nat list \<Rightarrow> phase_world \<Rightarrow> bool" where
  "visit_result E w0 f starts done V w V' w' \<longleftrightarrow>
     fs_ok (\<lambda>x. x) V' \<and> set V \<union> starts \<subseteq> set V' \<and> set V' \<subseteq> dom (pw_objects w0) \<and> same_units w0 w' \<and>
     changed_on f (done \<union> (set V' - set V)) w w' \<and>
     (\<forall>b \<in> done \<union> (set V' - set V). set (direct_targets E w0 b) \<subseteq> set V') \<and>
     (\<forall>b \<in> set V' - set V. \<exists>a \<in> starts. controls E w0 a b)"

lemma visit_result_seq:
  assumes "visit_result E w0 f {b} {b} V1 w V2 w2" "visit_result E w0 f bs {} V2 w2 V3 w3"
    "set V1 = insert b (set V)" "b \<notin> set V"
  shows "visit_result E w0 f (insert b bs) {} V w V3 w3"
proof -
  from assms have eq: "({b} \<union> (set V2 - set V1)) \<union> ({} \<union> (set V3 - set V2)) = set V3 - set V"
    by (auto simp: visit_result_def)
  have c: "changed_on f ({b} \<union> (set V2 - set V1)) w w2" "changed_on f ({} \<union> (set V3 - set V2)) w2 w3"
    using assms(1,2) unfolding visit_result_def by blast+
  have "({b} \<union> (set V2 - set V1)) \<inter> ({} \<union> (set V3 - set V2)) = {}" using assms(1) by (auto simp: visit_result_def)
  from changed_on_trans [OF c this] have "changed_on f (({b} \<union> (set V2 - set V1)) \<union> ({} \<union> (set V3 - set V2))) w w3" .
  then have "changed_on f ({} \<union> (set V3 - set V)) w w3" unfolding eq by simp
  moreover have "\<forall>c \<in> set V3 - set V. \<exists>a \<in> insert b bs. controls E w0 a c"
  proof
    fix c assume "c \<in> set V3 - set V"
    then have "c = b \<or> c \<in> set V2 - set V1 \<or> c \<in> set V3 - set V2" using assms(3) by auto
    then show "\<exists>a \<in> insert b bs. controls E w0 a c" using assms(1,2) by (auto simp: visit_result_def intro: controls.self)
  qed
  moreover have "\<forall>c \<in> {} \<union> (set V3 - set V). set (direct_targets E w0 c) \<subseteq> set V3"
  proof
    fix c assume "c \<in> {} \<union> (set V3 - set V)"
    then have "c \<in> {b} \<union> (set V2 - set V1) \<or> c \<in> {} \<union> (set V3 - set V2)" using assms(3) by auto
    then show "set (direct_targets E w0 c) \<subseteq> set V3" using assms(1,2) unfolding visit_result_def by blast
  qed
  ultimately show ?thesis using assms by (auto simp: visit_result_def)
qed

lemma visit_result_root:
  assumes "visit_result E w0 f ts {} V w1 V' w2" "changed_on f {a} w w1" "pw_objects w' = pw_objects w2"
    "a \<in> set V" "set (direct_targets E w0 a) = ts"
  shows "visit_result E w0 f {a} {a} V w V' w'"
proof -
  have "changed_on f ({a} \<union> ({} \<union> (set V' - set V))) w w2"
    using assms by (intro changed_on_trans [of _ _ w w1]) (auto simp: visit_result_def)
  then have "changed_on f ({a} \<union> (set V' - set V)) w w'"
    using changed_on_cong [OF assms(3)] by simp
  moreover have "same_units w0 w'" using assms(1) same_units_cong [OF assms(3)] by (simp add: visit_result_def)
  moreover have "controls E w0 a b" if "b \<in> set V' - set V" for b
    using that assms(1,5) controls_direct [of _ E w0 a b] unfolding visit_result_def by blast
  ultimately show ?thesis using assms(1,4,5) by (auto simp: visit_result_def)
qed

lemma phase_visit_spec:
  "phase_world_ok E w0 \<Longrightarrow> same_units w0 w \<Longrightarrow> fs_ok (\<lambda>x. x) V \<Longrightarrow> a \<in> set V \<Longrightarrow> set V \<subseteq> dom (pw_objects w0) \<Longrightarrow>
     card (dom (pw_objects w0) - set V) < n \<Longrightarrow>
     \<exists>V' w'. phase_visit E p n a V w = Some (V', w') \<and>
       visit_result E w0 (\<lambda>s. snd (op_change p s)) {a} {a} V w V' w'"
  "phase_world_ok E w0 \<Longrightarrow> same_units w0 w \<Longrightarrow> fs_ok (\<lambda>x. x) V \<Longrightarrow> set bs \<subseteq> dom (pw_objects w0) \<Longrightarrow> set V \<subseteq> dom (pw_objects w0) \<Longrightarrow>
     card (dom (pw_objects w0) - set V) \<le> n \<Longrightarrow>
     \<exists>V' w'. phase_visit_all E p n bs V w = Some (V', w') \<and>
       visit_result E w0 (\<lambda>s. snd (op_change p s)) (set bs) {} V w V' w'"
proof (induction E p n a V w and E p n bs V w rule: phase_visit_phase_visit_all.induct)
  case (1 E p a visited w)
  then show ?case by simp
next
  case (2 E p n a V w)
  let ?f = "\<lambda>s. snd (op_change p s)"
  from 2(4-6) obtain ob0 where ob0: "pw_objects w0 a = Some ob0" by auto
  then obtain ob where ob: "pw_objects w a = Some ob" using same_units_Some [OF 2(3)] by blast
  define w1 where "w1 = set_object a (ob\<lparr>po_shift := ?f (po_shift ob)\<rparr>) w"
  have w1: "same_units w0 w1" "changed_on ?f {a} w w1"
    using same_units_trans [OF 2(3) same_units_set_object [OF ob]] changed_on_set_object [OF ob] by (simp_all add: w1_def)
  have ts0: "controlled_targets E w1 a ob = controlled_targets E w0 a ob" using same_units_targets [OF w1(1)] .
  have dt: "direct_targets E w0 a = (if po_isUnit ob then the (controlled_targets E w0 a ob) else [])"
    unfolding same_units_direct [OF 2(3), symmetric] same_units_targets [OF 2(3), symmetric] using ob by (simp add: direct_targets_def)
  show ?case
  proof (cases "po_isUnit ob")
    case False
    have "visit_result E w0 ?f {} {} V w1 V w1" using 2(4,6) w1(1) by (simp add: visit_result_def changed_on_empty)
    from visit_result_root [OF this w1(2) UpdateVisibilityIfNeeded_objects 2(5)] dt False
    show ?thesis using ob by (auto simp: split_def Let_def w1_def)
  next
    case True
    define w2 where "w2 = (if op_notify p then phase_emit (OnPhaseChange a) w1 else w1)"
    have w2: "pw_objects w2 = pw_objects w1" by (simp add: w2_def)
    obtain ts where ts: "controlled_targets E w0 a ob0 = Some ts" "set ts \<subseteq> dom (pw_objects w0)"
      using targets_ok [OF 2(2) ob0] .
    from ob0 obtain t where "ob = ob0\<lparr>po_shift := t\<rparr>" using same_units_Some [OF 2(3) ob0] ob by auto
    have sw2: "same_units w0 w2" using w1(1) same_units_cong [OF w2] by simp
    have ts': "controlled_targets E w2 a ob = Some ts"
      unfolding same_units_targets [OF sw2] \<open>ob = ob0\<lparr>po_shift := t\<rparr>\<close> using ts(1) by simp
    have "\<exists>V' w'. phase_visit_all E p n ts V w2 = Some (V', w') \<and> visit_result E w0 ?f (set ts) {} V w2 V' w'"
      using 2(2-7) ts(2) sw2 ob True ts'
      by (intro 2(1) [of ob "op_change p (po_shift ob)" "fst (op_change p (po_shift ob))" "?f (po_shift ob)" w1]) (auto simp: w1_def w2_def)
    then obtain V' w' where r: "phase_visit_all E p n ts V w2 = Some (V', w')" "visit_result E w0 ?f (set ts) {} V w2 V' w'" by blast
    have c2: "changed_on ?f {a} w w2" using w1(2) changed_on_cong [OF w2] by simp
    let ?w = "UpdateVisibilityIfNeeded a (op_updateVisibility p) (fst (op_change p (po_shift ob)))
      (if op_notify p then phase_emit (RemoveNotOwnSingleTargetAuras a) w' else w')"
    have "phase_visit E p (Suc n) a V w = Some (V', ?w)"
      using ob True ts' r(1) by (cases "op_notify p") (simp_all add: split_def Let_def w1_def w2_def)
    moreover have "pw_objects ?w = pw_objects w'" by simp
    ultimately show ?thesis using visit_result_root [OF r(2) c2 _ 2(5)] dt True ts(1) \<open>ob = ob0\<lparr>po_shift := t\<rparr>\<close> by auto
  qed
next
  case (3 E p n V w)
  then show ?case by (auto simp: visit_result_def changed_on_empty)
next
  case (4 E p n b bs V w)
  let ?f = "\<lambda>s. snd (op_change p s)"
  from fs_emplace_id [OF 4(6), of b] obtain V1 where V1: "fs_emplace (\<lambda>x. x) b V = (V1, b \<notin> set V)" "set V1 = insert b (set V)" "fs_ok (\<lambda>x. x) V1" .
  show ?case
  proof (cases "b \<in> set V")
    case True
    have "\<exists>V' w'. phase_visit_all E p n bs V1 w = Some (V', w') \<and> visit_result E w0 ?f (set bs) {} V1 w V' w'"
      using 4(4-9) V1(2,3) True by (intro 4(1) [OF V1(1) [symmetric]]) (auto simp: insert_absorb)
    with True V1 show ?thesis by (auto simp: visit_result_def insert_absorb)
  next
    case False
    then have b: "b \<in> dom (pw_objects w0) - set V" using 4(7) by auto
    have "card (dom (pw_objects w0) - set V1) < card (dom (pw_objects w0) - set V)"
      using b V1(2) 4(4) by (intro psubset_card_mono) (auto simp: phase_world_ok_def)
    then have "\<exists>V' w'. phase_visit E p n b V1 w = Some (V', w') \<and> visit_result E w0 ?f {b} {b} V1 w V' w'"
      using 4(4-9) V1 b False by (intro 4(2) [OF V1(1) [symmetric]]) auto
    then obtain V2 w2 where r: "phase_visit E p n b V1 w = Some (V2, w2)" "visit_result E w0 ?f {b} {b} V1 w V2 w2" by blast
    have v2: "set V1 \<subseteq> set V2" "fs_ok (\<lambda>x. x) V2" "set V2 \<subseteq> dom (pw_objects w0)" "same_units w0 w2"
      using r(2) by (auto simp: visit_result_def)
    have "card (dom (pw_objects w0) - set V2) \<le> card (dom (pw_objects w0) - set V)"
      using v2(1) V1(2) 4(4) by (intro card_mono) (auto simp: phase_world_ok_def)
    then have "\<exists>V' w'. phase_visit_all E p n bs V2 w2 = Some (V', w') \<and> visit_result E w0 ?f (set bs) {} V2 w2 V' w'"
      using 4(4-9) v2(2-4) False r(1) by (intro 4(3) [OF V1(1) [symmetric] refl _ r(1) refl]) auto
    then obtain V3 w3 where "phase_visit_all E p n bs V2 w2 = Some (V3, w3)" "visit_result E w0 ?f (set bs) {} V2 w2 V3 w3" by blast
    with visit_result_seq [OF r(2) _ V1(2) False] r(1) V1(1) False show ?thesis by auto
  qed
qed

text \<open>
  An operation on an object changes the shift of every unit it controls, directly or through other controlled units, summons or
  passengers, exactly once, and of no other object; it always returns, also when units control each other in a circle.
\<close>

lemma visit_from_controlled:
  assumes "phase_world_ok E w" "a \<in> dom (pw_objects w)"
  shows "\<exists>w'. visit_from E p a w = Some w' \<and>
    pw_objects w' = (\<lambda>b. if controls E w a b
      then map_option (\<lambda>ob. ob\<lparr>po_shift := snd (op_change p (po_shift ob))\<rparr>) (pw_objects w b) else pw_objects w b)"
proof -
  have "card (dom (pw_objects w) - set [a]) < card (dom (pw_objects w)) + 1"
    using assms card_Diff1_le [of "dom (pw_objects w)" a] by (simp add: le_imp_less_Suc)
  then obtain V' w' where v: "phase_visit E p (card (dom (pw_objects w)) + 1) a [a] w = Some (V', w')"
    and r: "visit_result E w (\<lambda>s. snd (op_change p s)) {a} {a} [a] w V' w'"
    using phase_visit_spec(1) [OF assms(1) same_units_refl, of "[a]" a "card (dom (pw_objects w)) + 1" p] assms(2) by auto
  have "controls E w a b \<Longrightarrow> b \<in> set V'" for b
  proof (induction rule: controls.induct)
    case (step b c)
    then show ?case using r unfolding visit_result_def by (cases "b = a") auto
  qed (use r in \<open>simp add: visit_result_def\<close>)
  moreover have "b \<in> set V' \<Longrightarrow> controls E w a b" for b
    using r controls.self [of E w a] unfolding visit_result_def by (cases "b = a") auto
  ultimately have eq: "{a} \<union> (set V' - set [a]) = {b. controls E w a b}" by (auto intro: controls.self)
  have "changed_on (\<lambda>s. snd (op_change p s)) ({a} \<union> (set V' - set [a])) w w'"
    using r by (simp add: visit_result_def)
  with v show ?thesis unfolding eq by (simp add: visit_from_def changed_on_def)
qed

text \<open>
  C17: Adding a phase to an object, and removing one, changes the shift of every unit it controls, directly or through other
  controlled units, summons or passengers, exactly once, and of no other object; both return on every world of existing
  objects, also when units control each other in a circle.
\<close>

theorem phase_reaches_controlled:
  assumes "phase_world_ok E w" "pw_objects w a = Some ob"
  shows "(\<exists>w'. AddPhase_all E a phaseId u w = Some w' \<and> pw_objects w' = (\<lambda>b. if controls E w a b
      then map_option (\<lambda>x. x\<lparr>po_shift := snd (PhasingHandler_AddPhase (pe_PhaseStore E) phaseId (po_guid ob) (po_shift x))\<rparr>) (pw_objects w b)
      else pw_objects w b)) \<and>
    (\<exists>w'. RemovePhase_all E a phaseId u w = Some w' \<and> pw_objects w' = (\<lambda>b. if controls E w a b
      then map_option (\<lambda>x. x\<lparr>po_shift := snd (PhasingHandler_RemovePhase phaseId (po_shift x))\<rparr>) (pw_objects w b)
      else pw_objects w b))"
proof -
  have "a \<in> dom (pw_objects w)" using assms(2) by auto
  note v = visit_from_controlled [OF assms(1) this]
  show ?thesis
    unfolding AddPhase_all_def RemovePhase_all_def assms(2) option.case
    using v [of "\<lparr>op_change = PhasingHandler_AddPhase (pe_PhaseStore E) phaseId (po_guid ob), op_notify = True, op_updateVisibility = u\<rparr>"]
      v [of "\<lparr>op_change = PhasingHandler_RemovePhase phaseId, op_notify = True, op_updateVisibility = u\<rparr>"]
    unfolding phase_op.simps by (rule conjI)
qed

text \<open>A player whose pet carries the player, which makes a circle, and a chest nobody controls.\<close>

definition phase_thing :: "nat \<Rightarrow> bool \<Rightarrow> bool \<Rightarrow> nat list \<Rightarrow> nat list option \<Rightarrow> phase_object" where
  "phase_thing guid isUnit isPlayer controlled seats =
     \<lparr>po_guid = guid, po_isUnit = isUnit, po_isPlayer = isPlayer, po_inWorld = True, po_hasVehicle = False, po_map = 0,
      po_mapId = 0, po_areaId = 0, po_shift = PhaseShift_new, po_suppressed = PhaseShift_new,
      m_Controlled = controlled, m_SummonSlot = [], po_seats = seats, po_phaseAuras = [], po_phaseGroupAuras = []\<rparr>"

definition rider_world :: phase_world where
  "rider_world = \<lparr>pw_objects = [1 \<mapsto> phase_thing 11 True True [2] None, 2 \<mapsto> phase_thing 12 True False [] (Some [11]),
     3 \<mapsto> phase_thing 13 False False [] None], pw_events = []\<rparr>"

definition rider_env :: phasing_env where
  "rider_env = \<lparr>pe_PhaseStore = (\<lambda>_. Some 0), pe_PhasesForGroup = (\<lambda>_. None), pe_TerrainSwapInfo = (\<lambda>_. None), pe_UiSwaps = (\<lambda>_. []),
     pe_GetCreature = (\<lambda>_ _. None), pe_GetUnit = (\<lambda>_ g. if g = 11 then Some 1 else None)\<rparr>"

lemma phase_reaches_controlled_witness:
  "\<exists>w'. AddPhase_all rider_env 1 5 True rider_world = Some w' \<and>
     map_option (\<lambda>x. PhaseShift_HasPhase 5 (po_shift x)) (pw_objects w' 2) = Some True \<and>
     map_option (\<lambda>x. PhaseShift_HasPhase 5 (po_shift x)) (pw_objects w' 3) = Some False"
proof -
  have ok: "phase_world_ok rider_env rider_world"
    by (auto simp: phase_world_ok_def rider_env_def rider_world_def phase_thing_def split: if_splits)
  have player: "pw_objects rider_world 1 = Some (phase_thing 11 True True [2] None)" by (simp add: rider_world_def)
  have targets: "direct_targets rider_env rider_world 1 = [2]" "direct_targets rider_env rider_world 2 = [1]"
    by (simp_all add: direct_targets_def rider_env_def rider_world_def phase_thing_def controlled_targets_def summon_targets_def
        passenger_targets_def map_filter_simps)
  have "controls rider_env rider_world 1 2"
    using controls.step [OF controls.self, of 2 rider_env rider_world 1] targets by simp
  moreover have "controls rider_env rider_world 1 b \<Longrightarrow> b \<in> {1, 2}" for b
    by (induction rule: controls.induct) (use targets in auto)
  then have "\<not> controls rider_env rider_world 1 3" by force
  moreover have "PhaseShift_HasPhase 5 (snd (PhasingHandler_AddPhase (pe_PhaseStore rider_env) 5 g PhaseShift_new))" for g
    by (simp add: PhasingHandler_AddPhase_def PhaseShift_AddPhase_def fs_emplace_def fs_lower_bound_def split_def Let_def
        PhaseRef_def fs_find_def PhaseShift_HasPhase_def ModifyPhasesReferences_Phases set_personal_guid_def PhaseShift_new_def)
  moreover have "pw_objects rider_world 2 = Some (phase_thing 12 True False [] (Some [11]))"
    "pw_objects rider_world 3 = Some (phase_thing 13 False False [] None)" by (simp_all add: rider_world_def)
  moreover have "po_shift (phase_thing g i j k l) = PhaseShift_new" for g i j k l by (simp add: phase_thing_def)
  moreover have "\<not> PhaseShift_HasPhase 5 PhaseShift_new"
    by (simp add: PhaseShift_HasPhase_def PhaseShift_new_def fs_find_def fs_lower_bound_def)
  ultimately show ?thesis
    using phase_reaches_controlled [OF ok player, of 5 True] by auto
qed

end
