(* ===== verification/PhasingUpdates.thy ===== *)
theory PhasingUpdates imports PhasingVisitor begin

text \<open>
  The rest of \<^verbatim>\<open>PhasingHandler.cpp\<close>: resetting and inheriting shifts, and the recomputation of the phases
  and terrain swaps of an object when its map or area changes or a condition may have changed. Each object has two shifts, the
  visible one and the suppressed one, which remembers the phases and maps whose conditions fail. Conditions are a parameter.
\<close>

section \<open>Resetting and inheriting\<close>

definition ResetPhaseShift :: "phase_object \<Rightarrow> phase_object" where
  "ResetPhaseShift ob = ob\<lparr>po_shift := PhaseShift_Clear (po_shift ob), po_suppressed := PhaseShift_Clear (po_suppressed ob)\<rparr>"

definition InheritPhaseShift :: "phase_object \<Rightarrow> phase_object \<Rightarrow> phase_object" where
  "InheritPhaseShift target source = target\<lparr>po_shift := po_shift source, po_suppressed := po_suppressed source\<rparr>"

text \<open>What the updates do to controlled units: they copy both shifts to the direct targets of the visitor, without recursion.\<close>

fun inherit_shift_loop :: "nat \<Rightarrow> nat list \<Rightarrow> nat list \<Rightarrow> phase_world \<Rightarrow> phase_world option" where
  "inherit_shift_loop a [] visited w = Some w"
| "inherit_shift_loop a (b # bs) visited w =
     (let (visited, inserted) = fs_emplace (\<lambda>x. x) b visited
      in if \<not> inserted then inherit_shift_loop a bs visited w
         else case (pw_objects w b, pw_objects w a) of
                (Some target, Some source) \<Rightarrow> inherit_shift_loop a bs visited (set_object b (InheritPhaseShift target source) w)
              | _ \<Rightarrow> None)"

definition inherit_controlled :: "phasing_env \<Rightarrow> nat \<Rightarrow> phase_object \<Rightarrow> phase_world \<Rightarrow> phase_world option" where
  "inherit_controlled E a ob w =
     (case controlled_targets E w a ob of
        None \<Rightarrow> None
      | Some ts \<Rightarrow> inherit_shift_loop a ts [a] w)"

text \<open>The common end of the area and the condition update.\<close>

definition finish_update :: "phasing_env \<Rightarrow> nat \<Rightarrow> bool \<Rightarrow> bool \<Rightarrow> phase_world \<Rightarrow> phase_world option" where
  "finish_update E a updateVisibility changed w =
     (case pw_objects w a of
        None \<Rightarrow> None
      | Some ob \<Rightarrow>
          if po_isUnit ob
          then map_option (\<lambda>w. UpdateVisibilityIfNeeded a updateVisibility changed
                   (if changed then phase_emit (RemoveNotOwnSingleTargetAuras a) w else w))
                 (inherit_controlled E a ob (if changed then phase_emit (OnPhaseChange a) w else w))
          else Some (UpdateVisibilityIfNeeded a updateVisibility changed w))"

section \<open>A change of map or area\<close>

text \<open>
  \<open>ce_Meets\<close> is \<^verbatim>\<open>IsObjectMeetToConditions\<close> with a list of area conditions, \<open>ce_MeetsSwap\<close> the check of the conditions of a
  terrain swap; both see the object as it is. \<open>ce_AreaParent\<close> is \<^verbatim>\<open>sAreaTableStore\<close>: \<open>None\<close> is no entry.
\<close>

record phase_area =
  pa_phaseId :: u32
  pa_subAreaExclusions :: "u32 list"
  pa_conditions :: nat

record condition_env =
  ce_Meets :: "phase_object \<Rightarrow> nat \<Rightarrow> bool"
  ce_MeetsSwap :: "phase_object \<Rightarrow> u32 \<Rightarrow> bool"
  ce_SwapId :: "nat \<Rightarrow> u32"
  ce_TerrainSwaps :: "(u32 \<times> nat list) list"
  ce_AreaParent :: "u32 \<Rightarrow> u32 option"
  ce_PhasesForArea :: "u32 \<Rightarrow> phase_area list option"

fun terrain_swap_loop :: "phasing_env \<Rightarrow> condition_env \<Rightarrow> u32 \<Rightarrow> nat list \<Rightarrow> phase_object \<Rightarrow> phase_object" where
  "terrain_swap_loop E C mapId [] ob = ob"
| "terrain_swap_loop E C mapId (info # infos) ob =
     terrain_swap_loop E C mapId infos
       (if ce_MeetsSwap C ob (ce_SwapId C info)
        then let s = po_shift ob;
                 s = (if mapId = po_mapId ob then snd (PhaseShift_AddVisibleMapId (ce_SwapId C info) (Some info) 1 s) else s);
                 s = snd (add_swaps (pe_UiSwaps E info) False s)
             in ob\<lparr>po_shift := s\<rparr>
        else if mapId = po_mapId ob
        then ob\<lparr>po_suppressed := snd (PhaseShift_AddVisibleMapId (ce_SwapId C info) (Some info) 1 (po_suppressed ob))\<rparr>
        else ob)"

definition map_change :: "phasing_env \<Rightarrow> condition_env \<Rightarrow> phase_object \<Rightarrow> phase_object" where
  "map_change E C ob =
     fold (\<lambda>(mapId, infos). terrain_swap_loop E C mapId infos) (ce_TerrainSwaps C)
       (ob\<lparr>po_shift := po_shift ob\<lparr>ps_VisibleMapIds := [], ps_UiWorldMapAreaIdSwaps := []\<rparr>,
          po_suppressed := po_suppressed ob\<lparr>ps_VisibleMapIds := []\<rparr>\<rparr>)"

definition OnMapChange :: "phasing_env \<Rightarrow> condition_env \<Rightarrow> nat \<Rightarrow> phase_world \<Rightarrow> phase_world option" where
  "OnMapChange E C a w =
     map_option (\<lambda>ob. UpdateVisibilityIfNeeded a False True (set_object a (map_change E C ob) w)) (pw_objects w a)"

fun area_phase_loop :: "phasing_env \<Rightarrow> condition_env \<Rightarrow> u32 \<Rightarrow> phase_area list \<Rightarrow> phase_object \<Rightarrow> phase_object" where
  "area_phase_loop E C areaId [] ob = ob"
| "area_phase_loop E C areaId (phaseArea # areas) ob =
     area_phase_loop E C areaId areas
       (if areaId \<in> set (pa_subAreaExclusions phaseArea) then ob
        else let phaseId = pa_phaseId phaseArea; flags = GetPhaseFlags (pe_PhaseStore E) phaseId
             in if ce_Meets C ob (pa_conditions phaseArea)
                then ob\<lparr>po_shift := snd (PhaseShift_AddPhase phaseId flags (Some (pa_conditions phaseArea)) 1 (po_shift ob))\<rparr>
                else ob\<lparr>po_suppressed := snd (PhaseShift_AddPhase phaseId flags (Some (pa_conditions phaseArea)) 1 (po_suppressed ob))\<rparr>)"

text \<open>The walk from an area to its parents; \<open>areaEntry\<close> is the id of the entry looked up, \<open>None\<close> the end. It need not end.\<close>

partial_function (option) area_walk ::
  "phasing_env \<Rightarrow> condition_env \<Rightarrow> u32 \<Rightarrow> u32 \<Rightarrow> phase_object \<Rightarrow> phase_object option" where
  "area_walk E C areaId areaEntry ob =
     (case ce_AreaParent C areaEntry of
        None \<Rightarrow> Some ob
      | Some parent \<Rightarrow>
          area_walk E C areaId parent
            (case ce_PhasesForArea C areaEntry of
               None \<Rightarrow> ob
             | Some newAreaPhases \<Rightarrow> area_phase_loop E C areaId newAreaPhases ob))"

declare area_walk.simps [code]

text \<open>The phases of the auras on a unit: those of \<^verbatim>\<open>SPELL_AURA_PHASE\<close>, then those of the groups.\<close>

definition aura_phases :: "phasing_env \<Rightarrow> phase_object \<Rightarrow> u32 list" where
  "aura_phases E ob = po_phaseAuras ob @
     concat (map (\<lambda>g. case pe_PhasesForGroup E g of None \<Rightarrow> [] | Some ids \<Rightarrow> ids) (po_phaseGroupAuras ob))"

text \<open>Phases are compared by their ids only.\<close>

definition area_change :: "phasing_env \<Rightarrow> condition_env \<Rightarrow> phase_object \<Rightarrow> (bool \<times> phase_object) option" where
  "area_change E C ob =
     (let oldPhases = map pr_Id (ps_Phases (po_shift ob));
          ob = ob\<lparr>po_shift := PhaseShift_ClearPhases (po_shift ob), po_suppressed := PhaseShift_ClearPhases (po_suppressed ob)\<rparr>
      in map_option (\<lambda>ob.
            let changed = (map pr_Id (ps_Phases (po_shift ob)) \<noteq> oldPhases);
                (changed, s) = (if po_isUnit ob then add_phases (pe_PhaseStore E) (aura_phases E ob) changed (po_shift ob)
                                else (changed, po_shift ob))
            in (changed, ob\<lparr>po_shift := set_personal_guid (po_guid ob) s\<rparr>))
          (area_walk E C (po_areaId ob) (po_areaId ob) ob))"

definition OnAreaChange :: "phasing_env \<Rightarrow> condition_env \<Rightarrow> nat \<Rightarrow> phase_world \<Rightarrow> phase_world option" where
  "OnAreaChange E C a w =
     (case pw_objects w a of
        None \<Rightarrow> None
      | Some ob \<Rightarrow>
          (case area_change E C ob of
             None \<Rightarrow> None
           | Some (changed, ob) \<Rightarrow> finish_update E a True changed (set_object a ob w)))"

section \<open>A change of conditions\<close>

text \<open>\<^verbatim>\<open>ModifyPhasesReferences(itr, -itr->References)\<close> and the erasure of the element.\<close>

definition drop_phase :: "phase_ref \<Rightarrow> phase_shift \<Rightarrow> phase_shift" where
  "drop_phase p s =
     (let s = ModifyPhasesReferences p (- pr_References p) s
      in s\<lparr>ps_Phases := fs_erase pr_Id (pr_Id p) (ps_Phases s)\<rparr>)"

text \<open>The first loop: visible phases whose conditions fail move to \<open>newSuppressions\<close>. It runs over the elements as they were.\<close>

fun suppress_phases :: "condition_env \<Rightarrow> phase_ref list \<Rightarrow> phase_object \<times> phase_shift \<Rightarrow> phase_object \<times> phase_shift" where
  "suppress_phases C [] st = st"
| "suppress_phases C (p # ps) (ob, newSuppressions) =
     suppress_phases C ps
       (case pr_AreaConditions p of
          None \<Rightarrow> (ob, newSuppressions)
        | Some c \<Rightarrow>
            if \<not> ce_Meets C ob c
            then (ob\<lparr>po_shift := drop_phase p (po_shift ob)\<rparr>,
                  snd (PhaseShift_AddPhase (ucast (pr_Id p)) (pr_Flags p) (Some c) (pr_References p) newSuppressions))
            else (ob, newSuppressions))"

text \<open>The second loop: suppressed phases whose conditions hold become visible; a suppressed phase without conditions fails an assertion.\<close>

fun restore_phases :: "condition_env \<Rightarrow> phase_ref list \<Rightarrow> phase_object \<times> bool \<Rightarrow> (phase_object \<times> bool) option" where
  "restore_phases C [] st = Some st"
| "restore_phases C (p # ps) (ob, changed) =
     (case pr_AreaConditions p of
        None \<Rightarrow> None
      | Some c \<Rightarrow>
          restore_phases C ps
            (if ce_Meets C ob c
             then let (inserted, s) = PhaseShift_AddPhase (ucast (pr_Id p)) (pr_Flags p) (Some c) (pr_References p) (po_shift ob)
                  in (ob\<lparr>po_shift := s, po_suppressed := drop_phase p (po_suppressed ob)\<rparr>, inserted \<or> changed)
             else (ob, changed)))"

text \<open>The loops over the visible maps; a map without terrain swap info has no result.\<close>

fun suppress_maps :: "phasing_env \<Rightarrow> condition_env \<Rightarrow> (u32 \<times> int \<times> nat option) list \<Rightarrow>
  phase_object \<times> phase_shift \<times> bool \<Rightarrow> (phase_object \<times> phase_shift \<times> bool) option" where
  "suppress_maps E C [] st = Some st"
| "suppress_maps E C ((k, references, visibleMapInfo) # ms) (ob, newSuppressions, changed) =
     (if ce_MeetsSwap C ob k then suppress_maps E C ms (ob, newSuppressions, changed)
      else case visibleMapInfo of
             None \<Rightarrow> None
           | Some info \<Rightarrow>
               let newSuppressions = snd (PhaseShift_AddVisibleMapId k (Some info) references newSuppressions);
                   (changed, s) = remove_swaps (pe_UiSwaps E info) changed (po_shift ob);
                   s = s\<lparr>ps_VisibleMapIds := om_erase k (ps_VisibleMapIds s)\<rparr>
               in suppress_maps E C ms (ob\<lparr>po_shift := s\<rparr>, newSuppressions, changed))"

fun restore_maps :: "phasing_env \<Rightarrow> condition_env \<Rightarrow> (u32 \<times> int \<times> nat option) list \<Rightarrow>
  phase_object \<times> bool \<Rightarrow> (phase_object \<times> bool) option" where
  "restore_maps E C [] st = Some st"
| "restore_maps E C ((k, references, visibleMapInfo) # ms) (ob, changed) =
     (if \<not> ce_MeetsSwap C ob k then restore_maps E C ms (ob, changed)
      else case visibleMapInfo of
             None \<Rightarrow> None
           | Some info \<Rightarrow>
               let (inserted, s) = PhaseShift_AddVisibleMapId k (Some info) references (po_shift ob);
                   (changed, s) = add_swaps (pe_UiSwaps E info) (inserted \<or> changed) s;
                   t = (po_suppressed ob)\<lparr>ps_VisibleMapIds := om_erase k (ps_VisibleMapIds (po_suppressed ob))\<rparr>
               in restore_maps E C ms (ob\<lparr>po_shift := s, po_suppressed := t\<rparr>, changed))"

text \<open>A phase an aura gives stays visible: one reference per aura moves back from \<open>newSuppressions\<close>.\<close>

fun keep_aura_phases :: "(u32 \<Rightarrow> u16 option) \<Rightarrow> u32 list \<Rightarrow> phase_shift \<times> phase_shift \<Rightarrow> phase_shift \<times> phase_shift" where
  "keep_aura_phases sPhaseStore [] st = st"
| "keep_aura_phases sPhaseStore (phaseId # ids) (s, newSuppressions) =
     (let (r, newSuppressions) = PhaseShift_RemovePhase phaseId newSuppressions
      in keep_aura_phases sPhaseStore ids
           (if r \<noteq> ErNotFound then snd (PhaseShift_AddPhase phaseId (GetPhaseFlags sPhaseStore phaseId) None 1 s) else s,
            newSuppressions))"

definition add_suppressed :: "phase_shift \<Rightarrow> phase_shift \<Rightarrow> phase_shift" where
  "add_suppressed newSuppressions s =
     fold (\<lambda>(k, references, info) s. snd (PhaseShift_AddVisibleMapId k info references s)) (ps_VisibleMapIds newSuppressions)
       (fold (\<lambda>p s. snd (PhaseShift_AddPhase (ucast (pr_Id p)) (pr_Flags p) (pr_AreaConditions p) (pr_References p) s))
          (ps_Phases newSuppressions) s)"

definition condition_change :: "phasing_env \<Rightarrow> condition_env \<Rightarrow> phase_object \<Rightarrow> (bool \<times> phase_object) option" where
  "condition_change E C ob =
     (let (ob, newSuppressions) = suppress_phases C (ps_Phases (po_shift ob)) (ob, PhaseShift_new)
      in case restore_phases C (ps_Phases (po_suppressed ob)) (ob, False) of
           None \<Rightarrow> None
         | Some (ob, changed) \<Rightarrow>
      case suppress_maps E C (ps_VisibleMapIds (po_shift ob)) (ob, newSuppressions, changed) of
           None \<Rightarrow> None
         | Some (ob, newSuppressions, changed) \<Rightarrow>
      case restore_maps E C (ps_VisibleMapIds (po_suppressed ob)) (ob, changed) of
           None \<Rightarrow> None
         | Some (ob, changed) \<Rightarrow>
      let (s, newSuppressions) =
            (if po_isUnit ob then keep_aura_phases (pe_PhaseStore E) (aura_phases E ob) (po_shift ob, newSuppressions)
             else (po_shift ob, newSuppressions))
      in Some (changed \<or> ps_Phases newSuppressions \<noteq> [] \<or> ps_VisibleMapIds newSuppressions \<noteq> [],
               ob\<lparr>po_shift := set_personal_guid (po_guid ob) s,
                  po_suppressed := add_suppressed newSuppressions (po_suppressed ob)\<rparr>))"

definition OnConditionChange :: "phasing_env \<Rightarrow> condition_env \<Rightarrow> nat \<Rightarrow> bool \<Rightarrow> phase_world \<Rightarrow> (bool \<times> phase_world) option" where
  "OnConditionChange E C a updateVisibility w =
     (case pw_objects w a of
        None \<Rightarrow> None
      | Some ob \<Rightarrow>
          (case condition_change E C ob of
             None \<Rightarrow> None
           | Some (changed, ob) \<Rightarrow>
               map_option (Pair changed) (finish_update E a updateVisibility changed (set_object a ob w))))"

end
