(* ===== verification/PhasingUpdates_Phases.thy ===== *)
theory PhasingUpdates_Phases imports PhasingUpdates begin

text \<open>
  The phases of a shift as a finite map, what each operation does to it, and what the loops of
  \<^verbatim>\<open>OnConditionChange\<close> over phases keep: the invariant of both shifts, and the sum of the references of a phase
  over the shifts it moves between.
\<close>

section \<open>Flat sets as finite maps\<close>

lemma fs_find_eqI:
  assumes "fs_ok key s" "\<And>x. P = Some x \<longleftrightarrow> x \<in> set s \<and> key x = k"
  shows "fs_find key k s = P"
  using fs_find_iff [OF assms(1), of k] assms(2) by (metis not_None_eq)

lemma fs_ok_emplace: "fs_ok key s \<Longrightarrow> fs_ok key (fst (fs_emplace key e s))"
  using fs_emplace_present [of key s e] fs_emplace_absent [of key s e]
  by (cases "fs_find key (key e) s") (metis fst_conv, metis fst_conv)

lemma fs_find_emplace:
  assumes "fs_ok key s"
  shows "fs_find key k (fst (fs_emplace key e s)) =
    (if k = key e \<and> fs_find key k s = None then Some e else fs_find key k s)"
proof (cases "fs_find key (key e) s")
  case None
  then obtain a b where ab: "s = a @ b" "fs_emplace key e s = (a @ e # b, True)" "fs_ok key (a @ e # b)"
    using fs_emplace_absent [OF assms] by metis
  have "fs_find key k (a @ e # b) = (if k = key e then Some e else fs_find key k s)"
  proof (rule fs_find_eqI [OF ab(3)])
    show "(if k = key e then Some e else fs_find key k s) = Some x \<longleftrightarrow> x \<in> set (a @ e # b) \<and> key x = k" for x
      using fs_find_iff [OF assms, of k x] fs_find_None_iff [OF assms, of "key e"] None ab(1) by auto
  qed
  with ab None show ?thesis by auto
qed (use fs_emplace_present [OF assms] in auto)

lemma fs_erase_absent: "fs_ok key s \<Longrightarrow> fs_find key k s = None \<Longrightarrow> fs_erase key k s = s"
  by (cases "fs_lower_bound key k s"; cases "snd (fs_lower_bound key k s)") (auto simp: fs_erase_def fs_find_def split: if_splits)

lemma fs_ok_erase: "fs_ok key s \<Longrightarrow> fs_ok key (fs_erase key k s)"
  by (cases "fs_find key k s") (simp add: fs_erase_absent, metis fs_erase_present)

lemma fs_find_erase:
  assumes "fs_ok key s"
  shows "fs_find key k (fs_erase key j s) = (if k = j then None else fs_find key k s)"
proof (cases "fs_find key j s")
  case (Some x)
  then obtain a b where ab: "s = a @ x # b" "fs_erase key j s = a @ b" "fs_ok key (a @ b)"
    using fs_erase_present [OF assms] by metis
  have j: "key x = j" using Some assms by (simp add: fs_find_iff)
  have "\<forall>y \<in> set (a @ b). key y \<noteq> key x" using assms ab(1) by (fastforce simp: fs_ok_append)
  then have "fs_find key k (a @ b) = (if k = j then None else fs_find key k s)"
    using fs_find_iff [OF assms] ab(1) j by (intro fs_find_eqI [OF ab(3)]) auto
  with ab show ?thesis by simp
qed (use fs_erase_absent [OF assms] in auto)

lemma fs_find_modify:
  assumes "fs_ok key s" "\<And>x. key (f x) = key x"
  shows "fs_find key k (fs_modify key j f s) = (if k = j then map_option f (fs_find key k s) else fs_find key k s)"
proof (rule fs_find_eqI)
  show "fs_ok key (fs_modify key j f s)" using assms by (simp add: fs_modify_ok)
  show "(if k = j then map_option f (fs_find key k s) else fs_find key k s) = Some x \<longleftrightarrow>
      x \<in> set (fs_modify key j f s) \<and> key x = k" for x
    using assms(2) by (auto simp: fs_modify_def fs_find_iff [OF assms(1)])
qed

section \<open>The phases of a shift\<close>

abbreviation phase_at :: "phase_shift \<Rightarrow> u16 \<Rightarrow> phase_ref option" where
  "phase_at s i \<equiv> fs_find pr_Id i (ps_Phases s)"

definition refs_at :: "phase_shift \<Rightarrow> u16 \<Rightarrow> int" where
  "refs_at s i = (case phase_at s i of None \<Rightarrow> 0 | Some p \<Rightarrow> pr_References p)"

lemma ps_inv_ok: "ps_inv s \<Longrightarrow> fs_ok pr_Id (ps_Phases s)"
  by (simp add: ps_inv_def)

lemma AddPhase_at:
  assumes "fs_ok pr_Id (ps_Phases s)"
  shows "phase_at (snd (PhaseShift_AddPhase k f c r s)) i =
    (if i = ucast k
     then Some (case phase_at s i of
                  None \<Rightarrow> \<lparr>pr_Id = i, pr_Flags = f, pr_References = r, pr_AreaConditions = c\<rparr>
                | Some p \<Rightarrow> p\<lparr>pr_References := pr_References p + r,
                               pr_AreaConditions := (if c \<noteq> None then c else pr_AreaConditions p)\<rparr>)
     else phase_at s i)"
proof -
  define e where "e = PhaseRef k f None"
  have e: "pr_Id e = ucast k" "pr_References e = 0" "pr_AreaConditions e = None" "pr_Flags e = f" by (simp_all add: e_def PhaseRef_def)
  define ps where "ps = fst (fs_emplace pr_Id e (ps_Phases s))"
  have ok: "fs_ok pr_Id ps" using fs_ok_emplace [OF assms] by (simp add: ps_def)
  have ps: "fs_find pr_Id i ps = (if i = ucast k \<and> phase_at s i = None then Some e else phase_at s i)" for i
    using fs_find_emplace [OF assms, of i e] by (simp add: ps_def e)
  obtain p where p: "fs_find pr_Id (ucast k) ps = Some p" using ps [of "ucast k"] by (cases "phase_at s (ucast k)") auto
  then have "pr_Id p = ucast k" using ok by (simp add: fs_find_iff)
  then show ?thesis
    using ps [of i] p ok
    by (auto simp: PhaseShift_AddPhase_def Let_def split_def e_def [symmetric] ps_def [symmetric] ModifyPhasesReferences_Phases
        fs_find_modify fs_modify_ok e split: option.splits)
qed

lemma RemovePhase_at:
  assumes "fs_ok pr_Id (ps_Phases s)"
  shows "phase_at (snd (PhaseShift_RemovePhase k s)) i =
    (if i = ucast k
     then (case phase_at s i of
             None \<Rightarrow> None
           | Some p \<Rightarrow> if pr_References p = 1 then None else Some (p\<lparr>pr_References := pr_References p - 1\<rparr>))
     else phase_at s i)"
    "fst (PhaseShift_RemovePhase k s) = ErNotFound \<longleftrightarrow> phase_at s (ucast k) = None"
proof -
  have id: "phase_at s (ucast k) = Some p \<Longrightarrow> pr_Id p = ucast k" for p using assms by (simp add: fs_find_iff)
  show "phase_at (snd (PhaseShift_RemovePhase k s)) i =
    (if i = ucast k
     then (case phase_at s i of
             None \<Rightarrow> None
           | Some p \<Rightarrow> if pr_References p = 1 then None else Some (p\<lparr>pr_References := pr_References p - 1\<rparr>))
     else phase_at s i)"
    using assms id
    by (cases "phase_at s (ucast k)")
       (auto simp: PhaseShift_RemovePhase_def Let_def ModifyPhasesReferences_Phases fs_find_modify fs_modify_ok fs_find_erase)
  show "fst (PhaseShift_RemovePhase k s) = ErNotFound \<longleftrightarrow> phase_at s (ucast k) = None"
    by (auto simp: PhaseShift_RemovePhase_def Let_def split: option.splits)
qed

lemma drop_phase_at:
  assumes "fs_ok pr_Id (ps_Phases s)" "phase_at s (pr_Id p) = Some p"
  shows "phase_at (drop_phase p s) i = (if i = pr_Id p then None else phase_at s i)"
  using assms
  by (auto simp: drop_phase_def Let_def ModifyPhasesReferences_Phases fs_find_modify fs_modify_ok fs_find_erase)

lemma drop_phase_inv:
  assumes "ps_inv s" "phase_at s (pr_Id p) = Some p"
  shows "ps_inv (drop_phase p s)"
proof -
  have ok: "fs_ok pr_Id (ps_Phases s)" using assms(1) by (rule ps_inv_ok)
  then have p: "p \<in> set (ps_Phases s)" using assms(2) by (simp add: fs_find_iff)
  let ?s = "ModifyPhasesReferences p (- pr_References p) s"
  have inv: "ps_inv ?s" using assms(1) ok p by (intro ModifyPhasesReferences_inv) (simp_all add: ps_inv_def)
  have "fs_find pr_Id (pr_Id p) (ps_Phases ?s) = Some (p\<lparr>pr_References := 0\<rparr>)"
    using ok assms(2) by (simp add: ModifyPhasesReferences_Phases fs_find_modify)
  then show ?thesis
    using inv refs_of_erase [of "ps_Phases ?s" "pr_Id p"]
    by (simp add: drop_phase_def Let_def ps_inv_def ps_counts_def ps_flags_ok_def ps_unphased_def)
qed

text \<open>Nothing of this touches the maps.\<close>

lemma phase_ops_maps [simp]:
  "ps_VisibleMapIds (ModifyPhasesReferences p r s) = ps_VisibleMapIds s"
  "ps_VisibleMapIds (snd (PhaseShift_AddPhase k f c r s)) = ps_VisibleMapIds s"
  "ps_VisibleMapIds (snd (PhaseShift_RemovePhase k s)) = ps_VisibleMapIds s"
  "ps_VisibleMapIds (drop_phase p s) = ps_VisibleMapIds s"
  "ps_VisibleMapIds (set_personal_guid g s) = ps_VisibleMapIds s"
proof -
  have [simp]: "ps_VisibleMapIds (UpdateUnphasedFlag t) = ps_VisibleMapIds t" "ps_VisibleMapIds (UpdatePersonalGuid t) = ps_VisibleMapIds t" for t
    by (simp_all add: UpdateUnphasedFlag_def UpdatePersonalGuid_def Let_def)
  show m: "ps_VisibleMapIds (ModifyPhasesReferences p r s) = ps_VisibleMapIds s" for p r s
    by (simp add: ModifyPhasesReferences_def Let_def)
  show "ps_VisibleMapIds (snd (PhaseShift_AddPhase k f c r s)) = ps_VisibleMapIds s"
    by (simp add: PhaseShift_AddPhase_def Let_def split_def m split: option.split)
  show "ps_VisibleMapIds (snd (PhaseShift_RemovePhase k s)) = ps_VisibleMapIds s"
    by (simp add: PhaseShift_RemovePhase_def Let_def m split: option.split)
  show "ps_VisibleMapIds (drop_phase p s) = ps_VisibleMapIds s"
    by (simp add: drop_phase_def Let_def m)
  show "ps_VisibleMapIds (set_personal_guid g s) = ps_VisibleMapIds s"
    by (simp add: set_personal_guid_def)
qed

lemma set_personal_guid_facts [simp]:
  "ps_Phases (set_personal_guid g s) = ps_Phases s" "ps_inv (set_personal_guid g s) = ps_inv s"
  by (auto simp: set_personal_guid_def ps_inv_def ps_counts_def ps_flags_ok_def ps_unphased_def)

section \<open>The loops of a condition change\<close>

text \<open>The conditions of areas and swaps are taken not to depend on the phases themselves.\<close>

definition stable_conditions :: "condition_env \<Rightarrow> bool" where
  "stable_conditions C \<longleftrightarrow>
     (\<forall>ob s t c. ce_Meets C (ob\<lparr>po_shift := s, po_suppressed := t\<rparr>) c = ce_Meets C ob c) \<and>
     (\<forall>ob s t k. ce_MeetsSwap C (ob\<lparr>po_shift := s, po_suppressed := t\<rparr>) k = ce_MeetsSwap C ob k)"

definition same_but_shifts :: "phase_object \<Rightarrow> phase_object \<Rightarrow> bool" where
  "same_but_shifts ob ob' \<longleftrightarrow> ob' = ob\<lparr>po_shift := po_shift ob', po_suppressed := po_suppressed ob'\<rparr>"

lemma same_but_shifts_refl [simp]: "same_but_shifts ob ob"
  by (simp add: same_but_shifts_def)

lemma same_but_shifts_trans: "same_but_shifts a b \<Longrightarrow> same_but_shifts b c \<Longrightarrow> same_but_shifts a c"
  unfolding same_but_shifts_def by (cases a; cases b; cases c) auto

lemma same_but_shifts_upd [simp]:
  "same_but_shifts ob (ob\<lparr>po_shift := s\<rparr>)" "same_but_shifts ob (ob\<lparr>po_shift := s, po_suppressed := t\<rparr>)"
  by (cases ob; simp add: same_but_shifts_def)+

lemma stable_same:
  assumes "stable_conditions C" "same_but_shifts ob ob'"
  shows "ce_Meets C ob' c = ce_Meets C ob c" "ce_MeetsSwap C ob' k = ce_MeetsSwap C ob k"
  using assms unfolding stable_conditions_def same_but_shifts_def by metis+

definition fails :: "condition_env \<Rightarrow> phase_object \<Rightarrow> phase_ref \<Rightarrow> bool" where
  "fails C ob p \<longleftrightarrow> (\<exists>c. pr_AreaConditions p = Some c \<and> \<not> ce_Meets C ob c)"

lemma stable_fails: "stable_conditions C \<Longrightarrow> same_but_shifts ob ob' \<Longrightarrow> fails C ob' p = fails C ob p"
  by (simp add: fails_def stable_same)

text \<open>All phases of a shift have a property.\<close>

definition all_phases :: "(phase_ref \<Rightarrow> bool) \<Rightarrow> phase_shift \<Rightarrow> bool" where
  "all_phases P s \<longleftrightarrow> (\<forall>i p. phase_at s i = Some p \<longrightarrow> P p)"

definition only_conditions :: "(phase_ref \<Rightarrow> bool) \<Rightarrow> bool" where
  "only_conditions P \<longleftrightarrow> (\<forall>p q. pr_AreaConditions p = pr_AreaConditions q \<longrightarrow> P p = P q)"

lemma only_conditions_fails [simp]: "only_conditions (fails C ob)" "only_conditions (\<lambda>p. \<not> fails C ob p)"
  by (simp_all add: only_conditions_def fails_def)

lemma AddPhase_all_phases:
  assumes "ps_inv s" "all_phases P s" "only_conditions P" "\<And>p. pr_AreaConditions p = c \<Longrightarrow> P p"
  shows "all_phases P (snd (PhaseShift_AddPhase k f c r s))"
  unfolding all_phases_def AddPhase_at [OF ps_inv_ok [OF assms(1)]]
proof (intro allI impI)
  fix i p
  assume p: "(if i = ucast k
     then Some (case phase_at s i of None \<Rightarrow> \<lparr>pr_Id = i, pr_Flags = f, pr_References = r, pr_AreaConditions = c\<rparr>
       | Some p \<Rightarrow> p\<lparr>pr_References := pr_References p + r, pr_AreaConditions := (if c \<noteq> None then c else pr_AreaConditions p)\<rparr>)
     else phase_at s i) = Some p"
  show "P p"
  proof (cases "pr_AreaConditions p = c")
    case False
    with p obtain q where "phase_at s i = Some q" "pr_AreaConditions p = pr_AreaConditions q"
      by (auto split: if_splits option.splits)
    then show ?thesis using assms(2,3) unfolding all_phases_def only_conditions_def by metis
  qed (use assms(4) in auto)
qed

lemma RemovePhase_all_phases:
  assumes "ps_inv s" "all_phases P s" "only_conditions P"
  shows "all_phases P (snd (PhaseShift_RemovePhase k s))"
  unfolding all_phases_def RemovePhase_at(1) [OF ps_inv_ok [OF assms(1)]]
proof (intro allI impI)
  fix i p
  assume "(if i = ucast k
     then (case phase_at s i of None \<Rightarrow> None
       | Some p \<Rightarrow> if pr_References p = 1 then None else Some (p\<lparr>pr_References := pr_References p - 1\<rparr>))
     else phase_at s i) = Some p"
  then obtain q where "phase_at s i = Some q" "pr_AreaConditions p = pr_AreaConditions q"
    by (auto split: if_splits option.splits)
  then show "P p" using assms(2,3) unfolding all_phases_def only_conditions_def by metis
qed

lemma AddPhase_refs:
  "ps_inv s \<Longrightarrow> refs_at (snd (PhaseShift_AddPhase k f c r s)) i = refs_at s i + (if i = ucast k then r else 0)"
  by (auto simp: refs_at_def AddPhase_at ps_inv_ok split: option.split)

lemma RemovePhase_refs:
  "ps_inv s \<Longrightarrow> refs_at (snd (PhaseShift_RemovePhase k s)) i =
    refs_at s i - (if i = ucast k \<and> fst (PhaseShift_RemovePhase k s) \<noteq> ErNotFound then 1 else 0)"
  by (auto simp: refs_at_def RemovePhase_at ps_inv_ok split: option.split)

lemma drop_phase_refs:
  "ps_inv s \<Longrightarrow> phase_at s (pr_Id p) = Some p \<Longrightarrow>
    refs_at (drop_phase p s) i = refs_at s i - (if i = pr_Id p then pr_References p else 0)"
  by (auto simp: refs_at_def drop_phase_at ps_inv_ok split: option.split)

text \<open>A list of elements of a shift that are still there.\<close>

definition present :: "phase_ref list \<Rightarrow> phase_shift \<Rightarrow> bool" where
  "present ps s \<longleftrightarrow> distinct (map pr_Id ps) \<and> (\<forall>p \<in> set ps. phase_at s (pr_Id p) = Some p)"

lemma present_all: "ps_inv s \<Longrightarrow> present (ps_Phases s) s"
  using ps_inv_ok [of s] fs_find_iff [of pr_Id "ps_Phases s"]
  by (auto simp: present_def fs_ok_def sorted_wrt_map [symmetric] strict_sorted_iff)

lemma present_drop:
  assumes "present (p # ps) s" "ps_inv s"
  shows "present ps (drop_phase p s)"
proof -
  have at: "phase_at s (pr_Id p) = Some p" using assms(1) by (simp add: present_def)
  have "phase_at (drop_phase p s) (pr_Id q) = Some q" if "q \<in> set ps" for q
  proof -
    have "phase_at s (pr_Id q) = Some q" "pr_Id q \<noteq> pr_Id p"
      using assms(1) that by (simp add: present_def, metis (no_types) assms(1) distinct.simps(2) image_eqI list.set_map list.simps(9) present_def)
    then show ?thesis using drop_phase_at [OF ps_inv_ok [OF assms(2)] at, of "pr_Id q"] by simp
  qed
  then show ?thesis using assms(1) by (simp add: present_def)
qed

lemma suppress_phases_spec:
  assumes C: "stable_conditions C"
  shows "suppress_phases C ps (ob, n) = (ob', n') \<Longrightarrow> ps_inv (po_shift ob) \<Longrightarrow> ps_inv n \<Longrightarrow> present ps (po_shift ob) \<Longrightarrow>
    all_phases (fails C ob) n \<Longrightarrow> (\<And>i p. phase_at (po_shift ob) i = Some p \<Longrightarrow> fails C ob p \<Longrightarrow> p \<in> set ps) \<Longrightarrow>
    same_but_shifts ob ob' \<and> po_suppressed ob' = po_suppressed ob \<and> ps_inv (po_shift ob') \<and> ps_inv n' \<and>
    ps_VisibleMapIds (po_shift ob') = ps_VisibleMapIds (po_shift ob) \<and> ps_VisibleMapIds n' = ps_VisibleMapIds n \<and>
    all_phases (fails C ob) n' \<and> all_phases (\<lambda>p. \<not> fails C ob p) (po_shift ob') \<and>
    (\<forall>i. refs_at (po_shift ob') i + refs_at n' i = refs_at (po_shift ob) i + refs_at n i)"
proof (induction ps arbitrary: ob n)
  case Nil
  then show ?case by (auto simp: all_phases_def)
next
  case (Cons p ps)
  show ?case
  proof (cases "fails C ob p")
    case False
    then have "suppress_phases C ps (ob, n) = (ob', n')"
      using Cons.prems(1) by (auto simp: fails_def split: option.splits if_splits)
    then show ?thesis using Cons.prems False by (intro Cons.IH) (auto simp: present_def)
  next
    case True
    then obtain c where c: "pr_AreaConditions p = Some c" "\<not> ce_Meets C ob c" by (auto simp: fails_def)
    let ?ob = "ob\<lparr>po_shift := drop_phase p (po_shift ob)\<rparr>"
    let ?n = "snd (PhaseShift_AddPhase (ucast (pr_Id p)) (pr_Flags p) (Some c) (pr_References p) n)"
    have at: "phase_at (po_shift ob) (pr_Id p) = Some p" using Cons.prems(4) by (simp add: present_def)
    have f: "fails C ?ob = fails C ob" using stable_fails [OF C, of ob ?ob] by auto
    have r: "suppress_phases C ps (?ob, ?n) = (ob', n')" using Cons.prems(1) c by simp
    have n: "all_phases (fails C ob) ?n" using c by (intro AddPhase_all_phases Cons.prems(3,5) only_conditions_fails) (simp add: fails_def)
    have "p' \<in> set ps" if "phase_at (po_shift ?ob) i = Some p'" "fails C ?ob p'" for i p'
      using that Cons.prems(6) [of i p'] f at Cons.prems(2)
      by (auto simp: drop_phase_at ps_inv_ok fs_find_iff [OF ps_inv_ok [OF Cons.prems(2)]] split: if_splits)
    note IH = Cons.IH [OF r _ _ _ _ this, unfolded f]
    have "same_but_shifts ?ob ob' \<and> po_suppressed ob' = po_suppressed ?ob \<and> ps_inv (po_shift ob') \<and> ps_inv n' \<and>
      ps_VisibleMapIds (po_shift ob') = ps_VisibleMapIds (po_shift ?ob) \<and> ps_VisibleMapIds n' = ps_VisibleMapIds ?n \<and>
      all_phases (fails C ob) n' \<and> all_phases (\<lambda>p. \<not> fails C ob p) (po_shift ob') \<and>
      (\<forall>i. refs_at (po_shift ob') i + refs_at n' i = refs_at (po_shift ?ob) i + refs_at ?n i)"
      using Cons.prems(2-4) at n by (intro IH) (auto intro: drop_phase_inv PhaseShift_AddPhase_inv present_drop)
    then show ?thesis
      using Cons.prems(2,3) at same_but_shifts_trans [of ob ?ob ob'] by (auto simp: AddPhase_refs drop_phase_refs)
  qed
qed

lemma restore_phases_spec:
  assumes C: "stable_conditions C"
  shows "ps_inv (po_shift ob) \<Longrightarrow> ps_inv (po_suppressed ob) \<Longrightarrow> present ps (po_suppressed ob) \<Longrightarrow>
    (\<And>p. p \<in> set ps \<Longrightarrow> pr_AreaConditions p \<noteq> None) \<Longrightarrow> all_phases (\<lambda>p. \<not> fails C ob p) (po_shift ob) \<Longrightarrow>
    (\<And>i p. phase_at (po_suppressed ob) i = Some p \<Longrightarrow> \<not> fails C ob p \<Longrightarrow> p \<in> set ps) \<Longrightarrow>
    \<exists>ob' ch'. restore_phases C ps (ob, ch) = Some (ob', ch') \<and>
      same_but_shifts ob ob' \<and> ps_inv (po_shift ob') \<and> ps_inv (po_suppressed ob') \<and>
      ps_VisibleMapIds (po_shift ob') = ps_VisibleMapIds (po_shift ob) \<and>
      ps_VisibleMapIds (po_suppressed ob') = ps_VisibleMapIds (po_suppressed ob) \<and>
      all_phases (\<lambda>p. \<not> fails C ob p) (po_shift ob') \<and> all_phases (fails C ob) (po_suppressed ob') \<and>
      (\<forall>i. refs_at (po_shift ob') i + refs_at (po_suppressed ob') i = refs_at (po_shift ob) i + refs_at (po_suppressed ob) i)"
proof (induction ps arbitrary: ob ch)
  case Nil
  then show ?case by (auto simp: all_phases_def)
next
  case (Cons p ps)
  obtain c where c: "pr_AreaConditions p = Some c" using Cons.prems(4) [of p] by auto
  show ?case
  proof (cases "ce_Meets C ob c")
    case False
    then have "fails C ob p" using c by (simp add: fails_def)
    then have "q \<in> set ps" if "phase_at (po_suppressed ob) i = Some q" "\<not> fails C ob q" for i q
      using Cons.prems(6) [of i q] that by auto
    moreover have "present ps (po_suppressed ob)" using Cons.prems(3) by (simp add: present_def)
    ultimately show ?thesis using Cons.IH [of ob ch] Cons.prems(1,2,4,5) False c by simp
  next
    case True
    let ?a = "PhaseShift_AddPhase (ucast (pr_Id p)) (pr_Flags p) (Some c) (pr_References p) (po_shift ob)"
    let ?ob = "ob\<lparr>po_shift := snd ?a, po_suppressed := drop_phase p (po_suppressed ob)\<rparr>"
    have at: "phase_at (po_suppressed ob) (pr_Id p) = Some p" using Cons.prems(3) by (simp add: present_def)
    have f: "fails C ?ob = fails C ob" using stable_fails [OF C, of ob ?ob] by auto
    have v: "all_phases (\<lambda>p. \<not> fails C ob p) (snd ?a)"
      using True by (intro AddPhase_all_phases Cons.prems(1,5) only_conditions_fails) (simp add: fails_def)
    have "q \<in> set ps" if "phase_at (po_suppressed ?ob) i = Some q" "\<not> fails C ob q" for i q
      using that Cons.prems(6) [of i q] at Cons.prems(2)
      by (auto simp: drop_phase_at ps_inv_ok fs_find_iff [OF ps_inv_ok [OF Cons.prems(2)]] split: if_splits)
    moreover have "ps_inv (po_shift ?ob)" "ps_inv (po_suppressed ?ob)" "present ps (po_suppressed ?ob)"
      using Cons.prems(1-3) at by (auto intro: drop_phase_inv PhaseShift_AddPhase_inv present_drop)
    ultimately obtain ob' ch' where r: "restore_phases C ps (?ob, fst ?a \<or> ch) = Some (ob', ch')"
      and IH: "same_but_shifts ?ob ob' \<and> ps_inv (po_shift ob') \<and> ps_inv (po_suppressed ob') \<and>
      ps_VisibleMapIds (po_shift ob') = ps_VisibleMapIds (po_shift ?ob) \<and>
      ps_VisibleMapIds (po_suppressed ob') = ps_VisibleMapIds (po_suppressed ?ob) \<and>
      all_phases (\<lambda>p. \<not> fails C ob p) (po_shift ob') \<and> all_phases (fails C ob) (po_suppressed ob') \<and>
      (\<forall>i. refs_at (po_shift ob') i + refs_at (po_suppressed ob') i = refs_at (po_shift ?ob) i + refs_at (po_suppressed ?ob) i)"
      using Cons.IH [of ?ob "fst ?a \<or> ch", unfolded f] Cons.prems(4) v by auto
    have "restore_phases C (p # ps) (ob, ch) = Some (ob', ch')"
      using r c True by (simp add: split_def Let_def)
    then show ?thesis
      using IH Cons.prems(1,2) at same_but_shifts_trans [of ob ?ob ob'] by (auto simp: AddPhase_refs drop_phase_refs)
  qed
qed

lemma keep_aura_phases_spec:
  "keep_aura_phases st ids (s, n) = (s', n') \<Longrightarrow> ps_inv s \<Longrightarrow> ps_inv n \<Longrightarrow>
    all_phases (\<lambda>p. \<not> fails C ob p) s \<Longrightarrow> all_phases (fails C ob) n \<Longrightarrow>
    ps_inv s' \<and> ps_inv n' \<and> ps_VisibleMapIds s' = ps_VisibleMapIds s \<and> ps_VisibleMapIds n' = ps_VisibleMapIds n \<and>
    all_phases (\<lambda>p. \<not> fails C ob p) s' \<and> all_phases (fails C ob) n' \<and> (\<forall>i. refs_at s' i + refs_at n' i = refs_at s i + refs_at n i)"
proof (induction ids arbitrary: s n)
  case (Cons k ids)
  let ?r = "PhaseShift_RemovePhase k n"
  let ?s = "if fst ?r \<noteq> ErNotFound then snd (PhaseShift_AddPhase k (GetPhaseFlags st k) None 1 s) else s"
  have "keep_aura_phases st ids (?s, snd ?r) = (s', n')" using Cons.prems(1) by (simp add: split_def Let_def)
  moreover have "all_phases (\<lambda>p. \<not> fails C ob p) (snd (PhaseShift_AddPhase k (GetPhaseFlags st k) None 1 s))"
    by (intro AddPhase_all_phases Cons.prems(2,4) only_conditions_fails) (simp add: fails_def)
  then have "all_phases (\<lambda>p. \<not> fails C ob p) ?s" using Cons.prems(4) by simp
  moreover have "all_phases (fails C ob) (snd ?r)" using Cons.prems(3,5) by (auto intro: RemovePhase_all_phases)
  moreover have "ps_inv ?s" "ps_inv (snd ?r)" using Cons.prems by (auto intro: PhaseShift_AddPhase_inv PhaseShift_RemovePhase_inv)
  ultimately show ?case using Cons.IH [of ?s "snd ?r"] Cons.prems(2,3) by (auto simp: AddPhase_refs RemovePhase_refs)
qed simp

lemma fs_find_Cons: "fs_ok key (p # ps) \<Longrightarrow> fs_find key k (p # ps) = (if key p = k then Some p else fs_find key k ps)"
  by (rule fs_find_eqI) (auto simp: fs_find_iff)

lemma add_suppressed_phases:
  "ps_inv s \<Longrightarrow> fs_ok pr_Id ps \<Longrightarrow> all_phases (fails C ob) s \<Longrightarrow> (\<And>p. p \<in> set ps \<Longrightarrow> fails C ob p) \<Longrightarrow>
   s' = fold (\<lambda>p s. snd (PhaseShift_AddPhase (ucast (pr_Id p)) (pr_Flags p) (pr_AreaConditions p) (pr_References p) s)) ps s \<Longrightarrow>
   ps_inv s' \<and> all_phases (fails C ob) s' \<and> ps_VisibleMapIds s' = ps_VisibleMapIds s \<and>
   (\<forall>i. refs_at s' i = refs_at s i + (case fs_find pr_Id i ps of None \<Rightarrow> 0 | Some p \<Rightarrow> pr_References p))"
proof (induction ps arbitrary: s)
  case Nil
  then show ?case by (simp add: fs_find_def fs_lower_bound_def)
next
  case (Cons p ps)
  let ?s = "snd (PhaseShift_AddPhase (ucast (pr_Id p)) (pr_Flags p) (pr_AreaConditions p) (pr_References p) s)"
  have n: "fs_find pr_Id (pr_Id p) ps = None" using Cons.prems(2) by (auto simp: fs_find_None_iff)
  have "all_phases (fails C ob) ?s"
    using Cons.prems(4) [of p] by (intro AddPhase_all_phases Cons.prems(1,3) only_conditions_fails) (auto simp: fails_def)
  then have "ps_inv s' \<and> all_phases (fails C ob) s' \<and> ps_VisibleMapIds s' = ps_VisibleMapIds ?s \<and>
   (\<forall>i. refs_at s' i = refs_at ?s i + (case fs_find pr_Id i ps of None \<Rightarrow> 0 | Some p \<Rightarrow> pr_References p))"
    using Cons.prems by (intro Cons.IH) (auto intro: PhaseShift_AddPhase_inv)
  then show ?case using Cons.prems(1,2) n by (auto simp: AddPhase_refs fs_find_Cons)
qed

end
