(* ===== verification/PhasingUpdates_Props.thy ===== *)
theory PhasingUpdates_Props imports PhasingUpdates_Phases begin

text \<open>
  The loops of \<^verbatim>\<open>OnConditionChange\<close> over visible maps, and the properties of the updates: what a condition
  change does to an object, where it goes wrong, and when the walk over the parents of an area ends.
\<close>

section \<open>Visible maps\<close>

abbreviation map_at :: "phase_shift \<Rightarrow> u32 \<Rightarrow> (int \<times> nat option) option" where
  "map_at s k \<equiv> om_find k (ps_VisibleMapIds s)"

definition map_refs_at :: "phase_shift \<Rightarrow> u32 \<Rightarrow> int" where
  "map_refs_at s k = (case map_at s k of None \<Rightarrow> 0 | Some (r, _) \<Rightarrow> r)"

definition all_maps :: "(u32 \<Rightarrow> bool) \<Rightarrow> phase_shift \<Rightarrow> bool" where
  "all_maps P s \<longleftrightarrow> om_ok (ps_VisibleMapIds s) \<and> (\<forall>k r info. map_at s k = Some (r, info) \<longrightarrow> P k \<and> info \<noteq> None)"

text \<open>The phases and their counters are those of another shift.\<close>

definition same_phases :: "phase_shift \<Rightarrow> phase_shift \<Rightarrow> bool" where
  "same_phases s s' \<longleftrightarrow> s\<lparr>ps_VisibleMapIds := [], ps_UiWorldMapAreaIdSwaps := []\<rparr> = s'\<lparr>ps_VisibleMapIds := [], ps_UiWorldMapAreaIdSwaps := []\<rparr>"

lemma same_phases_refl [simp]: "same_phases s s"
  by (simp add: same_phases_def)

lemma same_phases_trans: "same_phases a b \<Longrightarrow> same_phases b c \<Longrightarrow> same_phases a c"
  by (simp add: same_phases_def)

lemma same_phases_upd [simp]: "same_phases s (s\<lparr>ps_VisibleMapIds := v\<rparr>)" "same_phases s (s\<lparr>ps_UiWorldMapAreaIdSwaps := u\<rparr>)"
  by (simp_all add: same_phases_def)

lemma same_phases_facts:
  assumes "same_phases s s'"
  shows "ps_Phases s' = ps_Phases s" "ps_inv s' = ps_inv s"
  using assms
  by (cases s; cases s'; simp add: same_phases_def ps_inv_def ps_counts_def ps_flags_ok_def ps_unphased_def)+

lemma same_phases_at:
  assumes "same_phases s s'"
  shows "refs_at s' i = refs_at s i" "all_phases P s' = all_phases P s"
  by (simp_all add: refs_at_def all_phases_def same_phases_facts [OF assms])

lemma swap_maps:
  "same_phases s (snd (PhaseShift_AddUiWorldMapAreaIdSwap a r s))"
  "ps_VisibleMapIds (snd (PhaseShift_AddUiWorldMapAreaIdSwap a r s)) = ps_VisibleMapIds s"
  "same_phases s (snd (PhaseShift_RemoveUiWorldMapAreaIdSwap a s))"
  "ps_VisibleMapIds (snd (PhaseShift_RemoveUiWorldMapAreaIdSwap a s)) = ps_VisibleMapIds s"
  by (auto simp: PhaseShift_AddUiWorldMapAreaIdSwap_def PhaseShift_RemoveUiWorldMapAreaIdSwap_def Let_def split: option.split)

lemma add_swaps_maps:
  "same_phases s (snd (add_swaps ids c s))" "ps_VisibleMapIds (snd (add_swaps ids c s)) = ps_VisibleMapIds s"
  by (induction ids arbitrary: c s) (auto simp: split_def Let_def swap_maps intro: same_phases_trans [OF swap_maps(1)])

lemma remove_swaps_maps:
  "same_phases s (snd (remove_swaps ids c s))" "ps_VisibleMapIds (snd (remove_swaps ids c s)) = ps_VisibleMapIds s"
  by (induction ids arbitrary: c s) (auto simp: split_def Let_def swap_maps intro: same_phases_trans [OF swap_maps(3)])

lemma AddVisibleMapId_at:
  "map_at (snd (PhaseShift_AddVisibleMapId k info r s)) j =
     (if j = k then Some (case map_at s k of None \<Rightarrow> (r, info) | Some (q, i) \<Rightarrow> (q + r, i)) else map_at s j)"
  "same_phases s (snd (PhaseShift_AddVisibleMapId k info r s))"
  "om_ok (ps_VisibleMapIds s) \<Longrightarrow> om_ok (ps_VisibleMapIds (snd (PhaseShift_AddVisibleMapId k info r s)))"
  by (auto simp: PhaseShift_AddVisibleMapId_def split: option.split)

lemma AddVisibleMapId_refs:
  "map_refs_at (snd (PhaseShift_AddVisibleMapId k info r s)) j = map_refs_at s j + (if j = k then r else 0)"
  by (auto simp: map_refs_at_def AddVisibleMapId_at(1) split: option.split)

lemma AddVisibleMapId_all:
  "all_maps P s \<Longrightarrow> P k \<Longrightarrow> all_maps P (snd (PhaseShift_AddVisibleMapId k (Some info) r s))"
  by (auto simp: all_maps_def AddVisibleMapId_at split: option.splits if_splits)

text \<open>Entries of a shift that are still there.\<close>

definition maps_present :: "(u32 \<times> int \<times> nat option) list \<Rightarrow> phase_shift \<Rightarrow> bool" where
  "maps_present ms s \<longleftrightarrow> distinct (map fst ms) \<and> (\<forall>(k, v) \<in> set ms. map_at s k = Some v \<and> snd v \<noteq> None)"

lemma maps_present_all: "all_maps P s \<Longrightarrow> maps_present (ps_VisibleMapIds s) s"
  by (fastforce simp: maps_present_def all_maps_def om_ok_distinct om_find_iff)

lemma maps_present_erase:
  assumes "maps_present ((k, v) # ms) s" "ps_VisibleMapIds s' = om_erase k (ps_VisibleMapIds s)"
  shows "maps_present ms s'"
  using assms by (force simp: maps_present_def)

lemma map_erase_refs:
  "ps_VisibleMapIds s' = om_erase k (ps_VisibleMapIds s) \<Longrightarrow> map_at s k = Some (r, info) \<Longrightarrow>
    map_refs_at s' j = map_refs_at s j - (if j = k then r else 0)"
  by (auto simp: map_refs_at_def)

lemma all_maps_erase: "all_maps P s \<Longrightarrow> ps_VisibleMapIds s' = om_erase k (ps_VisibleMapIds s) \<Longrightarrow> all_maps P s'"
  by (auto simp: all_maps_def split: if_splits)

lemma suppress_maps_spec:
  assumes C: "stable_conditions C"
  shows "maps_present ms (po_shift ob) \<Longrightarrow> all_maps (\<lambda>_. True) (po_shift ob) \<Longrightarrow> all_maps (\<lambda>k. \<not> ce_MeetsSwap C ob k) n \<Longrightarrow>
    (\<And>k v. map_at (po_shift ob) k = Some v \<Longrightarrow> \<not> ce_MeetsSwap C ob k \<Longrightarrow> (k, v) \<in> set ms) \<Longrightarrow>
    \<exists>ob' n' ch'. suppress_maps E C ms (ob, n, ch) = Some (ob', n', ch') \<and>
      same_but_shifts ob ob' \<and> po_suppressed ob' = po_suppressed ob \<and> same_phases (po_shift ob) (po_shift ob') \<and> same_phases n n' \<and>
      all_maps (ce_MeetsSwap C ob) (po_shift ob') \<and> all_maps (\<lambda>k. \<not> ce_MeetsSwap C ob k) n' \<and>
      (\<forall>k. map_refs_at (po_shift ob') k + map_refs_at n' k = map_refs_at (po_shift ob) k + map_refs_at n k)"
proof (induction ms arbitrary: ob n ch)
  case Nil
  then show ?case by (auto simp: all_maps_def)
next
  case (Cons m ms)
  obtain k r i where m: "m = (k, r, i)" by (cases m)
  from Cons.prems(1) m obtain info where at: "map_at (po_shift ob) k = Some (r, Some info)" and i: "i = Some info"
    by (auto simp: maps_present_def)
  show ?case
  proof (cases "ce_MeetsSwap C ob k")
    case True
    then have "(j, v) \<in> set ms" if "map_at (po_shift ob) j = Some v" "\<not> ce_MeetsSwap C ob j" for j v
      using Cons.prems(4) [OF that] that(2) m by auto
    moreover have "maps_present ms (po_shift ob)" using Cons.prems(1) by (simp add: maps_present_def)
    ultimately show ?thesis using Cons.IH [of ob n ch] Cons.prems(2,3) True m by simp
  next
    case False
    let ?n = "snd (PhaseShift_AddVisibleMapId k (Some info) r n)"
    let ?q = "remove_swaps (pe_UiSwaps E info) ch (po_shift ob)"
    let ?s = "snd ?q\<lparr>ps_VisibleMapIds := om_erase k (ps_VisibleMapIds (snd ?q))\<rparr>"
    let ?ob = "ob\<lparr>po_shift := ?s\<rparr>"
    have M: "ce_MeetsSwap C ?ob j = ce_MeetsSwap C ob j" for j using stable_same(2) [OF C, of ob ?ob] by simp
    have v: "ps_VisibleMapIds (po_shift ?ob) = om_erase k (ps_VisibleMapIds (po_shift ob))" by (simp add: remove_swaps_maps)
    have "(j, w) \<in> set ms" if "map_at (po_shift ?ob) j = Some w" "\<not> ce_MeetsSwap C ob j" for j w
      using that Cons.prems(4) [of j w] m by (auto simp: remove_swaps_maps(2) split: if_splits)
    then obtain ob' n' ch' where r: "suppress_maps E C ms (?ob, ?n, fst ?q) = Some (ob', n', ch')"
      and IH: "same_but_shifts ?ob ob' \<and> po_suppressed ob' = po_suppressed ?ob \<and> same_phases (po_shift ?ob) (po_shift ob') \<and> same_phases ?n n' \<and>
      all_maps (ce_MeetsSwap C ob) (po_shift ob') \<and> all_maps (\<lambda>k. \<not> ce_MeetsSwap C ob k) n' \<and>
      (\<forall>k. map_refs_at (po_shift ob') k + map_refs_at n' k = map_refs_at (po_shift ?ob) k + map_refs_at ?n k)"
      using Cons.IH [of ?ob ?n "fst ?q", unfolded M] maps_present_erase [OF Cons.prems(1) [unfolded m] v] all_maps_erase [OF Cons.prems(2) v]
        AddVisibleMapId_all [OF Cons.prems(3), of k] False by blast
    have "suppress_maps E C (m # ms) (ob, n, ch) = Some (ob', n', ch')"
      using r m i False by (simp add: split_def Let_def)
    moreover have "same_but_shifts ob ob'" using IH same_but_shifts_trans [OF same_but_shifts_upd(1)] by blast
    moreover have "same_phases (po_shift ob) (po_shift ?ob)" using same_phases_trans [OF remove_swaps_maps(1) same_phases_upd(1)] by simp
    then have "same_phases (po_shift ob) (po_shift ob')" using IH same_phases_trans by blast
    moreover have "same_phases n n'" using IH same_phases_trans [OF AddVisibleMapId_at(2)] by blast
    moreover have "map_refs_at (po_shift ?ob) j + map_refs_at ?n j = map_refs_at (po_shift ob) j + map_refs_at n j" for j
      using map_erase_refs [OF v at] by (simp add: AddVisibleMapId_refs)
    ultimately show ?thesis using IH by simp
  qed
qed

lemma restore_maps_spec:
  assumes C: "stable_conditions C"
  shows "maps_present ms (po_suppressed ob) \<Longrightarrow> all_maps (\<lambda>_. True) (po_suppressed ob) \<Longrightarrow> all_maps (ce_MeetsSwap C ob) (po_shift ob) \<Longrightarrow>
    (\<And>k v. map_at (po_suppressed ob) k = Some v \<Longrightarrow> ce_MeetsSwap C ob k \<Longrightarrow> (k, v) \<in> set ms) \<Longrightarrow>
    \<exists>ob' ch'. restore_maps E C ms (ob, ch) = Some (ob', ch') \<and>
      same_but_shifts ob ob' \<and> same_phases (po_shift ob) (po_shift ob') \<and> same_phases (po_suppressed ob) (po_suppressed ob') \<and>
      all_maps (ce_MeetsSwap C ob) (po_shift ob') \<and> all_maps (\<lambda>k. \<not> ce_MeetsSwap C ob k) (po_suppressed ob') \<and>
      (\<forall>k. map_refs_at (po_shift ob') k + map_refs_at (po_suppressed ob') k = map_refs_at (po_shift ob) k + map_refs_at (po_suppressed ob) k)"
proof (induction ms arbitrary: ob ch)
  case Nil
  then show ?case by (auto simp: all_maps_def)
next
  case (Cons m ms)
  obtain k r i where m: "m = (k, r, i)" by (cases m)
  from Cons.prems(1) m obtain info where at: "map_at (po_suppressed ob) k = Some (r, Some info)" and i: "i = Some info"
    by (auto simp: maps_present_def)
  show ?case
  proof (cases "ce_MeetsSwap C ob k")
    case False
    then have "(j, v) \<in> set ms" if "map_at (po_suppressed ob) j = Some v" "ce_MeetsSwap C ob j" for j v
      using Cons.prems(4) [OF that] that(2) m by auto
    moreover have "maps_present ms (po_suppressed ob)" using Cons.prems(1) by (simp add: maps_present_def)
    ultimately show ?thesis using Cons.IH [of ob ch] Cons.prems(2,3) False m by simp
  next
    case True
    let ?a = "PhaseShift_AddVisibleMapId k (Some info) r (po_shift ob)"
    let ?q = "add_swaps (pe_UiSwaps E info) (fst ?a \<or> ch) (snd ?a)"
    let ?t = "po_suppressed ob\<lparr>ps_VisibleMapIds := om_erase k (ps_VisibleMapIds (po_suppressed ob))\<rparr>"
    let ?ob = "ob\<lparr>po_shift := snd ?q, po_suppressed := ?t\<rparr>"
    have M: "ce_MeetsSwap C ?ob j = ce_MeetsSwap C ob j" for j using stable_same(2) [OF C, of ob ?ob] by simp
    have v: "ps_VisibleMapIds (po_suppressed ?ob) = om_erase k (ps_VisibleMapIds (po_suppressed ob))" by simp
    have s: "all_maps (ce_MeetsSwap C ob) (po_shift ?ob)"
      using AddVisibleMapId_all [OF Cons.prems(3) True, of info r] by (simp add: all_maps_def add_swaps_maps(2))
    have "(j, w) \<in> set ms" if "map_at (po_suppressed ?ob) j = Some w" "ce_MeetsSwap C ob j" for j w
      using that Cons.prems(4) [of j w] m by (auto split: if_splits)
    then obtain ob' ch' where r: "restore_maps E C ms (?ob, fst ?q) = Some (ob', ch')"
      and IH: "same_but_shifts ?ob ob' \<and> same_phases (po_shift ?ob) (po_shift ob') \<and> same_phases (po_suppressed ?ob) (po_suppressed ob') \<and>
      all_maps (ce_MeetsSwap C ob) (po_shift ob') \<and> all_maps (\<lambda>k. \<not> ce_MeetsSwap C ob k) (po_suppressed ob') \<and>
      (\<forall>k. map_refs_at (po_shift ob') k + map_refs_at (po_suppressed ob') k = map_refs_at (po_shift ?ob) k + map_refs_at (po_suppressed ?ob) k)"
      using Cons.IH [of ?ob "fst ?q", unfolded M] maps_present_erase [OF Cons.prems(1) [unfolded m] v] all_maps_erase [OF Cons.prems(2) v] s
      by blast
    have "restore_maps E C (m # ms) (ob, ch) = Some (ob', ch')"
      using r m i True by (simp add: split_def Let_def)
    moreover have "same_but_shifts ob ob'" using IH same_but_shifts_trans [OF same_but_shifts_upd(2)] by blast
    moreover have "same_phases (po_suppressed ob) (po_suppressed ?ob)" by simp
    then have "same_phases (po_suppressed ob) (po_suppressed ob')" using IH same_phases_trans by blast
    moreover have "same_phases (po_shift ob) (po_shift ?ob)" using same_phases_trans [OF AddVisibleMapId_at(2) add_swaps_maps(1)] by simp
    then have "same_phases (po_shift ob) (po_shift ob')" using IH same_phases_trans by blast
    moreover have "map_refs_at (po_shift ?ob) j + map_refs_at (po_suppressed ?ob) j = map_refs_at (po_shift ob) j + map_refs_at (po_suppressed ob) j" for j
      using map_erase_refs [OF v at, of j] AddVisibleMapId_refs [of k "Some info" r "po_shift ob" j]
      by (simp add: map_refs_at_def [of "snd ?q"] map_refs_at_def [of "snd ?a"] add_swaps_maps(2))
    ultimately show ?thesis using IH by simp
  qed
qed

lemma add_suppressed_maps:
  "om_ok ms \<Longrightarrow> (\<And>k r i. (k, r, i) \<in> set ms \<Longrightarrow> P k \<and> i \<noteq> None) \<Longrightarrow> all_maps P s \<Longrightarrow>
   s' = fold (\<lambda>(k, references, info) s. snd (PhaseShift_AddVisibleMapId k info references s)) ms s \<Longrightarrow>
   same_phases s s' \<and> all_maps P s' \<and>
   (\<forall>k. map_refs_at s' k = map_refs_at s k + (case om_find k ms of None \<Rightarrow> 0 | Some (r, _) \<Rightarrow> r))"
proof (induction ms arbitrary: s)
  case (Cons m ms)
  obtain k r i where m: "m = (k, r, i)" by (cases m)
  from Cons.prems(2) m obtain info where i: "i = Some info" "P k" by fastforce
  let ?s = "snd (PhaseShift_AddVisibleMapId k (Some info) r s)"
  have n: "om_find k ms = None" using Cons.prems(1) m by (auto simp: om_find_None_iff)
  have "same_phases ?s s' \<and> all_maps P s' \<and>
   (\<forall>k. map_refs_at s' k = map_refs_at ?s k + (case om_find k ms of None \<Rightarrow> 0 | Some (r, _) \<Rightarrow> r))"
    using Cons.prems m i by (intro Cons.IH) (auto intro: AddVisibleMapId_all)
  then show ?case using same_phases_trans [OF AddVisibleMapId_at(2)] n m by (auto simp: AddVisibleMapId_refs)
qed simp

section \<open>What a condition change does\<close>

text \<open>
  The two shifts of an object fit together: consistent counters, and nothing suppressed without a condition that can bring it back.
\<close>

definition shifts_ok :: "phase_object \<Rightarrow> bool" where
  "shifts_ok ob \<longleftrightarrow> ps_inv (po_shift ob) \<and> ps_inv (po_suppressed ob) \<and>
     all_phases (\<lambda>p. pr_AreaConditions p \<noteq> None) (po_suppressed ob) \<and>
     all_maps (\<lambda>_. True) (po_shift ob) \<and> all_maps (\<lambda>_. True) (po_suppressed ob)"

text \<open>Visible is exactly what the conditions allow.\<close>

definition conditions_applied :: "condition_env \<Rightarrow> phase_object \<Rightarrow> bool" where
  "conditions_applied C ob \<longleftrightarrow>
     all_phases (\<lambda>p. \<not> fails C ob p) (po_shift ob) \<and> all_phases (fails C ob) (po_suppressed ob) \<and>
     all_maps (ce_MeetsSwap C ob) (po_shift ob) \<and> all_maps (\<lambda>k. \<not> ce_MeetsSwap C ob k) (po_suppressed ob)"

text \<open>The state between the loops: the object, the new suppressions, and the totals it started with.\<close>

definition phases_sorted :: "condition_env \<Rightarrow> phase_object \<Rightarrow> phase_object \<Rightarrow> phase_shift \<Rightarrow> bool" where
  "phases_sorted C ob ob' n \<longleftrightarrow> same_but_shifts ob ob' \<and> ps_inv (po_shift ob') \<and> ps_inv (po_suppressed ob') \<and> ps_inv n \<and>
     all_phases (\<lambda>p. \<not> fails C ob p) (po_shift ob') \<and> all_phases (fails C ob) (po_suppressed ob') \<and> all_phases (fails C ob) n \<and>
     (\<forall>i. refs_at (po_shift ob') i + refs_at (po_suppressed ob') i + refs_at n i = refs_at (po_shift ob) i + refs_at (po_suppressed ob) i)"

definition maps_sorted :: "condition_env \<Rightarrow> phase_object \<Rightarrow> phase_object \<Rightarrow> phase_shift \<Rightarrow> bool" where
  "maps_sorted C ob ob' n \<longleftrightarrow>
     all_maps (ce_MeetsSwap C ob) (po_shift ob') \<and> all_maps (\<lambda>k. \<not> ce_MeetsSwap C ob k) (po_suppressed ob') \<and>
     all_maps (\<lambda>k. \<not> ce_MeetsSwap C ob k) n \<and>
     (\<forall>k. map_refs_at (po_shift ob') k + map_refs_at (po_suppressed ob') k + map_refs_at n k =
       map_refs_at (po_shift ob) k + map_refs_at (po_suppressed ob) k)"

lemma PhaseShift_new_facts [simp]:
  "ps_inv PhaseShift_new" "all_phases P PhaseShift_new" "refs_at PhaseShift_new i = 0" "all_maps Q PhaseShift_new"
  "map_refs_at PhaseShift_new k = 0"
  by (simp_all add: ps_inv_def ps_counts_def ps_flags_ok_def ps_unphased_def all_phases_def refs_at_def all_maps_def map_refs_at_def
      PhaseShift_new_def fs_find_def fs_lower_bound_def)

lemma map_refs_cong: "ps_VisibleMapIds s = ps_VisibleMapIds t \<Longrightarrow> map_refs_at s = map_refs_at t"
  by (simp add: map_refs_at_def fun_eq_iff)

lemma all_maps_cong: "ps_VisibleMapIds s = ps_VisibleMapIds t \<Longrightarrow> all_maps P s = all_maps P t"
  by (simp add: all_maps_def)

lemma phase_loops:
  assumes C: "stable_conditions C" and ok: "shifts_ok ob"
  shows "\<exists>ob1 n ob2 ch. suppress_phases C (ps_Phases (po_shift ob)) (ob, PhaseShift_new) = (ob1, n) \<and>
    restore_phases C (ps_Phases (po_suppressed ob1)) (ob1, False) = Some (ob2, ch) \<and> phases_sorted C ob ob2 n \<and>
    ps_VisibleMapIds (po_shift ob2) = ps_VisibleMapIds (po_shift ob) \<and>
    ps_VisibleMapIds (po_suppressed ob2) = ps_VisibleMapIds (po_suppressed ob) \<and> ps_VisibleMapIds n = []"
proof -
  note ok = ok [unfolded shifts_ok_def]
  obtain ob1 n where e1: "suppress_phases C (ps_Phases (po_shift ob)) (ob, PhaseShift_new) = (ob1, n)" by fastforce
  have s1: "same_but_shifts ob ob1 \<and> po_suppressed ob1 = po_suppressed ob \<and> ps_inv (po_shift ob1) \<and> ps_inv n \<and>
    ps_VisibleMapIds (po_shift ob1) = ps_VisibleMapIds (po_shift ob) \<and> ps_VisibleMapIds n = ps_VisibleMapIds PhaseShift_new \<and>
    all_phases (fails C ob) n \<and> all_phases (\<lambda>p. \<not> fails C ob p) (po_shift ob1) \<and>
    (\<forall>i. refs_at (po_shift ob1) i + refs_at n i = refs_at (po_shift ob) i + refs_at PhaseShift_new i)"
    using ok by (intro suppress_phases_spec [OF C e1]) (auto intro: present_all simp: fs_find_iff ps_inv_ok)
  have f: "fails C ob1 = fails C ob" using stable_fails [OF C, of ob ob1] s1 by auto
  have "p \<in> set (ps_Phases (po_suppressed ob1))" if "phase_at (po_suppressed ob1) i = Some p" for i p
    using that s1 ok by (auto simp: fs_find_iff ps_inv_ok)
  moreover have "pr_AreaConditions p \<noteq> None" if "p \<in> set (ps_Phases (po_suppressed ob1))" for p
    using that s1 ok fs_find_iff [OF ps_inv_ok, of "po_suppressed ob"] unfolding all_phases_def by metis
  ultimately have "\<exists>ob2 ch. restore_phases C (ps_Phases (po_suppressed ob1)) (ob1, False) = Some (ob2, ch) \<and>
      same_but_shifts ob1 ob2 \<and> ps_inv (po_shift ob2) \<and> ps_inv (po_suppressed ob2) \<and>
      ps_VisibleMapIds (po_shift ob2) = ps_VisibleMapIds (po_shift ob1) \<and>
      ps_VisibleMapIds (po_suppressed ob2) = ps_VisibleMapIds (po_suppressed ob1) \<and>
      all_phases (\<lambda>p. \<not> fails C ob1 p) (po_shift ob2) \<and> all_phases (fails C ob1) (po_suppressed ob2) \<and>
      (\<forall>i. refs_at (po_shift ob2) i + refs_at (po_suppressed ob2) i = refs_at (po_shift ob1) i + refs_at (po_suppressed ob1) i)"
    using s1 ok by (intro restore_phases_spec [OF C]) (auto simp: f intro: present_all)
  then obtain ob2 ch where e2: "restore_phases C (ps_Phases (po_suppressed ob1)) (ob1, False) = Some (ob2, ch)"
    and s2: "same_but_shifts ob1 ob2 \<and> ps_inv (po_shift ob2) \<and> ps_inv (po_suppressed ob2) \<and>
      ps_VisibleMapIds (po_shift ob2) = ps_VisibleMapIds (po_shift ob1) \<and>
      ps_VisibleMapIds (po_suppressed ob2) = ps_VisibleMapIds (po_suppressed ob1) \<and>
      all_phases (\<lambda>p. \<not> fails C ob p) (po_shift ob2) \<and> all_phases (fails C ob) (po_suppressed ob2) \<and>
      (\<forall>i. refs_at (po_shift ob2) i + refs_at (po_suppressed ob2) i = refs_at (po_shift ob1) i + refs_at (po_suppressed ob1) i)"
    unfolding f by blast
  have "phases_sorted C ob ob2 n"
    unfolding phases_sorted_def using s1 s2 same_but_shifts_trans [of ob ob1 ob2] by (simp add: algebra_simps)
  then show ?thesis using e1 e2 s1 s2 by (simp add: PhaseShift_new_def)
qed

lemma map_loops:
  assumes C: "stable_conditions C" and ok: "shifts_ok ob" and p: "phases_sorted C ob ob2 n"
    and v: "ps_VisibleMapIds (po_shift ob2) = ps_VisibleMapIds (po_shift ob)"
    "ps_VisibleMapIds (po_suppressed ob2) = ps_VisibleMapIds (po_suppressed ob)" "ps_VisibleMapIds n = []"
  shows "\<exists>ob3 n3 ch3 ob4 ch4. suppress_maps E C (ps_VisibleMapIds (po_shift ob2)) (ob2, n, ch) = Some (ob3, n3, ch3) \<and>
    restore_maps E C (ps_VisibleMapIds (po_suppressed ob3)) (ob3, ch3) = Some (ob4, ch4) \<and>
    phases_sorted C ob ob4 n3 \<and> maps_sorted C ob ob4 n3"
proof -
  have m: "ce_MeetsSwap C ob2 = ce_MeetsSwap C ob" using stable_same(2) [OF C, of ob ob2] p by (auto simp: phases_sorted_def)
  have am: "all_maps (\<lambda>_. True) (po_shift ob2)" "all_maps (\<lambda>_. True) (po_suppressed ob2)" "all_maps Q n" for Q
    using ok v all_maps_cong [of "po_shift ob2" "po_shift ob"] all_maps_cong [of "po_suppressed ob2" "po_suppressed ob"]
    by (auto simp: shifts_ok_def all_maps_def)
  have "\<exists>ob3 n3 ch3. suppress_maps E C (ps_VisibleMapIds (po_shift ob2)) (ob2, n, ch) = Some (ob3, n3, ch3) \<and>
      same_but_shifts ob2 ob3 \<and> po_suppressed ob3 = po_suppressed ob2 \<and> same_phases (po_shift ob2) (po_shift ob3) \<and> same_phases n n3 \<and>
      all_maps (ce_MeetsSwap C ob2) (po_shift ob3) \<and> all_maps (\<lambda>k. \<not> ce_MeetsSwap C ob2 k) n3 \<and>
      (\<forall>k. map_refs_at (po_shift ob3) k + map_refs_at n3 k = map_refs_at (po_shift ob2) k + map_refs_at n k)"
    using am by (intro suppress_maps_spec [OF C] maps_present_all) (auto simp: om_find_in_set)
  then obtain ob3 n3 ch3 where e3: "suppress_maps E C (ps_VisibleMapIds (po_shift ob2)) (ob2, n, ch) = Some (ob3, n3, ch3)"
    and s3: "same_but_shifts ob2 ob3" "po_suppressed ob3 = po_suppressed ob2" "same_phases (po_shift ob2) (po_shift ob3)" "same_phases n n3"
      "all_maps (ce_MeetsSwap C ob) (po_shift ob3)" "all_maps (\<lambda>k. \<not> ce_MeetsSwap C ob k) n3"
      "\<And>k. map_refs_at (po_shift ob3) k + map_refs_at n3 k = map_refs_at (po_shift ob2) k + map_refs_at n k" unfolding m by blast
  have m3: "ce_MeetsSwap C ob3 = ce_MeetsSwap C ob" using stable_same(2) [OF C s3(1)] m by auto
  have "\<exists>ob4 ch4. restore_maps E C (ps_VisibleMapIds (po_suppressed ob3)) (ob3, ch3) = Some (ob4, ch4) \<and>
      same_but_shifts ob3 ob4 \<and> same_phases (po_shift ob3) (po_shift ob4) \<and> same_phases (po_suppressed ob3) (po_suppressed ob4) \<and>
      all_maps (ce_MeetsSwap C ob3) (po_shift ob4) \<and> all_maps (\<lambda>k. \<not> ce_MeetsSwap C ob3 k) (po_suppressed ob4) \<and>
      (\<forall>k. map_refs_at (po_shift ob4) k + map_refs_at (po_suppressed ob4) k = map_refs_at (po_shift ob3) k + map_refs_at (po_suppressed ob3) k)"
    using am s3 by (intro restore_maps_spec [OF C] maps_present_all) (auto simp: m3 om_find_in_set)
  then obtain ob4 ch4 where e4: "restore_maps E C (ps_VisibleMapIds (po_suppressed ob3)) (ob3, ch3) = Some (ob4, ch4)"
    and s4: "same_but_shifts ob3 ob4" "same_phases (po_shift ob3) (po_shift ob4)" "same_phases (po_suppressed ob3) (po_suppressed ob4)"
      "all_maps (ce_MeetsSwap C ob) (po_shift ob4)" "all_maps (\<lambda>k. \<not> ce_MeetsSwap C ob k) (po_suppressed ob4)"
      "\<And>k. map_refs_at (po_shift ob4) k + map_refs_at (po_suppressed ob4) k = map_refs_at (po_shift ob3) k + map_refs_at (po_suppressed ob3) k"
    unfolding m3 by blast
  have sp: "same_phases (po_shift ob2) (po_shift ob4)" "same_phases (po_suppressed ob2) (po_suppressed ob4)"
    using same_phases_trans [OF s3(3) s4(2)] s4(3) s3(2) by simp_all
  have "phases_sorted C ob ob4 n3"
    using p same_but_shifts_trans [OF _ same_but_shifts_trans [OF s3(1) s4(1)], of ob]
    by (simp add: phases_sorted_def same_phases_facts [OF sp(1)] same_phases_facts [OF sp(2)] same_phases_facts [OF s3(4)]
        same_phases_at [OF sp(1)] same_phases_at [OF sp(2)] same_phases_at [OF s3(4)])
  moreover have "map_refs_at (po_shift ob2) = map_refs_at (po_shift ob)" "map_refs_at (po_suppressed ob2) = map_refs_at (po_suppressed ob)"
    "map_refs_at n = (\<lambda>_. 0)"
    using map_refs_cong [OF v(1)] map_refs_cong [OF v(2)] v(3) by (simp_all add: map_refs_at_def fun_eq_iff)
  then have "maps_sorted C ob ob4 n3"
    using s3(2,6,7) s4(4-6) by (simp add: maps_sorted_def algebra_simps)
  ultimately show ?thesis using e3 e4 by blast
qed

lemma finish_loops:
  assumes p: "phases_sorted C ob ob4 n3" and m: "maps_sorted C ob ob4 n3"
    and sn: "(if po_isUnit ob4 then keep_aura_phases (pe_PhaseStore E) (aura_phases E ob4) (po_shift ob4, n3) else (po_shift ob4, n3)) = (s, n5)"
    and t: "t = add_suppressed n5 (po_suppressed ob4)"
  shows "ps_inv s \<and> ps_inv t \<and> all_phases (\<lambda>p. \<not> fails C ob p) s \<and> all_phases (fails C ob) t \<and>
    all_maps (ce_MeetsSwap C ob) s \<and> all_maps (\<lambda>k. \<not> ce_MeetsSwap C ob k) t \<and>
    (\<forall>i. refs_at s i + refs_at t i = refs_at (po_shift ob) i + refs_at (po_suppressed ob) i) \<and>
    (\<forall>k. map_refs_at s k + map_refs_at t k = map_refs_at (po_shift ob) k + map_refs_at (po_suppressed ob) k)"
proof -
  have k: "ps_inv s \<and> ps_inv n5 \<and> ps_VisibleMapIds s = ps_VisibleMapIds (po_shift ob4) \<and> ps_VisibleMapIds n5 = ps_VisibleMapIds n3 \<and>
    all_phases (\<lambda>p. \<not> fails C ob p) s \<and> all_phases (fails C ob) n5 \<and>
    (\<forall>i. refs_at s i + refs_at n5 i = refs_at (po_shift ob4) i + refs_at n3 i)"
    using p keep_aura_phases_spec [of "pe_PhaseStore E" "aura_phases E ob4" "po_shift ob4" n3 s n5 C ob] sn
    by (cases "po_isUnit ob4") (auto simp: phases_sorted_def)
  define t1 where "t1 = fold (\<lambda>p s. snd (PhaseShift_AddPhase (ucast (pr_Id p)) (pr_Flags p) (pr_AreaConditions p) (pr_References p) s))
    (ps_Phases n5) (po_suppressed ob4)"
  have t1: "ps_inv t1 \<and> all_phases (fails C ob) t1 \<and> ps_VisibleMapIds t1 = ps_VisibleMapIds (po_suppressed ob4) \<and>
    (\<forall>i. refs_at t1 i = refs_at (po_suppressed ob4) i + (case fs_find pr_Id i (ps_Phases n5) of None \<Rightarrow> 0 | Some p \<Rightarrow> pr_References p))"
    using p k by (intro add_suppressed_phases [OF _ _ _ _ t1_def]) (auto simp: phases_sorted_def ps_inv_ok all_phases_def fs_find_iff)
  have t2: "same_phases t1 t \<and> all_maps (\<lambda>k. \<not> ce_MeetsSwap C ob k) t \<and>
    (\<forall>k. map_refs_at t k = map_refs_at t1 k + (case om_find k (ps_VisibleMapIds n5) of None \<Rightarrow> 0 | Some (r, _) \<Rightarrow> r))"
  proof (rule add_suppressed_maps)
    show "t = fold (\<lambda>(k, references, info) s. snd (PhaseShift_AddVisibleMapId k info references s)) (ps_VisibleMapIds n5) t1"
      by (simp add: t t1_def add_suppressed_def)
    show "all_maps (\<lambda>k. \<not> ce_MeetsSwap C ob k) t1" using t1 m all_maps_cong [of t1 "po_suppressed ob4"] by (simp add: maps_sorted_def)
    show "om_ok (ps_VisibleMapIds n5)" using m k by (simp add: maps_sorted_def all_maps_def)
    show "(j, r, i) \<in> set (ps_VisibleMapIds n5) \<Longrightarrow> \<not> ce_MeetsSwap C ob j \<and> i \<noteq> None" for j r i
      using m k by (auto simp: maps_sorted_def all_maps_def om_find_iff)
  qed
  have refs: "refs_at s i + refs_at t i = refs_at (po_shift ob) i + refs_at (po_suppressed ob) i" for i
  proof -
    have "refs_at s i + refs_at n5 i = refs_at (po_shift ob4) i + refs_at n3 i" using k by simp
    moreover have "refs_at t1 i = refs_at (po_suppressed ob4) i + refs_at n5 i" using t1 by (simp add: refs_at_def [of n5])
    moreover have "refs_at (po_shift ob4) i + refs_at (po_suppressed ob4) i + refs_at n3 i = refs_at (po_shift ob) i + refs_at (po_suppressed ob) i"
      using p by (simp add: phases_sorted_def)
    moreover have "refs_at t i = refs_at t1 i" using t2 same_phases_at(1) by blast
    ultimately show ?thesis by linarith
  qed
  have "map_refs_at s j + map_refs_at t j = map_refs_at (po_shift ob) j + map_refs_at (po_suppressed ob) j" for j
  proof -
    have "map_refs_at t j = map_refs_at t1 j + map_refs_at n3 j" using t2 k by (simp add: map_refs_at_def [of n3])
    moreover have "map_refs_at s = map_refs_at (po_shift ob4)" "map_refs_at t1 = map_refs_at (po_suppressed ob4)"
      using k t1 by (auto intro: map_refs_cong)
    moreover have "map_refs_at (po_shift ob4) j + map_refs_at (po_suppressed ob4) j + map_refs_at n3 j =
        map_refs_at (po_shift ob) j + map_refs_at (po_suppressed ob) j"
      using m by (simp add: maps_sorted_def)
    ultimately show ?thesis by simp
  qed
  then show ?thesis
    using k t1 t2 m refs same_phases_facts [of t1 t] same_phases_at [of t1 t] all_maps_cong [of s "po_shift ob4"]
    by (simp add: maps_sorted_def)
qed

lemma condition_change_correct:
  assumes C: "stable_conditions C" and ok: "shifts_ok ob"
  shows "\<exists>changed ob'. condition_change E C ob = Some (changed, ob') \<and> same_but_shifts ob ob' \<and>
    shifts_ok ob' \<and> conditions_applied C ob' \<and>
    (\<forall>i. refs_at (po_shift ob') i + refs_at (po_suppressed ob') i = refs_at (po_shift ob) i + refs_at (po_suppressed ob) i) \<and>
    (\<forall>k. map_refs_at (po_shift ob') k + map_refs_at (po_suppressed ob') k = map_refs_at (po_shift ob) k + map_refs_at (po_suppressed ob) k)"
proof -
  obtain ob1 n ob2 ch where l1: "suppress_phases C (ps_Phases (po_shift ob)) (ob, PhaseShift_new) = (ob1, n)"
    "restore_phases C (ps_Phases (po_suppressed ob1)) (ob1, False) = Some (ob2, ch)" "phases_sorted C ob ob2 n"
    "ps_VisibleMapIds (po_shift ob2) = ps_VisibleMapIds (po_shift ob)"
    "ps_VisibleMapIds (po_suppressed ob2) = ps_VisibleMapIds (po_suppressed ob)" "ps_VisibleMapIds n = []"
    using phase_loops [OF C ok] by blast
  obtain ob3 n3 ch3 ob4 ch4 where l2: "suppress_maps E C (ps_VisibleMapIds (po_shift ob2)) (ob2, n, ch) = Some (ob3, n3, ch3)"
    "restore_maps E C (ps_VisibleMapIds (po_suppressed ob3)) (ob3, ch3) = Some (ob4, ch4)"
    "phases_sorted C ob ob4 n3" "maps_sorted C ob ob4 n3"
    using map_loops [OF C ok l1(3-6)] by blast
  define st where "st = (if po_isUnit ob4 then keep_aura_phases (pe_PhaseStore E) (aura_phases E ob4) (po_shift ob4, n3) else (po_shift ob4, n3))"
  obtain s n5 where sn: "st = (s, n5)" by (cases st)
  define t where "t = add_suppressed n5 (po_suppressed ob4)"
  let ?ob' = "ob4\<lparr>po_shift := set_personal_guid (po_guid ob4) s, po_suppressed := t\<rparr>"
  have res: "condition_change E C ob = Some (ch4 \<or> ps_Phases n5 \<noteq> [] \<or> ps_VisibleMapIds n5 \<noteq> [], ?ob')"
    using l1(1,2) l2(1,2) sn by (simp add: condition_change_def st_def t_def)
  have same: "same_but_shifts ob ?ob'" using l2(3) same_but_shifts_trans [of ob ob4 ?ob'] by (simp add: phases_sorted_def)
  have f: "fails C ?ob' = fails C ob" "ce_MeetsSwap C ?ob' = ce_MeetsSwap C ob"
    using stable_fails [OF C same] stable_same(2) [OF C same] by auto
  have v: "all_maps P (set_personal_guid g u) = all_maps P u" "map_refs_at (set_personal_guid g u) = map_refs_at u"
    "refs_at (set_personal_guid g u) = refs_at u" "all_phases Q (set_personal_guid g u) = all_phases Q u" for P Q g u
    by (simp_all add: all_maps_def map_refs_at_def fun_eq_iff refs_at_def all_phases_def)
  have weak: "all_maps P u \<Longrightarrow> all_maps (\<lambda>_. True) u" "all_phases (fails C ob) u \<Longrightarrow> all_phases (\<lambda>p. pr_AreaConditions p \<noteq> None) u" for P u
    by (auto simp: all_maps_def all_phases_def fails_def)
  note fin = finish_loops [OF l2(3,4) sn [unfolded st_def] t_def]
  have "all_phases (\<lambda>p. pr_AreaConditions p \<noteq> None) t" "all_maps (\<lambda>_. True) s" "all_maps (\<lambda>_. True) t"
    using fin weak by blast+
  then have "shifts_ok ?ob'" "conditions_applied C ?ob'"
    unfolding shifts_ok_def conditions_applied_def f using fin by (simp_all add: v)
  moreover have "\<forall>i. refs_at (po_shift ?ob') i + refs_at (po_suppressed ?ob') i = refs_at (po_shift ob) i + refs_at (po_suppressed ob) i"
    "\<forall>k. map_refs_at (po_shift ?ob') k + map_refs_at (po_suppressed ?ob') k = map_refs_at (po_shift ob) k + map_refs_at (po_suppressed ob) k"
    using fin by (simp_all add: v)
  ultimately show ?thesis using res same by blast
qed

lemma inherit_loop_spec:
  "set bs \<subseteq> dom (pw_objects w) \<Longrightarrow> fs_ok (\<lambda>x. x) V \<Longrightarrow> a \<in> set V \<Longrightarrow> pw_objects w a = Some src \<Longrightarrow>
   \<exists>w'. inherit_shift_loop a bs V w = Some w' \<and> pw_objects w' = (\<lambda>b. if b \<in> set bs - set V
     then map_option (\<lambda>target. InheritPhaseShift target src) (pw_objects w b) else pw_objects w b)"
proof (induction bs arbitrary: V w)
  case (Cons b bs)
  from fs_emplace_id [OF Cons.prems(2), of b] obtain V' where V': "fs_emplace (\<lambda>x. x) b V = (V', b \<notin> set V)" "set V' = insert b (set V)" "fs_ok (\<lambda>x. x) V'" .
  from Cons.prems(1) obtain target where b: "pw_objects w b = Some target" by auto
  show ?case
  proof (cases "b \<in> set V")
    case True
    then show ?thesis using Cons.IH [of w V'] Cons.prems V' by (auto simp: insert_absorb)
  next
    case False
    let ?w = "set_object b (InheritPhaseShift target src) w"
    have "pw_objects ?w a = Some src" "set bs \<subseteq> dom (pw_objects ?w)" using False Cons.prems by (auto simp: set_object_def)
    then obtain w' where w': "inherit_shift_loop a bs V' ?w = Some w'" "pw_objects w' = (\<lambda>c. if c \<in> set bs - set V'
        then map_option (\<lambda>target. InheritPhaseShift target src) (pw_objects ?w c) else pw_objects ?w c)"
      using Cons.IH [of ?w V'] Cons.prems(3) V' by auto
    have "inherit_shift_loop a (b # bs) V w = Some w'" using V'(1) False b Cons.prems(4) w'(1) by simp
    then show ?thesis using w'(2) V'(2) False b by (auto simp: set_object_def fun_eq_iff)
  qed
qed simp

lemma controlled_loop_same:
  assumes "same_but_shifts ob ob'" "pw_objects w a = Some ob" "pw_objects w1 = (pw_objects w)(a \<mapsto> ob')"
  shows "controlled_loop w1 as = controlled_loop w as"
proof (induction "as")
  case (Cons b bs)
  have "po_isPlayer ob' = po_isPlayer ob \<and> po_hasVehicle ob' = po_hasVehicle ob"
    using assms(1) by (metis same_but_shifts_def phase_object.select_convs(3,5) phase_object.surjective phase_object.update_convs(9,10))
  then show ?case using Cons assms(2,3) by (cases "b = a") (auto split: option.split)
qed simp

lemma controlled_targets_same:
  assumes "same_but_shifts ob ob'" "pw_objects w a = Some ob" "pw_objects w1 = (pw_objects w)(a \<mapsto> ob')"
  shows "controlled_targets E w1 a ob' = controlled_targets E w a ob"
proof -
  have "controlled_targets E w1 a ob' = controlled_targets E w1 a (ob\<lparr>po_shift := po_shift ob', po_suppressed := po_suppressed ob'\<rparr>)"
    using assms(1) unfolding same_but_shifts_def by (rule arg_cong)
  also have "\<dots> = controlled_targets E w1 a ob"
    by (simp add: controlled_targets_def summon_targets_def passenger_targets_def cong: if_cong option.case_cong)
  finally show ?thesis by (simp add: controlled_targets_def controlled_loop_same [OF assms])
qed

lemma finish_update_spec:
  assumes w: "phase_world_ok E w" "pw_objects w a = Some ob" and same: "same_but_shifts ob ob'"
  shows "\<exists>w'. finish_update E a u changed (set_object a ob' w) = Some w' \<and> pw_objects w' = (\<lambda>b. if b = a then Some ob'
     else if b \<in> set (direct_targets E w a) then map_option (\<lambda>target. InheritPhaseShift target ob') (pw_objects w b) else pw_objects w b)"
proof -
  have unit: "po_isUnit ob' = po_isUnit ob"
    using same by (metis same_but_shifts_def phase_object.select_convs(2) phase_object.surjective phase_object.update_convs(9,10))
  show ?thesis
  proof (cases "po_isUnit ob")
    case False
    then show ?thesis using w(2) by (auto simp: finish_update_def set_object_def unit direct_targets_def fun_eq_iff)
  next
    case True
    let ?w1 = "if changed then phase_emit (OnPhaseChange a) (set_object a ob' w) else set_object a ob' w"
    have o1: "pw_objects ?w1 = (pw_objects w)(a \<mapsto> ob')" by (simp add: set_object_def)
    obtain ts where ts: "controlled_targets E w a ob = Some ts" "set ts \<subseteq> dom (pw_objects w)" using targets_ok [OF w] .
    have "set ts \<subseteq> dom (pw_objects ?w1)" "pw_objects ?w1 a = Some ob'" using ts(2) by (auto simp: o1)
    from inherit_loop_spec [OF this(1) _ _ this(2), of "[a]"]
    obtain w2 where w2: "inherit_shift_loop a ts [a] ?w1 = Some w2" "pw_objects w2 = (\<lambda>b. if b \<in> set ts - set [a]
        then map_option (\<lambda>target. InheritPhaseShift target ob') (pw_objects ?w1 b) else pw_objects ?w1 b)" by auto
    have "inherit_controlled E a ob' ?w1 = Some w2"
      using controlled_targets_same [OF same w(2) o1, of E] ts(1) w2(1) by (simp add: inherit_controlled_def)
    then have "finish_update E a u changed (set_object a ob' w) = Some (UpdateVisibilityIfNeeded a u changed
        (if changed then phase_emit (RemoveNotOwnSingleTargetAuras a) w2 else w2))"
      using True by (cases changed) (simp_all add: finish_update_def unit set_object_def)
    moreover have "set (direct_targets E w a) = set ts" using w(2) ts(1) True by (simp add: direct_targets_def)
    ultimately show ?thesis using w2(2) unfolding o1 by (auto simp: fun_eq_iff)
  qed
qed

text \<open>
  C16: When conditions may have changed, \<^verbatim>\<open>OnConditionChange\<close> leaves the object in exactly the phases and maps its conditions allow:
  afterwards the condition of no visible phase or map fails and that of every suppressed one does, no reference is lost or
  gained on the way between the two shifts, the counters of both stay right, and the units it directly controls, and no others,
  take over both shifts. It always returns.
\<close>

theorem OnConditionChange_correct:
  assumes "phase_world_ok E w" "pw_objects w a = Some ob" "stable_conditions C" "shifts_ok ob"
  shows "\<exists>changed w' ob'. OnConditionChange E C a u w = Some (changed, w') \<and> shifts_ok ob' \<and> conditions_applied C ob' \<and>
    (\<forall>i. refs_at (po_shift ob') i + refs_at (po_suppressed ob') i = refs_at (po_shift ob) i + refs_at (po_suppressed ob) i) \<and>
    (\<forall>k. map_refs_at (po_shift ob') k + map_refs_at (po_suppressed ob') k = map_refs_at (po_shift ob) k + map_refs_at (po_suppressed ob) k) \<and>
    pw_objects w' = (\<lambda>b. if b = a then Some ob'
      else if b \<in> set (direct_targets E w a) then map_option (\<lambda>target. InheritPhaseShift target ob') (pw_objects w b) else pw_objects w b)"
proof -
  obtain changed ob' where c: "condition_change E C ob = Some (changed, ob')" "same_but_shifts ob ob'"
    "shifts_ok ob'" "conditions_applied C ob'"
    "\<forall>i. refs_at (po_shift ob') i + refs_at (po_suppressed ob') i = refs_at (po_shift ob) i + refs_at (po_suppressed ob) i"
    "\<forall>k. map_refs_at (po_shift ob') k + map_refs_at (po_suppressed ob') k = map_refs_at (po_shift ob) k + map_refs_at (po_suppressed ob) k"
    using condition_change_correct [OF assms(3,4)] by blast
  from finish_update_spec [OF assms(1,2) c(2), of u changed] obtain w' where
    "finish_update E a u changed (set_object a ob' w) = Some w'" "pw_objects w' = (\<lambda>b. if b = a then Some ob'
      else if b \<in> set (direct_targets E w a) then map_option (\<lambda>target. InheritPhaseShift target ob') (pw_objects w b) else pw_objects w b)"
    by blast
  then show ?thesis using c assms(2) by (simp add: OnConditionChange_def) blast
qed

definition only_condition :: "nat list \<Rightarrow> condition_env" where
  "only_condition holds = \<lparr>ce_Meets = (\<lambda>_ c. c \<in> set holds), ce_MeetsSwap = (\<lambda>_ _. False), ce_SwapId = (\<lambda>_. 0), ce_TerrainSwaps = [],
     ce_AreaParent = (\<lambda>a. if a = 30 then Some 20 else if a = 20 then Some 10 else if a = 10 then Some 0 else None),
     ce_PhasesForArea = (\<lambda>a. if a = 20 then Some [\<lparr>pa_phaseId = 5, pa_subAreaExclusions = [], pa_conditions = 1\<rparr>]
       else if a = 10 then Some [\<lparr>pa_phaseId = 5, pa_subAreaExclusions = [20], pa_conditions = 2\<rparr>] else None)\<rparr>"

definition walker :: phase_object where
  "walker = phase_thing 11 True True [] None\<lparr>po_areaId := 30\<rparr>"

definition phased_walker :: phase_object where
  "phased_walker = walker\<lparr>po_shift := snd (PhaseShift_AddPhase 5 0 (Some 1) 1 PhaseShift_new)\<rparr>"

lemma OnConditionChange_correct_witness:
  "\<exists>changed w' ob'. OnConditionChange rider_env (only_condition []) 1 True \<lparr>pw_objects = [1 \<mapsto> phased_walker], pw_events = []\<rparr> = Some (changed, w') \<and>
     pw_objects w' 1 = Some ob' \<and> refs_at (po_shift ob') 5 + refs_at (po_suppressed ob') 5 = 1 \<and> conditions_applied (only_condition []) ob'"
proof -
  let ?w = "\<lparr>pw_objects = [1 \<mapsto> phased_walker], pw_events = []\<rparr>"
  have w: "phase_world_ok rider_env ?w" "pw_objects ?w 1 = Some phased_walker"
    by (auto simp: phase_world_ok_def rider_env_def phased_walker_def walker_def phase_thing_def split: if_splits)
  have c: "stable_conditions (only_condition [])" by (simp add: stable_conditions_def only_condition_def)
  have "ps_inv (snd (PhaseShift_AddPhase 5 0 (Some 1) 1 PhaseShift_new))" by (rule PhaseShift_AddPhase_inv) simp
  moreover have "all_maps (\<lambda>_. True) (snd (PhaseShift_AddPhase 5 0 (Some 1) 1 PhaseShift_new))"
    using all_maps_cong [OF phase_ops_maps(2), of "\<lambda>_. True" 5 0 "Some 1" 1 PhaseShift_new] by simp
  ultimately have s: "shifts_ok phased_walker"
    by (simp add: shifts_ok_def phased_walker_def walker_def phase_thing_def)
  have "refs_at (po_shift phased_walker) 5 + refs_at (po_suppressed phased_walker) 5 = 1"
    by (simp add: phased_walker_def walker_def phase_thing_def AddPhase_refs)
  then show ?thesis using OnConditionChange_correct [OF w c s, of True] by force
qed

section \<open>A change of area returns\<close>

lemma same_but_shifts_upds [simp]:
  "same_but_shifts ob (ob'\<lparr>po_shift := s\<rparr>) = same_but_shifts ob ob'"
  "same_but_shifts ob (ob'\<lparr>po_suppressed := s\<rparr>) = same_but_shifts ob ob'"
  by (cases ob; cases ob'; auto simp: same_but_shifts_def)+

lemma area_phase_loop_same: "same_but_shifts ob0 ob \<Longrightarrow> same_but_shifts ob0 (area_phase_loop E C areaId areas ob)"
  by (induction areas arbitrary: ob) (auto simp: Let_def)

lemma area_walk_returns:
  assumes "wf {(parent, area). ce_AreaParent C area = Some parent}"
  shows "same_but_shifts ob0 ob \<Longrightarrow> \<exists>ob'. area_walk E C areaId area ob = Some ob' \<and> same_but_shifts ob0 ob'"
  using assms
proof (induction area arbitrary: ob rule: wf_induct_rule)
  case (less area)
  show ?case
  proof (cases "ce_AreaParent C area")
    case None
    then show ?thesis using less.prems by (simp add: area_walk.simps)
  next
    case (Some parent)
    let ?ob = "case ce_PhasesForArea C area of None \<Rightarrow> ob | Some areas \<Rightarrow> area_phase_loop E C areaId areas ob"
    have "same_but_shifts ob0 ?ob" using less.prems area_phase_loop_same by (auto split: option.split)
    from less.IH [OF _ this, of parent] Some show ?thesis by (subst area_walk.simps) simp
  qed
qed

lemma OnAreaChange_returns:
  assumes "phase_world_ok E w" "pw_objects w a = Some ob" "wf {(parent, area). ce_AreaParent C area = Some parent}"
  shows "\<exists>w' ob'. OnAreaChange E C a w = Some w' \<and> pw_objects w' = (\<lambda>b. if b = a then Some ob'
     else if b \<in> set (direct_targets E w a) then map_option (\<lambda>target. InheritPhaseShift target ob') (pw_objects w b) else pw_objects w b)"
proof -
  let ?ob = "ob\<lparr>po_shift := PhaseShift_ClearPhases (po_shift ob), po_suppressed := PhaseShift_ClearPhases (po_suppressed ob)\<rparr>"
  have "same_but_shifts ob ?ob" by simp
  from area_walk_returns [OF assms(3) this, of E "po_areaId ob" "po_areaId ob"] obtain ob1 where
    ob1: "area_walk E C (po_areaId ob) (po_areaId ob) ?ob = Some ob1" "same_but_shifts ob ob1" by auto
  then have "\<exists>changed ob'. area_change E C ob = Some (changed, ob') \<and> same_but_shifts ob ob'"
    by (simp add: area_change_def Let_def split_def)
  then obtain changed ob' where c: "area_change E C ob = Some (changed, ob')" "same_but_shifts ob ob'" by blast
  from finish_update_spec [OF assms(1,2) c(2), of True changed] show ?thesis using c(1) assms(2) by (auto simp: OnAreaChange_def)
qed

end
