(* ===== verification/PhasingUpdates_Areas.thy ===== *)
theory PhasingUpdates_Areas imports PhasingUpdates_Props begin

text \<open>
  What \<^verbatim>\<open>OnAreaChange\<close> does to an object, phase by phase: which entries of \<^verbatim>\<open>phase_area\<close> on the walk to the parents
  of the area count, which of the two shifts gets them, and whose conditions the shift keeps. The last part compares a later change of
  conditions with entering the area again.
\<close>

lemma same_but_shifts_fields:
  assumes "same_but_shifts ob ob'"
  shows "po_isUnit ob' = po_isUnit ob" "po_guid ob' = po_guid ob" "po_areaId ob' = po_areaId ob" "aura_phases E ob' = aura_phases E ob"
  using assms by (cases ob; cases ob'; simp add: same_but_shifts_def aura_phases_def)+

section \<open>The walk over the parents\<close>

text \<open>The areas the walk visits, from the area of the object to the last that has an entry.\<close>

primrec area_path :: "condition_env \<Rightarrow> u32 \<Rightarrow> u32 list \<Rightarrow> bool" where
  "area_path C a [] \<longleftrightarrow> ce_AreaParent C a = None"
| "area_path C a (x # xs) \<longleftrightarrow> x = a \<and> (case ce_AreaParent C a of None \<Rightarrow> False | Some parent \<Rightarrow> area_path C parent xs)"

definition path_areas :: "condition_env \<Rightarrow> u32 list \<Rightarrow> phase_area list" where
  "path_areas C path = concat (map (\<lambda>a. case ce_PhasesForArea C a of None \<Rightarrow> [] | Some areas \<Rightarrow> areas) path)"

text \<open>The entries among them that give one phase to an object in the area.\<close>

definition gives :: "u32 \<Rightarrow> u16 \<Rightarrow> phase_area \<Rightarrow> bool" where
  "gives areaId i g \<longleftrightarrow> areaId \<notin> set (pa_subAreaExclusions g) \<and> ucast (pa_phaseId g) = i"

lemma area_phase_loop_append:
  "area_phase_loop E C areaId (xs @ ys) ob = area_phase_loop E C areaId ys (area_phase_loop E C areaId xs ob)"
  by (induction xs arbitrary: ob) simp_all

lemma area_walk_path:
  "area_path C a path \<Longrightarrow> area_walk E C areaId a ob = Some (area_phase_loop E C areaId (path_areas C path) ob)"
proof (induction path arbitrary: a ob)
  case Nil
  then show ?case by (subst area_walk.simps) (simp add: path_areas_def)
next
  case (Cons x xs)
  then obtain p where "ce_AreaParent C a = Some p" "area_path C p xs" "x = a" by (auto split: option.splits)
  with Cons.IH [OF this(2)] show ?case
    by (subst area_walk.simps) (auto simp: path_areas_def area_phase_loop_append split: option.split)
qed

section \<open>One phase in the loop\<close>

definition conds_at :: "phase_shift \<Rightarrow> u16 \<Rightarrow> nat option option" where
  "conds_at s i = map_option pr_AreaConditions (phase_at s i)"

lemma AddPhase_conds_at:
  "ps_inv s \<Longrightarrow> conds_at (snd (PhaseShift_AddPhase k f (Some c) r s)) i = (if i = ucast k then Some (Some c) else conds_at s i)"
  by (simp add: conds_at_def AddPhase_at ps_inv_ok split: option.split)

lemma AddPhase_known:
  "ps_inv s \<Longrightarrow> phase_at (snd (PhaseShift_AddPhase k f c r s)) i = None \<longleftrightarrow> i \<noteq> ucast k \<and> phase_at s i = None"
  by (simp add: AddPhase_at ps_inv_ok)

text \<open>The conditions a shift keeps for a phase are those of the last entry that gave it.\<close>

definition last_conditions :: "phase_area list \<Rightarrow> nat option option \<Rightarrow> nat option option" where
  "last_conditions gs c = (if gs = [] then c else Some (Some (pa_conditions (last gs))))"

lemma last_conditions_Cons [simp]:
  "last_conditions (g # gs) c = last_conditions gs (Some (Some (pa_conditions g)))"
  by (simp add: last_conditions_def)

lemma area_phase_loop_at:
  assumes C: "stable_conditions C"
  shows "ps_inv (po_shift ob) \<Longrightarrow> ps_inv (po_suppressed ob) \<Longrightarrow>
    (let ob' = area_phase_loop E C areaId areas ob; gs = filter (gives areaId i) areas
     in ps_inv (po_shift ob') \<and> ps_inv (po_suppressed ob') \<and>
       ps_VisibleMapIds (po_shift ob') = ps_VisibleMapIds (po_shift ob) \<and>
       ps_VisibleMapIds (po_suppressed ob') = ps_VisibleMapIds (po_suppressed ob) \<and>
       (all_phases (\<lambda>p. pr_AreaConditions p \<noteq> None) (po_suppressed ob) \<longrightarrow> all_phases (\<lambda>p. pr_AreaConditions p \<noteq> None) (po_suppressed ob')) \<and>
       conds_at (po_shift ob') i = last_conditions (filter (\<lambda>g. ce_Meets C ob (pa_conditions g)) gs) (conds_at (po_shift ob) i) \<and>
       conds_at (po_suppressed ob') i = last_conditions (filter (\<lambda>g. \<not> ce_Meets C ob (pa_conditions g)) gs) (conds_at (po_suppressed ob) i))"
proof (induction areas arbitrary: ob)
  case Nil
  then show ?case by (simp add: last_conditions_def)
next
  case (Cons g areas)
  show ?case
  proof (cases "areaId \<in> set (pa_subAreaExclusions g)")
    case True
    then show ?thesis using Cons by (simp add: gives_def)
  next
    case False
    let ?add = "\<lambda>s. snd (PhaseShift_AddPhase (pa_phaseId g) (GetPhaseFlags (pe_PhaseStore E) (pa_phaseId g)) (Some (pa_conditions g)) 1 s)"
    define ob1 where "ob1 = (if ce_Meets C ob (pa_conditions g) then ob\<lparr>po_shift := ?add (po_shift ob)\<rparr>
      else ob\<lparr>po_suppressed := ?add (po_suppressed ob)\<rparr>)"
    have step: "area_phase_loop E C areaId (g # areas) ob = area_phase_loop E C areaId areas ob1"
      using False by (simp add: ob1_def Let_def)
    have "same_but_shifts ob ob1" by (simp add: ob1_def)
    then have meets: "ce_Meets C ob1 = ce_Meets C ob" by (intro ext stable_same [OF C])
    have inv: "ps_inv (po_shift ob1)" "ps_inv (po_suppressed ob1)" using Cons.prems by (simp_all add: ob1_def PhaseShift_AddPhase_inv)
    have kept: "all_phases (\<lambda>p. pr_AreaConditions p \<noteq> None) (po_suppressed ob) \<Longrightarrow> all_phases (\<lambda>p. pr_AreaConditions p \<noteq> None) (po_suppressed ob1)"
      using AddPhase_all_phases [OF Cons.prems(2), of "\<lambda>p. pr_AreaConditions p \<noteq> None"] by (simp add: ob1_def only_conditions_def)
    from Cons.IH [OF inv, unfolded meets] kept show ?thesis
      unfolding step Let_def using False Cons.prems by (auto simp: ob1_def gives_def AddPhase_conds_at)
  qed
qed

section \<open>A change of area, phase by phase\<close>

lemma add_phases_at:
  "ps_inv s \<Longrightarrow> ps_inv (snd (add_phases st ids c s)) \<and> ps_VisibleMapIds (snd (add_phases st ids c s)) = ps_VisibleMapIds s \<and>
    (phase_at (snd (add_phases st ids c s)) i = None \<longleftrightarrow> i \<notin> ucast ` set ids \<and> phase_at s i = None)"
proof (induction ids arbitrary: c s)
  case (Cons k ids)
  let ?s = "snd (PhaseShift_AddPhase k (GetPhaseFlags st k) None 1 s)"
  have "ps_inv ?s" by (rule PhaseShift_AddPhase_inv) (rule Cons.prems)
  then show ?case using Cons.IH [of ?s "fst (PhaseShift_AddPhase k (GetPhaseFlags st k) None 1 s) \<or> c"] AddPhase_known [OF Cons.prems]
    by (auto simp: split_def Let_def)
qed simp

lemma ClearPhases_facts:
  "ps_inv s \<Longrightarrow> ps_inv (PhaseShift_ClearPhases s)" "ps_Phases (PhaseShift_ClearPhases s) = []"
  "ps_VisibleMapIds (PhaseShift_ClearPhases s) = ps_VisibleMapIds s"
  by (simp_all add: ps_inv_clear_phases) (simp_all add: PhaseShift_ClearPhases_def UpdateUnphasedFlag_def Let_def)

lemma ClearPhases_at [simp]:
  "conds_at (PhaseShift_ClearPhases s) i = None" "all_phases P (PhaseShift_ClearPhases s)"
  by (simp_all add: conds_at_def all_phases_def ClearPhases_facts fs_find_def fs_lower_bound_def)

text \<open>
  Visible are the phases some entry gives under conditions that hold and those of auras; the others are suppressed with the conditions of the
  last entry.
\<close>

definition area_result :: "phasing_env \<Rightarrow> condition_env \<Rightarrow> (u16 \<Rightarrow> phase_area list) \<Rightarrow> phase_object \<Rightarrow> phase_object \<Rightarrow> bool" where
  "area_result E C gs ob ob' \<longleftrightarrow> same_but_shifts ob ob' \<and> shifts_ok ob' \<and>
    (\<forall>i. (phase_at (po_shift ob') i \<noteq> None \<longleftrightarrow>
        (\<exists>g \<in> set (gs i). ce_Meets C ob (pa_conditions g)) \<or> po_isUnit ob \<and> i \<in> ucast ` set (aura_phases E ob)) \<and>
      conds_at (po_suppressed ob') i = last_conditions (filter (\<lambda>g. \<not> ce_Meets C ob (pa_conditions g)) (gs i)) None)"

lemma area_resultD:
  assumes "area_result E C gs ob ob'"
  shows "same_but_shifts ob ob'" "shifts_ok ob'"
    "phase_at (po_shift ob') i \<noteq> None \<longleftrightarrow>
      (\<exists>g \<in> set (gs i). ce_Meets C ob (pa_conditions g)) \<or> po_isUnit ob \<and> i \<in> ucast ` set (aura_phases E ob)"
    "conds_at (po_suppressed ob') i = last_conditions (filter (\<lambda>g. \<not> ce_Meets C ob (pa_conditions g)) (gs i)) None"
  using assms unfolding area_result_def by blast+

lemma area_change_at:
  assumes C: "stable_conditions C" and ok: "shifts_ok ob" and path: "area_path C (po_areaId ob) path"
  defines "gs \<equiv> \<lambda>i. filter (gives (po_areaId ob) i) (path_areas C path)"
  shows "\<exists>c ob'. area_change E C ob = Some (c, ob') \<and> area_result E C gs ob ob'"
proof -
  let ?ob = "ob\<lparr>po_shift := PhaseShift_ClearPhases (po_shift ob), po_suppressed := PhaseShift_ClearPhases (po_suppressed ob)\<rparr>"
  define ob1 where "ob1 = area_phase_loop E C (po_areaId ob) (path_areas C path) ?ob"
  have same: "same_but_shifts ob ?ob" "same_but_shifts ob ob1" using area_phase_loop_same [of ob ?ob] by (simp_all add: ob1_def)
  have meets: "ce_Meets C ?ob = ce_Meets C ob" by (intro ext stable_same [OF C same(1)])
  have inv: "ps_inv (po_shift ?ob)" "ps_inv (po_suppressed ?ob)" using ok by (simp_all add: shifts_ok_def ClearPhases_facts)
  note loop = area_phase_loop_at [OF C inv, of E "po_areaId ob" "path_areas C path", folded ob1_def, unfolded meets Let_def]
  have ok1: "shifts_ok ob1"
    using loop ok by (simp add: shifts_ok_def ClearPhases_facts all_maps_def)
  have vis: "phase_at (po_shift ob1) i \<noteq> None \<longleftrightarrow> (\<exists>g \<in> set (gs i). ce_Meets C ob (pa_conditions g))" for i
  proof -
    have "phase_at (po_shift ob1) i \<noteq> None \<longleftrightarrow> conds_at (po_shift ob1) i \<noteq> None" by (simp add: conds_at_def)
    also have "\<dots> \<longleftrightarrow> filter (\<lambda>g. ce_Meets C ob (pa_conditions g)) (gs i) \<noteq> []"
      using loop [of i] by (simp add: gs_def last_conditions_def)
    finally show ?thesis by (auto simp: filter_empty_conv)
  qed
  let ?c = "map pr_Id (ps_Phases (po_shift ob1)) \<noteq> map pr_Id (ps_Phases (po_shift ob))"
  define r where "r = (if po_isUnit ob then add_phases (pe_PhaseStore E) (aura_phases E ob) ?c (po_shift ob1) else (?c, po_shift ob1))"
  have unit: "po_isUnit ob1 = po_isUnit ob" "aura_phases E ob1 = aura_phases E ob" "po_guid ob1 = po_guid ob"
    using same_but_shifts_fields [OF same(2)] by simp_all
  have "area_change E C ob = Some (fst r, ob1\<lparr>po_shift := set_personal_guid (po_guid ob) (snd r)\<rparr>)"
    using area_walk_path [OF path, of E "po_areaId ob" ?ob] by (simp add: area_change_def Let_def split_def r_def unit ob1_def [symmetric])
  moreover have "ps_inv (snd r)" "ps_VisibleMapIds (snd r) = ps_VisibleMapIds (po_shift ob1)"
    "phase_at (snd r) i = None \<longleftrightarrow> (po_isUnit ob \<longrightarrow> i \<notin> ucast ` set (aura_phases E ob)) \<and> phase_at (po_shift ob1) i = None" for i
    using ok1 add_phases_at [of "po_shift ob1" "pe_PhaseStore E" "aura_phases E ob" ?c i] by (auto simp: r_def shifts_ok_def)
  moreover from this(1,2) have "shifts_ok (ob1\<lparr>po_shift := set_personal_guid (po_guid ob) (snd r)\<rparr>)"
    using ok1 by (simp add: shifts_ok_def all_maps_def)
  moreover have "conds_at (po_suppressed ob1) i = last_conditions (filter (\<lambda>g. \<not> ce_Meets C ob (pa_conditions g)) (gs i)) None" for i
    using loop [of i] by (simp add: gs_def)
  moreover have "same_but_shifts ob (ob1\<lparr>po_shift := set_personal_guid (po_guid ob) (snd r)\<rparr>)" using same(2) by simp
  moreover have "phase_at (snd r) i \<noteq> None \<longleftrightarrow>
      (\<exists>g \<in> set (gs i). ce_Meets C ob (pa_conditions g)) \<or> po_isUnit ob \<and> i \<in> ucast ` set (aura_phases E ob)" for i
    using calculation(4) [of i] vis [of i] by argo
  ultimately show ?thesis
    by (intro exI [of _ "fst r"] exI [of _ "ob1\<lparr>po_shift := set_personal_guid (po_guid ob) (snd r)\<rparr>"]) (simp add: area_result_def)
qed

section \<open>A change of conditions, phase by phase\<close>

lemma suppress_phases_absent:
  "suppress_phases C ps (ob, n) = (ob', n') \<Longrightarrow> ps_inv (po_shift ob) \<Longrightarrow> ps_inv n \<Longrightarrow> present ps (po_shift ob) \<Longrightarrow>
   phase_at (po_shift ob) i = None \<Longrightarrow> phase_at n i = None \<Longrightarrow>
   phase_at (po_shift ob') i = None \<and> phase_at n' i = None \<and> po_suppressed ob' = po_suppressed ob \<and> ps_inv (po_shift ob')"
proof (induction ps arbitrary: ob n)
  case (Cons p ps)
  have at: "phase_at (po_shift ob) (pr_Id p) = Some p" using Cons.prems(4) by (simp add: present_def)
  then have i: "pr_Id p \<noteq> i" using Cons.prems(5) by auto
  have rest: "present ps (po_shift ob)" using Cons.prems(4) by (simp add: present_def)
  show ?case
  proof (cases "\<exists>c. pr_AreaConditions p = Some c \<and> \<not> ce_Meets C ob c")
    case False
    then have "suppress_phases C ps (ob, n) = (ob', n')" using Cons.prems(1) by (auto split: option.splits)
    then show ?thesis using Cons.IH Cons.prems rest by blast
  next
    case True
    then obtain c where "pr_AreaConditions p = Some c" "\<not> ce_Meets C ob c" by blast
    then have "suppress_phases C ps (ob\<lparr>po_shift := drop_phase p (po_shift ob)\<rparr>,
        snd (PhaseShift_AddPhase (ucast (pr_Id p)) (pr_Flags p) (Some c) (pr_References p) n)) = (ob', n')"
      using Cons.prems(1) by simp
    from Cons.IH [OF this] show ?thesis
      using Cons.prems i drop_phase_inv [OF Cons.prems(2) at] present_drop [OF Cons.prems(4,2)]
      by (simp add: PhaseShift_AddPhase_inv drop_phase_at [OF ps_inv_ok at] AddPhase_at ps_inv_ok)
  qed
qed simp

lemma restore_phases_visible:
  assumes C: "stable_conditions C"
  shows "restore_phases C ps (ob, ch) = Some (ob', ch') \<Longrightarrow> ps_inv (po_shift ob) \<Longrightarrow>
    (phase_at (po_shift ob') i \<noteq> None \<longleftrightarrow> phase_at (po_shift ob) i \<noteq> None \<or> (\<exists>p \<in> set ps. pr_Id p = i \<and> \<not> fails C ob p))"
proof (induction ps arbitrary: ob ch)
  case (Cons p ps)
  then obtain c where c: "pr_AreaConditions p = Some c" by (auto split: option.splits)
  show ?case
  proof (cases "ce_Meets C ob c")
    case False
    then have "restore_phases C ps (ob, ch) = Some (ob', ch')" using Cons.prems(1) c by simp
    from Cons.IH [OF this Cons.prems(2)] show ?thesis using False c by (auto simp: fails_def)
  next
    case True
    let ?r = "PhaseShift_AddPhase (ucast (pr_Id p)) (pr_Flags p) (Some c) (pr_References p) (po_shift ob)"
    let ?ob = "ob\<lparr>po_shift := snd ?r, po_suppressed := drop_phase p (po_suppressed ob)\<rparr>"
    have "restore_phases C ps (?ob, fst ?r \<or> ch) = Some (ob', ch')" using Cons.prems(1) c True by (simp add: split_def Let_def)
    from Cons.IH [OF this]
    have "phase_at (po_shift ob') i \<noteq> None \<longleftrightarrow> phase_at (snd ?r) i \<noteq> None \<or> (\<exists>p \<in> set ps. pr_Id p = i \<and> \<not> fails C ob p)"
      using Cons.prems(2) by (simp add: PhaseShift_AddPhase_inv stable_fails [OF C same_but_shifts_upd(2) [of ob]])
    moreover have "phase_at (snd ?r) i = None \<longleftrightarrow> i \<noteq> pr_Id p \<and> phase_at (po_shift ob) i = None"
      using AddPhase_known [OF Cons.prems(2)] by simp
    moreover have "\<not> fails C ob p" using True c by (simp add: fails_def)
    ultimately show ?thesis by auto
  qed
qed simp

lemma suppress_maps_phases:
  "suppress_maps E C ms (ob, n, ch) = Some (ob', n', ch') \<Longrightarrow>
   ps_Phases (po_shift ob') = ps_Phases (po_shift ob) \<and> ps_Phases n' = ps_Phases n"
proof (induction E C ms "(ob, n, ch)" arbitrary: ob n ch rule: suppress_maps.induct)
  case (2 E C k r v ms ob n ch)
  show ?case
  proof (cases "ce_MeetsSwap C ob k")
    case False
    with "2.prems" obtain info where v: "v = Some info" by (cases v) simp_all
    obtain ch1 s where s: "remove_swaps (pe_UiSwaps E info) ch (po_shift ob) = (ch1, s)" by fastforce
    from remove_swaps_maps(1) [of "po_shift ob" "pe_UiSwaps E info" ch] s have "ps_Phases s = ps_Phases (po_shift ob)"
      by (simp add: same_phases_facts(1))
    with "2.hyps"(2) [OF False v refl s [symmetric] refl refl] "2.prems" False v s show ?thesis
      by (simp add: same_phases_facts(1) [OF AddVisibleMapId_at(2)])
  qed (use 2 in simp)
qed simp

lemma restore_maps_phases:
  "restore_maps E C ms (ob, ch) = Some (ob', ch') \<Longrightarrow> ps_Phases (po_shift ob') = ps_Phases (po_shift ob)"
proof (induction E C ms "(ob, ch)" arbitrary: ob ch rule: restore_maps.induct)
  case (2 E C k r v ms ob ch)
  show ?case
  proof (cases "ce_MeetsSwap C ob k")
    case True
    with "2.prems" obtain info where v: "v = Some info" by (cases v) simp_all
    obtain ins s where s: "PhaseShift_AddVisibleMapId k (Some info) r (po_shift ob) = (ins, s)" by fastforce
    obtain ch1 s1 where s1: "add_swaps (pe_UiSwaps E info) (ins \<or> ch) s = (ch1, s1)" by fastforce
    from add_swaps_maps(1) [of s "pe_UiSwaps E info" "ins \<or> ch"] AddVisibleMapId_at(2) [of "po_shift ob" k "Some info" r] s s1
    have "ps_Phases s1 = ps_Phases (po_shift ob)" by (simp add: same_phases_facts(1))
    moreover have "\<not> \<not> ce_MeetsSwap C ob k" using True by simp
    ultimately show ?thesis using "2.hyps"(2) [OF _ v s [symmetric] refl s1 [symmetric] refl refl] "2.prems" True v s s1 by simp
  qed (use 2 in simp)
qed simp

lemma keep_aura_phases_at:
  "keep_aura_phases st ids (s, n) = (s', n') \<Longrightarrow> ps_inv s \<Longrightarrow> i \<notin> ucast ` set ids \<Longrightarrow> phase_at s' i = phase_at s i"
proof (induction ids arbitrary: s n)
  case (Cons k ids)
  let ?r = "PhaseShift_RemovePhase k n"
  let ?s = "if fst ?r \<noteq> ErNotFound then snd (PhaseShift_AddPhase k (GetPhaseFlags st k) None 1 s) else s"
  have "keep_aura_phases st ids (?s, snd ?r) = (s', n')" using Cons.prems(1) by (simp add: split_def Let_def)
  from Cons.IH [OF this] show ?case using Cons.prems(2,3) by (simp add: PhaseShift_AddPhase_inv AddPhase_at ps_inv_ok)
qed simp

text \<open>A hidden phase of which no aura is on the unit becomes visible exactly when the conditions kept with it hold.\<close>

lemma condition_change_at:
  assumes C: "stable_conditions C" and ok: "shifts_ok ob" and i: "phase_at (po_shift ob) i = None" "i \<notin> ucast ` set (aura_phases E ob)"
    and res: "condition_change E C ob = Some (changed, ob')"
  shows "phase_at (po_shift ob') i \<noteq> None \<longleftrightarrow> (\<exists>c. conds_at (po_suppressed ob) i = Some (Some c) \<and> ce_Meets C ob c)"
proof -
  note inv = ok [unfolded shifts_ok_def]
  obtain ob1 n ob2 ch where l1: "suppress_phases C (ps_Phases (po_shift ob)) (ob, PhaseShift_new) = (ob1, n)"
    "restore_phases C (ps_Phases (po_suppressed ob1)) (ob1, False) = Some (ob2, ch)" "phases_sorted C ob ob2 n"
    "ps_VisibleMapIds (po_shift ob2) = ps_VisibleMapIds (po_shift ob)"
    "ps_VisibleMapIds (po_suppressed ob2) = ps_VisibleMapIds (po_suppressed ob)" "ps_VisibleMapIds n = []"
    using phase_loops [OF C ok] by blast
  obtain ob3 n3 ch3 ob4 ch4 where l2: "suppress_maps E C (ps_VisibleMapIds (po_shift ob2)) (ob2, n, ch) = Some (ob3, n3, ch3)"
    "restore_maps E C (ps_VisibleMapIds (po_suppressed ob3)) (ob3, ch3) = Some (ob4, ch4)"
    "phases_sorted C ob ob4 n3" "maps_sorted C ob ob4 n3"
    using map_loops [OF C ok l1(3-6)] by blast
  have "phase_at PhaseShift_new i = None" by (simp add: PhaseShift_new_def fs_find_def fs_lower_bound_def)
  from suppress_phases_absent [OF l1(1) _ _ present_all i(1) this]
  have s1: "phase_at (po_shift ob1) i = None" "po_suppressed ob1 = po_suppressed ob" "ps_inv (po_shift ob1)" using inv by auto
  have "same_but_shifts ob ob1"
    using suppress_phases_spec [OF C l1(1)] inv by (auto intro: present_all simp: fs_find_iff ps_inv_ok)
  then have "fails C ob1 = fails C ob" using stable_fails [OF C] by (intro ext)
  then have "phase_at (po_shift ob2) i \<noteq> None \<longleftrightarrow> (\<exists>p \<in> set (ps_Phases (po_suppressed ob)). pr_Id p = i \<and> \<not> fails C ob p)"
    using restore_phases_visible [OF C l1(2) s1(3), of i] s1(1,2) by simp
  also have "\<dots> \<longleftrightarrow> (\<exists>p. phase_at (po_suppressed ob) i = Some p \<and> \<not> fails C ob p)"
    using inv by (auto simp: fs_find_iff ps_inv_ok)
  also have "\<dots> \<longleftrightarrow> (\<exists>c. conds_at (po_suppressed ob) i = Some (Some c) \<and> ce_Meets C ob c)"
    using inv by (fastforce simp: conds_at_def fails_def all_phases_def)
  finally have at2: "phase_at (po_shift ob2) i \<noteq> None \<longleftrightarrow> (\<exists>c. conds_at (po_suppressed ob) i = Some (Some c) \<and> ce_Meets C ob c)" .
  have at4: "phase_at (po_shift ob4) i = phase_at (po_shift ob2) i"
    using suppress_maps_phases [OF l2(1)] restore_maps_phases [OF l2(2)] by simp
  define st where "st = (if po_isUnit ob4 then keep_aura_phases (pe_PhaseStore E) (aura_phases E ob4) (po_shift ob4, n3) else (po_shift ob4, n3))"
  obtain s n5 where sn: "st = (s, n5)" by (cases st)
  have "ps_Phases (po_shift ob') = ps_Phases s" using res l1(1,2) l2(1,2) sn by (auto simp: condition_change_def st_def)
  moreover have "aura_phases E ob4 = aura_phases E ob"
    using l2(3) same_but_shifts_fields(4) [of ob ob4] by (simp add: phases_sorted_def)
  then have "phase_at s i = phase_at (po_shift ob4) i"
    using sn l2(3) i(2) keep_aura_phases_at [of "pe_PhaseStore E" "aura_phases E ob4" "po_shift ob4" n3 s n5 i]
    by (auto simp: st_def phases_sorted_def split: if_splits)
  ultimately show ?thesis using at2 at4 by simp
qed

section \<open>Only one area is remembered\<close>

text \<open>
  C34: The shift keeps the conditions of one entry of \<^verbatim>\<open>phase_area\<close> per phase. Let an object enter an area whose path to the
  root gives a phase by the entries \<open>gs @ [b]\<close>, all of whose conditions fail, and no aura gives it. After a later change of the conditions
  \<^verbatim>\<open>OnConditionChange\<close> shows the phase exactly when those of \<open>b\<close>, the entry met last, hold, whatever those of \<open>gs\<close> say,
  while \<^verbatim>\<open>OnAreaChange\<close> in the same place shows it when those of any of the entries hold.
\<close>

theorem OnConditionChange_forgets_area:
  assumes "stable_conditions C" "stable_conditions C'" "shifts_ok ob"
    and "ce_AreaParent C' = ce_AreaParent C" "ce_PhasesForArea C' = ce_PhasesForArea C" "area_path C (po_areaId ob) path"
    and "filter (gives (po_areaId ob) (ucast phaseId)) (path_areas C path) = gs @ [b]"
    and "\<forall>g \<in> set (gs @ [b]). \<not> ce_Meets C ob (pa_conditions g)" "ucast phaseId \<notin> (ucast ` set (aura_phases E ob) :: u16 set)"
  shows "\<exists>c1 ob1 c2 ob2 c3 ob3. area_change E C ob = Some (c1, ob1) \<and> condition_change E C' ob1 = Some (c2, ob2) \<and>
    area_change E C' ob2 = Some (c3, ob3) \<and> \<not> PhaseShift_HasPhase phaseId (po_shift ob1) \<and>
    (PhaseShift_HasPhase phaseId (po_shift ob2) \<longleftrightarrow> ce_Meets C' ob (pa_conditions b)) \<and>
    (PhaseShift_HasPhase phaseId (po_shift ob3) \<longleftrightarrow> (\<exists>g \<in> set (gs @ [b]). ce_Meets C' ob (pa_conditions g)))"
proof -
  let ?i = "ucast phaseId :: u16"
  have paths: "area_path C' a p = area_path C a p" "path_areas C' p = path_areas C p" for a p
    using assms(4,5) by (induction p arbitrary: a) (simp_all add: path_areas_def split: option.split)
  have hidden: "filter (\<lambda>g. \<not> ce_Meets C ob (pa_conditions g)) (gs @ [b]) = gs @ [b]" "\<not> (\<exists>g \<in> set (gs @ [b]). ce_Meets C ob (pa_conditions g))"
    using assms(8) by (simp_all add: filter_id_conv)
  obtain c1 ob1 where a1: "area_change E C ob = Some (c1, ob1)"
    and r1: "area_result E C (\<lambda>i. filter (gives (po_areaId ob) i) (path_areas C path)) ob ob1"
    using area_change_at [OF assms(1,3,6), of E] by blast
  have at1: "phase_at (po_shift ob1) ?i = None" "conds_at (po_suppressed ob1) ?i = last_conditions (gs @ [b]) None"
    using area_resultD(3,4) [OF r1, of ?i] assms(9) hidden unfolding assms(7) by (blast, simp)
  note ob1 = area_resultD(1,2) [OF r1]
  obtain c2 ob2 where a2: "condition_change E C' ob1 = Some (c2, ob2)" "same_but_shifts ob1 ob2" "shifts_ok ob2"
    using condition_change_correct [OF assms(2) ob1(2)] by blast
  have same: "same_but_shifts ob ob2" using ob1(1) a2(2) by (rule same_but_shifts_trans)
  have kept: "po_areaId ob2 = po_areaId ob" "aura_phases E ob2 = aura_phases E ob" "aura_phases E ob1 = aura_phases E ob"
    using same_but_shifts_fields [OF same] same_but_shifts_fields [OF ob1(1)] by simp_all
  have meets: "ce_Meets C' ob1 = ce_Meets C' ob" "ce_Meets C' ob2 = ce_Meets C' ob"
    by (intro ext stable_same [OF assms(2)] ob1(1) same)+
  have v2: "phase_at (po_shift ob2) ?i \<noteq> None \<longleftrightarrow> ce_Meets C' ob (pa_conditions b)"
    using condition_change_at [OF assms(2) ob1(2) at1(1) _ a2(1)] assms(9) at1(2) by (simp add: kept meets last_conditions_def)
  have "area_path C' (po_areaId ob2) path" using assms(6) by (simp add: kept paths)
  then obtain c3 ob3 where a3: "area_change E C' ob2 = Some (c3, ob3)"
    and r3: "area_result E C' (\<lambda>i. filter (gives (po_areaId ob2) i) (path_areas C' path)) ob2 ob3"
    using area_change_at [OF assms(2) a2(3), of path E] by blast
  have v3: "phase_at (po_shift ob3) ?i \<noteq> None \<longleftrightarrow> (\<exists>g \<in> set (gs @ [b]). ce_Meets C' ob (pa_conditions g))"
    using area_resultD(3) [OF r3, of ?i, unfolded kept meets paths assms(7)] assms(9) by blast
  show ?thesis
    using a1 at1(1) a2(1) a3 v2 v3 by (simp add: PhaseShift_HasPhase_def)
qed

text \<open>Area 30 lies in 20, which gives phase 5 under condition 1, and that in 10, which gives it under condition 2: condition 1 is forgotten.\<close>

lemma OnConditionChange_forgets_area_witness:
  "\<exists>c1 ob1 c2 ob2 c3 ob3. area_change rider_env (only_condition []) walker = Some (c1, ob1) \<and>
    condition_change rider_env (only_condition [1]) ob1 = Some (c2, ob2) \<and> area_change rider_env (only_condition [1]) ob2 = Some (c3, ob3) \<and>
    \<not> PhaseShift_HasPhase 5 (po_shift ob2) \<and> PhaseShift_HasPhase 5 (po_shift ob3)"
proof -
  have C: "stable_conditions (only_condition cs)" for cs by (simp add: stable_conditions_def only_condition_def)
  have ok: "shifts_ok walker" by (simp add: shifts_ok_def walker_def phase_thing_def)
  have path: "area_path (only_condition []) (po_areaId walker) [30, 20, 10]"
    by (simp add: only_condition_def walker_def phase_thing_def)
  have gs: "filter (gives (po_areaId walker) (ucast (5 :: u32))) (path_areas (only_condition []) [30, 20, 10]) =
      [\<lparr>pa_phaseId = 5, pa_subAreaExclusions = [], pa_conditions = 1\<rparr>] @ [\<lparr>pa_phaseId = 5, pa_subAreaExclusions = [20], pa_conditions = 2\<rparr>]"
    by (simp add: path_areas_def gives_def only_condition_def walker_def phase_thing_def)
  have auras: "aura_phases rider_env walker = []" by (simp add: aura_phases_def walker_def phase_thing_def)
  from OnConditionChange_forgets_area [OF C C ok _ _ path gs, of "[1]" rider_env]
  show ?thesis by (simp add: auras) (auto simp: only_condition_def)
qed

end
