(* ===== verification/BaseEncoding.thy ===== *)
theory BaseEncoding imports Prelude begin

text \<open>
  Base32 and Base64, \<^verbatim>\<open>src/src/common/Encoding\<close>: the generic bit repacking of \<^verbatim>\<open>BaseEncoding.h\<close>
  and its two instances. Characters are their ASCII codes. The alphabets assert that the value fits, so
  they and the encoder return \<open>None\<close> on a failed assertion; the padding loop of the encoder, whose end
  depends on the number of bits per character, is a partial function.
\<close>

section \<open>The two alphabets\<close>

datatype base_encoding = B32Impl | B64Impl

fun BITS_PER_CHAR :: "base_encoding \<Rightarrow> nat" where
  "BITS_PER_CHAR B32Impl = 5"
| "BITS_PER_CHAR B64Impl = 6"

definition PADDING :: u8 where "PADDING = 61"
definition DECODE_ERROR :: u8 where "DECODE_ERROR = 0xff"

definition B32_Encode :: "u8 \<Rightarrow> u8 option" where
  "B32_Encode v = (if \<not> v < 0x20 then None else if v < 26 then Some (65 + v) else Some (50 + (v - 26)))"

text \<open>The digits 0, 1 and 8 stand for the letters \<open>O\<close>, \<open>l\<close> and \<open>B\<close>.\<close>

definition B32_Decode_letter :: "u8 \<Rightarrow> u8" where
  "B32_Decode_letter v =
     (if 65 \<le> v \<and> v \<le> 90 then v - 65
      else if 97 \<le> v \<and> v \<le> 122 then v - 97
      else if 50 \<le> v \<and> v \<le> 55 then (v - 50) + 26
      else DECODE_ERROR)"

definition B32_Decode :: "u8 \<Rightarrow> u8" where
  "B32_Decode v =
     (if v = 48 then B32_Decode_letter 79
      else if v = 49 then B32_Decode_letter 108
      else if v = 56 then B32_Decode_letter 66
      else B32_Decode_letter v)"

definition B64_Encode :: "u8 \<Rightarrow> u8 option" where
  "B64_Encode v =
     (if \<not> v < 0x40 then None
      else if v < 26 then Some (65 + v)
      else if v < 52 then Some (97 + (v - 26))
      else if v < 62 then Some (48 + (v - 52))
      else if v = 62 then Some 43
      else Some 47)"

definition B64_Decode :: "u8 \<Rightarrow> u8" where
  "B64_Decode v =
     (if 65 \<le> v \<and> v \<le> 90 then v - 65
      else if 97 \<le> v \<and> v \<le> 122 then (v - 97) + 26
      else if 48 \<le> v \<and> v \<le> 57 then (v - 48) + 52
      else if v = 43 then 62
      else if v = 47 then 63
      else DECODE_ERROR)"

fun char_encode :: "base_encoding \<Rightarrow> u8 \<Rightarrow> u8 option" where
  "char_encode B32Impl = B32_Encode"
| "char_encode B64Impl = B64_Encode"

fun char_decode :: "base_encoding \<Rightarrow> u8 \<Rightarrow> u8" where
  "char_decode B32Impl = B32_Decode"
| "char_decode B64Impl = B64_Decode"

section \<open>The generic encoder and decoder\<close>

definition PAD_TO :: "base_encoding \<Rightarrow> nat" where
  "PAD_TO e = lcm 8 (BITS_PER_CHAR e)"

definition EncodedSize :: "base_encoding \<Rightarrow> nat \<Rightarrow> nat" where
  "EncodedSize e size0 =
     (let size1 = size0 * 8;
          size2 = (if size1 mod PAD_TO e \<noteq> 0 then size1 + (PAD_TO e - size1 mod PAD_TO e) else size1)
      in size2 div BITS_PER_CHAR e)"

definition DecodedSize :: "base_encoding \<Rightarrow> nat \<Rightarrow> nat" where
  "DecodedSize e size0 =
     (let size1 = size0 * BITS_PER_CHAR e;
          size2 = (if size1 mod PAD_TO e \<noteq> 0 then size1 + (PAD_TO e - size1 mod PAD_TO e) else size1)
      in size2 div 8)"

lemma BITS_bounds [simp]: "0 < BITS_PER_CHAR e" "BITS_PER_CHAR e < 8"
  by (cases e; simp)+

text \<open>
  The \<^verbatim>\<open>do .. while\<close> loop: \<open>b # rest\<close> are the bytes from the iterator on, \<open>bl\<close> is \<^verbatim>\<open>bitsLeft\<close>. It returns the
  values handed to the alphabet and the final \<^verbatim>\<open>bitsLeft\<close>.
\<close>

function Encode_loop :: "base_encoding \<Rightarrow> u8 \<Rightarrow> u8 list \<Rightarrow> nat \<Rightarrow> u8 list \<times> nat" where
  "Encode_loop e b rest bl =
     (let B = BITS_PER_CHAR e in
      if bl \<ge> B
      then let bl' = bl - B;
               c = drop_bit bl' b AND (push_bit B 1 - 1)
           in if bl' = 0
              then (case rest of
                      [] \<Rightarrow> ([c], 8)
                    | b' # rest' \<Rightarrow> let (cs, fb) = Encode_loop e b' rest' 8 in (c # cs, fb))
              else let (cs, fb) = Encode_loop e b rest bl' in (c # cs, fb)
      else let c = push_bit (B - bl) (b AND (push_bit bl 1 - 1));
               bl' = bl + (8 - B)
           in (case rest of
                 [] \<Rightarrow> ([c], bl')
               | b' # rest' \<Rightarrow>
                   let (cs, fb) = Encode_loop e b' rest' bl' in ((c OR drop_bit bl' b') # cs, fb)))"
  by pat_completeness auto

termination
  by (relation "measures [\<lambda>(e, b, rest, bl). length rest, \<lambda>(e, b, rest, bl). bl]")
     (auto simp: Let_def simp del: push_bit_of_1)

declare Encode_loop.simps [simp del]

definition pad_step :: "base_encoding \<Rightarrow> nat \<Rightarrow> nat" where
  "pad_step e bl = (if bl > BITS_PER_CHAR e then bl - BITS_PER_CHAR e else bl + (8 - BITS_PER_CHAR e))"

text \<open>The number of padding characters appended until \<^verbatim>\<open>bitsLeft\<close> is 8.\<close>

partial_function (option) pad_count :: "base_encoding \<Rightarrow> nat \<Rightarrow> nat option" where
  "pad_count e bl =
     (if bl = 8 then Some 0 else Option.bind (pad_count e (pad_step e bl)) (\<lambda>n. Some (Suc n)))"

fun option_all :: "('a \<Rightarrow> 'b option) \<Rightarrow> 'a list \<Rightarrow> 'b list option" where
  "option_all f [] = Some []"
| "option_all f (x # xs) =
     (case f x of None \<Rightarrow> None | Some y \<Rightarrow> map_option ((#) y) (option_all f xs))"

definition GenericBaseEncoding_Encode :: "base_encoding \<Rightarrow> u8 list \<Rightarrow> u8 list option" where
  "GenericBaseEncoding_Encode e data =
     (case data of
        [] \<Rightarrow> Some []
      | b # rest \<Rightarrow>
          let (cs, bl) = Encode_loop e b rest 8
          in case option_all (char_encode e) cs of
               None \<Rightarrow> None
             | Some s \<Rightarrow> map_option (\<lambda>n. s @ replicate n PADDING) (pad_count e bl))"

fun Decode_loop ::
  "base_encoding \<Rightarrow> u8 list \<Rightarrow> u8 \<Rightarrow> nat \<Rightarrow> u8 list \<Rightarrow> (u8 list \<times> u8 \<times> nat \<times> u8 list) option" where
  "Decode_loop e [] currentByte bl v = Some (v, currentByte, bl, [])"
| "Decode_loop e (c # s) currentByte bl v =
     (if c = PADDING then Some (v, currentByte, bl, c # s)
      else let cur = char_decode e c; B = BITS_PER_CHAR e in
        if cur = DECODE_ERROR then None
        else if bl > B
        then let bl' = bl - B in Decode_loop e s (currentByte OR push_bit bl' cur) bl' v
        else let k = B - bl;
                 full = currentByte OR drop_bit k cur;
                 bl' = 8 - k
             in Decode_loop e s (push_bit bl' (cur AND (push_bit k 1 - 1))) bl' (v @ [full]))"

fun Decode_padding :: "base_encoding \<Rightarrow> u8 list \<Rightarrow> nat \<Rightarrow> u8 list" where
  "Decode_padding e [] bl = []"
| "Decode_padding e (c # s) bl =
     (if c = PADDING \<and> bl \<noteq> 8 then Decode_padding e s (pad_step e bl) else c # s)"

definition GenericBaseEncoding_Decode :: "base_encoding \<Rightarrow> u8 list \<Rightarrow> u8 list option" where
  "GenericBaseEncoding_Decode e data =
     (if data = [] then Some []
      else case Decode_loop e data 0 8 [] of
             None \<Rightarrow> None
           | Some (v, currentByte, bl, rest) \<Rightarrow>
               if currentByte \<noteq> 0 then None
               else if Decode_padding e rest bl = [] then Some v else None)"

definition Base32_Encode :: "u8 list \<Rightarrow> u8 list option" where
  "Base32_Encode = GenericBaseEncoding_Encode B32Impl"

definition Base32_Decode :: "u8 list \<Rightarrow> u8 list option" where
  "Base32_Decode = GenericBaseEncoding_Decode B32Impl"

definition Base64_Encode :: "u8 list \<Rightarrow> u8 list option" where
  "Base64_Encode = GenericBaseEncoding_Encode B64Impl"

definition Base64_Decode :: "u8 list \<Rightarrow> u8 list option" where
  "Base64_Decode = GenericBaseEncoding_Decode B64Impl"

section \<open>The alphabets are inverse to each other\<close>

definition char_roundtrips :: "base_encoding \<Rightarrow> u8 \<Rightarrow> bool" where
  "char_roundtrips e v =
     (case char_encode e v of
        None \<Rightarrow> False
      | Some c \<Rightarrow> c \<noteq> PADDING \<and> char_decode e c = v \<and> v \<noteq> DECODE_ERROR)"

lemma char_table_B32: "list_all (\<lambda>n. char_roundtrips B32Impl (word_of_nat n)) [0..<32]"
  by code_simp

lemma char_table_B64: "list_all (\<lambda>n. char_roundtrips B64Impl (word_of_nat n)) [0..<64]"
  by code_simp

lemma char_roundtrip:
  assumes "unat v < 2 ^ BITS_PER_CHAR e"
  obtains c where "char_encode e v = Some c" "c \<noteq> PADDING" "char_decode e c = v" "v \<noteq> DECODE_ERROR"
proof -
  have "char_roundtrips e (word_of_nat (unat v))"
    using assms char_table_B32 char_table_B64 by (cases e) (auto simp: list_all_iff dest!: bspec [where x = "unat v"])
  then show ?thesis using that by (auto simp: char_roundtrips_def split: option.splits)
qed

section \<open>Encoding preserves the bit stream\<close>

lemma msb_bits_push:
  assumes "k \<le> n" "n \<le> 8"
  shows "msb_bits n (push_bit (n - k) ((b :: u8) AND mask k)) = msb_bits k b @ replicate (n - k) False"
  using assms by (intro nth_equalityI) (auto simp: nth_append bit_push_bit_iff bit_and_iff bit_mask_iff)

lemma msb_bits_push_or:
  assumes "k \<le> n" "n \<le> 8"
  shows "msb_bits n (push_bit (n - k) ((b :: u8) AND mask k) OR drop_bit (8 - (n - k)) (c :: u8)) =
    msb_bits k b @ msb_bits (n - k) (drop_bit (8 - (n - k)) c)"
proof (rule nth_equalityI)
  fix i assume "i < length (msb_bits n (push_bit (n - k) (b AND mask k) OR drop_bit (8 - (n - k)) c))"
  then have i: "i < n" by simp
  have "\<not> bit c (8 - (n - k) + (n - Suc i))" if "i < k" using that assms by (auto dest!: bit_imp_le_length)
  then show "msb_bits n (push_bit (n - k) (b AND mask k) OR drop_bit (8 - (n - k)) c) ! i =
      (msb_bits k b @ msb_bits (n - k) (drop_bit (8 - (n - k)) c)) ! i"
    using i assms by (auto simp: nth_append bit_push_bit_iff bit_and_iff bit_or_iff bit_mask_iff bit_drop_bit_eq
        intro!: arg_cong [where f = "bit c"])
qed (use assms in simp)

lemma unat_less_bits: "\<forall>i \<ge> n. \<not> bit v i \<Longrightarrow> n < 8 \<Longrightarrow> unat (v :: u8) < 2 ^ n"
  by (simp add: word_less_power_iff_bits)

lemma Encode_loop_bits:
  assumes "1 \<le> bl" "bl \<le> 8" "Encode_loop e b rest bl = (cs, fb)"
  shows "concat (map (msb_bits (BITS_PER_CHAR e)) cs) = msb_bits bl b @ bytes_bits rest @ replicate (8 - fb) False
    \<and> 8 - fb < BITS_PER_CHAR e \<and> 1 \<le> fb \<and> fb \<le> 8 \<and> (\<forall>v \<in> set cs. unat v < 2 ^ BITS_PER_CHAR e)"
  using assms
proof (induction e b rest bl arbitrary: cs fb rule: Encode_loop.induct)
  case (1 e b rest bl)
  define B where "B = BITS_PER_CHAR e"
  have B: "0 < B" "B < 8" by (simp_all add: B_def)
  note eqn = "1.prems"(3) [unfolded Encode_loop.simps [of e b rest bl], folded B_def]
  show ?case unfolding B_def [symmetric]
  proof (cases "B \<le> bl")
    case True
    define c where "c = drop_bit (bl - B) b AND (push_bit B 1 - 1)"
    have c: "msb_bits B c = msb_bits B (drop_bit (bl - B) b)" "unat c < 2 ^ B"
      using B by (simp_all add: c_def msb_bits_mask unat_less_bits bit_and_iff bit_mask_iff del: drop_bit_and)
    have split: "msb_bits bl b = msb_bits B (drop_bit (bl - B) b) @ msb_bits (bl - B) b"
      using msb_bits_add [of B "bl - B" b] True by simp
    consider "bl = B" "rest = []" | b' r where "bl = B" "rest = b' # r" | "B < bl" using True by (cases rest) force+
    then show "concat (map (msb_bits B) cs) = msb_bits bl b @ bytes_bits rest @ replicate (8 - fb) False
    \<and> 8 - fb < B \<and> 1 \<le> fb \<and> fb \<le> 8 \<and> (\<forall>v \<in> set cs. unat v < 2 ^ B)"
    proof cases
      case 1
      with eqn True c split B show ?thesis by (auto simp: Let_def c_def)
    next
      case 2
      obtain cs' fb' where r: "Encode_loop e b' r 8 = (cs', fb')" by fastforce
      with 2 eqn True have "cs = c # cs'" "fb = fb'" by (simp_all add: Let_def c_def)
      with "1.IH"(1) [OF B_def True refl refl _ 2(2) _ _ r] 2 True c split show ?thesis
        by (simp add: B_def)
    next
      case 3
      obtain cs' fb' where r: "Encode_loop e b rest (bl - B) = (cs', fb')" by fastforce
      with 3 eqn True have "cs = c # cs'" "fb = fb'" by (simp_all add: Let_def c_def)
      with "1.IH"(2) [OF B_def True refl refl _ _ _ r] 3 True c split "1.prems" show ?thesis
        by (simp add: B_def)
    qed
  next
    case False
    define bl' where "bl' = bl + (8 - B)"
    define c where "c = push_bit (B - bl) (b AND (push_bit bl 1 - 1))"
    have bl': "bl' = 8 - (B - bl)" "1 \<le> bl'" "bl' < 8" using False B "1.prems" by (simp_all add: bl'_def)
    show "concat (map (msb_bits B) cs) = msb_bits bl b @ bytes_bits rest @ replicate (8 - fb) False
    \<and> 8 - fb < B \<and> 1 \<le> fb \<and> fb \<le> 8 \<and> (\<forall>v \<in> set cs. unat v < 2 ^ B)"
    proof (cases rest)
      case Nil
      have "msb_bits B c = msb_bits bl b @ replicate (B - bl) False"
        using msb_bits_push [of bl B b] False B by (simp add: c_def)
      moreover have "unat c < 2 ^ B" using False B
        by (auto simp: c_def bit_push_bit_iff bit_and_iff bit_mask_iff simp del: push_bit_and intro!: unat_less_bits)
      ultimately show ?thesis using eqn Nil False B bl' "1.prems" by (auto simp: Let_def c_def bl'_def)
    next
      case (Cons b' r)
      obtain cs' fb' where r: "Encode_loop e b' r bl' = (cs', fb')" by fastforce
      with Cons eqn False have cs: "cs = (c OR drop_bit bl' b') # cs'" "fb = fb'"
        by (simp_all add: Let_def c_def bl'_def)
      have "msb_bits B (c OR drop_bit bl' b') = msb_bits bl b @ msb_bits (B - bl) (drop_bit bl' b')"
        using msb_bits_push_or [of bl B b b'] False B by (simp add: c_def bl'(1))
      moreover have "msb_bits 8 b' = msb_bits (B - bl) (drop_bit bl' b') @ msb_bits bl' b'"
        using msb_bits_add [of "B - bl" bl' b'] False bl' B by simp
      moreover have "unat (c OR drop_bit bl' b') < 2 ^ B"
      proof (rule unat_less_bits)
        have "\<not> bit c i" "\<not> bit b' (bl' + i)" if "B \<le> i" for i
          using that False B bl'(1) bit_imp_le_length [of b' "bl' + i"]
          by (auto simp: c_def bit_push_bit_iff bit_and_iff bit_mask_iff simp del: push_bit_and)
        then show "\<forall>i \<ge> B. \<not> bit (c OR drop_bit bl' b') i" by (simp add: bit_or_iff bit_drop_bit_eq)
      qed (use B in simp)
      moreover note "1.IH"(3) [OF B_def False c_def bl'_def Cons _ _ r]
      ultimately show ?thesis using cs Cons False bl' by (simp add: B_def)
    qed
  qed
qed

section \<open>Decoding restores it\<close>

lemma Decode_loop_bits:
  assumes "\<forall>x \<in> set cs. unat x < 2 ^ BITS_PER_CHAR e" "option_all (char_encode e) cs = Some s"
    "1 \<le> bl" "bl \<le> 8" "\<forall>i < bl. \<not> bit cur i" "\<forall>c \<in> set pad. c = PADDING"
  shows "\<exists>v' cur' bl'. Decode_loop e (s @ pad) cur bl v = Some (v', cur', bl', pad) \<and> 1 \<le> bl' \<and> bl' \<le> 8
    \<and> (\<forall>i < bl'. \<not> bit cur' i)
    \<and> bytes_bits v' @ take (8 - bl') (msb_bits 8 cur') =
        bytes_bits v @ take (8 - bl) (msb_bits 8 cur) @ concat (map (msb_bits (BITS_PER_CHAR e)) cs)"
  using assms
proof (induction cs arbitrary: s cur bl v)
  case Nil
  then show ?case by (cases pad) auto
next
  case (Cons x cs)
  define B where "B = BITS_PER_CHAR e"
  have B: "0 < B" "B < 8" by (simp_all add: B_def)
  obtain c where c: "char_encode e x = Some c" "c \<noteq> PADDING" "char_decode e c = x" "x \<noteq> DECODE_ERROR"
    using char_roundtrip [of x e] Cons.prems(1) by auto
  then obtain s' where s': "s = c # s'" "option_all (char_encode e) cs = Some s'"
    using Cons.prems(2) by auto
  have hi: "\<not> bit x i" if "B \<le> i" for i
    using that Cons.prems(1) B word_less_power_iff_bits [of B x] by (cases "i < 8") (auto simp: B_def dest: bit_imp_le_length)
  have lo: "\<And>i. i < bl \<Longrightarrow> \<not> bit cur i" using Cons.prems(5) by blast
  have len: "bit w j \<Longrightarrow> j < 8" for w :: u8 and j by (auto dest: bit_imp_le_length)
  show ?case
  proof (cases "bl > B")
    case True
    define cur1 where "cur1 = cur OR push_bit (bl - B) x"
    have low: "\<forall>i < bl - B. \<not> bit cur1 i" using lo by (auto simp: cur1_def bit_or_iff bit_push_bit_iff)
    have "take (8 - (bl - B)) (msb_bits 8 cur1) = take (8 - bl) (msb_bits 8 cur) @ msb_bits B x"
    proof (rule nth_equalityI)
      fix i assume "i < length (take (8 - (bl - B)) (msb_bits 8 cur1))"
      then have i: "i < 8 - bl + B" using True Cons.prems by simp
      show "take (8 - (bl - B)) (msb_bits 8 cur1) ! i = (take (8 - bl) (msb_bits 8 cur) @ msb_bits B x) ! i"
      proof (cases "i < 8 - bl")
        case True
        then have "B \<le> 7 - i - (bl - B)" using \<open>B < bl\<close> by simp
        with True i hi Cons.prems show ?thesis
          by (auto simp: nth_append cur1_def bit_or_iff bit_push_bit_iff)
      next
        case False
        have "7 - i - (bl - B) = B - Suc (i - (8 - bl))" using False i \<open>B < bl\<close> Cons.prems(3,4) by simp
        with False i lo \<open>B < bl\<close> Cons.prems(3,4) show ?thesis
          by (auto simp: nth_append cur1_def bit_or_iff bit_push_bit_iff)
      qed
    qed (use True Cons.prems in simp)
    moreover have "Decode_loop e (s @ pad) cur bl v = Decode_loop e (s' @ pad) cur1 (bl - B) v"
      using c True s' by (simp add: B_def cur1_def Let_def)
    ultimately show ?thesis
      using Cons.IH [of s' "bl - B" cur1 v] low True Cons.prems s' by (simp add: B_def)
  next
    case False
    define k where "k = B - bl"
    define full where "full = cur OR drop_bit k x"
    define cur1 where "cur1 = push_bit (8 - k) (x AND (push_bit k 1 - 1))"
    have k: "k < 8" "k + bl = B" using False B by (simp_all add: k_def)
    have low: "\<forall>i < 8 - k. \<not> bit cur1 i" by (auto simp: cur1_def bit_push_bit_iff simp del: push_bit_and)
    have eq: "msb_bits 8 full @ take k (msb_bits 8 cur1) = take (8 - bl) (msb_bits 8 cur) @ msb_bits B x"
    proof (rule nth_equalityI)
      fix i assume "i < length (msb_bits 8 full @ take k (msb_bits 8 cur1))"
      then have i: "i < 8 + k" using k by simp
      consider "i < 8 - bl" | "8 - bl \<le> i" "i < 8" | "8 \<le> i" by linarith
      then show "(msb_bits 8 full @ take k (msb_bits 8 cur1)) ! i = (take (8 - bl) (msb_bits 8 cur) @ msb_bits B x) ! i"
      proof cases
        case 1
        then have "B \<le> k + (7 - i)" using k by simp
        with 1 hi Cons.prems show ?thesis by (auto simp: nth_append full_def bit_or_iff bit_drop_bit_eq)
      next
        case 2
        then have "7 - i < bl" "k + (7 - i) = B - Suc (i - (8 - bl))" using k Cons.prems(3,4) by simp_all
        with 2 lo Cons.prems(3,4) k show ?thesis
          by (auto simp: nth_append full_def bit_or_iff bit_drop_bit_eq)
      next
        case 3
        then have "7 - (i - 8) - (8 - k) = B - Suc (i - (8 - bl))" "7 - (i - 8) - (8 - k) < k" "8 - k \<le> 7 - (i - 8)"
          using i k Cons.prems(3,4) by simp_all
        with 3 i k Cons.prems(3,4) show ?thesis
          by (auto simp: nth_append cur1_def bit_push_bit_iff bit_and_iff bit_mask_iff simp del: push_bit_and)
      qed
    qed (use k Cons.prems in simp)
    have z: "msb_bits 8 full @ take k (msb_bits 8 cur1) @ z = take (8 - bl) (msb_bits 8 cur) @ msb_bits B x @ z" for z
      using eq by (metis append_assoc)
    have "Decode_loop e (s @ pad) cur bl v = Decode_loop e (s' @ pad) cur1 (8 - k) (v @ [full])"
      using c False s' by (simp add: B_def cur1_def full_def k_def Let_def)
    moreover have "1 \<le> 8 - k" using k by simp
    ultimately show ?thesis
      using Cons.IH [of s' "8 - k" cur1 "v @ [full]"] low Cons.prems(1,6) s'(2) k by (simp add: z [unfolded B_def] B_def del: Decode_loop.simps)
  qed
qed

lemma Decode_padding_all:
  "pad_count e bl = Some n \<Longrightarrow> Decode_padding e (replicate n PADDING) bl = []"
proof (induction n arbitrary: bl)
  case (Suc n)
  then have "bl \<noteq> 8" "pad_count e (pad_step e bl) = Some n"
    using pad_count.simps [of e bl] by (auto simp: bind_eq_Some_conv split: if_splits)
  with Suc.IH show ?case by simp
next
  case 0
  then show ?case by simp
qed

section \<open>Round trip\<close>

lemma pad_count_total: "\<exists>m. pad_count e (8 - (n * BITS_PER_CHAR e) mod 8) = Some m"
proof -
  note u = pad_count.simps
  have "(n * BITS_PER_CHAR e) mod 8 = ((n mod 8) * BITS_PER_CHAR e) mod 8" by (simp add: mod_mult_left_eq)
  moreover have "n mod 8 \<in> {0, 1, 2, 3, 4, 5, 6, 7}" using mod_less_divisor [of 8 n] by auto
  ultimately show ?thesis
    by (cases e) (auto simp: u [of _ 8] u [of _ 7] u [of _ 6] u [of _ 5] u [of _ 4] u [of _ 3] u [of _ 2] u [of _ 1]
        u [of _ "Suc 0"] pad_step_def)
qed

lemma div_mod_unique:
  assumes "x < 8" "y < 8" "8 * a + x = 8 * b + (y :: nat)"
  shows "a = b \<and> x = y"
proof -
  have "a = b" using assms arg_cong [OF assms(3), of "\<lambda>n. n div 8"] by simp
  with assms(3) show ?thesis by simp
qed

lemma length_concat_msb: "length (concat (map (msb_bits k) cs)) = length cs * k"
  by (induction cs) auto

lemma GenericBaseEncoding_roundtrip:
  "\<exists>s. GenericBaseEncoding_Encode e data = Some s \<and> GenericBaseEncoding_Decode e s = Some data"
proof (cases data)
  case Nil
  then show ?thesis by (simp add: GenericBaseEncoding_Encode_def GenericBaseEncoding_Decode_def)
next
  case (Cons b rest)
  define B where "B = BITS_PER_CHAR e"
  obtain cs fb where enc: "Encode_loop e b rest 8 = (cs, fb)" by fastforce
  note bits = Encode_loop_bits [OF _ _ enc, simplified, folded B_def]
  have all: "\<exists>s. option_all (char_encode e) cs' = Some s \<and> length s = length cs'"
    if "\<forall>v \<in> set cs'. unat v < 2 ^ B" for cs'
    using that by (induction cs') (auto simp: B_def elim!: char_roundtrip)
  then obtain s where s: "option_all (char_encode e) cs = Some s" "length s = length cs" using bits by blast
  have stream: "concat (map (msb_bits B) cs) = bytes_bits data @ replicate (8 - fb) False"
    using bits Cons by simp
  have len: "length cs * B = 8 * length data + (8 - fb)"
    using arg_cong [OF stream, of length] by (simp add: length_concat_msb)
  have fb: "1 \<le> fb" "fb \<le> 8" "8 - fb < 8" using bits by auto
  then have "(length cs * B) mod 8 = 8 - fb" unfolding len by (metis mod_less mod_mult_self4 mult.commute)
  then have "fb = 8 - (length cs * B) mod 8" using fb by simp
  then obtain n where n: "pad_count e fb = Some n" using pad_count_total [of e "length cs"] by (auto simp: B_def)
  obtain v' cur' bl' where dec: "Decode_loop e (s @ replicate n PADDING) 0 8 [] = Some (v', cur', bl', replicate n PADDING)"
      "1 \<le> bl'" "bl' \<le> 8" "\<forall>i < bl'. \<not> bit cur' i"
      "bytes_bits v' @ take (8 - bl') (msb_bits 8 cur') = concat (map (msb_bits B) cs)"
    using Decode_loop_bits [of cs e s 8 0 "replicate n PADDING" "[]"] bits s by (auto simp: B_def)
  have eq: "bytes_bits v' @ take (8 - bl') (msb_bits 8 cur') = bytes_bits data @ replicate (8 - fb) False"
    using dec(5) stream by simp
  have "8 * length v' + (8 - bl') = 8 * length data + (8 - fb)"
    using arg_cong [OF eq, of length] by simp
  with div_mod_unique [of "8 - bl'" "8 - fb" "length v'" "length data"] fb dec(2,3)
  have l: "length v' = length data" "8 - bl' = 8 - fb" by simp_all
  have bl': "bl' = fb" using l(2) fb(2) dec(3) by linarith
  with eq bl' have v: "v' = data" and c: "take (8 - fb) (msb_bits 8 cur') = replicate (8 - fb) False"
    by (simp_all add: bytes_bits_inj)
  have "cur' = 0"
  proof (rule bit_word_eqI)
    fix i assume i: "i < LENGTH(8)"
    show "bit cur' i = bit 0 i"
    proof (cases "i < fb")
      case True
      with dec(4) bl' show ?thesis by simp
    next
      case False
      then have "take (8 - fb) (msb_bits 8 cur') ! (7 - i) = False" using c i by simp
      with False i show ?thesis by simp
    qed
  qed
  moreover have "s \<noteq> []"
  proof
    assume "s = []"
    with s(2) len Cons show False by simp
  qed
  ultimately show ?thesis using Cons enc s n dec(1) v bl' Decode_padding_all [OF n]
    by (simp add: GenericBaseEncoding_Encode_def GenericBaseEncoding_Decode_def)
qed

text \<open>
  C27: Every byte string encodes in Base64 without a failed assertion and without looping in the padding,
  and decodes to itself.
\<close>

theorem Base64_roundtrip: "\<exists>s. Base64_Encode data = Some s \<and> Base64_Decode s = Some data"
  using GenericBaseEncoding_roundtrip [of B64Impl data] by (simp add: Base64_Encode_def Base64_Decode_def)

text \<open>
  The same for Base32, whose padding loop takes up to six steps.
\<close>

theorem Base32_roundtrip: "\<exists>s. Base32_Encode data = Some s \<and> Base32_Decode s = Some data"
  using GenericBaseEncoding_roundtrip [of B32Impl data] by (simp add: Base32_Encode_def Base32_Decode_def)

end
