(* ===== verification/CombatManager.thy ===== *)
theory CombatManager imports PhaseShift begin

text \<open>
  Combat references, \<^verbatim>\<open>src/src/server/game/Combat/CombatManager.{h,cpp}\<close>. A \<^verbatim>\<open>CombatReference\<close> is one heap
  object shared by the two units it joins, so the model keeps a heap of references and, for every unit,
  the two maps from the other unit's guid to an address. \<open>None\<close> is undefined behaviour (a dangling
  address), a failed assertion, or a loop that does not end. Unordered maps are iterated in key order;
  nothing proved depends on it. What the manager reads of units (life, map, phase, factions, owners)
  is the environment \<open>unit_env\<close>; calls into AI and unit hooks are recorded as events. The threat lists,
  which combat clears, are the set of pairs of a unit and the unit it has threat on.
\<close>

type_synonym uguid = nat
type_synonym addr = nat

section \<open>State\<close>

record combat_ref =
  cr_first :: uguid
  cr_second :: uguid
  cr_isPvP :: bool
  cr_suppressFirst :: bool
  cr_suppressSecond :: bool
  cr_combatTimer :: nat

datatype unit_event =
    AtEnterCombat uguid
  | AtExitCombat uguid
  | AtEngage uguid "uguid option"
  | AtDisengage uguid
  | JustEnteredCombat uguid uguid
  | JustExitedCombat uguid
  | UpdatePetCombatState uguid

record combat_world =
  cw_refs :: "addr \<rightharpoonup> combat_ref"
  cw_next :: addr
  cw_pve :: "uguid \<Rightarrow> (uguid, addr) omap"
  cw_pvp :: "uguid \<Rightarrow> (uguid, addr) omap"
  cw_inCombat :: "uguid \<Rightarrow> bool"
  cw_threat :: "(uguid \<times> uguid) list"
  cw_events :: "unit_event list"

record unit_view =
  uv_inWorld :: bool
  uv_alive :: bool
  uv_map :: nat
  uv_phase :: phase_shift
  uv_evade :: bool
  uv_inFlight :: bool
  uv_combatDisallowed :: bool
  uv_ownerGameMaster :: bool
  uv_controlledByPlayer :: bool
  uv_flagPlayerControlled :: bool
  uv_immuneToPC :: bool
  uv_immuneToNPC :: bool
  uv_isCreature :: bool
  uv_isPlayer :: bool
  uv_hasAI :: bool
  uv_charmerOrOwner :: "uguid option"

record unit_env =
  ue_view :: "uguid \<Rightarrow> unit_view"
  ue_friendlyTo :: "uguid \<Rightarrow> uguid \<Rightarrow> bool"

definition PVP_COMBAT_TIMEOUT :: nat where "PVP_COMBAT_TIMEOUT = 5000"

definition CombatReference_new :: "uguid \<Rightarrow> uguid \<Rightarrow> bool \<Rightarrow> combat_ref" where
  "CombatReference_new a b pvp =
     \<lparr>cr_first = a, cr_second = b, cr_isPvP = pvp, cr_suppressFirst = False, cr_suppressSecond = False,
      cr_combatTimer = PVP_COMBAT_TIMEOUT\<rparr>"

definition combat_world_new :: combat_world where
  "combat_world_new = \<lparr>cw_refs = Map.empty, cw_next = 0, cw_pve = \<lambda>_. [], cw_pvp = \<lambda>_. [],
     cw_inCombat = \<lambda>_. False, cw_threat = [], cw_events = []\<rparr>"

definition GetOther :: "combat_ref \<Rightarrow> uguid \<Rightarrow> uguid" where
  "GetOther c me = (if cr_first c = me then cr_second c else cr_first c)"

definition IsSuppressedFor :: "combat_ref \<Rightarrow> uguid \<Rightarrow> bool" where
  "IsSuppressedFor c who = (if who = cr_first c then cr_suppressFirst c else cr_suppressSecond c)"

definition Suppress :: "uguid \<Rightarrow> combat_ref \<Rightarrow> combat_ref" where
  "Suppress who c =
     (if who = cr_first c then c\<lparr>cr_suppressFirst := True\<rparr> else c\<lparr>cr_suppressSecond := True\<rparr>)"

section \<open>Queries\<close>

definition CanBeginCombat :: "unit_env \<Rightarrow> uguid \<Rightarrow> uguid \<Rightarrow> bool" where
  "CanBeginCombat e a b =
     (let va = ue_view e a; vb = ue_view e b in
      if a = b then False
      else if \<not> uv_inWorld va \<or> \<not> uv_inWorld vb then False
      else if \<not> uv_alive va \<or> \<not> uv_alive vb then False
      else if uv_map va \<noteq> uv_map vb then False
      else if \<not> PhaseShift_CanSee (uv_phase va) (uv_phase vb) then False
      else if uv_evade va \<or> uv_evade vb then False
      else if uv_inFlight va \<or> uv_inFlight vb then False
      else if uv_combatDisallowed va \<or> uv_combatDisallowed vb then False
      else if ue_friendlyTo e a b \<or> ue_friendlyTo e b a then False
      else if uv_ownerGameMaster va \<or> uv_ownerGameMaster vb then False
      else True)"

fun first_unsuppressed :: "(addr \<rightharpoonup> combat_ref) \<Rightarrow> uguid \<Rightarrow> (uguid \<times> addr) list \<Rightarrow> combat_ref option option" where
  "first_unsuppressed refs me [] = Some None"
| "first_unsuppressed refs me ((g, r) # m) =
     (case refs r of
        None \<Rightarrow> None
      | Some c \<Rightarrow> if \<not> IsSuppressedFor c me then Some (Some c) else first_unsuppressed refs me m)"

definition HasPvECombat :: "uguid \<Rightarrow> combat_world \<Rightarrow> bool option" where
  "HasPvECombat me w = map_option (\<lambda>c. c \<noteq> None) (first_unsuppressed (cw_refs w) me (cw_pve w me))"

definition HasPvPCombat :: "uguid \<Rightarrow> combat_world \<Rightarrow> bool option" where
  "HasPvPCombat me w = map_option (\<lambda>c. c \<noteq> None) (first_unsuppressed (cw_refs w) me (cw_pvp w me))"

definition HasCombat :: "uguid \<Rightarrow> combat_world \<Rightarrow> bool option" where
  "HasCombat me w = Option.bind (HasPvECombat me w) (\<lambda>b. if b then Some True else HasPvPCombat me w)"

fun HasPvECombatWithPlayers_loop ::
  "unit_env \<Rightarrow> (addr \<rightharpoonup> combat_ref) \<Rightarrow> uguid \<Rightarrow> (uguid \<times> addr) list \<Rightarrow> bool option" where
  "HasPvECombatWithPlayers_loop e refs me [] = Some False"
| "HasPvECombatWithPlayers_loop e refs me ((g, r) # m) =
     (case refs r of
        None \<Rightarrow> None
      | Some c \<Rightarrow>
          if \<not> IsSuppressedFor c me \<and> uv_isPlayer (ue_view e (GetOther c me)) then Some True
          else HasPvECombatWithPlayers_loop e refs me m)"

definition HasPvECombatWithPlayers :: "unit_env \<Rightarrow> uguid \<Rightarrow> combat_world \<Rightarrow> bool option" where
  "HasPvECombatWithPlayers e me w = HasPvECombatWithPlayers_loop e (cw_refs w) me (cw_pve w me)"

definition GetAnyTarget :: "uguid \<Rightarrow> combat_world \<Rightarrow> uguid option option" where
  "GetAnyTarget me w =
     Option.bind (first_unsuppressed (cw_refs w) me (cw_pve w me)) (\<lambda>t.
       case t of
         Some c \<Rightarrow> Some (Some (GetOther c me))
       | None \<Rightarrow> map_option (map_option (\<lambda>c. GetOther c me)) (first_unsuppressed (cw_refs w) me (cw_pvp w me)))"

definition IsInCombatWith :: "uguid \<Rightarrow> uguid \<Rightarrow> combat_world \<Rightarrow> bool" where
  "IsInCombatWith me g w \<longleftrightarrow> om_find g (cw_pve w me) \<noteq> None \<or> om_find g (cw_pvp w me) \<noteq> None"

section \<open>Updates\<close>

definition event :: "unit_event list \<Rightarrow> combat_world \<Rightarrow> combat_world" where
  "event es w = w\<lparr>cw_events := cw_events w @ es\<rparr>"

definition combat_state_changed :: "unit_env \<Rightarrow> uguid \<Rightarrow> bool \<Rightarrow> combat_world \<Rightarrow> combat_world option" where
  "combat_state_changed e me combatState w0 =
     (let w = w0\<lparr>cw_inCombat := (cw_inCombat w0)(me := combatState)\<rparr>;
          pet = (case uv_charmerOrOwner (ue_view e me) of None \<Rightarrow> [] | Some m \<Rightarrow> [UpdatePetCombatState m])
      in if combatState
         then (let w = event [AtEnterCombat me] w
               in if \<not> uv_isCreature (ue_view e me)
                  then map_option (\<lambda>t. event (AtEngage me t # pet) w) (GetAnyTarget me w)
                  else Some (event pet w))
         else Some (event (AtExitCombat me #
                (if \<not> uv_isCreature (ue_view e me) then [AtDisengage me] else []) @ pet) w))"

definition UpdateOwnerCombatState :: "unit_env \<Rightarrow> uguid \<Rightarrow> combat_world \<Rightarrow> (bool \<times> combat_world) option" where
  "UpdateOwnerCombatState e me w =
     Option.bind (HasCombat me w) (\<lambda>combatState.
       if combatState = cw_inCombat w me then Some (False, w)
       else map_option (Pair True) (combat_state_changed e me combatState w))"

definition PurgeReference :: "uguid \<Rightarrow> uguid \<Rightarrow> bool \<Rightarrow> combat_world \<Rightarrow> combat_world" where
  "PurgeReference me g pvp w =
     (if pvp then w\<lparr>cw_pvp := (cw_pvp w)(me := om_erase g (cw_pvp w me))\<rparr>
      else w\<lparr>cw_pve := (cw_pve w)(me := om_erase g (cw_pve w me))\<rparr>)"

definition PutReference :: "uguid \<Rightarrow> uguid \<Rightarrow> addr \<Rightarrow> combat_world \<Rightarrow> combat_world option" where
  "PutReference me g r w =
     (case cw_refs w r of
        None \<Rightarrow> None
      | Some c \<Rightarrow>
          if cr_isPvP c
          then if om_find g (cw_pvp w me) \<noteq> None then None
               else Some (w\<lparr>cw_pvp := (cw_pvp w)(me := om_set g r (cw_pvp w me))\<rparr>)
          else if om_find g (cw_pve w me) \<noteq> None then None
               else Some (w\<lparr>cw_pve := (cw_pve w)(me := om_set g r (cw_pve w me))\<rparr>))"

definition ClearThreat :: "uguid \<Rightarrow> uguid \<Rightarrow> combat_world \<Rightarrow> combat_world" where
  "ClearThreat me victim w = w\<lparr>cw_threat := filter (\<lambda>x. x \<noteq> (me, victim)) (cw_threat w)\<rparr>"

definition exit_events :: "unit_env \<Rightarrow> bool \<Rightarrow> uguid \<Rightarrow> unit_event list" where
  "exit_events e need g = (if need \<and> uv_hasAI (ue_view e g) then [JustExitedCombat g] else [])"

definition NotifyAICombat :: "unit_env \<Rightarrow> uguid \<Rightarrow> uguid \<Rightarrow> unit_event list" where
  "NotifyAICombat e me other = (if uv_hasAI (ue_view e me) then [JustEnteredCombat me other] else [])"

definition EndCombat :: "unit_env \<Rightarrow> addr \<Rightarrow> combat_world \<Rightarrow> combat_world option" where
  "EndCombat e r w =
     Option.bind (cw_refs w r) (\<lambda>c.
       let a = cr_first c; b = cr_second c;
           w = ClearThreat b a (ClearThreat a b w);
           w = PurgeReference b a (cr_isPvP c) (PurgeReference a b (cr_isPvP c) w)
       in Option.bind (UpdateOwnerCombatState e a w) (\<lambda>(needFirstAI, w).
          Option.bind (UpdateOwnerCombatState e b w) (\<lambda>(needSecondAI, w).
            Some ((event (exit_events e needFirstAI a @ exit_events e needSecondAI b) w)
                    \<lparr>cw_refs := (cw_refs w)(r := None)\<rparr>))))"

definition set_ref :: "addr \<Rightarrow> combat_ref \<Rightarrow> combat_world \<Rightarrow> combat_world" where
  "set_ref r c w = w\<lparr>cw_refs := (cw_refs w)(r \<mapsto> c)\<rparr>"

definition Refresh :: "unit_env \<Rightarrow> addr \<Rightarrow> combat_world \<Rightarrow> combat_world option" where
  "Refresh e r w =
     Option.bind (cw_refs w r) (\<lambda>c.
     Option.bind
       (if cr_suppressFirst c
        then UpdateOwnerCombatState e (cr_first c) (set_ref r (c\<lparr>cr_suppressFirst := False\<rparr>) w)
        else Some (False, w)) (\<lambda>(needFirstAI, w).
     Option.bind (cw_refs w r) (\<lambda>c.
     Option.bind
       (if cr_suppressSecond c
        then UpdateOwnerCombatState e (cr_second c) (set_ref r (c\<lparr>cr_suppressSecond := False\<rparr>) w)
        else Some (False, w)) (\<lambda>(needSecondAI, w).
     Some (event ((if needFirstAI then NotifyAICombat e (cr_first c) (cr_second c) else []) @
                  (if needSecondAI then NotifyAICombat e (cr_second c) (cr_first c) else [])) w)))))"

definition SuppressFor :: "unit_env \<Rightarrow> uguid \<Rightarrow> addr \<Rightarrow> combat_world \<Rightarrow> combat_world option" where
  "SuppressFor e who r w =
     Option.bind (cw_refs w r) (\<lambda>c.
     Option.bind (UpdateOwnerCombatState e who (set_ref r (Suppress who c) w)) (\<lambda>(n, w).
     Some (event (exit_events e n who) w)))"

definition RefreshTimer :: "addr \<Rightarrow> combat_world \<Rightarrow> combat_world option" where
  "RefreshTimer r w =
     map_option (\<lambda>c. set_ref r (c\<lparr>cr_combatTimer := PVP_COMBAT_TIMEOUT\<rparr>) w) (cw_refs w r)"

definition SetInCombatWith :: "unit_env \<Rightarrow> uguid \<Rightarrow> uguid \<Rightarrow> bool \<Rightarrow> combat_world \<Rightarrow> (bool \<times> combat_world) option" where
  "SetInCombatWith e me who addSecondUnitSuppressed w =
     (case om_find who (cw_pvp w me) of
        Some r \<Rightarrow> map_option (Pair True) (Option.bind (RefreshTimer r w) (Refresh e r))
      | None \<Rightarrow>
        (case om_find who (cw_pve w me) of
           Some r \<Rightarrow> map_option (Pair True) (Refresh e r w)
         | None \<Rightarrow>
             if \<not> CanBeginCombat e me who then Some (False, w)
             else let c = CombatReference_new me who
                            (uv_controlledByPlayer (ue_view e me) \<and> uv_controlledByPlayer (ue_view e who));
                      c = (if addSecondUnitSuppressed then Suppress who c else c);
                      r = cw_next w;
                      w = set_ref r c (w\<lparr>cw_next := Suc r\<rparr>)
                  in Option.bind (PutReference me who r w) (\<lambda>w.
                     Option.bind (PutReference who me r w) (\<lambda>w.
                     Option.bind (UpdateOwnerCombatState e me w) (\<lambda>(needSelfAI, w).
                     Option.bind (UpdateOwnerCombatState e who w) (\<lambda>(needOtherAI, w).
                       let w = event ((if needSelfAI then NotifyAICombat e me who else []) @
                                      (if needOtherAI then NotifyAICombat e who me else [])) w
                       in Some (IsInCombatWith me who w, w)))))))"

text \<open>The loops that walk a map, erasing the entry they end; the entries are those at the start.\<close>

fun end_where ::
  "unit_env \<Rightarrow> (combat_ref \<Rightarrow> bool) \<Rightarrow> uguid \<Rightarrow> bool \<Rightarrow> (uguid \<times> addr) list \<Rightarrow> combat_world \<Rightarrow> combat_world option" where
  "end_where e P me pvp [] w = Some w"
| "end_where e P me pvp ((g, r) # m) w =
     Option.bind (cw_refs w r) (\<lambda>c.
       if P c then Option.bind (EndCombat e r (PurgeReference me g pvp w)) (end_where e P me pvp m)
       else end_where e P me pvp m w)"

fun Update_loop :: "unit_env \<Rightarrow> nat \<Rightarrow> uguid \<Rightarrow> (uguid \<times> addr) list \<Rightarrow> combat_world \<Rightarrow> combat_world option" where
  "Update_loop e tdiff me [] w = Some w"
| "Update_loop e tdiff me ((g, r) # m) w =
     Option.bind (cw_refs w r) (\<lambda>c.
       if cr_first c = me
       then if cr_combatTimer c \<le> tdiff
            then Option.bind (EndCombat e r (PurgeReference me g True w)) (Update_loop e tdiff me m)
            else Update_loop e tdiff me m (set_ref r (c\<lparr>cr_combatTimer := cr_combatTimer c - tdiff\<rparr>) w)
       else Update_loop e tdiff me m w)"

definition CombatManager_Update :: "unit_env \<Rightarrow> nat \<Rightarrow> uguid \<Rightarrow> combat_world \<Rightarrow> combat_world option" where
  "CombatManager_Update e tdiff me w = Update_loop e tdiff me (cw_pvp w me) w"

definition EndCombatBeyondRange ::
  "unit_env \<Rightarrow> (uguid \<Rightarrow> uguid \<Rightarrow> bool) \<Rightarrow> bool \<Rightarrow> uguid \<Rightarrow> combat_world \<Rightarrow> combat_world option" where
  "EndCombatBeyondRange e within includingPvP me w =
     (let P = (\<lambda>c. \<not> within (cr_first c) (cr_second c)) in
      Option.bind (end_where e P me False (cw_pve w me) w) (\<lambda>w.
        if \<not> includingPvP then Some w else end_where e P me True (cw_pvp w me) w))"

definition RevalidateCombat :: "unit_env \<Rightarrow> uguid \<Rightarrow> combat_world \<Rightarrow> combat_world option" where
  "RevalidateCombat e me w =
     (let P = (\<lambda>c. \<not> CanBeginCombat e me (GetOther c me)) in
      Option.bind (end_where e P me False (cw_pve w me) w) (\<lambda>w.
        end_where e P me True (cw_pvp w me) w))"

fun suppress_all :: "uguid \<Rightarrow> (uguid \<times> addr) list \<Rightarrow> combat_world \<Rightarrow> combat_world option" where
  "suppress_all me [] w = Some w"
| "suppress_all me ((g, r) # m) w =
     Option.bind (cw_refs w r) (\<lambda>c. suppress_all me m (set_ref r (Suppress me c) w))"

definition SuppressPvPCombat :: "unit_env \<Rightarrow> uguid \<Rightarrow> combat_world \<Rightarrow> combat_world option" where
  "SuppressPvPCombat e me w =
     Option.bind (suppress_all me (cw_pvp w me) w) (\<lambda>w.
     Option.bind (UpdateOwnerCombatState e me w) (\<lambda>(n, w). Some (event (exit_events e n me) w)))"

partial_function (option) EndAll_loop :: "unit_env \<Rightarrow> bool \<Rightarrow> uguid \<Rightarrow> combat_world \<Rightarrow> combat_world option" where
  "EndAll_loop e pvp me w =
     (case (if pvp then cw_pvp w me else cw_pve w me) of
        [] \<Rightarrow> Some w
      | (g, r) # _ \<Rightarrow> Option.bind (EndCombat e r w) (EndAll_loop e pvp me))"

definition EndAllPvECombat :: "unit_env \<Rightarrow> uguid \<Rightarrow> combat_world \<Rightarrow> combat_world option" where
  "EndAllPvECombat e me w =
     EndAll_loop e False me (w\<lparr>cw_threat := filter (\<lambda>(a, b). b \<noteq> me \<and> a \<noteq> me) (cw_threat w)\<rparr>)"

definition EndAllPvPCombat :: "unit_env \<Rightarrow> uguid \<Rightarrow> combat_world \<Rightarrow> combat_world option" where
  "EndAllPvPCombat e me w = EndAll_loop e True me w"

definition EndAllCombat :: "unit_env \<Rightarrow> uguid \<Rightarrow> combat_world \<Rightarrow> combat_world option" where
  "EndAllCombat e me w = Option.bind (EndAllPvECombat e me w) (EndAllPvPCombat e me)"

definition immune_to :: "unit_env \<Rightarrow> uguid \<Rightarrow> uguid \<Rightarrow> bool" where
  "immune_to e me target \<longleftrightarrow>
     (uv_immuneToPC (ue_view e me) \<and> uv_flagPlayerControlled (ue_view e target)) \<or>
     (uv_immuneToNPC (ue_view e me) \<and> \<not> uv_flagPlayerControlled (ue_view e target))"

fun inherit_loop ::
  "unit_env \<Rightarrow> bool \<Rightarrow> uguid \<Rightarrow> uguid \<Rightarrow> (uguid \<times> addr) list \<Rightarrow> combat_world \<Rightarrow> combat_world option" where
  "inherit_loop e pvp me who [] w = Some w"
| "inherit_loop e pvp me who ((g, r) # m) w =
     (if pvp \<or> \<not> IsInCombatWith me g w
      then Option.bind (cw_refs w r) (\<lambda>c.
             let target = GetOther c who
             in if immune_to e me target then inherit_loop e pvp me who m w
                else Option.bind (SetInCombatWith e me target False w) (\<lambda>(_, w). inherit_loop e pvp me who m w))
      else inherit_loop e pvp me who m w)"

definition InheritCombatStatesFrom :: "unit_env \<Rightarrow> uguid \<Rightarrow> uguid \<Rightarrow> combat_world \<Rightarrow> combat_world option" where
  "InheritCombatStatesFrom e me who w =
     Option.bind (inherit_loop e False me who (cw_pve w who) w) (\<lambda>w.
       inherit_loop e True me who (cw_pvp w who) w)"

end
