(* ===== verification/ThreatManager.thy ===== *)
theory ThreatManager
  imports CombatManager "HOL-Library.Product_Lexorder"
begin

text \<open>
  Threat lists (src/src/server/game/Combat/ThreatManager.{h,cpp}).  A \<^verbatim>\<open>ThreatReference\<close> is one object
  known from three places: the entries and the heap of its owner and the threatened-by-me list of its
  victim; the model keeps a heap of references and, for every unit, these lists of addresses.

  Threat values are IEEE floats: their arithmetic is a parameter (\<open>float_ops\<close>), their order is that of a
  linear order (no NaN).  The fibonacci heap of boost is its content, each node with the key it was last
  told; \<^verbatim>\<open>increase\<close> and \<^verbatim>\<open>decrease\<close> have the precondition boost documents for them (the new key is not
  lower, not higher), and \<^verbatim>\<open>top\<close> and the ordered iteration are parameters.  What is read of units is the
  environment \<open>threat_env\<close>; packets and AI notifications are recorded.  \<open>None\<close> is undefined behaviour, a
  violated precondition of the heap, or a failed assertion.  Unordered maps are iterated in key order.
\<close>

section \<open>Data\<close>

datatype online_state = ONLINE_STATE_OFFLINE | ONLINE_STATE_SUPPRESSED | ONLINE_STATE_ONLINE

instantiation online_state :: linorder
begin

fun online_rank :: "online_state \<Rightarrow> nat" where
  "online_rank ONLINE_STATE_OFFLINE = 0"
| "online_rank ONLINE_STATE_SUPPRESSED = 1"
| "online_rank ONLINE_STATE_ONLINE = 2"

definition less_eq_online_state :: "online_state \<Rightarrow> online_state \<Rightarrow> bool" where
  "less_eq_online_state a b \<longleftrightarrow> online_rank a \<le> online_rank b"

definition less_online_state :: "online_state \<Rightarrow> online_state \<Rightarrow> bool" where
  "less_online_state a b \<longleftrightarrow> online_rank a < online_rank b"

instance
proof
  fix a b :: online_state
  show "a \<le> b \<Longrightarrow> b \<le> a \<Longrightarrow> a = b"
    by (cases a; cases b) (simp_all add: less_eq_online_state_def)
qed (auto simp: less_eq_online_state_def less_online_state_def)

end

text \<open>\<^verbatim>\<open>TauntState\<close> is a 32-bit number: 0 detaunted, 1 none, 2 and above taunting.\<close>

definition TAUNT_STATE_DETAUNT :: u32 where "TAUNT_STATE_DETAUNT = 0"
definition TAUNT_STATE_NONE :: u32 where "TAUNT_STATE_NONE = 1"
definition TAUNT_STATE_TAUNT :: u32 where "TAUNT_STATE_TAUNT = 2"

definition THREAT_UPDATE_INTERVAL :: nat where "THREAT_UPDATE_INTERVAL = 1000"

record 'f float_ops =
  fl_zero :: 'f
  fl_one :: 'f
  fl_w110 :: 'f
  fl_w130 :: 'f
  fl_c001 :: 'f
  fl_add :: "'f \<Rightarrow> 'f \<Rightarrow> 'f"
  fl_sub :: "'f \<Rightarrow> 'f \<Rightarrow> 'f"
  fl_mul :: "'f \<Rightarrow> 'f \<Rightarrow> 'f"
  fl_div :: "'f \<Rightarrow> 'f \<Rightarrow> 'f"
  fl_of_int :: "int \<Rightarrow> 'f"

record 'f threat_ref =
  tr_owner :: uguid
  tr_victim :: uguid
  tr_online :: online_state
  tr_baseAmount :: 'f
  tr_tempModifier :: int
  tr_taunted :: u32

type_synonym 'f heap_key = "online_state \<times> u32 \<times> 'f"
type_synonym 'f threat_heap = "(addr \<times> 'f heap_key) list"

record 'f threat_mgr =
  tm_canHaveThreatList :: bool
  tm_needClientUpdate :: bool
  tm_updateTimer :: nat
  tm_sortedThreatList :: "'f threat_heap"
  tm_myThreatListEntries :: "(uguid, addr) omap"
  tm_needsAIUpdate :: "uguid list"
  tm_currentVictimRef :: "addr option"
  tm_fixateRef :: "addr option"
  tm_threatenedByMe :: "(uguid, addr) omap"
  tm_redirectInfo :: "(uguid \<times> nat) list"
  tm_redirectRegistry :: "(nat, (uguid, nat) omap) omap"

datatype 'f threat_event =
    ThreatClear uguid
  | ThreatRemove uguid uguid
  | ThreatUpdate uguid "(uguid \<times> 'f) list"
  | HighestThreatUpdate uguid uguid "(uguid \<times> 'f) list"
  | JustStartedThreateningMe uguid uguid

record 'f threat_world =
  tw_combat :: combat_world
  tw_refs :: "addr \<rightharpoonup> 'f threat_ref"
  tw_next :: addr
  tw_mgr :: "uguid \<Rightarrow> 'f threat_mgr"
  tw_events :: "'f threat_event list"

record threat_spell =
  ts_id :: nat
  ts_noThreat :: bool
  ts_noInitialThreat :: bool
  ts_noHelpfulThreat :: bool

record 'f threat_env =
  te_units :: unit_env
  te_canSeeOrDetect :: "uguid \<Rightarrow> uguid \<Rightarrow> bool"
  te_isTargetAcceptable :: "uguid \<Rightarrow> uguid \<Rightarrow> bool"
  te_canCreatureAttack :: "uguid \<Rightarrow> uguid \<Rightarrow> bool"
  te_isTrigger :: "uguid \<Rightarrow> bool"
  te_isPet :: "uguid \<Rightarrow> bool"
  te_isTotem :: "uguid \<Rightarrow> bool"
  te_isMinionOrGuardian :: "uguid \<Rightarrow> bool"
  te_summonerIsPlayer :: "uguid \<Rightarrow> bool"
  te_immuneToMeleeOf :: "uguid \<Rightarrow> uguid \<Rightarrow> bool"
  te_isConfused :: "uguid \<Rightarrow> bool"
  te_isBreakablyStunned :: "uguid \<Rightarrow> bool"
  te_isDetauntedBy :: "uguid \<Rightarrow> uguid \<Rightarrow> bool"
  te_withinMeleeRange :: "uguid \<Rightarrow> uguid \<Rightarrow> bool"
  te_isEngaged :: "uguid \<Rightarrow> bool"
  te_isControlled :: "uguid \<Rightarrow> bool"
  te_vehicleBase :: "uguid \<Rightarrow> uguid option"
  te_isAccessory :: "uguid \<Rightarrow> bool"
  te_isPrivateObject :: "uguid \<Rightarrow> bool"
  te_privateVisible :: "uguid \<Rightarrow> uguid \<Rightarrow> bool"
  te_privateOwner :: "uguid \<Rightarrow> uguid \<Rightarrow> uguid option"
  te_unitExists :: "uguid \<Rightarrow> uguid \<Rightarrow> bool"
  te_tauntCasters :: "uguid \<Rightarrow> uguid list"
  te_totalThreatMods :: "uguid \<Rightarrow> int list"
  te_modifiedThreat :: "'f \<Rightarrow> uguid \<Rightarrow> threat_spell option \<Rightarrow> 'f"
  te_heapTop :: "'f threat_heap \<Rightarrow> addr"
  te_heapOrdered :: "'f threat_heap \<Rightarrow> addr list"


definition ThreatManager_new :: "'f threat_mgr" where
  "ThreatManager_new = \<lparr>tm_canHaveThreatList = False, tm_needClientUpdate = False, tm_updateTimer = THREAT_UPDATE_INTERVAL,
     tm_sortedThreatList = [], tm_myThreatListEntries = [], tm_needsAIUpdate = [], tm_currentVictimRef = None,
     tm_fixateRef = None, tm_threatenedByMe = [], tm_redirectInfo = [], tm_redirectRegistry = []\<rparr>"

definition threat_world_new :: "'f threat_world" where
  "threat_world_new = \<lparr>tw_combat = combat_world_new, tw_refs = Map.empty, tw_next = 0, tw_mgr = (\<lambda>_. ThreatManager_new),
     tw_events = []\<rparr>"


section \<open>Threat references\<close>

definition GetThreat :: "('f :: linorder) float_ops \<Rightarrow> 'f threat_ref \<Rightarrow> 'f" where
  "GetThreat F t = max (fl_add F (tr_baseAmount t) (fl_of_int F (tr_tempModifier t))) (fl_zero F)"

definition IsOnline :: "'f threat_ref \<Rightarrow> bool" where "IsOnline t \<longleftrightarrow> tr_online t \<ge> ONLINE_STATE_ONLINE"
definition IsAvailable :: "'f threat_ref \<Rightarrow> bool" where "IsAvailable t \<longleftrightarrow> tr_online t > ONLINE_STATE_OFFLINE"
definition IsSuppressed :: "'f threat_ref \<Rightarrow> bool" where "IsSuppressed t \<longleftrightarrow> tr_online t = ONLINE_STATE_SUPPRESSED"
definition IsOffline :: "'f threat_ref \<Rightarrow> bool" where "IsOffline t \<longleftrightarrow> tr_online t \<le> ONLINE_STATE_OFFLINE"
definition IsTaunting :: "'f threat_ref \<Rightarrow> bool" where "IsTaunting t \<longleftrightarrow> tr_taunted t \<ge> TAUNT_STATE_TAUNT"

definition CompareReferencesLT ::
  "('f :: linorder) float_ops \<Rightarrow> 'f threat_ref \<Rightarrow> 'f threat_ref \<Rightarrow> 'f \<Rightarrow> bool" where
  "CompareReferencesLT F a b aWeight =
     (if tr_online a \<noteq> tr_online b then tr_online a < tr_online b
      else if tr_taunted a \<noteq> tr_taunted b then tr_taunted a < tr_taunted b
      else fl_mul F (GetThreat F a) aWeight < GetThreat F b)"

definition FlagsAllowFighting :: "'f threat_env \<Rightarrow> uguid \<Rightarrow> uguid \<Rightarrow> bool" where
  "FlagsAllowFighting e a b =
     (if uv_isCreature (ue_view (te_units e) a) \<and> te_isTrigger e a then False
      else if uv_flagPlayerControlled (ue_view (te_units e) a)
      then \<not> uv_immuneToPC (ue_view (te_units e) b)
      else \<not> uv_immuneToNPC (ue_view (te_units e) b))"

definition ShouldBeOffline :: "'f threat_env \<Rightarrow> 'f threat_ref \<Rightarrow> bool" where
  "ShouldBeOffline e t =
     (let ow = tr_owner t; v = tr_victim t in
      if \<not> te_canSeeOrDetect e ow v then True
      else if \<not> te_isTargetAcceptable e ow v \<or> \<not> te_canCreatureAttack e ow v then True
      else if \<not> FlagsAllowFighting e ow v \<or> \<not> FlagsAllowFighting e v ow then True
      else False)"

definition ShouldBeSuppressed :: "'f threat_env \<Rightarrow> 'f threat_ref \<Rightarrow> bool" where
  "ShouldBeSuppressed e t =
     (if IsTaunting t then False
      else if te_immuneToMeleeOf e (tr_victim t) (tr_owner t) then True
      else if te_isConfused e (tr_victim t) then True
      else if te_isBreakablyStunned e (tr_victim t) then True
      else False)"

definition CanHaveThreatList :: "'f threat_env \<Rightarrow> uguid \<Rightarrow> bool" where
  "CanHaveThreatList e who =
     (if \<not> uv_isCreature (ue_view (te_units e) who) then False
      else if te_isPet e who \<or> te_isTotem e who \<or> te_isTrigger e who then False
      else if te_isMinionOrGuardian e who \<and> te_summonerIsPlayer e who then False
      else True)"


section \<open>The heap and the state\<close>

definition heap_key_of :: "('f :: linorder) float_ops \<Rightarrow> 'f threat_ref \<Rightarrow> 'f heap_key" where
  "heap_key_of F t = (tr_online t, tr_taunted t, GetThreat F t)"

definition upd_mgr :: "uguid \<Rightarrow> ('f threat_mgr \<Rightarrow> 'f threat_mgr) \<Rightarrow> 'f threat_world \<Rightarrow> 'f threat_world" where
  "upd_mgr u f w = w\<lparr>tw_mgr := (tw_mgr w)(u := f (tw_mgr w u))\<rparr>"

definition set_tref :: "addr \<Rightarrow> 'f threat_ref \<Rightarrow> 'f threat_world \<Rightarrow> 'f threat_world" where
  "set_tref r t w = w\<lparr>tw_refs := (tw_refs w)(r \<mapsto> t)\<rparr>"

definition log_threat :: "'f threat_event list \<Rightarrow> 'f threat_world \<Rightarrow> 'f threat_world" where
  "log_threat es w = w\<lparr>tw_events := tw_events w @ es\<rparr>"

definition heap_told :: "addr \<Rightarrow> 'f heap_key \<Rightarrow> 'f threat_heap \<Rightarrow> 'f threat_heap" where
  "heap_told r k h = map (\<lambda>(a, k'). (a, if a = r then k else k')) h"

definition HeapNotifyIncreased ::
  "('f :: linorder) float_ops \<Rightarrow> addr \<Rightarrow> 'f threat_world \<Rightarrow> 'f threat_world option" where
  "HeapNotifyIncreased F r w =
     Option.bind (tw_refs w r) (\<lambda>t.
     Option.bind (map_of (tm_sortedThreatList (tw_mgr w (tr_owner t))) r) (\<lambda>k.
       if k \<le> heap_key_of F t
       then Some (upd_mgr (tr_owner t)
              (\<lambda>m. m\<lparr>tm_sortedThreatList := heap_told r (heap_key_of F t) (tm_sortedThreatList m)\<rparr>) w)
       else None))"

definition HeapNotifyDecreased ::
  "('f :: linorder) float_ops \<Rightarrow> addr \<Rightarrow> 'f threat_world \<Rightarrow> 'f threat_world option" where
  "HeapNotifyDecreased F r w =
     Option.bind (tw_refs w r) (\<lambda>t.
     Option.bind (map_of (tm_sortedThreatList (tw_mgr w (tr_owner t))) r) (\<lambda>k.
       if heap_key_of F t \<le> k
       then Some (upd_mgr (tr_owner t)
              (\<lambda>m. m\<lparr>tm_sortedThreatList := heap_told r (heap_key_of F t) (tm_sortedThreatList m)\<rparr>) w)
       else None))"

definition need_client_update :: "uguid \<Rightarrow> 'f threat_world \<Rightarrow> 'f threat_world" where
  "need_client_update u w = upd_mgr u (\<lambda>m. m\<lparr>tm_needClientUpdate := True\<rparr>) w"

definition ThreatReference_AddThreat ::
  "('f :: linorder) float_ops \<Rightarrow> addr \<Rightarrow> 'f \<Rightarrow> 'f threat_world \<Rightarrow> 'f threat_world option" where
  "ThreatReference_AddThreat F r amount w =
     Option.bind (tw_refs w r) (\<lambda>t.
       if amount = fl_zero F then Some w
       else
         let w = set_tref r (t\<lparr>tr_baseAmount := max (fl_add F (tr_baseAmount t) amount) (fl_zero F)\<rparr>) w
         in map_option (need_client_update (tr_owner t))
              (if amount > fl_zero F then HeapNotifyIncreased F r w else HeapNotifyDecreased F r w))"

definition ThreatReference_ScaleThreat ::
  "('f :: linorder) float_ops \<Rightarrow> addr \<Rightarrow> 'f \<Rightarrow> 'f threat_world \<Rightarrow> 'f threat_world option" where
  "ThreatReference_ScaleThreat F r factor w =
     Option.bind (tw_refs w r) (\<lambda>t.
       if factor = fl_one F then Some w
       else
         let w = set_tref r (t\<lparr>tr_baseAmount := fl_mul F (tr_baseAmount t) factor\<rparr>) w
         in map_option (need_client_update (tr_owner t))
              (if factor > fl_one F then HeapNotifyIncreased F r w else HeapNotifyDecreased F r w))"

definition UpdateOffline ::
  "('f :: linorder) threat_env \<Rightarrow> 'f float_ops \<Rightarrow> addr \<Rightarrow> 'f threat_world \<Rightarrow> 'f threat_world option" where
  "UpdateOffline e F r w =
     Option.bind (tw_refs w r) (\<lambda>t.
       let shouldBeOffline = ShouldBeOffline e t in
       if shouldBeOffline = IsOffline t then Some w
       else if shouldBeOffline then
         map_option (log_threat [ThreatRemove (tr_owner t) (tr_victim t)])
           (HeapNotifyDecreased F r (set_tref r (t\<lparr>tr_online := ONLINE_STATE_OFFLINE\<rparr>) w))
       else
         map_option (upd_mgr (tr_owner t) (\<lambda>m. m\<lparr>tm_needsAIUpdate := tm_needsAIUpdate m @ [tr_victim t]\<rparr>))
           (HeapNotifyIncreased F r (set_tref r
              (t\<lparr>tr_online := if ShouldBeSuppressed e t then ONLINE_STATE_SUPPRESSED
                              else ONLINE_STATE_ONLINE\<rparr>) w)))"

definition UpdateTauntState ::
  "('f :: linorder) threat_env \<Rightarrow> 'f float_ops \<Rightarrow> addr \<Rightarrow> u32 \<Rightarrow> 'f threat_world \<Rightarrow> 'f threat_world option" where
  "UpdateTauntState e F r state w =
     Option.bind (tw_refs w r) (\<lambda>t.
       let state = (if state < TAUNT_STATE_TAUNT \<and> te_isDetauntedBy e (tr_victim t) (tr_owner t)
                    then TAUNT_STATE_DETAUNT else state) in
       if state = tr_taunted t then Some w
       else
         let old = tr_taunted t; w = set_tref r (t\<lparr>tr_taunted := state\<rparr>) w
         in map_option (need_client_update (tr_owner t))
              (if state < old then HeapNotifyDecreased F r w else HeapNotifyIncreased F r w))"

section \<open>The three places of a reference\<close>

text \<open>The combat part keeps, as \<open>cw_threat\<close>, the pairs of owner and victim that have a threat reference: a
  pair enters with \<^verbatim>\<open>PutThreatListRef\<close> and leaves with \<^verbatim>\<open>PurgeThreatListRef\<close>.\<close>

definition PutThreatListRef ::
  "('f :: linorder) float_ops \<Rightarrow> uguid \<Rightarrow> uguid \<Rightarrow> addr \<Rightarrow> 'f threat_world \<Rightarrow> 'f threat_world option" where
  "PutThreatListRef F me guid r w =
     Option.bind (tw_refs w r) (\<lambda>t.
       let w = need_client_update me w in
       if om_find guid (tm_myThreatListEntries (tw_mgr w me)) \<noteq> None then None
       else Some (upd_mgr me
              (\<lambda>m. m\<lparr>tm_myThreatListEntries := om_set guid r (tm_myThreatListEntries m),
                    tm_sortedThreatList := (r, heap_key_of F t) # tm_sortedThreatList m\<rparr>)
              (w\<lparr>tw_combat := (tw_combat w)\<lparr>cw_threat := (me, guid) # cw_threat (tw_combat w)\<rparr>\<rparr>)))"

definition PurgeThreatListRef :: "uguid \<Rightarrow> uguid \<Rightarrow> 'f threat_world \<Rightarrow> 'f threat_world option" where
  "PurgeThreatListRef me guid w =
     (case om_find guid (tm_myThreatListEntries (tw_mgr w me)) of
        None \<Rightarrow> Some w
      | Some r \<Rightarrow>
          if tw_refs w r = None \<or> map_of (tm_sortedThreatList (tw_mgr w me)) r = None then None
          else Some (upd_mgr me
              (\<lambda>m. m\<lparr>tm_myThreatListEntries := om_erase guid (tm_myThreatListEntries m),
                    tm_sortedThreatList := filter (\<lambda>x. fst x \<noteq> r) (tm_sortedThreatList m),
                    tm_fixateRef := (if tm_fixateRef m = Some r then None else tm_fixateRef m),
                    tm_currentVictimRef := (if tm_currentVictimRef m = Some r then None else tm_currentVictimRef m)\<rparr>)
              (w\<lparr>tw_combat := ClearThreat me guid (tw_combat w)\<rparr>)))"

definition PutThreatenedByMeRef :: "uguid \<Rightarrow> uguid \<Rightarrow> addr \<Rightarrow> 'f threat_world \<Rightarrow> 'f threat_world option" where
  "PutThreatenedByMeRef me guid r w =
     (if om_find guid (tm_threatenedByMe (tw_mgr w me)) \<noteq> None then None
      else Some (upd_mgr me (\<lambda>m. m\<lparr>tm_threatenedByMe := om_set guid r (tm_threatenedByMe m)\<rparr>) w))"

definition PurgeThreatenedByMeRef :: "uguid \<Rightarrow> uguid \<Rightarrow> 'f threat_world \<Rightarrow> 'f threat_world" where
  "PurgeThreatenedByMeRef me guid w =
     upd_mgr me (\<lambda>m. m\<lparr>tm_threatenedByMe := om_erase guid (tm_threatenedByMe m)\<rparr>) w"

definition UnregisterAndFree :: "addr \<Rightarrow> 'f threat_world \<Rightarrow> 'f threat_world option" where
  "UnregisterAndFree r w =
     Option.bind (tw_refs w r) (\<lambda>t.
       map_option (\<lambda>w. let w = PurgeThreatenedByMeRef (tr_victim t) (tr_owner t) w
                       in w\<lparr>tw_refs := (tw_refs w)(r := None)\<rparr>)
         (PurgeThreatListRef (tr_owner t) (tr_victim t) w))"


section \<open>Selecting the victim\<close>

fun mapM_option :: "('a \<Rightarrow> 'b option) \<Rightarrow> 'a list \<Rightarrow> 'b list option" where
  "mapM_option f [] = Some []"
| "mapM_option f (x # xs) = Option.bind (f x) (\<lambda>y. map_option (Cons y) (mapM_option f xs))"

fun foldM_option :: "('a \<Rightarrow> 's \<Rightarrow> 's option) \<Rightarrow> 'a list \<Rightarrow> 's \<Rightarrow> 's option" where
  "foldM_option f [] s = Some s"
| "foldM_option f (x # xs) s = Option.bind (f x s) (foldM_option f xs)"

definition ProcessAIUpdates :: "('f :: linorder) threat_env \<Rightarrow> uguid \<Rightarrow> 'f threat_world \<Rightarrow> 'f threat_world option" where
  "ProcessAIUpdates e me w =
     (if \<not> uv_isCreature (ue_view (te_units e) me) then None
      else
        let v = tm_needsAIUpdate (tw_mgr w me); w = upd_mgr me (\<lambda>m. m\<lparr>tm_needsAIUpdate := []\<rparr>) w in
        if \<not> uv_hasAI (ue_view (te_units e) me) then Some w
        else foldM_option (\<lambda>guid w.
               case om_find guid (tm_myThreatListEntries (tw_mgr w me)) of
                 None \<Rightarrow> Some w
               | Some r \<Rightarrow> map_option (\<lambda>t. log_threat [JustStartedThreateningMe me (tr_victim t)] w) (tw_refs w r))
             v w)"

fun reselect_loop ::
  "('f :: linorder) threat_env \<Rightarrow> 'f float_ops \<Rightarrow> (addr \<rightharpoonup> 'f threat_ref) \<Rightarrow> uguid \<Rightarrow> addr \<Rightarrow> 'f threat_ref
    \<Rightarrow> addr list \<Rightarrow> addr option" where
  "reselect_loop e F refs me oldVictimRef old [] = None"
| "reselect_loop e F refs me oldVictimRef old (n # ns) =
     Option.bind (refs n) (\<lambda>next.
       if n = oldVictimRef then Some n
       else if \<not> CompareReferencesLT F old next (fl_w110 F) then Some oldVictimRef
       else if te_withinMeleeRange e me (tr_victim next) then Some n
       else reselect_loop e F refs me oldVictimRef old ns)"

definition is_available_ref :: "(addr \<rightharpoonup> 'f threat_ref) \<Rightarrow> addr option \<Rightarrow> bool option" where
  "is_available_ref refs p = (case p of None \<Rightarrow> Some False | Some r \<Rightarrow> map_option IsAvailable (refs r))"

definition choose_victim ::
  "('f :: linorder) threat_env \<Rightarrow> 'f float_ops \<Rightarrow> uguid \<Rightarrow> 'f threat_world \<Rightarrow> addr option option" where
  "choose_victim e F me w =
     (let m = tw_mgr w me; refs = tw_refs w; heap = tm_sortedThreatList m in
      Option.bind (is_available_ref refs (tm_fixateRef m)) (\<lambda>fixated.
        if fixated then Some (tm_fixateRef m)
        else
        Option.bind (is_available_ref refs (tm_currentVictimRef m)) (\<lambda>oldAvailable.
          let oldVictimRef = (if oldAvailable then tm_currentVictimRef m else None);
              highest = te_heapTop e heap in
          Option.bind (refs highest) (\<lambda>h.
            if \<not> IsAvailable h then Some None
            else (case oldVictimRef of
                    None \<Rightarrow> Some (Some highest)
                  | Some ov \<Rightarrow>
                      Option.bind (refs ov) (\<lambda>old.
                        if highest = ov then Some (Some highest)
                        else if \<not> CompareReferencesLT F old h (fl_w110 F) then Some (Some ov)
                        else if CompareReferencesLT F old h (fl_w130 F) then Some (Some highest)
                        else if te_withinMeleeRange e me (tr_victim h) then Some (Some highest)
                        else map_option Some (reselect_loop e F refs me ov old (te_heapOrdered e heap))))))))"

definition ReselectVictim ::
  "('f :: linorder) threat_env \<Rightarrow> 'f float_ops \<Rightarrow> uguid \<Rightarrow> 'f threat_world
    \<Rightarrow> (addr option \<times> 'f threat_world) option" where
  "ReselectVictim e F me w =
     (if tm_sortedThreatList (tw_mgr w me) = [] then Some (None, w)
      else Option.bind (foldM_option (\<lambda>(g, r). UpdateOffline e F r) (tm_myThreatListEntries (tw_mgr w me)) w) (\<lambda>w.
           map_option (\<lambda>v. (v, w)) (choose_victim e F me w)))"

definition threat_infos ::
  "('f :: linorder) float_ops \<Rightarrow> uguid \<Rightarrow> 'f threat_world \<Rightarrow> (uguid \<times> 'f) list option" where
  "threat_infos F me w =
     map_option (\<lambda>ts. map (\<lambda>t. (tr_victim t, GetThreat F t)) (filter IsAvailable ts))
       (mapM_option (\<lambda>x. tw_refs w (fst x)) (tm_sortedThreatList (tw_mgr w me)))"

definition SendThreatListToClients ::
  "('f :: linorder) float_ops \<Rightarrow> bool \<Rightarrow> uguid \<Rightarrow> 'f threat_world \<Rightarrow> 'f threat_world option" where
  "SendThreatListToClients F newHighest me w =
     Option.bind (threat_infos F me w) (\<lambda>infos.
       if newHighest
       then Option.bind (Option.bind (tm_currentVictimRef (tw_mgr w me)) (tw_refs w)) (\<lambda>t.
              Some (log_threat [HighestThreatUpdate me (tr_victim t) infos] w))
       else Some (log_threat [ThreatUpdate me infos] w))"

definition UpdateVictim ::
  "('f :: linorder) threat_env \<Rightarrow> 'f float_ops \<Rightarrow> uguid \<Rightarrow> 'f threat_world \<Rightarrow> 'f threat_world option" where
  "UpdateVictim e F me w =
     Option.bind (ReselectVictim e F me w) (\<lambda>(newVictim, w).
       let newHighest = newVictim \<noteq> None \<and> newVictim \<noteq> tm_currentVictimRef (tw_mgr w me);
           w = upd_mgr me (\<lambda>m. m\<lparr>tm_currentVictimRef := newVictim\<rparr>) w
       in Option.bind
            (if newHighest \<or> tm_needClientUpdate (tw_mgr w me)
             then map_option (upd_mgr me (\<lambda>m. m\<lparr>tm_needClientUpdate := False\<rparr>)) (SendThreatListToClients F newHighest me w)
             else Some w)
            (ProcessAIUpdates e me))"


section \<open>Queries\<close>

definition ref_satisfies :: "(addr \<rightharpoonup> 'f threat_ref) \<Rightarrow> ('f threat_ref \<Rightarrow> bool) \<Rightarrow> addr \<Rightarrow> bool option" where
  "ref_satisfies refs P r = map_option P (refs r)"

fun find_ref :: "(addr \<rightharpoonup> 'f threat_ref) \<Rightarrow> ('f threat_ref \<Rightarrow> bool) \<Rightarrow> addr list \<Rightarrow> 'f threat_ref option option" where
  "find_ref refs P [] = Some None"
| "find_ref refs P (r # rs) =
     Option.bind (refs r) (\<lambda>t. if P t then Some (Some t) else find_ref refs P rs)"

definition ThreatManager_GetAnyTarget :: "uguid \<Rightarrow> 'f threat_world \<Rightarrow> uguid option option" where
  "ThreatManager_GetAnyTarget me w =
     map_option (map_option tr_victim)
       (find_ref (tw_refs w) (\<lambda>t. \<not> IsOffline t) (map fst (tm_sortedThreatList (tw_mgr w me))))"

definition IsThreatListEmpty :: "bool \<Rightarrow> uguid \<Rightarrow> 'f threat_world \<Rightarrow> bool option" where
  "IsThreatListEmpty includeOffline me w =
     (if includeOffline then Some (tm_sortedThreatList (tw_mgr w me) = [])
      else map_option (\<lambda>x. x = None)
             (find_ref (tw_refs w) IsAvailable (map fst (tm_sortedThreatList (tw_mgr w me)))))"

definition IsThreatenedBy :: "uguid \<Rightarrow> bool \<Rightarrow> uguid \<Rightarrow> 'f threat_world \<Rightarrow> bool option" where
  "IsThreatenedBy who includeOffline me w =
     (case om_find who (tm_myThreatListEntries (tw_mgr w me)) of
        None \<Rightarrow> Some False
      | Some r \<Rightarrow> if includeOffline then Some True else ref_satisfies (tw_refs w) IsAvailable r)"

definition GetThreat_of ::
  "('f :: linorder) float_ops \<Rightarrow> uguid \<Rightarrow> bool \<Rightarrow> uguid \<Rightarrow> 'f threat_world \<Rightarrow> 'f option" where
  "GetThreat_of F who includeOffline me w =
     (case om_find who (tm_myThreatListEntries (tw_mgr w me)) of
        None \<Rightarrow> Some (fl_zero F)
      | Some r \<Rightarrow> map_option (\<lambda>t. if includeOffline \<or> IsAvailable t then GetThreat F t else fl_zero F) (tw_refs w r))"

definition IsThreateningAnyone :: "bool \<Rightarrow> uguid \<Rightarrow> 'f threat_world \<Rightarrow> bool option" where
  "IsThreateningAnyone includeOffline me w =
     (if includeOffline then Some (tm_threatenedByMe (tw_mgr w me) \<noteq> [])
      else map_option (\<lambda>x. x \<noteq> None) (find_ref (tw_refs w) IsAvailable (map snd (tm_threatenedByMe (tw_mgr w me)))))"

definition IsThreateningTo :: "uguid \<Rightarrow> bool \<Rightarrow> uguid \<Rightarrow> 'f threat_world \<Rightarrow> bool option" where
  "IsThreateningTo who includeOffline me w =
     (case om_find who (tm_threatenedByMe (tw_mgr w me)) of
        None \<Rightarrow> Some False
      | Some r \<Rightarrow> if includeOffline then Some True else ref_satisfies (tw_refs w) IsAvailable r)"

definition GetLastVictim :: "'f threat_env \<Rightarrow> uguid \<Rightarrow> 'f threat_world \<Rightarrow> uguid option option" where
  "GetLastVictim e me w =
     (case tm_currentVictimRef (tw_mgr w me) of
        None \<Rightarrow> Some None
      | Some r \<Rightarrow> map_option (\<lambda>t. if \<not> ShouldBeOffline e t then Some (tr_victim t) else None) (tw_refs w r))"

definition GetFixateTarget :: "uguid \<Rightarrow> 'f threat_world \<Rightarrow> uguid option option" where
  "GetFixateTarget me w =
     (case tm_fixateRef (tw_mgr w me) of
        None \<Rightarrow> Some None
      | Some r \<Rightarrow> map_option (\<lambda>t. Some (tr_victim t)) (tw_refs w r))"

definition GetCurrentVictim ::
  "('f :: linorder) threat_env \<Rightarrow> 'f float_ops \<Rightarrow> uguid \<Rightarrow> 'f threat_world
    \<Rightarrow> (uguid option \<times> 'f threat_world) option" where
  "GetCurrentVictim e F me w =
     Option.bind
       (case tm_currentVictimRef (tw_mgr w me) of
          None \<Rightarrow> UpdateVictim e F me w
        | Some r \<Rightarrow> Option.bind (tw_refs w r) (\<lambda>t. if ShouldBeOffline e t then UpdateVictim e F me w else Some w))
       (\<lambda>w. case tm_currentVictimRef (tw_mgr w me) of
              None \<Rightarrow> Some (None, w)
            | Some r \<Rightarrow> Option.bind (tw_refs w r) (\<lambda>t. if IsAvailable t then Some (Some (tr_victim t), w) else None))"

definition ThreatManager_Update ::
  "('f :: linorder) threat_env \<Rightarrow> 'f float_ops \<Rightarrow> nat \<Rightarrow> uguid \<Rightarrow> 'f threat_world \<Rightarrow> 'f threat_world option" where
  "ThreatManager_Update e F tdiff me w =
     (if \<not> tm_canHaveThreatList (tw_mgr w me) then Some w
      else Option.bind (IsThreatListEmpty True me w) (\<lambda>empty.
        if empty then Some w
        else if tm_updateTimer (tw_mgr w me) \<le> tdiff
        then map_option (upd_mgr me (\<lambda>m. m\<lparr>tm_updateTimer := THREAT_UPDATE_INTERVAL\<rparr>)) (UpdateVictim e F me w)
        else Some (upd_mgr me (\<lambda>m. m\<lparr>tm_updateTimer := tm_updateTimer m - tdiff\<rparr>) w)))"

definition ThreatManager_Initialize :: "'f threat_env \<Rightarrow> uguid \<Rightarrow> 'f threat_world \<Rightarrow> 'f threat_world" where
  "ThreatManager_Initialize e me w = upd_mgr me (\<lambda>m. m\<lparr>tm_canHaveThreatList := CanHaveThreatList e me\<rparr>) w"


section \<open>Removing threat\<close>

definition ClearThreat_ref ::
  "('f :: linorder) threat_env \<Rightarrow> 'f float_ops \<Rightarrow> uguid \<Rightarrow> addr \<Rightarrow> 'f threat_world \<Rightarrow> 'f threat_world option" where
  "ClearThreat_ref e F me r w =
     Option.bind (tw_refs w r) (\<lambda>t.
     Option.bind (UnregisterAndFree r (log_threat [ThreatRemove me (tr_victim t)] w)) (\<lambda>w.
       if tm_currentVictimRef (tw_mgr w me) = None then UpdateVictim e F me w else Some w))"

definition ThreatManager_ClearThreat ::
  "('f :: linorder) threat_env \<Rightarrow> 'f float_ops \<Rightarrow> uguid \<Rightarrow> uguid \<Rightarrow> 'f threat_world \<Rightarrow> 'f threat_world option" where
  "ThreatManager_ClearThreat e F me target w =
     (case om_find target (tm_myThreatListEntries (tw_mgr w me)) of
        None \<Rightarrow> Some w
      | Some r \<Rightarrow> ClearThreat_ref e F me r w)"

partial_function (option) free_all :: "uguid \<Rightarrow> 'f threat_world \<Rightarrow> 'f threat_world option" where
  "free_all me w =
     (case tm_myThreatListEntries (tw_mgr w me) of
        [] \<Rightarrow> Some w
      | (g, r) # _ \<Rightarrow> Option.bind (UnregisterAndFree r w) (free_all me))"

definition ClearAllThreat :: "uguid \<Rightarrow> 'f threat_world \<Rightarrow> 'f threat_world option" where
  "ClearAllThreat me w =
     (if tm_myThreatListEntries (tw_mgr w me) \<noteq> [] then free_all me (log_threat [ThreatClear me] w) else Some w)"

partial_function (option) RemoveMeFromThreatLists ::
  "('f :: linorder) threat_env \<Rightarrow> 'f float_ops \<Rightarrow> uguid \<Rightarrow> 'f threat_world \<Rightarrow> 'f threat_world option" where
  "RemoveMeFromThreatLists e F me w =
     (case tm_threatenedByMe (tw_mgr w me) of
        [] \<Rightarrow> Some w
      | (g, r) # _ \<Rightarrow>
          Option.bind (tw_refs w r) (\<lambda>t.
          Option.bind (ThreatManager_ClearThreat e F (tr_owner t) me w) (RemoveMeFromThreatLists e F me)))"

definition FixateTarget :: "uguid option \<Rightarrow> uguid \<Rightarrow> 'f threat_world \<Rightarrow> 'f threat_world" where
  "FixateTarget target me w =
     upd_mgr me (\<lambda>m. m\<lparr>tm_fixateRef :=
       (case target of None \<Rightarrow> None | Some g \<Rightarrow> om_find g (tm_myThreatListEntries m))\<rparr>) w"


section \<open>Combat ends with the threat it carried\<close>

definition EndCombat_full ::
  "('f :: linorder) threat_env \<Rightarrow> 'f float_ops \<Rightarrow> addr \<Rightarrow> 'f threat_world \<Rightarrow> 'f threat_world option" where
  "EndCombat_full e F r w =
     Option.bind (cw_refs (tw_combat w) r) (\<lambda>c.
     Option.bind (ThreatManager_ClearThreat e F (cr_first c) (cr_second c) w) (\<lambda>w.
     Option.bind (ThreatManager_ClearThreat e F (cr_second c) (cr_first c) w) (\<lambda>w.
       map_option (\<lambda>c. w\<lparr>tw_combat := c\<rparr>) (EndCombat (te_units e) r (tw_combat w)))))"

partial_function (option) EndAll_full ::
  "('f :: linorder) threat_env \<Rightarrow> 'f float_ops \<Rightarrow> bool \<Rightarrow> uguid \<Rightarrow> 'f threat_world \<Rightarrow> 'f threat_world option" where
  "EndAll_full e F pvp me w =
     (case (if pvp then cw_pvp (tw_combat w) me else cw_pve (tw_combat w) me) of
        [] \<Rightarrow> Some w
      | (g, r) # _ \<Rightarrow> Option.bind (EndCombat_full e F r w) (EndAll_full e F pvp me))"

definition EndAllPvECombat_full ::
  "('f :: linorder) threat_env \<Rightarrow> 'f float_ops \<Rightarrow> uguid \<Rightarrow> 'f threat_world \<Rightarrow> 'f threat_world option" where
  "EndAllPvECombat_full e F me w =
     Option.bind (RemoveMeFromThreatLists e F me w) (\<lambda>w.
     Option.bind (ClearAllThreat me w) (EndAll_full e F False me))"

definition SetInCombatWith_full ::
  "'f threat_env \<Rightarrow> uguid \<Rightarrow> uguid \<Rightarrow> bool \<Rightarrow> 'f threat_world \<Rightarrow> (bool \<times> 'f threat_world) option" where
  "SetInCombatWith_full e me who supp w =
     map_option (\<lambda>(b, c). (b, w\<lparr>tw_combat := c\<rparr>)) (SetInCombatWith (te_units e) me who supp (tw_combat w))"


section \<open>Adding threat\<close>

definition ThreatReference_new :: "('f :: linorder) float_ops \<Rightarrow> uguid \<Rightarrow> uguid \<Rightarrow> 'f threat_ref" where
  "ThreatReference_new F owner victim =
     \<lparr>tr_owner = owner, tr_victim = victim, tr_online = ONLINE_STATE_OFFLINE, tr_baseAmount = fl_zero F,
      tr_tempModifier = 0, tr_taunted = TAUNT_STATE_NONE\<rparr>"

definition CalculatePct :: "'f float_ops \<Rightarrow> 'f \<Rightarrow> nat \<Rightarrow> 'f" where
  "CalculatePct F base pct = fl_div F (fl_mul F base (fl_of_int F (int pct))) (fl_of_int F 100)"

definition no_threat_from :: "'f threat_env \<Rightarrow> uguid \<Rightarrow> threat_spell option \<Rightarrow> bool" where
  "no_threat_from e me spell =
     (case spell of
        None \<Rightarrow> False
      | Some s \<Rightarrow> ts_noThreat s \<or> (\<not> te_isEngaged e me \<and> ts_noInitialThreat s))"

definition private_redirect :: "'f threat_env \<Rightarrow> uguid \<Rightarrow> uguid \<Rightarrow> uguid option" where
  "private_redirect e me target =
     (if te_isPrivateObject e target \<and> (\<not> te_isPrivateObject e me \<or> \<not> te_privateVisible e me target)
      then te_privateOwner e me target else None)"

definition combat_without_list ::
  "('f :: linorder) threat_env \<Rightarrow> uguid \<Rightarrow> uguid \<Rightarrow> 'f threat_world \<Rightarrow> 'f threat_world option" where
  "combat_without_list e me target w =
     Option.bind (SetInCombatWith_full e me target False w) (\<lambda>(b, w).
       if \<not> b then Some w
       else foldM_option (\<lambda>(g, pct) w.
              if \<not> IsInCombatWith me g (tw_combat w) \<and> te_unitExists e me g
              then map_option snd (SetInCombatWith_full e me g False w) else Some w)
            (tm_redirectInfo (tw_mgr w target)) w)"

fun redirect_loop ::
  "(uguid \<Rightarrow> 'f \<Rightarrow> 'f threat_world \<Rightarrow> 'f threat_world option) \<Rightarrow> 'f threat_env \<Rightarrow> 'f float_ops \<Rightarrow> uguid \<Rightarrow> 'f
    \<Rightarrow> (uguid \<times> nat) list \<Rightarrow> 'f \<times> 'f threat_world \<Rightarrow> ('f \<times> 'f threat_world) option" where
  "redirect_loop add e F me origAmount [] s = Some s"
| "redirect_loop add e F me origAmount ((g, pct) # ps) (amount, w) =
     Option.bind
       (case om_find g (tm_myThreatListEntries (tw_mgr w me)) of
          Some r \<Rightarrow> map_option (\<lambda>t. Some (tr_victim t)) (tw_refs w r)
        | None \<Rightarrow> Some (if te_unitExists e me g then Some g else None)) (\<lambda>redirTarget.
       case redirTarget of
         None \<Rightarrow> redirect_loop add e F me origAmount ps (amount, w)
       | Some g' \<Rightarrow>
           (let amountRedirected = CalculatePct F origAmount pct in
            Option.bind (add g' amountRedirected w) (\<lambda>w.
              redirect_loop add e F me origAmount ps (fl_sub F amount amountRedirected, w))))"

definition add_to_existing ::
  "('f :: linorder) threat_env \<Rightarrow> 'f float_ops \<Rightarrow> addr \<Rightarrow> 'f \<Rightarrow> 'f threat_world \<Rightarrow> 'f threat_world option" where
  "add_to_existing e F r amount w =
     Option.bind (tw_refs w r) (\<lambda>t.
     Option.bind
       (if tr_online t = ONLINE_STATE_SUPPRESSED \<and> \<not> ShouldBeSuppressed e t
        then HeapNotifyIncreased F r (set_tref r (t\<lparr>tr_online := ONLINE_STATE_ONLINE\<rparr>) w)
        else Some w) (\<lambda>w.
     Option.bind (tw_refs w r) (\<lambda>t.
       if IsOnline t then ThreatReference_AddThreat F r amount w else Some w)))"

definition add_new_ref ::
  "('f :: linorder) threat_env \<Rightarrow> 'f float_ops \<Rightarrow> uguid \<Rightarrow> uguid \<Rightarrow> 'f \<Rightarrow> 'f threat_world \<Rightarrow> 'f threat_world option" where
  "add_new_ref e F me target amount w =
     (let r = tw_next w; w = set_tref r (ThreatReference_new F me target) (w\<lparr>tw_next := Suc r\<rparr>) in
      Option.bind (PutThreatListRef F me target r w) (\<lambda>w.
      Option.bind (PutThreatenedByMeRef target me r w) (\<lambda>w.
      Option.bind (UpdateOffline e F r w) (\<lambda>w.
      Option.bind (tw_refs w r) (\<lambda>t.
      Option.bind (if IsOnline t then ThreatReference_AddThreat F r amount w else Some w) (\<lambda>w.
        if tm_currentVictimRef (tw_mgr w me) = None then UpdateVictim e F me w else ProcessAIUpdates e me w))))))"

text \<open>Calls nest when a target rides a vehicle, is a personal spawn or redirects its threat; the first
  argument bounds the depth.\<close>

primrec AddThreat ::
  "nat \<Rightarrow> ('f :: linorder) threat_env \<Rightarrow> 'f float_ops \<Rightarrow> uguid \<Rightarrow> uguid \<Rightarrow> 'f \<Rightarrow> threat_spell option \<Rightarrow> bool \<Rightarrow> bool
    \<Rightarrow> 'f threat_world \<Rightarrow> 'f threat_world option" where
  "AddThreat 0 e F me target amount spell ignoreModifiers ignoreRedirects w = None"
| "AddThreat (Suc n) e F me target amount spell ignoreModifiers ignoreRedirects w =
     (if no_threat_from e me spell then Some w
      else
      Option.bind
        (case te_vehicleBase e target of
           None \<Rightarrow> Some (False, amount, w)
         | Some vehicle \<Rightarrow>
             map_option (\<lambda>w. (te_isAccessory e target, fl_zero F, w))
               (AddThreat n e F me vehicle amount spell ignoreModifiers ignoreRedirects w)) (\<lambda>(finished, amount, w).
      if finished then Some w
      else
      Option.bind
        (case private_redirect e me target of
           None \<Rightarrow> Some (amount, w)
         | Some owner \<Rightarrow>
             map_option (\<lambda>w. (fl_zero F, w))
               (AddThreat n e F me owner amount spell ignoreModifiers ignoreRedirects w)) (\<lambda>(amount, w).
      if \<not> tm_canHaveThreatList (tw_mgr w me) then combat_without_list e me target w
      else
      let amount = (if ignoreModifiers then amount else te_modifiedThreat e amount target spell) in
      Option.bind
        (if \<not> ignoreRedirects \<and> amount > fl_zero F
         then redirect_loop (\<lambda>g a. AddThreat n e F me g a spell True True) e F me amount
                (tm_redirectInfo (tw_mgr w target)) (amount, w)
         else Some (amount, w)) (\<lambda>(amount, w).
      Option.bind (SetInCombatWith_full e me target False w) (\<lambda>(b, w).
        if \<not> b then Some w
        else (case om_find target (tm_myThreatListEntries (tw_mgr w me)) of
                Some r \<Rightarrow> add_to_existing e F r amount w
              | None \<Rightarrow> add_new_ref e F me target amount w))))))"

definition ThreatManager_ScaleThreat ::
  "('f :: linorder) float_ops \<Rightarrow> uguid \<Rightarrow> 'f \<Rightarrow> uguid \<Rightarrow> 'f threat_world \<Rightarrow> 'f threat_world option" where
  "ThreatManager_ScaleThreat F target factor me w =
     (case om_find target (tm_myThreatListEntries (tw_mgr w me)) of
        None \<Rightarrow> Some w
      | Some r \<Rightarrow> ThreatReference_ScaleThreat F r (max factor (fl_zero F)) w)"

definition ModifyThreatByPercent ::
  "('f :: linorder) float_ops \<Rightarrow> uguid \<Rightarrow> int \<Rightarrow> uguid \<Rightarrow> 'f threat_world \<Rightarrow> 'f threat_world option" where
  "ModifyThreatByPercent F target percent me w =
     (if percent \<noteq> 0
      then ThreatManager_ScaleThreat F target (fl_mul F (fl_c001 F) (fl_of_int F (100 + percent))) me w
      else Some w)"

definition ResetThreat ::
  "('f :: linorder) float_ops \<Rightarrow> uguid \<Rightarrow> uguid \<Rightarrow> 'f threat_world \<Rightarrow> 'f threat_world option" where
  "ResetThreat F target me w = ThreatManager_ScaleThreat F target (fl_zero F) me w"

definition ResetAllThreat ::
  "('f :: linorder) float_ops \<Rightarrow> uguid \<Rightarrow> 'f threat_world \<Rightarrow> 'f threat_world option" where
  "ResetAllThreat F me w =
     foldM_option (\<lambda>(g, r). ThreatReference_ScaleThreat F r (fl_zero F)) (tm_myThreatListEntries (tw_mgr w me)) w"

definition MatchUnitThreatToHighestThreat ::
  "nat \<Rightarrow> ('f :: linorder) threat_env \<Rightarrow> 'f float_ops \<Rightarrow> uguid \<Rightarrow> uguid \<Rightarrow> 'f threat_world \<Rightarrow> 'f threat_world option" where
  "MatchUnitThreatToHighestThreat n e F target me w =
     (case te_heapOrdered e (tm_sortedThreatList (tw_mgr w me)) of
        [] \<Rightarrow> Some w
      | h # rest \<Rightarrow>
          Option.bind (tw_refs w h) (\<lambda>highest.
            if \<not> IsAvailable highest then Some w
            else
            Option.bind
              (if IsTaunting highest
               then (case rest of
                       [] \<Rightarrow> Some highest
                     | a # _ \<Rightarrow> map_option (\<lambda>a. if IsAvailable a \<and> GetThreat F a > GetThreat F highest then a else highest)
                                 (tw_refs w a))
               else Some highest) (\<lambda>highest.
            Option.bind (GetThreat_of F target True me w) (\<lambda>t.
              AddThreat n e F me target (fl_sub F (GetThreat F highest) t) None True True w))))"


section \<open>Taunts, suppression and temporary modifiers\<close>

definition EvaluateSuppressed_ref ::
  "('f :: linorder) threat_env \<Rightarrow> 'f float_ops \<Rightarrow> bool \<Rightarrow> addr \<Rightarrow> 'f threat_world \<Rightarrow> 'f threat_world option" where
  "EvaluateSuppressed_ref e F canExpire r w =
     Option.bind (tw_refs w r) (\<lambda>t.
       let shouldBeSuppressed = ShouldBeSuppressed e t in
       if IsOnline t \<and> shouldBeSuppressed
       then HeapNotifyDecreased F r (set_tref r (t\<lparr>tr_online := ONLINE_STATE_SUPPRESSED\<rparr>) w)
       else if canExpire \<and> IsSuppressed t \<and> \<not> shouldBeSuppressed
       then HeapNotifyIncreased F r (set_tref r (t\<lparr>tr_online := ONLINE_STATE_ONLINE\<rparr>) w)
       else Some w)"

definition EvaluateSuppressed ::
  "('f :: linorder) threat_env \<Rightarrow> 'f float_ops \<Rightarrow> bool \<Rightarrow> uguid \<Rightarrow> 'f threat_world \<Rightarrow> 'f threat_world option" where
  "EvaluateSuppressed e F canExpire me w =
     foldM_option (\<lambda>(g, r). EvaluateSuppressed_ref e F canExpire r) (tm_threatenedByMe (tw_mgr w me)) w"

fun taunt_states :: "u32 \<Rightarrow> uguid list \<Rightarrow> (uguid, u32) omap \<Rightarrow> (uguid, u32) omap" where
  "taunt_states tauntPriority [] m = m"
| "taunt_states tauntPriority (c # cs) m = taunt_states (tauntPriority + 1) cs (om_set c (tauntPriority + 1) m)"

definition taunt_state_of :: "(uguid, u32) omap \<Rightarrow> uguid \<Rightarrow> u32" where
  "taunt_state_of tauntStates g =
     (case om_find g tauntStates of
        None \<Rightarrow> TAUNT_STATE_NONE
      | Some p \<Rightarrow> TAUNT_STATE_TAUNT + of_nat (length tauntStates) - p)"

definition TauntUpdate ::
  "('f :: linorder) threat_env \<Rightarrow> 'f float_ops \<Rightarrow> uguid \<Rightarrow> 'f threat_world \<Rightarrow> 'f threat_world option" where
  "TauntUpdate e F me w =
     (let tauntStates = taunt_states 0 (te_tauntCasters e me) [] in
      Option.bind (foldM_option (\<lambda>(g, r). UpdateTauntState e F r (taunt_state_of tauntStates g))
                     (tm_myThreatListEntries (tw_mgr w me)) w)
        (EvaluateSuppressed e F True me))"

fun temp_modifier_loop ::
  "('f :: linorder) float_ops \<Rightarrow> int \<Rightarrow> bool \<Rightarrow> (uguid \<times> addr) list \<Rightarrow> 'f threat_world \<Rightarrow> 'f threat_world option" where
  "temp_modifier_loop F md isIncrease [] w = Some w"
| "temp_modifier_loop F md isIncrease ((g, r) # m) w =
     Option.bind (tw_refs w r) (\<lambda>t.
       let w = set_tref r (t\<lparr>tr_tempModifier := md\<rparr>) w in
       Option.bind (if isIncrease then HeapNotifyIncreased F r w else HeapNotifyDecreased F r w)
         (temp_modifier_loop F md isIncrease m))"

definition UpdateMyTempModifiers ::
  "('f :: linorder) threat_env \<Rightarrow> 'f float_ops \<Rightarrow> uguid \<Rightarrow> 'f threat_world \<Rightarrow> 'f threat_world option" where
  "UpdateMyTempModifiers e F me w =
     (let md = sum_list (te_totalThreatMods e me) in
      case tm_threatenedByMe (tw_mgr w me) of
        [] \<Rightarrow> Some w
      | (g, r) # m \<Rightarrow>
          Option.bind (tw_refs w r) (\<lambda>t. temp_modifier_loop F md (tr_tempModifier t < md) ((g, r) # m) w))"

definition ForwardThreatForAssistingMe ::
  "nat \<Rightarrow> ('f :: linorder) threat_env \<Rightarrow> 'f float_ops \<Rightarrow> uguid \<Rightarrow> 'f \<Rightarrow> threat_spell option \<Rightarrow> bool \<Rightarrow> uguid
    \<Rightarrow> 'f threat_world \<Rightarrow> 'f threat_world option" where
  "ForwardThreatForAssistingMe n e F assistant baseAmount spell ignoreModifiers me w =
     (if (case spell of None \<Rightarrow> False | Some s \<Rightarrow> ts_noThreat s \<or> ts_noHelpfulThreat s) then Some w
      else if tm_threatenedByMe (tw_mgr w me) = [] then Some w
      else
      Option.bind (mapM_option (\<lambda>(g, r). map_option tr_owner (tw_refs w r)) (tm_threatenedByMe (tw_mgr w me)))
        (\<lambda>owners.
        let canBeThreatened = filter (\<lambda>u. \<not> te_isControlled e u) owners;
            cannotBeThreatened = filter (te_isControlled e) owners;
            perTarget = fl_div F baseAmount (fl_of_int F (int (length canBeThreatened)))
        in Option.bind
             (foldM_option (\<lambda>u. AddThreat n e F u assistant perTarget spell ignoreModifiers False) canBeThreatened w)
             (foldM_option (\<lambda>u. AddThreat n e F u assistant (fl_zero F) spell True False) cannotBeThreatened)))"


section \<open>Redirection of threat\<close>

text \<open>The innermost loop returns, with the registry it reads, the list and the total so far.\<close>

fun redirect_info ::
  "(uguid \<times> nat) list \<Rightarrow> (uguid \<times> nat) list \<times> nat \<Rightarrow> (uguid \<times> nat) list \<times> nat" where
  "redirect_info [] s = s"
| "redirect_info ((g, pct) # ps) (info, totalPct) =
     (let thisPct = min (100 - totalPct) pct in
      if thisPct > 0
      then (if totalPct + thisPct = 100 then (info @ [(g, thisPct)], totalPct + thisPct)
            else redirect_info ps (info @ [(g, thisPct)], totalPct + thisPct))
      else redirect_info ps (info, totalPct))"

definition UpdateRedirectInfo :: "uguid \<Rightarrow> 'f threat_world \<Rightarrow> 'f threat_world" where
  "UpdateRedirectInfo me w =
     upd_mgr me (\<lambda>m. m\<lparr>tm_redirectInfo := fst (redirect_info (concat (map snd (tm_redirectRegistry m))) ([], 0))\<rparr>) w"

definition RegisterRedirectThreat :: "nat \<Rightarrow> uguid \<Rightarrow> nat \<Rightarrow> uguid \<Rightarrow> 'f threat_world \<Rightarrow> 'f threat_world" where
  "RegisterRedirectThreat spellId victim pct me w =
     UpdateRedirectInfo me (upd_mgr me (\<lambda>m. m\<lparr>tm_redirectRegistry :=
       om_set spellId (om_set victim pct (case om_find spellId (tm_redirectRegistry m) of None \<Rightarrow> [] | Some v \<Rightarrow> v))
         (tm_redirectRegistry m)\<rparr>) w)"

definition UnregisterRedirectThreat :: "nat \<Rightarrow> uguid \<Rightarrow> 'f threat_world \<Rightarrow> 'f threat_world" where
  "UnregisterRedirectThreat spellId me w =
     (if om_find spellId (tm_redirectRegistry (tw_mgr w me)) = None then w
      else UpdateRedirectInfo me (upd_mgr me (\<lambda>m. m\<lparr>tm_redirectRegistry := om_erase spellId (tm_redirectRegistry m)\<rparr>) w))"

definition UnregisterRedirectThreat_victim ::
  "nat \<Rightarrow> uguid \<Rightarrow> uguid \<Rightarrow> 'f threat_world \<Rightarrow> 'f threat_world" where
  "UnregisterRedirectThreat_victim spellId victim me w =
     (case om_find spellId (tm_redirectRegistry (tw_mgr w me)) of
        None \<Rightarrow> w
      | Some victimMap \<Rightarrow>
          if om_find victim victimMap = None then w
          else UpdateRedirectInfo me (upd_mgr me (\<lambda>m. m\<lparr>tm_redirectRegistry :=
                 om_set spellId (om_erase victim victimMap) (tm_redirectRegistry m)\<rparr>) w))"

end
