(* ===== verification/CombatManager_Refs.thy ===== *)
theory CombatManager_Refs imports CombatManager begin

text \<open>
  The contract stated at the head of \<^verbatim>\<open>CombatManager.h\<close>: references are entered on both sides and never
  dangle, a unit has the combat flag iff it has a reference that is not suppressed for it, and threat
  implies combat. Every operation of the manager keeps it and returns, so none of them dereferences a
  freed reference or fails its assertions.
\<close>

section \<open>The contract of the references\<close>

definition joins :: "combat_ref \<Rightarrow> uguid \<Rightarrow> uguid \<Rightarrow> bool" where
  "joins c a b \<longleftrightarrow> (cr_first c = a \<and> cr_second c = b) \<or> (cr_first c = b \<and> cr_second c = a)"

definition the_map :: "bool \<Rightarrow> combat_world \<Rightarrow> uguid \<Rightarrow> (uguid, addr) omap" where
  "the_map p w a = (if p then cw_pvp w a else cw_pve w a)"

text \<open>Maps and heap agree: every entry points to a live reference between its two units, and every
  reference is entered on both sides.\<close>

definition cw_links :: "combat_world \<Rightarrow> bool" where
  "cw_links w \<longleftrightarrow> (\<forall>a p. om_ok (the_map p w a)) \<and>
     (\<forall>a b p r. om_find b (the_map p w a) = Some r \<longrightarrow>
        (\<exists>c. cw_refs w r = Some c \<and> cr_isPvP c = p \<and> joins c a b)) \<and>
     (\<forall>r c. cw_refs w r = Some c \<longrightarrow> r < cw_next w \<and> cr_first c \<noteq> cr_second c \<and>
        om_find (cr_second c) (the_map (cr_isPvP c) w (cr_first c)) = Some r \<and>
        om_find (cr_first c) (the_map (cr_isPvP c) w (cr_second c)) = Some r)"

text \<open>A unit is engaged iff it has a reference that is not suppressed for it.\<close>

definition engaged :: "uguid \<Rightarrow> combat_world \<Rightarrow> bool" where
  "engaged a w \<longleftrightarrow> (\<exists>p b r c. om_find b (the_map p w a) = Some r \<and> cw_refs w r = Some c \<and> \<not> IsSuppressedFor c a)"

definition cw_flags :: "uguid set \<Rightarrow> combat_world \<Rightarrow> bool" where
  "cw_flags S w \<longleftrightarrow> (\<forall>a. a \<notin> S \<longrightarrow> (cw_inCombat w a \<longleftrightarrow> engaged a w))"

definition cw_threats :: "combat_world \<Rightarrow> bool" where
  "cw_threats w \<longleftrightarrow> (\<forall>(a, b) \<in> set (cw_threat w). IsInCombatWith a b w)"

definition cw_inv :: "combat_world \<Rightarrow> bool" where
  "cw_inv w \<longleftrightarrow> cw_links w \<and> cw_flags {} w \<and> cw_threats w"

lemma the_map_simps [simp]:
  "the_map p (w\<lparr>cw_inCombat := i\<rparr>) a = the_map p w a"
  "the_map p (w\<lparr>cw_events := es\<rparr>) a = the_map p w a"
  "the_map p (w\<lparr>cw_threat := t\<rparr>) a = the_map p w a"
  "the_map p (w\<lparr>cw_refs := rs\<rparr>) a = the_map p w a"
  "the_map p (w\<lparr>cw_next := n\<rparr>) a = the_map p w a"
  "the_map p (event es w) a = the_map p w a"
  "the_map p (set_ref r c w) a = the_map p w a"
  "the_map p (ClearThreat x y w) a = the_map p w a"
  by (simp_all add: the_map_def event_def set_ref_def ClearThreat_def)

lemma the_map_purge [simp]:
  "the_map p (PurgeReference me g q w) a = (if p = q \<and> a = me then om_erase g (the_map p w a) else the_map p w a)"
  by (auto simp: the_map_def PurgeReference_def)

lemma IsInCombatWith_the_map: "IsInCombatWith me g w \<longleftrightarrow> (\<exists>p r. om_find g (the_map p w me) = Some r)"
  by (auto simp: IsInCombatWith_def the_map_def intro: exI [of _ True] exI [of _ False])

lemma world_fields [simp]:
  "cw_refs (event es w) = cw_refs w" "cw_inCombat (event es w) = cw_inCombat w" "cw_threat (event es w) = cw_threat w"
  "cw_next (event es w) = cw_next w"
  "cw_refs (PurgeReference me g p w) = cw_refs w" "cw_inCombat (PurgeReference me g p w) = cw_inCombat w"
  "cw_threat (PurgeReference me g p w) = cw_threat w" "cw_next (PurgeReference me g p w) = cw_next w"
  "cw_refs (ClearThreat x y w) = cw_refs w" "cw_inCombat (ClearThreat x y w) = cw_inCombat w"
  "cw_next (ClearThreat x y w) = cw_next w"
  "cw_threat (ClearThreat x y w) = filter (\<lambda>z. z \<noteq> (x, y)) (cw_threat w)"
  "cw_refs (set_ref r c w) = (cw_refs w)(r \<mapsto> c)" "cw_inCombat (set_ref r c w) = cw_inCombat w"
  "cw_threat (set_ref r c w) = cw_threat w" "cw_next (set_ref r c w) = cw_next w"
  by (simp_all add: event_def PurgeReference_def ClearThreat_def set_ref_def)

text \<open>What matters of a world for the contract.\<close>

lemma cw_cong:
  assumes "\<And>p a. the_map p w' a = the_map p w a" "cw_refs w' = cw_refs w"
  shows "engaged a w' = engaged a w" "cw_next w' = cw_next w \<Longrightarrow> cw_links w' = cw_links w"
    "IsInCombatWith x y w' = IsInCombatWith x y w"
    "cw_threat w' = cw_threat w \<Longrightarrow> cw_threats w' = cw_threats w"
    "cw_inCombat w' = cw_inCombat w \<Longrightarrow> cw_flags S w' = cw_flags S w"
  by (simp_all add: engaged_def cw_links_def IsInCombatWith_the_map cw_threats_def cw_flags_def assms)

lemma links_entry:
  assumes "cw_links w" "om_find b (the_map p w a) = Some r"
  obtains c where "cw_refs w r = Some c" "cr_isPvP c = p" "joins c a b"
  using assms unfolding cw_links_def by blast

lemma links_ref:
  assumes "cw_links w" "cw_refs w r = Some c"
  shows "r < cw_next w" "cr_first c \<noteq> cr_second c"
    "om_find (cr_second c) (the_map (cr_isPvP c) w (cr_first c)) = Some r"
    "om_find (cr_first c) (the_map (cr_isPvP c) w (cr_second c)) = Some r"
  using assms unfolding cw_links_def by blast+

lemma links_ok: "cw_links w \<Longrightarrow> om_ok (the_map p w a)"
  by (simp add: cw_links_def)

lemma joins_commute: "joins c a b = joins c b a"
  by (auto simp: joins_def)

lemma links_where:
  assumes "cw_links w" "cw_refs w r = Some c"
  shows "om_find y (the_map p w x) = Some r \<longleftrightarrow> p = cr_isPvP c \<and> joins c x y"
proof
  assume "om_find y (the_map p w x) = Some r"
  from links_entry [OF assms(1) this] obtain c' where "cw_refs w r = Some c'" "cr_isPvP c' = p" "joins c' x y" .
  with assms(2) show "p = cr_isPvP c \<and> joins c x y" by simp
next
  assume "p = cr_isPvP c \<and> joins c x y"
  then show "om_find y (the_map p w x) = Some r"
    using links_ref(3,4) [OF assms] by (auto simp: joins_def)
qed

lemma links_symmetric:
  assumes "cw_links w" "om_find b (the_map p w a) = Some r"
  shows "om_find a (the_map p w b) = Some r"
proof -
  from links_entry [OF assms] obtain c where c: "cw_refs w r = Some c" "cr_isPvP c = p" "joins c a b" .
  then show ?thesis using links_where [OF assms(1) c(1)] by (simp add: joins_commute)
qed

section \<open>The combat flag is recomputed from the references\<close>

definition valid_for :: "uguid \<Rightarrow> combat_world \<Rightarrow> bool" where
  "valid_for a w \<longleftrightarrow> (\<forall>p. om_ok (the_map p w a)) \<and> (\<forall>p b r. om_find b (the_map p w a) = Some r \<longrightarrow> cw_refs w r \<noteq> None)"

lemma first_unsuppressed_spec:
  assumes "\<forall>x \<in> set m. refs (snd x) \<noteq> None"
  shows "\<exists>t. first_unsuppressed refs me m = Some t \<and>
    (t \<noteq> None \<longleftrightarrow> (\<exists>x \<in> set m. \<exists>c. refs (snd x) = Some c \<and> \<not> IsSuppressedFor c me))"
  using assms by (induction refs me m rule: first_unsuppressed.induct) (auto split: option.splits)

lemma first_unsuppressed_map:
  assumes "valid_for me w"
  shows "\<exists>t. first_unsuppressed (cw_refs w) me (the_map p w me) = Some t \<and>
    (t \<noteq> None \<longleftrightarrow> (\<exists>b r c. om_find b (the_map p w me) = Some r \<and> cw_refs w r = Some c \<and> \<not> IsSuppressedFor c me))"
proof -
  have m: "om_ok (the_map p w me)" using assms by (simp add: valid_for_def)
  have e: "(b, r) \<in> set (the_map p w me) \<longleftrightarrow> om_find b (the_map p w me) = Some r" for b r
    by (simp add: om_find_iff [OF m])
  have "\<forall>x \<in> set (the_map p w me). cw_refs w (snd x) \<noteq> None"
    using assms e by (force simp: valid_for_def)
  from first_unsuppressed_spec [OF this, of me] show ?thesis by (auto simp flip: e) (metis snd_conv)+
qed

lemma HasCombat_spec: "valid_for me w \<Longrightarrow> HasCombat me w = Some (engaged me w)"
proof -
  assume v: "valid_for me w"
  obtain t where t: "first_unsuppressed (cw_refs w) me (cw_pve w me) = Some t"
    "t \<noteq> None \<longleftrightarrow> (\<exists>b r c. om_find b (the_map False w me) = Some r \<and> cw_refs w r = Some c \<and> \<not> IsSuppressedFor c me)"
    using first_unsuppressed_map [OF v, of False] by (auto simp: the_map_def)
  obtain u where u: "first_unsuppressed (cw_refs w) me (cw_pvp w me) = Some u"
    "u \<noteq> None \<longleftrightarrow> (\<exists>b r c. om_find b (the_map True w me) = Some r \<and> cw_refs w r = Some c \<and> \<not> IsSuppressedFor c me)"
    using first_unsuppressed_map [OF v, of True] by (auto simp: the_map_def)
  have "engaged me w \<longleftrightarrow> t \<noteq> None \<or> u \<noteq> None"
    unfolding engaged_def t(2) u(2) by (metis (full_types))
  with t(1) u(1) show ?thesis by (auto simp: HasCombat_def HasPvECombat_def HasPvPCombat_def)
qed

lemma GetAnyTarget_total: "valid_for me w \<Longrightarrow> \<exists>t. GetAnyTarget me w = Some t"
  using first_unsuppressed_map [of me w False] first_unsuppressed_map [of me w True]
  by (auto simp: GetAnyTarget_def the_map_def split: option.splits)

lemma valid_for_cong:
  "(\<And>p. the_map p w' a = the_map p w a) \<Longrightarrow> cw_refs w' = cw_refs w \<Longrightarrow> valid_for a w' = valid_for a w"
  by (simp add: valid_for_def)

text \<open>\<open>same_refs w w'\<close>: the two worlds differ at most in combat flags and events.\<close>

definition same_refs :: "combat_world \<Rightarrow> combat_world \<Rightarrow> bool" where
  "same_refs w w' \<longleftrightarrow> (\<forall>p a. the_map p w' a = the_map p w a) \<and> cw_refs w' = cw_refs w \<and> cw_next w' = cw_next w
     \<and> cw_threat w' = cw_threat w"

lemma combat_state_changed_spec:
  assumes "valid_for me w"
  shows "\<exists>w'. combat_state_changed e me b w = Some w' \<and> same_refs w w' \<and> cw_inCombat w' = (cw_inCombat w)(me := b)"
proof -
  let ?w = "event [AtEnterCombat me] (w\<lparr>cw_inCombat := (cw_inCombat w)(me := True)\<rparr>)"
  have "valid_for me ?w" using assms by (subst valid_for_cong) simp_all
  then obtain t where "GetAnyTarget me ?w = Some t" using GetAnyTarget_total by blast
  then show ?thesis by (cases b) (simp_all add: combat_state_changed_def same_refs_def Let_def)
qed

lemma UpdateOwnerCombatState_spec:
  assumes "valid_for me w"
  shows "\<exists>n w'. UpdateOwnerCombatState e me w = Some (n, w') \<and> same_refs w w' \<and>
    cw_inCombat w' = (cw_inCombat w)(me := engaged me w)"
proof (cases "engaged me w = cw_inCombat w me")
  case True
  then have "UpdateOwnerCombatState e me w = Some (False, w)"
    by (simp add: UpdateOwnerCombatState_def HasCombat_spec [OF assms])
  moreover have "cw_inCombat w = (cw_inCombat w)(me := engaged me w)" unfolding True by (rule fun_upd_triv [symmetric])
  moreover have "same_refs w w" by (simp add: same_refs_def)
  ultimately show ?thesis by blast
next
  case False
  obtain w' where w': "combat_state_changed e me (engaged me w) w = Some w'" "same_refs w w'"
      "cw_inCombat w' = (cw_inCombat w)(me := engaged me w)"
    using combat_state_changed_spec [OF assms] by blast
  then have "UpdateOwnerCombatState e me w = Some (True, w')"
    using False by (simp add: UpdateOwnerCombatState_def HasCombat_spec [OF assms])
  with w' show ?thesis by blast
qed

lemma same_refs_facts:
  assumes "same_refs w w'"
  shows "cw_links w' = cw_links w" "engaged a w' = engaged a w" "cw_threats w' = cw_threats w"
    "valid_for a w' = valid_for a w" "IsInCombatWith x y w' = IsInCombatWith x y w"
    "the_map p w' a = the_map p w a" "cw_refs w' = cw_refs w"
proof -
  have m: "\<And>p a. the_map p w' a = the_map p w a" and r: "cw_refs w' = cw_refs w"
    and n: "cw_next w' = cw_next w" and t: "cw_threat w' = cw_threat w"
    using assms by (simp_all add: same_refs_def)
  show "cw_links w' = cw_links w" "engaged a w' = engaged a w" "cw_threats w' = cw_threats w"
    "IsInCombatWith x y w' = IsInCombatWith x y w" "valid_for a w' = valid_for a w"
    "the_map p w' a = the_map p w a" "cw_refs w' = cw_refs w"
    using cw_cong(1,3) [OF m r] cw_cong(2) [OF m r n] cw_cong(4) [OF m r t] valid_for_cong [OF m r] m r by blast+
qed

lemma UpdateOwner_flags:
  assumes "valid_for me w"
  obtains n w' where "UpdateOwnerCombatState e me w = Some (n, w')" "same_refs w w'"
    "\<And>S. cw_flags S w \<Longrightarrow> cw_flags (S - {me}) w'"
proof -
  obtain n w' where u: "UpdateOwnerCombatState e me w = Some (n, w')" "same_refs w w'"
      "cw_inCombat w' = (cw_inCombat w)(me := engaged me w)"
    using UpdateOwnerCombatState_spec [OF assms, of e] by blast
  moreover have "cw_flags (S - {me}) w'" if "cw_flags S w" for S
    using that u(3) same_refs_facts(2) [OF u(2)] by (auto simp: cw_flags_def)
  ultimately show ?thesis using that by blast
qed

lemma links_valid: "cw_links w \<Longrightarrow> valid_for a w"
  unfolding valid_for_def by (metis links_entry links_ok option.distinct(1))

section \<open>Ending a combat\<close>

lemma purge_twice:
  assumes "joins c me g"
  shows "PurgeReference (cr_second c) (cr_first c) p (PurgeReference (cr_first c) (cr_second c) p
      (ClearThreat x y (ClearThreat x' y' (PurgeReference me g p w)))) =
    PurgeReference (cr_second c) (cr_first c) p (PurgeReference (cr_first c) (cr_second c) p
      (ClearThreat x y (ClearThreat x' y' w)))"
  using assms
  by (cases "cr_first c = cr_second c")
     (auto simp: joins_def PurgeReference_def ClearThreat_def om_erase_def fun_upd_twist)

lemma EndCombat_purged:
  assumes "cw_refs w r = Some c" "joins c me g"
  shows "EndCombat e r (PurgeReference me g (cr_isPvP c) w) = EndCombat e r w"
  using assms(1) purge_twice [OF assms(2)] by (simp add: EndCombat_def Let_def)

lemma EndCombat_spec:
  assumes l: "cw_links w" and c: "cw_refs w r = Some c"
  shows "\<exists>w'. EndCombat e r w = Some w' \<and> cw_links w' \<and> cw_refs w' = (cw_refs w)(r := None) \<and>
    (\<forall>S. cw_flags S w \<longrightarrow> cw_flags (S - {cr_first c, cr_second c}) w') \<and> (cw_threats w \<longrightarrow> cw_threats w') \<and>
    (\<forall>p x. the_map p w' x = (if p = cr_isPvP c \<and> x = cr_first c then om_erase (cr_second c) (the_map p w x)
       else if p = cr_isPvP c \<and> x = cr_second c then om_erase (cr_first c) (the_map p w x) else the_map p w x)) \<and>
    set (cw_threat w') \<subseteq> set (cw_threat w)"
proof -
  define a b where "a = cr_first c" and "b = cr_second c"
  have ab: "a \<noteq> b" using links_ref(2) [OF l c] by (simp add: a_def b_def)
  define w1 where "w1 = PurgeReference b a (cr_isPvP c) (PurgeReference a b (cr_isPvP c) (ClearThreat b a (ClearThreat a b w)))"
  have m1: "the_map p w1 x = (if p = cr_isPvP c \<and> x = a then om_erase b (the_map p w x)
       else if p = cr_isPvP c \<and> x = b then om_erase a (the_map p w x) else the_map p w x)" for p x
    using ab by (auto simp: w1_def)
  have f1: "om_find y (the_map p w1 x) = Some s \<longleftrightarrow> om_find y (the_map p w x) = Some s \<and> s \<noteq> r" for p x y s
    using links_where [OF l c, of y p x] links_ref(3,4) [OF l c] unfolding m1 a_def b_def joins_def by auto
  have r1: "cw_refs w1 = cw_refs w" by (simp add: w1_def)
  have v1: "valid_for x w1" for x using links_valid [OF l, of x] f1 r1 m1 by (auto simp: valid_for_def)
  obtain n2 w2 where u2: "UpdateOwnerCombatState e a w1 = Some (n2, w2)" "same_refs w1 w2"
      "\<And>S. cw_flags S w1 \<Longrightarrow> cw_flags (S - {a}) w2" using UpdateOwner_flags [OF v1] by metis
  have "valid_for b w2" using v1 same_refs_facts(4) [OF u2(2)] by simp
  then obtain n3 w3 where u3: "UpdateOwnerCombatState e b w2 = Some (n3, w3)" "same_refs w2 w3"
      "\<And>S. cw_flags S w2 \<Longrightarrow> cw_flags (S - {b}) w3" using UpdateOwner_flags by metis
  define w' where "w' = (event (exit_events e n2 a @ exit_events e n3 b) w3)\<lparr>cw_refs := (cw_refs w3)(r := None)\<rparr>"
  have res: "EndCombat e r w = Some w'"
    using c u2(1) u3(1) unfolding w1_def a_def b_def by (simp add: EndCombat_def Let_def w'_def a_def b_def)
  have map': "the_map p w' x = the_map p w1 x" for p x
    using same_refs_facts(6) [OF u2(2)] same_refs_facts(6) [OF u3(2)] by (simp add: w'_def)
  have refs': "cw_refs w' = (cw_refs w)(r := None)"
    using same_refs_facts(7) [OF u2(2)] same_refs_facts(7) [OF u3(2)] r1 by (simp add: w'_def)
  have f': "om_find y (the_map p w' x) = Some s \<longleftrightarrow> om_find y (the_map p w x) = Some s \<and> s \<noteq> r" for p x y s
    by (simp add: map' f1)
  have next': "cw_next w' = cw_next w" using u2(2) u3(2) by (simp add: w'_def same_refs_def w1_def)
  have ok': "om_ok (the_map p w' x)" for p x using links_ok [OF l] by (simp add: map' m1)
  have links': "cw_links w'"
    unfolding cw_links_def
  proof (intro conjI allI impI)
    fix x y p s assume "om_find y (the_map p w' x) = Some s"
    then have "om_find y (the_map p w x) = Some s" "s \<noteq> r" by (simp_all add: f')
    then show "\<exists>c. cw_refs w' s = Some c \<and> cr_isPvP c = p \<and> joins c x y" using l refs' by (auto elim: links_entry)
  next
    fix s d assume "cw_refs w' s = Some d"
    then have d: "cw_refs w s = Some d" "s \<noteq> r" using refs' by (auto split: if_splits)
    from links_ref [OF l d(1)] d(2)
    show "s < cw_next w'" "cr_first d \<noteq> cr_second d"
      "om_find (cr_second d) (the_map (cr_isPvP d) w' (cr_first d)) = Some s"
      "om_find (cr_first d) (the_map (cr_isPvP d) w' (cr_second d)) = Some s"
      by (simp_all add: f' next')
  qed (rule ok')
  have eng1: "engaged x w' = engaged x w1" for x
    unfolding engaged_def refs' r1 map' using f1 by (metis fun_upd_apply)
  have eng: "engaged x w1 = engaged x w" if "x \<noteq> a" "x \<noteq> b" for x
    using that unfolding engaged_def r1 m1 by simp
  have flags: "cw_flags (S - {a, b}) w'" if "cw_flags S w" for S
  proof -
    have "cw_flags (insert a (insert b S)) w1" using that eng by (simp add: cw_flags_def w1_def)
    from u3(3) [OF u2(3) [OF this]] have "cw_flags (insert a (insert b S) - {a} - {b}) w3" .
    moreover have "cw_inCombat w' = cw_inCombat w3" by (simp add: w'_def)
    moreover have "engaged x w3 = engaged x w'" for x
      using eng1 same_refs_facts(2) [OF u2(2)] same_refs_facts(2) [OF u3(2)] by simp
    ultimately show ?thesis by (auto simp: cw_flags_def)
  qed
  have thr: "cw_threat w' = filter (\<lambda>z. z \<noteq> (b, a)) (filter (\<lambda>z. z \<noteq> (a, b)) (cw_threat w))"
    using u2(2) u3(2) by (simp add: w'_def same_refs_def w1_def)
  have threats: "cw_threats w'" if "cw_threats w"
    unfolding cw_threats_def
  proof (intro ballI, clarify)
    fix x y assume xy: "(x, y) \<in> set (cw_threat w')"
    then have "IsInCombatWith x y w" "(x, y) \<noteq> (a, b)" "(x, y) \<noteq> (b, a)"
      using that thr by (auto simp: cw_threats_def)
    from this(1) obtain p s where s: "om_find y (the_map p w x) = Some s" by (auto simp: IsInCombatWith_the_map)
    moreover have "s \<noteq> r"
      using s links_where [OF l c, of y p x] \<open>(x, y) \<noteq> (a, b)\<close> \<open>(x, y) \<noteq> (b, a)\<close> by (auto simp: joins_def a_def b_def)
    ultimately show "IsInCombatWith x y w'" unfolding IsInCombatWith_the_map f' by blast
  qed
  show ?thesis using res links' refs' flags threats map' m1 thr by (auto simp: a_def b_def)
qed

section \<open>Changing one reference\<close>

lemma set_ref_links:
  assumes l: "cw_links w" and c: "cw_refs w r = Some c"
    and same: "cr_first c' = cr_first c" "cr_second c' = cr_second c" "cr_isPvP c' = cr_isPvP c"
  shows "cw_links (set_ref r c' w)"
  unfolding cw_links_def
proof (intro conjI allI impI)
  fix x y p s assume "om_find y (the_map p (set_ref r c' w) x) = Some s"
  then have "om_find y (the_map p w x) = Some s" by simp
  from links_entry [OF l this] obtain d where "cw_refs w s = Some d" "cr_isPvP d = p" "joins d x y" .
  with c same show "\<exists>d. cw_refs (set_ref r c' w) s = Some d \<and> cr_isPvP d = p \<and> joins d x y"
    by (cases "s = r") (auto simp: joins_def)
next
  fix s d assume d: "cw_refs (set_ref r c' w) s = Some d"
  then obtain d' where d': "cw_refs w s = Some d'" "cr_first d = cr_first d'" "cr_second d = cr_second d'"
      "cr_isPvP d = cr_isPvP d'"
    using c same by (cases "s = r") auto
  from links_ref [OF l d'(1)]
  show "s < cw_next (set_ref r c' w)" "cr_first d \<noteq> cr_second d"
    "om_find (cr_second d) (the_map (cr_isPvP d) (set_ref r c' w) (cr_first d)) = Some s"
    "om_find (cr_first d) (the_map (cr_isPvP d) (set_ref r c' w) (cr_second d)) = Some s"
    by (simp_all add: d'(2-))
qed (simp add: links_ok [OF l])

lemma set_ref_engaged:
  assumes l: "cw_links w" and c: "cw_refs w r = Some c"
    and same: "x \<in> {cr_first c, cr_second c} \<Longrightarrow> IsSuppressedFor c' x = IsSuppressedFor c x"
  shows "engaged x (set_ref r c' w) = engaged x w"
proof -
  have "x \<in> {cr_first c, cr_second c}" if "om_find y (the_map p w x) = Some r" for y p
    using that links_where [OF l c] by (auto simp: joins_def)
  with c same show ?thesis
    unfolding engaged_def by (simp del: fun_upd_apply) (metis fun_upd_apply option.inject)
qed

lemma set_ref_threats: "cw_threats (set_ref r c w) = cw_threats w"
  by (simp add: cw_threats_def IsInCombatWith_the_map)

lemma cw_flags_mono: "cw_flags S w \<Longrightarrow> S \<subseteq> T \<Longrightarrow> cw_flags T w"
  by (auto simp: cw_flags_def)

text \<open>Changing suppression (or the timer) of a reference and recomputing the flag of the unit concerned.\<close>

lemma set_ref_update:
  assumes i: "cw_links w" "cw_flags S w" "cw_threats w" and c: "cw_refs w r = Some c"
    and same: "cr_first c' = cr_first c" "cr_second c' = cr_second c" "cr_isPvP c' = cr_isPvP c"
    and supp: "\<And>x. x \<in> {cr_first c, cr_second c} \<Longrightarrow> x \<noteq> me \<Longrightarrow> IsSuppressedFor c' x = IsSuppressedFor c x"
  obtains n w' where "UpdateOwnerCombatState e me (set_ref r c' w) = Some (n, w')" "cw_links w'" "cw_flags (S - {me}) w'"
    "cw_threats w'" "cw_refs w' = (cw_refs w)(r \<mapsto> c')" "\<And>p x. the_map p w' x = the_map p w x"
proof -
  note l = set_ref_links [OF i(1) c same]
  have "cw_flags (insert me S) (set_ref r c' w)"
    using i(2) set_ref_engaged [OF i(1) c supp] by (auto simp: cw_flags_def)
  then obtain n w' where u: "UpdateOwnerCombatState e me (set_ref r c' w) = Some (n, w')" "same_refs (set_ref r c' w) w'"
      "cw_flags (insert me S - {me}) w'"
    using UpdateOwner_flags [OF links_valid [OF l]] by metis
  have "cw_flags (S - {me}) w'" using u(3) by simp
  with that u(1) same_refs_facts [OF u(2)] l i(3) show ?thesis by (simp add: set_ref_threats)
qed

lemma Refresh_spec:
  assumes i: "cw_inv w" and c: "cw_refs w r = Some c"
  obtains w' where "Refresh e r w = Some w'" "cw_inv w'" "\<And>p x. the_map p w' x = the_map p w x"
proof -
  let ?a = "cr_first c" and ?b = "cr_second c"
  have ab: "?a \<noteq> ?b" using i c links_ref(2) by (auto simp: cw_inv_def)
  have i': "cw_links w" "cw_flags {} w" "cw_threats w" using i by (simp_all add: cw_inv_def)
  obtain n1 w1 where s1: "(if cr_suppressFirst c then UpdateOwnerCombatState e ?a (set_ref r (c\<lparr>cr_suppressFirst := False\<rparr>) w)
      else Some (False, w)) = Some (n1, w1)" "cw_links w1" "cw_flags {} w1" "cw_threats w1"
      "cw_refs w1 r = Some (c\<lparr>cr_suppressFirst := False\<rparr>)" "\<And>p x. the_map p w1 x = the_map p w x"
  proof (cases "cr_suppressFirst c")
    case True
    obtain n w' where "UpdateOwnerCombatState e ?a (set_ref r (c\<lparr>cr_suppressFirst := False\<rparr>) w) = Some (n, w')"
        "cw_links w'" "cw_flags ({} - {?a}) w'" "cw_threats w'"
        "cw_refs w' = (cw_refs w)(r \<mapsto> c\<lparr>cr_suppressFirst := False\<rparr>)" "\<And>p x. the_map p w' x = the_map p w x"
      by (rule set_ref_update [OF i' c, of "c\<lparr>cr_suppressFirst := False\<rparr>" ?a]) (auto simp: IsSuppressedFor_def)
    with True that show ?thesis by simp
  next
    case False
    then have "c\<lparr>cr_suppressFirst := False\<rparr> = c" by (cases c) simp
    with False that [of False w] i' c show ?thesis by simp
  qed
  define c1 where "c1 = c\<lparr>cr_suppressFirst := False\<rparr>"
  have c1: "cw_refs w1 r = Some c1" "cr_first c1 = ?a" "cr_second c1 = ?b" using s1(5) by (simp_all add: c1_def)
  obtain n2 w2 where s2: "(if cr_suppressSecond c1 then UpdateOwnerCombatState e ?b (set_ref r (c1\<lparr>cr_suppressSecond := False\<rparr>) w1)
      else Some (False, w1)) = Some (n2, w2)" "cw_links w2" "cw_flags {} w2" "cw_threats w2"
      "\<And>p x. the_map p w2 x = the_map p w1 x"
  proof (cases "cr_suppressSecond c1")
    case True
    obtain n w' where "UpdateOwnerCombatState e ?b (set_ref r (c1\<lparr>cr_suppressSecond := False\<rparr>) w1) = Some (n, w')"
        "cw_links w'" "cw_flags ({} - {?b}) w'" "cw_threats w'" "\<And>p x. the_map p w' x = the_map p w1 x"
      by (rule set_ref_update [OF s1(2-4) c1(1), of "c1\<lparr>cr_suppressSecond := False\<rparr>" ?b])
         (use c1 in \<open>auto simp: IsSuppressedFor_def\<close>)
    with True that show ?thesis by simp
  next
    case False
    with that [of False w1] s1 show ?thesis by simp
  qed
  define w3 where "w3 = event ((if n1 then NotifyAICombat e ?a ?b else []) @ (if n2 then NotifyAICombat e ?b ?a else [])) w2"
  have "Refresh e r w = Some w3"
    by (simp only: Refresh_def c Option.bind.simps s1(1) prod.case c1 s2(1) w3_def)
  moreover have "cw_inv w3"
    using s2 cw_cong [of w3 w2] by (simp add: cw_inv_def w3_def)
  moreover have "the_map p w3 x = the_map p w x" for p x using s2(5) s1(6) by (simp add: w3_def)
  ultimately show ?thesis using that by blast
qed

lemma SuppressFor_spec:
  assumes i: "cw_inv w" and c: "cw_refs w r = Some c" and who: "who \<in> {cr_first c, cr_second c}"
  obtains w' where "SuppressFor e who r w = Some w'" "cw_inv w'" "\<And>p x. the_map p w' x = the_map p w x"
proof -
  have i': "cw_links w" "cw_flags {} w" "cw_threats w" using i by (simp_all add: cw_inv_def)
  obtain n w' where u: "UpdateOwnerCombatState e who (set_ref r (Suppress who c) w) = Some (n, w')"
        "cw_links w'" "cw_flags ({} - {who}) w'" "cw_threats w'" "\<And>p x. the_map p w' x = the_map p w x"
    by (rule set_ref_update [OF i' c, of "Suppress who c" who]) (use who in \<open>auto simp: Suppress_def IsSuppressedFor_def\<close>)
  then have "SuppressFor e who r w = Some (event (exit_events e n who) w')" using c by (simp add: SuppressFor_def)
  moreover have "cw_inv (event (exit_events e n who) w')"
    using u cw_cong [of "event (exit_events e n who) w'" w'] by (simp add: cw_inv_def)
  ultimately show ?thesis using that u(5) by simp
qed

section \<open>Beginning a combat\<close>

lemma CanBeginCombat_distinct: "CanBeginCombat e a b \<Longrightarrow> a \<noteq> b"
  by (auto simp: CanBeginCombat_def Let_def)

lemma new_ref_links:
  assumes l: "cw_links w" and d: "cr_first c \<noteq> cr_second c" and r: "r = cw_next w"
    and new: "\<not> IsInCombatWith (cr_first c) (cr_second c) w"
  obtains w2 where
    "Option.bind (PutReference (cr_first c) (cr_second c) r (set_ref r c (w\<lparr>cw_next := Suc r\<rparr>)))
       (PutReference (cr_second c) (cr_first c) r) = Some w2"
    "cw_links w2" "cw_refs w2 = (cw_refs w)(r \<mapsto> c)" "cw_inCombat w2 = cw_inCombat w" "cw_threat w2 = cw_threat w"
    "\<And>p x. the_map p w2 x = (if p = cr_isPvP c \<and> x = cr_first c then om_set (cr_second c) r (the_map p w x)
       else if p = cr_isPvP c \<and> x = cr_second c then om_set (cr_first c) r (the_map p w x) else the_map p w x)"
proof -
  define a b p0 where "a = cr_first c" and "b = cr_second c" and "p0 = cr_isPvP c"
  have ab: "a \<noteq> b" using d by (simp add: a_def b_def)
  have n1: "om_find b (the_map p w a) = None" for p
    using new by (cases "om_find b (the_map p w a)") (auto simp: IsInCombatWith_the_map a_def b_def)
  have n2: "om_find a (the_map p w b) = None" for p
    using n1 [of p] links_symmetric [OF l, of a p b] by (cases "om_find a (the_map p w b)") auto
  define w2 where "w2 = (if p0 then (set_ref r c (w\<lparr>cw_next := Suc r\<rparr>))\<lparr>cw_pvp :=
      ((cw_pvp w)(a := om_set b r (cw_pvp w a)))(b := om_set a r (cw_pvp w b))\<rparr>
    else (set_ref r c (w\<lparr>cw_next := Suc r\<rparr>))\<lparr>cw_pve :=
      ((cw_pve w)(a := om_set b r (cw_pve w a)))(b := om_set a r (cw_pve w b))\<rparr>)"
  have put: "Option.bind (PutReference a b r (set_ref r c (w\<lparr>cw_next := Suc r\<rparr>))) (PutReference b a r) = Some w2"
    using n1 [of True] n1 [of False] n2 [of True] n2 [of False] ab
    by (cases p0) (simp_all add: PutReference_def w2_def the_map_def set_ref_def p0_def [symmetric])
  have m2: "the_map p w2 x = (if p = p0 \<and> x = a then om_set b r (the_map p w x)
       else if p = p0 \<and> x = b then om_set a r (the_map p w x) else the_map p w x)" for p x
    using ab by (auto simp: w2_def the_map_def set_ref_def)
  have f2: "cw_refs w2 = (cw_refs w)(r \<mapsto> c)" "cw_inCombat w2 = cw_inCombat w" "cw_threat w2 = cw_threat w"
    "cw_next w2 = Suc r" by (simp_all add: w2_def set_ref_def)
  have old: "cw_refs w s \<noteq> None \<Longrightarrow> s < r" for s using links_ref(1) [OF l] r by auto
  have entry: "om_find y (the_map p w2 x) = Some s \<longleftrightarrow>
      om_find y (the_map p w x) = Some s \<or> (s = r \<and> p = p0 \<and> joins c x y)" for p x y s
    unfolding m2 using n1 [of p] n2 [of p] ab by (auto simp: joins_def a_def [symmetric] b_def [symmetric])
  have links2: "cw_links w2"
    unfolding cw_links_def
  proof (intro conjI allI impI)
    show "om_ok (the_map p w2 x)" for x p using links_ok [OF l] by (simp add: m2)
  next
    fix x y p s assume "om_find y (the_map p w2 x) = Some s"
    then consider "om_find y (the_map p w x) = Some s" | "s = r" "p = p0" "joins c x y" by (auto simp: entry)
    then show "\<exists>d. cw_refs w2 s = Some d \<and> cr_isPvP d = p \<and> joins d x y"
    proof cases
      case 1
      from links_entry [OF l this] obtain d where d: "cw_refs w s = Some d" "cr_isPvP d = p" "joins d x y" .
      moreover have "s \<noteq> r" using old [of s] d(1) by auto
      ultimately show ?thesis by (simp add: f2)
    qed (simp add: f2 p0_def)
  next
    fix s d assume s: "cw_refs w2 s = Some d"
    show "s < cw_next w2" using s old [of s] by (auto simp: f2 split: if_splits)
    show "cr_first d \<noteq> cr_second d" using s d links_ref(2) [OF l] by (auto simp: f2 split: if_splits)
    show "om_find (cr_second d) (the_map (cr_isPvP d) w2 (cr_first d)) = Some s"
      "om_find (cr_first d) (the_map (cr_isPvP d) w2 (cr_second d)) = Some s"
      using s links_ref(3,4) [OF l, of s d] by (auto simp: entry f2 p0_def joins_def split: if_splits)
  qed
  show ?thesis using that put links2 f2 m2 by (simp add: a_def b_def p0_def)
qed

lemma SetInCombatWith_spec:
  assumes i: "cw_inv w"
  shows "\<exists>b w'. SetInCombatWith e me who sup2 w = Some (b, w') \<and> cw_inv w' \<and> b = IsInCombatWith me who w' \<and>
    (\<forall>p x y r. om_find y (the_map p w x) = Some r \<longrightarrow> om_find y (the_map p w' x) = Some r) \<and>
    (b \<longrightarrow> IsInCombatWith me who w \<or> CanBeginCombat e me who)"
proof -
  have i': "cw_links w" "cw_flags {} w" "cw_threats w" using i by (simp_all add: cw_inv_def)
  show ?thesis
  proof (cases "om_find who (cw_pvp w me)")
    case (Some r)
    then have f: "om_find who (the_map True w me) = Some r" by (simp add: the_map_def)
    from links_entry [OF i'(1) f] obtain c where c: "cw_refs w r = Some c" "cr_isPvP c" by auto
    define c' where "c' = c\<lparr>cr_combatTimer := PVP_COMBAT_TIMEOUT\<rparr>"
    define w1 where "w1 = set_ref r c' w"
    have "cw_links w1" unfolding w1_def by (rule set_ref_links [OF i'(1) c(1)]) (simp_all add: c'_def)
    moreover have "engaged x w1 = engaged x w" for x
      unfolding w1_def by (rule set_ref_engaged [OF i'(1) c(1)]) (simp add: c'_def IsSuppressedFor_def)
    ultimately have inv1: "cw_inv w1" using i' by (simp add: cw_inv_def cw_flags_def w1_def set_ref_threats)
    have "cw_refs w1 r = Some c'" by (simp add: w1_def)
    from Refresh_spec [OF inv1 this] obtain w' where w': "Refresh e r w1 = Some w'" "cw_inv w'"
        "\<And>p x. the_map p w' x = the_map p w1 x" by metis
    moreover have "RefreshTimer r w = Some w1" using c by (simp add: RefreshTimer_def w1_def c'_def)
    moreover have "IsInCombatWith me who w'" "IsInCombatWith me who w" using f w'(3) by (auto simp: IsInCombatWith_the_map w1_def)
    ultimately show ?thesis using Some by (auto simp: SetInCombatWith_def w1_def intro!: exI [of _ True])
  next
    case nopvp: None
    show ?thesis
    proof (cases "om_find who (cw_pve w me)")
      case (Some r)
      then have f: "om_find who (the_map False w me) = Some r" by (simp add: the_map_def)
      from links_entry [OF i'(1) f] obtain c where c: "cw_refs w r = Some c" .
      from Refresh_spec [OF i c] obtain w' where w': "Refresh e r w = Some w'" "cw_inv w'"
          "\<And>p x. the_map p w' x = the_map p w x" by metis
      moreover have "IsInCombatWith me who w'" "IsInCombatWith me who w" using f w'(3) by (auto simp: IsInCombatWith_the_map)
      ultimately show ?thesis using Some nopvp by (auto simp: SetInCombatWith_def intro!: exI [of _ True])
    next
      case nopve: None
      have notin: "\<not> IsInCombatWith me who w" using nopvp nopve by (simp add: IsInCombatWith_def)
      show ?thesis
      proof (cases "CanBeginCombat e me who")
        case False
        then show ?thesis using nopvp nopve i notin by (auto simp: SetInCombatWith_def intro!: exI [of _ False])
      next
        case True
        define c0 where "c0 = CombatReference_new me who (uv_controlledByPlayer (ue_view e me) \<and> uv_controlledByPlayer (ue_view e who))"
        define c where "c = (if sup2 then Suppress who c0 else c0)"
        have c: "cr_first c = me" "cr_second c = who" by (simp_all add: c_def c0_def CombatReference_new_def Suppress_def)
        have d: "cr_first c \<noteq> cr_second c" using CanBeginCombat_distinct [OF True] c by simp
        have "\<not> IsInCombatWith (cr_first c) (cr_second c) w" using notin c by simp
        from new_ref_links [OF i'(1) d refl this] c obtain w2 where w2:
          "Option.bind (PutReference me who (cw_next w) (set_ref (cw_next w) c (w\<lparr>cw_next := Suc (cw_next w)\<rparr>)))
             (PutReference who me (cw_next w)) = Some w2"
          "cw_links w2" "cw_refs w2 = (cw_refs w)(cw_next w \<mapsto> c)" "cw_inCombat w2 = cw_inCombat w" "cw_threat w2 = cw_threat w"
          "\<And>p x. the_map p w2 x = (if p = cr_isPvP c \<and> x = me then om_set who (cw_next w) (the_map p w x)
            else if p = cr_isPvP c \<and> x = who then om_set me (cw_next w) (the_map p w x) else the_map p w x)"
          by metis
        have keep: "om_find y (the_map p w2 x) = Some r" if "om_find y (the_map p w x) = Some r" for p x y r
        proof -
          have "om_find who (the_map p w me) \<noteq> Some r'" for r' using notin by (auto simp: IsInCombatWith_the_map)
          moreover from this have "om_find me (the_map p w who) \<noteq> Some r'" for r'
            using links_symmetric [OF i'(1), of me p who r'] by auto
          ultimately show ?thesis using that unfolding w2(6) om_find_set by (auto split: if_splits)
        qed
        have eng: "engaged x w2 = engaged x w" if "x \<notin> {me, who}" for x
        proof -
          have "om_find y (the_map p w x) \<noteq> Some (cw_next w)" for y p
            using links_entry [OF i'(1), of y p x "cw_next w"] links_ref(1) [OF i'(1)] by (metis less_irrefl)
          then show ?thesis using that unfolding engaged_def w2(3) w2(6) by (auto split: if_splits) metis
        qed
        then have f2: "cw_flags {me, who} w2" using i'(2) by (auto simp: cw_flags_def w2(4))
        obtain n3 w3 where u3: "UpdateOwnerCombatState e me w2 = Some (n3, w3)" "same_refs w2 w3"
            "cw_flags ({me, who} - {me}) w3" using UpdateOwner_flags [OF links_valid [OF w2(2)]] f2 by metis
        have l3: "cw_links w3" using same_refs_facts(1) [OF u3(2)] w2(2) by simp
        obtain n4 w4 where u4: "UpdateOwnerCombatState e who w3 = Some (n4, w4)" "same_refs w3 w4"
            "cw_flags ({me, who} - {me} - {who}) w4" using UpdateOwner_flags [OF links_valid [OF l3]] u3(3) by metis
        define w5 where "w5 = event ((if n3 then NotifyAICombat e me who else []) @ (if n4 then NotifyAICombat e who me else [])) w4"
        have m5: "the_map p w5 x = the_map p w2 x" for p x
          using same_refs_facts(6) [OF u3(2)] same_refs_facts(6) [OF u4(2)] by (simp add: w5_def)
        have "SetInCombatWith e me who sup2 w = Some (IsInCombatWith me who w5, w5)"
        proof -
          obtain wy where "PutReference me who (cw_next w) (set_ref (cw_next w) c (w\<lparr>cw_next := Suc (cw_next w)\<rparr>)) = Some wy"
              "PutReference who me (cw_next w) wy = Some w2" using w2(1) by (auto simp: bind_eq_Some_conv)
          then show ?thesis using nopvp nopve True u3(1) u4(1)
            by (simp add: SetInCombatWith_def Let_def c0_def [symmetric] c_def [symmetric] w5_def)
        qed
        moreover have "cw_inv w5"
        proof -
          have "cw_flags {} w4" by (rule cw_flags_mono [OF u4(3)]) auto
          moreover have "cw_threats w4"
            using i'(3) keep u3(2) u4(2) same_refs_facts(5,6) [OF u4(2)] same_refs_facts(5,6) [OF u3(2)] w2(5)
            by (auto simp: cw_threats_def same_refs_def IsInCombatWith_the_map) blast
          moreover have "cw_links w4" using same_refs_facts(1) [OF u4(2)] l3 by simp
          ultimately show ?thesis using cw_cong [of w5 w4] by (simp add: cw_inv_def w5_def)
        qed
        ultimately show ?thesis using keep m5 True by auto
      qed
    qed
  qed
qed

section \<open>The loops over the maps\<close>

text \<open>\<open>entries_of\<close>: the entries still to be visited are in the map of the owner.\<close>

definition entries_of :: "bool \<Rightarrow> uguid \<Rightarrow> (uguid \<times> addr) list \<Rightarrow> combat_world \<Rightarrow> bool" where
  "entries_of p me m w \<longleftrightarrow> distinct (map fst m) \<and> (\<forall>(g, r) \<in> set m. om_find g (the_map p w me) = Some r)"

lemma entries_of_map: "cw_links w \<Longrightarrow> entries_of p me (the_map p w me) w"
  using links_ok [of w p me] om_ok_distinct [of "the_map p w me"] om_find_iff [of "the_map p w me"]
  by (auto simp: entries_of_def)

lemma entries_of_Cons:
  "entries_of p me ((g, r) # m) w \<longleftrightarrow>
     g \<notin> fst ` set m \<and> om_find g (the_map p w me) = Some r \<and> entries_of p me m w"
  by (auto simp: entries_of_def)

lemma EndCombat_inv:
  assumes "cw_inv w" "cw_refs w r = Some c"
  obtains w' where "EndCombat e r w = Some w'" "cw_inv w'"
    "\<And>p x. the_map p w' x = (if p = cr_isPvP c \<and> x = cr_first c then om_erase (cr_second c) (the_map p w x)
       else if p = cr_isPvP c \<and> x = cr_second c then om_erase (cr_first c) (the_map p w x) else the_map p w x)"
    "cw_refs w' = (cw_refs w)(r := None)"
proof -
  have i: "cw_links w" "cw_flags {} w" "cw_threats w" using assms(1) by (simp_all add: cw_inv_def)
  obtain w' where w': "EndCombat e r w = Some w'" "cw_links w'" "cw_refs w' = (cw_refs w)(r := None)"
    "\<forall>S. cw_flags S w \<longrightarrow> cw_flags (S - {cr_first c, cr_second c}) w'" "cw_threats w \<longrightarrow> cw_threats w'"
    "\<forall>p x. the_map p w' x = (if p = cr_isPvP c \<and> x = cr_first c then om_erase (cr_second c) (the_map p w x)
       else if p = cr_isPvP c \<and> x = cr_second c then om_erase (cr_first c) (the_map p w x) else the_map p w x)"
    using EndCombat_spec [OF i(1) assms(2), of e] by blast
  have "cw_flags {} w'" using w'(4) i(2) by (metis empty_Diff)
  with w' i show ?thesis using that by (simp add: cw_inv_def)
qed

lemma EndCombat_entry:
  assumes i: "cw_inv w" and r: "om_find g (the_map p w me) = Some r"
  obtains w' where "EndCombat e r w = Some w'" "EndCombat e r (PurgeReference me g p w) = Some w'" "cw_inv w'"
    "the_map p w' me = om_erase g (the_map p w me)" "\<not> IsInCombatWith me g w' \<or> om_find g (the_map (\<not> p) w me) \<noteq> None"
    "\<And>q x y s. om_find y (the_map q w' x) = Some s \<Longrightarrow> om_find y (the_map q w x) = Some s"
    "the_map (\<not> p) w' me = the_map (\<not> p) w me"
proof -
  have l: "cw_links w" using i by (simp add: cw_inv_def)
  from links_entry [OF l r] obtain c where c: "cw_refs w r = Some c" "cr_isPvP c = p" "joins c me g" .
  have d: "cr_first c \<noteq> cr_second c" using links_ref(2) [OF l c(1)] .
  obtain w' where w': "EndCombat e r w = Some w'" "cw_inv w'"
    "\<And>p x. the_map p w' x = (if p = cr_isPvP c \<and> x = cr_first c then om_erase (cr_second c) (the_map p w x)
       else if p = cr_isPvP c \<and> x = cr_second c then om_erase (cr_first c) (the_map p w x) else the_map p w x)"
    using EndCombat_inv [OF i c(1), of e] by metis
  have m: "the_map p w' me = om_erase g (the_map p w me)" "the_map (\<not> p) w' me = the_map (\<not> p) w me"
    using c(2,3) d by (auto simp: w'(3) joins_def)
  have ic: "\<not> IsInCombatWith me g w' \<or> om_find g (the_map (\<not> p) w me) \<noteq> None"
  proof (cases "om_find g (the_map (\<not> p) w me)")
    case None
    have "om_find g (the_map q w' me) = None" for q
    proof (cases "q = p")
      case True
      then show ?thesis using m(1) by simp
    next
      case False
      then have "q = (\<not> p)" by simp
      then show ?thesis using m(2) None by simp
    qed
    then show ?thesis by (simp add: IsInCombatWith_the_map)
  qed simp
  have sub: "om_find y (the_map q w x) = Some s" if "om_find y (the_map q w' x) = Some s" for q x y s
    using that by (auto simp: w'(3) split: if_splits)
  have "EndCombat e r (PurgeReference me g p w) = Some w'"
    using EndCombat_purged [OF c(1,3), of e] c(2) w'(1) by simp
  from that [OF w'(1) this w'(2) m(1) ic sub m(2)] show ?thesis .
qed

lemma end_where_inv:
  "cw_inv w \<Longrightarrow> entries_of p me m w \<Longrightarrow> \<exists>w'. end_where e P me p m w = Some w' \<and> cw_inv w'"
proof (induction e P me p m w rule: end_where.induct)
  case (2 e P me p g r m w)
  have g: "g \<notin> fst ` set m" "om_find g (the_map p w me) = Some r" "entries_of p me m w"
    using "2.prems"(2) by (simp_all add: entries_of_Cons)
  have l: "cw_links w" using "2.prems" by (simp add: cw_inv_def)
  from links_entry [OF l g(2)] obtain c where c: "cw_refs w r = Some c" .
  show ?case
  proof (cases "P c")
    case True
    obtain w' where w': "EndCombat e r (PurgeReference me g p w) = Some w'" "cw_inv w'"
        "the_map p w' me = om_erase g (the_map p w me)"
      using EndCombat_entry [OF "2.prems"(1) g(2), of e] by metis
    have "entries_of p me m w'" using g(1,3) by (force simp: entries_of_def w'(3))
    with "2.IH"(1) [OF c True w'(1,2)] c True w' show ?thesis by simp
  next
    case False
    with "2.IH"(2) [OF c False] "2.prems" g c show ?thesis by simp
  qed
qed simp

lemma Update_loop_inv:
  "cw_inv w \<Longrightarrow> entries_of True me m w \<Longrightarrow> \<exists>w'. Update_loop e t me m w = Some w' \<and> cw_inv w'"
proof (induction e t me m w rule: Update_loop.induct)
  case (2 e t me g r m w)
  have g: "g \<notin> fst ` set m" "om_find g (the_map True w me) = Some r" "entries_of True me m w"
    using "2.prems"(2) by (simp_all add: entries_of_Cons)
  have i: "cw_links w" "cw_flags {} w" "cw_threats w" using "2.prems" by (simp_all add: cw_inv_def)
  from links_entry [OF i(1) g(2)] obtain c where c: "cw_refs w r = Some c" .
  consider "cr_first c \<noteq> me" | "cr_first c = me" "cr_combatTimer c \<le> t" | "cr_first c = me" "t < cr_combatTimer c"
    by linarith
  then show ?case
  proof cases
    case 1
    with "2.IH"(3) [OF c 1] "2.prems" g c show ?thesis by simp
  next
    case 2
    obtain w' where w': "EndCombat e r (PurgeReference me g True w) = Some w'" "cw_inv w'"
        "the_map True w' me = om_erase g (the_map True w me)"
      using EndCombat_entry [OF "2.prems"(1) g(2), of e] by metis
    have "entries_of True me m w'" using g(1,3) by (force simp: entries_of_def w'(3))
    with "2.IH"(1) [OF c 2 w'(1,2)] c 2 w' show ?thesis by simp
  next
    case 3
    define w' where "w' = set_ref r (c\<lparr>cr_combatTimer := cr_combatTimer c - t\<rparr>) w"
    have "cw_links w'" unfolding w'_def by (rule set_ref_links [OF i(1) c]) simp_all
    moreover have "engaged x w' = engaged x w" for x
      unfolding w'_def by (rule set_ref_engaged [OF i(1) c]) (simp add: IsSuppressedFor_def)
    ultimately have "cw_inv w'" using i by (simp add: cw_inv_def cw_flags_def w'_def set_ref_threats)
    moreover have "entries_of True me m w'" using g(3) by (simp add: entries_of_def w'_def)
    ultimately show ?thesis using "2.IH"(2) [OF c 3(1)] 3 c by (simp add: w'_def)
  qed
qed simp

lemma suppress_all_inv:
  "cw_links w \<Longrightarrow> cw_flags {me} w \<Longrightarrow> cw_threats w \<Longrightarrow> entries_of True me m w \<Longrightarrow>
   \<exists>w'. suppress_all me m w = Some w' \<and> cw_links w' \<and> cw_flags {me} w' \<and> cw_threats w'"
proof (induction me m w rule: suppress_all.induct)
  case (2 me g r m w)
  have g: "om_find g (the_map True w me) = Some r" "entries_of True me m w"
    using "2.prems"(4) by (simp_all add: entries_of_Cons)
  from links_entry [OF "2.prems"(1) g(1)] obtain c where c: "cw_refs w r = Some c" "joins c me g" by metis
  have d: "cr_first c \<noteq> cr_second c" using links_ref(2) [OF "2.prems"(1) c(1)] .
  let ?w = "set_ref r (Suppress me c) w"
  have "cw_links ?w" by (rule set_ref_links [OF "2.prems"(1) c(1)]) (simp_all add: Suppress_def)
  moreover have "engaged x ?w = engaged x w" if "x \<noteq> me" for x
    by (rule set_ref_engaged [OF "2.prems"(1) c(1)]) (use that c(2) d in \<open>auto simp: IsSuppressedFor_def Suppress_def joins_def\<close>)
  then have "cw_flags {me} ?w" using "2.prems"(2) by (simp add: cw_flags_def)
  moreover have "entries_of True me m ?w" using g(2) by (simp add: entries_of_def)
  ultimately show ?case using "2.IH" [of c] c "2.prems"(3) by (simp add: set_ref_threats)
qed simp

lemma SuppressPvPCombat_inv:
  assumes "cw_inv w"
  shows "\<exists>w'. SuppressPvPCombat e me w = Some w' \<and> cw_inv w'"
proof -
  have i: "cw_links w" "cw_flags {} w" "cw_threats w" using assms by (simp_all add: cw_inv_def)
  have "entries_of True me (cw_pvp w me) w" using entries_of_map [OF i(1), of True me] by (simp add: the_map_def)
  from suppress_all_inv [OF i(1) cw_flags_mono [OF i(2)] i(3) this] obtain w1 where w1:
    "suppress_all me (cw_pvp w me) w = Some w1" "cw_links w1" "cw_flags {me} w1" "cw_threats w1" by auto
  obtain n w2 where u: "UpdateOwnerCombatState e me w1 = Some (n, w2)" "same_refs w1 w2" "cw_flags ({me} - {me}) w2"
    using UpdateOwner_flags [OF links_valid [OF w1(2)]] w1(3) by metis
  have "cw_inv w2" using u(3) w1 same_refs_facts(1,3) [OF u(2)] by (simp add: cw_inv_def)
  then have "cw_inv (event (exit_events e n me) w2)"
    using cw_cong [of "event (exit_events e n me) w2" w2] by (simp add: cw_inv_def)
  with w1(1) u(1) show ?thesis by (simp add: SuppressPvPCombat_def)
qed

lemma EndAll_loop_inv:
  "cw_inv w \<Longrightarrow> \<exists>w'. EndAll_loop e p me w = Some w' \<and> cw_inv w' \<and> the_map p w' me = [] \<and>
     the_map (\<not> p) w' me = the_map (\<not> p) w me"
proof (induction "length (the_map p w me)" arbitrary: w rule: less_induct)
  case less
  note step = EndAll_loop.simps [of e p me w]
  show ?case
  proof (cases "the_map p w me")
    case Nil
    with less.prems step show ?thesis by (simp add: the_map_def)
  next
    case (Cons x m)
    obtain g r where x: "x = (g, r)" by (cases x)
    then have f: "om_find g (the_map p w me) = Some r" using Cons by simp
    obtain w' where w': "EndCombat e r w = Some w'" "cw_inv w'" "the_map p w' me = om_erase g (the_map p w me)"
        "the_map (\<not> p) w' me = the_map (\<not> p) w me"
      using EndCombat_entry [OF less.prems f, of e] by metis
    have "length (the_map p w' me) < length (the_map p w me)"
      unfolding w'(3) Cons x by (simp add: om_erase_def le_imp_less_Suc)
    with less.hyps [of w'] w'(2,4) obtain w2 where "EndAll_loop e p me w' = Some w2" "cw_inv w2" "the_map p w2 me = []"
        "the_map (\<not> p) w2 me = the_map (\<not> p) w me" by auto
    with step w'(1) Cons x show ?thesis by (simp add: the_map_def split: if_splits)
  qed
qed

lemma EndAllPvECombat_inv:
  assumes "cw_inv w"
  shows "\<exists>w'. EndAllPvECombat e me w = Some w' \<and> cw_inv w' \<and> cw_pve w' me = [] \<and> cw_pvp w' me = cw_pvp w me"
proof -
  let ?w = "w\<lparr>cw_threat := filter (\<lambda>(a, b). b \<noteq> me \<and> a \<noteq> me) (cw_threat w)\<rparr>"
  have "cw_inv ?w" using assms cw_cong(1-3) [of ?w w] cw_cong(5) [of ?w w]
    by (auto simp: cw_inv_def cw_threats_def)
  from EndAll_loop_inv [OF this, of e False me] show ?thesis by (simp add: EndAllPvECombat_def the_map_def)
qed

lemma EndAllPvPCombat_inv:
  assumes "cw_inv w"
  shows "\<exists>w'. EndAllPvPCombat e me w = Some w' \<and> cw_inv w' \<and> cw_pvp w' me = [] \<and> cw_pve w' me = cw_pve w me"
  using EndAll_loop_inv [OF assms, of e True me] by (simp add: EndAllPvPCombat_def the_map_def)

lemma EndCombatBeyondRange_inv: "cw_inv w \<Longrightarrow> \<exists>w'. EndCombatBeyondRange e within b me w = Some w' \<and> cw_inv w'"
proof -
  assume i: "cw_inv w"
  let ?P = "\<lambda>c. \<not> within (cr_first c) (cr_second c)"
  have "entries_of False me (cw_pve w me) w" using i entries_of_map [of w False me] by (simp add: cw_inv_def the_map_def)
  from end_where_inv [OF i this, of e ?P] obtain w1 where w1: "end_where e ?P me False (cw_pve w me) w = Some w1" "cw_inv w1" by blast
  have "entries_of True me (cw_pvp w1 me) w1" using w1 entries_of_map [of w1 True me] by (simp add: cw_inv_def the_map_def)
  from end_where_inv [OF w1(2) this, of e ?P] w1 show ?thesis by (simp add: EndCombatBeyondRange_def)
qed

lemma RevalidateCombat_inv: "cw_inv w \<Longrightarrow> \<exists>w'. RevalidateCombat e me w = Some w' \<and> cw_inv w'"
proof -
  assume i: "cw_inv w"
  let ?P = "\<lambda>c. \<not> CanBeginCombat e me (GetOther c me)"
  have "entries_of False me (cw_pve w me) w" using i entries_of_map [of w False me] by (simp add: cw_inv_def the_map_def)
  from end_where_inv [OF i this, of e ?P] obtain w1 where w1: "end_where e ?P me False (cw_pve w me) w = Some w1" "cw_inv w1" by blast
  have "entries_of True me (cw_pvp w1 me) w1" using w1 entries_of_map [of w1 True me] by (simp add: cw_inv_def the_map_def)
  from end_where_inv [OF w1(2) this, of e ?P] w1 show ?thesis by (simp add: RevalidateCombat_def)
qed

lemma inherit_loop_inv:
  "cw_inv w \<Longrightarrow> entries_of p who m w \<Longrightarrow> \<exists>w'. inherit_loop e p me who m w = Some w' \<and> cw_inv w'"
proof (induction e p me who m w rule: inherit_loop.induct)
  case (2 e p me who g r m w)
  have g: "om_find g (the_map p w who) = Some r" "entries_of p who m w"
    using "2.prems"(2) by (simp_all add: entries_of_Cons)
  have l: "cw_links w" using "2.prems" by (simp add: cw_inv_def)
  from links_entry [OF l g(1)] obtain c where c: "cw_refs w r = Some c" .
  consider "\<not> (p \<or> \<not> IsInCombatWith me g w)" | "p \<or> \<not> IsInCombatWith me g w" "immune_to e me (GetOther c who)"
    | "p \<or> \<not> IsInCombatWith me g w" "\<not> immune_to e me (GetOther c who)" by blast
  then show ?case
  proof cases
    case 1
    with "2.IH"(3) [OF 1 "2.prems"(1) g(2)] show ?thesis by simp
  next
    case 2
    with "2.IH"(1) [OF 2(1) c refl 2(2) "2.prems"(1) g(2)] c show ?thesis by (simp add: Let_def)
  next
    case 3
    obtain b w' where w': "SetInCombatWith e me (GetOther c who) False w = Some (b, w')" "cw_inv w'"
      "\<And>p x y r. om_find y (the_map p w x) = Some r \<Longrightarrow> om_find y (the_map p w' x) = Some r"
      using SetInCombatWith_spec [OF "2.prems"(1), of e me "GetOther c who" False] by blast
    have "entries_of p who m w'" using g(2) w'(3) by (auto simp: entries_of_def)
    with "2.IH"(2) [OF 3(1) c refl 3(2) w'(1) refl w'(2)] c 3 w'(1) show ?thesis by (simp add: Let_def)
  qed
qed simp

lemma InheritCombatStatesFrom_inv: "cw_inv w \<Longrightarrow> \<exists>w'. InheritCombatStatesFrom e me who w = Some w' \<and> cw_inv w'"
proof -
  assume i: "cw_inv w"
  have "entries_of False who (cw_pve w who) w" using i entries_of_map [of w False who] by (simp add: cw_inv_def the_map_def)
  from inherit_loop_inv [OF i this, of e me] obtain w1 where w1: "inherit_loop e False me who (cw_pve w who) w = Some w1" "cw_inv w1" by blast
  have "entries_of True who (cw_pvp w1 who) w1" using w1 entries_of_map [of w1 True who] by (simp add: cw_inv_def the_map_def)
  from inherit_loop_inv [OF w1(2) this, of e me] w1 show ?thesis by (simp add: InheritCombatStatesFrom_def)
qed

section \<open>Properties\<close>

text \<open>The operations as transitions; what units look like may change between any two of them.\<close>

inductive cw_step :: "combat_world \<Rightarrow> combat_world \<Rightarrow> bool" where
  set_in_combat: "SetInCombatWith e me who sp w = Some (b, w') \<Longrightarrow> cw_step w w'"
| end_combat: "cw_refs w r = Some c \<Longrightarrow> EndCombat e r w = Some w' \<Longrightarrow> cw_step w w'"
| suppress_for: "cw_refs w r = Some c \<Longrightarrow> who \<in> {cr_first c, cr_second c} \<Longrightarrow>
    SuppressFor e who r w = Some w' \<Longrightarrow> cw_step w w'"
| update: "CombatManager_Update e t me w = Some w' \<Longrightarrow> cw_step w w'"
| inherit: "InheritCombatStatesFrom e me who w = Some w' \<Longrightarrow> cw_step w w'"
| beyond_range: "EndCombatBeyondRange e within b me w = Some w' \<Longrightarrow> cw_step w w'"
| suppress_pvp: "SuppressPvPCombat e me w = Some w' \<Longrightarrow> cw_step w w'"
| end_pve: "EndAllPvECombat e me w = Some w' \<Longrightarrow> cw_step w w'"
| end_pvp: "EndAllPvPCombat e me w = Some w' \<Longrightarrow> cw_step w w'"
| revalidate: "RevalidateCombat e me w = Some w' \<Longrightarrow> cw_step w w'"
| add_threat: "IsInCombatWith a b w \<Longrightarrow> cw_step w (w\<lparr>cw_threat := (a, b) # cw_threat w\<rparr>)"
| clear_threat: "cw_step w (ClearThreat a b w)"

lemma Update_inv: "cw_inv w \<Longrightarrow> \<exists>w'. CombatManager_Update e t me w = Some w' \<and> cw_inv w'"
proof -
  assume i: "cw_inv w"
  have "entries_of True me (cw_pvp w me) w" using i entries_of_map [of w True me] by (simp add: cw_inv_def the_map_def)
  from Update_loop_inv [OF i this] show ?thesis by (simp add: CombatManager_Update_def)
qed

lemma cw_inv_add_threat: "cw_inv w \<Longrightarrow> IsInCombatWith a b w \<Longrightarrow> cw_inv (w\<lparr>cw_threat := (a, b) # cw_threat w\<rparr>)"
  using cw_cong(1-3) [of "w\<lparr>cw_threat := (a, b) # cw_threat w\<rparr>" w] cw_cong(5) [of "w\<lparr>cw_threat := (a, b) # cw_threat w\<rparr>" w]
  by (auto simp: cw_inv_def cw_threats_def)

lemma cw_inv_clear_threat: "cw_inv w \<Longrightarrow> cw_inv (ClearThreat a b w)"
  using cw_cong(1-3) [of "ClearThreat a b w" w] cw_cong(5) [of "ClearThreat a b w" w]
  by (auto simp: cw_inv_def cw_threats_def)

lemmas operation_invs = Update_inv InheritCombatStatesFrom_inv EndCombatBeyondRange_inv SuppressPvPCombat_inv
  RevalidateCombat_inv

lemma cw_step_inv: "cw_step w w' \<Longrightarrow> cw_inv w \<Longrightarrow> cw_inv w'"
proof (induction rule: cw_step.induct)
  case (set_in_combat e me who sp w b w')
  then show ?case using SetInCombatWith_spec [of w e me who sp] by auto
next
  case (end_combat w r c e w')
  from EndCombat_inv [OF end_combat.prems end_combat.hyps(1), of e] end_combat.hyps(2) show ?case
    by (metis option.inject)
next
  case (suppress_for w r c who e w')
  from SuppressFor_spec [OF suppress_for.prems suppress_for.hyps(1,2), of e] suppress_for.hyps(3) show ?case
    by (metis option.inject)
next
  case (end_pve e me w w')
  then show ?case using EndAllPvECombat_inv [of w e me] by auto
next
  case (end_pvp e me w w')
  then show ?case using EndAllPvPCombat_inv [of w e me] by auto
next
  case (add_threat a b w)
  then show ?case by (simp add: cw_inv_add_threat)
next
  case (clear_threat w a b)
  then show ?case by (rule cw_inv_clear_threat)
qed (use operation_invs in \<open>metis option.inject\<close>)+

lemma cw_inv_new: "cw_inv combat_world_new"
  by (simp add: cw_inv_def cw_links_def cw_flags_def cw_threats_def engaged_def combat_world_new_def the_map_def)

lemma reachable_inv: "cw_step\<^sup>*\<^sup>* combat_world_new w \<Longrightarrow> cw_inv w"
  by (induction rule: rtranclp_induct) (auto intro: cw_inv_new cw_step_inv)

text \<open>Two hostile creatures in an open field, for the witnesses.\<close>

definition field_unit :: unit_view where
  "field_unit = \<lparr>uv_inWorld = True, uv_alive = True, uv_map = 0, uv_phase = PhaseShift_new, uv_evade = False,
     uv_inFlight = False, uv_combatDisallowed = False, uv_ownerGameMaster = False, uv_controlledByPlayer = False,
     uv_flagPlayerControlled = False, uv_immuneToPC = False, uv_immuneToNPC = False, uv_isCreature = True,
     uv_isPlayer = False, uv_hasAI = True, uv_charmerOrOwner = None\<rparr>"

definition field_env :: unit_env where
  "field_env = \<lparr>ue_view = \<lambda>_. field_unit, ue_friendlyTo = \<lambda>_ _. False\<rparr>"

lemma field_combat: "\<exists>w. SetInCombatWith field_env 1 2 False combat_world_new = Some (True, w)"
proof -
  have "CanBeginCombat field_env 1 2"
    by (simp add: CanBeginCombat_def field_env_def field_unit_def PhaseShift_CanSee_def PhaseShift_new_def)
  moreover obtain b w where s: "SetInCombatWith field_env 1 2 False combat_world_new = Some (b, w)" "b = IsInCombatWith 1 2 w"
    using SetInCombatWith_spec [OF cw_inv_new] by metis
  moreover have "SetInCombatWith field_env 1 2 False combat_world_new \<noteq> Some (False, w)"
    using \<open>CanBeginCombat field_env 1 2\<close>
    by (simp add: SetInCombatWith_def combat_world_new_def PutReference_def set_ref_def CombatReference_new_def field_env_def
        field_unit_def UpdateOwnerCombatState_def HasCombat_def HasPvECombat_def HasPvPCombat_def IsSuppressedFor_def
        combat_state_changed_def event_def IsInCombatWith_def Let_def)
  ultimately show ?thesis by (cases b) auto
qed

lemma field_reachable:
  obtains w where "SetInCombatWith field_env 1 2 False combat_world_new = Some (True, w)" "cw_step\<^sup>*\<^sup>* combat_world_new w"
  using field_combat cw_step.set_in_combat by blast

text \<open>
  C1: The contract of the combat manager, after any sequence of its operations: a unit has the combat flag exactly
  when it has a combat reference that is not suppressed for it. A reference found in the manager of \<open>a\<close> joins \<open>a\<close> to another unit, is of the
  kind of the map it was found in and is found in the manager of the other one too; every reference is found at both its ends. Being in
  combat is symmetric and irreflexive. Whoever has threat on a unit is in combat with it, so an end of combat has deleted the threat.
  \<^verbatim>\<open>SetInCombatWith\<close> returns whether the two are in combat afterwards.
\<close>

theorem CombatManager_contract:
  assumes "cw_step\<^sup>*\<^sup>* combat_world_new w"
  shows "(cw_inCombat w a \<longleftrightarrow> (\<exists>p b r c. om_find b (the_map p w a) = Some r \<and> cw_refs w r = Some c \<and> \<not> IsSuppressedFor c a))
    \<and> (om_find b (the_map p w a) = Some r \<longrightarrow> om_find a (the_map p w b) = Some r \<and> (\<exists>c. cw_refs w r = Some c \<and> cr_isPvP c = p \<and>
         a \<noteq> b \<and> (cr_first c = a \<and> cr_second c = b \<or> cr_first c = b \<and> cr_second c = a) \<and> GetOther c a = b))
    \<and> (cw_refs w r = Some c \<longrightarrow> cr_first c \<noteq> cr_second c \<and> om_find (cr_second c) (the_map (cr_isPvP c) w (cr_first c)) = Some r \<and>
         om_find (cr_first c) (the_map (cr_isPvP c) w (cr_second c)) = Some r)
    \<and> (IsInCombatWith a b w \<longleftrightarrow> IsInCombatWith b a w) \<and> \<not> IsInCombatWith a a w
    \<and> ((a, b) \<in> set (cw_threat w) \<longrightarrow> IsInCombatWith a b w)
    \<and> (SetInCombatWith e a b sp w = Some (res, w') \<longrightarrow> res = IsInCombatWith a b w' \<and> res = IsInCombatWith b a w')"
proof -
  note inv = reachable_inv [OF assms]
  have i: "cw_links w" "cw_flags {} w" "cw_threats w" using inv by (simp_all add: cw_inv_def)
  have sym: "IsInCombatWith a b v \<longleftrightarrow> IsInCombatWith b a v" if "cw_links v" for v
    using links_symmetric [OF that] unfolding IsInCombatWith_the_map by metis
  have entry: "\<exists>c. cw_refs w r = Some c \<and> cr_isPvP c = p \<and> joins c a b \<and> a \<noteq> b" if f: "om_find b (the_map p w a) = Some r" for a b p r
  proof -
    from links_entry [OF i(1) f] obtain c where c: "cw_refs w r = Some c" "cr_isPvP c = p" "joins c a b" .
    moreover have "cr_first c \<noteq> cr_second c" using i(1) c(1) by (simp add: cw_links_def)
    ultimately show ?thesis by (auto simp: joins_def)
  qed
  have other: "om_find b (the_map p w a) = Some r \<longrightarrow> om_find a (the_map p w b) = Some r \<and> (\<exists>c. cw_refs w r = Some c \<and> cr_isPvP c = p \<and>
         a \<noteq> b \<and> (cr_first c = a \<and> cr_second c = b \<or> cr_first c = b \<and> cr_second c = a) \<and> GetOther c a = b)"
  proof
    assume f: "om_find b (the_map p w a) = Some r"
    from entry [OF f] obtain c where c: "cw_refs w r = Some c" "cr_isPvP c = p" "joins c a b" "a \<noteq> b" by blast
    then have "(cr_first c = a \<and> cr_second c = b \<or> cr_first c = b \<and> cr_second c = a) \<and> GetOther c a = b" by (auto simp: joins_def GetOther_def)
    with c links_symmetric [OF i(1) f] show "om_find a (the_map p w b) = Some r \<and> (\<exists>c. cw_refs w r = Some c \<and> cr_isPvP c = p \<and>
         a \<noteq> b \<and> (cr_first c = a \<and> cr_second c = b \<or> cr_first c = b \<and> cr_second c = a) \<and> GetOther c a = b)" by blast
  qed
  have irr: "\<not> IsInCombatWith a a w" using entry unfolding IsInCombatWith_the_map by blast
  have set: "SetInCombatWith e a b sp w = Some (res, w') \<longrightarrow> res = IsInCombatWith a b w' \<and> res = IsInCombatWith b a w'"
    using SetInCombatWith_spec [OF inv, of e a b sp] sym [of w'] by (auto simp: cw_inv_def)
  have flag: "cw_inCombat w a \<longleftrightarrow> (\<exists>p b r c. om_find b (the_map p w a) = Some r \<and> cw_refs w r = Some c \<and> \<not> IsSuppressedFor c a)"
    using i(2) by (simp add: cw_flags_def engaged_def)
  have ends: "cw_refs w r = Some c \<longrightarrow> cr_first c \<noteq> cr_second c \<and> om_find (cr_second c) (the_map (cr_isPvP c) w (cr_first c)) = Some r \<and>
         om_find (cr_first c) (the_map (cr_isPvP c) w (cr_second c)) = Some r"
    using i(1) by (simp add: cw_links_def)
  have threat: "(a, b) \<in> set (cw_threat w) \<longrightarrow> IsInCombatWith a b w" using i(3) by (auto simp: cw_threats_def)
  show ?thesis by (intro conjI flag other ends sym [OF i(1)] irr threat set)
qed

lemma CombatManager_contract_witness:
  "\<exists>w. SetInCombatWith field_env 1 2 False combat_world_new = Some (True, w) \<and>
    (cw_inCombat w 2 \<longleftrightarrow> (\<exists>p b r c. om_find b (the_map p w 2) = Some r \<and> cw_refs w r = Some c \<and> \<not> IsSuppressedFor c 2))
    \<and> (IsInCombatWith 2 1 w \<longleftrightarrow> IsInCombatWith 1 2 w) \<and> \<not> IsInCombatWith 2 2 w"
proof (rule field_reachable)
  fix w assume "SetInCombatWith field_env 1 2 False combat_world_new = Some (True, w)" "cw_step\<^sup>*\<^sup>* combat_world_new w"
  then show ?thesis using CombatManager_contract [of w 2 1] by (intro exI [of _ w]) simp
qed

text \<open>
  C26: No operation of the manager dereferences a dead combat reference, violates an assertion or loops for ever:
  from every reachable state each of them returns, for every unit and whatever the units look like.
\<close>

theorem CombatManager_never_stuck:
  assumes "cw_step\<^sup>*\<^sup>* combat_world_new w"
  shows "(\<exists>b w'. SetInCombatWith e me who sp w = Some (b, w')) \<and> (\<exists>w'. CombatManager_Update e t me w = Some w')
    \<and> (\<exists>w'. InheritCombatStatesFrom e me who w = Some w') \<and> (\<exists>w'. EndCombatBeyondRange e within pvp me w = Some w')
    \<and> (\<exists>w'. SuppressPvPCombat e me w = Some w') \<and> (\<exists>w'. RevalidateCombat e me w = Some w')
    \<and> (\<exists>w'. EndAllCombat e me w = Some w')"
proof -
  note i = reachable_inv [OF assms]
  have "\<exists>b w'. SetInCombatWith e me who sp w = Some (b, w')" using SetInCombatWith_spec [OF i] by metis
  moreover have "\<exists>w'. EndAllCombat e me w = Some w'"
    using EndAllPvECombat_inv [OF i, of e me] EndAllPvPCombat_inv [of _ e me] by (auto simp: EndAllCombat_def) blast
  ultimately show ?thesis using operation_invs [OF i] by blast
qed

lemma CombatManager_never_stuck_witness:
  "\<exists>w. SetInCombatWith field_env 1 2 False combat_world_new = Some (True, w) \<and>
    (\<exists>w'. EndAllCombat field_env 2 w = Some w')"
  using CombatManager_never_stuck [where e = field_env and me = 2] field_reachable by metis

text \<open>
  \<^verbatim>\<open>SetInCombatWith\<close> returns whether the two units are in combat with each other afterwards, on both sides.
\<close>

theorem SetInCombatWith_result:
  assumes "cw_step\<^sup>*\<^sup>* combat_world_new w" "SetInCombatWith e me who sp w = Some (b, w')"
  shows "b = IsInCombatWith me who w' \<and> b = IsInCombatWith who me w'
    \<and> (b \<longrightarrow> IsInCombatWith me who w \<or> CanBeginCombat e me who)"
proof -
  obtain b2 w2 where s: "SetInCombatWith e me who sp w = Some (b2, w2)" "cw_inv w2" "b2 = IsInCombatWith me who w2"
      "b2 \<longrightarrow> IsInCombatWith me who w \<or> CanBeginCombat e me who"
    using SetInCombatWith_spec [OF reachable_inv [OF assms(1)], of e me who sp] by blast
  have l: "cw_links w2" using s(2) by (simp add: cw_inv_def)
  have "IsInCombatWith me who w2 = IsInCombatWith who me w2"
    using links_symmetric [OF l] unfolding IsInCombatWith_the_map by metis
  with s assms(2) show ?thesis by simp
qed

lemma SetInCombatWith_result_witness:
  "\<exists>w. SetInCombatWith field_env 1 2 False combat_world_new = Some (True, w) \<and> IsInCombatWith 1 2 w \<and> IsInCombatWith 2 1 w"
  using SetInCombatWith_result [of combat_world_new field_env 1 2 False True] field_reachable by (metis rtranclp.rtrancl_refl)

text \<open>
  Ending all combat of a unit leaves it without references, out of combat, and unknown to every other
  unit's manager and threat list.
\<close>

theorem EndAllCombat_clean:
  assumes "cw_step\<^sup>*\<^sup>* combat_world_new w" "EndAllCombat e me w = Some w'"
  shows "\<not> cw_inCombat w' me \<and> \<not> IsInCombatWith me g w' \<and> \<not> IsInCombatWith g me w'
    \<and> (me, g) \<notin> set (cw_threat w') \<and> (g, me) \<notin> set (cw_threat w')"
proof -
  obtain w1 where w1: "EndAllPvECombat e me w = Some w1" "cw_inv w1" "cw_pve w1 me = []"
    using EndAllPvECombat_inv [OF reachable_inv [OF assms(1)], of e me] by blast
  obtain w2 where w2: "EndAllPvPCombat e me w1 = Some w2" "cw_inv w2" "cw_pvp w2 me = []" "cw_pve w2 me = []"
    using EndAllPvPCombat_inv [OF w1(2), of e me] w1(3) by auto
  have eq: "w' = w2" using assms(2) w1(1) w2(1) by (simp add: EndAllCombat_def)
  have i: "cw_links w2" "cw_flags {} w2" "cw_threats w2" using w2(2) by (simp_all add: cw_inv_def)
  have m: "the_map p w2 me = []" for p using w2(3,4) by (simp add: the_map_def)
  have n: "\<not> IsInCombatWith me g w2" by (simp add: IsInCombatWith_the_map m)
  moreover from n have n': "\<not> IsInCombatWith g me w2"
    using links_symmetric [OF i(1)] unfolding IsInCombatWith_the_map by metis
  moreover have "\<not> engaged me w2" by (simp add: engaged_def m)
  ultimately show ?thesis using i(2,3) by (auto simp: eq cw_flags_def cw_threats_def)
qed

lemma EndAllCombat_clean_witness:
  "\<exists>w w'. SetInCombatWith field_env 1 2 False combat_world_new = Some (True, w) \<and> EndAllCombat field_env 2 w = Some w'
    \<and> \<not> cw_inCombat w' 2 \<and> \<not> IsInCombatWith 2 1 w' \<and> \<not> IsInCombatWith 1 2 w'"
proof -
  obtain w where w: "SetInCombatWith field_env 1 2 False combat_world_new = Some (True, w)" "cw_step\<^sup>*\<^sup>* combat_world_new w"
    by (rule field_reachable)
  obtain w1 where w1: "EndAllPvECombat field_env 2 w = Some w1" "cw_inv w1"
    using EndAllPvECombat_inv [OF reachable_inv [OF w(2)], of field_env 2] by blast
  obtain w' where "EndAllPvPCombat field_env 2 w1 = Some w'" using EndAllPvPCombat_inv [OF w1(2), of field_env 2] by blast
  with w1 have "EndAllCombat field_env 2 w = Some w'" by (simp add: EndAllCombat_def)
  with EndAllCombat_clean [OF w(2) this, of 1] w(1) show ?thesis by blast
qed

end
