(* ===== verification/ThreatManager_Refs.thy ===== *)
theory ThreatManager_Refs
  imports ThreatManager CombatManager_Refs
begin

text \<open>
  The contract at the head of \<^verbatim>\<open>ThreatManager.h\<close>: a threat reference is in exactly three places, the heap
  knows every reference under its current key, the selected victim is available, and threat implies combat.
\<close>

section \<open>What is assumed of floats and of the environment\<close>

text \<open>Laws of IEEE addition and multiplication (rounding is monotone), for numbers.\<close>

definition float_ok :: "('f :: linorder) float_ops \<Rightarrow> bool" where
  "float_ok F \<longleftrightarrow>
     (\<forall>x y a. x \<le> y \<longrightarrow> fl_add F x a \<le> fl_add F y a \<and> fl_add F a x \<le> fl_add F a y) \<and>
     (\<forall>x. fl_add F x (fl_zero F) = x) \<and>
     (\<forall>x y. fl_zero F \<le> x \<longrightarrow> fl_one F \<le> y \<longrightarrow> x \<le> fl_mul F x y) \<and>
     (\<forall>x y. fl_zero F \<le> x \<longrightarrow> fl_zero F \<le> y \<longrightarrow> fl_zero F \<le> fl_mul F x y) \<and>
     (\<forall>x y. fl_zero F \<le> x \<longrightarrow> y \<le> fl_one F \<longrightarrow> fl_mul F x y \<le> x) \<and>
     (\<forall>x y a. fl_zero F \<le> a \<longrightarrow> x \<le> y \<longrightarrow> fl_mul F a x \<le> fl_mul F a y) \<and>
     (\<forall>i j. i \<le> j \<longrightarrow> fl_of_int F i \<le> fl_of_int F j) \<and>
     fl_zero F \<le> fl_one F \<and> fl_one F \<le> fl_w110 F \<and> fl_w110 F \<le> fl_w130 F"

text \<open>The two observations of boost's heap that the code uses.\<close>

definition heap_ok :: "('f :: linorder) threat_env \<Rightarrow> bool" where
  "heap_ok e \<longleftrightarrow>
     (\<forall>h. h \<noteq> [] \<longrightarrow> (\<exists>k. (te_heapTop e h, k) \<in> set h \<and> (\<forall>x \<in> set h. snd x \<le> k))) \<and>
     (\<forall>h. \<exists>h'. mset h' = mset h \<and> sorted_wrt (\<lambda>x y. snd y \<le> snd x) h' \<and> te_heapOrdered e h = map fst h')"

definition env_ok :: "'f threat_env \<Rightarrow> 'f threat_world \<Rightarrow> bool" where
  "env_ok e w \<longleftrightarrow> (\<forall>u. tm_canHaveThreatList (tw_mgr w u) \<longrightarrow> uv_isCreature (ue_view (te_units e) u))"


section \<open>The invariant\<close>

abbreviation entries :: "'f threat_world \<Rightarrow> uguid \<Rightarrow> (uguid, addr) omap" where
  "entries w u \<equiv> tm_myThreatListEntries (tw_mgr w u)"
abbreviation heap_of :: "'f threat_world \<Rightarrow> uguid \<Rightarrow> 'f threat_heap" where
  "heap_of w u \<equiv> tm_sortedThreatList (tw_mgr w u)"
abbreviation tby :: "'f threat_world \<Rightarrow> uguid \<Rightarrow> (uguid, addr) omap" where
  "tby w u \<equiv> tm_threatenedByMe (tw_mgr w u)"
abbreviation cur :: "'f threat_world \<Rightarrow> uguid \<Rightarrow> addr option" where
  "cur w u \<equiv> tm_currentVictimRef (tw_mgr w u)"
abbreviation fixated :: "'f threat_world \<Rightarrow> uguid \<Rightarrow> addr option" where
  "fixated w u \<equiv> tm_fixateRef (tw_mgr w u)"

definition tref_ok :: "('f :: linorder) float_ops \<Rightarrow> 'f threat_world \<Rightarrow> addr \<Rightarrow> 'f threat_ref \<Rightarrow> bool" where
  "tref_ok F w r t \<longleftrightarrow> r < tw_next w \<and>
     om_find (tr_victim t) (entries w (tr_owner t)) = Some r \<and>
     om_find (tr_owner t) (tby w (tr_victim t)) = Some r \<and>
     map_of (heap_of w (tr_owner t)) r = Some (heap_key_of F t) \<and>
     fl_zero F \<le> tr_baseAmount t \<and> tm_canHaveThreatList (tw_mgr w (tr_owner t))"

definition live :: "'f threat_world \<Rightarrow> addr \<Rightarrow> uguid \<Rightarrow> uguid \<Rightarrow> bool" where
  "live w r u g \<longleftrightarrow> (\<exists>t. tw_refs w r = Some t \<and> tr_owner t = u \<and> tr_victim t = g)"

definition mgr_ok :: "'f threat_world \<Rightarrow> uguid \<Rightarrow> bool" where
  "mgr_ok w u \<longleftrightarrow> om_ok (entries w u) \<and> om_ok (tby w u) \<and> distinct (map fst (heap_of w u)) \<and>
     (\<forall>g r. om_find g (entries w u) = Some r \<longrightarrow> live w r u g) \<and>
     (\<forall>g r. om_find g (tby w u) = Some r \<longrightarrow> live w r g u) \<and>
     (\<forall>r. r \<in> fst ` set (heap_of w u) \<longrightarrow> (\<exists>g. live w r u g)) \<and>
     (\<forall>r. fixated w u = Some r \<longrightarrow> (\<exists>g. live w r u g)) \<and>
     (\<forall>r. cur w u = Some r \<longrightarrow> (\<exists>g. live w r u g))"

definition tw_links :: "('f :: linorder) float_ops \<Rightarrow> 'f threat_world \<Rightarrow> bool" where
  "tw_links F w \<longleftrightarrow> (\<forall>u. mgr_ok w u) \<and> (\<forall>r t. tw_refs w r = Some t \<longrightarrow> tref_ok F w r t)"

definition victim_available :: "uguid set \<Rightarrow> 'f threat_world \<Rightarrow> bool" where
  "victim_available S w \<longleftrightarrow>
     (\<forall>u r t. u \<notin> S \<longrightarrow> cur w u = Some r \<longrightarrow> tw_refs w r = Some t \<longrightarrow> IsAvailable t)"

definition threat_pairs :: "'f threat_world \<Rightarrow> bool" where
  "threat_pairs w \<longleftrightarrow> (\<forall>a b. (a, b) \<in> set (cw_threat (tw_combat w)) \<longleftrightarrow> om_find b (entries w a) \<noteq> None)"

definition tw_inv :: "uguid set \<Rightarrow> ('f :: linorder) float_ops \<Rightarrow> 'f threat_world \<Rightarrow> bool" where
  "tw_inv S F w \<longleftrightarrow> tw_links F w \<and> victim_available S w \<and> threat_pairs w \<and> cw_inv (tw_combat w)"

text \<open>Packets, AI notifications, timers and redirects are no part of it.\<close>

definition core_of :: "'f threat_mgr \<Rightarrow>
    bool \<times> 'f threat_heap \<times> (uguid, addr) omap \<times> addr option \<times> addr option \<times> (uguid, addr) omap" where
  "core_of m = (tm_canHaveThreatList m, tm_sortedThreatList m, tm_myThreatListEntries m, tm_currentVictimRef m,
     tm_fixateRef m, tm_threatenedByMe m)"

definition same_core :: "'f threat_world \<Rightarrow> 'f threat_world \<Rightarrow> bool" where
  "same_core w w' \<longleftrightarrow> tw_combat w' = tw_combat w \<and> tw_refs w' = tw_refs w \<and> tw_next w' = tw_next w \<and>
     (\<forall>u. core_of (tw_mgr w' u) = core_of (tw_mgr w u))"

lemma core_of_fields:
  assumes "core_of m' = core_of m"
  shows "tm_myThreatListEntries m' = tm_myThreatListEntries m" "tm_sortedThreatList m' = tm_sortedThreatList m"
    "tm_threatenedByMe m' = tm_threatenedByMe m" "tm_currentVictimRef m' = tm_currentVictimRef m"
    "tm_fixateRef m' = tm_fixateRef m" "tm_canHaveThreatList m' = tm_canHaveThreatList m"
  using assms by (simp_all add: core_of_def)

lemma same_core_facts:
  assumes "same_core w w'"
  shows "entries w' u = entries w u" "heap_of w' u = heap_of w u" "tby w' u = tby w u" "cur w' u = cur w u"
    "fixated w' u = fixated w u" "tm_canHaveThreatList (tw_mgr w' u) = tm_canHaveThreatList (tw_mgr w u)"
    "tw_refs w' = tw_refs w" "tw_next w' = tw_next w" "tw_combat w' = tw_combat w"
  using assms core_of_fields [of "tw_mgr w' u" "tw_mgr w u"] by (simp_all add: same_core_def)

lemma same_core_inv:
  assumes "same_core w w'"
  shows "tw_inv S F w' = tw_inv S F w" "env_ok e w' = env_ok e w"
  by (simp_all add: tw_inv_def tw_links_def mgr_ok_def tref_ok_def live_def victim_available_def threat_pairs_def
      env_ok_def same_core_facts [OF assms])

lemma same_core_refl [simp]: "same_core w w"
  by (simp add: same_core_def)

lemma same_core_trans: "same_core w w' \<Longrightarrow> same_core w' w'' \<Longrightarrow> same_core w w''"
  by (simp add: same_core_def)

lemma same_core_steps [simp]:
  "same_core w (log_threat es w)"
  "same_core w (need_client_update u w)"
  "same_core w (upd_mgr u (\<lambda>m. m\<lparr>tm_needClientUpdate := b\<rparr>) w)"
  "same_core w (upd_mgr u (\<lambda>m. m\<lparr>tm_needsAIUpdate := f m\<rparr>) w)"
  "same_core w (upd_mgr u (\<lambda>m. m\<lparr>tm_updateTimer := g m\<rparr>) w)"
  "same_core w (upd_mgr u (\<lambda>m. m\<lparr>tm_redirectInfo := h m\<rparr>) w)"
  "same_core w (upd_mgr u (\<lambda>m. m\<lparr>tm_redirectRegistry := k m\<rparr>) w)"
  by (simp_all add: same_core_def log_threat_def need_client_update_def upd_mgr_def core_of_def)


lemma tw_invD:
  assumes "tw_inv S F w" "tw_refs w r = Some t"
  shows "r < tw_next w" "om_find (tr_victim t) (entries w (tr_owner t)) = Some r"
    "om_find (tr_owner t) (tby w (tr_victim t)) = Some r"
    "map_of (heap_of w (tr_owner t)) r = Some (heap_key_of F t)" "fl_zero F \<le> tr_baseAmount t"
    "tm_canHaveThreatList (tw_mgr w (tr_owner t))"
  using assms by (auto simp: tw_inv_def tw_links_def tref_ok_def)

lemma tw_inv_mgr: "tw_inv S F w \<Longrightarrow> mgr_ok w u"
  by (simp add: tw_inv_def tw_links_def)

lemma entry_live: "tw_inv S F w \<Longrightarrow> om_find g (entries w u) = Some r \<Longrightarrow> live w r u g"
  using tw_inv_mgr [of S F w u] by (simp add: mgr_ok_def)

lemma tby_live: "tw_inv S F w \<Longrightarrow> om_find g (tby w u) = Some r \<Longrightarrow> live w r g u"
  using tw_inv_mgr [of S F w u] by (simp add: mgr_ok_def)

lemma liveE:
  assumes "live w r u g"
  obtains t where "tw_refs w r = Some t" "tr_owner t = u" "tr_victim t = g"
  using assms by (auto simp: live_def)

section \<open>Telling the heap a new key\<close>

definition retell :: "('f :: linorder) float_ops \<Rightarrow> addr \<Rightarrow> 'f threat_ref \<Rightarrow> 'f threat_world \<Rightarrow> 'f threat_world" where
  "retell F r t w = upd_mgr (tr_owner t)
     (\<lambda>m. m\<lparr>tm_sortedThreatList := heap_told r (heap_key_of F t) (tm_sortedThreatList m)\<rparr>) (set_tref r t w)"

lemma retell_fields [simp]:
  "entries (retell F r t w) u = entries w u" "tby (retell F r t w) u = tby w u" "cur (retell F r t w) u = cur w u"
  "fixated (retell F r t w) u = fixated w u" "tw_combat (retell F r t w) = tw_combat w" "tw_next (retell F r t w) = tw_next w"
  "tm_canHaveThreatList (tw_mgr (retell F r t w) u) = tm_canHaveThreatList (tw_mgr w u)"
  "tw_refs (retell F r t w) = (tw_refs w)(r \<mapsto> t)"
  "heap_of (retell F r t w) u = (if u = tr_owner t then heap_told r (heap_key_of F t) (heap_of w u) else heap_of w u)"
  by (simp_all add: retell_def upd_mgr_def set_tref_def)

lemma retell_env [simp]: "env_ok e (retell F r t w) = env_ok e w"
  by (simp add: env_ok_def)

lemma heap_told_keys [simp]: "map fst (heap_told r k h) = map fst h"
  by (induction h) (auto simp: heap_told_def)

lemma heap_told_set [simp]: "fst ` set (heap_told r k h) = fst ` set h"
  using heap_told_keys [of r k h] by (metis set_map)

lemma heap_told_lookup:
  "map_of (heap_told r k h) a = (if a = r \<and> map_of h a \<noteq> None then Some k else map_of h a)"
  by (induction h) (auto simp: heap_told_def)

lemma live_retell:
  "tw_refs w r = Some t \<Longrightarrow> tr_owner t' = tr_owner t \<Longrightarrow> tr_victim t' = tr_victim t \<Longrightarrow>
    live (retell F r t' w) a u g = live w a u g"
  by (auto simp: live_def)

lemma retell_inv:
  assumes i: "tw_inv S F w" and t: "tw_refs w r = Some t" "tr_owner t' = tr_owner t" "tr_victim t' = tr_victim t"
    and b: "fl_zero F \<le> tr_baseAmount t'"
    and v: "tr_owner t \<notin> S \<Longrightarrow> cur w (tr_owner t) = Some r \<Longrightarrow> IsAvailable t'"
  shows "tw_inv S F (retell F r t' w)"
proof -
  note l = live_retell [OF t, of F]
  have m: "mgr_ok (retell F r t' w) u" for u
    using tw_inv_mgr [OF i, of u] by (cases "u = tr_owner t'") (simp_all add: mgr_ok_def l)
  have "tref_ok F (retell F r t' w) a x" if "tw_refs (retell F r t' w) a = Some x" for a x
  proof (cases "a = r")
    case True
    then show ?thesis using that tw_invD [OF i t(1)] t b by (simp add: tref_ok_def heap_told_lookup)
  next
    case False
    then show ?thesis using that tw_invD [OF i, of a x]
      by (cases "tr_owner x = tr_owner t'") (simp_all add: tref_ok_def heap_told_lookup)
  qed
  with m have k: "tw_links F (retell F r t' w)" by (simp add: tw_links_def)
  have "victim_available S (retell F r t' w)"
    unfolding victim_available_def
  proof (intro allI impI)
    fix u a x
    assume u: "u \<notin> S" and a: "cur (retell F r t' w) u = Some a" and x: "tw_refs (retell F r t' w) a = Some x"
    show "IsAvailable x"
    proof (cases "a = r")
      case True
      have "tr_owner t = u" using a t(1) tw_inv_mgr [OF i, of u] by (auto simp: mgr_ok_def live_def True)
      then show ?thesis using a u x v True by simp
    next
      case False
      then show ?thesis using i a u x by (simp add: tw_inv_def victim_available_def)
    qed
  qed
  with k i show ?thesis by (simp add: tw_inv_def threat_pairs_def)
qed

lemma notify_set:
  assumes i: "tw_inv S F w" and t: "tw_refs w r = Some t" "tr_owner t' = tr_owner t"
  shows "heap_key_of F t \<le> heap_key_of F t' \<Longrightarrow> HeapNotifyIncreased F r (set_tref r t' w) = Some (retell F r t' w)"
    "heap_key_of F t' \<le> heap_key_of F t \<Longrightarrow> HeapNotifyDecreased F r (set_tref r t' w) = Some (retell F r t' w)"
  using tw_invD(4) [OF i t(1)] t
  by (simp_all add: HeapNotifyIncreased_def HeapNotifyDecreased_def set_tref_def retell_def upd_mgr_def)

section \<open>Operations on one reference\<close>

lemma float_okD:
  assumes "float_ok F"
  shows "x \<le> y \<Longrightarrow> fl_add F x a \<le> fl_add F y a" "x \<le> y \<Longrightarrow> fl_add F a x \<le> fl_add F a y"
    "fl_add F x (fl_zero F) = x" "fl_zero F \<le> x \<Longrightarrow> fl_one F \<le> y \<Longrightarrow> x \<le> fl_mul F x y"
    "fl_zero F \<le> x \<Longrightarrow> fl_zero F \<le> y \<Longrightarrow> fl_zero F \<le> fl_mul F x y"
    "fl_zero F \<le> x \<Longrightarrow> y \<le> fl_one F \<Longrightarrow> fl_mul F x y \<le> x"
    "fl_zero F \<le> a \<Longrightarrow> x \<le> y \<Longrightarrow> fl_mul F a x \<le> fl_mul F a y"
    "i \<le> j \<Longrightarrow> fl_of_int F i \<le> fl_of_int F j"
    "fl_zero F \<le> fl_one F" "fl_one F \<le> fl_w110 F" "fl_w110 F \<le> fl_w130 F"
  using assms by (simp_all add: float_ok_def)

lemma GetThreat_mono:
  "float_ok F \<Longrightarrow> tr_baseAmount t \<le> tr_baseAmount t' \<Longrightarrow> tr_tempModifier t = tr_tempModifier t' \<Longrightarrow>
    GetThreat F t \<le> GetThreat F t'"
  using float_okD(1) [of F "tr_baseAmount t" "tr_baseAmount t'" "fl_of_int F (tr_tempModifier t)"]
  by (auto simp: GetThreat_def le_max_iff_disj)

lemma key_mono:
  assumes "float_ok F" "tr_baseAmount t \<le> tr_baseAmount t'" "tr_tempModifier t = tr_tempModifier t'"
    "tr_online t = tr_online t'" "tr_taunted t = tr_taunted t'"
  shows "heap_key_of F t \<le> heap_key_of F t'"
  using GetThreat_mono [OF assms(1-3)] assms(4,5) by (simp add: heap_key_of_def)

lemma float_add_up:
  assumes "float_ok F" "fl_zero F < a"
  shows "x \<le> max (fl_add F x a) (fl_zero F)"
  using float_okD(2) [OF assms(1), of "fl_zero F" a x] float_okD(3) [OF assms(1), of x] assms(2)
  by (simp add: le_max_iff_disj)

lemma float_add_down:
  assumes "float_ok F" "fl_zero F \<le> x" "a < fl_zero F"
  shows "max (fl_add F x a) (fl_zero F) \<le> x"
  using float_okD(2) [OF assms(1), of a "fl_zero F" x] float_okD(3) [OF assms(1), of x] assms(2,3)
  by simp

text \<open>The same references in the same places; only what they say differs.\<close>

definition same_places :: "'f threat_world \<Rightarrow> 'f threat_world \<Rightarrow> bool" where
  "same_places w w' \<longleftrightarrow> (\<forall>u. entries w' u = entries w u \<and> tby w' u = tby w u \<and> cur w' u = cur w u \<and>
     fixated w' u = fixated w u \<and> tm_canHaveThreatList (tw_mgr w' u) = tm_canHaveThreatList (tw_mgr w u) \<and>
     map fst (heap_of w' u) = map fst (heap_of w u)) \<and>
     tw_combat w' = tw_combat w \<and> tw_next w' = tw_next w \<and> dom (tw_refs w') = dom (tw_refs w)"

lemma same_places_refl [simp]: "same_places w w"
  by (simp add: same_places_def)

lemma same_places_trans: "same_places w w' \<Longrightarrow> same_places w' w'' \<Longrightarrow> same_places w w''"
  by (simp add: same_places_def)

lemma same_core_places: "same_core w w' \<Longrightarrow> same_places w w'"
  using same_core_facts [of w w'] by (simp add: same_places_def)

lemma same_places_retell: "tw_refs w r = Some t \<Longrightarrow> same_places w (retell F r t' w)"
  by (auto simp: same_places_def)

lemma same_places_env: "same_places w w' \<Longrightarrow> env_ok e w' = env_ok e w"
  by (simp add: same_places_def env_ok_def)


definition keeps :: "uguid set \<Rightarrow> ('f :: linorder) float_ops \<Rightarrow> 'f threat_world \<Rightarrow> 'f threat_world \<Rightarrow> bool" where
  "keeps S F w w' \<longleftrightarrow> tw_inv S F w' \<and> same_places w w'"

lemma keeps_refl: "tw_inv S F w \<Longrightarrow> keeps S F w w"
  by (simp add: keeps_def)

lemma keeps_trans: "keeps S F w w' \<Longrightarrow> keeps S F w' w'' \<Longrightarrow> keeps S F w w''"
  by (auto simp: keeps_def intro: same_places_trans)

lemma keeps_core: "keeps S F w w' \<Longrightarrow> same_core w' w'' \<Longrightarrow> keeps S F w w''"
  by (auto simp: keeps_def same_core_inv intro: same_places_trans same_core_places)

lemma keeps_retell:
  assumes "tw_inv S F w" "tw_refs w r = Some t" "tr_owner t' = tr_owner t" "tr_victim t' = tr_victim t"
    "fl_zero F \<le> tr_baseAmount t'" "tr_owner t \<notin> S \<Longrightarrow> cur w (tr_owner t) = Some r \<Longrightarrow> IsAvailable t'"
  shows "keeps S F w (retell F r t' w)"
  using retell_inv [OF assms] same_places_retell [OF assms(2)] by (simp add: keeps_def)

lemma inv_available:
  "tw_inv S F w \<Longrightarrow> tw_refs w r = Some t \<Longrightarrow> tr_owner t \<notin> S \<Longrightarrow> cur w (tr_owner t) = Some r \<Longrightarrow> IsAvailable t"
  by (auto simp: tw_inv_def victim_available_def)

lemma keeps_retell_same_online:
  assumes "tw_inv S F w" "tw_refs w r = Some t" "tr_owner t' = tr_owner t" "tr_victim t' = tr_victim t"
    "fl_zero F \<le> tr_baseAmount t'" "IsAvailable t \<Longrightarrow> IsAvailable t'"
  shows "keeps S F w (retell F r t' w)"
  using assms(5,6) inv_available [OF assms(1,2)] by (intro keeps_retell [OF assms(1-4)]) auto

lemmas option_step = Option.bind_eq_Some_conv map_option_case Let_def

lemma AddThreat_ref_ok:
  assumes f: "float_ok F" and i: "tw_inv S F w" and t: "tw_refs w r = Some t"
  shows "\<exists>w'. ThreatReference_AddThreat F r amount w = Some w' \<and> keeps S F w w'"
proof (cases amount "fl_zero F" rule: linorder_cases)
  case equal
  then show ?thesis using t keeps_refl [OF i] by (simp add: ThreatReference_AddThreat_def)
next
  case less
  let ?t = "t\<lparr>tr_baseAmount := max (fl_add F (tr_baseAmount t) amount) (fl_zero F)\<rparr>"
  have "heap_key_of F ?t \<le> heap_key_of F t"
    using float_add_down [OF f tw_invD(5) [OF i t] less] by (intro key_mono [OF f]) simp_all
  then have n: "HeapNotifyDecreased F r (set_tref r ?t w) = Some (retell F r ?t w)"
    by (intro notify_set [OF i t]) simp_all
  have "keeps S F w (retell F r ?t w)" by (rule keeps_retell_same_online [OF i t]) (simp_all add: IsAvailable_def)
  with n t less keeps_core [of S F w] show ?thesis by (auto simp: ThreatReference_AddThreat_def Let_def)
next
  case greater
  let ?t = "t\<lparr>tr_baseAmount := max (fl_add F (tr_baseAmount t) amount) (fl_zero F)\<rparr>"
  have "heap_key_of F t \<le> heap_key_of F ?t"
    using float_add_up [OF f greater] by (intro key_mono [OF f]) simp_all
  then have n: "HeapNotifyIncreased F r (set_tref r ?t w) = Some (retell F r ?t w)"
    by (intro notify_set [OF i t]) simp_all
  have "keeps S F w (retell F r ?t w)" by (rule keeps_retell_same_online [OF i t]) (simp_all add: IsAvailable_def)
  with n t greater keeps_core [of S F w] show ?thesis by (auto simp: ThreatReference_AddThreat_def Let_def)
qed

lemma ScaleThreat_ref_ok:
  assumes f: "float_ok F" and i: "tw_inv S F w" and t: "tw_refs w r = Some t" and a: "fl_zero F \<le> factor"
  shows "\<exists>w'. ThreatReference_ScaleThreat F r factor w = Some w' \<and> keeps S F w w'"
proof -
  let ?t = "t\<lparr>tr_baseAmount := fl_mul F (tr_baseAmount t) factor\<rparr>"
  note b = tw_invD(5) [OF i t]
  have k: "keeps S F w (retell F r ?t w)"
    using float_okD(5) [OF f b a] by (intro keeps_retell_same_online [OF i t]) (simp_all add: IsAvailable_def)
  show ?thesis
  proof (cases factor "fl_one F" rule: linorder_cases)
    case equal
    then show ?thesis using t keeps_refl [OF i] by (simp add: ThreatReference_ScaleThreat_def)
  next
    case less
    have "heap_key_of F ?t \<le> heap_key_of F t"
      using float_okD(6) [OF f b] less by (intro key_mono [OF f]) simp_all
    then have "HeapNotifyDecreased F r (set_tref r ?t w) = Some (retell F r ?t w)"
      by (intro notify_set [OF i t]) simp_all
    with k t less keeps_core [of S F w] show ?thesis by (auto simp: ThreatReference_ScaleThreat_def Let_def)
  next
    case greater
    have "heap_key_of F t \<le> heap_key_of F ?t"
      using float_okD(4) [OF f b] greater by (intro key_mono [OF f]) simp_all
    then have "HeapNotifyIncreased F r (set_tref r ?t w) = Some (retell F r ?t w)"
      by (intro notify_set [OF i t]) simp_all
    with k t greater keeps_core [of S F w] show ?thesis by (auto simp: ThreatReference_ScaleThreat_def Let_def)
  qed
qed

lemma set_online_key:
  "tr_online t \<le> o' \<Longrightarrow> o' \<noteq> tr_online t \<Longrightarrow> heap_key_of F t \<le> heap_key_of F (t\<lparr>tr_online := o'\<rparr>)"
  "o' \<le> tr_online t \<Longrightarrow> o' \<noteq> tr_online t \<Longrightarrow> heap_key_of F (t\<lparr>tr_online := o'\<rparr>) \<le> heap_key_of F t"
  by (auto simp: heap_key_of_def)

lemma set_taunted_key:
  "tr_taunted t \<le> s \<Longrightarrow> s \<noteq> tr_taunted t \<Longrightarrow> heap_key_of F t \<le> heap_key_of F (t\<lparr>tr_taunted := s\<rparr>)"
  "s < tr_taunted t \<Longrightarrow> heap_key_of F (t\<lparr>tr_taunted := s\<rparr>) \<le> heap_key_of F t"
  by (auto simp: heap_key_of_def)

lemma UpdateTauntState_ok:
  assumes i: "tw_inv S F w" and t: "tw_refs w r = Some t"
  shows "\<exists>w'. UpdateTauntState e F r state w = Some w' \<and> keeps S F w w'"
proof -
  define s where "s = (if state < TAUNT_STATE_TAUNT \<and> te_isDetauntedBy e (tr_victim t) (tr_owner t)
                    then TAUNT_STATE_DETAUNT else state)"
  let ?t = "t\<lparr>tr_taunted := s\<rparr>"
  have k: "keeps S F w (retell F r ?t w)"
    using tw_invD(5) [OF i t] by (intro keeps_retell_same_online [OF i t]) (simp_all add: IsAvailable_def)
  consider "s = tr_taunted t" | "s < tr_taunted t" | "s \<noteq> tr_taunted t" "tr_taunted t \<le> s" by fastforce
  then show ?thesis
  proof cases
    case 1
    then show ?thesis using t keeps_refl [OF i] by (simp add: UpdateTauntState_def s_def [symmetric])
  next
    case 2
    then have "HeapNotifyDecreased F r (set_tref r ?t w) = Some (retell F r ?t w)"
      by (intro notify_set [OF i t] set_taunted_key) simp_all
    with k t 2 keeps_core [of S F w] show ?thesis by (auto simp: UpdateTauntState_def s_def [symmetric] Let_def)
  next
    case 3
    then have "HeapNotifyIncreased F r (set_tref r ?t w) = Some (retell F r ?t w)"
      by (intro notify_set [OF i t] set_taunted_key) simp_all
    with k t 3 keeps_core [of S F w] show ?thesis by (auto simp: UpdateTauntState_def s_def [symmetric] Let_def)
  qed
qed


lemma EvaluateSuppressed_ref_ok:
  assumes i: "tw_inv S F w" and t: "tw_refs w r = Some t"
  shows "\<exists>w'. EvaluateSuppressed_ref e F canExpire r w = Some w' \<and> keeps S F w w'"
proof -
  have k: "keeps S F w (retell F r (t\<lparr>tr_online := o'\<rparr>) w)" if "o' \<noteq> ONLINE_STATE_OFFLINE" for o'
    using tw_invD(5) [OF i t] that
    by (intro keeps_retell_same_online [OF i t]) (cases o'; simp add: IsAvailable_def less_online_state_def)+
  consider "IsOnline t \<and> ShouldBeSuppressed e t"
    | "\<not> (IsOnline t \<and> ShouldBeSuppressed e t)" "canExpire \<and> IsSuppressed t \<and> \<not> ShouldBeSuppressed e t"
    | "\<not> (IsOnline t \<and> ShouldBeSuppressed e t)" "\<not> (canExpire \<and> IsSuppressed t \<and> \<not> ShouldBeSuppressed e t)"
    by blast
  then show ?thesis
  proof cases
    case 1
    then have "tr_online t = ONLINE_STATE_ONLINE"
      by (cases "tr_online t") (simp_all add: IsOnline_def less_eq_online_state_def)
    then have "HeapNotifyDecreased F r (set_tref r (t\<lparr>tr_online := ONLINE_STATE_SUPPRESSED\<rparr>) w) =
        Some (retell F r (t\<lparr>tr_online := ONLINE_STATE_SUPPRESSED\<rparr>) w)"
      by (intro notify_set [OF i t] set_online_key) (simp_all add: less_eq_online_state_def)
    with k 1 t show ?thesis by (simp add: EvaluateSuppressed_ref_def Let_def)
  next
    case 2
    then have "HeapNotifyIncreased F r (set_tref r (t\<lparr>tr_online := ONLINE_STATE_ONLINE\<rparr>) w) =
        Some (retell F r (t\<lparr>tr_online := ONLINE_STATE_ONLINE\<rparr>) w)"
      by (intro notify_set [OF i t] set_online_key) (simp_all add: IsSuppressed_def less_eq_online_state_def)
    with k 2 t show ?thesis by (simp add: EvaluateSuppressed_ref_def Let_def)
  next
    case 3
    with t keeps_refl [OF i] show ?thesis by (auto simp: EvaluateSuppressed_ref_def Let_def)
  qed
qed

lemma keeps_ref:
  assumes "keeps S F w w'" "tw_refs w r = Some t" "tw_inv S F w"
  obtains t' where "tw_refs w' r = Some t'" "tr_owner t' = tr_owner t" "tr_victim t' = tr_victim t"
proof -
  have "om_find (tr_victim t) (entries w' (tr_owner t)) = Some r"
    using assms(1) tw_invD(2) [OF assms(3,2)] by (simp add: keeps_def same_places_def)
  then have "live w' r (tr_owner t) (tr_victim t)" using assms(1) entry_live by (auto simp: keeps_def)
  then show ?thesis using that by (auto simp: live_def)
qed

lemma add_to_existing_ok:
  assumes f: "float_ok F" and i: "tw_inv S F w" and t: "tw_refs w r = Some t"
  shows "\<exists>w'. add_to_existing e F r amount w = Some w' \<and> keeps S F w w'"
proof -
  let ?t = "t\<lparr>tr_online := ONLINE_STATE_ONLINE\<rparr>"
  obtain w1 where w1: "(if tr_online t = ONLINE_STATE_SUPPRESSED \<and> \<not> ShouldBeSuppressed e t
        then HeapNotifyIncreased F r (set_tref r ?t w) else Some w) = Some w1" "keeps S F w w1"
  proof (cases "tr_online t = ONLINE_STATE_SUPPRESSED \<and> \<not> ShouldBeSuppressed e t")
    case True
    then have "HeapNotifyIncreased F r (set_tref r ?t w) = Some (retell F r ?t w)"
      by (intro notify_set [OF i t] set_online_key) (simp_all add: less_eq_online_state_def)
    moreover have "keeps S F w (retell F r ?t w)"
      using tw_invD(5) [OF i t]
      by (intro keeps_retell_same_online [OF i t]) (simp_all add: IsAvailable_def less_online_state_def)
    ultimately show ?thesis using that True by simp
  qed (use that keeps_refl [OF i] in auto)
  obtain t1 where t1: "tw_refs w1 r = Some t1" using keeps_ref [OF w1(2) t i] .
  have i1: "tw_inv S F w1" using w1(2) by (simp add: keeps_def)
  from AddThreat_ref_ok [OF f i1 t1, of amount] w1 t t1 keeps_trans [OF w1(2)] show ?thesis
    by (auto simp: add_to_existing_def)
qed

lemma UpdateOffline_ok:
  assumes i: "tw_inv S F w" and t: "tw_refs w r = Some t"
    and c: "tr_owner t \<in> S \<or> cur w (tr_owner t) \<noteq> Some r"
  shows "\<exists>w' t'. UpdateOffline e F r w = Some w' \<and> keeps S F w w' \<and> tw_refs w' = (tw_refs w)(r \<mapsto> t') \<and>
    IsOffline t' = ShouldBeOffline e t \<and> tr_owner t' = tr_owner t \<and> tr_victim t' = tr_victim t"
proof -
  consider "ShouldBeOffline e t = IsOffline t" | "ShouldBeOffline e t" "\<not> IsOffline t" | "\<not> ShouldBeOffline e t" "IsOffline t"
    by blast
  then show ?thesis
  proof cases
    case 1
    then have "UpdateOffline e F r w = Some w" using t by (simp add: UpdateOffline_def)
    with 1 t keeps_refl [OF i] show ?thesis by (intro exI [of _ w] exI [of _ t]) (simp add: fun_upd_idem)
  next
    case 2
    let ?t = "t\<lparr>tr_online := ONLINE_STATE_OFFLINE\<rparr>"
    have "HeapNotifyDecreased F r (set_tref r ?t w) = Some (retell F r ?t w)"
      using 2 by (intro notify_set [OF i t] set_online_key) (cases "tr_online t"; simp add: IsOffline_def less_eq_online_state_def)+
    moreover have "keeps S F w (retell F r ?t w)"
      using tw_invD(5) [OF i t] c by (intro keeps_retell [OF i t]) simp_all
    ultimately show ?thesis using 2 t keeps_core [of S F w]
      by (intro exI [of _ "log_threat [ThreatRemove (tr_owner t) (tr_victim t)] (retell F r ?t w)"] exI [of _ ?t])
         (simp add: UpdateOffline_def IsOffline_def same_core_facts(7) [OF same_core_steps(1)])
  next
    case 3
    let ?o = "if ShouldBeSuppressed e t then ONLINE_STATE_SUPPRESSED else ONLINE_STATE_ONLINE"
    let ?t = "t\<lparr>tr_online := ?o\<rparr>"
    let ?u = "upd_mgr (tr_owner t) (\<lambda>m. m\<lparr>tm_needsAIUpdate := tm_needsAIUpdate m @ [tr_victim t]\<rparr>)"
    have o: "tr_online t = ONLINE_STATE_OFFLINE"
      using 3 by (cases "tr_online t") (simp_all add: IsOffline_def less_eq_online_state_def)
    have "HeapNotifyIncreased F r (set_tref r ?t w) = Some (retell F r ?t w)"
      using o by (intro notify_set [OF i t] set_online_key) (simp_all add: less_eq_online_state_def)
    moreover have "keeps S F w (retell F r ?t w)"
      using tw_invD(5) [OF i t] c by (intro keeps_retell [OF i t]) simp_all
    ultimately show ?thesis using 3 t keeps_core [of S F w]
      by (intro exI [of _ "?u (retell F r ?t w)"] exI [of _ ?t])
         (simp add: UpdateOffline_def IsOffline_def less_eq_online_state_def same_core_facts(7) [OF same_core_steps(4)])
  qed
qed

section \<open>Loops over the maps\<close>

lemma foldM_keeps:
  assumes op: "\<And>x w. tw_inv S F w \<Longrightarrow> P x w \<Longrightarrow> \<exists>w'. f x w = Some w' \<and> keeps S F w w'"
    and stable: "\<And>x w w'. keeps S F w w' \<Longrightarrow> P x w \<Longrightarrow> P x w'"
  shows "tw_inv S F w \<Longrightarrow> (\<And>x. x \<in> set xs \<Longrightarrow> P x w) \<Longrightarrow> \<exists>w'. foldM_option f xs w = Some w' \<and> keeps S F w w'"
proof (induction xs arbitrary: w)
  case Nil
  then show ?case by (simp add: keeps_refl)
next
  case (Cons x xs)
  obtain w1 where w1: "f x w = Some w1" "keeps S F w w1" using op [OF Cons.prems(1), of x] Cons.prems(2) by auto
  have "tw_inv S F w1" using w1(2) by (simp add: keeps_def)
  moreover have "\<And>y. y \<in> set xs \<Longrightarrow> P y w1" using stable [OF w1(2)] Cons.prems(2) by simp
  ultimately obtain w2 where "foldM_option f xs w1 = Some w2" "keeps S F w1 w2" using Cons.IH by blast
  with w1 keeps_trans [OF w1(2)] show ?case by auto
qed

lemma entries_stable: "keeps S F w w' \<Longrightarrow> om_find g (entries w u) = Some r \<Longrightarrow> om_find g (entries w' u) = Some r"
  by (simp add: keeps_def same_places_def)

lemma tby_stable: "keeps S F w w' \<Longrightarrow> om_find g (tby w u) = Some r \<Longrightarrow> om_find g (tby w' u) = Some r"
  by (simp add: keeps_def same_places_def)

lemma in_entries: "tw_inv S F w \<Longrightarrow> (g, r) \<in> set (entries w u) \<longleftrightarrow> om_find g (entries w u) = Some r"
  using tw_inv_mgr [of S F w u] by (simp add: mgr_ok_def om_find_iff)

lemma in_tby: "tw_inv S F w \<Longrightarrow> (g, r) \<in> set (tby w u) \<longleftrightarrow> om_find g (tby w u) = Some r"
  using tw_inv_mgr [of S F w u] by (simp add: mgr_ok_def om_find_iff)

lemma foldM_entries:
  assumes op: "\<And>g r w t. tw_inv S F w \<Longrightarrow> tw_refs w r = Some t \<Longrightarrow> \<exists>w'. f g r w = Some w' \<and> keeps S F w w'"
    and i: "tw_inv S F w"
  shows "\<exists>w'. foldM_option (\<lambda>(g, r). f g r) (entries w u) w = Some w' \<and> keeps S F w w'"
    "\<exists>w'. foldM_option (\<lambda>(g, r). f g r) (tby w u) w = Some w' \<and> keeps S F w w'"
proof -
  have "\<exists>w'. foldM_option (\<lambda>(g, r). f g r) (entries w u) w = Some w' \<and> keeps S F w w'"
  proof (rule foldM_keeps [where P = "\<lambda>x w. om_find (fst x) (entries w u) = Some (snd x)", OF _ _ i])
    show "\<exists>w'. (case x of (g, r) \<Rightarrow> f g r) v = Some w' \<and> keeps S F v w'"
      if "tw_inv S F v" "om_find (fst x) (entries v u) = Some (snd x)" for x v
      using op [OF that(1)] entry_live [OF that] by (cases x) (auto simp: live_def)
  qed (auto simp: entries_stable in_entries [OF i])
  moreover have "\<exists>w'. foldM_option (\<lambda>(g, r). f g r) (tby w u) w = Some w' \<and> keeps S F w w'"
  proof (rule foldM_keeps [where P = "\<lambda>x w. om_find (fst x) (tby w u) = Some (snd x)", OF _ _ i])
    show "\<exists>w'. (case x of (g, r) \<Rightarrow> f g r) v = Some w' \<and> keeps S F v w'"
      if "tw_inv S F v" "om_find (fst x) (tby v u) = Some (snd x)" for x v
      using op [OF that(1)] tby_live [OF that] by (cases x) (auto simp: live_def)
  qed (auto simp: tby_stable in_tby [OF i])
  ultimately show "\<exists>w'. foldM_option (\<lambda>(g, r). f g r) (entries w u) w = Some w' \<and> keeps S F w w'"
    "\<exists>w'. foldM_option (\<lambda>(g, r). f g r) (tby w u) w = Some w' \<and> keeps S F w w'" .
qed

end
