(* ===== verification/ThreatManager_Select.thy ===== *)
theory ThreatManager_Select
  imports ThreatManager_Refs
begin

text \<open>
  The choice of the victim: \<^verbatim>\<open>ReselectVictim\<close> walks a heap lazily; its specification \<open>victim_rule\<close> only speaks
  of the references, their keys and the 110% and 130% thresholds.
\<close>

section \<open>Bringing every reference up to date\<close>

definition up_to_date :: "'f threat_env \<Rightarrow> uguid \<times> addr \<Rightarrow> 'f threat_world \<Rightarrow> bool" where
  "up_to_date e x w \<longleftrightarrow> (\<exists>t. tw_refs w (snd x) = Some t \<and> IsOffline t = ShouldBeOffline e t)"

lemma ShouldBeOffline_cong:
  "tr_owner t' = tr_owner t \<Longrightarrow> tr_victim t' = tr_victim t \<Longrightarrow> ShouldBeOffline e t' = ShouldBeOffline e t"
  by (simp add: ShouldBeOffline_def)

lemma update_all_offline:
  "tw_inv {me} F w \<Longrightarrow> (\<And>g r. (g, r) \<in> set xs \<Longrightarrow> om_find g (entries w me) = Some r) \<Longrightarrow>
   \<exists>w'. foldM_option (\<lambda>(g, r). UpdateOffline e F r) xs w = Some w' \<and> keeps {me} F w w' \<and>
     (\<forall>x \<in> set xs. up_to_date e x w') \<and> (\<forall>x. up_to_date e x w \<longrightarrow> up_to_date e x w')"
proof (induction xs arbitrary: w)
  case Nil
  then show ?case by (simp add: keeps_refl)
next
  case (Cons x xs)
  obtain g r where x: "x = (g, r)" by fastforce
  have "live w r me g" using entry_live [OF Cons.prems(1)] Cons.prems(2) by (simp add: x)
  then obtain t where t: "tw_refs w r = Some t" "tr_owner t = me" by (auto simp: live_def)
  obtain w1 t1 where w1: "UpdateOffline e F r w = Some w1" "keeps {me} F w w1" "tw_refs w1 = (tw_refs w)(r \<mapsto> t1)"
      "IsOffline t1 = ShouldBeOffline e t" "tr_owner t1 = tr_owner t" "tr_victim t1 = tr_victim t"
    using UpdateOffline_ok [OF Cons.prems(1) t(1), of e] t(2) by blast
  have u: "up_to_date e y w1" if "snd y = r \<or> up_to_date e y w" for y
    using that w1(3,4) ShouldBeOffline_cong [OF w1(5,6), of e] by (auto simp: up_to_date_def)
  have "tw_inv {me} F w1" using w1(2) by (simp add: keeps_def)
  moreover have "om_find h (entries w1 me) = Some s" if "(h, s) \<in> set xs" for h s
    using entries_stable [OF w1(2)] Cons.prems(2) that by simp
  ultimately obtain w2 where w2: "foldM_option (\<lambda>(g, r). UpdateOffline e F r) xs w1 = Some w2" "keeps {me} F w1 w2"
      "\<forall>y \<in> set xs. up_to_date e y w2" "\<forall>y. up_to_date e y w1 \<longrightarrow> up_to_date e y w2"
    using Cons.IH by blast
  have "up_to_date e x w2" using u [of x] w2(4) x by simp
  with w1(1) w2 u keeps_trans [OF w1(2) w2(2)] show ?case by (auto simp: x)
qed

section \<open>The rule\<close>

definition highest_of :: "('f :: linorder) float_ops \<Rightarrow> 'f threat_world \<Rightarrow> addr set \<Rightarrow> addr \<Rightarrow> bool" where
  "highest_of F w A r \<longleftrightarrow> r \<in> A \<and> (\<forall>a \<in> A. \<forall>t s. tw_refs w a = Some t \<longrightarrow> tw_refs w r = Some s \<longrightarrow>
     heap_key_of F t \<le> heap_key_of F s)"

definition threats_of :: "'f threat_world \<Rightarrow> uguid \<Rightarrow> addr set" where
  "threats_of w me = {r. \<exists>g. om_find g (entries w me) = Some r}"

definition availables :: "'f threat_world \<Rightarrow> uguid \<Rightarrow> addr set" where
  "availables w me = {r \<in> threats_of w me. \<exists>t. tw_refs w r = Some t \<and> IsAvailable t}"

text \<open>Who takes the place of the victim \<open>old\<close>: above 110% of it in melee range, or above 130%.\<close>

definition challengers ::
  "('f :: linorder) threat_env \<Rightarrow> 'f float_ops \<Rightarrow> 'f threat_world \<Rightarrow> uguid \<Rightarrow> addr \<Rightarrow> addr set" where
  "challengers e F w me ov = {r \<in> availables w me. \<exists>t old. tw_refs w r = Some t \<and> tw_refs w ov = Some old \<and>
     ((te_withinMeleeRange e me (tr_victim t) \<and> CompareReferencesLT F old t (fl_w110 F)) \<or>
      CompareReferencesLT F old t (fl_w130 F))}"

definition victim_rule ::
  "('f :: linorder) threat_env \<Rightarrow> 'f float_ops \<Rightarrow> 'f threat_world \<Rightarrow> uguid \<Rightarrow> addr option \<Rightarrow> bool" where
  "victim_rule e F w me v \<longleftrightarrow>
     (if \<exists>r \<in> availables w me. fixated w me = Some r then v = fixated w me
      else if availables w me = {} then v = None
      else if \<exists>r \<in> availables w me. cur w me = Some r
      then (if challengers e F w me (the (cur w me)) = {} then v = cur w me
            else \<exists>r. v = Some r \<and> highest_of F w (challengers e F w me (the (cur w me))) r)
      else \<exists>r. v = Some r \<and> highest_of F w (availables w me) r)"

section \<open>Comparison and keys\<close>

lemma GetThreat_nonneg: "fl_zero F \<le> GetThreat F t"
  by (simp add: GetThreat_def)

lemma breaks_above:
  assumes "float_ok F" "CompareReferencesLT F old t w" "fl_one F \<le> w"
  shows "heap_key_of F old < heap_key_of F t"
proof -
  have "GetThreat F old \<le> fl_mul F (GetThreat F old) w"
    using float_okD(4) [OF assms(1) GetThreat_nonneg assms(3)] .
  with assms(2) show ?thesis by (auto simp: CompareReferencesLT_def heap_key_of_def split: if_splits)
qed

lemma breaks_mono:
  assumes "CompareReferencesLT F old t w" "heap_key_of F t \<le> heap_key_of F s"
  shows "CompareReferencesLT F old s w"
  using assms by (auto simp: CompareReferencesLT_def heap_key_of_def split: if_splits)

lemma breaks_less:
  assumes "float_ok F" "CompareReferencesLT F old t (fl_w130 F)"
  shows "CompareReferencesLT F old t (fl_w110 F)"
proof -
  have "fl_mul F (GetThreat F old) (fl_w110 F) \<le> fl_mul F (GetThreat F old) (fl_w130 F)"
    using float_okD(7) [OF assms(1) GetThreat_nonneg float_okD(11) [OF assms(1)]] .
  with assms(2) show ?thesis by (auto simp: CompareReferencesLT_def split: if_splits)
qed

lemma available_mono:
  "heap_key_of F t \<le> heap_key_of F s \<Longrightarrow> IsAvailable t \<Longrightarrow> IsAvailable s"
  by (auto simp: heap_key_of_def IsAvailable_def)


section \<open>The loop over the sorted list\<close>

definition key_desc :: "('f :: linorder) float_ops \<Rightarrow> (addr \<rightharpoonup> 'f threat_ref) \<Rightarrow> addr \<Rightarrow> addr \<Rightarrow> bool" where
  "key_desc F refs a b \<longleftrightarrow>
     (\<forall>t s. refs a = Some t \<longrightarrow> refs b = Some s \<longrightarrow> heap_key_of F s \<le> heap_key_of F t)"

definition melee_break ::
  "('f :: linorder) threat_env \<Rightarrow> 'f float_ops \<Rightarrow> (addr \<rightharpoonup> 'f threat_ref) \<Rightarrow> uguid \<Rightarrow> 'f threat_ref \<Rightarrow> addr \<Rightarrow> bool" where
  "melee_break e F refs me old r \<longleftrightarrow> (\<exists>t. refs r = Some t \<and> te_withinMeleeRange e me (tr_victim t) \<and>
     CompareReferencesLT F old t (fl_w110 F))"

lemma reselect_loop_spec:
  assumes f: "float_ok F" and ov: "refs ov = Some old"
  shows "\<forall>n \<in> set ns. refs n \<noteq> None \<Longrightarrow> sorted_wrt (key_desc F refs) ns \<Longrightarrow> ov \<in> set ns \<Longrightarrow>
    \<exists>v. reselect_loop e F refs me ov old ns = Some v \<and>
      ((v = ov \<and> (\<forall>r \<in> set ns. \<not> melee_break e F refs me old r)) \<or>
       (v \<in> set ns \<and> melee_break e F refs me old v \<and>
        (\<forall>r \<in> set ns. melee_break e F refs me old r \<longrightarrow> key_desc F refs v r)))"
proof (induction ns)
  case (Cons n ns)
  obtain t where t: "refs n = Some t" using Cons.prems(1) by auto
  have w: "fl_one F \<le> fl_w110 F" using float_okD(10) [OF f] .
  have d: "key_desc F refs n r" if "r \<in> set (n # ns)" for r
    using Cons.prems(2) that by (auto simp: key_desc_def)
  have below: "CompareReferencesLT F old t (fl_w110 F)"
    if "r \<in> set (n # ns)" "melee_break e F refs me old r" for r
    using that(2) d [OF that(1)] t breaks_mono [of F old _ "fl_w110 F" t] by (auto simp: melee_break_def key_desc_def)
  consider "n = ov" | "n \<noteq> ov" "\<not> CompareReferencesLT F old t (fl_w110 F)"
    | "n \<noteq> ov" "CompareReferencesLT F old t (fl_w110 F)" "te_withinMeleeRange e me (tr_victim t)"
    | "n \<noteq> ov" "CompareReferencesLT F old t (fl_w110 F)" "\<not> te_withinMeleeRange e me (tr_victim t)" by blast
  then show ?case
  proof cases
    case 1
    then have "t = old" using t ov by simp
    with below breaks_above [OF f _ w] have "\<forall>r \<in> set (n # ns). \<not> melee_break e F refs me old r" by blast
    with 1 t show ?thesis by simp
  next
    case 2
    with below t show ?thesis by auto
  next
    case 3
    with t d show ?thesis by (auto simp: melee_break_def)
  next
    case 4
    then have "\<not> melee_break e F refs me old n" using t by (simp add: melee_break_def)
    moreover obtain v where "reselect_loop e F refs me ov old ns = Some v"
      "(v = ov \<and> (\<forall>r \<in> set ns. \<not> melee_break e F refs me old r)) \<or>
       (v \<in> set ns \<and> melee_break e F refs me old v \<and>
        (\<forall>r \<in> set ns. melee_break e F refs me old r \<longrightarrow> key_desc F refs v r))"
      using Cons.IH Cons.prems 4(1) by auto
    ultimately show ?thesis using t 4 by auto
  qed
qed simp

section \<open>The heap and the references\<close>

lemma heap_in:
  assumes i: "tw_inv S F w"
  shows "(a, k) \<in> set (heap_of w me) \<longleftrightarrow> (\<exists>t. tw_refs w a = Some t \<and> tr_owner t = me \<and> k = heap_key_of F t)"
proof
  assume k: "(a, k) \<in> set (heap_of w me)"
  have m: "distinct (map fst (heap_of w me))" using tw_inv_mgr [OF i, of me] by (simp add: mgr_ok_def)
  have "a \<in> fst ` set (heap_of w me)" using imageI [OF k, of fst] by simp
  then obtain g where "live w a me g" using tw_inv_mgr [OF i, of me] unfolding mgr_ok_def by blast
  then obtain t where t: "tw_refs w a = Some t" "tr_owner t = me" by (rule liveE)
  have "map_of (heap_of w me) a = Some (heap_key_of F t)" using tw_invD(4) [OF i t(1)] t(2) by simp
  moreover have "map_of (heap_of w me) a = Some k" by (rule map_of_is_SomeI [OF m k])
  ultimately show "\<exists>t. tw_refs w a = Some t \<and> tr_owner t = me \<and> k = heap_key_of F t" using t by auto
next
  assume "\<exists>t. tw_refs w a = Some t \<and> tr_owner t = me \<and> k = heap_key_of F t"
  then obtain t where t: "tw_refs w a = Some t" "tr_owner t = me" "k = heap_key_of F t" by blast
  show "(a, k) \<in> set (heap_of w me)" using map_of_SomeD [OF tw_invD(4) [OF i t(1)]] t(2,3) by simp
qed

lemma threats_of_iff:
  assumes "tw_inv S F w"
  shows "a \<in> threats_of w me \<longleftrightarrow> (\<exists>t. tw_refs w a = Some t \<and> tr_owner t = me)"
  using entry_live [OF assms] tw_invD(2) [OF assms] by (fastforce simp: threats_of_def live_def)

lemma heap_addresses:
  assumes i: "tw_inv S F w"
  shows "fst ` set (heap_of w me) = threats_of w me"
proof (intro equalityI subsetI)
  fix a assume "a \<in> fst ` set (heap_of w me)"
  then obtain k where "(a, k) \<in> set (heap_of w me)" by auto
  then show "a \<in> threats_of w me" unfolding heap_in [OF i] threats_of_iff [OF i] by blast
next
  fix a assume "a \<in> threats_of w me"
  then obtain t where "(a, heap_key_of F t) \<in> set (heap_of w me)" unfolding heap_in [OF i] threats_of_iff [OF i] by blast
  from imageI [OF this, of fst] show "a \<in> fst ` set (heap_of w me)" by simp
qed

lemma ordered_heap:
  assumes h: "heap_ok e" and i: "tw_inv S F w"
  shows "set (te_heapOrdered e (heap_of w me)) = threats_of w me"
    "sorted_wrt (key_desc F (tw_refs w)) (te_heapOrdered e (heap_of w me))"
proof -
  obtain h' where h': "mset h' = mset (heap_of w me)" "sorted_wrt (\<lambda>x y. snd y \<le> snd x) h'"
      "te_heapOrdered e (heap_of w me) = map fst h'"
    using h by (metis heap_ok_def)
  have s: "set h' = set (heap_of w me)" using h'(1) by (metis set_mset_mset)
  then show "set (te_heapOrdered e (heap_of w me)) = threats_of w me"
    using h'(3) heap_addresses [OF i] by simp
  have "sorted_wrt (\<lambda>x y. key_desc F (tw_refs w) (fst x) (fst y)) h'"
  proof (rule sorted_wrt_mono_rel [OF _ h'(2)])
    fix x y assume xy: "x \<in> set h'" "y \<in> set h'" "snd y \<le> snd x"
    obtain a k where x: "x = (a, k)" by (cases x) auto
    obtain b l where y: "y = (b, l)" by (cases y) auto
    show "key_desc F (tw_refs w) (fst x) (fst y)"
      using xy heap_in [OF i, of a k me] heap_in [OF i, of b l me] by (auto simp: x y s key_desc_def)
  qed
  then show "sorted_wrt (key_desc F (tw_refs w)) (te_heapOrdered e (heap_of w me))"
    by (simp add: h'(3) sorted_wrt_map)
qed

lemma top_heap:
  assumes h: "heap_ok e" and i: "tw_inv S F w" and n: "heap_of w me \<noteq> []"
  obtains t where "tw_refs w (te_heapTop e (heap_of w me)) = Some t" "tr_owner t = me"
    "\<And>a s. tw_refs w a = Some s \<Longrightarrow> tr_owner s = me \<Longrightarrow> heap_key_of F s \<le> heap_key_of F t"
proof -
  obtain k where k: "(te_heapTop e (heap_of w me), k) \<in> set (heap_of w me)" "\<forall>x \<in> set (heap_of w me). snd x \<le> k"
    using h n by (metis heap_ok_def)
  obtain t where t: "tw_refs w (te_heapTop e (heap_of w me)) = Some t" "tr_owner t = me" "k = heap_key_of F t"
    using heap_in [OF i] k(1) by blast
  have "heap_key_of F s \<le> heap_key_of F t" if "tw_refs w a = Some s" "tr_owner s = me" for a s
  proof -
    have "(a, heap_key_of F s) \<in> set (heap_of w me)" unfolding heap_in [OF i] using that by blast
    then show ?thesis using bspec [OF k(2)] t(3) by fastforce
  qed
  with t that show ?thesis by blast
qed


section \<open>The choice follows the rule\<close>

lemma is_available_spec:
  assumes i: "tw_inv S F w" and p: "p = fixated w me \<or> p = cur w me"
  shows "is_available_ref (tw_refs w) p = Some (\<exists>r \<in> availables w me. p = Some r)"
proof (cases p)
  case (Some r)
  then obtain g where "live w r me g" using tw_inv_mgr [OF i, of me] p unfolding mgr_ok_def by metis
  then obtain t where t: "tw_refs w r = Some t" "tr_owner t = me" by (rule liveE)
  then have "r \<in> threats_of w me" unfolding threats_of_iff [OF i] by blast
  with t Some show ?thesis by (simp add: is_available_ref_def availables_def)
qed (simp add: is_available_ref_def)

lemma available_ref:
  assumes "tw_inv S F w" "r \<in> availables w me"
  obtains t where "tw_refs w r = Some t" "tr_owner t = me" "IsAvailable t"
  using assms(2) unfolding availables_def threats_of_iff [OF assms(1)] by auto

lemma availableI:
  "tw_inv S F w \<Longrightarrow> tw_refs w r = Some t \<Longrightarrow> tr_owner t = me \<Longrightarrow> IsAvailable t \<Longrightarrow> r \<in> availables w me"
  by (simp add: availables_def threats_of_iff)

lemma challenger_iff:
  assumes f: "float_ok F" and i: "tw_inv S F w" and o: "tw_refs w ov = Some old" "IsAvailable old"
  shows "r \<in> challengers e F w me ov \<longleftrightarrow> (\<exists>t. tw_refs w r = Some t \<and> tr_owner t = me \<and>
     CompareReferencesLT F old t (fl_w110 F) \<and>
     (te_withinMeleeRange e me (tr_victim t) \<or> CompareReferencesLT F old t (fl_w130 F)))"
proof -
  have "IsAvailable t" if "CompareReferencesLT F old t (fl_w110 F)" for t
    by (rule available_mono [OF less_imp_le o(2)]) (rule breaks_above [OF f that float_okD(10) [OF f]])
  then show ?thesis
    using o(1) breaks_less [OF f] unfolding challengers_def availables_def threats_of_iff [OF i] by auto
qed

lemma choose_victim_ok:
  assumes f: "float_ok F" and h: "heap_ok e" and i: "tw_inv S F w" and n: "heap_of w me \<noteq> []"
  shows "\<exists>v. choose_victim e F me w = Some v \<and> victim_rule e F w me v"
proof -
  let ?A = "availables w me" and ?top = "te_heapTop e (heap_of w me)"
  obtain t where t: "tw_refs w ?top = Some t" "tr_owner t = me"
    and top: "\<And>a s. tw_refs w a = Some s \<Longrightarrow> tr_owner s = me \<Longrightarrow> heap_key_of F s \<le> heap_key_of F t"
    using top_heap [OF h i n] by blast
  have fx: "is_available_ref (tw_refs w) (fixated w me) = Some (\<exists>r \<in> ?A. fixated w me = Some r)"
    and cu: "is_available_ref (tw_refs w) (cur w me) = Some (\<exists>r \<in> ?A. cur w me = Some r)"
    using is_available_spec [OF i, of _ me] by blast+
  note defs = choose_victim_def Let_def fx cu t(1)
  have highest: "highest_of F w B ?top" if "?top \<in> B" "B \<subseteq> threats_of w me" for B
    using that t(1) top unfolding highest_of_def threats_of_iff [OF i] subset_eq by fastforce
  show ?thesis
  proof (cases "\<exists>r \<in> ?A. fixated w me = Some r")
    case True
    then show ?thesis by (simp add: defs victim_rule_def)
  next
    case fixed: False
    show ?thesis
    proof (cases "IsAvailable t")
      case False
      have "?A = {}"
      proof (rule ccontr)
        assume "?A \<noteq> {}"
        then obtain r s where s: "tw_refs w r = Some s" "tr_owner s = me" "IsAvailable s"
          using available_ref [OF i] by blast
        with available_mono [OF top [OF s(1,2)] s(3)] False show False by simp
      qed
      with fixed False show ?thesis by (simp add: defs victim_rule_def)
    next
      case True
      then have tA: "?top \<in> ?A" using availableI [OF i t] by blast
      have sub: "?A \<subseteq> threats_of w me" by (auto simp: availables_def)
      show ?thesis
      proof (cases "\<exists>r \<in> ?A. cur w me = Some r")
        case False
        then show ?thesis
          using fixed True tA highest [OF tA sub] by (auto simp: defs victim_rule_def)
      next
        case old: True
        then obtain ov where ov: "ov \<in> ?A" "cur w me = Some ov" by blast
        obtain od where od: "tw_refs w ov = Some od" "tr_owner od = me" "IsAvailable od"
          using available_ref [OF i ov(1)] .
        have fx0: "is_available_ref (tw_refs w) (fixated w me) = Some False" using fx fixed by simp
        have cu1: "is_available_ref (tw_refs w) (Some ov) = Some True" using od by (simp add: is_available_ref_def)
        have eq: "choose_victim e F me w = (if ?top = ov then Some (Some ?top)
            else if \<not> CompareReferencesLT F od t (fl_w110 F) then Some (Some ov)
            else if CompareReferencesLT F od t (fl_w130 F) then Some (Some ?top)
            else if te_withinMeleeRange e me (tr_victim t) then Some (Some ?top)
            else map_option Some (reselect_loop e F (tw_refs w) me ov od (te_heapOrdered e (heap_of w me))))"
          using True by (simp add: choose_victim_def fx0 cu1 ov(2) t(1) od(1))
        note ch = challenger_iff [OF f i od(1,3), of _ e me]
        have csub: "challengers e F w me ov \<subseteq> threats_of w me" by (auto simp: challengers_def availables_def)
        have rule: "victim_rule e F w me v \<longleftrightarrow> (if challengers e F w me ov = {} then v = Some ov
            else \<exists>r. v = Some r \<and> highest_of F w (challengers e F w me ov) r)" for v
          using fixed ov tA by (auto simp: victim_rule_def)
        have all110: "CompareReferencesLT F od t (fl_w110 F)" if "challengers e F w me ov \<noteq> {}"
          using that top breaks_mono unfolding ex_in_conv [symmetric] ch by metis
        consider "?top = ov" | "?top \<noteq> ov" "\<not> CompareReferencesLT F od t (fl_w110 F)"
          | "?top \<noteq> ov" "CompareReferencesLT F od t (fl_w110 F)"
            "CompareReferencesLT F od t (fl_w130 F) \<or> te_withinMeleeRange e me (tr_victim t)"
          | "?top \<noteq> ov" "CompareReferencesLT F od t (fl_w110 F)" "\<not> CompareReferencesLT F od t (fl_w130 F)"
            "\<not> te_withinMeleeRange e me (tr_victim t)" by blast
        then show ?thesis
        proof cases
          case 1
          then have "od = t" using od(1) t(1) by simp
          then have "challengers e F w me ov = {}"
            using all110 breaks_above [OF f _ float_okD(10) [OF f]] by blast
          with 1 show ?thesis by (simp add: eq rule)
        next
          case 2
          with all110 have "challengers e F w me ov = {}" by blast
          with 2 show ?thesis by (simp add: eq rule)
        next
          case 3
          then have "?top \<in> challengers e F w me ov" unfolding ch using t by auto
          with 3 highest [OF this csub] show ?thesis by (auto simp: eq rule)
        next
          case 4
          let ?ns = "te_heapOrdered e (heap_of w me)"
          note oh = ordered_heap [OF h i, of me]
          have no130: "\<not> CompareReferencesLT F od s (fl_w130 F)" if "tw_refs w a = Some s" "tr_owner s = me" for a s
            using breaks_mono [OF _ top [OF that]] 4(3) by blast
          have mb: "r \<in> challengers e F w me ov \<longleftrightarrow> r \<in> set ?ns \<and> melee_break e F (tw_refs w) me od r" for r
            unfolding ch oh(1) threats_of_iff [OF i] melee_break_def using no130 by auto
          have "\<forall>n \<in> set ?ns. tw_refs w n \<noteq> None"
            using threats_of_iff [OF i, of _ me] unfolding oh(1) by (metis option.distinct(1))
          moreover have "ov \<in> set ?ns" using od unfolding oh(1) threats_of_iff [OF i] by blast
          ultimately obtain v where v: "reselect_loop e F (tw_refs w) me ov od ?ns = Some v"
            "(v = ov \<and> (\<forall>r \<in> set ?ns. \<not> melee_break e F (tw_refs w) me od r)) \<or>
             (v \<in> set ?ns \<and> melee_break e F (tw_refs w) me od v \<and>
              (\<forall>r \<in> set ?ns. melee_break e F (tw_refs w) me od r \<longrightarrow> key_desc F (tw_refs w) v r))"
            using reselect_loop_spec [OF f od(1) _ oh(2), of e me] by blast
          have "victim_rule e F w me (Some v)"
            using v(2)
          proof
            assume "v = ov \<and> (\<forall>r \<in> set ?ns. \<not> melee_break e F (tw_refs w) me od r)"
            then show ?thesis unfolding rule using mb by auto
          next
            assume a: "v \<in> set ?ns \<and> melee_break e F (tw_refs w) me od v \<and>
              (\<forall>r \<in> set ?ns. melee_break e F (tw_refs w) me od r \<longrightarrow> key_desc F (tw_refs w) v r)"
            then have "highest_of F w (challengers e F w me ov) v"
              using mb unfolding highest_of_def key_desc_def by blast
            then show ?thesis unfolding rule highest_of_def by auto
          qed
          with 4 v(1) show ?thesis by (simp add: eq)
        qed
      qed
    qed
  qed
qed

lemma victim_rule_available:
  "victim_rule e F w me (Some r) \<Longrightarrow> r \<in> availables w me"
  by (auto simp: victim_rule_def highest_of_def challengers_def split: if_splits)


lemma ReselectVictim_ok:
  assumes f: "float_ok F" and h: "heap_ok e" and i: "tw_inv {me} F w"
  obtains v w' where "ReselectVictim e F me w = Some (v, w')" "keeps {me} F w w'"
    "\<And>g r. om_find g (entries w me) = Some r \<Longrightarrow> up_to_date e (g, r) w'" "victim_rule e F w' me v"
proof (cases "heap_of w me = []")
  case True
  then have "threats_of w me = {}" using heap_addresses [OF i, of me] by simp
  moreover from this have "availables w me = {}" by (simp add: availables_def)
  ultimately show ?thesis
    using that [of None w] keeps_refl [OF i] True by (auto simp: ReselectVictim_def victim_rule_def threats_of_def)
next
  case False
  obtain w1 where w1: "foldM_option (\<lambda>(g, r). UpdateOffline e F r) (entries w me) w = Some w1" "keeps {me} F w w1"
      "\<forall>x \<in> set (entries w me). up_to_date e x w1"
    using update_all_offline [OF i, of "entries w me" e] in_entries [OF i] by blast
  have i1: "tw_inv {me} F w1" using w1(2) by (simp add: keeps_def)
  have "map fst (heap_of w1 me) = map fst (heap_of w me)" using w1(2) by (simp add: keeps_def same_places_def)
  then have "heap_of w1 me \<noteq> []" using False by auto
  then obtain v where v: "choose_victim e F me w1 = Some v" "victim_rule e F w1 me v"
    using choose_victim_ok [OF f h i1] by blast
  have "ReselectVictim e F me w = Some (v, w1)" using False w1(1) v(1) by (simp add: ReselectVictim_def)
  moreover have "up_to_date e (g, r) w1" if "om_find g (entries w me) = Some r" for g r
    using w1(3) that in_entries [OF i] by blast
  ultimately show ?thesis using that w1(2) v(2) by blast
qed

section \<open>Updating the victim\<close>

lemma mapM_total: "(\<And>x. x \<in> set xs \<Longrightarrow> f x \<noteq> None) \<Longrightarrow> \<exists>ys. mapM_option f xs = Some ys"
  by (induction xs) fastforce+

lemma foldM_same_core:
  assumes "\<And>x v. x \<in> set xs \<Longrightarrow> same_core w v \<Longrightarrow> \<exists>v'. f x v = Some v' \<and> same_core v v'"
  shows "same_core w v \<Longrightarrow> \<exists>v'. foldM_option f xs v = Some v' \<and> same_core v v'"
  using assms
proof (induction xs arbitrary: v)
  case (Cons x xs)
  obtain v1 where v1: "f x v = Some v1" "same_core v v1" using Cons.prems by auto
  have "same_core w v1" using same_core_trans [OF Cons.prems(1) v1(2)] .
  then have "\<exists>v2. foldM_option f xs v1 = Some v2 \<and> same_core v1 v2"
    by (rule Cons.IH) (use Cons.prems(2) in auto)
  then obtain v2 where "foldM_option f xs v1 = Some v2" "same_core v1 v2" by blast
  with v1 same_core_trans [OF v1(2)] show ?case by auto
qed simp

lemma ProcessAIUpdates_ok:
  assumes i: "tw_inv S F w" and c: "uv_isCreature (ue_view (te_units e) me)"
  shows "\<exists>w'. ProcessAIUpdates e me w = Some w' \<and> same_core w w'"
proof -
  let ?w = "upd_mgr me (\<lambda>m. m\<lparr>tm_needsAIUpdate := []\<rparr>) w"
  have s: "same_core w ?w" by simp
  let ?f = "\<lambda>guid w. case om_find guid (entries w me) of
                 None \<Rightarrow> Some w
               | Some r \<Rightarrow> map_option (\<lambda>t. log_threat [JustStartedThreateningMe me (tr_victim t)] w) (tw_refs w r)"
  have "\<exists>w'. foldM_option ?f (tm_needsAIUpdate (tw_mgr w me)) ?w = Some w' \<and> same_core ?w w'"
  proof (rule foldM_same_core)
    fix g v assume v: "same_core ?w v"
    then have "same_core w v" using s same_core_trans by blast
    then have "tw_inv S F v" using i by (simp add: same_core_inv)
    then show "\<exists>v'. ?f g v = Some v' \<and> same_core v v'"
      using entry_live [of S F v g me] by (auto simp: live_def split: option.split)
  qed simp
  then obtain w' where w': "foldM_option ?f (tm_needsAIUpdate (tw_mgr w me)) ?w = Some w'" "same_core ?w w'" by blast
  have "ProcessAIUpdates e me w = Some (if uv_hasAI (ue_view (te_units e) me) then w' else ?w)"
    using c w'(1) by (simp add: ProcessAIUpdates_def Let_def)
  with s same_core_trans [OF s w'(2)] show ?thesis by auto
qed

lemma SendThreatListToClients_ok:
  assumes i: "tw_inv S F w" and n: "newHighest \<Longrightarrow> cur w me \<noteq> None"
  shows "\<exists>w'. SendThreatListToClients F newHighest me w = Some w' \<and> same_core w w'"
proof -
  have "tw_refs w (fst x) \<noteq> None" if "x \<in> set (heap_of w me)" for x
    using that heap_in [OF i, of "fst x" "snd x" me] by auto
  then obtain infos where "threat_infos F me w = Some infos"
    using mapM_total [of "heap_of w me" "\<lambda>x. tw_refs w (fst x)"] by (auto simp: threat_infos_def)
  moreover have "\<exists>t. tw_refs w r = Some t" if "cur w me = Some r" for r
    using tw_inv_mgr [OF i, of me] that by (auto simp: mgr_ok_def live_def)
  ultimately show ?thesis using n by (auto simp: SendThreatListToClients_def)
qed

definition similar :: "'f threat_world \<Rightarrow> 'f threat_world \<Rightarrow> bool" where
  "similar w w' \<longleftrightarrow> (\<forall>u. entries w' u = entries w u \<and> tby w' u = tby w u \<and> fixated w' u = fixated w u \<and>
     tm_canHaveThreatList (tw_mgr w' u) = tm_canHaveThreatList (tw_mgr w u)) \<and>
     tw_combat w' = tw_combat w \<and> tw_next w' = tw_next w \<and> dom (tw_refs w') = dom (tw_refs w)"

lemma similar_refl [simp]: "similar w w" by (simp add: similar_def)
lemma similar_trans: "similar w w' \<Longrightarrow> similar w' w'' \<Longrightarrow> similar w w''" by (simp add: similar_def)
lemma same_places_similar: "same_places w w' \<Longrightarrow> similar w w'" by (simp add: same_places_def similar_def)
lemma same_core_similar: "same_core w w' \<Longrightarrow> similar w w'"
  by (simp add: same_places_similar same_core_places)
lemma similar_env: "similar w w' \<Longrightarrow> env_ok e w' = env_ok e w" by (simp add: similar_def env_ok_def)

lemma set_cur_inv:
  assumes i: "tw_inv {me} F w" and v: "\<And>r. v = Some r \<Longrightarrow> r \<in> availables w me"
  shows "tw_inv {} F (upd_mgr me (\<lambda>m. m\<lparr>tm_currentVictimRef := v\<rparr>) w)"
proof -
  let ?w = "upd_mgr me (\<lambda>m. m\<lparr>tm_currentVictimRef := v\<rparr>) w"
  have f: "entries ?w u = entries w u" "tby ?w u = tby w u" "heap_of ?w u = heap_of w u" "fixated ?w u = fixated w u"
    "tm_canHaveThreatList (tw_mgr ?w u) = tm_canHaveThreatList (tw_mgr w u)" "tw_refs ?w = tw_refs w" "tw_next ?w = tw_next w"
    "tw_combat ?w = tw_combat w" "cur ?w u = (if u = me then v else cur w u)" for u
    by (simp_all add: upd_mgr_def)
  have l: "live ?w = live w" by (intro ext) (simp add: live_def f)
  have lv: "\<exists>g. live w r me g" if "v = Some r" for r
    using available_ref [OF i v [OF that]] by (metis live_def)
  have "mgr_ok ?w u" for u
    using tw_inv_mgr [OF i, of u] lv by (auto simp: mgr_ok_def f l)
  moreover have "tref_ok F ?w = tref_ok F w" by (intro ext) (simp add: tref_ok_def f)
  ultimately have k: "tw_links F ?w" using i by (simp add: tw_links_def tw_inv_def f)
  have "IsAvailable t" if "cur ?w u = Some r" "tw_refs w r = Some t" for u r t
    using that i available_ref [OF i v, of r] by (auto simp: f tw_inv_def victim_available_def split: if_splits)
  then have "victim_available {} ?w" by (simp add: victim_available_def f(6))
  with k i show ?thesis by (simp add: tw_inv_def threat_pairs_def f)
qed

lemma UpdateVictim_ok:
  assumes f: "float_ok F" and h: "heap_ok e" and i: "tw_inv {me} F w" and c: "uv_isCreature (ue_view (te_units e) me)"
  obtains v w' w1 where "UpdateVictim e F me w = Some w'" "tw_inv {} F w'" "similar w w'" "cur w' me = v"
    "ReselectVictim e F me w = Some (v, w1)" "victim_rule e F w1 me v" "tw_refs w' = tw_refs w1"
proof -
  obtain v w1 where w1: "ReselectVictim e F me w = Some (v, w1)" "keeps {me} F w w1" "victim_rule e F w1 me v"
    using ReselectVictim_ok [OF f h i] by metis
  have i1: "tw_inv {me} F w1" using w1(2) by (simp add: keeps_def)
  let ?w2 = "upd_mgr me (\<lambda>m. m\<lparr>tm_currentVictimRef := v\<rparr>) w1"
  have i2: "tw_inv {} F ?w2"
    using w1(3) victim_rule_available by (intro set_cur_inv [OF i1]) blast
  have c2: "cur ?w2 me = v" by (simp add: upd_mgr_def)
  define nh where "nh \<longleftrightarrow> v \<noteq> None \<and> v \<noteq> cur w1 me"
  obtain w3 where w3: "SendThreatListToClients F nh me ?w2 = Some w3" "same_core ?w2 w3"
    using SendThreatListToClients_ok [OF i2, of nh me] c2 by (auto simp: nh_def)
  define w4 where "w4 = (if nh \<or> tm_needClientUpdate (tw_mgr ?w2 me)
     then upd_mgr me (\<lambda>m. m\<lparr>tm_needClientUpdate := False\<rparr>) w3 else ?w2)"
  have s4: "same_core ?w2 w4" using w3(2) by (auto simp: w4_def intro: same_core_trans)
  then have i4: "tw_inv {} F w4" using i2 by (simp add: same_core_inv)
  obtain w5 where w5: "ProcessAIUpdates e me w4 = Some w5" "same_core w4 w5"
    using ProcessAIUpdates_ok [OF i4 c] by blast
  have s5: "same_core ?w2 w5" using same_core_trans [OF s4 w5(2)] .
  have "UpdateVictim e F me w = Some w5"
    using w1(1) w3(1) w5(1) by (auto simp: UpdateVictim_def Let_def nh_def w4_def split: if_splits)
  moreover have "tw_inv {} F w5" using i2 s5 by (simp add: same_core_inv)
  moreover have "similar w w5"
  proof -
    have "similar w1 ?w2" by (simp add: similar_def upd_mgr_def)
    then show ?thesis
      using same_places_similar [of w w1] w1(2) same_core_similar [OF s5] similar_trans unfolding keeps_def by blast
  qed
  moreover have "cur w5 me = v" "tw_refs w5 = tw_refs w1"
    using same_core_facts(4,7) [OF s5] c2 by (simp_all add: upd_mgr_def)
  ultimately show ?thesis using that w1(1,3) by blast
qed

end
