(* ===== verification/ThreatManager_Contract.thy ===== *)
theory ThreatManager_Contract
  imports ThreatManager_Select
begin

text \<open>
  Every operation of the threat lists keeps the contract of \<^verbatim>\<open>ThreatManager.h\<close> and runs, on the combat part,
  as operations of \<open>CombatManager_Refs\<close>: the combat manager with its set of pairs is the abstraction, the
  references, maps and heaps implement it.
\<close>

section \<open>The combat part\<close>

lemma UpdateOwnerCombatState_threat:
  "UpdateOwnerCombatState e me w = Some (n, w') \<Longrightarrow> cw_threat w' = cw_threat w"
  by (auto simp: UpdateOwnerCombatState_def combat_state_changed_def Let_def split: if_splits bind_splits)

lemma Refresh_threat: "Refresh e r w = Some w' \<Longrightarrow> cw_threat w' = cw_threat w"
  by (auto simp: Refresh_def split: if_splits bind_splits dest!: UpdateOwnerCombatState_threat)

lemma SetInCombatWith_threat: "SetInCombatWith e me who s w = Some (b, w') \<Longrightarrow> cw_threat w' = cw_threat w"
  by (auto simp: SetInCombatWith_def RefreshTimer_def PutReference_def Let_def
      split: if_splits option.splits bind_splits dest!: UpdateOwnerCombatState_threat Refresh_threat)

lemma EndCombat_threat:
  "EndCombat e r w = Some w' \<Longrightarrow> cw_refs w r = Some c \<Longrightarrow>
    cw_threat w' = filter (\<lambda>x. x \<noteq> (cr_first c, cr_second c) \<and> x \<noteq> (cr_second c, cr_first c)) (cw_threat w)"
  by (auto simp: EndCombat_def Let_def split: bind_splits dest!: UpdateOwnerCombatState_threat intro!: filter_cong)

lemma set_combat_inv:
  assumes "tw_inv S F w" "cw_inv c" "set (cw_threat c) = set (cw_threat (tw_combat w))"
  shows "tw_inv S F (w\<lparr>tw_combat := c\<rparr>)"
proof -
  have "live (w\<lparr>tw_combat := c\<rparr>) = live w" "tref_ok F (w\<lparr>tw_combat := c\<rparr>) = tref_ok F w"
    by (intro ext; simp add: live_def tref_ok_def)+
  then show ?thesis using assms
    by (simp add: tw_inv_def tw_links_def mgr_ok_def victim_available_def threat_pairs_def)
qed

text \<open>\<open>good F w w'\<close>: the contract holds again, and the combat part went through steps of the combat manager.\<close>

definition good :: "('f :: linorder) float_ops \<Rightarrow> 'f threat_world \<Rightarrow> 'f threat_world \<Rightarrow> bool" where
  "good F w w' \<longleftrightarrow> tw_inv {} F w' \<and> cw_step\<^sup>*\<^sup>* (tw_combat w) (tw_combat w') \<and>
     (\<forall>u. tm_canHaveThreatList (tw_mgr w' u) = tm_canHaveThreatList (tw_mgr w u))"

lemma good_refl: "tw_inv {} F w \<Longrightarrow> good F w w"
  by (simp add: good_def)

lemma good_trans: "good F w w' \<Longrightarrow> good F w' w'' \<Longrightarrow> good F w w''"
  by (auto simp: good_def intro: rtranclp_trans)

lemma good_inv: "good F w w' \<Longrightarrow> tw_inv {} F w'"
  by (simp add: good_def)

lemma good_env: "good F w w' \<Longrightarrow> env_ok e w' = env_ok e w"
  by (simp add: good_def env_ok_def)

lemma good_similar: "tw_inv {} F w' \<Longrightarrow> similar w w' \<Longrightarrow> good F w w'"
  by (simp add: good_def similar_def)

lemma good_keeps: "keeps {} F w w' \<Longrightarrow> good F w w'"
  by (simp add: keeps_def good_similar same_places_similar)

lemma good_core: "tw_inv {} F w \<Longrightarrow> same_core w w' \<Longrightarrow> good F w w'"
  by (simp add: good_similar same_core_inv same_core_similar)

lemma tw_inv_mono: "tw_inv S F w \<Longrightarrow> S \<subseteq> T \<Longrightarrow> tw_inv T F w"
  by (auto simp: tw_inv_def victim_available_def)

lemma UpdateVictim_good:
  assumes "float_ok F" "heap_ok e" "tw_inv {} F w" "uv_isCreature (ue_view (te_units e) me)"
  shows "\<exists>w'. UpdateVictim e F me w = Some w' \<and> good F w w' \<and> similar w w'"
  using UpdateVictim_ok [OF assms(1,2) tw_inv_mono [OF assms(3)] assms(4)] good_similar by (metis empty_subsetI)

lemma SetInCombatWith_good:
  assumes i: "tw_inv {} F w"
  shows "\<exists>b w'. SetInCombatWith_full e me who s w = Some (b, w') \<and> good F w w' \<and> same_core (w'\<lparr>tw_combat := tw_combat w\<rparr>) w \<and>
    b = IsInCombatWith me who (tw_combat w') \<and> (\<forall>u. tw_mgr w' u = tw_mgr w u) \<and> tw_refs w' = tw_refs w"
proof -
  have c: "cw_inv (tw_combat w)" using i by (simp add: tw_inv_def)
  obtain b c' where c': "SetInCombatWith (te_units e) me who s (tw_combat w) = Some (b, c')" "cw_inv c'"
      "b = IsInCombatWith me who c'"
    using SetInCombatWith_spec [OF c, of "te_units e" me who s] by blast
  have "cw_step (tw_combat w) c'" using c'(1) by (rule cw_step.set_in_combat)
  then have "good F w (w\<lparr>tw_combat := c'\<rparr>)"
    using set_combat_inv [OF i c'(2)] SetInCombatWith_threat [OF c'(1)] by (simp add: good_def)
  with c' show ?thesis by (intro exI [of _ b] exI [of _ "w\<lparr>tw_combat := c'\<rparr>"]) (simp add: SetInCombatWith_full_def)
qed


section \<open>Freeing a reference\<close>

definition freed :: "addr \<Rightarrow> 'f threat_ref \<Rightarrow> 'f threat_world \<Rightarrow> 'f threat_world" where
  "freed r t w = (PurgeThreatenedByMeRef (tr_victim t) (tr_owner t)
     (upd_mgr (tr_owner t)
        (\<lambda>m. m\<lparr>tm_myThreatListEntries := om_erase (tr_victim t) (tm_myThreatListEntries m),
              tm_sortedThreatList := filter (\<lambda>x. fst x \<noteq> r) (tm_sortedThreatList m),
              tm_fixateRef := (if tm_fixateRef m = Some r then None else tm_fixateRef m),
              tm_currentVictimRef := (if tm_currentVictimRef m = Some r then None else tm_currentVictimRef m)\<rparr>)
        (w\<lparr>tw_combat := ClearThreat (tr_owner t) (tr_victim t) (tw_combat w)\<rparr>)))\<lparr>tw_refs := (tw_refs w)(r := None)\<rparr>"

lemma freed_fields [simp]:
  "entries (freed r t w) u = (if u = tr_owner t then om_erase (tr_victim t) (entries w u) else entries w u)"
  "tby (freed r t w) u = (if u = tr_victim t then om_erase (tr_owner t) (tby w u) else tby w u)"
  "heap_of (freed r t w) u = (if u = tr_owner t then filter (\<lambda>x. fst x \<noteq> r) (heap_of w u) else heap_of w u)"
  "fixated (freed r t w) u = (if u = tr_owner t \<and> fixated w u = Some r then None else fixated w u)"
  "cur (freed r t w) u = (if u = tr_owner t \<and> cur w u = Some r then None else cur w u)"
  "tm_canHaveThreatList (tw_mgr (freed r t w) u) = tm_canHaveThreatList (tw_mgr w u)"
  "tw_refs (freed r t w) = (tw_refs w)(r := None)" "tw_next (freed r t w) = tw_next w"
  "tw_combat (freed r t w) = ClearThreat (tr_owner t) (tr_victim t) (tw_combat w)"
  by (auto simp: freed_def PurgeThreatenedByMeRef_def upd_mgr_def)

lemma UnregisterAndFree_eq:
  assumes "tw_inv S F w" "tw_refs w r = Some t"
  shows "UnregisterAndFree r w = Some (freed r t w)"
proof -
  have "PurgeThreatListRef (tr_owner t) (tr_victim t) w = Some (upd_mgr (tr_owner t)
        (\<lambda>m. m\<lparr>tm_myThreatListEntries := om_erase (tr_victim t) (tm_myThreatListEntries m),
              tm_sortedThreatList := filter (\<lambda>x. fst x \<noteq> r) (tm_sortedThreatList m),
              tm_fixateRef := (if tm_fixateRef m = Some r then None else tm_fixateRef m),
              tm_currentVictimRef := (if tm_currentVictimRef m = Some r then None else tm_currentVictimRef m)\<rparr>)
        (w\<lparr>tw_combat := ClearThreat (tr_owner t) (tr_victim t) (tw_combat w)\<rparr>))"
    using tw_invD(2,4) [OF assms] assms(2) by (simp add: PurgeThreatListRef_def)
  then show ?thesis
    using assms(2) by (simp add: UnregisterAndFree_def freed_def Let_def PurgeThreatenedByMeRef_def upd_mgr_def)
qed

lemma owner_of_entry:
  "tw_inv S F w \<Longrightarrow> tw_refs w r = Some t \<Longrightarrow> live w r u g \<longleftrightarrow> u = tr_owner t \<and> g = tr_victim t"
  by (auto simp: live_def)

lemma live_freed: "live (freed r t w) a u g \<longleftrightarrow> a \<noteq> r \<and> live w a u g"
  by (auto simp: live_def)

lemma map_of_filter_fst: "a \<noteq> r \<Longrightarrow> map_of (filter (\<lambda>x. fst x \<noteq> r) h) a = map_of h a"
  by (induction h) auto

lemma freed_mgr_ok:
  assumes i: "tw_inv S F w" and t: "tw_refs w r = Some t"
  shows "mgr_ok (freed r t w) u"
proof -
  have m: "mgr_ok w u" using tw_inv_mgr [OF i] .
  have e: "live (freed r t w) a u g" if "om_find g (entries (freed r t w) u) = Some a" for g a
  proof -
    have o: "om_find g (entries w u) = Some a" "u = tr_owner t \<longrightarrow> g \<noteq> tr_victim t"
      using that by (auto split: if_splits)
    then have "live w a u g" using entry_live [OF i] by simp
    moreover have "a \<noteq> r" using owner_of_entry [OF i t, of u g] o(2) \<open>live w a u g\<close> by auto
    ultimately show ?thesis by (simp add: live_freed)
  qed
  have b: "live (freed r t w) a g u" if "om_find g (tby (freed r t w) u) = Some a" for g a
  proof -
    have o: "om_find g (tby w u) = Some a" "u = tr_victim t \<longrightarrow> g \<noteq> tr_owner t"
      using that by (auto split: if_splits)
    then have "live w a g u" using tby_live [OF i] by simp
    moreover have "a \<noteq> r" using owner_of_entry [OF i t, of g u] o(2) \<open>live w a g u\<close> by auto
    ultimately show ?thesis by (simp add: live_freed)
  qed
  have other: "a \<noteq> r \<or> u = tr_owner t" if "live w a u g" for a g
    using owner_of_entry [OF i t, of u g] that by auto
  have p: "\<exists>g. live (freed r t w) a u g" if "\<exists>g. live w a u g" "u = tr_owner t \<longrightarrow> a \<noteq> r" for a
    using that other live_freed by metis
  have h: "a \<in> fst ` set (heap_of w u)" "u = tr_owner t \<longrightarrow> a \<noteq> r" if "a \<in> fst ` set (heap_of (freed r t w) u)" for a
    using that by (auto split: if_splits)
  have d: "distinct (map fst (heap_of (freed r t w) u))" using m by (auto simp: mgr_ok_def distinct_map_filter)
  have "om_ok (entries (freed r t w) u)" "om_ok (tby (freed r t w) u)" using m by (auto simp: mgr_ok_def)
  moreover have "\<exists>g. live (freed r t w) a u g" if "a \<in> fst ` set (heap_of (freed r t w) u)" for a
  proof (rule p)
    show "\<exists>g. live w a u g" using h(1) [OF that] m unfolding mgr_ok_def by (elim conjE) (drule spec [of _ a], erule mp)
  qed (rule h(2) [OF that])
  moreover have "\<exists>g. live (freed r t w) a u g" if "fixated (freed r t w) u = Some a" for a
    using that m by (intro p) (auto simp: mgr_ok_def split: if_splits)
  moreover have "\<exists>g. live (freed r t w) a u g" if "cur (freed r t w) u = Some a" for a
    using that m by (intro p) (auto simp: mgr_ok_def split: if_splits)
  ultimately show ?thesis unfolding mgr_ok_def using d e b by blast
qed

lemma freed_tref_ok:
  assumes i: "tw_inv S F w" and t: "tw_refs w r = Some t" and x: "tw_refs (freed r t w) a = Some x"
  shows "tref_ok F (freed r t w) a x"
proof -
  have a: "a \<noteq> r" "tw_refs w a = Some x" using x by (auto split: if_splits)
  have "\<not> (tr_owner x = tr_owner t \<and> tr_victim x = tr_victim t)"
    using tw_invD(2) [OF i a(2)] tw_invD(2) [OF i t] a(1) by auto
  then show ?thesis using tw_invD [OF i a(2)] a(1) by (auto simp: tref_ok_def map_of_filter_fst)
qed

lemma freed_inv:
  assumes i: "tw_inv S F w" and t: "tw_refs w r = Some t"
  shows "tw_inv S F (freed r t w)"
proof -
  have "tw_links F (freed r t w)" using freed_mgr_ok [OF i t] freed_tref_ok [OF i t] by (simp add: tw_links_def)
  moreover have "victim_available S (freed r t w)"
    using i by (auto simp: tw_inv_def victim_available_def split: if_splits)
  moreover have "threat_pairs (freed r t w)"
    using i by (auto simp: tw_inv_def threat_pairs_def)
  moreover have "cw_inv (tw_combat (freed r t w))" using i by (simp add: tw_inv_def cw_inv_clear_threat)
  ultimately show ?thesis by (simp add: tw_inv_def)
qed

lemma freed_good:
  assumes "tw_inv {} F w" "tw_refs w r = Some t"
  shows "good F w (freed r t w)"
  using freed_inv [OF assms] cw_step.clear_threat by (auto simp: good_def)

section \<open>Creating a reference\<close>

definition created :: "('f :: linorder) float_ops \<Rightarrow> uguid \<Rightarrow> uguid \<Rightarrow> 'f threat_world \<Rightarrow> 'f threat_world" where
  "created F me target w =
     (let r = tw_next w; t = ThreatReference_new F me target in
      upd_mgr target (\<lambda>m. m\<lparr>tm_threatenedByMe := om_set me r (tm_threatenedByMe m)\<rparr>)
       (upd_mgr me
          (\<lambda>m. m\<lparr>tm_myThreatListEntries := om_set target r (tm_myThreatListEntries m),
                tm_sortedThreatList := (r, heap_key_of F t) # tm_sortedThreatList m\<rparr>)
          ((need_client_update me (set_tref r t (w\<lparr>tw_next := Suc r\<rparr>)))
             \<lparr>tw_combat := (tw_combat w)\<lparr>cw_threat := (me, target) # cw_threat (tw_combat w)\<rparr>\<rparr>)))"

lemma created_fields [simp]:
  "entries (created F me g w) u = (if u = me then om_set g (tw_next w) (entries w u) else entries w u)"
  "tby (created F me g w) u = (if u = g then om_set me (tw_next w) (tby w u) else tby w u)"
  "heap_of (created F me g w) u =
     (if u = me then (tw_next w, heap_key_of F (ThreatReference_new F me g)) # heap_of w u else heap_of w u)"
  "fixated (created F me g w) u = fixated w u" "cur (created F me g w) u = cur w u"
  "tm_canHaveThreatList (tw_mgr (created F me g w) u) = tm_canHaveThreatList (tw_mgr w u)"
  "tw_refs (created F me g w) = (tw_refs w)(tw_next w \<mapsto> ThreatReference_new F me g)"
  "tw_next (created F me g w) = Suc (tw_next w)"
  "tw_combat (created F me g w) = (tw_combat w)\<lparr>cw_threat := (me, g) # cw_threat (tw_combat w)\<rparr>"
  by (simp_all add: created_def Let_def upd_mgr_def need_client_update_def set_tref_def)

lemma tby_iff_entries:
  assumes "tw_inv S F w"
  shows "om_find me (tby w g) = Some r \<longleftrightarrow> om_find g (entries w me) = Some r"
  using tby_live [OF assms, of me g r] entry_live [OF assms, of g me r] tw_invD(2,3) [OF assms, of r]
  by (auto simp: live_def)

lemma Put_eq:
  assumes i: "tw_inv S F w" and n: "om_find g (entries w me) = None"
  shows "Option.bind (PutThreatListRef F me g (tw_next w)
       (set_tref (tw_next w) (ThreatReference_new F me g) (w\<lparr>tw_next := Suc (tw_next w)\<rparr>)))
     (PutThreatenedByMeRef g me (tw_next w)) = Some (created F me g w)"
proof -
  have "om_find me (tby w g) = None" using n tby_iff_entries [OF i, of me g] by (cases "om_find me (tby w g)") auto
  moreover from this have "g = me \<longrightarrow> om_find me (tby w me) = None" by auto
  ultimately show ?thesis using n
    by (simp add: PutThreatListRef_def PutThreatenedByMeRef_def created_def Let_def upd_mgr_def need_client_update_def
        set_tref_def)
qed

lemma fresh_ref: "tw_inv S F w \<Longrightarrow> tw_refs w (tw_next w) = None"
  using tw_invD(1) [of S F w "tw_next w"] by (cases "tw_refs w (tw_next w)") auto

lemma live_created:
  assumes "tw_inv S F w"
  shows "live (created F me g w) a u v \<longleftrightarrow> (a = tw_next w \<and> u = me \<and> v = g) \<or> live w a u v"
  using fresh_ref [OF assms] by (auto simp: live_def ThreatReference_new_def)


lemma created_inv:
  assumes i: "tw_inv S F w" and n: "om_find g (entries w me) = None" and c: "IsInCombatWith me g (tw_combat w)"
    and l: "tm_canHaveThreatList (tw_mgr w me)"
  shows "tw_inv S F (created F me g w)"
proof -
  let ?w = "created F me g w" and ?r = "tw_next w"
  note lv = live_created [OF i, of me g]
  have m: "mgr_ok ?w u" for u
  proof -
    have o: "mgr_ok w u" using tw_inv_mgr [OF i] .
    have "?r \<notin> fst ` set (heap_of w u)"
    proof
      assume "?r \<in> fst ` set (heap_of w u)"
      then obtain v where "live w ?r u v" using o unfolding mgr_ok_def by blast
      then show False using fresh_ref [OF i] by (simp add: live_def)
    qed
    then have "distinct (map fst (heap_of ?w u))" using o by (auto simp: mgr_ok_def)
    moreover have "om_ok (entries ?w u)" "om_ok (tby ?w u)" using o by (auto simp: mgr_ok_def)
    moreover have "live ?w a u v" if "om_find v (entries ?w u) = Some a" for v a
      using that entry_live [OF i] by (auto simp: lv split: if_splits)
    moreover have "live ?w a v u" if "om_find v (tby ?w u) = Some a" for v a
      using that tby_live [OF i] by (auto simp: lv split: if_splits)
    moreover have "\<exists>v. live ?w a u v" if "a \<in> fst ` set (heap_of ?w u)" for a
    proof (cases "a = ?r \<and> u = me")
      case True
      then show ?thesis using lv by blast
    next
      case False
      then have "a \<in> fst ` set (heap_of w u)" using that by (auto split: if_splits)
      then obtain v where "live w a u v" using o unfolding mgr_ok_def by blast
      then show ?thesis using lv by blast
    qed
    moreover have "\<exists>v. live ?w a u v" if "fixated ?w u = Some a \<or> cur ?w u = Some a" for a
      using that o unfolding lv mgr_ok_def created_fields by blast
    ultimately show ?thesis unfolding mgr_ok_def by blast
  qed
  have "tref_ok F ?w a t" if "tw_refs ?w a = Some t" for a t
  proof (cases "a = ?r")
    case True
    then have "t = ThreatReference_new F me g" using that by simp
    then show ?thesis using l True by (simp add: tref_ok_def ThreatReference_new_def)
  next
    case False
    then have a: "tw_refs w a = Some t" using that by simp
    note d = tw_invD [OF i a]
    have "\<not> (tr_owner t = me \<and> tr_victim t = g)" using d(2) n by auto
    with d False show ?thesis by (auto simp: tref_ok_def)
  qed
  with m have k: "tw_links F ?w" by (simp add: tw_links_def)
  have "victim_available S ?w"
  proof -
    have "cur w u \<noteq> Some ?r" for u
      using tw_inv_mgr [OF i, of u] fresh_ref [OF i] by (auto simp: mgr_ok_def live_def)
    then show ?thesis using i by (auto simp: tw_inv_def victim_available_def split: if_splits)
  qed
  moreover have "threat_pairs ?w" using i by (auto simp: tw_inv_def threat_pairs_def)
  moreover have "cw_inv (tw_combat ?w)" using i c by (simp add: tw_inv_def cw_inv_add_threat)
  ultimately show ?thesis using k by (simp add: tw_inv_def)
qed

lemma add_new_ref_good:
  assumes f: "float_ok F" and h: "heap_ok e" and v: "env_ok e w" and i: "tw_inv {} F w"
    and n: "om_find g (entries w me) = None" and c: "IsInCombatWith me g (tw_combat w)"
    and l: "tm_canHaveThreatList (tw_mgr w me)"
  shows "\<exists>w'. add_new_ref e F me g amount w = Some w' \<and> good F w w'"
proof -
  let ?w = "created F me g w" and ?r = "tw_next w" and ?t = "ThreatReference_new F me g"
  have i1: "tw_inv {} F ?w" using created_inv [OF i n c l] .
  have g1: "good F w ?w" using i1 cw_step.add_threat [OF c] by (auto simp: good_def)
  have t1: "tw_refs ?w ?r = Some ?t" by simp
  have "cur ?w (tr_owner ?t) \<noteq> Some ?r"
    using tw_inv_mgr [OF i, of me] fresh_ref [OF i] by (auto simp: mgr_ok_def live_def ThreatReference_new_def)
  then obtain w2 t2 where w2: "UpdateOffline e F ?r ?w = Some w2" "keeps {} F ?w w2" "tw_refs w2 = (tw_refs ?w)(?r \<mapsto> t2)"
    using UpdateOffline_ok [OF i1 t1, of e] by blast
  have i2: "tw_inv {} F w2" using w2(2) by (simp add: keeps_def)
  have t2: "tw_refs w2 ?r = Some t2" using w2(3) by simp
  obtain w3 where w3: "(if IsOnline t2 then ThreatReference_AddThreat F ?r amount w2 else Some w2) = Some w3" "keeps {} F w2 w3"
    using AddThreat_ref_ok [OF f i2 t2, of amount] keeps_refl [OF i2] by (cases "IsOnline t2") auto
  have i3: "tw_inv {} F w3" using w3(2) by (simp add: keeps_def)
  have g3: "good F w w3" using good_trans [OF g1] good_keeps [OF keeps_trans [OF w2(2) w3(2)]] by blast
  have cr: "uv_isCreature (ue_view (te_units e) me)" using v l by (simp add: env_ok_def)
  obtain w4 where w4: "(if cur w3 me = None then UpdateVictim e F me w3 else ProcessAIUpdates e me w3) = Some w4" "good F w3 w4"
    using UpdateVictim_good [OF f h i3 cr] ProcessAIUpdates_ok [OF i3 cr] good_core [OF i3] by (cases "cur w3 me = None") auto
  have p: "Option.bind (PutThreatListRef F me g ?r (set_tref ?r ?t (w\<lparr>tw_next := Suc ?r\<rparr>)))
     (\<lambda>w. Option.bind (PutThreatenedByMeRef g me ?r w) k) = k ?w" for k :: "'a threat_world \<Rightarrow> 'a threat_world option"
    using arg_cong [OF Put_eq [OF i n], of "\<lambda>x. Option.bind x k"] by (simp add: Option.bind_assoc)
  have "add_new_ref e F me g amount w = Some w4"
    unfolding add_new_ref_def Let_def p w2(1) Option.bind.bind_lunit t2 w3(1) by (rule w4(1))
  with good_trans [OF g3 w4(2)] show ?thesis by blast
qed

section \<open>Removing threat\<close>

lemma ClearThreat_ref_good:
  assumes f: "float_ok F" and h: "heap_ok e" and v: "env_ok e w" and i: "tw_inv {} F w" and t: "tw_refs w r = Some t"
    "tr_owner t = me"
  shows "\<exists>w'. ClearThreat_ref e F me r w = Some w' \<and> good F w w' \<and> entries w' me = om_erase (tr_victim t) (entries w me)
    \<and> (\<forall>u. tby w' u = (if u = tr_victim t then om_erase me (tby w u) else tby w u))
    \<and> (\<forall>u. u \<noteq> me \<longrightarrow> entries w' u = entries w u) \<and> tw_combat w' = ClearThreat me (tr_victim t) (tw_combat w)"
proof -
  let ?l = "log_threat [ThreatRemove me (tr_victim t)] w"
  have s: "same_core w ?l" by simp
  have il: "tw_inv {} F ?l" using i same_core_inv(1) [OF s] by simp
  have tl: "tw_refs ?l r = Some t" using t(1) same_core_facts(7) [OF s] by simp
  let ?w = "freed r t ?l"
  have u: "UnregisterAndFree r ?l = Some ?w" using UnregisterAndFree_eq [OF il tl] .
  have g: "good F w ?w" using good_trans [OF good_core [OF i s] freed_good [OF il tl]] .
  have cr: "uv_isCreature (ue_view (te_units e) me)" using v tw_invD(6) [OF i t(1)] t(2) by (simp add: env_ok_def)
  obtain w2 where w2: "(if cur ?w me = None then UpdateVictim e F me ?w else Some ?w) = Some w2" "good F ?w w2" "similar ?w w2"
    using UpdateVictim_good [OF f h good_inv [OF g] cr] good_refl [OF good_inv [OF g]] by (cases "cur ?w me = None") auto
  have "ClearThreat_ref e F me r w = Some w2"
    unfolding ClearThreat_ref_def t(1) Option.bind.bind_lunit u by (rule w2(1))
  moreover have "entries w2 u = entries ?w u" "tby w2 u = tby ?w u" "tw_combat w2 = tw_combat ?w" for u
    using w2(3) by (simp_all add: similar_def)
  ultimately show ?thesis using good_trans [OF g w2(2)] t(2) same_core_facts [OF s] by auto
qed


lemma ClearThreat_good:
  assumes f: "float_ok F" and h: "heap_ok e" and v: "env_ok e w" and i: "tw_inv {} F w"
  shows "\<exists>w'. ThreatManager_ClearThreat e F me g w = Some w' \<and> good F w w' \<and> om_find g (entries w' me) = None
    \<and> (\<forall>u. u \<noteq> me \<longrightarrow> entries w' u = entries w u)
    \<and> (om_find g (entries w me) \<noteq> None \<longrightarrow> tby w' g = om_erase me (tby w g))
    \<and> cw_refs (tw_combat w') = cw_refs (tw_combat w) \<and> (\<forall>p u. the_map p (tw_combat w') u = the_map p (tw_combat w) u)"
proof (cases "om_find g (entries w me)")
  case None
  then show ?thesis using good_refl [OF i] by (simp add: ThreatManager_ClearThreat_def)
next
  case (Some r)
  obtain t where t: "tw_refs w r = Some t" "tr_owner t = me" "tr_victim t = g"
    by (rule liveE [OF entry_live [OF i Some]])
  from ClearThreat_ref_good [OF f h v i t(1,2)] Some t(3) show ?thesis
    by (auto simp: ThreatManager_ClearThreat_def)
qed

lemma om_erase_shorter: "om_find g m \<noteq> None \<Longrightarrow> length (om_erase g m) < length m"
  unfolding om_erase_def by (rule length_filter_less [of "(g, the (om_find g m))"]) (auto dest: om_find_in_set)

lemma free_all_good:
  "tw_inv {} F w \<Longrightarrow> \<exists>w'. free_all me w = Some w' \<and> good F w w' \<and> entries w' me = []
    \<and> tm_threatenedByMe (tw_mgr w' me) = filter (\<lambda>x. fst x \<noteq> me) (tby w me)
    \<and> (\<forall>p u. the_map p (tw_combat w') u = the_map p (tw_combat w) u)"
proof (induction "length (entries w me)" arbitrary: w rule: less_induct)
  case less
  show ?case
  proof (cases "entries w me")
    case Nil
    have "om_find me (tby w me) = None" using Nil tby_iff_entries [OF less.prems, of me me] by (cases "om_find me (tby w me)") auto
    then have "filter (\<lambda>x. fst x \<noteq> me) (tby w me) = tby w me"
      unfolding om_find_None_iff by (intro filter_True) force
    with Nil show ?thesis using good_refl [OF less.prems] by (subst free_all.simps) simp
  next
    case (Cons x m)
    obtain g r where x: "x = (g, r)" by (cases x)
    have e: "om_find g (entries w me) = Some r" using Cons x by simp
    obtain t where t: "tw_refs w r = Some t" "tr_owner t = me" "tr_victim t = g"
      by (rule liveE [OF entry_live [OF less.prems e]])
    let ?w = "freed r t w"
    have g: "good F w ?w" using freed_good [OF less.prems t(1)] .
    have "length (entries ?w me) < length (entries w me)" using om_erase_shorter [of g "entries w me"] e t by simp
    from less.hyps [OF this good_inv [OF g]] obtain w' where w': "free_all me ?w = Some w'" "good F ?w w'" "entries w' me = []"
      "tby w' me = filter (\<lambda>x. fst x \<noteq> me) (tby ?w me)" "\<forall>p u. the_map p (tw_combat w') u = the_map p (tw_combat ?w) u" by blast
    have "free_all me w = Some w'"
      by (subst free_all.simps) (simp add: Cons x UnregisterAndFree_eq [OF less.prems t(1)] w'(1))
    moreover have "tby w' me = filter (\<lambda>x. fst x \<noteq> me) (tby w me)" using w'(4) t(2) by (auto simp: om_erase_def)
    ultimately show ?thesis using good_trans [OF g w'(2)] w'(3,5) by auto
  qed
qed

lemma ClearAllThreat_good:
  assumes i: "tw_inv {} F w"
  shows "\<exists>w'. ClearAllThreat me w = Some w' \<and> good F w w' \<and> entries w' me = []
    \<and> tby w' me = filter (\<lambda>x. fst x \<noteq> me) (tby w me) \<and> (\<forall>p u. the_map p (tw_combat w') u = the_map p (tw_combat w) u)"
proof (cases "entries w me = []")
  case True
  then show ?thesis using free_all_good [OF i, of me] good_refl [OF i] by (subst (asm) free_all.simps) (simp add: ClearAllThreat_def)
next
  case False
  let ?l = "log_threat [ThreatClear me] w"
  have s: "same_core w ?l" by simp
  have il: "tw_inv {} F ?l" using i same_core_inv(1) [OF s] by simp
  from free_all_good [OF il, of me] False good_trans [OF good_core [OF i s]] same_core_facts [OF s] show ?thesis
    by (auto simp: ClearAllThreat_def)
qed

lemma RemoveMe_good:
  assumes f: "float_ok F" and h: "heap_ok e"
  shows "env_ok e w \<Longrightarrow> tw_inv {} F w \<Longrightarrow> \<exists>w'. RemoveMeFromThreatLists e F me w = Some w' \<and> good F w w' \<and> tby w' me = []
    \<and> (\<forall>p u. the_map p (tw_combat w') u = the_map p (tw_combat w) u)"
proof (induction "length (tby w me)" arbitrary: w rule: less_induct)
  case less
  show ?case
  proof (cases "tby w me")
    case Nil
    then show ?thesis using good_refl [OF less.prems(2)] by (subst RemoveMeFromThreatLists.simps) simp
  next
    case (Cons x m)
    obtain g r where x: "x = (g, r)" by (cases x)
    have b: "om_find g (tby w me) = Some r" using Cons x by simp
    obtain t where t: "tw_refs w r = Some t" "tr_owner t = g" using tby_live [OF less.prems(2) b] liveE by blast
    have e: "om_find me (entries w g) \<noteq> None" using tby_iff_entries [OF less.prems(2), of g me r] b by simp
    obtain w1 where w1: "ThreatManager_ClearThreat e F g me w = Some w1" "good F w w1" "tby w1 me = om_erase g (tby w me)"
        "\<forall>p u. the_map p (tw_combat w1) u = the_map p (tw_combat w) u"
      using ClearThreat_good [OF f h less.prems, of g me] e by blast
    have "length (tby w1 me) < length (tby w me)" using om_erase_shorter [of g "tby w me"] b w1(3) by simp
    moreover have "env_ok e w1" using less.prems(1) good_env [OF w1(2)] by simp
    ultimately obtain w2 where w2: "RemoveMeFromThreatLists e F me w1 = Some w2" "good F w1 w2" "tby w2 me = []"
        "\<forall>p u. the_map p (tw_combat w2) u = the_map p (tw_combat w1) u"
      using less.hyps good_inv [OF w1(2)] by blast
    have "RemoveMeFromThreatLists e F me w = Some w2"
      by (subst RemoveMeFromThreatLists.simps) (simp add: Cons x t w1(1) w2(1))
    with good_trans [OF w1(2) w2(2)] w1(4) w2(3,4) show ?thesis by auto
  qed
qed


section \<open>Ending combat\<close>

lemma EndCombat_full_good:
  assumes f: "float_ok F" and h: "heap_ok e" and v: "env_ok e w" and i: "tw_inv {} F w"
    and r: "om_find g (the_map p (tw_combat w) me) = Some r"
  shows "\<exists>w'. EndCombat_full e F r w = Some w' \<and> good F w w' \<and>
    the_map p (tw_combat w') me = om_erase g (the_map p (tw_combat w) me)"
proof -
  have ci: "cw_inv (tw_combat w)" "cw_links (tw_combat w)" using i by (simp_all add: tw_inv_def cw_inv_def)
  obtain c where c: "cw_refs (tw_combat w) r = Some c" "cr_isPvP c = p" "joins c me g" using links_entry [OF ci(2) r] .
  let ?a = "cr_first c" and ?b = "cr_second c"
  have ab: "?a \<noteq> ?b" using links_ref(2) [OF ci(2) c(1)] .
  obtain w1 where w1: "ThreatManager_ClearThreat e F ?a ?b w = Some w1" "good F w w1" "om_find ?b (entries w1 ?a) = None"
      "cw_refs (tw_combat w1) = cw_refs (tw_combat w)" "\<forall>p u. the_map p (tw_combat w1) u = the_map p (tw_combat w) u"
    using ClearThreat_good [OF f h v i, of ?a ?b] by blast
  have v1: "env_ok e w1" using v good_env [OF w1(2)] by simp
  obtain w2 where w2: "ThreatManager_ClearThreat e F ?b ?a w1 = Some w2" "good F w1 w2" "om_find ?a (entries w2 ?b) = None"
      "entries w2 ?a = entries w1 ?a"
      "cw_refs (tw_combat w2) = cw_refs (tw_combat w1)" "\<forall>p u. the_map p (tw_combat w2) u = the_map p (tw_combat w1) u"
    using ClearThreat_good [OF f h v1 good_inv [OF w1(2)], of ?b ?a] ab by blast
  have i2: "tw_inv {} F w2" using good_inv [OF w2(2)] .
  have c2: "cw_inv (tw_combat w2)" "cw_refs (tw_combat w2) r = Some c"
    "om_find g (the_map p (tw_combat w2) me) = Some r"
    using i2 w1(4,5) w2(5,6) c(1) r by (simp_all add: tw_inv_def)
  obtain k where k: "EndCombat (te_units e) r (tw_combat w2) = Some k" "cw_inv k"
      "the_map p k me = om_erase g (the_map p (tw_combat w2) me)"
    using EndCombat_entry [OF c2(1,3), of "te_units e"] by metis
  have "(?a, ?b) \<notin> set (cw_threat (tw_combat w2))" "(?b, ?a) \<notin> set (cw_threat (tw_combat w2))"
    using i2 w1(3) w2(3,4) by (auto simp: tw_inv_def threat_pairs_def)
  then have "cw_threat k = cw_threat (tw_combat w2)"
    unfolding EndCombat_threat [OF k(1) c2(2)] by (intro filter_True) auto
  then have i3: "tw_inv {} F (w2\<lparr>tw_combat := k\<rparr>)" using set_combat_inv [OF i2 k(2)] by simp
  have "good F w2 (w2\<lparr>tw_combat := k\<rparr>)"
    using i3 cw_step.end_combat [OF c2(2) k(1)] by (simp add: good_def)
  moreover have "EndCombat_full e F r w = Some (w2\<lparr>tw_combat := k\<rparr>)"
    by (simp add: EndCombat_full_def c(1) w1(1) w2(1) k(1))
  moreover have "the_map p (tw_combat (w2\<lparr>tw_combat := k\<rparr>)) me = om_erase g (the_map p (tw_combat w) me)"
    using k(3) w1(5) w2(6) by simp
  ultimately show ?thesis using good_trans [OF good_trans [OF w1(2) w2(2)]] by blast
qed

lemma EndAll_full_good:
  assumes f: "float_ok F" and h: "heap_ok e"
  shows "env_ok e w \<Longrightarrow> tw_inv {} F w \<Longrightarrow>
    \<exists>w'. EndAll_full e F p me w = Some w' \<and> good F w w' \<and> the_map p (tw_combat w') me = []"
proof (induction "length (the_map p (tw_combat w) me)" arbitrary: w rule: less_induct)
  case less
  note step = EndAll_full.simps [of e F p me w]
  show ?case
  proof (cases "the_map p (tw_combat w) me")
    case Nil
    with good_refl [OF less.prems(2)] step show ?thesis by (simp add: the_map_def)
  next
    case (Cons x m)
    obtain g r where x: "x = (g, r)" by (cases x)
    have b: "om_find g (the_map p (tw_combat w) me) = Some r" using Cons x by simp
    obtain w1 where w1: "EndCombat_full e F r w = Some w1" "good F w w1"
        "the_map p (tw_combat w1) me = om_erase g (the_map p (tw_combat w) me)"
      using EndCombat_full_good [OF f h less.prems b] by blast
    have "length (the_map p (tw_combat w1) me) < length (the_map p (tw_combat w) me)"
      using om_erase_shorter [of g "the_map p (tw_combat w) me"] b w1(3) by simp
    moreover have "env_ok e w1" using less.prems(1) good_env [OF w1(2)] by simp
    ultimately obtain w2 where "EndAll_full e F p me w1 = Some w2" "good F w1 w2" "the_map p (tw_combat w2) me = []"
      using less.hyps good_inv [OF w1(2)] by blast
    with step w1(1) Cons x good_trans [OF w1(2)] show ?thesis by (auto simp: the_map_def split: if_splits)
  qed
qed

lemma EndAllPvECombat_full_good:
  assumes f: "float_ok F" and h: "heap_ok e" and v: "env_ok e w" and i: "tw_inv {} F w"
  shows "\<exists>w'. EndAllPvECombat_full e F me w = Some w' \<and> good F w w' \<and> cw_pve (tw_combat w') me = []"
proof -
  obtain w1 where w1: "RemoveMeFromThreatLists e F me w = Some w1" "good F w w1" using RemoveMe_good [OF f h v i] by blast
  obtain w2 where w2: "ClearAllThreat me w1 = Some w2" "good F w1 w2" using ClearAllThreat_good [OF good_inv [OF w1(2)]] by blast
  have g: "good F w w2" using good_trans [OF w1(2) w2(2)] .
  have "env_ok e w2" using v good_env [OF g] by simp
  then obtain w3 where w3: "EndAll_full e F False me w2 = Some w3" "good F w2 w3" "the_map False (tw_combat w3) me = []"
    using EndAll_full_good [OF f h _ good_inv [OF g]] by blast
  with w1 w2 good_trans [OF g w3(2)] show ?thesis by (auto simp: EndAllPvECombat_full_def the_map_def)
qed


section \<open>Adding threat\<close>

definition total_add ::
  "('f :: linorder) float_ops \<Rightarrow> 'f threat_env \<Rightarrow> ('f threat_world \<Rightarrow> 'f threat_world option) \<Rightarrow> bool" where
  "total_add F e op \<longleftrightarrow> (\<forall>w. tw_inv {} F w \<longrightarrow> env_ok e w \<longrightarrow> (\<exists>w'. op w = Some w' \<and> good F w w'))"

lemma total_addD: "total_add F e op \<Longrightarrow> tw_inv {} F w \<Longrightarrow> env_ok e w \<Longrightarrow> \<exists>w'. op w = Some w' \<and> good F w w'"
  by (simp add: total_add_def)

lemma foldM_good:
  assumes "\<And>x. x \<in> set xs \<Longrightarrow> total_add F e (f x)"
  shows "total_add F e (foldM_option f xs)"
  unfolding total_add_def
proof (intro allI impI)
  fix w assume "tw_inv {} F w" "env_ok e w"
  with assms show "\<exists>w'. foldM_option f xs w = Some w' \<and> good F w w'"
  proof (induction xs arbitrary: w)
    case Nil
    then show ?case by (simp add: good_refl)
  next
    case (Cons x xs)
    obtain w1 where w1: "f x w = Some w1" "good F w w1"
      using total_addD [OF Cons.prems(1) Cons.prems(2,3), of x] by auto
    have "env_ok e w1" using Cons.prems(3) good_env [OF w1(2)] by simp
    then have "\<exists>w2. foldM_option f xs w1 = Some w2 \<and> good F w1 w2"
      by (intro Cons.IH good_inv [OF w1(2)]) (use Cons.prems(1) in auto)
    then obtain w2 where "foldM_option f xs w1 = Some w2" "good F w1 w2" by blast
    with w1 good_trans [OF w1(2)] show ?case by auto
  qed
qed

lemma combat_without_list_good: "total_add F e (combat_without_list e me target)"
  unfolding total_add_def
proof (intro allI impI)
  fix w assume i: "tw_inv {} F w" and v: "env_ok e w"
  obtain b w1 where w1: "SetInCombatWith_full e me target False w = Some (b, w1)" "good F w w1"
    using SetInCombatWith_good [OF i, of e me target False] by blast
  let ?f = "\<lambda>(g, pct :: nat) w. if \<not> IsInCombatWith me g (tw_combat w) \<and> te_unitExists e me g
     then map_option snd (SetInCombatWith_full e me g False w) else Some w"
  have "total_add F e (?f x)" for x
    unfolding total_add_def
  proof (intro allI impI)
    fix w assume j: "tw_inv {} F w"
    obtain b w' where "SetInCombatWith_full e me (fst x) False w = Some (b, w')" "good F w w'"
      using SetInCombatWith_good [OF j, of e me "fst x" False] by blast
    then show "\<exists>w'. ?f x w = Some w' \<and> good F w w'" using good_refl [OF j] by (auto split: prod.split)
  qed
  then have "total_add F e (foldM_option ?f (tm_redirectInfo (tw_mgr w1 target)))" by (intro foldM_good)
  moreover have "env_ok e w1" using v good_env [OF w1(2)] by simp
  ultimately obtain w2 where w2: "foldM_option ?f (tm_redirectInfo (tw_mgr w1 target)) w1 = Some w2" "good F w1 w2"
    using total_addD good_inv [OF w1(2)] by blast
  show "\<exists>w'. combat_without_list e me target w = Some w' \<and> good F w w'"
    using w1 w2 good_trans [OF w1(2) w2(2)] by (cases b) (auto simp: combat_without_list_def)
qed

lemma redirect_loop_good:
  assumes "\<And>g a. total_add F e (add g a)"
  shows "tw_inv {} F w \<Longrightarrow> env_ok e w \<Longrightarrow>
    \<exists>a w'. redirect_loop add e F me orig ps (amount, w) = Some (a, w') \<and> good F w w'"
proof (induction ps arbitrary: amount w)
  case Nil
  then show ?case by (simp add: good_refl)
next
  case (Cons x ps)
  obtain g pct where x: "x = (g, pct)" by (cases x)
  obtain to where to: "(case om_find g (entries w me) of
          Some r \<Rightarrow> map_option (\<lambda>t. Some (tr_victim t)) (tw_refs w r)
        | None \<Rightarrow> Some (if te_unitExists e me g then Some g else None)) = Some to"
    using entry_live [OF Cons.prems(1), of g me] by (cases "om_find g (entries w me)") (auto simp: live_def)
  show ?case
  proof (cases to)
    case None
    with to Cons.IH [OF Cons.prems] show ?thesis by (simp add: x)
  next
    case (Some g')
    obtain w1 where w1: "add g' (CalculatePct F orig pct) w = Some w1" "good F w w1"
      using total_addD [OF assms Cons.prems] by blast
    have "env_ok e w1" using Cons.prems(2) good_env [OF w1(2)] by simp
    from Cons.IH [OF good_inv [OF w1(2)] this, of "fl_sub F amount (CalculatePct F orig pct)"]
    obtain a w2 where w2: "redirect_loop add e F me orig ps (fl_sub F amount (CalculatePct F orig pct), w1) = Some (a, w2)"
      "good F w1 w2" by blast
    with to Some w1 good_trans [OF w1(2) w2(2)] show ?thesis by (simp add: x Let_def)
  qed
qed

lemma add_to_target_good:
  assumes f: "float_ok F" and h: "heap_ok e" and v: "env_ok e w" and i: "tw_inv {} F w"
    and l: "tm_canHaveThreatList (tw_mgr w me)"
  shows "\<exists>w'. Option.bind (SetInCombatWith_full e me target False w) (\<lambda>(b, w).
        if \<not> b then Some w
        else (case om_find target (entries w me) of
                Some r \<Rightarrow> add_to_existing e F r amount w
              | None \<Rightarrow> add_new_ref e F me target amount w)) = Some w' \<and> good F w w'"
proof -
  obtain b w1 where w1: "SetInCombatWith_full e me target False w = Some (b, w1)" "good F w w1"
      "b = IsInCombatWith me target (tw_combat w1)"
    using SetInCombatWith_good [OF i, of e me target False] by blast
  have i1: "tw_inv {} F w1" and v1: "env_ok e w1" and l1: "tm_canHaveThreatList (tw_mgr w1 me)"
    using w1(2) v l good_env [OF w1(2)] by (simp_all add: good_def)
  show ?thesis
  proof (cases b)
    case False
    with w1 show ?thesis by simp
  next
    case True
    obtain w2 where w2: "(case om_find target (entries w1 me) of
                Some r \<Rightarrow> add_to_existing e F r amount w1
              | None \<Rightarrow> add_new_ref e F me target amount w1) = Some w2" "good F w1 w2"
    proof (cases "om_find target (entries w1 me)")
      case None
      then show ?thesis using that add_new_ref_good [OF f h v1 i1 None _ l1, of amount] True w1(3) by auto
    next
      case (Some r)
      obtain t where t: "tw_refs w1 r = Some t" by (rule liveE [OF entry_live [OF i1 Some]])
      show ?thesis using that add_to_existing_ok [OF f i1 t, of e amount] good_keeps Some by auto
    qed
    with True w1(1) good_trans [OF w1(2) w2(2)] show ?thesis by auto
  qed
qed

text \<open>Nobody rides, directly or not, on himself, and ownership of personal spawns is well founded too.\<close>

definition nesting_ok :: "'f threat_env \<Rightarrow> uguid \<Rightarrow> (uguid \<Rightarrow> nat) \<Rightarrow> nat \<Rightarrow> bool" where
  "nesting_ok e me rank N \<longleftrightarrow> (\<forall>t. rank t \<le> N) \<and>
     (\<forall>t v. te_vehicleBase e t = Some v \<longrightarrow> rank v < rank t) \<and>
     (\<forall>t v. private_redirect e me t = Some v \<longrightarrow> rank v < rank t)"

lemma AddThreat_good:
  assumes f: "float_ok F" and h: "heap_ok e" and k: "nesting_ok e me rank N"
  shows "rank target + (if ir then 0 else Suc N) < n \<Longrightarrow> total_add F e (AddThreat n e F me target amount spell im ir)"
proof (induction n arbitrary: target amount im ir)
  case (Suc n)
  show ?case
    unfolding total_add_def
  proof (intro allI impI)
    fix w assume i: "tw_inv {} F w" and v: "env_ok e w"
    show "\<exists>w'. AddThreat (Suc n) e F me target amount spell im ir w = Some w' \<and> good F w w'"
    proof (cases "no_threat_from e me spell")
      case True
      with good_refl [OF i] show ?thesis by simp
    next
      case sp: False
      have "\<exists>fin a1 w1. (case te_vehicleBase e target of
           None \<Rightarrow> Some (False, amount, w)
         | Some vehicle \<Rightarrow> map_option (\<lambda>w. (te_isAccessory e target, fl_zero F, w))
               (AddThreat n e F me vehicle amount spell im ir w)) = Some (fin, a1, w1) \<and> good F w w1"
      proof (cases "te_vehicleBase e target")
        case None
        with good_refl [OF i] show ?thesis by auto
      next
        case (Some u)
        then have "rank u + (if ir then 0 else Suc N) < n" using k Suc.prems by (fastforce simp: nesting_ok_def)
        from total_addD [OF Suc.IH [OF this] i v, of amount im] Some show ?thesis by auto
      qed
      then obtain fin a1 w1 where w1: "(case te_vehicleBase e target of
           None \<Rightarrow> Some (False, amount, w)
         | Some vehicle \<Rightarrow> map_option (\<lambda>w. (te_isAccessory e target, fl_zero F, w))
               (AddThreat n e F me vehicle amount spell im ir w)) = Some (fin, a1, w1)" "good F w w1" by blast
      have i1: "tw_inv {} F w1" and v1: "env_ok e w1" using good_inv [OF w1(2)] good_env [OF w1(2)] v by simp_all
      show ?thesis
      proof (cases fin)
        case True
        with sp w1 show ?thesis by simp
      next
        case nf: False
        have "\<exists>a2 w2. (case private_redirect e me target of
           None \<Rightarrow> Some (a1, w1)
         | Some owner \<Rightarrow> map_option (\<lambda>w. (fl_zero F, w)) (AddThreat n e F me owner a1 spell im ir w1)) = Some (a2, w2)
           \<and> good F w1 w2"
        proof (cases "private_redirect e me target")
          case None
          with good_refl [OF i1] show ?thesis by simp
        next
          case (Some u)
          then have "rank u + (if ir then 0 else Suc N) < n" using k Suc.prems by (fastforce simp: nesting_ok_def)
          from total_addD [OF Suc.IH [OF this] i1 v1, of a1 im] Some show ?thesis by auto
        qed
        then obtain a2 w2 where w2: "(case private_redirect e me target of
           None \<Rightarrow> Some (a1, w1)
         | Some owner \<Rightarrow> map_option (\<lambda>w. (fl_zero F, w)) (AddThreat n e F me owner a1 spell im ir w1)) = Some (a2, w2)"
           "good F w1 w2" by blast
        have i2: "tw_inv {} F w2" and v2: "env_ok e w2" using good_inv [OF w2(2)] good_env [OF w2(2)] v1 by simp_all
        have g2: "good F w w2" using good_trans [OF w1(2) w2(2)] .
        show ?thesis
        proof (cases "tm_canHaveThreatList (tw_mgr w2 me)")
          case False
          obtain w3 where "combat_without_list e me target w2 = Some w3" "good F w2 w3"
            using total_addD [OF combat_without_list_good i2 v2] by blast
          with sp w1(1) nf w2(1) False good_trans [OF g2] show ?thesis by auto
        next
          case l: True
          define a3 where "a3 = (if im then a2 else te_modifiedThreat e a2 target spell)"
          have "\<exists>a4 w3. (if \<not> ir \<and> a3 > fl_zero F
             then redirect_loop (\<lambda>g a. AddThreat n e F me g a spell True True) e F me a3
                (tm_redirectInfo (tw_mgr w2 target)) (a3, w2)
             else Some (a3, w2)) = Some (a4, w3) \<and> good F w2 w3"
          proof (cases "\<not> ir \<and> a3 > fl_zero F")
            case True
            have "total_add F e (AddThreat n e F me g a spell True True)" for g a
            proof (rule Suc.IH)
              have "rank g \<le> N" using k by (simp add: nesting_ok_def)
              moreover have "rank target + Suc N < Suc n" using Suc.prems True by simp
              ultimately show "rank g + (if True then 0 else Suc N) < n" by simp
            qed
            from redirect_loop_good [OF this i2 v2] True show ?thesis by auto
          qed (use good_refl [OF i2] in auto)
          then obtain a4 w3 where w3: "(if \<not> ir \<and> a3 > fl_zero F
             then redirect_loop (\<lambda>g a. AddThreat n e F me g a spell True True) e F me a3
                (tm_redirectInfo (tw_mgr w2 target)) (a3, w2)
             else Some (a3, w2)) = Some (a4, w3)" "good F w2 w3" by blast
          have i3: "tw_inv {} F w3" "env_ok e w3" "tm_canHaveThreatList (tw_mgr w3 me)"
            using good_inv [OF w3(2)] good_env [OF w3(2)] v2 l w3(2) by (simp_all add: good_def)
          from add_to_target_good [OF f h i3(2,1,3), of target a4] obtain w4 where w4:
            "Option.bind (SetInCombatWith_full e me target False w3) (\<lambda>(b, w).
                if \<not> b then Some w
                else (case om_find target (entries w me) of
                Some r \<Rightarrow> add_to_existing e F r a4 w
              | None \<Rightarrow> add_new_ref e F me target a4 w)) = Some w4" "good F w3 w4" by blast
          have "AddThreat (Suc n) e F me target amount spell im ir w = Some w4"
            using sp nf l w4(1) unfolding AddThreat.simps(2) w1(1) Option.bind.bind_lunit case_prod_conv w2(1) Let_def
              a3_def [symmetric] w3(1) by simp
          with good_trans [OF good_trans [OF g2 w3(2)] w4(2)] show ?thesis by blast
        qed
      qed
    qed
  qed
qed simp

end
