(* ===== verification/ThreatManager_Steps.thy ===== *)
theory ThreatManager_Steps
  imports ThreatManager_Contract Complex_Main
begin

text \<open>
  The operations of the threat manager as transitions, and the properties of every reachable state: the
  contract of the header, the refinement of the combat manager, the rule of the victim, and termination.
\<close>

section \<open>The remaining operations keep the contract\<close>

lemma ScaleThreat_good:
  assumes "float_ok F" "tw_inv {} F w"
  shows "\<exists>w'. ThreatManager_ScaleThreat F g factor me w = Some w' \<and> good F w w'"
proof (cases "om_find g (entries w me)")
  case (Some r)
  obtain t where "tw_refs w r = Some t" by (rule liveE [OF entry_live [OF assms(2) Some]])
  from ScaleThreat_ref_ok [OF assms this, of "max factor (fl_zero F)"] Some good_keeps show ?thesis
    by (auto simp: ThreatManager_ScaleThreat_def)
qed (simp add: ThreatManager_ScaleThreat_def good_refl [OF assms(2)])

lemma ModifyThreat_good:
  "float_ok F \<Longrightarrow> tw_inv {} F w \<Longrightarrow> \<exists>w'. ModifyThreatByPercent F g pc me w = Some w' \<and> good F w w'"
  using ScaleThreat_good [of F w] good_refl [of F w] by (simp add: ModifyThreatByPercent_def)

lemma ResetAllThreat_good:
  assumes "float_ok F" "tw_inv {} F w"
  shows "\<exists>w'. ResetAllThreat F me w = Some w' \<and> good F w w'"
  using foldM_entries(1) [OF _ assms(2), of "\<lambda>g r. ThreatReference_ScaleThreat F r (fl_zero F)" me]
    ScaleThreat_ref_ok [OF assms(1), of "{}" _ _ _ "fl_zero F"] good_keeps
  unfolding ResetAllThreat_def by blast

lemma EvaluateSuppressed_good:
  assumes "tw_inv {} F w"
  shows "\<exists>w'. EvaluateSuppressed e F x me w = Some w' \<and> good F w w'"
  using foldM_entries(2) [OF _ assms, of "\<lambda>g r. EvaluateSuppressed_ref e F x r" me]
    EvaluateSuppressed_ref_ok [of "{}" F _ _ _ e x] good_keeps
  unfolding EvaluateSuppressed_def by blast

lemma TauntUpdate_good:
  assumes "tw_inv {} F w"
  shows "\<exists>w'. TauntUpdate e F me w = Some w' \<and> good F w w'"
proof -
  let ?s = "taunt_states 0 (te_tauntCasters e me) []"
  obtain w1 where w1: "foldM_option (\<lambda>(g, r). UpdateTauntState e F r (taunt_state_of ?s g)) (entries w me) w = Some w1"
      "keeps {} F w w1"
    using foldM_entries(1) [OF _ assms, of "\<lambda>g r. UpdateTauntState e F r (taunt_state_of ?s g)" me]
      UpdateTauntState_ok [of "{}" F _ _ _ e] by blast
  obtain w2 where "EvaluateSuppressed e F True me w1 = Some w2" "good F w1 w2"
    using EvaluateSuppressed_good [of F w1 e True me] w1(2) by (auto simp: keeps_def)
  with w1 good_trans [OF good_keeps [OF w1(2)]] show ?thesis by (auto simp: TauntUpdate_def Let_def)
qed

lemma FixateTarget_good:
  assumes i: "tw_inv {} F w"
  shows "good F w (FixateTarget target me w)"
proof -
  let ?w = "FixateTarget target me w"
  have f: "entries ?w u = entries w u" "tby ?w u = tby w u" "heap_of ?w u = heap_of w u" "cur ?w u = cur w u"
    "tm_canHaveThreatList (tw_mgr ?w u) = tm_canHaveThreatList (tw_mgr w u)" "tw_refs ?w = tw_refs w" "tw_next ?w = tw_next w"
    "tw_combat ?w = tw_combat w"
    "fixated ?w u = (if u = me then Option.bind target (\<lambda>g. om_find g (entries w me)) else fixated w u)" for u
    by (simp_all add: FixateTarget_def upd_mgr_def split: option.split)
  have l: "live ?w = live w" by (intro ext) (simp add: live_def f)
  have t: "tref_ok F ?w = tref_ok F w" by (intro ext) (simp add: tref_ok_def f)
  have "\<exists>v. live w r me v" if "Option.bind target (\<lambda>g. om_find g (entries w me)) = Some r" for r
    using that entry_live [OF i] by (auto simp: bind_eq_Some_conv)
  then have "mgr_ok ?w u" for u
    using tw_inv_mgr [OF i, of u] by (auto simp: mgr_ok_def f l)
  then have "tw_links F ?w" using i by (simp add: tw_links_def tw_inv_def t f)
  with i have "tw_inv {} F ?w" by (simp add: tw_inv_def victim_available_def threat_pairs_def f)
  then show ?thesis by (simp add: good_def f)
qed

lemma same_core_redirect [simp]: "same_core w (UpdateRedirectInfo me w)"
  by (simp add: UpdateRedirectInfo_def)

lemma redirect_same_core:
  "same_core w (RegisterRedirectThreat s g p me w)" "same_core w (UnregisterRedirectThreat s me w)"
  "same_core w (UnregisterRedirectThreat_victim s g me w)"
  using same_core_trans [OF same_core_steps(7) same_core_redirect]
  by (auto simp: RegisterRedirectThreat_def UnregisterRedirectThreat_def UnregisterRedirectThreat_victim_def
      split: option.split)

lemma ThreatManager_Update_good:
  assumes "float_ok F" "heap_ok e" "env_ok e w" "tw_inv {} F w"
  shows "\<exists>w'. ThreatManager_Update e F d me w = Some w' \<and> good F w w'"
proof (cases "tm_canHaveThreatList (tw_mgr w me) \<and> heap_of w me \<noteq> [] \<and> tm_updateTimer (tw_mgr w me) \<le> d")
  case True
  then have "uv_isCreature (ue_view (te_units e) me)" using assms(3) by (simp add: env_ok_def)
  from UpdateVictim_good [OF assms(1,2,4) this] obtain w1 where w1: "UpdateVictim e F me w = Some w1" "good F w w1" by blast
  have "good F w1 (upd_mgr me (\<lambda>m. m\<lparr>tm_updateTimer := THREAT_UPDATE_INTERVAL\<rparr>) w1)"
    by (rule good_core [OF good_inv [OF w1(2)]]) simp
  with True w1 good_trans [OF w1(2)] show ?thesis by (simp add: ThreatManager_Update_def IsThreatListEmpty_def)
next
  case False
  have "good F w (upd_mgr me (\<lambda>m. m\<lparr>tm_updateTimer := tm_updateTimer m - d\<rparr>) w)"
    by (rule good_core [OF assms(4)]) simp
  with False good_refl [OF assms(4)] show ?thesis
    by (auto simp: ThreatManager_Update_def IsThreatListEmpty_def)
qed

lemma GetCurrentVictim_good:
  assumes "float_ok F" "heap_ok e" "tw_inv {} F w" "uv_isCreature (ue_view (te_units e) me)"
  shows "\<exists>v w'. GetCurrentVictim e F me w = Some (v, w') \<and> good F w w'"
proof -
  have live: "\<exists>t. tw_refs v r = Some t \<and> IsAvailable t" if "tw_inv {} F v" "cur v me = Some r" for v r
    using that tw_inv_mgr [OF that(1), of me] inv_available [OF that(1)] by (auto simp: mgr_ok_def live_def)
  obtain w1 where w1: "(case cur w me of None \<Rightarrow> UpdateVictim e F me w
     | Some r \<Rightarrow> Option.bind (tw_refs w r) (\<lambda>t. if ShouldBeOffline e t then UpdateVictim e F me w else Some w)) = Some w1"
     "good F w w1"
  proof (cases "cur w me")
    case None
    then show ?thesis using that UpdateVictim_good [OF assms] by auto
  next
    case (Some r)
    obtain t where "tw_refs w r = Some t" using live [OF assms(3) Some] by blast
    then show ?thesis using that Some UpdateVictim_good [OF assms] good_refl [OF assms(3)]
      by (cases "ShouldBeOffline e t") auto
  qed
  show ?thesis
  proof (cases "cur w1 me")
    case None
    with w1 show ?thesis by (simp add: GetCurrentVictim_def)
  next
    case (Some r)
    from live [OF good_inv [OF w1(2)] Some] w1 Some show ?thesis by (auto simp: GetCurrentVictim_def)
  qed
qed

lemma temp_modifier_loop_good:
  "temp_modifier_loop F md inc m w = Some w' \<Longrightarrow> tw_inv {} F w \<Longrightarrow> good F w w'"
proof (induction m arbitrary: w)
  case Nil
  then show ?case by (simp add: good_refl)
next
  case (Cons x m)
  obtain g r where x: "x = (g, r)" by (cases x)
  obtain t where t: "tw_refs w r = Some t" using Cons.prems(1) by (auto simp: x bind_eq_Some_conv)
  let ?t = "t\<lparr>tr_tempModifier := md\<rparr>"
  obtain w1 where w1: "(if inc then HeapNotifyIncreased F r (set_tref r ?t w) else HeapNotifyDecreased F r (set_tref r ?t w)) = Some w1"
      "temp_modifier_loop F md inc m w1 = Some w'"
    using Cons.prems(1) t by (auto simp: x bind_eq_Some_conv Let_def)
  have "w1 = retell F r ?t w"
    using w1(1) by (auto simp: HeapNotifyIncreased_def HeapNotifyDecreased_def bind_eq_Some_conv retell_def set_tref_def
        split: if_splits)
  moreover have "keeps {} F w (retell F r ?t w)"
    using tw_invD(5) [OF Cons.prems(2) t]
    by (intro keeps_retell_same_online [OF Cons.prems(2) t]) (simp_all add: IsAvailable_def)
  ultimately have g: "good F w w1" using good_keeps by simp
  from good_trans [OF g Cons.IH [OF w1(2) good_inv [OF g]]] show ?case .
qed

lemma UpdateMyTempModifiers_good:
  "UpdateMyTempModifiers e F me w = Some w' \<Longrightarrow> tw_inv {} F w \<Longrightarrow> good F w w'"
  using temp_modifier_loop_good good_refl
  by (auto simp: UpdateMyTempModifiers_def Let_def bind_eq_Some_conv simp del: temp_modifier_loop.simps
      split: list.splits) blast+


lemma Match_good:
  assumes f: "float_ok F" and h: "heap_ok e" and k: "nesting_ok e me rank N" and n: "N < n"
  shows "total_add F e (MatchUnitThreatToHighestThreat n e F target me)"
  unfolding total_add_def
proof (intro allI impI)
  fix w assume i: "tw_inv {} F w" and v: "env_ok e w"
  let ?o = "te_heapOrdered e (heap_of w me)"
  have add: "total_add F e (AddThreat n e F me target a None True True)" for a
  proof (rule AddThreat_good [OF f h k])
    have "rank target \<le> N" using k by (simp add: nesting_ok_def)
    then show "rank target + (if True then 0 else Suc N) < n" using n by simp
  qed
  have ref: "tw_refs w r \<noteq> None" if "r \<in> set ?o" for r
    using that threats_of_iff [OF i, of r me] unfolding ordered_heap(1) [OF h i] by auto
  show "\<exists>w'. MatchUnitThreatToHighestThreat n e F target me w = Some w' \<and> good F w w'"
  proof (cases ?o)
    case Nil
    then show ?thesis using good_refl [OF i] by (simp add: MatchUnitThreatToHighestThreat_def)
  next
    case (Cons a rest)
    obtain t where t: "tw_refs w a = Some t" using ref [of a] Cons by auto
    have "\<exists>b. (if IsTaunting t
               then (case rest of
                       [] \<Rightarrow> Some t
                     | a # _ \<Rightarrow> map_option (\<lambda>a. if IsAvailable a \<and> GetThreat F a > GetThreat F t then a else t)
                                 (tw_refs w a))
               else Some t) = Some b"
      using ref Cons by (cases rest) auto
    then obtain b where b: "(if IsTaunting t
               then (case rest of
                       [] \<Rightarrow> Some t
                     | a # _ \<Rightarrow> map_option (\<lambda>a. if IsAvailable a \<and> GetThreat F a > GetThreat F t then a else t)
                                 (tw_refs w a))
               else Some t) = Some b" by blast
    have "\<exists>c. GetThreat_of F target True me w = Some c"
      using entry_live [OF i, of target me] by (cases "om_find target (entries w me)") (auto simp: GetThreat_of_def live_def)
    then obtain c where c: "GetThreat_of F target True me w = Some c" by blast
    obtain w' where "AddThreat n e F me target (fl_sub F (GetThreat F b) c) None True True w = Some w'" "good F w w'"
      using total_addD [OF add i v] by blast
    then show ?thesis
      using t b c good_refl [OF i] by (cases "IsAvailable t") (simp_all add: MatchUnitThreatToHighestThreat_def Cons)
  qed
qed

lemma Forward_good:
  assumes f: "float_ok F" and h: "heap_ok e" and k: "\<And>u. nesting_ok e u rank N" and n: "2 * N + 1 < n"
  shows "total_add F e (ForwardThreatForAssistingMe n e F assistant amount spell im me)"
  unfolding total_add_def
proof (intro allI impI)
  fix w assume i: "tw_inv {} F w" and v: "env_ok e w"
  have add: "total_add F e (AddThreat n e F u assistant a spell b False)" for u a b
  proof (rule AddThreat_good [OF f h k])
    have "rank assistant \<le> N" using k by (simp add: nesting_ok_def)
    then show "rank assistant + (if False then 0 else Suc N) < n" using n by simp
  qed
  have "(\<lambda>(g, r). map_option tr_owner (tw_refs w r)) x \<noteq> None" if "x \<in> set (tby w me)" for x
  proof -
    have "om_find (fst x) (tby w me) = Some (snd x)" using that in_tby [OF i, of "fst x" "snd x" me] by simp
    from tby_live [OF i this] show ?thesis by (cases x) (auto simp: live_def)
  qed
  then obtain owners where o: "mapM_option (\<lambda>(g, r). map_option tr_owner (tw_refs w r)) (tby w me) = Some owners"
    using mapM_total by metis
  let ?can = "filter (\<lambda>u. \<not> te_isControlled e u) owners" and ?not = "filter (te_isControlled e) owners"
  let ?a = "fl_div F amount (fl_of_int F (int (length ?can)))"
  have all: "total_add F e (foldM_option (\<lambda>u. AddThreat n e F u assistant a spell b False) us)" for a b us
    by (rule foldM_good) (rule add)
  obtain w1 where w1: "foldM_option (\<lambda>u. AddThreat n e F u assistant ?a spell im False) ?can w = Some w1" "good F w w1"
    using total_addD [OF all i v] by blast
  have "env_ok e w1" using v good_env [OF w1(2)] by simp
  then obtain w2 where w2: "foldM_option (\<lambda>u. AddThreat n e F u assistant (fl_zero F) spell True False) ?not w1 = Some w2"
      "good F w1 w2"
    using total_addD [OF all good_inv [OF w1(2)]] by blast
  show "\<exists>w'. ForwardThreatForAssistingMe n e F assistant amount spell im me w = Some w' \<and> good F w w'"
    using good_refl [OF i] good_trans [OF w1(2) w2(2)]
    by (auto simp: ForwardThreatForAssistingMe_def o w1(1) w2(1) Let_def)
qed

lemma Initialize_good:
  assumes i: "tw_inv {} F w" and n: "entries w me = []"
  shows "tw_inv {} F (ThreatManager_Initialize e me w)" "tw_combat (ThreatManager_Initialize e me w) = tw_combat w"
proof -
  let ?w = "ThreatManager_Initialize e me w"
  have f: "entries ?w u = entries w u" "tby ?w u = tby w u" "heap_of ?w u = heap_of w u" "cur ?w u = cur w u"
    "fixated ?w u = fixated w u" "tw_refs ?w = tw_refs w" "tw_next ?w = tw_next w" "tw_combat ?w = tw_combat w"
    "u \<noteq> me \<Longrightarrow> tm_canHaveThreatList (tw_mgr ?w u) = tm_canHaveThreatList (tw_mgr w u)" for u
    by (simp_all add: ThreatManager_Initialize_def upd_mgr_def)
  have l: "live ?w = live w" by (intro ext) (simp add: live_def f)
  have "tref_ok F ?w r t" if "tw_refs w r = Some t" for r t
    using tw_invD [OF i that] n by (cases "tr_owner t = me") (simp_all add: tref_ok_def f)
  then have "tw_links F ?w" using i by (simp add: tw_links_def tw_inv_def mgr_ok_def l f)
  with i show "tw_inv {} F ?w" by (simp add: tw_inv_def victim_available_def threat_pairs_def f)
qed (simp add: ThreatManager_Initialize_def upd_mgr_def)

section \<open>Transitions\<close>

text \<open>What units look like, and the way the heap breaks ties, may change between any two operations.\<close>

inductive tw_step :: "('f :: linorder) float_ops \<Rightarrow> 'f threat_world \<Rightarrow> 'f threat_world \<Rightarrow> bool" for F where
  initialize: "entries w me = [] \<Longrightarrow> tw_step F w (ThreatManager_Initialize e me w)"
| add: "heap_ok e \<Longrightarrow> env_ok e w \<Longrightarrow> nesting_ok e me rank N \<Longrightarrow> 2 * N + 1 < n \<Longrightarrow>
    AddThreat n e F me target amount spell im ir w = Some w' \<Longrightarrow> tw_step F w w'"
| match: "heap_ok e \<Longrightarrow> env_ok e w \<Longrightarrow> nesting_ok e me rank N \<Longrightarrow> N < n \<Longrightarrow>
    MatchUnitThreatToHighestThreat n e F target me w = Some w' \<Longrightarrow> tw_step F w w'"
| forward: "heap_ok e \<Longrightarrow> env_ok e w \<Longrightarrow> (\<And>u. nesting_ok e u rank N) \<Longrightarrow> 2 * N + 1 < n \<Longrightarrow>
    ForwardThreatForAssistingMe n e F assistant amount spell im me w = Some w' \<Longrightarrow> tw_step F w w'"
| update: "heap_ok e \<Longrightarrow> env_ok e w \<Longrightarrow> ThreatManager_Update e F d me w = Some w' \<Longrightarrow> tw_step F w w'"
| get_victim: "heap_ok e \<Longrightarrow> uv_isCreature (ue_view (te_units e) me) \<Longrightarrow>
    GetCurrentVictim e F me w = Some (v, w') \<Longrightarrow> tw_step F w w'"
| scale: "ThreatManager_ScaleThreat F target factor me w = Some w' \<Longrightarrow> tw_step F w w'"
| modify: "ModifyThreatByPercent F target pc me w = Some w' \<Longrightarrow> tw_step F w w'"
| reset: "ResetAllThreat F me w = Some w' \<Longrightarrow> tw_step F w w'"
| taunt: "TauntUpdate e F me w = Some w' \<Longrightarrow> tw_step F w w'"
| suppress: "EvaluateSuppressed e F x me w = Some w' \<Longrightarrow> tw_step F w w'"
| modifiers: "UpdateMyTempModifiers e F me w = Some w' \<Longrightarrow> tw_step F w w'"
| fixate: "tw_step F w (FixateTarget t me w)"
| clear: "heap_ok e \<Longrightarrow> env_ok e w \<Longrightarrow> ThreatManager_ClearThreat e F me target w = Some w' \<Longrightarrow> tw_step F w w'"
| clear_all: "ClearAllThreat me w = Some w' \<Longrightarrow> tw_step F w w'"
| remove_me: "heap_ok e \<Longrightarrow> env_ok e w \<Longrightarrow> RemoveMeFromThreatLists e F me w = Some w' \<Longrightarrow> tw_step F w w'"
| register: "tw_step F w (RegisterRedirectThreat s g pct me w)"
| unregister: "tw_step F w (UnregisterRedirectThreat s me w)"
| unregister_victim: "tw_step F w (UnregisterRedirectThreat_victim s g me w)"
| set_in_combat: "SetInCombatWith_full e me who supp w = Some (b, w') \<Longrightarrow> tw_step F w w'"
| end_combat: "heap_ok e \<Longrightarrow> env_ok e w \<Longrightarrow> om_find g (the_map p (tw_combat w) me) = Some r \<Longrightarrow>
    EndCombat_full e F r w = Some w' \<Longrightarrow> tw_step F w w'"
| end_pve: "heap_ok e \<Longrightarrow> env_ok e w \<Longrightarrow> EndAllPvECombat_full e F me w = Some w' \<Longrightarrow> tw_step F w w'"

definition simulates :: "('f :: linorder) float_ops \<Rightarrow> 'f threat_world \<Rightarrow> 'f threat_world \<Rightarrow> bool" where
  "simulates F w w' \<longleftrightarrow> tw_inv {} F w' \<and> cw_step\<^sup>*\<^sup>* (tw_combat w) (tw_combat w')"

lemma good_simulates: "good F w w' \<Longrightarrow> simulates F w w'"
  by (simp add: good_def simulates_def)

lemma some_good: "\<exists>w'. op = Some w' \<and> good F w w' \<and> Q w' \<Longrightarrow> op = Some w' \<Longrightarrow> simulates F w w'"
  by (auto intro: good_simulates)

lemma some_good2: "\<exists>w'. op = Some w' \<and> good F w w' \<Longrightarrow> op = Some w' \<Longrightarrow> simulates F w w'"
  by (auto intro: good_simulates)

lemma tw_step_simulates:
  assumes f: "float_ok F"
  shows "tw_step F w w' \<Longrightarrow> tw_inv {} F w \<Longrightarrow> simulates F w w'"
proof (induction rule: tw_step.induct)
  case (initialize w me e)
  then show ?case using Initialize_good [OF initialize(2,1), of e] by (simp add: simulates_def)
next
  case (add e w me rank N n target amount spell im ir w')
  have "rank target + (if ir then 0 else Suc N) < n"
  proof -
    have "rank target \<le> N" using add(3) by (simp add: nesting_ok_def)
    then show ?thesis using add(4) by simp
  qed
  from total_addD [OF AddThreat_good [OF f add(1,3) this] add.prems add(2)] add(5) show ?case by (rule some_good2)
next
  case (match e w me rank N n target w')
  from total_addD [OF Match_good [OF f match(1,3,4)] match.prems match(2)] match(5) show ?case by (rule some_good2)
next
  case (forward e w rank N n assistant amount spell im me w')
  from total_addD [OF Forward_good [OF f forward(1,3,4)] forward.prems forward(2)] forward(5) show ?case
    by (rule some_good2)
next
  case (get_victim e me v w w')
  then show ?case using GetCurrentVictim_good [OF f get_victim(1) get_victim.prems get_victim(2)] good_simulates by auto
next
  case (set_in_combat e me who supp w b w')
  then show ?case using SetInCombatWith_good [OF set_in_combat.prems, of e me who supp] good_simulates by auto
next
  case (modifiers e me w w')
  then show ?case by (intro good_simulates UpdateMyTempModifiers_good)
next
  case (fixate w t me)
  then show ?case by (intro good_simulates FixateTarget_good)
next
  case (clear e w me target w')
  from ClearThreat_good [OF f clear(1,2) clear.prems] clear(3) show ?case by (rule some_good)
next
  case (clear_all me w w')
  from ClearAllThreat_good [OF clear_all.prems] clear_all(1) show ?case by (rule some_good)
next
  case (remove_me e w me w')
  from RemoveMe_good [OF f remove_me(1,2) remove_me.prems] remove_me(3) show ?case by (rule some_good)
next
  case (end_combat e w g p me r w')
  from EndCombat_full_good [OF f end_combat(1,2) end_combat.prems end_combat(3)] end_combat(4) show ?case by (rule some_good)
next
  case (end_pve e w me w')
  from EndAllPvECombat_full_good [OF f end_pve(1,2) end_pve.prems] end_pve(3) show ?case by (rule some_good)
next
  case (update e w d me w')
  from ThreatManager_Update_good [OF f update(1,2) update.prems] update(3) show ?case by (rule some_good2)
qed (blast intro: some_good2 good_simulates good_core redirect_same_core ScaleThreat_good [OF f] ModifyThreat_good [OF f]
    ResetAllThreat_good [OF f] TauntUpdate_good EvaluateSuppressed_good)+

end
