(* ===== verification/ThreatManager_Props.thy ===== *)
theory ThreatManager_Props
  imports ThreatManager_Steps
begin

text \<open>
  The properties of the threat manager, on every state its operations can reach, and a concrete fight in which
  they are instantiated: numbers for floats, a sorted list for the heap, creatures in an open field.
\<close>

section \<open>A concrete fight\<close>

definition real_floats :: "real float_ops" where
  "real_floats = \<lparr>fl_zero = 0, fl_one = 1, fl_w110 = 11 / 10, fl_w130 = 13 / 10, fl_c001 = 1 / 100,
     fl_add = (+), fl_sub = (-), fl_mul = (*), fl_div = (/), fl_of_int = real_of_int\<rparr>"

lemma real_floats_ok: "float_ok real_floats"
proof -
  have "x \<le> x * y" if "0 \<le> x" "1 \<le> y" for x y :: real using mult_left_mono [OF that(2,1)] by simp
  then show ?thesis by (auto simp: float_ok_def real_floats_def mult_left_mono mult_left_le)
qed

definition list_top :: "(addr \<times> 'f :: linorder heap_key) list \<Rightarrow> addr" where
  "list_top h = (case sort_key snd h of [] \<Rightarrow> 0 | x # xs \<Rightarrow> fst (last (x # xs)))"

definition list_ordered :: "('f :: linorder) threat_heap \<Rightarrow> addr list" where
  "list_ordered h = map fst (rev (sort_key snd h))"

definition open_field :: "real threat_env" where
  "open_field = \<lparr>te_units = field_env, te_canSeeOrDetect = (\<lambda>_ _. True), te_isTargetAcceptable = (\<lambda>_ _. True),
     te_canCreatureAttack = (\<lambda>_ _. True), te_isTrigger = (\<lambda>_. False), te_isPet = (\<lambda>_. False), te_isTotem = (\<lambda>_. False),
     te_isMinionOrGuardian = (\<lambda>_. False), te_summonerIsPlayer = (\<lambda>_. False), te_immuneToMeleeOf = (\<lambda>_ _. False),
     te_isConfused = (\<lambda>_. False), te_isBreakablyStunned = (\<lambda>_. False), te_isDetauntedBy = (\<lambda>_ _. False),
     te_withinMeleeRange = (\<lambda>_ _. True), te_isEngaged = (\<lambda>_. True), te_isControlled = (\<lambda>_. False),
     te_vehicleBase = (\<lambda>_. None), te_isAccessory = (\<lambda>_. False), te_isPrivateObject = (\<lambda>_. False),
     te_privateVisible = (\<lambda>_ _. False), te_privateOwner = (\<lambda>_ _. None), te_unitExists = (\<lambda>_ _. True),
     te_tauntCasters = (\<lambda>_. []), te_totalThreatMods = (\<lambda>_. []), te_modifiedThreat = (\<lambda>a _ _. a),
     te_heapTop = list_top, te_heapOrdered = list_ordered\<rparr>"

lemma sort_last:
  assumes "h \<noteq> []"
  shows "sort_key f h \<noteq> [] \<and> last (sort_key f h) \<in> set h \<and> (\<forall>x \<in> set h. f x \<le> f (last (sort_key f h)))"
proof -
  have n: "sort_key f h \<noteq> []" using assms by (metis length_0_conv length_sort)
  have "f x \<le> f (last (sort_key f h))" if "x \<in> set h" for x
  proof -
    have "f x \<in> set (map f (sort_key f h))" using that by simp
    moreover have "sorted (map f (sort_key f h))" by simp
    moreover have "last (map f (sort_key f h)) = f (last (sort_key f h))" using n by (rule last_map)
    ultimately show ?thesis using n
      by (metis append_butlast_last_id list.map_disc_iff sorted_append set_append Un_iff empty_iff insert_iff
          list.set order_refl)
  qed
  with n last_in_set [OF n] show ?thesis by simp
qed

lemma heap_ok_field: "heap_ok open_field"
  unfolding heap_ok_def
proof (intro conjI allI impI)
  fix h :: "real threat_heap" assume "h \<noteq> []"
  note l = sort_last [OF this, of snd]
  have "list_top h = fst (last (sort_key snd h))" using l by (simp add: list_top_def split: list.split)
  with l show "\<exists>k. (te_heapTop open_field h, k) \<in> set h \<and> (\<forall>x \<in> set h. snd x \<le> k)"
    by (intro exI [of _ "snd (last (sort_key snd h))"]) (simp add: open_field_def)
next
  fix h :: "real threat_heap"
  have "sorted_wrt (\<lambda>x y. snd x \<le> snd y) (sort_key snd h)"
    using sorted_sort_key [of snd h] by (simp add: sorted_map)
  then show "\<exists>h'. mset h' = mset h \<and> sorted_wrt (\<lambda>x y. snd y \<le> snd x) h' \<and> te_heapOrdered open_field h = map fst h'"
    by (intro exI [of _ "rev (sort_key snd h)"]) (simp add: open_field_def list_ordered_def sorted_wrt_rev)
qed

lemma open_field_ok [simp]: "env_ok open_field w" "nesting_ok open_field u (\<lambda>_. 0) 0"
  by (simp_all add: env_ok_def nesting_ok_def open_field_def field_env_def field_unit_def private_redirect_def)

text \<open>Creatures are created and attack the same target one after the other.\<close>

definition fight_starts :: "uguid list \<Rightarrow> uguid \<Rightarrow> real threat_world option" where
  "fight_starts us target =
     foldM_option (\<lambda>u. AddThreat 2 open_field real_floats u target 100 None True True) us
       (fold (ThreatManager_Initialize open_field) us threat_world_new)"

lemma tw_inv_new: "tw_inv {} F threat_world_new"
  by (simp add: tw_inv_def tw_links_def mgr_ok_def victim_available_def threat_pairs_def threat_world_new_def
      ThreatManager_new_def cw_inv_new) (simp add: combat_world_new_def)

lemma tw_combat_new [simp]: "tw_combat threat_world_new = combat_world_new"
  by (simp add: threat_world_new_def)

lemma tw_reachable:
  assumes "float_ok F" "(tw_step F)\<^sup>*\<^sup>* threat_world_new w"
  shows "tw_inv {} F w \<and> cw_step\<^sup>*\<^sup>* combat_world_new (tw_combat w)"
  using assms(2)
proof (induction rule: rtranclp_induct)
  case base
  show ?case using tw_inv_new by simp
next
  case (step w w')
  with tw_step_simulates [OF assms(1) step.hyps(2)] show ?case by (auto simp: simulates_def)
qed

lemmas tw_reachable_inv = tw_reachable [THEN conjunct1]

lemma initialized_reachable:
  "(\<forall>u. entries w u = []) \<Longrightarrow> (tw_step F)\<^sup>*\<^sup>* threat_world_new w \<Longrightarrow>
    (tw_step F)\<^sup>*\<^sup>* threat_world_new (fold (ThreatManager_Initialize e) us w)"
proof (induction us arbitrary: w)
  case (Cons u us)
  have "tw_step F w (ThreatManager_Initialize e u w)" using Cons.prems(1) by (intro tw_step.initialize) simp
  moreover have "\<forall>v. entries (ThreatManager_Initialize e u w) v = []"
    using Cons.prems(1) by (simp add: ThreatManager_Initialize_def upd_mgr_def)
  ultimately show ?case using Cons.IH Cons.prems(2) by (simp add: rtranclp.rtrancl_into_rtrancl)
qed simp

lemma adds_reachable:
  "foldM_option (\<lambda>u. AddThreat 2 open_field real_floats u g 100 None True True) us w = Some w' \<Longrightarrow>
    (tw_step real_floats)\<^sup>*\<^sup>* threat_world_new w \<Longrightarrow> (tw_step real_floats)\<^sup>*\<^sup>* threat_world_new w'"
proof (induction us arbitrary: w)
  case (Cons u us)
  obtain v where v: "AddThreat 2 open_field real_floats u g 100 None True True w = Some v"
      "foldM_option (\<lambda>u. AddThreat 2 open_field real_floats u g 100 None True True) us v = Some w'"
    using Cons.prems(1) by (auto simp: bind_eq_Some_conv simp del: AddThreat.simps)
  have "tw_step real_floats w v" by (rule tw_step.add [OF heap_ok_field open_field_ok _ v(1)]) simp
  with Cons.IH [OF v(2)] Cons.prems(2) show ?case by (simp add: rtranclp.rtrancl_into_rtrancl)
qed simp

lemma fight_reachable: "fight_starts us g = Some w \<Longrightarrow> (tw_step real_floats)\<^sup>*\<^sup>* threat_world_new w"
  unfolding fight_starts_def
  by (erule adds_reachable) (rule initialized_reachable; simp add: threat_world_new_def ThreatManager_new_def)

text \<open>Creature 1 attacks creature 2.\<close>

lemma first_fight:
  obtains w where "(tw_step real_floats)\<^sup>*\<^sup>* threat_world_new w" "fight_starts [1] 2 = Some w" "entries w 1 = [(2, 0)]"
    "cur w 1 = Some 0"
proof -
  have e: "map_option (\<lambda>w. (entries w 1, cur w 1)) (fight_starts [1] 2) = Some ([(2, 0)], Some 0)" by code_simp
  then obtain w where w: "fight_starts [1] 2 = Some w" by (cases "fight_starts [1] 2") auto
  with fight_reachable [OF w] e that show ?thesis by simp
qed

section \<open>Properties\<close>

text \<open>
  C2: The contract of the threat manager, after any sequence of its operations: the unsorted list of an owner, the heap of an owner and the
  threatened-by-me list of a victim hold exactly the threat references of that owner and that victim, each once, the heap
  under its current key, and nothing else; so each reference stands in exactly three places and none of them keeps a
  pointer to a reference that was freed. Its owner is in combat with its victim. The victim that a manager has selected is one
  of its references and not offline, and the one it is fixated on is one of its references.
\<close>

theorem ThreatManager_contract:
  assumes "float_ok F" "(tw_step F)\<^sup>*\<^sup>* threat_world_new w"
  shows "(om_find g (tm_myThreatListEntries (tw_mgr w u)) = Some r \<longleftrightarrow> (\<exists>t. tw_refs w r = Some t \<and> tr_owner t = u \<and> tr_victim t = g)) \<and>
    (om_find u (tm_threatenedByMe (tw_mgr w g)) = Some r \<longleftrightarrow> (\<exists>t. tw_refs w r = Some t \<and> tr_owner t = u \<and> tr_victim t = g)) \<and>
    (map_of (tm_sortedThreatList (tw_mgr w u)) r = Some k \<longleftrightarrow> (\<exists>t. tw_refs w r = Some t \<and> tr_owner t = u \<and> k = heap_key_of F t)) \<and>
    distinct (map fst (tm_sortedThreatList (tw_mgr w u))) \<and>
    (tw_refs w r = Some t \<longrightarrow> IsInCombatWith (tr_owner t) (tr_victim t) (tw_combat w)) \<and>
    (tm_currentVictimRef (tw_mgr w u) = Some r \<longrightarrow> (\<exists>t. tw_refs w r = Some t \<and> tr_owner t = u \<and> IsAvailable t)) \<and>
    (tm_fixateRef (tw_mgr w u) = Some r \<longrightarrow> (\<exists>t. tw_refs w r = Some t \<and> tr_owner t = u))"
proof -
  note i = tw_reachable_inv [OF assms]
  note d = tw_invD [OF i]
  note m = tw_inv_mgr [OF i]
  have "IsInCombatWith (tr_owner t) (tr_victim t) (tw_combat w)" if "tw_refs w r = Some t"
  proof -
    have "(tr_owner t, tr_victim t) \<in> set (cw_threat (tw_combat w))"
      using i d(2) [OF that] by (simp add: tw_inv_def threat_pairs_def)
    then show ?thesis using i by (auto simp: tw_inv_def cw_inv_def cw_threats_def)
  qed
  moreover have "\<exists>t. tw_refs w r = Some t \<and> tr_owner t = u \<and> IsAvailable t" if "cur w u = Some r"
  proof -
    have "\<exists>t. tw_refs w r = Some t \<and> tr_owner t = u" using m [of u] that by (auto simp: mgr_ok_def live_def)
    then obtain t where t: "tw_refs w r = Some t" "tr_owner t = u" by blast
    with inv_available [OF i t(1)] that show ?thesis by simp
  qed
  moreover have "om_find g (entries w u) = Some r \<longleftrightarrow> (\<exists>t. tw_refs w r = Some t \<and> tr_owner t = u \<and> tr_victim t = g)"
    using entry_live [OF i, of g u r] d(2) [of r] by (auto simp: live_def)
  moreover have "om_find u (tby w g) = Some r \<longleftrightarrow> (\<exists>t. tw_refs w r = Some t \<and> tr_owner t = u \<and> tr_victim t = g)"
    using tby_live [OF i, of u g r] d(3) [of r] by (auto simp: live_def)
  moreover have "map_of (heap_of w u) r = Some k \<longleftrightarrow> (\<exists>t. tw_refs w r = Some t \<and> tr_owner t = u \<and> k = heap_key_of F t)"
  proof
    assume k: "map_of (heap_of w u) r = Some k"
    then have "r \<in> fst ` set (heap_of w u)" by (force dest: map_of_SomeD)
    then obtain t where "tw_refs w r = Some t" "tr_owner t = u" using m [of u] by (auto simp: mgr_ok_def live_def)
    with d(4) [of r t] k show "\<exists>t. tw_refs w r = Some t \<and> tr_owner t = u \<and> k = heap_key_of F t" by auto
  qed (use d(4) [of r] in auto)
  moreover have "distinct (map fst (heap_of w u))" "fixated w u = Some r \<longrightarrow> (\<exists>t. tw_refs w r = Some t \<and> tr_owner t = u)"
    using m [of u] by (auto simp: mgr_ok_def live_def)
  ultimately show ?thesis by blast
qed

lemma ThreatManager_contract_witness:
  "\<exists>w. fight_starts [1] 2 = Some w \<and> tm_currentVictimRef (tw_mgr w 1) = Some 0 \<and>
    (\<exists>t. tw_refs w 0 = Some t \<and> tr_owner t = 1 \<and> IsAvailable t)"
  by (rule first_fight) (use ThreatManager_contract [OF real_floats_ok, where r = 0 and u = 1] in blast)

text \<open>
  C3: Threat lists implement the combat manager's view of threat: whatever sequence of threat operations runs, its
  combat part goes through steps of the combat manager only, and the pairs that manager regards as having threat are
  exactly the owners and victims of the threat references.
\<close>

theorem ThreatManager_refines_CombatManager:
  assumes "float_ok F" "(tw_step F)\<^sup>*\<^sup>* threat_world_new w"
  shows "cw_step\<^sup>*\<^sup>* combat_world_new (tw_combat w) \<and>
    set (cw_threat (tw_combat w)) = {(tr_owner t, tr_victim t) | t. t \<in> ran (tw_refs w)}"
proof -
  note i = tw_reachable_inv [OF assms]
  have "(a, b) \<in> set (cw_threat (tw_combat w)) \<longleftrightarrow> (\<exists>t \<in> ran (tw_refs w). tr_owner t = a \<and> tr_victim t = b)" for a b
  proof -
    have "(a, b) \<in> set (cw_threat (tw_combat w)) \<longleftrightarrow> (\<exists>r. om_find b (entries w a) = Some r)"
      using i by (simp add: tw_inv_def threat_pairs_def)
    also have "\<dots> \<longleftrightarrow> (\<exists>t \<in> ran (tw_refs w). tr_owner t = a \<and> tr_victim t = b)"
      using entry_live [OF i, of b a] tw_invD(2) [OF i] by (fastforce simp: live_def ran_def)
    finally show ?thesis .
  qed
  then have "set (cw_threat (tw_combat w)) = {(tr_owner t, tr_victim t) | t. t \<in> ran (tw_refs w)}" by auto
  with tw_reachable [OF assms] show ?thesis by simp
qed

lemma ThreatManager_refines_CombatManager_witness:
  "\<exists>w. fight_starts [1] 2 = Some w \<and> cw_step\<^sup>*\<^sup>* combat_world_new (tw_combat w) \<and>
    set (cw_threat (tw_combat w)) = {(tr_owner t, tr_victim t) | t. t \<in> ran (tw_refs w)}"
  by (rule first_fight) (use ThreatManager_refines_CombatManager [OF real_floats_ok] in blast)

text \<open>
  C8: \<^verbatim>\<open>ReselectVictim\<close> follows the documented rule: it first sets every reference offline exactly when it should be;
  then a fixated available target wins; without an available one there is no victim; without a current available
  victim the highest reference is chosen; and a current victim is replaced only by the highest of those that exceed
  its threat by 30%, or by 10% within melee range.
\<close>

theorem ReselectVictim_rule:
  assumes "float_ok F" "heap_ok e" "(tw_step F)\<^sup>*\<^sup>* threat_world_new w"
  shows "\<exists>v w'. ReselectVictim e F me w = Some (v, w') \<and> victim_rule e F w' me v \<and>
    (\<forall>(g, r) \<in> set (tm_myThreatListEntries (tw_mgr w me)).
       \<exists>t. tw_refs w' r = Some t \<and> (IsOffline t \<longleftrightarrow> ShouldBeOffline e t))"
proof -
  note i = tw_reachable_inv [OF assms(1,3)]
  have j: "tw_inv {me} F w" using tw_inv_mono [OF i] by simp
  obtain v w' where r: "ReselectVictim e F me w = Some (v, w')" "victim_rule e F w' me v"
      "\<And>g r. om_find g (entries w me) = Some r \<Longrightarrow> up_to_date e (g, r) w'"
    using ReselectVictim_ok [OF assms(1,2) j] by metis
  have "\<exists>t. tw_refs w' r = Some t \<and> (IsOffline t \<longleftrightarrow> ShouldBeOffline e t)" if "(g, r) \<in> set (entries w me)" for g r
    using r(3) that in_entries [OF i] by (auto simp: up_to_date_def)
  with r show ?thesis by blast
qed

lemma ReselectVictim_rule_witness:
  "\<exists>w v w'. fight_starts [1] 2 = Some w \<and> ReselectVictim open_field real_floats 1 w = Some (v, w') \<and>
    victim_rule open_field real_floats w' 1 v"
  by (rule first_fight) (use ReselectVictim_rule [OF real_floats_ok heap_ok_field, of _ 1] in blast)




text \<open>
  The heap of an owner is told \<^verbatim>\<open>increase\<close> or \<^verbatim>\<open>decrease\<close> of the key of a reference; \<open>misled\<close>: the key of a reference moves the other
  way when its modifier becomes \<open>md\<close>.
\<close>

definition misled :: "('f :: linorder) float_ops \<Rightarrow> int \<Rightarrow> bool \<Rightarrow> 'f threat_ref \<Rightarrow> bool" where
  "misled F md isIncrease t \<longleftrightarrow>
     (if isIncrease then heap_key_of F (t\<lparr>tr_tempModifier := md\<rparr>) < heap_key_of F t else heap_key_of F t < heap_key_of F (t\<lparr>tr_tempModifier := md\<rparr>))"

definition in_heap :: "('f :: linorder) float_ops \<Rightarrow> 'f threat_world \<Rightarrow> addr \<Rightarrow> bool" where
  "in_heap F w r \<longleftrightarrow> (\<exists>t. tw_refs w r = Some t \<and> map_of (heap_of w (tr_owner t)) r = Some (heap_key_of F t))"

lemma told_other: "r' \<noteq> r \<Longrightarrow> map_of (heap_told r k h) r' = map_of h r'"
  by (induction h) (auto simp: heap_told_def)

lemma temp_modifier_step:
  assumes "tw_refs w r = Some t" "map_of (heap_of w (tr_owner t)) r = Some (heap_key_of F t)"
  shows "let w1 = set_tref r (t\<lparr>tr_tempModifier := md\<rparr>) w; w' = (if isIncrease then HeapNotifyIncreased F r w1 else HeapNotifyDecreased F r w1) in
    if misled F md isIncrease t then w' = None
    else \<exists>w2. w' = Some w2 \<and> (\<forall>r'. r' \<noteq> r \<longrightarrow> tw_refs w2 r' = tw_refs w r') \<and> (\<forall>r'. r' \<noteq> r \<longrightarrow> in_heap F w r' \<longrightarrow> in_heap F w2 r')"
proof -
  let ?t = "t\<lparr>tr_tempModifier := md\<rparr>"
  let ?w1 = "set_tref r ?t w"
  let ?w2 = "upd_mgr (tr_owner t) (\<lambda>m. m\<lparr>tm_sortedThreatList := heap_told r (heap_key_of F ?t) (tm_sortedThreatList m)\<rparr>) ?w1"
  have k: "map_of (heap_of ?w1 (tr_owner ?t)) r = Some (heap_key_of F t)" "tw_refs ?w1 r = Some ?t" using assms by (simp_all add: set_tref_def)
  have "tw_refs ?w2 r' = tw_refs w r'" if "r' \<noteq> r" for r' using that by (simp add: upd_mgr_def set_tref_def)
  moreover have "in_heap F ?w2 r'" if "r' \<noteq> r" "in_heap F w r'" for r'
    using that by (auto simp: in_heap_def upd_mgr_def set_tref_def told_other)
  ultimately show ?thesis using k
    by (cases isIncrease) (simp_all add: misled_def HeapNotifyIncreased_def HeapNotifyDecreased_def Let_def not_less)
qed

lemma temp_modifier_loop_None:
  "distinct (map snd m) \<Longrightarrow> (\<forall>r \<in> set (map snd m). in_heap F w r) \<Longrightarrow>
   temp_modifier_loop F md isIncrease m w = None \<longleftrightarrow> (\<exists>r \<in> set (map snd m). \<exists>t. tw_refs w r = Some t \<and> misled F md isIncrease t)"
proof (induction m arbitrary: w)
  case (Cons x m)
  obtain g r where x: "x = (g, r)" by (cases x)
  have "in_heap F w r" using Cons.prems(2) x by simp
  then obtain t where t: "tw_refs w r = Some t" "map_of (heap_of w (tr_owner t)) r = Some (heap_key_of F t)" by (auto simp: in_heap_def)
  let ?w' = "if isIncrease then HeapNotifyIncreased F r (set_tref r (t\<lparr>tr_tempModifier := md\<rparr>) w)
    else HeapNotifyDecreased F r (set_tref r (t\<lparr>tr_tempModifier := md\<rparr>) w)"
  have loop: "temp_modifier_loop F md isIncrease (x # m) w = Option.bind ?w' (temp_modifier_loop F md isIncrease m)" using t(1) x by (simp add: Let_def)
  note s = temp_modifier_step [OF t, of md isIncrease, unfolded Let_def]
  show ?case
  proof (cases "misled F md isIncrease t")
    case True
    with s loop t(1) x show ?thesis by auto
  next
    case False
    with s obtain w2 where w2: "?w' = Some w2" "\<forall>r'. r' \<noteq> r \<longrightarrow> tw_refs w2 r' = tw_refs w r'" "\<forall>r'. r' \<noteq> r \<longrightarrow> in_heap F w r' \<longrightarrow> in_heap F w2 r'"
      by auto
    have nr: "r \<notin> set (map snd m)" using Cons.prems(1) x by simp
    have "\<forall>r' \<in> set (map snd m). in_heap F w2 r'" using w2(3) nr Cons.prems(2) x by (metis list.set_intros(2) list.simps(9))
    moreover have "distinct (map snd m)" using Cons.prems(1) by simp
    ultimately have "temp_modifier_loop F md isIncrease m w2 = None \<longleftrightarrow> (\<exists>r' \<in> set (map snd m). \<exists>t. tw_refs w2 r' = Some t \<and> misled F md isIncrease t)"
      by (rule Cons.IH [rotated])
    also have "\<dots> \<longleftrightarrow> (\<exists>r' \<in> set (map snd m). \<exists>t. tw_refs w r' = Some t \<and> misled F md isIncrease t)" using w2(2) nr by metis
    finally show ?thesis using loop w2(1) x t(1) False by auto
  qed
qed simp

text \<open>
  C36: \<^verbatim>\<open>UpdateMyTempModifiers\<close> decides from the first threatened-by-me reference alone whether all of them rise or
  fall. References made after a modifier was applied start without it, so one change can raise some and lower
  others. In every reachable state the update is undefined exactly when the heap of one of the references is told \<^verbatim>\<open>decrease\<close> although its
  key rises, because the modifier of the first reference does not, or \<^verbatim>\<open>increase\<close> although its key falls, because the modifier of the
  first one rises.
\<close>

theorem UpdateMyTempModifiers_wrong_direction:
  assumes "float_ok F" "(tw_step F)\<^sup>*\<^sup>* threat_world_new w" "tm_threatenedByMe (tw_mgr w me) = (g, r0) # m" "tw_refs w r0 = Some t0"
  shows "UpdateMyTempModifiers e F me w = None \<longleftrightarrow>
    (\<exists>r \<in> snd ` set (tm_threatenedByMe (tw_mgr w me)). \<exists>t. tw_refs w r = Some t \<and>
       (let md = sum_list (te_totalThreatMods e me); old = heap_key_of F t; new = heap_key_of F (t\<lparr>tr_tempModifier := md\<rparr>)
        in if tr_tempModifier t0 < md then new < old else old < new))"
proof -
  note i = tw_reachable_inv [OF assms(1,2)]
  let ?md = "sum_list (te_totalThreatMods e me)"
  have ok: "om_ok (tby w me)" using tw_inv_mgr [OF i, of me] by (simp add: mgr_ok_def)
  have live: "live w r g' me" if "(g', r) \<in> set (tby w me)" for g' r using that ok tby_live [OF i, of g' me r] by (simp add: om_find_iff)
  have heap: "\<forall>r \<in> set (map snd (tby w me)). in_heap F w r"
    using live tw_invD(4) [OF i] by (fastforce simp: live_def in_heap_def)
  have "a = b" if "(a, x) \<in> set (tby w me)" "(b, x) \<in> set (tby w me)" for a b x
    using live [OF that(1)] live [OF that(2)] by (auto simp: live_def)
  then have "inj_on snd (set (tby w me))" by (auto simp: inj_on_def)
  moreover have "distinct (tby w me)" using om_ok_distinct [OF ok] by (simp add: distinct_map)
  ultimately have d: "distinct (map snd (tby w me))" by (simp add: distinct_map)
  have "UpdateMyTempModifiers e F me w = temp_modifier_loop F ?md (tr_tempModifier t0 < ?md) (tby w me) w"
    using assms(3,4) by (simp add: UpdateMyTempModifiers_def Let_def del: temp_modifier_loop.simps)
  with temp_modifier_loop_None [OF d heap, of ?md "tr_tempModifier t0 < ?md"] show ?thesis
    by (simp add: misled_def Let_def)
qed

text \<open>A modifier of 15 is applied, then unit 2 comes to threaten, then the modifier becomes 5: the key of the new reference rises.\<close>

lemma UpdateMyTempModifiers_wrong_direction_witness:
  "\<exists>w t. (tw_step real_floats)\<^sup>*\<^sup>* threat_world_new w \<and> tw_refs w 1 = Some t \<and>
     heap_key_of real_floats t < heap_key_of real_floats (t\<lparr>tr_tempModifier := 5\<rparr>) \<and>
     UpdateMyTempModifiers (open_field\<lparr>te_totalThreatMods := \<lambda>_. [5]\<rparr>) real_floats 9 w = None"
proof -
  define ops where "ops w = Option.bind (UpdateMyTempModifiers (open_field\<lparr>te_totalThreatMods := \<lambda>_. [5, 10]\<rparr>) real_floats 9 w)
     (AddThreat 2 open_field real_floats 2 9 100 None True True)" for w :: "real threat_world"
  define seen where "seen w = (tm_threatenedByMe (tw_mgr w 9), map_option tr_tempModifier (tw_refs w 0),
     map_option (\<lambda>t. heap_key_of real_floats t < heap_key_of real_floats (t\<lparr>tr_tempModifier := 5\<rparr>)) (tw_refs w 1))" for w :: "real threat_world"
  let ?new = "fold (ThreatManager_Initialize open_field) [1, 2] threat_world_new"
  have e: "Option.bind (AddThreat 2 open_field real_floats 1 9 100 None True True ?new) (\<lambda>w. map_option seen (ops w)) =
      Some ([(1, 0), (2, 1)], Some 15, Some True)"
    unfolding ops_def seen_def by code_simp
  then obtain w1 w3 where w: "AddThreat 2 open_field real_floats 1 9 100 None True True ?new = Some w1" "ops w1 = Some w3"
      "seen w3 = ([(1, 0), (2, 1)], Some 15, Some True)"
    by (auto simp: bind_eq_Some_conv simp del: AddThreat.simps)
  obtain w2 where w2: "UpdateMyTempModifiers (open_field\<lparr>te_totalThreatMods := \<lambda>_. [5, 10]\<rparr>) real_floats 9 w1 = Some w2"
      "AddThreat 2 open_field real_floats 2 9 100 None True True w2 = Some w3"
    using w(2) by (auto simp: ops_def bind_eq_Some_conv simp del: AddThreat.simps)
  have "(tw_step real_floats)\<^sup>*\<^sup>* threat_world_new ?new"
    by (rule initialized_reachable) (simp_all add: threat_world_new_def ThreatManager_new_def)
  moreover have "tw_step real_floats ?new w1" by (rule tw_step.add [OF heap_ok_field open_field_ok _ w(1)]) simp
  moreover have "tw_step real_floats w1 w2" using w2(1) by (rule tw_step.modifiers)
  moreover have "tw_step real_floats w2 w3" by (rule tw_step.add [OF heap_ok_field open_field_ok _ w2(2)]) simp
  ultimately have r: "(tw_step real_floats)\<^sup>*\<^sup>* threat_world_new w3" by (meson rtranclp.rtrancl_into_rtrancl)
  obtain t0 t where t: "tm_threatenedByMe (tw_mgr w3 9) = [(1, 0), (2, 1)]" "tw_refs w3 0 = Some t0" "tr_tempModifier t0 = 15"
      "tw_refs w3 1 = Some t" "heap_key_of real_floats t < heap_key_of real_floats (t\<lparr>tr_tempModifier := 5\<rparr>)"
    using w(3) by (auto simp: seen_def)
  from UpdateMyTempModifiers_wrong_direction [OF real_floats_ok r t(1,2), of "open_field\<lparr>te_totalThreatMods := \<lambda>_. [5]\<rparr>"] t
  have "UpdateMyTempModifiers (open_field\<lparr>te_totalThreatMods := \<lambda>_. [5]\<rparr>) real_floats 9 w3 = None" by (simp add: Let_def)
  with r t(4,5) show ?thesis by blast
qed

lemma om_set_length: "om_find k m = None \<Longrightarrow> length (om_set k v m) = Suc (length m)"
  by (induction k v m rule: om_set.induct) (auto split: if_splits)

lemma taunt_states_other: "g \<notin> set cs \<Longrightarrow> om_find g (taunt_states p cs m) = om_find g m"
  by (induction p cs m rule: taunt_states.induct) auto

lemma taunt_states_nth:
  "distinct cs \<Longrightarrow> i < length cs \<Longrightarrow> om_find (cs ! i) (taunt_states p cs m) = Some (p + of_nat (Suc i))"
proof (induction p cs m arbitrary: i rule: taunt_states.induct)
  case (2 p c cs m)
  show ?case
  proof (cases i)
    case 0
    with "2.prems" show ?thesis by (simp add: taunt_states_other)
  next
    case (Suc j)
    with 2 show ?thesis by (simp add: algebra_simps)
  qed
qed simp

lemma taunt_states_length:
  "distinct cs \<Longrightarrow> (\<forall>c \<in> set cs. om_find c m = None) \<Longrightarrow> length (taunt_states p cs m) = length m + length cs"
proof (induction p cs m rule: taunt_states.induct)
  case (2 p c cs m)
  from "2.prems" have "\<forall>x \<in> set cs. om_find x (om_set c (p + 1) m) = None" by auto
  with 2 show ?case by (simp add: om_set_length)
qed simp

text \<open>
  C37: Taunt priorities: when every caster holds one taunt on the creature, a later caster overrides the earlier ones
  (auras are listed newest first, and the \<open>i\<close>-th gets a state above all that follow it) and other units are not
  taunting. But a caster that holds two, with another's between them, is counted twice in the index and once in the
  number of states, so that although he taunted last he is treated as not taunting.
\<close>

theorem TauntUpdate_priorities:
  assumes "distinct cs" "length cs + 2 < 2 ^ 32" "i < length cs" "a \<noteq> b"
  shows "unat (taunt_state_of (taunt_states 0 cs []) (cs ! i)) = 2 + (length cs - Suc i) \<and>
    (g \<notin> set cs \<longrightarrow> taunt_state_of (taunt_states 0 cs []) g = TAUNT_STATE_NONE) \<and>
    taunt_state_of (taunt_states 0 [a, b, a] []) a = TAUNT_STATE_NONE"
proof -
  have l: "length (taunt_states 0 cs []) = length cs" using taunt_states_length [OF assms(1), of "[]" 0] by simp
  have n: "Suc i \<le> length cs" using assms(3) by simp
  have "taunt_state_of (taunt_states 0 cs []) (cs ! i) = 2 + of_nat (length cs) - of_nat (Suc i)"
    using taunt_states_nth [OF assms(1,3), of 0 "[]"] l by (simp add: taunt_state_of_def TAUNT_STATE_TAUNT_def)
  also have "\<dots> = (of_nat (2 + (length cs - Suc i)) :: u32)"
    unfolding of_nat_add of_nat_diff [OF n] by simp
  finally have "unat (taunt_state_of (taunt_states 0 cs []) (cs ! i)) = unat (of_nat (2 + (length cs - Suc i)) :: u32)"
    by simp
  also have "\<dots> = 2 + (length cs - Suc i)"
    unfolding unat_of_nat using assms(2,3) by simp
  finally have "unat (taunt_state_of (taunt_states 0 cs []) (cs ! i)) = 2 + (length cs - Suc i)" .
  moreover have "taunt_state_of (taunt_states 0 cs []) g = TAUNT_STATE_NONE" if "g \<notin> set cs"
    using taunt_states_other [OF that, of 0 "[]"] by (simp add: taunt_state_of_def)
  moreover have "taunt_state_of (taunt_states 0 [a, b, a] []) a = TAUNT_STATE_NONE"
    using assms(4) by (auto simp: taunt_state_of_def TAUNT_STATE_TAUNT_def TAUNT_STATE_NONE_def)
  ultimately show ?thesis by blast
qed

lemma TauntUpdate_priorities_witness:
  "unat (taunt_state_of (taunt_states 0 [7, 8] []) ([7, 8] ! 0)) = 3 \<and>
    taunt_state_of (taunt_states 0 [7, 8, 7] []) 7 = TAUNT_STATE_NONE"
  using TauntUpdate_priorities [of "[7, 8]" 0 7 8] by simp

section \<open>Redirection never exceeds the whole\<close>

lemma redirect_info_bound:
  "t = sum_list (map snd info) \<Longrightarrow> t \<le> 100 \<Longrightarrow> sum_list (map snd (fst (redirect_info ps (info, t)))) \<le> 100"
  by (induction ps "(info, t)" arbitrary: info t rule: redirect_info.induct) (auto simp: Let_def)

lemma UpdateRedirectInfo_bound:
  "sum_list (map snd (tm_redirectInfo (tw_mgr (UpdateRedirectInfo me w) me))) \<le> 100"
  using redirect_info_bound [of 0 "[]" "concat (map snd (tm_redirectRegistry (tw_mgr w me)))"]
  by (simp add: UpdateRedirectInfo_def upd_mgr_def)

end
