(* ===== verification/ThreatModifiers.thy ===== *)
theory ThreatModifiers imports ThreatManager begin

text \<open>
  The school modifiers of threat: \<^verbatim>\<open>CalculateModifiedThreat\<close> and \<^verbatim>\<open>UpdateMySpellSchoolModifiers\<close> of
  \<^verbatim>\<open>ThreatManager.cpp\<close>, the two caches they keep, and what they are caches of,
  \<^verbatim>\<open>Unit::GetTotalAuraMultiplierByMiscMask\<close> with the stacking rule of \<^verbatim>\<open>SpellMgr\<close>. The tables of spell groups and
  the modifiers a spell gets from its entry and from the player are parameters. \<open>AddThreat\<close> takes the
  modified threat as a function of its environment; the property at the end is why it may.
\<close>

section \<open>The multiplier of the aura effects\<close>

record aura_effect =
  ae_firstRank :: nat \<comment> \<open>the first rank of its spell\<close>
  ae_miscValue :: u32
  ae_amount :: int

record stack_rules =
  spellGroups :: "nat \<Rightarrow> nat list"
  sameEffectStack :: "nat \<Rightarrow> nat set option"

definition SPELL_AURA_MOD_THREAT :: nat where "SPELL_AURA_MOD_THREAT = 10"

fun same_effect_groups :: "stack_rules \<Rightarrow> nat \<Rightarrow> int \<Rightarrow> nat list \<Rightarrow> (nat, int) omap \<Rightarrow> bool \<times> (nat, int) omap" where
  "same_effect_groups R auraType amount [] groups = (False, groups)"
| "same_effect_groups R auraType amount (g # gs) groups =
     (case sameEffectStack R g of
        None \<Rightarrow> same_effect_groups R auraType amount gs groups
      | Some types \<Rightarrow>
          if auraType \<notin> types then same_effect_groups R auraType amount gs groups
          else (True,
                case om_find g groups of
                  None \<Rightarrow> om_set g amount groups
                | Some curr_amount \<Rightarrow> if abs curr_amount < abs amount then om_set g amount groups else groups))"

definition AddSameEffectStackRuleSpellGroups ::
  "stack_rules \<Rightarrow> nat \<Rightarrow> nat \<Rightarrow> int \<Rightarrow> (nat, int) omap \<Rightarrow> bool \<times> (nat, int) omap" where
  "AddSameEffectStackRuleSpellGroups R spellId auraType amount groups =
     same_effect_groups R auraType amount (spellGroups R spellId) groups"

definition AddPct :: "'f float_ops \<Rightarrow> int \<Rightarrow> 'f \<Rightarrow> 'f" where
  "AddPct F pct base = fl_add F base (fl_div F (fl_mul F base (fl_of_int F pct)) (fl_of_int F 100))"

fun multiply_effects :: "'f float_ops \<Rightarrow> stack_rules \<Rightarrow> nat \<Rightarrow> (aura_effect \<Rightarrow> bool) \<Rightarrow> aura_effect list \<Rightarrow>
  'f \<times> (nat, int) omap \<Rightarrow> 'f \<times> (nat, int) omap" where
  "multiply_effects F R auraType predicate [] st = st"
| "multiply_effects F R auraType predicate (aurEff # effs) (multiplier, groups) =
     multiply_effects F R auraType predicate effs
       (if predicate aurEff
        then let (grouped, groups) = AddSameEffectStackRuleSpellGroups R (ae_firstRank aurEff) auraType (ae_amount aurEff) groups
             in (if grouped then multiplier else AddPct F (ae_amount aurEff) multiplier, groups)
        else (multiplier, groups))"

definition GetTotalAuraMultiplier ::
  "'f float_ops \<Rightarrow> stack_rules \<Rightarrow> nat \<Rightarrow> (aura_effect \<Rightarrow> bool) \<Rightarrow> aura_effect list \<Rightarrow> 'f" where
  "GetTotalAuraMultiplier F R auraType predicate effs =
     (if effs = [] then fl_one F
      else let (multiplier, groups) = multiply_effects F R auraType predicate effs (fl_one F, [])
           in fold (\<lambda>(g, amount). AddPct F amount) groups multiplier)"

definition GetTotalAuraMultiplierByMiscMask ::
  "'f float_ops \<Rightarrow> stack_rules \<Rightarrow> nat \<Rightarrow> u32 \<Rightarrow> aura_effect list \<Rightarrow> 'f" where
  "GetTotalAuraMultiplierByMiscMask F R auraType miscMask effs =
     GetTotalAuraMultiplier F R auraType (\<lambda>aurEff. ae_miscValue aurEff AND miscMask \<noteq> 0) effs"

section \<open>The caches\<close>

text \<open>\<open>threatAuras\<close> are the effects of type \<open>SPELL_AURA_MOD_THREAT\<close> on the unit.\<close>

record 'f school_modifiers =
  singleSchool :: "'f list"
  multiSchool :: "(u32, 'f) omap"
  threatAuras :: "aura_effect list"

definition MAX_SPELL_SCHOOL :: nat where "MAX_SPELL_SCHOOL = 7"

definition SchoolModifiers_new :: "'f float_ops \<Rightarrow> 'f school_modifiers" where
  "SchoolModifiers_new F = \<lparr>singleSchool = replicate MAX_SPELL_SCHOOL (fl_one F), multiSchool = [], threatAuras = []\<rparr>"

definition UpdateMySpellSchoolModifiers :: "'f float_ops \<Rightarrow> stack_rules \<Rightarrow> 'f school_modifiers \<Rightarrow> 'f school_modifiers" where
  "UpdateMySpellSchoolModifiers F R m =
     m\<lparr>singleSchool := map (\<lambda>i. GetTotalAuraMultiplierByMiscMask F R SPELL_AURA_MOD_THREAT (push_bit i 1) (threatAuras m))
         [0..<MAX_SPELL_SCHOOL],
       multiSchool := []\<rparr>"

text \<open>
  \<^verbatim>\<open>AuraEffect::HandleEffect\<close> and \<^verbatim>\<open>ChangeAmount\<close> call \<^verbatim>\<open>HandleModThreat\<close> with one of these bits in the mode after each
  change of an effect of this type.
\<close>

definition AURA_EFFECT_HANDLE_CHANGE_AMOUNT_MASK :: u8 where "AURA_EFFECT_HANDLE_CHANGE_AMOUNT_MASK = 0x04 OR 0x01"

definition HandleModThreat :: "'f float_ops \<Rightarrow> stack_rules \<Rightarrow> u8 \<Rightarrow> 'f school_modifiers \<Rightarrow> 'f school_modifiers" where
  "HandleModThreat F R mode m =
     (if mode AND AURA_EFFECT_HANDLE_CHANGE_AMOUNT_MASK = 0 then m else UpdateMySpellSchoolModifiers F R m)"

text \<open>A spell: the factor of its entry and the modifier of the player, where they exist, and its schools.\<close>

record 'f threat_cast =
  tc_pctMod :: "'f option"
  tc_hateMod :: "('f \<Rightarrow> 'f) option"
  tc_schoolMask :: u32

definition school_of :: "u32 \<Rightarrow> nat option" where
  "school_of schoolMask =
     (if schoolMask = 0x01 then Some 0 else if schoolMask = 0x02 then Some 1 else if schoolMask = 0x04 then Some 2
      else if schoolMask = 0x08 then Some 3 else if schoolMask = 0x10 then Some 4 else if schoolMask = 0x20 then Some 5
      else if schoolMask = 0x40 then Some 6 else None)"

definition spell_modified :: "('f :: linorder) float_ops \<Rightarrow> 'f threat_cast option \<Rightarrow> 'f \<Rightarrow> 'f" where
  "spell_modified F spell threat =
     (case spell of
        None \<Rightarrow> threat
      | Some s \<Rightarrow>
          let threat = (case tc_pctMod s of Some p \<Rightarrow> if p \<noteq> fl_one F then fl_mul F threat p else threat | None \<Rightarrow> threat)
          in (case tc_hateMod s of Some f \<Rightarrow> f threat | None \<Rightarrow> threat))"

definition CalculateModifiedThreat ::
  "('f :: linorder) float_ops \<Rightarrow> stack_rules \<Rightarrow> 'f \<Rightarrow> 'f threat_cast option \<Rightarrow> 'f school_modifiers \<Rightarrow> 'f \<times> 'f school_modifiers" where
  "CalculateModifiedThreat F R threat spell m =
     (let threat = spell_modified F spell threat;
          schoolMask = (case spell of Some s \<Rightarrow> tc_schoolMask s | None \<Rightarrow> 0x01)
      in case school_of schoolMask of
           Some i \<Rightarrow> (fl_mul F threat (singleSchool m ! i), m)
         | None \<Rightarrow>
             (case om_find schoolMask (multiSchool m) of
                Some modifier \<Rightarrow> (fl_mul F threat modifier, m)
              | None \<Rightarrow>
                  let modifier = GetTotalAuraMultiplierByMiscMask F R SPELL_AURA_MOD_THREAT schoolMask (threatAuras m)
                  in (fl_mul F threat modifier, m\<lparr>multiSchool := om_set schoolMask modifier (multiSchool m)\<rparr>)))"

section \<open>The caches are never stale\<close>

inductive modifiers_reachable :: "('f :: linorder) float_ops \<Rightarrow> stack_rules \<Rightarrow> 'f school_modifiers \<Rightarrow> bool" for F R where
  new: "modifiers_reachable F R (SchoolModifiers_new F)"
| auras: "modifiers_reachable F R m \<Longrightarrow> mode AND AURA_EFFECT_HANDLE_CHANGE_AMOUNT_MASK \<noteq> 0 \<Longrightarrow>
    modifiers_reachable F R (HandleModThreat F R mode (m\<lparr>threatAuras := effs\<rparr>))"
| calculate: "modifiers_reachable F R m \<Longrightarrow> modifiers_reachable F R (snd (CalculateModifiedThreat F R threat spell m))"

abbreviation aura_multiplier :: "'f float_ops \<Rightarrow> stack_rules \<Rightarrow> u32 \<Rightarrow> 'f school_modifiers \<Rightarrow> 'f" where
  "aura_multiplier F R schoolMask m \<equiv> GetTotalAuraMultiplierByMiscMask F R SPELL_AURA_MOD_THREAT schoolMask (threatAuras m)"

definition coherent :: "'f float_ops \<Rightarrow> stack_rules \<Rightarrow> 'f school_modifiers \<Rightarrow> bool" where
  "coherent F R m \<longleftrightarrow> om_ok (multiSchool m) \<and>
     (\<forall>i < MAX_SPELL_SCHOOL. singleSchool m ! i = aura_multiplier F R (push_bit i 1) m) \<and>
     (\<forall>schoolMask f. om_find schoolMask (multiSchool m) = Some f \<longrightarrow> f = aura_multiplier F R schoolMask m)"

lemma coherent_update: "coherent F R (UpdateMySpellSchoolModifiers F R m)"
  by (simp add: coherent_def UpdateMySpellSchoolModifiers_def)

lemma coherent_new: "coherent F R (SchoolModifiers_new F)"
  by (simp add: coherent_def SchoolModifiers_new_def GetTotalAuraMultiplierByMiscMask_def GetTotalAuraMultiplier_def)

lemma coherent_calculate: "coherent F R m \<Longrightarrow> coherent F R (snd (CalculateModifiedThreat F R threat spell m))"
  by (auto simp: coherent_def CalculateModifiedThreat_def Let_def om_find_set split: option.split if_splits)

lemma modifiers_coherent: "modifiers_reachable F R m \<Longrightarrow> coherent F R m"
  by (induction rule: modifiers_reachable.induct) (auto simp: coherent_new coherent_calculate HandleModThreat_def coherent_update)

lemma school_of_mask: "school_of schoolMask = Some i \<Longrightarrow> i < MAX_SPELL_SCHOOL \<and> schoolMask = push_bit i 1"
  by (auto simp: school_of_def MAX_SPELL_SCHOOL_def split: if_splits)

text \<open>
  C32: The cached modifiers never differ from the aura effects: after any sequence of changes of the effects and of
  calculations, the threat of a spell is what it would be if the multiplier of its schools were computed from the effects every time,
  and the effects stay as they are.
\<close>

theorem CalculateModifiedThreat_uncached:
  assumes "modifiers_reachable F R m"
  shows "fst (CalculateModifiedThreat F R threat spell m) =
      fl_mul F (spell_modified F spell threat)
        (GetTotalAuraMultiplierByMiscMask F R SPELL_AURA_MOD_THREAT
           (case spell of Some s \<Rightarrow> tc_schoolMask s | None \<Rightarrow> 0x01) (threatAuras m)) \<and>
    threatAuras (snd (CalculateModifiedThreat F R threat spell m)) = threatAuras m"
proof -
  note c = modifiers_coherent [OF assms, unfolded coherent_def]
  define schoolMask where "schoolMask = (case spell of Some s \<Rightarrow> tc_schoolMask s | None \<Rightarrow> 0x01)"
  show ?thesis
  proof (cases "school_of schoolMask")
    case (Some i)
    then show ?thesis
      using c school_of_mask [OF Some] by (simp add: CalculateModifiedThreat_def Let_def schoolMask_def [symmetric])
  next
    case None
    then show ?thesis
      using c by (cases "om_find schoolMask (multiSchool m)") (simp_all add: CalculateModifiedThreat_def Let_def schoolMask_def [symmetric])
  qed
qed

text \<open>A witness in whole numbers of percent: an effect on fire and frost of plus 50 percent, a spell of both schools.\<close>

definition percent_floats :: "int float_ops" where
  "percent_floats = \<lparr>fl_zero = 0, fl_one = 100, fl_w110 = 110, fl_w130 = 130, fl_c001 = 1, fl_add = (+), fl_sub = (-),
     fl_mul = (*), fl_div = (div), fl_of_int = (\<lambda>i. i)\<rparr>"

definition no_groups :: stack_rules where
  "no_groups = \<lparr>spellGroups = (\<lambda>_. []), sameEffectStack = (\<lambda>_. None)\<rparr>"

definition fire_frost :: "int school_modifiers" where
  "fire_frost = snd (CalculateModifiedThreat percent_floats no_groups 7 (Some \<lparr>tc_pctMod = None, tc_hateMod = None, tc_schoolMask = 0x14\<rparr>)
     (HandleModThreat percent_floats no_groups 0x01
       (SchoolModifiers_new percent_floats\<lparr>threatAuras := [\<lparr>ae_firstRank = 1, ae_miscValue = 0x14, ae_amount = 50\<rparr>]\<rparr>)))"

lemma CalculateModifiedThreat_uncached_witness:
  "fst (CalculateModifiedThreat percent_floats no_groups 2 (Some \<lparr>tc_pctMod = None, tc_hateMod = None, tc_schoolMask = 0x14\<rparr>) fire_frost) = 300 \<and>
   multiSchool fire_frost = [(0x14, 150)]"
proof -
  have r: "modifiers_reachable percent_floats no_groups fire_frost"
    unfolding fire_frost_def by (intro modifiers_reachable.intros) (simp add: AURA_EFFECT_HANDLE_CHANGE_AMOUNT_MASK_def)
  have m: "multiSchool fire_frost = [(0x14, 150)]" "threatAuras fire_frost = [\<lparr>ae_firstRank = 1, ae_miscValue = 0x14, ae_amount = 50\<rparr>]"
    by (simp_all add: fire_frost_def CalculateModifiedThreat_def Let_def school_of_def HandleModThreat_def AURA_EFFECT_HANDLE_CHANGE_AMOUNT_MASK_def
        UpdateMySpellSchoolModifiers_def SchoolModifiers_new_def GetTotalAuraMultiplierByMiscMask_def GetTotalAuraMultiplier_def
        AddSameEffectStackRuleSpellGroups_def no_groups_def AddPct_def percent_floats_def)
  show ?thesis
    using CalculateModifiedThreat_uncached [OF r, of 2 "Some \<lparr>tc_pctMod = None, tc_hateMod = None, tc_schoolMask = 0x14\<rparr>"] m
    by (simp add: spell_modified_def GetTotalAuraMultiplierByMiscMask_def GetTotalAuraMultiplier_def
        AddSameEffectStackRuleSpellGroups_def no_groups_def AddPct_def percent_floats_def)
qed

end
