(* ===== verification/InstanceIds.thy ===== *)
theory InstanceIds
  imports Prelude
begin

text \<open>
  The pool of instance ids of \<^verbatim>\<open>MapManager\<close> (src/src/server/game/Maps/MapManager.cpp).  The bit set
  \<^verbatim>\<open>_freeInstanceIds\<close> is a list of booleans, true meaning free; \<^verbatim>\<open>find_next\<close>, the one search of
  the boost bit set the pool relies on, is a parameter.  Ids are 32 bits wide: the places where the
  code casts or increments are reduced modulo \<^verbatim>\<open>2 ^ 32\<close>.  A failed assertion, and an index
  outside the bit set, is \<^term>\<open>None\<close>.
\<close>

record instance_ids =
  freeInstanceIds :: "bool list"
  nextInstanceId :: nat
  stopped :: bool

type_synonym find_next_fun = "bool list \<Rightarrow> nat \<Rightarrow> nat option"

text \<open>The documented behaviour of \<^verbatim>\<open>dynamic_bitset::find_next(pos)\<close>: the lowest set bit after
  \<^verbatim>\<open>pos\<close>, or \<^verbatim>\<open>npos\<close>.\<close>

definition find_next_spec :: "find_next_fun \<Rightarrow> bool" where
  "find_next_spec fnx \<longleftrightarrow> (\<forall>bs pos.
     (case fnx bs pos of
        None \<Rightarrow> \<forall>i. pos < i \<and> i < length bs \<longrightarrow> \<not> bs ! i
      | Some j \<Rightarrow> pos < j \<and> j < length bs \<and> bs ! j \<and> (\<forall>i. pos < i \<and> i < j \<longrightarrow> \<not> bs ! i)))"

lemma find_next_None:
  "\<lbrakk>find_next_spec fnx; fnx bs pos = None; pos < i; i < length bs\<rbrakk> \<Longrightarrow> \<not> bs ! i"
  unfolding find_next_spec_def by (drule spec [of _ bs], drule spec [of _ pos]) simp

lemma find_next_Some:
  "\<lbrakk>find_next_spec fnx; fnx bs pos = Some j\<rbrakk>
     \<Longrightarrow> pos < j \<and> j < length bs \<and> bs ! j \<and> (\<forall>i. pos < i \<and> i < j \<longrightarrow> \<not> bs ! i)"
  unfolding find_next_spec_def by (drule spec [of _ bs], drule spec [of _ pos]) simp

definition bitset_set :: "bool list \<Rightarrow> nat \<Rightarrow> bool \<Rightarrow> bool list option" where
  "bitset_set bs i b = (if i < length bs then Some (bs[i := b]) else None)"

definition u32_of :: "nat \<Rightarrow> nat" where "u32_of n = n mod 2 ^ 32"

text \<open>\<^verbatim>\<open>maxExistingInstanceId\<close> is the larger of the two \<^verbatim>\<open>MAX(instanceId)\<close> the database returns; the
  bit set is empty when it is resized.\<close>

definition InitInstanceIds :: "nat option \<Rightarrow> nat option \<Rightarrow> instance_ids option" where
  "InitInstanceIds maxInstance maxLock =
     (let m = 0;
          m = (case maxInstance of None \<Rightarrow> m | Some x \<Rightarrow> max m x);
          m = (case maxLock of None \<Rightarrow> m | Some x \<Rightarrow> max m x)
      in map_option (\<lambda>bs. \<lparr>freeInstanceIds = bs, nextInstanceId = 1, stopped = False\<rparr>)
           (bitset_set (replicate (m + 2) True) 0 False))"

definition RegisterInstanceId :: "nat \<Rightarrow> instance_ids \<Rightarrow> instance_ids option" where
  "RegisterInstanceId i s =
     map_option (\<lambda>bs.
        let s = s\<lparr>freeInstanceIds := bs\<rparr>
        in if nextInstanceId s = i then s\<lparr>nextInstanceId := u32_of (nextInstanceId s + 1)\<rparr> else s)
       (bitset_set (freeInstanceIds s) i False)"

definition GenerateInstanceId :: "find_next_fun \<Rightarrow> instance_ids \<Rightarrow> (nat \<times> instance_ids) option" where
  "GenerateInstanceId fnx s =
     (if nextInstanceId s = 0xFFFFFFFF then Some (nextInstanceId s, s\<lparr>stopped := True\<rparr>)
      else let newInstanceId = nextInstanceId s in
        map_option (\<lambda>bs.
           (newInstanceId,
            case fnx bs newInstanceId of
              None \<Rightarrow> s\<lparr>nextInstanceId := u32_of (length bs), freeInstanceIds := bs @ [True]\<rparr>
            | Some nextFreedId \<Rightarrow> s\<lparr>nextInstanceId := u32_of nextFreedId, freeInstanceIds := bs\<rparr>))
          (bitset_set (freeInstanceIds s) newInstanceId False))"

definition FreeInstanceId :: "nat \<Rightarrow> instance_ids \<Rightarrow> instance_ids option" where
  "FreeInstanceId i s =
     map_option (\<lambda>bs. s\<lparr>nextInstanceId := min i (nextInstanceId s), freeInstanceIds := bs\<rparr>)
       (bitset_set (freeInstanceIds s) i True)"

fun register_all :: "nat list \<Rightarrow> instance_ids \<Rightarrow> instance_ids option" where
  "register_all [] s = Some s"
| "register_all (i # is) s = Option.bind (RegisterInstanceId i s) (register_all is)"


section \<open>What the pool promises\<close>

definition ids_used :: "instance_ids \<Rightarrow> nat set" where
  "ids_used s = {i. 0 < i \<and> i < length (freeInstanceIds s) \<and> \<not> freeInstanceIds s ! i}"

text \<open>The next id is the lowest free one, 0 is never free, and the last id a 32-bit number can hold is
  never handed out.\<close>

definition ids_inv :: "instance_ids \<Rightarrow> bool" where
  "ids_inv s \<longleftrightarrow>
     0 < nextInstanceId s \<and> nextInstanceId s < length (freeInstanceIds s)
     \<and> freeInstanceIds s ! nextInstanceId s
     \<and> (\<forall>i < nextInstanceId s. \<not> freeInstanceIds s ! i)
     \<and> length (freeInstanceIds s) \<le> 2 ^ 32
     \<and> (length (freeInstanceIds s) = 2 ^ 32 \<longrightarrow> freeInstanceIds s ! 0xFFFFFFFF)"

text \<open>The interface a user of the pool relies on: an id handed out was not in use, is never 0, and
  becomes used; freeing an id makes it available and touches no other.\<close>

locale id_pool =
  fixes inv :: "'s \<Rightarrow> bool" and used :: "'s \<Rightarrow> nat set"
    and gen :: "'s \<Rightarrow> (nat \<times> 's) option" and free :: "nat \<Rightarrow> 's \<Rightarrow> 's option"
    and exhausted :: "'s \<Rightarrow> bool"
  assumes gen_total: "\<lbrakk>inv s; \<not> exhausted s\<rbrakk> \<Longrightarrow> \<exists>i s'. gen s = Some (i, s')"
    and gen_fresh: "\<lbrakk>inv s; \<not> exhausted s; gen s = Some (i, s')\<rbrakk>
        \<Longrightarrow> 0 < i \<and> i \<notin> used s \<and> used s' = insert i (used s) \<and> inv s'"
    and free_used: "\<lbrakk>inv s; i \<in> used s\<rbrakk> \<Longrightarrow> \<exists>s'. free i s = Some s' \<and> used s' = used s - {i} \<and> inv s'"
begin

text \<open>A client owns the ids in \<open>own\<close>, others hold those in \<open>R\<close>: a request adds an id, a return
  removes one, and no id is ever held twice.\<close>

definition owned :: "nat set \<Rightarrow> nat list \<Rightarrow> 's \<Rightarrow> bool" where
  "owned R own s \<longleftrightarrow> inv s \<and> distinct own \<and> 0 \<notin> set own \<and> set own \<inter> R = {} \<and> set own \<union> R \<subseteq> used s"

lemma gen_owned:
  "\<lbrakk>owned R own s; \<not> exhausted s; gen s = Some (i, s')\<rbrakk> \<Longrightarrow> owned R (i # own) s'"
  using gen_fresh [of s i s'] by (auto simp: owned_def)

lemma free_owned:
  "\<lbrakk>owned R own s; i \<in> set own; free i s = Some s'\<rbrakk> \<Longrightarrow> owned R (remove1 i own) s'"
  using free_used [of s i] by (auto simp: owned_def)

end

lemma ids_gen:
  assumes fnx: "find_next_spec fnx" and inv: "ids_inv s" and ne: "nextInstanceId s \<noteq> 0xFFFFFFFF"
  shows "\<exists>s'. GenerateInstanceId fnx s = Some (nextInstanceId s, s') \<and>
     nextInstanceId s \<notin> ids_used s \<and>
     ids_used s' = insert (nextInstanceId s) (ids_used s) \<and> ids_inv s'"
proof -
  let ?n = "nextInstanceId s" and ?bs = "freeInstanceIds s"
  let ?cs = "?bs[?n := False]"
  have b: "0 < ?n" "?n < length ?bs" "?bs ! ?n" "\<And>i. i < ?n \<Longrightarrow> \<not> ?bs ! i" "length ?bs \<le> 2 ^ 32"
    "length ?bs = 2 ^ 32 \<Longrightarrow> ?bs ! 0xFFFFFFFF"
    using inv by (auto simp: ids_inv_def)
  have set: "bitset_set ?bs ?n False = Some ?cs" using b by (simp add: bitset_set_def)
  show ?thesis
  proof (cases "fnx ?cs ?n")
    case None
    then have no: "\<And>i. ?n < i \<Longrightarrow> i < length ?bs \<Longrightarrow> \<not> ?bs ! i"
      using find_next_None [OF fnx None] by auto
    have lt: "length ?bs < 2 ^ 32"
      using b(2,5,6) no [of "0xFFFFFFFF"] ne by (cases "length ?bs = 2 ^ 32") auto
    then have "u32_of (length ?bs) = length ?bs" by (simp add: u32_of_def)
    moreover have "\<not> ?bs ! i" if "i < length ?bs" "i \<noteq> ?n" for i
      using b(4) no that by (metis linorder_neqE_nat)
    ultimately show ?thesis using None set ne b no lt
      by (auto simp: GenerateInstanceId_def ids_used_def ids_inv_def nth_append nth_list_update Let_def)
  next
    case (Some j)
    then have j: "?n < j" "j < length ?bs" "?bs ! j" "\<And>i. ?n < i \<Longrightarrow> i < j \<Longrightarrow> \<not> ?bs ! i"
      using find_next_Some [OF fnx Some]
      by (auto simp: nth_list_update split: if_splits)
    then have "u32_of j = j" using b(5) by (simp add: u32_of_def)
    moreover have "\<And>i. i < j \<Longrightarrow> \<not> ?cs ! i"
      using b j by (metis nth_list_update_eq nth_list_update_neq linorder_neqE_nat)
    ultimately show ?thesis using Some set ne b j
      by (auto simp: GenerateInstanceId_def ids_used_def ids_inv_def nth_list_update Let_def)
  qed
qed

lemma ids_free:
  assumes inv: "ids_inv s" and i: "i \<in> ids_used s"
  shows "\<exists>s'. FreeInstanceId i s = Some s' \<and> ids_used s' = ids_used s - {i} \<and> ids_inv s'"
  using assms
  by (auto simp: FreeInstanceId_def bitset_set_def ids_used_def ids_inv_def nth_list_update min_def)

definition lowest_set :: find_next_fun where
  "lowest_set bs pos = List.find (\<lambda>i. bs ! i) [Suc pos ..< length bs]"

lemma lowest_set_spec: "find_next_spec lowest_set"
  unfolding find_next_spec_def lowest_set_def
proof (intro allI)
  fix bs :: "bool list" and pos
  show "case List.find ((!) bs) [Suc pos..<length bs] of
      None \<Rightarrow> \<forall>i. pos < i \<and> i < length bs \<longrightarrow> \<not> bs ! i
    | Some j \<Rightarrow> pos < j \<and> j < length bs \<and> bs ! j \<and> (\<forall>i. pos < i \<and> i < j \<longrightarrow> \<not> bs ! i)"
  proof (cases "List.find ((!) bs) [Suc pos..<length bs]")
    case None
    moreover have "\<forall>x<length bs. Suc pos \<le> x \<longrightarrow> \<not> bs ! x"
      using None by (auto simp: find_None_iff)
    ultimately show ?thesis by (simp add: Suc_le_eq)
  next
    case (Some j)
    then obtain k where k: "k < length bs - Suc pos" "bs ! (Suc pos + k)" "j = Suc pos + k"
      and lo: "\<And>l. l < k \<Longrightarrow> \<not> bs ! (Suc pos + l)"
      by (auto simp: find_Some_iff)
    have "\<not> bs ! i" if "pos < i" "i < j" for i
      using lo [of "i - Suc pos"] that k by auto
    then show ?thesis using Some k by auto
  qed
qed

lemma id_pool_model:
  assumes "find_next_spec fnx"
  shows "id_pool ids_inv ids_used (GenerateInstanceId fnx) FreeInstanceId
           (\<lambda>s. nextInstanceId s = 0xFFFFFFFF)"
proof (unfold_locales, goal_cases)
  case (1 s)
  then show ?case using ids_gen [OF assms, of s] by blast
next
  case (2 s i s')
  then show ?case using ids_gen [OF assms, of s] by (auto simp: ids_inv_def)
next
  case (3 s i)
  then show ?case by (rule ids_free)
qed

interpretation ip: id_pool ids_inv ids_used "GenerateInstanceId lowest_set" FreeInstanceId
    "\<lambda>s. nextInstanceId s = 0xFFFFFFFF"
  by (rule id_pool_model [OF lowest_set_spec])


section \<open>Start of the server\<close>

text \<open>While the locks are loaded in ascending order of their ids, the id after the last one that
  directly follows its predecessors is the next one.\<close>

definition boot_inv :: "nat \<Rightarrow> nat set \<Rightarrow> nat \<Rightarrow> instance_ids \<Rightarrow> bool" where
  "boot_inv m R lo s \<longleftrightarrow>
     length (freeInstanceIds s) = m + 2
     \<and> (\<forall>i < m + 2. freeInstanceIds s ! i \<longleftrightarrow> 0 < i \<and> i \<notin> R)
     \<and> 0 < nextInstanceId s \<and> nextInstanceId s \<le> m + 1 \<and> nextInstanceId s \<notin> R
     \<and> {0 <..< nextInstanceId s} \<subseteq> R \<and> R \<subseteq> {0 <.. lo}"

lemma boot_register:
  assumes s: "boot_inv m R lo s" and i: "lo \<le> i" "0 < i" "i \<le> m" and m: "m + 2 < 2 ^ 32"
  shows "\<exists>s'. RegisterInstanceId i s = Some s' \<and> boot_inv m (insert i R) i s'"
proof -
  let ?n = "nextInstanceId s"
  have b: "length (freeInstanceIds s) = m + 2" "\<And>j. j < m + 2 \<Longrightarrow> freeInstanceIds s ! j \<longleftrightarrow> 0 < j \<and> j \<notin> R"
    "0 < ?n" "?n \<le> m + 1" "?n \<notin> R" "{0 <..< ?n} \<subseteq> R" "R \<subseteq> {0 <.. lo}"
    using s by (auto simp: boot_inv_def)
  show ?thesis
  proof (cases "?n = i")
    case True
    then have "Suc i \<notin> R" using b(7) i by auto
    moreover have "RegisterInstanceId i s
        = Some (s\<lparr>freeInstanceIds := (freeInstanceIds s)[i := False], nextInstanceId := Suc i\<rparr>)"
      using b(1) True i m by (simp add: RegisterInstanceId_def bitset_set_def u32_of_def)
    moreover have "{0 <..< Suc i} \<subseteq> insert i R"
      using b(6) unfolding True by (auto simp: subset_iff less_Suc_eq)
    moreover have "insert i R \<subseteq> {0 <.. i}" using b(7) i by auto
    moreover have "\<forall>j < m + 2. (freeInstanceIds s)[i := False] ! j \<longleftrightarrow> 0 < j \<and> j \<notin> insert i R"
      using b(1,2) i by (simp add: nth_list_update)
    ultimately show ?thesis using b(1) i by (simp add: boot_inv_def)
  next
    case False
    then show ?thesis using b i
      by (auto simp: RegisterInstanceId_def bitset_set_def boot_inv_def nth_list_update)
  qed
qed

lemma boot_register_all:
  assumes "boot_inv m R lo s" "sorted ids" "\<And>i. i \<in> set ids \<Longrightarrow> lo \<le> i \<and> 0 < i \<and> i \<le> m" "m + 2 < 2 ^ 32"
  shows "\<exists>s' lo'. register_all ids s = Some s' \<and> boot_inv m (R \<union> set ids) lo' s'"
  using assms
proof (induction ids arbitrary: R lo s)
  case (Cons i ids)
  obtain s' where s': "RegisterInstanceId i s = Some s'" "boot_inv m (insert i R) i s'"
    using boot_register [OF Cons.prems(1), of i] Cons.prems(3,4) by auto
  obtain s'' lo' where "register_all ids s' = Some s''" "boot_inv m (insert i R \<union> set ids) lo' s''"
    using Cons.IH [OF s'(2)] Cons.prems by auto
  then show ?case using s' by auto
qed auto

definition boot :: "nat option \<Rightarrow> nat option \<Rightarrow> nat list \<Rightarrow> instance_ids option" where
  "boot maxInstance maxLock ids = Option.bind (InitInstanceIds maxInstance maxLock) (register_all ids)"

definition max_id :: "nat option \<Rightarrow> nat option \<Rightarrow> nat" where
  "max_id a b = max (case a of None \<Rightarrow> 0 | Some x \<Rightarrow> x) (case b of None \<Rightarrow> 0 | Some x \<Rightarrow> x)"

lemma InitInstanceIds_inv:
  "\<exists>s. InitInstanceIds a b = Some s \<and> boot_inv (max_id a b) {} 0 s"
  by (auto simp: InitInstanceIds_def bitset_set_def boot_inv_def max_id_def nth_list_update nth_Cons'
      split: option.splits)

lemma boot_inv_ids:
  assumes "boot_inv m R lo s" "m + 2 < 2 ^ 32"
  shows "ids_inv s \<and> ids_used s = R \<inter> {0 .. m + 1}"
  using assms by (auto simp: boot_inv_def ids_inv_def ids_used_def)

text \<open>The ids in use after the start: those the code handed out and did not take back.\<close>

inductive ids_run :: "find_next_fun \<Rightarrow> instance_ids \<Rightarrow> instance_ids \<Rightarrow> nat list \<Rightarrow> bool" for fnx s0 where
  ids_start: "ids_run fnx s0 s0 []"
| ids_generate: "\<lbrakk>ids_run fnx s0 s own; nextInstanceId s \<noteq> 0xFFFFFFFF; GenerateInstanceId fnx s = Some (i, s')\<rbrakk>
    \<Longrightarrow> ids_run fnx s0 s' (i # own)"
| ids_freed: "\<lbrakk>ids_run fnx s0 s own; i \<in> set own; FreeInstanceId i s = Some s'\<rbrakk>
    \<Longrightarrow> ids_run fnx s0 s' (remove1 i own)"

lemma ids_run_owned:
  assumes "find_next_spec fnx" "ids_run fnx s0 s own" "ids_inv s0" "R \<subseteq> ids_used s0"
  shows "id_pool.owned ids_inv ids_used R own s"
proof -
  have pool: "id_pool ids_inv ids_used (GenerateInstanceId fnx) FreeInstanceId
           (\<lambda>s. nextInstanceId s = 0xFFFFFFFF)" by (rule id_pool_model [OF assms(1)])
  show ?thesis using assms(2)
  proof (induction rule: ids_run.induct)
    case ids_start
    then show ?case using assms(3,4) by (auto simp: id_pool.owned_def [OF pool])
  next
    case (ids_generate s own i s')
    then show ?case using id_pool.gen_owned [OF pool] by blast
  next
    case (ids_freed s own i s')
    then show ?case using id_pool.free_owned [OF pool] by blast
  qed
qed

text \<open>C28: ids of instances are unique, provided the server meets those of the database in ascending order when it registers
  them: then any sequence of requests and returns hands out ids that are positive, pairwise different while they are in use, and
  different from every id of the database. The comment in the source takes the order for granted, but the query of
  \<^verbatim>\<open>InstanceLockMgr::Load\<close> has no ORDER BY; \<open>RegisterInstanceId_order_collision\<close> below shows what happens without it.\<close>

lemma instance_ids_unique:
  assumes "find_next_spec fnx" and "sorted ids" and "\<And>i. i \<in> set ids \<Longrightarrow> 0 < i \<and> i \<le> max_id a b"
    and "max_id a b + 2 < 2 ^ 32"
  shows "\<exists>s0. boot a b ids = Some s0
     \<and> (\<forall>s own. ids_run fnx s0 s own \<longrightarrow> distinct own \<and> 0 \<notin> set own \<and> set own \<inter> set ids = {})"
proof -
  obtain s where s: "InitInstanceIds a b = Some s" "boot_inv (max_id a b) {} 0 s"
    using InitInstanceIds_inv by blast
  then obtain s0 lo where s0: "register_all ids s = Some s0" "boot_inv (max_id a b) (set ids) lo s0"
    using boot_register_all [OF s(2) assms(2) _ assms(4)] assms(3) by auto
  have "ids_inv s0" "set ids \<subseteq> ids_used s0"
    using boot_inv_ids [OF s0(2) assms(4)] assms(3) by force+
  then show ?thesis
    using ids_run_owned [OF assms(1)] s(1) s0(1) id_pool.owned_def [OF id_pool_model [OF assms(1)]]
    by (fastforce simp: boot_def)
qed

lemma instance_ids_unique_witness:
  "\<exists>s0 s. boot (Some 3) (Some 5) [1, 2, 2, 5] = Some s0 \<and> ids_run lowest_set s0 s [3]
     \<and> distinct [3::nat] \<and> 0 \<notin> set [3::nat] \<and> set [3] \<inter> set [1, 2, 2, 5::nat] = {}"
proof -
  have "\<And>i. i \<in> set [1, 2, 2, 5::nat] \<Longrightarrow> 0 < i \<and> i \<le> max_id (Some 3) (Some 5)"
    by (auto simp: max_id_def)
  then obtain s0 where s0: "boot (Some 3) (Some 5) [1, 2, 2, 5] = Some s0"
    and run: "\<And>s own. ids_run lowest_set s0 s own \<Longrightarrow> distinct own \<and> 0 \<notin> set own \<and> set own \<inter> set [1, 2, 2, 5] = {}"
    using instance_ids_unique [OF lowest_set_spec, of "[1, 2, 2, 5]" "Some 3" "Some 5"]
    by (auto simp: max_id_def)
  have "nextInstanceId s0 = 3" "length (freeInstanceIds s0) = 7"
    using s0 by (auto simp: boot_def InitInstanceIds_def bitset_set_def RegisterInstanceId_def u32_of_def)
  then obtain s where "GenerateInstanceId lowest_set s0 = Some (3, s)"
    by (auto simp: GenerateInstanceId_def bitset_set_def)
  then have "ids_run lowest_set s0 s [3]"
    using ids_generate [OF ids_start, of s0 lowest_set 3 s] \<open>nextInstanceId s0 = 3\<close> by simp
  then show ?thesis using s0 run by blast
qed

lemma register_all_append:
  "register_all (xs @ ys) s = Option.bind (register_all xs s) (register_all ys)"
proof (induction xs arbitrary: s)
  case (Cons x xs)
  then show ?case by (cases "RegisterInstanceId x s") simp_all
qed simp

lemma register_all_facts:
  assumes "register_all ids s = Some s'"
  shows "length (freeInstanceIds s') = length (freeInstanceIds s)
    \<and> (1 \<notin> set ids \<longrightarrow> nextInstanceId s = 1 \<longrightarrow> nextInstanceId s' = 1)
    \<and> (\<forall>i. i < length (freeInstanceIds s) \<longrightarrow> i \<in> set ids \<or> \<not> freeInstanceIds s ! i \<longrightarrow> \<not> freeInstanceIds s' ! i)
    \<and> (\<forall>i \<in> set ids. i < length (freeInstanceIds s))"
  using assms
proof (induction ids arbitrary: s)
  case (Cons i ids)
  obtain t where t: "RegisterInstanceId i s = Some t" "register_all ids t = Some s'"
    using Cons.prems by (auto simp: bind_eq_Some_conv)
  then show ?case using Cons.IH [OF t(2)]
    by (auto simp: RegisterInstanceId_def bitset_set_def nth_list_update Let_def split: if_splits)
qed simp

text \<open>the order matters.  The code assumes the ids arrive in ascending order, but the query that
  loads the locks does not sort them: when the row with id 1 comes after a row with id 2, the id 2 of an
  existing lock is the next one to be handed out.\<close>

lemma RegisterInstanceId_order_collision:
  assumes "2 \<in> set ids" and "1 \<notin> set ids" and "boot a b (ids @ [1]) = Some s0"
  shows "2 \<in> ids_used s0 \<and> (\<exists>s. GenerateInstanceId fnx s0 = Some (2, s))"
proof -
  obtain s where "register_all (ids @ [1]) s = Some s0" "nextInstanceId s = 1"
    using assms(3) by (auto simp: boot_def InitInstanceIds_def bind_eq_Some_conv Let_def)
  moreover have "\<exists>s'. register_all ids s = Some s' \<and> RegisterInstanceId 1 s' = Some s0"
    using calculation(1) by (auto simp: register_all_append bind_eq_Some_conv)
  ultimately obtain s' where s': "register_all ids s = Some s'" "nextInstanceId s = 1"
    "RegisterInstanceId 1 s' = Some s0" by blast
  then have "nextInstanceId s' = 1" "2 < length (freeInstanceIds s')" "\<not> freeInstanceIds s' ! 2"
    using register_all_facts [OF s'(1)] assms(1,2) by auto
  then show ?thesis using s'(3)
    by (auto simp: RegisterInstanceId_def bitset_set_def GenerateInstanceId_def ids_used_def u32_of_def
        split: if_splits)
qed

lemma RegisterInstanceId_order_collision_witness:
  "\<exists>s0 s. boot (Some 2) (Some 2) [2, 1] = Some s0 \<and> 2 \<in> ids_used s0
     \<and> GenerateInstanceId lowest_set s0 = Some (2, s)"
proof -
  obtain s0 where "boot (Some 2) (Some 2) ([2] @ [1]) = Some s0"
    by (simp add: boot_def InitInstanceIds_def bitset_set_def RegisterInstanceId_def)
  then show ?thesis using RegisterInstanceId_order_collision [of "[2]" "Some 2" "Some 2" s0 lowest_set]
    by auto
qed

end
