(* ===== verification/InstanceLockMgr.thy ===== *)
theory InstanceLockMgr
  imports InstanceIds "HOL-Library.AList"
begin

text \<open>
  Instance locks (src/src/server/game/Instances/InstanceLockMgr.{h,cpp}): which player is bound to which
  instance, until when, and with which encounters completed.  The two \<^verbatim>\<open>LockMap\<close>s are nested
  association lists keyed by the player and by \<^verbatim>\<open>(MapID, LockID)\<close>; a lock is owned by exactly one
  entry, as the \<^verbatim>\<open>unique_ptr\<close>s of the code say.  The shared state of id based locks lives at an
  address: a \<^verbatim>\<open>shared_ptr\<close> is the address, it is released when no lock names it any more, and a
  \<^verbatim>\<open>weak_ptr\<close> has expired when nothing is stored at its address.  A failed assertion, or a cast
  that does not fit the lock, is \<^term>\<open>None\<close>.  Time points are nanoseconds since the epoch.  Statements sent to
  the database are recorded: those executed at once in the manager, those of a transaction in the list
  the operation is given.
\<close>

type_synonym player = nat
type_synonym lock_key = "u32 \<times> u32"
type_synonym addr = nat

section \<open>Data\<close>

record map_db2 =
  MapID :: u32
  LockID :: u32
  DifficultyID :: u8
  ResetInterval :: u8
  FlexLocking :: bool
  EncounterLocks :: bool

record instance_lock_data =
  Data :: string
  CompletedEncountersMask :: u32
  EntranceWorldSafeLocId :: u32

record shared_lock_data = instance_lock_data +
  SharedInstanceId :: u32

record instance_lock =
  lock_mapId :: u32
  lock_difficultyId :: u8
  lock_instanceId :: u32
  lock_expiryTime :: int
  lock_extended :: bool
  lock_data :: instance_lock_data
  lock_isInUse :: bool
  lock_isNew :: bool
  lock_sharedData :: "addr option"

record update_event =
  ev_InstanceId :: u32
  ev_NewData :: string
  ev_InstanceCompletedEncountersMask :: u32
  ev_CompletedEncounter :: "nat option"
  ev_EntranceWorldSafeLocId :: "u32 option"

datatype lock_statement =
    DelCharacterLock player u32 u32
  | InsCharacterLock player u32 u32 u32 u8 string u32 u32 int bool
  | DelInstance u32
  | InsInstance u32 string u32 u32
  | UpdExtension bool player u32 u32
  | UpdForceExpire int player u32 u32
  | DelCharacterLocksOf u32

type_synonym lock_map = "(player \<times> (lock_key \<times> instance_lock) list) list"

record lock_mgr =
  temporaryLocks :: lock_map
  permanentLocks :: lock_map
  instanceLockDataById :: "(u32 \<times> addr) list"
  shared_heap :: "addr \<rightharpoonup> shared_lock_data"
  next_addr :: addr
  unloading :: bool
  executed :: "lock_statement list"

record tm =
  tm_sec :: int
  tm_min :: int
  tm_hour :: int
  tm_mday :: int
  tm_mon :: int
  tm_year :: int
  tm_wday :: int

text \<open>What the manager reads from the rest of the server: the current time, as a time point and broken
  down, \<^verbatim>\<open>mktime\<close>, the two configuration values, and the map tables.\<close>

record lock_env =
  env_now :: int
  env_tm :: tm
  env_mktime :: "tm \<Rightarrow> int"
  env_resetHour :: int
  env_resetDay :: int
  env_db2 :: "u32 \<Rightarrow> u8 \<Rightarrow> map_db2 option"

definition Seconds :: "int \<Rightarrow> int" where "Seconds n = n * 1000000000"
definition from_time_t :: "int \<Rightarrow> int" where "from_time_t t = Seconds t"
definition to_time_t :: "int \<Rightarrow> int" where "to_time_t t = t div 1000000000"

definition InstanceLock :: "u32 \<Rightarrow> u8 \<Rightarrow> int \<Rightarrow> u32 \<Rightarrow> addr option \<Rightarrow> instance_lock" where
  "InstanceLock m d expiry i shared =
     \<lparr>lock_mapId = m, lock_difficultyId = d, lock_instanceId = i, lock_expiryTime = expiry,
      lock_extended = False,
      lock_data = \<lparr>Data = [], CompletedEncountersMask = 0, EntranceWorldSafeLocId = 0\<rparr>,
      lock_isInUse = False, lock_isNew = False, lock_sharedData = shared\<rparr>"

definition SharedInstanceLockData :: shared_lock_data where
  "SharedInstanceLockData =
     \<lparr>Data = [], CompletedEncountersMask = 0, EntranceWorldSafeLocId = 0, SharedInstanceId = 0\<rparr>"

definition InstanceLockMgr_new :: lock_mgr where
  "InstanceLockMgr_new =
     \<lparr>temporaryLocks = [], permanentLocks = [], instanceLockDataById = [], shared_heap = Map.empty,
      next_addr = 0, unloading = False, executed = []\<rparr>"


section \<open>Map tables and reset times\<close>

definition GetKey :: "map_db2 \<Rightarrow> lock_key" where "GetKey e = (MapID e, LockID e)"

definition IsInstanceIdBound :: "map_db2 \<Rightarrow> bool" where
  "IsInstanceIdBound e \<longleftrightarrow> \<not> FlexLocking e \<and> \<not> EncounterLocks e"

definition HasResetSchedule :: "map_db2 \<Rightarrow> bool" where "HasResetSchedule e \<longleftrightarrow> ResetInterval e \<noteq> 0"

definition GetRaidDuration :: "map_db2 \<Rightarrow> int" where
  "GetRaidDuration e =
     (if ResetInterval e = 1 then 86400 else if ResetInterval e = 2 then 604800 else 0)"

definition GetNextResetTime :: "lock_env \<Rightarrow> map_db2 \<Rightarrow> int" where
  "GetNextResetTime env e =
     (let dateTime = (env_tm env)\<lparr>tm_sec := 0, tm_min := 0\<rparr>;
          resetHour = env_resetHour env
      in from_time_t (env_mktime env
          (if ResetInterval e = 1 then
             (let dateTime = (if tm_hour dateTime \<ge> resetHour
                              then dateTime\<lparr>tm_mday := tm_mday dateTime + 1\<rparr> else dateTime)
              in dateTime\<lparr>tm_hour := resetHour\<rparr>)
           else if ResetInterval e = 2 then
             (let resetDay = env_resetDay env;
                  daysAdjust = resetDay - tm_wday dateTime;
                  daysAdjust =
                    (if tm_wday dateTime > resetDay
                        \<or> (tm_wday dateTime = resetDay \<and> tm_hour dateTime \<ge> resetHour)
                     then daysAdjust + 7 else daysAdjust)
              in dateTime\<lparr>tm_hour := resetHour, tm_mday := tm_mday dateTime + daysAdjust\<rparr>)
           else dateTime)))"

definition IsExpired :: "lock_env \<Rightarrow> instance_lock \<Rightarrow> bool" where
  "IsExpired env l \<longleftrightarrow> lock_expiryTime l < env_now env"

definition GetEffectiveExpiryTime :: "lock_env \<Rightarrow> instance_lock \<Rightarrow> int option" where
  "GetEffectiveExpiryTime env l =
     (if \<not> lock_extended l then Some (lock_expiryTime l)
      else Option.bind (env_db2 env (lock_mapId l) (lock_difficultyId l)) (\<lambda>e.
        if IsExpired env l then Some (GetNextResetTime env e)
        else Some (lock_expiryTime l + Seconds (GetRaidDuration e))))"


section \<open>Nested maps and the shared state\<close>

definition player_locks :: "lock_map \<Rightarrow> player \<Rightarrow> (lock_key \<times> instance_lock) list" where
  "player_locks m g = (case map_of m g of None \<Rightarrow> [] | Some pl \<Rightarrow> pl)"

text \<open>\<^verbatim>\<open>FindInstanceLock\<close> on the key of the entries, and \<^verbatim>\<open>m[playerGuid][key].reset(lock)\<close>.\<close>

definition FindInstanceLock :: "lock_map \<Rightarrow> player \<Rightarrow> lock_key \<Rightarrow> instance_lock option" where
  "FindInstanceLock m g k = map_of (player_locks m g) k"

definition put_lock :: "player \<Rightarrow> lock_key \<Rightarrow> instance_lock \<Rightarrow> lock_map \<Rightarrow> lock_map" where
  "put_lock g k l m = AList.update g (AList.update k l (player_locks m g)) m"

definition erase_lock :: "player \<Rightarrow> lock_key \<Rightarrow> lock_map \<Rightarrow> lock_map" where
  "erase_lock g k m =
     (let pl = AList.delete k (player_locks m g)
      in if pl = [] then AList.delete g m else AList.update g pl m)"

definition lock_map_refers :: "addr \<Rightarrow> lock_map \<Rightarrow> bool" where
  "lock_map_refers a m \<longleftrightarrow> (\<exists>(g, pl) \<in> set m. \<exists>(k, l) \<in> set pl. lock_sharedData l = Some a)"

definition OnSharedInstanceLockDataDelete :: "u32 \<Rightarrow> lock_mgr \<Rightarrow> lock_mgr" where
  "OnSharedInstanceLockDataDelete i s =
     (if unloading s then s
      else case map_of (instanceLockDataById s) i of
        None \<Rightarrow> s
      | Some a \<Rightarrow>
          if shared_heap s a \<noteq> None then s
          else s\<lparr>instanceLockDataById := AList.delete i (instanceLockDataById s),
                 executed := executed s @ [DelInstance i]\<rparr>)"

text \<open>A lock is destroyed after its entry in the map has been overwritten: its share of the shared state
  goes with it, and the last share runs the destructor of the shared state.\<close>

definition destroy_lock :: "instance_lock \<Rightarrow> lock_mgr \<Rightarrow> lock_mgr" where
  "destroy_lock l s =
     (case lock_sharedData l of
        None \<Rightarrow> s
      | Some a \<Rightarrow>
          if lock_map_refers a (permanentLocks s) \<or> lock_map_refers a (temporaryLocks s) then s
          else case shared_heap s a of
            None \<Rightarrow> s
          | Some d \<Rightarrow>
              let s = s\<lparr>shared_heap := (shared_heap s)(a := None)\<rparr>
              in if SharedInstanceId d \<noteq> 0 then OnSharedInstanceLockDataDelete (SharedInstanceId d) s
                 else s)"

definition destroy_old :: "instance_lock option \<Rightarrow> lock_mgr \<Rightarrow> lock_mgr" where
  "destroy_old old s = (case old of None \<Rightarrow> s | Some l \<Rightarrow> destroy_lock l s)"

definition reset_permanent :: "player \<Rightarrow> lock_key \<Rightarrow> instance_lock \<Rightarrow> lock_mgr \<Rightarrow> lock_mgr" where
  "reset_permanent g k l s =
     destroy_old (FindInstanceLock (permanentLocks s) g k)
       (s\<lparr>permanentLocks := put_lock g k l (permanentLocks s)\<rparr>)"

definition reset_temporary :: "player \<Rightarrow> lock_key \<Rightarrow> instance_lock \<Rightarrow> lock_mgr \<Rightarrow> lock_mgr" where
  "reset_temporary g k l s =
     destroy_old (FindInstanceLock (temporaryLocks s) g k)
       (s\<lparr>temporaryLocks := put_lock g k l (temporaryLocks s)\<rparr>)"

text \<open>Writing through the pointer to a permanent lock.\<close>

definition write_permanent :: "player \<Rightarrow> lock_key \<Rightarrow> instance_lock \<Rightarrow> lock_mgr \<Rightarrow> lock_mgr" where
  "write_permanent g k l s = s\<lparr>permanentLocks := put_lock g k l (permanentLocks s)\<rparr>"

definition make_shared :: "shared_lock_data \<Rightarrow> lock_mgr \<Rightarrow> addr \<times> lock_mgr" where
  "make_shared d s =
     (next_addr s, s\<lparr>shared_heap := (shared_heap s)(next_addr s \<mapsto> d), next_addr := next_addr s + 1\<rparr>)"


section \<open>Lookups\<close>

definition FindActiveInstanceLock ::
  "lock_env \<Rightarrow> lock_mgr \<Rightarrow> player \<Rightarrow> lock_key \<Rightarrow> bool \<Rightarrow> bool \<Rightarrow> instance_lock option" where
  "FindActiveInstanceLock env s g k ignoreTemporary ignoreExpired =
     (case FindInstanceLock (permanentLocks s) g k of
        Some l \<Rightarrow>
          if \<not> IsExpired env l \<or> lock_extended l \<or> \<not> ignoreExpired then Some l
          else if ignoreTemporary then None else FindInstanceLock (temporaryLocks s) g k
      | None \<Rightarrow> if ignoreTemporary then None else FindInstanceLock (temporaryLocks s) g k)"

definition GetInstanceLocksForPlayer :: "lock_mgr \<Rightarrow> player \<Rightarrow> instance_lock list" where
  "GetInstanceLocksForPlayer s g = map snd (player_locks (permanentLocks s) g)"

datatype transfer_abort =
    TRANSFER_ABORT_NONE
  | TRANSFER_ABORT_ALREADY_COMPLETED_ENCOUNTER
  | TRANSFER_ABORT_LOCKED_TO_DIFFERENT_INSTANCE

definition CanJoinInstanceLock ::
  "lock_env \<Rightarrow> lock_mgr \<Rightarrow> player \<Rightarrow> map_db2 \<Rightarrow> instance_lock \<Rightarrow> transfer_abort" where
  "CanJoinInstanceLock env s g e instanceLock =
     (if \<not> HasResetSchedule e then TRANSFER_ABORT_NONE
      else case FindActiveInstanceLock env s g (GetKey e) False True of
        None \<Rightarrow> TRANSFER_ABORT_NONE
      | Some playerLock \<Rightarrow>
          if FlexLocking e then
            (if CompletedEncountersMask (lock_data playerLock)
                  AND NOT (CompletedEncountersMask (lock_data instanceLock)) \<noteq> 0
             then TRANSFER_ABORT_ALREADY_COMPLETED_ENCOUNTER else TRANSFER_ABORT_NONE)
          else if \<not> EncounterLocks e \<and> \<not> lock_isNew playerLock
                  \<and> lock_instanceId playerLock \<noteq> lock_instanceId instanceLock
          then TRANSFER_ABORT_LOCKED_TO_DIFFERENT_INSTANCE
          else TRANSFER_ABORT_NONE)"

definition GetStatistics :: "lock_mgr \<Rightarrow> nat \<times> nat" where
  "GetStatistics s = (length (instanceLockDataById s), length (permanentLocks s))"


section \<open>Changes\<close>

definition CreateInstanceLockForNewInstance ::
  "lock_env \<Rightarrow> player \<Rightarrow> map_db2 \<Rightarrow> u32 \<Rightarrow> lock_mgr \<Rightarrow> instance_lock option \<times> lock_mgr" where
  "CreateInstanceLockForNewInstance env g e instanceId s =
     (if \<not> HasResetSchedule e then (None, s)
      else
        let (instanceLock, s) =
          (if IsInstanceIdBound e then
             let (a, s) = make_shared SharedInstanceLockData s;
                 s = s\<lparr>instanceLockDataById := AList.update instanceId a (instanceLockDataById s)\<rparr>
             in (InstanceLock (MapID e) (DifficultyID e) (GetNextResetTime env e) instanceId (Some a), s)
           else (InstanceLock (MapID e) (DifficultyID e) (GetNextResetTime env e) instanceId None, s));
            instanceLock = instanceLock\<lparr>lock_isNew := True\<rparr>
        in (Some instanceLock, reset_temporary g (GetKey e) instanceLock s))"

text \<open>The lock of the temporary storage, if there is one, becomes the permanent lock.\<close>

definition promote_temporary :: "player \<Rightarrow> lock_key \<Rightarrow> lock_mgr \<Rightarrow> instance_lock option \<times> lock_mgr" where
  "promote_temporary g k s =
     (case FindInstanceLock (temporaryLocks s) g k of
        None \<Rightarrow> (None, s)
      | Some l \<Rightarrow>
          let old = FindInstanceLock (permanentLocks s) g k;
              s = s\<lparr>permanentLocks := put_lock g k l (permanentLocks s)\<rparr>;
              s = destroy_old old s
          in (Some l, s\<lparr>temporaryLocks := erase_lock g k (temporaryLocks s)\<rparr>))"

definition new_player_lock ::
  "lock_env \<Rightarrow> map_db2 \<Rightarrow> u32 \<Rightarrow> lock_mgr \<Rightarrow> instance_lock option" where
  "new_player_lock env e i s =
     (if IsInstanceIdBound e then
        Option.bind (map_of (instanceLockDataById s) i) (\<lambda>a.
        Option.bind (shared_heap s a) (\<lambda>d.
          if SharedInstanceId d = i
          then Some (InstanceLock (MapID e) (DifficultyID e) (GetNextResetTime env e) i (Some a))
          else None))
      else Some (InstanceLock (MapID e) (DifficultyID e) (GetNextResetTime env e) i None))"

definition existing_lock_ok :: "map_db2 \<Rightarrow> u32 \<Rightarrow> instance_lock \<Rightarrow> lock_mgr \<Rightarrow> bool" where
  "existing_lock_ok e i l s \<longleftrightarrow>
     (IsInstanceIdBound e \<longrightarrow>
        lock_instanceId l = i
        \<and> (case map_of (instanceLockDataById s) i of
             None \<Rightarrow> False
           | Some a \<Rightarrow> lock_sharedData l = Some a \<and> shared_heap s a \<noteq> None))"

definition update_lock :: "lock_env \<Rightarrow> map_db2 \<Rightarrow> update_event \<Rightarrow> instance_lock \<Rightarrow> instance_lock" where
  "update_lock env e ev l =
     (let l = l\<lparr>lock_isNew := False\<rparr>;
          d = (lock_data l)\<lparr>Data := ev_NewData ev\<rparr>;
          d = (case ev_CompletedEncounter ev of
                 None \<Rightarrow> d
               | Some b \<Rightarrow> d\<lparr>CompletedEncountersMask := CompletedEncountersMask d OR push_bit b 1\<rparr>);
          d = (if \<not> EncounterLocks e
               then d\<lparr>CompletedEncountersMask :=
                        CompletedEncountersMask d OR ev_InstanceCompletedEncountersMask ev\<rparr>
               else d);
          d = (case ev_EntranceWorldSafeLocId ev of
                 None \<Rightarrow> d | Some x \<Rightarrow> d\<lparr>EntranceWorldSafeLocId := x\<rparr>);
          l = l\<lparr>lock_data := d\<rparr>
      in if IsExpired env l
         then l\<lparr>lock_expiryTime := GetNextResetTime env e, lock_extended := False\<rparr> else l)"

definition save_lock :: "player \<Rightarrow> map_db2 \<Rightarrow> instance_lock \<Rightarrow> lock_statement list" where
  "save_lock g e l =
     [DelCharacterLock g (MapID e) (LockID e),
      InsCharacterLock g (MapID e) (LockID e) (lock_instanceId l) (DifficultyID e)
        (Data (lock_data l)) (CompletedEncountersMask (lock_data l))
        (EntranceWorldSafeLocId (lock_data l)) (to_time_t (lock_expiryTime l)) (lock_extended l)]"

text \<open>Finding the lock to update: the active permanent one, the temporary one, or a new one.\<close>

definition lock_to_update ::
  "lock_env \<Rightarrow> player \<Rightarrow> map_db2 \<Rightarrow> u32 \<Rightarrow> lock_mgr \<Rightarrow> (instance_lock \<times> lock_mgr) option" where
  "lock_to_update env g e i s =
     (let k = GetKey e;
          (found, s) = (case FindActiveInstanceLock env s g k True True of
                          Some l \<Rightarrow> (Some l, s)
                        | None \<Rightarrow> promote_temporary g k s)
      in case found of
           None \<Rightarrow> map_option (\<lambda>l. (l, reset_permanent g k l s)) (new_player_lock env e i s)
         | Some l \<Rightarrow>
             if existing_lock_ok e i l s then Some (l\<lparr>lock_instanceId := i\<rparr>, s) else None)"

definition UpdateInstanceLockForPlayer ::
  "lock_env \<Rightarrow> player \<Rightarrow> map_db2 \<Rightarrow> update_event \<Rightarrow> lock_statement list \<times> lock_mgr
     \<Rightarrow> (instance_lock \<times> lock_statement list \<times> lock_mgr) option" where
  "UpdateInstanceLockForPlayer env g e ev ts =
     (case ts of (tr, s) \<Rightarrow>
        map_option (\<lambda>(l, s).
          let l = update_lock env e ev l
          in (l, tr @ save_lock g e l, write_permanent g (GetKey e) l s))
        (lock_to_update env g e (ev_InstanceId ev) s))"

definition UpdateSharedInstanceLock ::
  "update_event \<Rightarrow> lock_statement list \<times> lock_mgr \<Rightarrow> (lock_statement list \<times> lock_mgr) option" where
  "UpdateSharedInstanceLock ev ts =
     (case ts of (tr, s) \<Rightarrow>
        Option.bind (map_of (instanceLockDataById s) (ev_InstanceId ev)) (\<lambda>a.
        Option.bind (shared_heap s a) (\<lambda>d.
          if SharedInstanceId d = 0 \<or> SharedInstanceId d = ev_InstanceId ev then
            let d = d\<lparr>Data := ev_NewData ev, SharedInstanceId := ev_InstanceId ev\<rparr>;
                d = (case ev_CompletedEncounter ev of
                       None \<Rightarrow> d
                     | Some b \<Rightarrow> d\<lparr>CompletedEncountersMask := CompletedEncountersMask d OR push_bit b 1\<rparr>);
                d = (case ev_EntranceWorldSafeLocId ev of
                       None \<Rightarrow> d | Some x \<Rightarrow> d\<lparr>EntranceWorldSafeLocId := x\<rparr>)
            in Some (tr @ [DelInstance (SharedInstanceId d),
                              InsInstance (SharedInstanceId d) (Data d) (CompletedEncountersMask d)
                                (EntranceWorldSafeLocId d)],
                     s\<lparr>shared_heap := (shared_heap s)(a \<mapsto> d)\<rparr>)
          else None)))"

definition UpdateInstanceLockExtensionForPlayer ::
  "lock_env \<Rightarrow> player \<Rightarrow> map_db2 \<Rightarrow> bool \<Rightarrow> lock_mgr \<Rightarrow> ((int \<times> int) option \<times> lock_mgr) option" where
  "UpdateInstanceLockExtensionForPlayer env g e extended s =
     (case FindActiveInstanceLock env s g (GetKey e) True False of
        None \<Rightarrow> Some (None, s)
      | Some l \<Rightarrow>
          Option.bind (GetEffectiveExpiryTime env l) (\<lambda>oldExpiryTime.
            let l' = l\<lparr>lock_extended := extended\<rparr>;
                s = write_permanent g (GetKey e) l' s;
                s = s\<lparr>executed := executed s @ [UpdExtension extended g (MapID e) (LockID e)]\<rparr>
            in map_option (\<lambda>new. (Some (oldExpiryTime, new), s)) (GetEffectiveExpiryTime env l')))"

text \<open>The first loop of \<^verbatim>\<open>ResetInstanceLocksForPlayer\<close> sorts the locks of the player into those to reset
  and those that are in use; the locks are named by their keys.\<close>

fun locks_to_reset ::
  "lock_env \<Rightarrow> u32 option \<Rightarrow> u8 option \<Rightarrow> (lock_key \<times> instance_lock) list \<Rightarrow> lock_key list \<times> lock_key list" where
  "locks_to_reset env mapId difficulty [] = ([], [])"
| "locks_to_reset env mapId difficulty ((k, l) # pl) =
     (let (res, failed) = locks_to_reset env mapId difficulty pl in
      if lock_isInUse l then (res, k # failed)
      else if (case mapId of None \<Rightarrow> False | Some m \<Rightarrow> m \<noteq> lock_mapId l) then (res, failed)
      else if (case difficulty of None \<Rightarrow> False | Some d \<Rightarrow> d \<noteq> lock_difficultyId l) then (res, failed)
      else if IsExpired env l then (res, failed)
      else (k # res, failed))"

fun force_expire ::
  "lock_env \<Rightarrow> player \<Rightarrow> lock_key list \<Rightarrow> lock_mgr \<Rightarrow> (lock_statement list \<times> lock_mgr) option" where
  "force_expire env g [] s = Some ([], s)"
| "force_expire env g (k # ks) s =
     Option.bind (FindInstanceLock (permanentLocks s) g k) (\<lambda>l.
     Option.bind (env_db2 env (lock_mapId l) (lock_difficultyId l)) (\<lambda>e.
       let newExpiryTime = GetNextResetTime env e - Seconds (GetRaidDuration e);
           s = write_permanent g k (l\<lparr>lock_expiryTime := newExpiryTime, lock_extended := False\<rparr>) s
       in map_option (\<lambda>(tr, s).
             (UpdForceExpire (to_time_t newExpiryTime) g (MapID e) (LockID e) # tr, s))
            (force_expire env g ks s)))"

definition ResetInstanceLocksForPlayer ::
  "lock_env \<Rightarrow> player \<Rightarrow> u32 option \<Rightarrow> u8 option \<Rightarrow> lock_mgr
     \<Rightarrow> (lock_key list \<times> lock_key list \<times> lock_mgr) option" where
  "ResetInstanceLocksForPlayer env g mapId difficulty s =
     (case map_of (permanentLocks s) g of
        None \<Rightarrow> Some ([], [], s)
      | Some pl \<Rightarrow>
          let (res, failed) = locks_to_reset env mapId difficulty pl
          in map_option (\<lambda>(tr, s). (res, failed, s\<lparr>executed := executed s @ tr\<rparr>))
               (force_expire env g res s))"


section \<open>Loading and unloading\<close>

text \<open>A row of table \<^verbatim>\<open>instance\<close> and one of \<^verbatim>\<open>character_instance_lock\<close>, with the columns the two queries
  select.\<close>

record instance_row =
  ir_instanceId :: u32
  ir_data :: string
  ir_completedEncountersMask :: u32

record character_row =
  cr_guid :: player
  cr_mapId :: u32
  cr_lockId :: u32
  cr_instanceId :: u32
  cr_difficulty :: u8
  cr_data :: string
  cr_completedEncountersMask :: u32
  cr_expiryTime :: int
  cr_extended :: bool

fun load_instances :: "instance_row list \<Rightarrow> (u32 \<times> addr) list \<Rightarrow> lock_mgr \<Rightarrow> (u32 \<times> addr) list \<times> lock_mgr" where
  "load_instances [] byId s = (byId, s)"
| "load_instances (r # rs) byId s =
     (let (a, s) = make_shared \<lparr>Data = ir_data r, CompletedEncountersMask = ir_completedEncountersMask r,
                     EntranceWorldSafeLocId = 0, SharedInstanceId = ir_instanceId r\<rparr> s
      in load_instances rs (AList.update (ir_instanceId r) a byId) s)"

definition load_lock ::
  "lock_env \<Rightarrow> (u32 \<times> addr) list \<Rightarrow> character_row \<Rightarrow> instance_ids \<times> lock_mgr \<Rightarrow> (instance_ids \<times> lock_mgr) option" where
  "load_lock env byId r ids_s =
     (case ids_s of (ids, s) \<Rightarrow>
      Option.bind (RegisterInstanceId (unat (cr_instanceId r)) ids) (\<lambda>ids.
      Option.bind (env_db2 env (cr_mapId r) (cr_difficulty r)) (\<lambda>e.
        let put = (\<lambda>shared s.
              let l = InstanceLock (cr_mapId r) (cr_difficulty r) (from_time_t (cr_expiryTime r)) (cr_instanceId r) shared;
                  l = l\<lparr>lock_data := (lock_data l)\<lparr>Data := cr_data r,
                          CompletedEncountersMask := cr_completedEncountersMask r\<rparr>,
                        lock_extended := cr_extended r\<rparr>
              in reset_permanent (cr_guid r) (cr_mapId r, cr_lockId r) l s)
        in if IsInstanceIdBound e then
             (case map_of byId (cr_instanceId r) of
                None \<Rightarrow> Some (ids, s\<lparr>executed := executed s @ [DelCharacterLocksOf (cr_instanceId r)]\<rparr>)
              | Some a \<Rightarrow>
                  Some (ids, put (Some a)
                    (s\<lparr>instanceLockDataById := AList.update (cr_instanceId r) a (instanceLockDataById s)\<rparr>)))
           else Some (ids, put None s))))"

fun load_locks ::
  "lock_env \<Rightarrow> (u32 \<times> addr) list \<Rightarrow> character_row list \<Rightarrow> instance_ids \<times> lock_mgr \<Rightarrow> (instance_ids \<times> lock_mgr) option" where
  "load_locks env byId [] s = Some s"
| "load_locks env byId (r # rs) s = Option.bind (load_lock env byId r s) (load_locks env byId rs)"

text \<open>At the end of \<^verbatim>\<open>Load\<close> the local table goes: shared states no lock uses are released.\<close>

fun drop_unused :: "(u32 \<times> addr) list \<Rightarrow> lock_mgr \<Rightarrow> lock_mgr" where
  "drop_unused [] s = s"
| "drop_unused ((i, a) # byId) s =
     drop_unused byId
       (if lock_map_refers a (permanentLocks s) \<or> lock_map_refers a (temporaryLocks s) then s
        else case shared_heap s a of
          None \<Rightarrow> s
        | Some d \<Rightarrow>
            let s = s\<lparr>shared_heap := (shared_heap s)(a := None)\<rparr>
            in if SharedInstanceId d \<noteq> 0 then OnSharedInstanceLockDataDelete (SharedInstanceId d) s
               else s)"

definition InstanceLockMgr_Load ::
  "lock_env \<Rightarrow> instance_row list \<Rightarrow> character_row list \<Rightarrow> instance_ids \<times> lock_mgr
     \<Rightarrow> (instance_ids \<times> lock_mgr) option" where
  "InstanceLockMgr_Load env irs crs ids_s =
     (case ids_s of (ids, s) \<Rightarrow>
        let (byId, s) = load_instances irs [] s
        in map_option (\<lambda>(ids, s). (ids, drop_unused byId s)) (load_locks env byId crs (ids, s)))"

definition InstanceLockMgr_Unload :: "lock_mgr \<Rightarrow> lock_mgr" where
  "InstanceLockMgr_Unload s =
     (let s = s\<lparr>unloading := True, permanentLocks := []\<rparr>
      in s\<lparr>shared_heap := (\<lambda>a. if lock_map_refers a (temporaryLocks s) then shared_heap s a else None),
           instanceLockDataById := []\<rparr>)"
end
