(* ===== verification/InstanceLocks.thy ===== *)
theory InstanceLocks
  imports InstanceLockMgr
begin

text \<open>
  What the instance lock manager promises: the shared state of every id based lock is alive and found by
  its id, nothing is leaked, an update binds the player to exactly one instance, and the reset time lies
  within the next period.  Two properties record faults: a temporary lock of another instance makes the
  update of a player abort, and a restart forgets the entrance.
\<close>

declare split_paired_All [simp del] split_paired_Ex [simp del]

section \<open>Nested maps\<close>

definition lm_ok :: "lock_map \<Rightarrow> bool" where
  "lm_ok m \<longleftrightarrow> distinct (map fst m) \<and> (\<forall>x \<in> set m. distinct (map fst (snd x)))"

lemma player_locks_distinct: "lm_ok m \<Longrightarrow> distinct (map fst (player_locks m g))"
  by (auto simp: lm_ok_def player_locks_def dest!: map_of_SomeD split: option.splits)

lemma FindInstanceLock_put [simp]:
  "FindInstanceLock (put_lock g k l m) g' k' =
     (if g' = g \<and> k' = k then Some l else FindInstanceLock m g' k')"
  by (auto simp: FindInstanceLock_def put_lock_def player_locks_def AList.update_conv' split: option.splits)

lemma FindInstanceLock_erase [simp]:
  "FindInstanceLock (erase_lock g k m) g' k' =
     (if g' = g \<and> k' = k then None else FindInstanceLock m g' k')"
proof -
  let ?pl = "AList.delete k (player_locks m g)"
  have del: "map_of ?pl = (map_of (player_locks m g))(k := None)"
    by (rule AList.delete_conv')
  have "?pl = [] \<Longrightarrow> (map_of (player_locks m g))(k := None) = Map.empty"
    using del by simp
  then have nil: "?pl = [] \<Longrightarrow> k'' \<noteq> k \<Longrightarrow> map_of (player_locks m g) k'' = None" for k''
    by (metis fun_upd_apply)
  show ?thesis
  proof (cases "g' = g")
    case True
    then show ?thesis using nil [of k'] del
      by (cases "?pl = []")
        (auto simp: FindInstanceLock_def erase_lock_def AList.update_conv' AList.delete_conv'
          player_locks_def [of _ g])
  next
    case False
    then show ?thesis
      by (simp add: FindInstanceLock_def erase_lock_def player_locks_def AList.update_conv' AList.delete_conv' Let_def)
  qed
qed

lemma in_alist_update: "x \<in> set (AList.update k v al) \<Longrightarrow> x = (k, v) \<or> x \<in> set al"
  by (induction al) (auto split: if_splits)

lemma in_alist_delete: "x \<in> set (AList.delete k al) \<Longrightarrow> x \<in> set al"
  by (auto simp: AList.delete_eq)

lemma lm_ok_put: "lm_ok m \<Longrightarrow> lm_ok (put_lock g k l m)"
  using player_locks_distinct [of m g] unfolding lm_ok_def put_lock_def
  by (auto simp: AList.distinct_update dest!: in_alist_update)

lemma lm_ok_erase: "lm_ok m \<Longrightarrow> lm_ok (erase_lock g k m)"
  using player_locks_distinct [of m g] unfolding lm_ok_def erase_lock_def Let_def
  by (auto simp: AList.distinct_update AList.distinct_delete dest!: in_alist_update in_alist_delete)

lemma refers_iff:
  assumes "lm_ok m"
  shows "lock_map_refers a m \<longleftrightarrow> (\<exists>g k l. FindInstanceLock m g k = Some l \<and> lock_sharedData l = Some a)"
    (is "?L \<longleftrightarrow> ?R")
proof
  assume ?L
  then obtain g pl k l where x: "(g, pl) \<in> set m" "(k, l) \<in> set pl" "lock_sharedData l = Some a"
    by (auto simp: lock_map_refers_def)
  then have "map_of m g = Some pl" "map_of pl k = Some l"
    using assms by (force simp: lm_ok_def)+
  then have "FindInstanceLock m g k = Some l" by (simp add: FindInstanceLock_def player_locks_def)
  then show ?R using x(3) by blast
next
  assume ?R
  then show ?L
    by (fastforce simp: FindInstanceLock_def player_locks_def lock_map_refers_def
        dest!: map_of_SomeD split: option.splits)
qed


section \<open>The invariant\<close>

text \<open>A lock of the manager: in the permanent or in the temporary storage.\<close>

definition lock_at :: "lock_mgr \<Rightarrow> player \<Rightarrow> lock_key \<Rightarrow> instance_lock \<Rightarrow> bool" where
  "lock_at s g k l \<longleftrightarrow>
     FindInstanceLock (permanentLocks s) g k = Some l \<or> FindInstanceLock (temporaryLocks s) g k = Some l"

definition maps_ok :: "lock_mgr \<Rightarrow> bool" where
  "maps_ok s \<longleftrightarrow> lm_ok (permanentLocks s) \<and> lm_ok (temporaryLocks s)"

text \<open>A lock is sound when it stands under the key of its map, and has shared state exactly when the maps
  with this key are bound to instance ids (\<open>kb\<close>): then its shared state is alive, registered under the
  id of the lock, and not labelled with another id.\<close>

definition lock_sound :: "(lock_key \<Rightarrow> bool) \<Rightarrow> lock_mgr \<Rightarrow> lock_key \<Rightarrow> instance_lock \<Rightarrow> bool" where
  "lock_sound kb s k l \<longleftrightarrow>
     fst k = lock_mapId l \<and>
     (case lock_sharedData l of
        None \<Rightarrow> \<not> kb k
      | Some a \<Rightarrow> kb k \<and> map_of (instanceLockDataById s) (lock_instanceId l) = Some a \<and>
          (case shared_heap s a of
             None \<Rightarrow> False
           | Some d \<Rightarrow> SharedInstanceId d = 0 \<or> SharedInstanceId d = lock_instanceId l))"

definition heap_owned :: "addr set \<Rightarrow> lock_mgr \<Rightarrow> bool" where
  "heap_owned A s \<longleftrightarrow> (\<forall>a d. shared_heap s a = Some d \<longrightarrow>
     a < next_addr s \<and> (a \<in> A \<or> (\<exists>g k l. lock_at s g k l \<and> lock_sharedData l = Some a)))"

definition ids_ok :: "lock_mgr \<Rightarrow> bool" where
  "ids_ok s \<longleftrightarrow> (\<forall>i j a. map_of (instanceLockDataById s) i = Some a \<longrightarrow>
     a < next_addr s \<and> (map_of (instanceLockDataById s) j = Some a \<longrightarrow> i = j))"

lemma ids_ok_sub:
  assumes "ids_ok s" "\<And>i a. map_of (instanceLockDataById t) i = Some a \<Longrightarrow> map_of (instanceLockDataById s) i = Some a"
    "next_addr t = next_addr s"
  shows "ids_ok t"
  using assms unfolding ids_ok_def by metis

definition li_but :: "addr set \<Rightarrow> (lock_key \<Rightarrow> bool) \<Rightarrow> lock_mgr \<Rightarrow> bool" where
  "li_but A kb s \<longleftrightarrow>
     maps_ok s \<and> (\<forall>g k l. lock_at s g k l \<longrightarrow> lock_sound kb s k l) \<and> heap_owned A s
     \<and> (\<forall>g k l. FindInstanceLock (temporaryLocks s) g k = Some l \<longrightarrow> lock_isNew l)
     \<and> ids_ok s"

abbreviation "li_inv \<equiv> li_but {}"

lemma refers_lock_at:
  "maps_ok s \<Longrightarrow> lock_map_refers a (permanentLocks s) \<or> lock_map_refers a (temporaryLocks s)
     \<longleftrightarrow> (\<exists>g k l. lock_at s g k l \<and> lock_sharedData l = Some a)"
  by (auto simp: maps_ok_def refers_iff lock_at_def)

text \<open>Destroying a lock restores the ownership of its shared state and changes no lock.\<close>

lemma OnShared_fields [simp]:
  "permanentLocks (OnSharedInstanceLockDataDelete i s) = permanentLocks s"
  "temporaryLocks (OnSharedInstanceLockDataDelete i s) = temporaryLocks s"
  "shared_heap (OnSharedInstanceLockDataDelete i s) = shared_heap s"
  "next_addr (OnSharedInstanceLockDataDelete i s) = next_addr s"
  "unloading (OnSharedInstanceLockDataDelete i s) = unloading s"
  by (simp_all add: OnSharedInstanceLockDataDelete_def split: option.splits)

lemma OnShared_byId:
  "map_of (instanceLockDataById (OnSharedInstanceLockDataDelete i s)) j =
     (if i = j \<and> \<not> unloading s \<and> (\<exists>a. map_of (instanceLockDataById s) i = Some a \<and> shared_heap s a = None)
      then None else map_of (instanceLockDataById s) j)"
  by (auto simp: OnSharedInstanceLockDataDelete_def AList.delete_conv' split: option.splits)

lemma destroy_lock_fields [simp]:
  "permanentLocks (destroy_lock l s) = permanentLocks s"
  "temporaryLocks (destroy_lock l s) = temporaryLocks s"
  "next_addr (destroy_lock l s) = next_addr s"
  "unloading (destroy_lock l s) = unloading s"
  by (simp_all add: destroy_lock_def Let_def split: option.splits)

lemma heap_owned_diff:
  assumes "heap_owned A s" "\<And>a. a \<in> D \<Longrightarrow> shared_heap t a = None \<or> (\<exists>g k l. lock_at t g k l \<and> lock_sharedData l = Some a)"
    and "\<And>a d. shared_heap t a = Some d \<Longrightarrow> \<exists>d. shared_heap s a = Some d"
    and "\<And>g k l. lock_at s g k l \<Longrightarrow> lock_at t g k l" "next_addr t = next_addr s"
  shows "heap_owned (A - D) t"
  unfolding heap_owned_def
proof (intro allI impI)
  fix a d
  assume d: "shared_heap t a = Some d"
  then obtain d' where "shared_heap s a = Some d'" using assms(3) by blast
  then have "a < next_addr s" "a \<in> A \<or> (\<exists>g k l. lock_at s g k l \<and> lock_sharedData l = Some a)"
    using assms(1) unfolding heap_owned_def by blast+
  then show "a < next_addr t \<and> (a \<in> A - D \<or> (\<exists>g k l. lock_at t g k l \<and> lock_sharedData l = Some a))"
    using assms(2,4,5) d by (metis DiffI option.distinct(1))
qed

lemmas heap_owned_shrink = heap_owned_diff [where A = A and D = A for A, unfolded Diff_cancel]

lemma destroy_lock_but:
  assumes inv: "li_but A kb s"
  shows "li_but (A - set_option (lock_sharedData l)) kb (destroy_lock l s)"
proof (cases "lock_sharedData l")
  case None
  then show ?thesis using assms by (simp add: destroy_lock_def)
next
  case (Some a)
  have mo: "maps_ok s" using inv by (simp add: li_but_def)
  show ?thesis
  proof (cases "(\<exists>g k l. lock_at s g k l \<and> lock_sharedData l = Some a) \<or> shared_heap s a = None")
    case True
    then have "destroy_lock l s = s"
      using Some mo by (auto simp: destroy_lock_def refers_lock_at split: option.splits)
    moreover have "heap_owned (A - set_option (lock_sharedData l)) s"
      by (rule heap_owned_diff [of A s]) (use inv Some True in \<open>auto simp: li_but_def\<close>)
    ultimately show ?thesis using inv by (simp add: li_but_def)
  next
    case False
    then obtain d where d: "shared_heap s a = Some d" by auto
    let ?t = "destroy_lock l s"
    have heap: "shared_heap ?t = (shared_heap s)(a := None)"
      using False Some mo d by (auto simp: destroy_lock_def refers_lock_at Let_def)
    have at: "lock_at ?t g k l' = lock_at s g k l'" for g k l' by (simp add: lock_at_def)
    have byId: "map_of (instanceLockDataById ?t) i = map_of (instanceLockDataById s) i"
      if "map_of (instanceLockDataById s) i = Some a'" "shared_heap s a' \<noteq> None" "a' \<noteq> a" for i a'
      using False Some mo d that
      by (auto simp: destroy_lock_def refers_lock_at Let_def OnShared_byId)
    have "lock_sound kb ?t k l'" if "lock_at s g k l'" for g k l'
    proof -
      have snd: "lock_sound kb s k l'" using inv that unfolding li_but_def by blast
      show ?thesis
      proof (cases "lock_sharedData l'")
        case None
        then show ?thesis using snd by (simp add: lock_sound_def)
      next
        case (Some a')
        then have "a' \<noteq> a" using False that by auto
        then show ?thesis using snd Some byId [of "lock_instanceId l'" a']
          by (auto simp: lock_sound_def heap split: option.splits)
      qed
    qed
    moreover have "heap_owned (A - set_option (lock_sharedData l)) ?t"
      by (rule heap_owned_diff [of A s])
        (use inv Some in \<open>auto simp: li_but_def heap at split: if_splits\<close>)
    moreover have "ids_ok ?t"
      by (rule ids_ok_sub [of s])
        (use inv False Some mo d in \<open>auto simp: li_but_def destroy_lock_def refers_lock_at Let_def OnShared_byId
           split: if_splits\<close>)
    ultimately show ?thesis using inv by (auto simp: li_but_def at maps_ok_def)
  qed
qed

lemma destroy_lock_inv:
  "\<lbrakk>li_but A kb s; A \<subseteq> set_option (lock_sharedData l)\<rbrakk> \<Longrightarrow> li_inv kb (destroy_lock l s)"
  using destroy_lock_but [of A kb s l] by (metis Diff_eq_empty_iff)

lemma destroy_old_inv:
  assumes "li_but A kb s" and "A \<subseteq> {a. \<exists>l. old = Some l \<and> lock_sharedData l = Some a}"
  shows "li_inv kb (destroy_old old s)"
proof (cases old)
  case None
  then have "A = {}" using assms(2) by auto
  then show ?thesis using None assms(1) by (simp add: destroy_old_def)
next
  case (Some l)
  then show ?thesis using assms destroy_lock_inv [of A kb s l] by (auto simp: destroy_old_def)
qed

text \<open>Writing a lock into one of the two storages.\<close>

definition stored :: "bool \<Rightarrow> lock_mgr \<Rightarrow> lock_map" where
  "stored p s = (if p then permanentLocks s else temporaryLocks s)"

definition put_at :: "bool \<Rightarrow> player \<Rightarrow> lock_key \<Rightarrow> instance_lock \<Rightarrow> lock_mgr \<Rightarrow> lock_mgr" where
  "put_at p g k l s =
     (if p then s\<lparr>permanentLocks := put_lock g k l (permanentLocks s)\<rparr>
      else s\<lparr>temporaryLocks := put_lock g k l (temporaryLocks s)\<rparr>)"

lemma put_at_fields [simp]:
  "instanceLockDataById (put_at p g k l s) = instanceLockDataById s"
  "shared_heap (put_at p g k l s) = shared_heap s"
  "next_addr (put_at p g k l s) = next_addr s"
  by (simp_all add: put_at_def)

lemma lock_sound_cong:
  "\<lbrakk>instanceLockDataById t = instanceLockDataById s; shared_heap t = shared_heap s\<rbrakk>
     \<Longrightarrow> lock_sound kb t k l = lock_sound kb s k l"
  by (simp add: lock_sound_def split: option.splits)

lemma lock_at_put:
  "lock_at (put_at p g k l s) g' k' l' \<longleftrightarrow>
     (if g' = g \<and> k' = k
      then l' = l \<or> FindInstanceLock (stored (\<not> p) s) g k = Some l'
      else lock_at s g' k' l')"
  by (auto simp: lock_at_def put_at_def stored_def)

lemma put_at_inv:
  assumes inv: "li_but A kb s" and l: "lock_sound kb s k l" "p \<or> lock_isNew l"
  shows "li_but (A - {a. lock_sharedData l = Some a}
            \<union> {a. \<exists>l. FindInstanceLock (stored p s) g k = Some l \<and> lock_sharedData l = Some a}) kb
          (put_at p g k l s)"
    (is "li_but ?B kb ?t")
proof -
  have "maps_ok ?t" using inv by (simp add: li_but_def maps_ok_def put_at_def lm_ok_put)
  moreover have "lock_sound kb ?t k' l'" if "lock_at ?t g' k' l'" for g' k' l'
  proof -
    have "lock_sound kb s k' l'"
      using inv l(1) that unfolding li_but_def lock_at_put
      by (metis (full_types) lock_at_def stored_def)
    then show ?thesis by (subst lock_sound_cong [of _ s]) simp_all
  qed
  moreover have "heap_owned ?B ?t"
    unfolding heap_owned_def
  proof (intro allI impI)
    fix a d
    assume "shared_heap ?t a = Some d"
    then have a: "a < next_addr s" "a \<in> A \<or> (\<exists>g k l. lock_at s g k l \<and> lock_sharedData l = Some a)"
      using inv unfolding li_but_def heap_owned_def by auto
    have "a \<in> ?B \<or> (\<exists>g k l. lock_at ?t g k l \<and> lock_sharedData l = Some a)"
      using a(2)
    proof
      assume "a \<in> A"
      then show ?thesis using lock_at_put [of p g k l s g k l] by auto
    next
      assume "\<exists>g k l. lock_at s g k l \<and> lock_sharedData l = Some a"
      then obtain g' k' l' where at: "lock_at s g' k' l'" "lock_sharedData l' = Some a" by blast
      have "lock_at ?t g' k' l' \<or> g' = g \<and> k' = k \<and> FindInstanceLock (stored p s) g k = Some l'"
        unfolding lock_at_put using at(1)
        by (cases "g' = g \<and> k' = k"; cases p) (auto simp: lock_at_def stored_def)
      then show ?thesis using at(2) by auto
    qed
    then show "a < next_addr ?t \<and> (a \<in> ?B \<or> (\<exists>g k l. lock_at ?t g k l \<and> lock_sharedData l = Some a))"
      using a(1) by simp
  qed
  moreover have "lock_isNew l'" if "FindInstanceLock (temporaryLocks ?t) g' k' = Some l'" for g' k' l'
    using inv l(2) that unfolding li_but_def put_at_def by (auto split: if_splits)
  moreover have "ids_ok ?t" by (rule ids_ok_sub [of s]) (use inv in \<open>simp_all add: li_but_def\<close>)
  ultimately show ?thesis unfolding li_but_def by blast
qed

lemma put_at_same_inv:
  assumes inv: "li_inv kb s" and l: "lock_sound kb s k l" "p \<or> lock_isNew l"
    and old: "FindInstanceLock (stored p s) g k = Some l0" "lock_sharedData l0 = lock_sharedData l"
  shows "li_inv kb (put_at p g k l s)"
proof -
  have "li_but {a. \<exists>l. FindInstanceLock (stored p s) g k = Some l \<and> lock_sharedData l = Some a} kb (put_at p g k l s)"
    using put_at_inv [OF inv l, of g] by simp
  moreover from this have "heap_owned {} (put_at p g k l s)"
  proof (intro heap_owned_shrink [of "{a. \<exists>l. FindInstanceLock (stored p s) g k = Some l \<and> lock_sharedData l = Some a}"
        "put_at p g k l s"])
    fix a
    assume "a \<in> {a. \<exists>l. FindInstanceLock (stored p s) g k = Some l \<and> lock_sharedData l = Some a}"
    then have "lock_at (put_at p g k l s) g k l \<and> lock_sharedData l = Some a"
      using old by (simp add: lock_at_put)
    then show "shared_heap (put_at p g k l s) a = None
        \<or> (\<exists>g' k' l'. lock_at (put_at p g k l s) g' k' l' \<and> lock_sharedData l' = Some a)" by blast
  qed (simp_all add: li_but_def)
  ultimately show ?thesis by (simp add: li_but_def)
qed

lemma reset_permanent_inv:
  assumes "li_but A kb s" "lock_sound kb s k l" "A \<subseteq> {a. lock_sharedData l = Some a}"
  shows "li_inv kb (reset_permanent g k l s)"
  using destroy_old_inv [OF put_at_inv [of A kb s k l True g], of "FindInstanceLock (permanentLocks s) g k"] assms
  by (auto simp: reset_permanent_def put_at_def stored_def)

lemma reset_temporary_inv:
  assumes "li_but A kb s" "lock_sound kb s k l" "A \<subseteq> {a. lock_sharedData l = Some a}" "lock_isNew l"
  shows "li_inv kb (reset_temporary g k l s)"
  using destroy_old_inv [OF put_at_inv [of A kb s k l False g], of "FindInstanceLock (temporaryLocks s) g k"] assms
  by (auto simp: reset_temporary_def put_at_def stored_def)

section \<open>Every operation keeps the invariant\<close>

lemma lock_at_soundD: "\<lbrakk>li_but A kb s; lock_at s g k l\<rbrakk> \<Longrightarrow> lock_sound kb s k l"
  by (auto simp: li_but_def)

text \<open>An id is fresh when no lock with shared state carries it.\<close>

definition fresh_id :: "u32 \<Rightarrow> lock_mgr \<Rightarrow> bool" where
  "fresh_id i s \<longleftrightarrow> (\<forall>g k l. lock_at s g k l \<longrightarrow> lock_sharedData l \<noteq> None \<longrightarrow> lock_instanceId l \<noteq> i)"

lemma share_new_id:
  assumes inv: "li_inv kb s" and fresh: "fresh_id i s"
    and t: "t = s\<lparr>shared_heap := (shared_heap s)(next_addr s \<mapsto> d), next_addr := next_addr s + 1,
                 instanceLockDataById := AList.update i (next_addr s) (instanceLockDataById s)\<rparr>"
  shows "li_but {next_addr s} kb t"
proof -
  have at: "lock_at t = lock_at s" by (intro ext) (simp add: t lock_at_def)
  have "lock_sound kb t k l" if l: "lock_at s g k l" for g k l
  proof (cases "lock_sharedData l")
    case None
    then show ?thesis using lock_at_soundD [OF inv l] by (simp add: lock_sound_def)
  next
    case (Some a)
    then have "lock_instanceId l \<noteq> i" using fresh l by (auto simp: fresh_id_def)
    moreover obtain d' where d': "shared_heap s a = Some d'"
      using lock_at_soundD [OF inv l] Some by (auto simp: lock_sound_def split: option.splits)
    moreover have "a < next_addr s" using inv d' by (auto simp: li_but_def heap_owned_def)
    ultimately show ?thesis
      using lock_at_soundD [OF inv l] Some by (simp add: lock_sound_def t AList.update_conv')
  qed
  moreover have "heap_owned {next_addr s} t"
    using inv by (auto simp: li_but_def heap_owned_def at less_Suc_eq) (auto simp: t split: if_splits)
  moreover have "ids_ok t"
  proof -
    have s0: "a < next_addr s \<and> (map_of (instanceLockDataById s) k = Some a \<longrightarrow> j = k)"
      if "map_of (instanceLockDataById s) j = Some a" for j k a
      using inv that unfolding li_but_def ids_ok_def by blast
    show ?thesis
      unfolding ids_ok_def t by (auto simp: AList.update_conv' less_Suc_eq) (use s0 in blast)+
  qed
  ultimately show ?thesis using inv by (simp add: li_but_def at maps_ok_def) (simp add: t)
qed

lemma CreateInstanceLock_inv:
  assumes inv: "li_inv kb s" and e: "IsInstanceIdBound e = kb (GetKey e)"
    and fresh: "IsInstanceIdBound e \<Longrightarrow> fresh_id i s"
  shows "li_inv kb (snd (CreateInstanceLockForNewInstance env g e i s))"
proof (cases "HasResetSchedule e")
  case True
  show ?thesis
  proof (cases "IsInstanceIdBound e")
    case b: True
    let ?t = "s\<lparr>shared_heap := (shared_heap s)(next_addr s \<mapsto> SharedInstanceLockData),
                next_addr := next_addr s + 1,
                instanceLockDataById := AList.update i (next_addr s) (instanceLockDataById s)\<rparr>"
    have "li_but {next_addr s} kb ?t"
      using share_new_id [OF inv fresh [OF b]] by simp
    then have "li_inv kb (reset_temporary g (GetKey e)
        ((InstanceLock (MapID e) (DifficultyID e) (GetNextResetTime env e) i (Some (next_addr s)))\<lparr>lock_isNew := True\<rparr>) ?t)"
      by (rule reset_temporary_inv)
        (use b e in \<open>auto simp: lock_sound_def InstanceLock_def GetKey_def AList.update_conv' SharedInstanceLockData_def\<close>)
    then show ?thesis
      using True b by (simp add: CreateInstanceLockForNewInstance_def make_shared_def Let_def)
  next
    case nb: False
    then have "li_inv kb (reset_temporary g (GetKey e)
        ((InstanceLock (MapID e) (DifficultyID e) (GetNextResetTime env e) i None)\<lparr>lock_isNew := True\<rparr>) s)"
      by (intro reset_temporary_inv [of "{}"])
        (use inv nb e in \<open>auto simp: lock_sound_def InstanceLock_def GetKey_def\<close>)
    then show ?thesis
      using True nb by (simp add: CreateInstanceLockForNewInstance_def Let_def)
  qed
qed (use inv in \<open>simp add: CreateInstanceLockForNewInstance_def\<close>)

lemma promote_inv:
  assumes inv: "li_inv kb s" and l: "FindInstanceLock (temporaryLocks s) g k = Some l"
  shows "\<exists>t. promote_temporary g k s = (Some l, t) \<and> li_inv kb t
    \<and> FindInstanceLock (permanentLocks t) g k = Some l \<and> FindInstanceLock (temporaryLocks t) g k = None
    \<and> (\<forall>g' k'. (g', k') \<noteq> (g, k) \<longrightarrow>
        FindInstanceLock (permanentLocks t) g' k' = FindInstanceLock (permanentLocks s) g' k'
        \<and> FindInstanceLock (temporaryLocks t) g' k' = FindInstanceLock (temporaryLocks s) g' k')"
proof -
  let ?old = "FindInstanceLock (permanentLocks s) g k"
  let ?u = "destroy_old ?old (s\<lparr>permanentLocks := put_lock g k l (permanentLocks s)\<rparr>)"
  let ?t = "?u\<lparr>temporaryLocks := erase_lock g k (temporaryLocks ?u)\<rparr>"
  have at: "lock_at s g k l" using l by (simp add: lock_at_def)
  have u: "li_inv kb ?u"
    using reset_permanent_inv [OF inv lock_at_soundD [OF inv at], of g] by (simp add: reset_permanent_def)
  have fields: "permanentLocks ?u = put_lock g k l (permanentLocks s)" "temporaryLocks ?u = temporaryLocks s"
    by (simp_all add: destroy_old_def split: option.splits)
  have p: "FindInstanceLock (permanentLocks ?t) g k = Some l" by (simp add: fields)
  have same: "lock_at ?t = lock_at ?u"
    using p l by (intro ext) (auto simp: lock_at_def fields)
  have "li_inv kb ?t"
    unfolding li_but_def
  proof (intro conjI allI impI)
    show "maps_ok ?t" using u by (simp add: li_but_def maps_ok_def lm_ok_erase)
    show "ids_ok ?t" by (rule ids_ok_sub [of ?u]) (use u in \<open>simp_all add: li_but_def\<close>)
    show "heap_owned {} ?t"
      by (rule heap_owned_shrink [of "{}" ?u]) (use u in \<open>simp_all add: li_but_def same\<close>)
    fix g' k' l'
    show "lock_at ?t g' k' l' \<Longrightarrow> lock_sound kb ?t k' l'"
      using lock_at_soundD [OF u] by (subst lock_sound_cong [of _ ?u]) (simp_all add: same)
    show "FindInstanceLock (temporaryLocks ?t) g' k' = Some l' \<Longrightarrow> lock_isNew l'"
      using u by (auto simp: li_but_def split: if_splits)
  qed
  then show ?thesis using l p by (auto simp: promote_temporary_def Let_def fields)
qed

text \<open>The update of a player finds its lock when the lock the player already holds, if any, is for the
  instance, or, if there is none, when the instance has a registered shared state with its id.\<close>

definition update_allowed :: "lock_env \<Rightarrow> player \<Rightarrow> map_db2 \<Rightarrow> u32 \<Rightarrow> lock_mgr \<Rightarrow> bool" where
  "update_allowed env g e i s \<longleftrightarrow>
     (IsInstanceIdBound e \<longrightarrow>
       (case FindActiveInstanceLock env s g (GetKey e) False True of
          Some l \<Rightarrow> lock_instanceId l = i
        | None \<Rightarrow> (case map_of (instanceLockDataById s) i of
            None \<Rightarrow> False
          | Some a \<Rightarrow> (case shared_heap s a of None \<Rightarrow> False | Some d \<Rightarrow> SharedInstanceId d = i))))"

definition held_lock :: "lock_env \<Rightarrow> player \<Rightarrow> map_db2 \<Rightarrow> u32 \<Rightarrow> lock_mgr \<Rightarrow> instance_lock \<Rightarrow> bool" where
  "held_lock env g e i s l \<longleftrightarrow>
     (case FindActiveInstanceLock env s g (GetKey e) False True of
        Some l0 \<Rightarrow> l = l0\<lparr>lock_instanceId := i\<rparr>
      | None \<Rightarrow> \<exists>sh. l = InstanceLock (MapID e) (DifficultyID e) (GetNextResetTime env e) i sh)"

definition others_same :: "player \<Rightarrow> lock_key \<Rightarrow> lock_mgr \<Rightarrow> lock_mgr \<Rightarrow> bool" where
  "others_same g k s t \<longleftrightarrow> (\<forall>g' k'. (g', k') \<noteq> (g, k) \<longrightarrow>
        FindInstanceLock (permanentLocks t) g' k' = FindInstanceLock (permanentLocks s) g' k'
        \<and> FindInstanceLock (temporaryLocks t) g' k' = FindInstanceLock (temporaryLocks s) g' k')"

lemma existing_lock_ok_iff:
  assumes "lock_sound kb s (GetKey e) l" "IsInstanceIdBound e = kb (GetKey e)"
  shows "existing_lock_ok e i l s \<longleftrightarrow> (IsInstanceIdBound e \<longrightarrow> lock_instanceId l = i)"
  using assms by (auto simp: existing_lock_ok_def lock_sound_def split: option.splits)

lemma lock_sound_set_id:
  assumes "lock_sound kb s k l" "kb k \<Longrightarrow> lock_instanceId l = i"
  shows "lock_sound kb s k (l\<lparr>lock_instanceId := i\<rparr>)"
  using assms by (auto simp: lock_sound_def split: option.splits)

lemma InstanceLock_set_id [simp]:
  "(InstanceLock m d x i sh)\<lparr>lock_instanceId := i\<rparr> = InstanceLock m d x i sh"
  by (simp add: InstanceLock_def)

definition update_ready :: "(lock_key \<Rightarrow> bool) \<Rightarrow> lock_env \<Rightarrow> player \<Rightarrow> map_db2 \<Rightarrow> u32 \<Rightarrow> lock_mgr
    \<Rightarrow> instance_lock \<Rightarrow> lock_mgr \<Rightarrow> bool" where
  "update_ready kb env g e i s l t \<longleftrightarrow>
     update_allowed env g e i s \<and> li_inv kb t \<and> held_lock env g e i s l
     \<and> (\<exists>l0. FindInstanceLock (permanentLocks t) g (GetKey e) = Some l0 \<and> lock_sharedData l0 = lock_sharedData l)
     \<and> lock_sound kb t (GetKey e) l \<and> others_same g (GetKey e) s t"

lemma lock_to_update_existing:
  assumes inv: "li_inv kb t" and e: "IsInstanceIdBound e = kb (GetKey e)"
    and p: "FindInstanceLock (permanentLocks t) g (GetKey e) = Some l0"
    and cur: "FindActiveInstanceLock env s g (GetKey e) False True = Some l0"
    and same: "others_same g (GetKey e) s t"
  shows "if existing_lock_ok e i l0 t
         then update_ready kb env g e i s (l0\<lparr>lock_instanceId := i\<rparr>) t
         else \<not> update_allowed env g e i s"
proof -
  have "lock_sound kb t (GetKey e) l0" by (rule lock_at_soundD [OF inv, of g]) (simp add: lock_at_def p)
  then show ?thesis
    using assms existing_lock_ok_iff [of kb t e l0 i] lock_sound_set_id [of kb t "GetKey e" l0 i]
    by (auto simp: update_ready_def update_allowed_def held_lock_def)
qed

lemma lock_to_update_spec:
  assumes inv: "li_inv kb s" and e: "IsInstanceIdBound e = kb (GetKey e)"
  shows "case lock_to_update env g e i s of
      None \<Rightarrow> \<not> update_allowed env g e i s
    | Some (l, t) \<Rightarrow> update_ready kb env g e i s l t"
proof (cases "FindActiveInstanceLock env s g (GetKey e) True True")
  case (Some l0)
  then have p: "FindInstanceLock (permanentLocks s) g (GetKey e) = Some l0"
    "FindActiveInstanceLock env s g (GetKey e) False True = Some l0"
    by (auto simp: FindActiveInstanceLock_def split: option.splits if_splits)
  then show ?thesis
    using lock_to_update_existing [OF inv e p, of i] Some
    by (simp add: lock_to_update_def others_same_def split: if_splits)
next
  case None
  note none = this
  show ?thesis
  proof (cases "FindInstanceLock (temporaryLocks s) g (GetKey e)")
    case (Some l0)
    then obtain t where t: "promote_temporary g (GetKey e) s = (Some l0, t)" "li_inv kb t"
      "FindInstanceLock (permanentLocks t) g (GetKey e) = Some l0" "others_same g (GetKey e) s t"
      using promote_inv [OF inv, of g "GetKey e" l0] unfolding others_same_def by blast
    moreover have "FindActiveInstanceLock env s g (GetKey e) False True = Some l0"
      using none Some by (auto simp: FindActiveInstanceLock_def split: option.splits if_splits)
    ultimately show ?thesis
      using lock_to_update_existing [of kb t e g l0 env s i] none e
      by (simp add: lock_to_update_def split: if_splits)
  next
    case no_temp: None
    then have cur: "FindActiveInstanceLock env s g (GetKey e) False True = None"
      using none by (auto simp: FindActiveInstanceLock_def split: option.splits if_splits)
    have lu: "lock_to_update env g e i s
        = map_option (\<lambda>l. (l, reset_permanent g (GetKey e) l s)) (new_player_lock env e i s)"
      using none no_temp by (simp add: lock_to_update_def promote_temporary_def)
    show ?thesis
    proof (cases "new_player_lock env e i s")
      case None
      then show ?thesis
        using cur lu by (auto simp: new_player_lock_def update_allowed_def bind_eq_None_conv split: if_splits option.splits)
    next
      case (Some l)
      have l: "lock_sound kb s (GetKey e) l" "held_lock env g e i s l" "update_allowed env g e i s"
        using Some e cur
        by (auto simp: new_player_lock_def lock_sound_def held_lock_def update_allowed_def bind_eq_Some_conv
            InstanceLock_def GetKey_def split: if_splits)
      have inv': "li_inv kb (reset_permanent g (GetKey e) l s)"
        using reset_permanent_inv [OF inv l(1)] by simp
      have p: "FindInstanceLock (permanentLocks (reset_permanent g (GetKey e) l s)) g (GetKey e) = Some l"
        "others_same g (GetKey e) s (reset_permanent g (GetKey e) l s)"
        by (auto simp: reset_permanent_def destroy_old_def others_same_def split: option.splits)
      moreover have "lock_sound kb (reset_permanent g (GetKey e) l s) (GetKey e) l"
        by (rule lock_at_soundD [OF inv', of g]) (simp add: lock_at_def p)
      ultimately show ?thesis using inv' l Some lu by (simp add: update_ready_def)
    qed
  qed
qed

lemma update_lock_fields [simp]:
  "lock_mapId (update_lock env e ev l) = lock_mapId l"
  "lock_instanceId (update_lock env e ev l) = lock_instanceId l"
  "lock_sharedData (update_lock env e ev l) = lock_sharedData l"
  "lock_isNew (update_lock env e ev l) = False"
  by (auto simp: update_lock_def Let_def split: option.splits)

lemma lock_sound_fields:
  "\<lbrakk>lock_sound kb s k l; lock_mapId l' = lock_mapId l; lock_instanceId l' = lock_instanceId l;
    lock_sharedData l' = lock_sharedData l\<rbrakk> \<Longrightarrow> lock_sound kb s k l'"
  by (cases "lock_sharedData l") (auto simp: lock_sound_def split: option.splits)

lemma UpdateInstanceLock_spec:
  assumes inv: "li_inv kb s" and e: "IsInstanceIdBound e = kb (GetKey e)"
  shows "case UpdateInstanceLockForPlayer env g e ev (tr, s) of
      None \<Rightarrow> \<not> update_allowed env g e (ev_InstanceId ev) s
    | Some (l', tr', t) \<Rightarrow>
        update_allowed env g e (ev_InstanceId ev) s \<and> li_inv kb t \<and> others_same g (GetKey e) s t
        \<and> FindInstanceLock (permanentLocks t) g (GetKey e) = Some l'
        \<and> tr' = tr @ save_lock g e l'
        \<and> (\<exists>l. held_lock env g e (ev_InstanceId ev) s l \<and> l' = update_lock env e ev l)"
proof (cases "lock_to_update env g e (ev_InstanceId ev) s")
  case None
  then show ?thesis
    using lock_to_update_spec [OF inv e, of env g "ev_InstanceId ev"]
    by (simp add: UpdateInstanceLockForPlayer_def)
next
  case (Some lt)
  obtain l t where lt: "lt = (l, t)" by (cases lt)
  have ready: "update_ready kb env g e (ev_InstanceId ev) s l t"
    using lock_to_update_spec [OF inv e, of env g "ev_InstanceId ev"] Some lt by simp
  then obtain l0 where p: "FindInstanceLock (permanentLocks t) g (GetKey e) = Some l0"
    "lock_sharedData l0 = lock_sharedData l" by (auto simp: update_ready_def)
  let ?l = "update_lock env e ev l"
  have "lock_sound kb t (GetKey e) ?l"
    using ready by (auto simp: update_ready_def intro: lock_sound_fields)
  then have "li_inv kb (write_permanent g (GetKey e) ?l t)"
    using put_at_same_inv [of kb t "GetKey e" ?l True g l0] ready p
    by (simp add: put_at_def write_permanent_def stored_def update_ready_def)
  then show ?thesis
    using ready Some lt
    by (auto simp: UpdateInstanceLockForPlayer_def write_permanent_def update_ready_def others_same_def Let_def)
qed

lemma UpdateSharedInstanceLock_inv:
  assumes inv: "li_inv kb s" and u: "UpdateSharedInstanceLock ev (tr, s) = Some (tr', t)"
  shows "li_inv kb t"
proof -
  obtain a d d' where a: "map_of (instanceLockDataById s) (ev_InstanceId ev) = Some a" "shared_heap s a = Some d"
    and t: "t = s\<lparr>shared_heap := (shared_heap s)(a \<mapsto> d')\<rparr>" "SharedInstanceId d' = ev_InstanceId ev"
    using u by (auto simp: UpdateSharedInstanceLock_def bind_eq_Some_conv Let_def split: if_splits option.splits)
  have at: "lock_at t = lock_at s" by (intro ext) (simp add: t lock_at_def)
  have own: "lock_instanceId l = ev_InstanceId ev" if "lock_at s g k l" "lock_sharedData l = Some a" for g k l
    using inv a(1) lock_at_soundD [OF inv that(1)] that(2)
    by (auto simp: li_but_def ids_ok_def lock_sound_def)
  have "lock_sound kb t k l" if l: "lock_at s g k l" for g k l
  proof (cases "lock_sharedData l = Some a")
    case True
    then show ?thesis using lock_at_soundD [OF inv l] own [OF l True] t
      by (simp add: lock_sound_def)
  next
    case False
    then show ?thesis using lock_at_soundD [OF inv l] t
      by (auto simp: lock_sound_def split: option.splits)
  qed
  moreover have "heap_owned {} t"
  proof (rule heap_owned_shrink [of "{}" s])
    show "\<exists>d. shared_heap s x = Some d" if "shared_heap t x = Some y" for x y
      using that a by (cases "x = a") (simp_all add: t)
    show "next_addr t = next_addr s" by (simp add: t)
  qed (use inv in \<open>simp_all add: li_but_def at\<close>)
  moreover have "ids_ok t" by (rule ids_ok_sub [of s]) (use inv in \<open>simp_all add: li_but_def t\<close>)
  moreover have "permanentLocks t = permanentLocks s" "temporaryLocks t = temporaryLocks s"
    by (simp_all add: t)
  ultimately show ?thesis using inv unfolding li_but_def maps_ok_def at by simp
qed

lemma li_but_executed [simp]: "li_but A kb (s\<lparr>executed := x\<rparr>) = li_but A kb s"
proof -
  have "lock_sound kb (s\<lparr>executed := x\<rparr>) = lock_sound kb s" by (intro ext lock_sound_cong) simp_all
  then show ?thesis by (simp add: li_but_def maps_ok_def lock_at_def heap_owned_def ids_ok_def)
qed

lemma write_permanent_inv:
  assumes inv: "li_inv kb s" and l: "FindInstanceLock (permanentLocks s) g k = Some l"
    and l': "lock_mapId l' = lock_mapId l" "lock_instanceId l' = lock_instanceId l"
      "lock_sharedData l' = lock_sharedData l"
  shows "li_inv kb (write_permanent g k l' s)"
proof -
  have "lock_sound kb s k l" by (rule lock_at_soundD [OF inv, of g]) (simp add: lock_at_def l)
  then have "lock_sound kb s k l'" using l' by (rule lock_sound_fields)
  then show ?thesis
    using put_at_same_inv [OF inv, of k l' True g l] l l' by (simp add: put_at_def write_permanent_def stored_def)
qed

lemma UpdateExtension_inv:
  assumes inv: "li_inv kb s" and u: "UpdateInstanceLockExtensionForPlayer env g e x s = Some (r, t)"
  shows "li_inv kb t"
proof (cases "FindActiveInstanceLock env s g (GetKey e) True False")
  case None
  then show ?thesis using inv u by (simp add: UpdateInstanceLockExtensionForPlayer_def)
next
  case (Some l)
  then have "FindInstanceLock (permanentLocks s) g (GetKey e) = Some l"
    by (auto simp: FindActiveInstanceLock_def split: option.splits if_splits)
  then have "li_inv kb (write_permanent g (GetKey e) (l\<lparr>lock_extended := x\<rparr>) s)"
    by (rule write_permanent_inv [OF inv]) simp_all
  then show ?thesis
    using u Some by (auto simp: UpdateInstanceLockExtensionForPlayer_def bind_eq_Some_conv Let_def)
qed

lemma force_expire_inv:
  "\<lbrakk>li_inv kb s; force_expire env g ks s = Some (tr, t)\<rbrakk> \<Longrightarrow> li_inv kb t"
proof (induction ks arbitrary: s tr)
  case (Cons k ks)
  then obtain l e tr' where l: "FindInstanceLock (permanentLocks s) g k = Some l" and
    rec: "force_expire env g ks (write_permanent g k (l\<lparr>lock_expiryTime :=
        GetNextResetTime env e - Seconds (GetRaidDuration e), lock_extended := False\<rparr>) s) = Some (tr', t)"
    by (auto simp: bind_eq_Some_conv Let_def)
  show ?case
    by (rule Cons.IH [OF write_permanent_inv [OF Cons.prems(1) l] rec]) simp_all
qed simp

lemma ResetInstanceLocks_inv:
  assumes inv: "li_inv kb s" and r: "ResetInstanceLocksForPlayer env g m d s = Some (a, b, t)"
  shows "li_inv kb t"
proof (cases "map_of (permanentLocks s) g")
  case None
  then show ?thesis using assms by (simp add: ResetInstanceLocksForPlayer_def)
next
  case (Some pl)
  obtain tr u where "force_expire env g a s = Some (tr, u)" "t = u\<lparr>executed := executed u @ tr\<rparr>"
    using r Some by (cases "locks_to_reset env m d pl") (auto simp: ResetInstanceLocksForPlayer_def)
  then show ?thesis using force_expire_inv [OF inv] by simp
qed


section \<open>Start of the server\<close>

text \<open>While the locks are loaded, the table of the loading routine owns every shared state.\<close>

definition load_inv :: "(u32 \<times> addr) list \<Rightarrow> lock_mgr \<Rightarrow> bool" where
  "load_inv byId s \<longleftrightarrow>
     distinct (map fst byId)
     \<and> (\<forall>i a. map_of byId i = Some a \<longrightarrow>
          (\<exists>d. shared_heap s a = Some d \<and> SharedInstanceId d = i) \<and> a < next_addr s
          \<and> (\<forall>j. map_of byId j = Some a \<longrightarrow> i = j))
     \<and> (\<forall>i a. map_of (instanceLockDataById s) i = Some a \<longrightarrow> map_of byId i = Some a)"

definition load_owned :: "(u32 \<times> addr) list \<Rightarrow> addr set" where
  "load_owned byId = {a. \<exists>i. map_of byId i = Some a}"

lemma load_instances_spec:
  assumes "load_inv byId s" "li_but (load_owned byId) kb s" "distinct (map ir_instanceId rs)"
    "ir_instanceId ` set rs \<inter> fst ` set byId = {}"
  shows "\<exists>byId' t. load_instances rs byId s = (byId', t) \<and> load_inv byId' t \<and> li_but (load_owned byId') kb t
    \<and> permanentLocks t = permanentLocks s \<and> temporaryLocks t = temporaryLocks s"
  using assms
proof (induction rs arbitrary: byId s)
  case Nil
  then show ?case by simp
next
  case (Cons r rs)
  let ?d = "\<lparr>Data = ir_data r, CompletedEncountersMask = ir_completedEncountersMask r,
               EntranceWorldSafeLocId = 0, SharedInstanceId = ir_instanceId r\<rparr>"
  let ?a = "next_addr s" and ?byId = "AList.update (ir_instanceId r) (next_addr s) byId"
  let ?t = "s\<lparr>shared_heap := (shared_heap s)(?a \<mapsto> ?d), next_addr := Suc ?a\<rparr>"
  have new: "map_of byId (ir_instanceId r) = None"
    using Cons.prems(4) by (auto simp: map_of_eq_None_iff)
  have fresh: "a \<noteq> ?a" if "shared_heap s a = Some d" for a d
    using Cons.prems(2) that by (auto simp: li_but_def heap_owned_def)
  have at: "lock_at ?t = lock_at s" by (intro ext) (simp add: lock_at_def)
  have tab: "map_of byId i = Some a" if "map_of (instanceLockDataById s) i = Some a" for i a
    using Cons.prems(1) that by (simp add: load_inv_def)
  have old: "\<exists>d. shared_heap s a = Some d \<and> SharedInstanceId d = i" "a < next_addr s"
    "map_of byId j = Some a \<Longrightarrow> i = j" if "map_of byId i = Some a" for i j a
    using Cons.prems(1) that unfolding load_inv_def by blast+
  have noa: "map_of byId i \<noteq> Some ?a" for i using old(2) [of i ?a] by auto
  have upd: "map_of ?byId i = (if i = ir_instanceId r then Some ?a else map_of byId i)" for i
    by (simp add: AList.update_conv')
  have "load_inv ?byId ?t"
    unfolding load_inv_def
  proof (intro conjI allI impI)
    show "distinct (map fst ?byId)"
      using Cons.prems(1) by (simp add: load_inv_def AList.distinct_update)
    fix i a
    show "map_of ?byId i = Some a" if "map_of (instanceLockDataById ?t) i = Some a"
      using tab [of i a] that new by (auto simp: upd)
    assume i: "map_of ?byId i = Some a"
    show "\<exists>d. shared_heap ?t a = Some d \<and> SharedInstanceId d = i"
      using i old(1,2) by (auto simp: upd split: if_splits)
    show "a < next_addr ?t" using i old(2) [of i a] by (auto simp: upd split: if_splits)
    fix j
    assume "map_of ?byId j = Some a"
    then show "i = j" using i noa old(3) [of i a j] by (auto simp: upd split: if_splits)
  qed
  moreover have "li_but (load_owned ?byId) kb ?t"
    unfolding li_but_def
  proof (intro conjI allI impI)
    show "maps_ok ?t" using Cons.prems(2) by (simp add: li_but_def maps_ok_def)
    have "ids_ok s" using Cons.prems(2) by (simp add: li_but_def)
    then show "ids_ok ?t" unfolding ids_ok_def by (auto simp: less_Suc_eq)
    have sub: "load_owned byId \<subseteq> load_owned ?byId"
      unfolding load_owned_def using new by (auto simp: upd) (metis option.distinct(1))
    have "?a \<in> load_owned ?byId" by (auto simp: load_owned_def upd)
    note sub = sub this
    have "heap_owned (load_owned byId) s" using Cons.prems(2) by (simp add: li_but_def)
    then show "heap_owned (load_owned ?byId) ?t"
      using sub unfolding heap_owned_def at by (auto simp: less_Suc_eq split: if_splits)
    fix g k l
    show "lock_sound kb ?t k l" if "lock_at ?t g k l"
      using lock_at_soundD [OF Cons.prems(2), of g k l] that fresh
      by (cases "lock_sharedData l") (auto simp: at lock_sound_def split: option.splits)
    show "lock_isNew l" if "FindInstanceLock (temporaryLocks ?t) g k = Some l"
      using Cons.prems(2) that by (simp add: li_but_def)
  qed
  ultimately obtain byId' t where "load_instances rs ?byId ?t = (byId', t)" "load_inv byId' t"
    "li_but (load_owned byId') kb t" "permanentLocks t = permanentLocks s" "temporaryLocks t = temporaryLocks s"
    using Cons.IH [of ?byId ?t] Cons.prems(3,4) by (auto simp: AList.dom_update)
  then show ?case by (auto simp: make_shared_def)
qed

lemma li_but_mono: "\<lbrakk>li_but A kb s; A \<subseteq> B\<rbrakk> \<Longrightarrow> li_but B kb s"
  by (fastforce simp: li_but_def heap_owned_def)

lemma put_permanent_fields:
  "put_at True g k l s = s\<lparr>permanentLocks := put_lock g k l (permanentLocks s)\<rparr>"
  by (simp add: put_at_def)

lemma register_loaded_id:
  assumes li: "li_but A kb s" and ld: "load_inv byId s" and a: "map_of byId i = Some a"
  shows "li_but A kb (s\<lparr>instanceLockDataById := AList.update i a (instanceLockDataById s)\<rparr>)"
    and "load_inv byId (s\<lparr>instanceLockDataById := AList.update i a (instanceLockDataById s)\<rparr>)"
proof -
  let ?t = "s\<lparr>instanceLockDataById := AList.update i a (instanceLockDataById s)\<rparr>"
  have sub: "map_of byId j = Some b" if "map_of (instanceLockDataById s) j = Some b" for j b
    using ld that unfolding load_inv_def by blast
  have old: "b < next_addr s" "map_of byId j' = Some b \<Longrightarrow> j = j'" if "map_of byId j = Some b" for j j' b
    using ld that unfolding load_inv_def by blast+
  have subt: "map_of byId j = Some b" if "map_of (instanceLockDataById ?t) j = Some b" for j b
    using that sub a by (auto simp: AList.update_conv' split: if_splits)
  show "load_inv byId ?t" using ld subt by (simp add: load_inv_def)
  have at: "lock_at ?t = lock_at s" by (intro ext) (simp add: lock_at_def)
  have "lock_sound kb ?t k l" if "lock_at s g k l" for g k l
  proof (cases "lock_sharedData l")
    case None
    then show ?thesis using lock_at_soundD [OF li that] by (simp add: lock_sound_def)
  next
    case (Some b)
    then have "map_of byId (lock_instanceId l) = Some b"
      using lock_at_soundD [OF li that] sub by (simp add: lock_sound_def)
    then show ?thesis using lock_at_soundD [OF li that] Some a
      by (auto simp: lock_sound_def AList.update_conv' split: option.splits)
  qed
  moreover have "ids_ok ?t"
    unfolding ids_ok_def
  proof (intro allI impI conjI)
    fix j j' b
    assume "map_of (instanceLockDataById ?t) j = Some b"
    then have j: "map_of byId j = Some b" by (rule subt)
    then show "b < next_addr ?t" using old(1) by simp
    show "j = j'" if "map_of (instanceLockDataById ?t) j' = Some b" using old(2) [OF j subt [OF that]] .
  qed
  moreover have "heap_owned A ?t" using li by (simp add: li_but_def heap_owned_def at)
  ultimately show "li_but A kb ?t" using li unfolding li_but_def at maps_ok_def by simp
qed

lemma load_put:
  assumes li: "li_but (load_owned byId) kb s" and ld: "load_inv byId s"
    and l: "lock_sound kb s k l" and new: "FindInstanceLock (permanentLocks s) g k = None"
  shows "li_but (load_owned byId) kb (reset_permanent g k l s) \<and> load_inv byId (reset_permanent g k l s)
    \<and> (\<forall>g' k'. (g', k') \<noteq> (g, k) \<longrightarrow>
        FindInstanceLock (permanentLocks (reset_permanent g k l s)) g' k' = FindInstanceLock (permanentLocks s) g' k')"
proof -
  have r: "reset_permanent g k l s = put_at True g k l s"
    using new by (simp add: reset_permanent_def destroy_old_def put_permanent_fields)
  have "li_but (load_owned byId) kb (put_at True g k l s)"
    by (rule li_but_mono [OF put_at_inv [OF li l]]) (auto simp: stored_def new)
  then show ?thesis using ld unfolding r by (auto simp: load_inv_def put_permanent_fields)
qed

text \<open>What the tables must satisfy for \<^verbatim>\<open>Load\<close>: the keys of both database tables are unique, and the map
  tables classify the key of a row as its entries do.\<close>

definition rows_ok :: "(lock_key \<Rightarrow> bool) \<Rightarrow> lock_env \<Rightarrow> character_row list \<Rightarrow> bool" where
  "rows_ok kb env crs \<longleftrightarrow>
     distinct (map (\<lambda>r. (cr_guid r, cr_mapId r, cr_lockId r)) crs)
     \<and> (\<forall>r \<in> set crs. \<forall>e. env_db2 env (cr_mapId r) (cr_difficulty r) = Some e \<longrightarrow>
          kb (cr_mapId r, cr_lockId r) = IsInstanceIdBound e)"

lemma load_lock_inv:
  assumes li: "li_but (load_owned byId) kb s" and ld: "load_inv byId s"
    and new: "FindInstanceLock (permanentLocks s) (cr_guid r) (cr_mapId r, cr_lockId r) = None"
    and kb: "\<And>e. env_db2 env (cr_mapId r) (cr_difficulty r) = Some e \<Longrightarrow>
          kb (cr_mapId r, cr_lockId r) = IsInstanceIdBound e"
    and r: "load_lock env byId r (ids, s) = Some (ids', t)"
  shows "li_but (load_owned byId) kb t \<and> load_inv byId t
    \<and> (\<forall>g' k'. (g', k') \<noteq> (cr_guid r, cr_mapId r, cr_lockId r) \<longrightarrow>
        FindInstanceLock (permanentLocks t) g' k' = FindInstanceLock (permanentLocks s) g' k')"
proof -
  obtain e where e: "env_db2 env (cr_mapId r) (cr_difficulty r) = Some e"
    using r by (auto simp: load_lock_def bind_eq_Some_conv)
  note kbe = kb [OF e]
  let ?l = "\<lambda>sh. (InstanceLock (cr_mapId r) (cr_difficulty r) (from_time_t (cr_expiryTime r)) (cr_instanceId r) sh)
      \<lparr>lock_data := \<lparr>Data = cr_data r, CompletedEncountersMask = cr_completedEncountersMask r,
         EntranceWorldSafeLocId = 0\<rparr>, lock_extended := cr_extended r\<rparr>"
  have eq: "InstanceLock m d x i sh\<lparr>lock_data := lock_data (InstanceLock m d x i sh)
      \<lparr>Data := da, CompletedEncountersMask := ma\<rparr>, lock_extended := ex\<rparr>
      = InstanceLock m d x i sh\<lparr>lock_data := \<lparr>Data = da, CompletedEncountersMask = ma,
          EntranceWorldSafeLocId = 0\<rparr>, lock_extended := ex\<rparr>" for m d x i sh da ma ex
    by (simp add: InstanceLock_def)
  show ?thesis
  proof (cases "IsInstanceIdBound e")
    case b: True
    show ?thesis
    proof (cases "map_of byId (cr_instanceId r)")
      case None
      then have "t = s\<lparr>executed := executed s @ [DelCharacterLocksOf (cr_instanceId r)]\<rparr>"
        using r e b by (auto simp: load_lock_def bind_eq_Some_conv Let_def)
      then show ?thesis using li ld by (simp add: load_inv_def)
    next
      case (Some a)
      let ?u = "s\<lparr>instanceLockDataById := AList.update (cr_instanceId r) a (instanceLockDataById s)\<rparr>"
      note u = register_loaded_id [OF li ld Some]
      obtain d where d: "shared_heap s a = Some d" "SharedInstanceId d = cr_instanceId r"
        using ld Some unfolding load_inv_def by blast
      have "lock_sound kb ?u (cr_mapId r, cr_lockId r) (?l (Some a))"
        using b kbe d by (simp add: lock_sound_def InstanceLock_def AList.update_conv')
      moreover have "t = reset_permanent (cr_guid r) (cr_mapId r, cr_lockId r) (?l (Some a)) ?u"
        using r e b Some by (auto simp: load_lock_def bind_eq_Some_conv Let_def eq)
      ultimately show ?thesis using load_put [OF u] new by simp
    qed
  next
    case False
    then have "t = reset_permanent (cr_guid r) (cr_mapId r, cr_lockId r) (?l None) s"
      using r e by (auto simp: load_lock_def bind_eq_Some_conv Let_def eq)
    moreover have "lock_sound kb s (cr_mapId r, cr_lockId r) (?l None)"
      using False kbe by (simp add: lock_sound_def InstanceLock_def)
    ultimately show ?thesis using load_put [OF li ld _ new] by simp
  qed
qed

lemma load_locks_inv:
  assumes "load_locks env byId crs (ids, s) = Some (ids', t)" "rows_ok kb env crs"
    "li_but (load_owned byId) kb s" "load_inv byId s"
    "\<And>r. r \<in> set crs \<Longrightarrow> FindInstanceLock (permanentLocks s) (cr_guid r) (cr_mapId r, cr_lockId r) = None"
  shows "li_but (load_owned byId) kb t \<and> load_inv byId t"
  using assms
proof (induction crs arbitrary: ids s)
  case (Cons r crs)
  obtain ids1 s1 where s1: "load_lock env byId r (ids, s) = Some (ids1, s1)"
    "load_locks env byId crs (ids1, s1) = Some (ids', t)"
    using Cons.prems(1) by (auto simp: bind_eq_Some_conv)
  have kb: "kb (cr_mapId r, cr_lockId r) = IsInstanceIdBound e"
    if "env_db2 env (cr_mapId r) (cr_difficulty r) = Some e" for e
    using Cons.prems(2) that by (simp add: rows_ok_def)
  note one = load_lock_inv [OF Cons.prems(3,4,5) kb s1(1)]
  have rest: "rows_ok kb env crs" using Cons.prems(2) by (simp add: rows_ok_def)
  have "FindInstanceLock (permanentLocks s1) (cr_guid r') (cr_mapId r', cr_lockId r') = None"
    if r': "r' \<in> set crs" for r'
  proof -
    have "(cr_guid r', cr_mapId r', cr_lockId r') \<noteq> (cr_guid r, cr_mapId r, cr_lockId r)"
    proof
      assume "(cr_guid r', cr_mapId r', cr_lockId r') = (cr_guid r, cr_mapId r, cr_lockId r)"
      then have "(cr_guid r, cr_mapId r, cr_lockId r) \<in> (\<lambda>r. (cr_guid r, cr_mapId r, cr_lockId r)) ` set crs"
        using r' by (rule image_eqI [OF sym])
      then show False using Cons.prems(2) by (simp add: rows_ok_def)
    qed
    then show ?thesis using one Cons.prems(5) [of r'] r' by simp
  qed
  then show ?case using Cons.IH [OF s1(2) rest] one by simp
qed simp

lemma drop_unused_inv:
  "li_but (snd ` set xs) kb s \<Longrightarrow> li_inv kb (drop_unused xs s)"
proof (induction xs arbitrary: s)
  case (Cons x xs)
  obtain i a where x: "x = (i, a)" by (cases x)
  have "drop_unused (x # xs) s = drop_unused xs (destroy_lock (InstanceLock 0 0 0 0 (Some a)) s)"
    by (simp add: x destroy_lock_def InstanceLock_def)
  moreover have "li_but (snd ` set xs) kb (destroy_lock (InstanceLock 0 0 0 0 (Some a)) s)"
    by (rule li_but_mono [OF destroy_lock_but [OF Cons.prems]]) (auto simp: x InstanceLock_def)
  ultimately show ?case using Cons.IH by simp
qed simp

lemma li_inv_new: "li_inv kb InstanceLockMgr_new"
  by (simp add: li_but_def InstanceLockMgr_new_def maps_ok_def lm_ok_def lock_at_def FindInstanceLock_def
      player_locks_def heap_owned_def ids_ok_def)

lemma Load_inv:
  assumes load: "InstanceLockMgr_Load env irs crs (ids, InstanceLockMgr_new) = Some (ids', t)"
    and rows: "rows_ok kb env crs" "distinct (map ir_instanceId irs)"
  shows "li_inv kb t"
proof -
  have start: "load_inv [] InstanceLockMgr_new" "li_but (load_owned []) kb InstanceLockMgr_new"
    using li_inv_new [of kb] by (simp_all add: load_inv_def load_owned_def InstanceLockMgr_new_def)
  obtain byId s where s: "load_instances irs [] InstanceLockMgr_new = (byId, s)" "load_inv byId s"
    "li_but (load_owned byId) kb s" "permanentLocks s = []"
    using load_instances_spec [OF start rows(2)] by (auto simp: InstanceLockMgr_new_def)
  obtain u where u: "load_locks env byId crs (ids, s) = Some (ids', u)" "t = drop_unused byId u"
    using load s(1) by (cases "load_locks env byId crs (ids, s)") (auto simp: InstanceLockMgr_Load_def)
  have "li_but (load_owned byId) kb u"
    using load_locks_inv [OF u(1) rows(1) s(3,2)] s(4) by (simp add: FindInstanceLock_def player_locks_def)
  moreover have "load_owned byId \<subseteq> snd ` set byId"
    unfolding load_owned_def by (auto dest!: map_of_SomeD intro: rev_image_eqI)
  ultimately show ?thesis unfolding u(2) by (intro drop_unused_inv) (rule li_but_mono)
qed


section \<open>Reachable states\<close>

text \<open>The manager starts from the database; then come the operations, in any order.  A new instance gets
  a fresh id; an instance map marks its lock as used or not; and a lock that is not bound to an id may be
  moved to another instance (\<^verbatim>\<open>MapManager::CreateMap\<close>).\<close>

inductive lock_reachable :: "(lock_key \<Rightarrow> bool) \<Rightarrow> lock_mgr \<Rightarrow> bool" for kb where
  lr_load: "\<lbrakk>rows_ok kb env crs; distinct (map ir_instanceId irs);
     InstanceLockMgr_Load env irs crs (ids, InstanceLockMgr_new) = Some (ids', s)\<rbrakk> \<Longrightarrow> lock_reachable kb s"
| lr_create: "\<lbrakk>lock_reachable kb s; IsInstanceIdBound e = kb (GetKey e); IsInstanceIdBound e \<Longrightarrow> fresh_id i s\<rbrakk>
     \<Longrightarrow> lock_reachable kb (snd (CreateInstanceLockForNewInstance env g e i s))"
| lr_update: "\<lbrakk>lock_reachable kb s; IsInstanceIdBound e = kb (GetKey e);
     UpdateInstanceLockForPlayer env g e ev (tr, s) = Some (l, tr', t)\<rbrakk> \<Longrightarrow> lock_reachable kb t"
| lr_shared: "\<lbrakk>lock_reachable kb s; UpdateSharedInstanceLock ev (tr, s) = Some (tr', t)\<rbrakk> \<Longrightarrow> lock_reachable kb t"
| lr_extend: "\<lbrakk>lock_reachable kb s; UpdateInstanceLockExtensionForPlayer env g e x s = Some (r, t)\<rbrakk>
     \<Longrightarrow> lock_reachable kb t"
| lr_reset: "\<lbrakk>lock_reachable kb s; ResetInstanceLocksForPlayer env g m d s = Some (a, b, t)\<rbrakk>
     \<Longrightarrow> lock_reachable kb t"
| lr_in_use: "\<lbrakk>lock_reachable kb s; FindInstanceLock (stored p s) g k = Some l\<rbrakk>
     \<Longrightarrow> lock_reachable kb (put_at p g k (l\<lparr>lock_isInUse := b\<rparr>) s)"
| lr_move: "\<lbrakk>lock_reachable kb s; FindInstanceLock (stored p s) g k = Some l; \<not> kb k\<rbrakk>
     \<Longrightarrow> lock_reachable kb (put_at p g k (l\<lparr>lock_instanceId := i\<rparr>) s)"

lemma stored_lock:
  assumes "li_inv kb s" "FindInstanceLock (stored p s) g k = Some l"
  shows "lock_sound kb s k l" "p \<or> lock_isNew l"
  using assms lock_at_soundD [OF assms(1), of g k l]
  by (auto simp: stored_def lock_at_def li_but_def split: if_splits)

lemma lock_reachable_inv: "lock_reachable kb s \<Longrightarrow> li_inv kb s"
proof (induction rule: lock_reachable.induct)
  case (lr_load env crs irs ids ids' s)
  then show ?case by (blast intro: Load_inv)
next
  case (lr_create s e i env g)
  then show ?case by (blast intro: CreateInstanceLock_inv)
next
  case (lr_update s e env g ev tr l tr' t)
  then show ?case using UpdateInstanceLock_spec [of kb s e env g ev tr] by simp
next
  case (lr_shared s ev tr tr' t)
  then show ?case by (blast intro: UpdateSharedInstanceLock_inv)
next
  case (lr_extend s env g e x r t)
  then show ?case by (blast intro: UpdateExtension_inv)
next
  case (lr_reset s env g m d a b t)
  then show ?case by (blast intro: ResetInstanceLocks_inv)
next
  case (lr_in_use s p g k l b)
  note l = stored_lock [OF lr_in_use.IH lr_in_use.hyps(2)]
  have "lock_sound kb s k (l\<lparr>lock_isInUse := b\<rparr>)" by (rule lock_sound_fields [OF l(1)]) simp_all
  then show ?case using put_at_same_inv lr_in_use l(2) by simp
next
  case (lr_move s p g k l i)
  note l = stored_lock [OF lr_move.IH lr_move.hyps(2)]
  have "lock_sound kb s k (l\<lparr>lock_instanceId := i\<rparr>)"
    using lock_sound_set_id [OF l(1)] lr_move.hyps(3) by simp
  then show ?case using put_at_same_inv lr_move l(2) by simp
qed

text \<open>\<^verbatim>\<open>mktime\<close> reads its argument as local time and accepts a day of the month outside its range: in a zone
  without a change of the clock it is linear in day, hour, minute and second.  \<^verbatim>\<open>GetDateAndTime\<close> is the
  current time in that zone, in whole seconds.\<close>

definition clock_ok :: "lock_env \<Rightarrow> bool" where
  "clock_ok env \<longleftrightarrow>
     (\<forall>t. env_mktime env t = env_mktime env (t\<lparr>tm_mday := 0, tm_hour := 0, tm_min := 0, tm_sec := 0\<rparr>)
        + 86400 * tm_mday t + 3600 * tm_hour t + 60 * tm_min t + tm_sec t)
     \<and> env_mktime env (env_tm env) = env_now env div 1000000000
     \<and> tm_hour (env_tm env) \<in> {0 .. 23} \<and> tm_min (env_tm env) \<in> {0 .. 59}
     \<and> tm_sec (env_tm env) \<in> {0 .. 59} \<and> tm_wday (env_tm env) \<in> {0 .. 6}"


section \<open>An example\<close>

text \<open>Two players open an instance of the same weekly raid; times are in a zone where \<^verbatim>\<open>mktime\<close> counts from
  day 0 of a month.\<close>

definition demo_raid :: map_db2 where
  "demo_raid = \<lparr>MapID = 1530, LockID = 1, DifficultyID = 16, ResetInterval = 2, FlexLocking = False,
                EncounterLocks = False\<rparr>"

definition demo_env :: lock_env where
  "demo_env = \<lparr>env_now = 129600 * 1000000000 + 5,
     env_tm = \<lparr>tm_sec = 0, tm_min = 0, tm_hour = 12, tm_mday = 1, tm_mon = 0, tm_year = 117, tm_wday = 2\<rparr>,
     env_mktime = (\<lambda>t. 86400 * tm_mday t + 3600 * tm_hour t + 60 * tm_min t + tm_sec t),
     env_resetHour = 8, env_resetDay = 2,
     env_db2 = (\<lambda>m d. if m = 1530 \<and> d = 16 then Some demo_raid else None)\<rparr>"

definition demo_one :: lock_mgr where
  "demo_one = snd (CreateInstanceLockForNewInstance demo_env 3 demo_raid 7 InstanceLockMgr_new)"

definition demo_two :: lock_mgr where
  "demo_two = snd (CreateInstanceLockForNewInstance demo_env 2 demo_raid 8 demo_one)"

definition demo_kill :: update_event where
  "demo_kill = \<lparr>ev_InstanceId = 8, ev_NewData = ''a'', ev_InstanceCompletedEncountersMask = 1,
     ev_CompletedEncounter = Some 0, ev_EntranceWorldSafeLocId = None\<rparr>"

definition demo_lock :: "u32 \<Rightarrow> addr \<Rightarrow> instance_lock" where
  "demo_lock i a = (InstanceLock 1530 16 (GetNextResetTime demo_env demo_raid) i (Some a))\<lparr>lock_isNew := True\<rparr>"

lemma demo_bound [simp]: "IsInstanceIdBound demo_raid" "HasResetSchedule demo_raid" "GetKey demo_raid = (1530, 1)"
  "MapID demo_raid = 1530" "DifficultyID demo_raid = 16" "EncounterLocks demo_raid = False"
  by (simp_all add: demo_raid_def IsInstanceIdBound_def HasResetSchedule_def GetKey_def)

lemma demo_kill_fields [simp]:
  "ev_InstanceId demo_kill = 8" "ev_CompletedEncounter demo_kill = Some 0"
  "ev_InstanceCompletedEncountersMask demo_kill = 1"
  by (simp_all add: demo_kill_def)

lemma demo_lock_fields [simp]:
  "lock_instanceId (demo_lock i a) = i" "lock_isNew (demo_lock i a)"
  "CompletedEncountersMask (lock_data (demo_lock i a)) = 0" "lock_extended (demo_lock i a) = False"
  by (simp_all add: demo_lock_def InstanceLock_def)

lemma demo_one_eq:
  "demo_one = \<lparr>temporaryLocks = [(3, [((1530, 1), demo_lock 7 0)])], permanentLocks = [],
     instanceLockDataById = [(7, 0)], shared_heap = [0 \<mapsto> SharedInstanceLockData], next_addr = 1,
     unloading = False, executed = []\<rparr>"
  by (simp add: demo_one_def CreateInstanceLockForNewInstance_def InstanceLockMgr_new_def make_shared_def
      reset_temporary_def put_lock_def player_locks_def destroy_old_def FindInstanceLock_def demo_lock_def
      Let_def)

lemma demo_two_eq:
  "demo_two = \<lparr>temporaryLocks = [(3, [((1530, 1), demo_lock 7 0)]), (2, [((1530, 1), demo_lock 8 1)])],
     permanentLocks = [], instanceLockDataById = [(7, 0), (8, 1)],
     shared_heap = [0 \<mapsto> SharedInstanceLockData, 1 \<mapsto> SharedInstanceLockData], next_addr = 2,
     unloading = False, executed = []\<rparr>"
  by (simp add: demo_two_def demo_one_eq CreateInstanceLockForNewInstance_def make_shared_def
      reset_temporary_def put_lock_def player_locks_def destroy_old_def FindInstanceLock_def demo_lock_def
      Let_def)

lemma demo_reachable: "lock_reachable (\<lambda>k. True) demo_two"
proof -
  have "lock_reachable (\<lambda>k. True) InstanceLockMgr_new"
    by (rule lr_load [of _ demo_env "[]" "[]" ids ids for ids])
      (simp_all add: rows_ok_def InstanceLockMgr_Load_def)
  moreover have "fresh_id 7 InstanceLockMgr_new"
    by (simp add: fresh_id_def lock_at_def InstanceLockMgr_new_def FindInstanceLock_def player_locks_def)
  ultimately have one: "lock_reachable (\<lambda>k. True) demo_one"
    unfolding demo_one_def by (intro lr_create) simp_all
  have "fresh_id 8 demo_one"
    by (simp add: fresh_id_def lock_at_def demo_one_eq FindInstanceLock_def player_locks_def)
  then show ?thesis using one unfolding demo_two_def by (intro lr_create) simp_all
qed

lemma demo_active:
  "FindActiveInstanceLock demo_env demo_two 3 (1530, 1) False True = Some (demo_lock 7 0)"
  "FindActiveInstanceLock demo_env demo_two 3 (1530, 1) True True = None"
  "FindActiveInstanceLock demo_env demo_two 2 (1530, 1) False True = Some (demo_lock 8 1)"
  "FindInstanceLock (temporaryLocks demo_two) 3 (1530, 1) = Some (demo_lock 7 0)"
  by (simp_all add: FindActiveInstanceLock_def demo_two_eq FindInstanceLock_def player_locks_def)

lemma demo_at: "lock_at demo_two 2 (1530, 1) (demo_lock 8 1)"
  by (simp add: lock_at_def demo_two_eq FindInstanceLock_def player_locks_def)

lemma demo_clock: "clock_ok demo_env"
  by (simp add: clock_ok_def demo_env_def)


section \<open>Properties\<close>

text \<open>C12: the shared state of id based locks is consistent in every reachable state: it is alive and
  registered under the id of each lock that names it, two such locks carry the same id exactly when they
  share their state, and no state without a lock survives.\<close>

lemma shared_state_consistent:
  assumes "lock_reachable kb s"
  shows "(\<forall>g k l a. lock_at s g k l \<and> lock_sharedData l = Some a \<longrightarrow>
            shared_heap s a \<noteq> None \<and> map_of (instanceLockDataById s) (lock_instanceId l) = Some a)
    \<and> (\<forall>g k l g' k' l' a a'. lock_at s g k l \<and> lock_sharedData l = Some a
          \<and> lock_at s g' k' l' \<and> lock_sharedData l' = Some a' \<longrightarrow>
            (lock_instanceId l = lock_instanceId l' \<longleftrightarrow> a = a'))
    \<and> (\<forall>a. shared_heap s a \<noteq> None \<longrightarrow> (\<exists>g k l. lock_at s g k l \<and> lock_sharedData l = Some a))"
proof -
  note inv = lock_reachable_inv [OF assms]
  have live: "shared_heap s a \<noteq> None \<and> map_of (instanceLockDataById s) (lock_instanceId l) = Some a"
    if "lock_at s g k l" "lock_sharedData l = Some a" for g k l a
    using lock_at_soundD [OF inv that(1)] that(2) by (auto simp: lock_sound_def split: option.splits)
  have ids: "i = j" if "map_of (instanceLockDataById s) i = Some a" "map_of (instanceLockDataById s) j = Some a"
    for i j a using inv that unfolding li_but_def ids_ok_def by blast
  have "lock_instanceId l = lock_instanceId l' \<longleftrightarrow> a = a'"
    if "lock_at s g k l" "lock_sharedData l = Some a" "lock_at s g' k' l'" "lock_sharedData l' = Some a'"
    for g k l g' k' l' a a'
    using live [OF that(1,2)] live [OF that(3,4)] ids by auto
  moreover have "\<exists>g k l. lock_at s g k l \<and> lock_sharedData l = Some a" if "shared_heap s a \<noteq> None" for a
    using inv that unfolding li_but_def heap_owned_def by auto
  ultimately show ?thesis using live by blast
qed

lemma shared_state_consistent_witness:
  "lock_at demo_two 2 (1530, 1) (demo_lock 8 1) \<and> shared_heap demo_two 1 \<noteq> None
    \<and> map_of (instanceLockDataById demo_two) 8 = Some 1
    \<and> (\<exists>g k l. lock_at demo_two g k l \<and> lock_sharedData l = Some 1)"
proof -
  have "lock_sharedData (demo_lock 8 1) = Some 1" by (simp add: demo_lock_def InstanceLock_def)
  then show ?thesis
    using shared_state_consistent [OF demo_reachable, THEN conjunct1] demo_at
      demo_lock_fields(1) [of 8 1] by metis
qed

text \<open>C11: an update binds the player to the instance.  When the player holds no lock for another
  instance, the update succeeds: the player's active lock is now permanent, unexpired, for this instance,
  with the new data and with the completed encounters added to those it had, no other lock changes, the
  row written to the database is this lock, and of all instances of an id based map the player can join
  this one only.\<close>

lemma UpdateInstanceLock_binds:
  assumes "lock_reachable kb s" and "IsInstanceIdBound e = kb (GetKey e)" and "HasResetSchedule e"
    and "update_allowed env g e (ev_InstanceId ev) s" and "env_now env \<le> GetNextResetTime env e"
  shows "\<exists>l t. UpdateInstanceLockForPlayer env g e ev (tr, s) = Some (l, tr @ save_lock g e l, t)
    \<and> FindActiveInstanceLock env t g (GetKey e) False True = Some l
    \<and> lock_instanceId l = ev_InstanceId ev \<and> \<not> lock_isNew l \<and> \<not> IsExpired env l
    \<and> Data (lock_data l) = ev_NewData ev
    \<and> CompletedEncountersMask (lock_data l) =
        (case FindActiveInstanceLock env s g (GetKey e) False True of
           None \<Rightarrow> 0 | Some l0 \<Rightarrow> CompletedEncountersMask (lock_data l0))
        OR (case ev_CompletedEncounter ev of None \<Rightarrow> 0 | Some b \<Rightarrow> push_bit b 1)
        OR (if EncounterLocks e then 0 else ev_InstanceCompletedEncountersMask ev)
    \<and> others_same g (GetKey e) s t
    \<and> (IsInstanceIdBound e \<longrightarrow> (\<forall>x. CanJoinInstanceLock env t g e x = TRANSFER_ABORT_NONE
          \<longleftrightarrow> lock_instanceId x = ev_InstanceId ev))"
proof -
  obtain l' tr' t where u: "UpdateInstanceLockForPlayer env g e ev (tr, s) = Some (l', tr', t)"
    and spec: "others_same g (GetKey e) s t" "FindInstanceLock (permanentLocks t) g (GetKey e) = Some l'"
      "tr' = tr @ save_lock g e l'" "\<exists>l. held_lock env g e (ev_InstanceId ev) s l \<and> l' = update_lock env e ev l"
    using UpdateInstanceLock_spec [OF lock_reachable_inv [OF assms(1)] assms(2), of env g ev tr] assms(4)
    by (auto split: option.splits)
  from spec(4) obtain l where l: "held_lock env g e (ev_InstanceId ev) s l" "l' = update_lock env e ev l"
    by blast
  have nexp: "\<not> IsExpired env l'"
    using assms(5) by (auto simp: l(2) update_lock_def IsExpired_def Let_def)
  have act: "FindActiveInstanceLock env t g (GetKey e) False True = Some l'"
    using spec(2) nexp by (simp add: FindActiveInstanceLock_def)
  have l0: "lock_instanceId l = ev_InstanceId ev" "CompletedEncountersMask (lock_data l) =
        (case FindActiveInstanceLock env s g (GetKey e) False True of
           None \<Rightarrow> 0 | Some l0 \<Rightarrow> CompletedEncountersMask (lock_data l0))"
    using l(1) by (auto simp: held_lock_def InstanceLock_def split: option.splits)
  have data: "Data (lock_data l') = ev_NewData ev" "CompletedEncountersMask (lock_data l') =
      CompletedEncountersMask (lock_data l)
        OR (case ev_CompletedEncounter ev of None \<Rightarrow> 0 | Some b \<Rightarrow> push_bit b 1)
        OR (if EncounterLocks e then 0 else ev_InstanceCompletedEncountersMask ev)"
    by (auto simp: l(2) update_lock_def Let_def or.assoc split: option.splits)
  have "\<forall>x. CanJoinInstanceLock env t g e x = TRANSFER_ABORT_NONE \<longleftrightarrow> lock_instanceId x = ev_InstanceId ev"
    if "IsInstanceIdBound e"
    using that act assms(3) l0(1) l(2) by (auto simp: CanJoinInstanceLock_def IsInstanceIdBound_def)
  then show ?thesis using u spec nexp act data l0 l(2) by auto
qed

lemma UpdateInstanceLock_binds_witness:
  "\<exists>l t. UpdateInstanceLockForPlayer demo_env 2 demo_raid demo_kill ([], demo_two)
        = Some (l, save_lock 2 demo_raid l, t)
    \<and> lock_instanceId l = 8 \<and> CompletedEncountersMask (lock_data l) = 1
    \<and> (\<forall>x. CanJoinInstanceLock demo_env t 2 demo_raid x = TRANSFER_ABORT_NONE \<longleftrightarrow> lock_instanceId x = 8)"
proof -
  have "update_allowed demo_env 2 demo_raid (ev_InstanceId demo_kill) demo_two"
    by (simp add: update_allowed_def demo_active)
  moreover have "env_now demo_env \<le> GetNextResetTime demo_env demo_raid"
    by (simp add: demo_env_def demo_raid_def GetNextResetTime_def from_time_t_def Seconds_def Let_def)
  ultimately show ?thesis
    using UpdateInstanceLock_binds [OF demo_reachable, of demo_raid demo_env 2 demo_kill "[]"]
    by (simp add: demo_active) blast
qed

text \<open>C35: a temporary lock of another instance makes the update abort.  A player who opened an instance of
  an id based map and left it before any boss died keeps a temporary lock; the player is allowed into
  another instance of the map, and the first boss killed there fails the assertion that compares the ids.\<close>

lemma foreign_temporary_lock_aborts:
  assumes "lock_reachable kb s" and "IsInstanceIdBound e" and "kb (GetKey e)"
    and "FindActiveInstanceLock env s g (GetKey e) True True = None"
    and "FindInstanceLock (temporaryLocks s) g (GetKey e) = Some l"
    and "lock_instanceId l \<noteq> ev_InstanceId ev"
  shows "CanJoinInstanceLock env s g e x = TRANSFER_ABORT_NONE
    \<and> UpdateInstanceLockForPlayer env g e ev (tr, s) = None"
proof -
  note inv = lock_reachable_inv [OF assms(1)]
  have new: "lock_isNew l" using inv assms(5) by (auto simp: li_but_def)
  have act: "FindActiveInstanceLock env s g (GetKey e) False True = Some l"
    using assms(4,5) by (auto simp: FindActiveInstanceLock_def split: option.splits if_splits)
  then have "\<not> update_allowed env g e (ev_InstanceId ev) s"
    using assms(2,6) by (simp add: update_allowed_def)
  then show ?thesis
    using UpdateInstanceLock_spec [OF inv, of e env g ev tr] assms(2,3) act new
    by (auto simp: CanJoinInstanceLock_def IsInstanceIdBound_def split: option.splits)
qed

lemma foreign_temporary_lock_aborts_witness:
  "CanJoinInstanceLock demo_env demo_two 3 demo_raid (demo_lock 8 1) = TRANSFER_ABORT_NONE
    \<and> UpdateInstanceLockForPlayer demo_env 3 demo_raid demo_kill ([], demo_two) = None"
  using foreign_temporary_lock_aborts [OF demo_reachable, of demo_raid demo_env 3 "demo_lock 7 0" demo_kill
      "demo_lock 8 1" "[]"]
  by (simp add: demo_active)

text \<open>The row the database returns for an inserted lock: the columns the loading query selects.\<close>

fun stored_row :: "lock_statement \<Rightarrow> character_row option" where
  "stored_row (InsCharacterLock g m lk i d data msk entrance expiry ext) =
     Some \<lparr>cr_guid = g, cr_mapId = m, cr_lockId = lk, cr_instanceId = i, cr_difficulty = d, cr_data = data,
       cr_completedEncountersMask = msk, cr_expiryTime = expiry, cr_extended = ext\<rparr>"
| "stored_row _ = None"

text \<open>a restart forgets the entrance.  A lock written to the database is loaded with its instance, data,
  encounters, extension and expiry time (in whole seconds), but its entrance, which is written as well,
  is not read: it is 0 again.\<close>

lemma Load_forgets_entrance:
  assumes "env_db2 env (MapID e) (DifficultyID e) = Some e"
    and "IsInstanceIdBound e \<Longrightarrow> map_of byId (lock_instanceId l) \<noteq> None"
    and "unat (lock_instanceId l) < length (freeInstanceIds ids)"
    and "stored_row (save_lock g e l ! 1) = Some r"
  shows "\<exists>ids' t l'. load_lock env byId r (ids, s) = Some (ids', t)
    \<and> FindInstanceLock (permanentLocks t) g (GetKey e) = Some l'
    \<and> lock_instanceId l' = lock_instanceId l \<and> lock_extended l' = lock_extended l
    \<and> lock_expiryTime l' = from_time_t (to_time_t (lock_expiryTime l))
    \<and> Data (lock_data l') = Data (lock_data l)
    \<and> CompletedEncountersMask (lock_data l') = CompletedEncountersMask (lock_data l)
    \<and> EntranceWorldSafeLocId (lock_data l') = 0"
proof -
  obtain ids' where ids': "RegisterInstanceId (unat (lock_instanceId l)) ids = Some ids'"
    using assms(3) by (simp add: RegisterInstanceId_def bitset_set_def)
  have perm: "FindInstanceLock (permanentLocks (reset_permanent g k x u)) g k = Some x" for k x u
    by (simp add: reset_permanent_def destroy_old_def split: option.splits)
  show ?thesis using assms ids'
    by (cases "IsInstanceIdBound e")
      (auto simp: load_lock_def save_lock_def GetKey_def perm InstanceLock_def Let_def)
qed

lemma Load_forgets_entrance_witness:
  "\<exists>r ids' t l'. stored_row (save_lock 2 demo_raid ((demo_lock 8 1)\<lparr>lock_data :=
        \<lparr>Data = ''a'', CompletedEncountersMask = 1, EntranceWorldSafeLocId = 77\<rparr>\<rparr>) ! 1) = Some r
    \<and> load_lock demo_env [(8, 1)] r
        (\<lparr>freeInstanceIds = replicate 10 True, nextInstanceId = 1, stopped = False\<rparr>, demo_two) = Some (ids', t)
    \<and> FindInstanceLock (permanentLocks t) 2 (1530, 1) = Some l'
    \<and> CompletedEncountersMask (lock_data l') = 1 \<and> EntranceWorldSafeLocId (lock_data l') = 0"
proof -
  let ?l = "(demo_lock 8 1)\<lparr>lock_data := \<lparr>Data = ''a'', CompletedEncountersMask = 1, EntranceWorldSafeLocId = 77\<rparr>\<rparr>"
  obtain r where r: "stored_row (save_lock 2 demo_raid ?l ! 1) = Some r" by (simp add: save_lock_def)
  have "env_db2 demo_env (MapID demo_raid) (DifficultyID demo_raid) = Some demo_raid"
    by (simp add: demo_env_def)
  then show ?thesis
    using r Load_forgets_entrance [of demo_env demo_raid "[(8, 1)]" ?l
        "\<lparr>freeInstanceIds = replicate 10 True, nextInstanceId = 1, stopped = False\<rparr>" 2 r demo_two]
    by auto
qed


section \<open>Reset times\<close>

lemma seconds_floor:
  fixes T x k :: int
  assumes "T = x div k" "0 < k"
  shows "T * k \<le> x \<and> x < (T + 1) * k"
  using div_mult_mod_eq [of x k] pos_mod_sign [OF assms(2), of x] pos_mod_bound [OF assms(2), of x]
  unfolding assms(1) distrib_right mult_1_left by linarith

lemma weekly_offset:
  fixes h R W w m x :: int
  assumes "0 \<le> h" "h \<le> 23" "0 \<le> m" "m \<le> 59" "0 \<le> x" "x \<le> 59" "0 \<le> w" "w \<le> 6" "0 \<le> R" "R \<le> 23" "0 \<le> W" "W \<le> 6"
    and d: "d = (if w > W \<or> w = W \<and> R \<le> h then W - w + 7 else W - w)"
  shows "3600 * h + 60 * m + x < 86400 * d + 3600 * R \<and> 86400 * d + 3600 * R \<le> 3600 * h + 60 * m + x + 604800"
proof (cases "w > W \<or> w = W \<and> R \<le> h")
  case True
  then consider "w > W" | "w = W" "R \<le> h" by blast
  then show ?thesis
  proof cases
    case 1
    then have "1 \<le> d" "d \<le> 6" using True assms by auto
    then show ?thesis using assms by linarith
  next
    case 2
    then have "d = 7" using d by simp
    then show ?thesis using 2 assms by linarith
  qed
next
  case False
  then have "d = W - w" "w < W \<or> w = W \<and> h + 1 \<le> R" using d by auto
  then show ?thesis using assms(1-12) by (elim disjE conjE) linarith+
qed

text \<open>the next reset lies in the future, at most one period away.  With the configured hour and week
  day in their ranges, the reset time of a daily or weekly lock is later than the current time and no
  later than the current time plus the duration of the lock.\<close>

lemma GetNextResetTime_in_period:
  assumes "clock_ok env" and "env_resetHour env \<in> {0 .. 23}" and "env_resetDay env \<in> {0 .. 6}"
    and "ResetInterval e \<in> {1, 2}"
  shows "env_now env < GetNextResetTime env e
    \<and> GetNextResetTime env e \<le> env_now env + Seconds (GetRaidDuration e)"
proof -
  let ?t = "env_tm env" and ?R = "env_resetHour env" and ?W = "env_resetDay env"
  define B where "B = env_mktime env (?t\<lparr>tm_mday := 0, tm_hour := 0, tm_min := 0, tm_sec := 0\<rparr>)"
  define T where "T = env_mktime env ?t"
  note clock = assms(1) [unfolded clock_ok_def]
  have mk: "env_mktime env t = env_mktime env (t\<lparr>tm_mday := 0, tm_hour := 0, tm_min := 0, tm_sec := 0\<rparr>)
        + 86400 * tm_mday t + 3600 * tm_hour t + 60 * tm_min t + tm_sec t" for t
    using clock by blast
  have at: "env_mktime env t = B + 86400 * tm_mday t + 3600 * tm_hour t + 60 * tm_min t + tm_sec t"
    if "tm_mon t = tm_mon ?t" "tm_year t = tm_year ?t" "tm_wday t = tm_wday ?t" for t
  proof -
    have "t\<lparr>tm_mday := 0, tm_hour := 0, tm_min := 0, tm_sec := 0\<rparr>
        = ?t\<lparr>tm_mday := 0, tm_hour := 0, tm_min := 0, tm_sec := 0\<rparr>" using that by simp
    then show ?thesis using mk [of t] by (simp add: B_def)
  qed
  have T: "T = B + 86400 * tm_mday ?t + 3600 * tm_hour ?t + 60 * tm_min ?t + tm_sec ?t"
    unfolding T_def B_def by (rule mk)
  have rng: "0 \<le> tm_hour ?t" "tm_hour ?t \<le> 23" "0 \<le> tm_min ?t" "tm_min ?t \<le> 59" "0 \<le> tm_sec ?t"
    "tm_sec ?t \<le> 59" "0 \<le> tm_wday ?t" "tm_wday ?t \<le> 6" "0 \<le> ?R" "?R \<le> 23" "0 \<le> ?W" "?W \<le> 6"
    using clock assms(2,3) by auto
  have "\<exists>N. GetNextResetTime env e = from_time_t N \<and> T < N \<and> N \<le> T + GetRaidDuration e"
  proof (cases "ResetInterval e = 1")
    case True
    let ?d = "if ?R \<le> tm_hour ?t then tm_mday ?t + 1 else tm_mday ?t"
    have "GetNextResetTime env e = from_time_t (B + 86400 * ?d + 3600 * ?R)"
      using True by (simp add: GetNextResetTime_def at)
    then show ?thesis using True rng T
      by (intro exI [of _ "B + 86400 * ?d + 3600 * ?R"]) (simp add: GetRaidDuration_def)
  next
    case False
    then have two: "ResetInterval e = 2" using assms(4) by simp
    define d where "d = (if tm_wday ?t > ?W \<or> tm_wday ?t = ?W \<and> ?R \<le> tm_hour ?t
              then ?W - tm_wday ?t + 7 else ?W - tm_wday ?t)"
    have G: "GetNextResetTime env e = from_time_t (B + 86400 * (tm_mday ?t + d) + 3600 * ?R)"
      using two by (auto simp: GetNextResetTime_def at Let_def d_def)
    have "T < B + 86400 * (tm_mday ?t + d) + 3600 * ?R"
      "B + 86400 * (tm_mday ?t + d) + 3600 * ?R \<le> T + 604800"
      using weekly_offset [OF rng d_def, THEN conjunct1] weekly_offset [OF rng d_def, THEN conjunct2] T
      unfolding distrib_left by - linarith+
    then show ?thesis using G two by (auto simp: GetRaidDuration_def)
  qed
  then obtain N where N: "GetNextResetTime env e = from_time_t N" "T < N" "N \<le> T + GetRaidDuration e" by blast
  have "T = env_now env div 1000000000" using clock unfolding T_def by blast
  then have floor: "T * 1000000000 \<le> env_now env" "env_now env < (T + 1) * 1000000000"
    using seconds_floor [of T "env_now env" 1000000000] by simp_all
  have "T + 1 \<le> N" using N(2) by simp
  then have "(T + 1) * 1000000000 \<le> N * 1000000000" by (rule mult_right_mono) simp
  moreover have "N * 1000000000 \<le> (T + GetRaidDuration e) * 1000000000" using N(3) by (rule mult_right_mono) simp
  ultimately show ?thesis
    using floor N(1) unfolding from_time_t_def Seconds_def distrib_right by linarith
qed

lemma GetNextResetTime_in_period_witness:
  "env_now demo_env < GetNextResetTime demo_env demo_raid
    \<and> GetNextResetTime demo_env demo_raid \<le> env_now demo_env + Seconds (GetRaidDuration demo_raid)"
  by (rule GetNextResetTime_in_period [OF demo_clock]) (simp_all add: demo_env_def demo_raid_def)

end
