(* ===== verification/RBAC.thy ===== *)
theory RBAC imports StdContainers begin

text \<open>
  Role based access control, \<^verbatim>\<open>src/src/server/game/Accounts/RBAC.{h,cpp}\<close>: an account's granted and
  denied permissions and the set computed from them by following the links between permissions. The
  permissions known to \<^verbatim>\<open>sAccountMgr\<close> are a map from the id to the linked permissions; database writes
  are recorded as a list of statements.
\<close>

section \<open>State\<close>

type_synonym permissions = "u32 list"
type_synonym permission_store = "(u32, permissions) omap"

datatype rbac_result =
    RBAC_OK
  | RBAC_CANT_ADD_ALREADY_ADDED
  | RBAC_CANT_REVOKE_NOT_IN_LIST
  | RBAC_IN_GRANTED_LIST
  | RBAC_IN_DENIED_LIST
  | RBAC_ID_DOES_NOT_EXISTS

datatype rbac_statement =
    INS_RBAC_ACCOUNT_PERMISSION u32 bool int
  | DEL_RBAC_ACCOUNT_PERMISSION u32 int

record rbac_data =
  rbac_secLevel :: u8
  rbac_granted :: permissions
  rbac_denied :: permissions
  rbac_global :: permissions
  rbac_saved :: "rbac_statement list"

section \<open>Operations\<close>

definition AddPermissions :: "permissions \<Rightarrow> permissions \<Rightarrow> permissions" where
  "AddPermissions permsFrom permsTo = fold ss_insert permsFrom permsTo"

definition RemovePermissions :: "permissions \<Rightarrow> permissions \<Rightarrow> permissions" where
  "RemovePermissions permsFrom permsToRemove = fold ss_erase permsToRemove permsFrom"

definition check_linked :: "permissions \<Rightarrow> permissions \<Rightarrow> permissions \<Rightarrow> permissions" where
  "check_linked out linkedPerms toCheck =
     fold (\<lambda>linkedPerm toCheck. if linkedPerm \<notin> set out then ss_insert linkedPerm toCheck else toCheck) linkedPerms toCheck"

partial_function (option) ExpandPermissions_loop ::
  "permission_store \<Rightarrow> permissions \<Rightarrow> permissions \<Rightarrow> permissions option" where
  "ExpandPermissions_loop st toCheck out =
     (case toCheck of
        [] \<Rightarrow> Some out
      | permissionId # toCheck' \<Rightarrow>
          (case om_find permissionId st of
             None \<Rightarrow> ExpandPermissions_loop st toCheck' out
           | Some linkedPerms \<Rightarrow>
               ExpandPermissions_loop st (check_linked (ss_insert permissionId out) linkedPerms toCheck')
                 (ss_insert permissionId out)))"

definition ExpandPermissions :: "permission_store \<Rightarrow> permissions \<Rightarrow> permissions option" where
  "ExpandPermissions st perms = ExpandPermissions_loop st perms []"

definition CalculateNewPermissions :: "permission_store \<Rightarrow> rbac_data \<Rightarrow> rbac_data option" where
  "CalculateNewPermissions st d =
     Option.bind (ExpandPermissions st (rbac_granted d)) (\<lambda>globalPerms.
     Option.bind (ExpandPermissions st (rbac_denied d)) (\<lambda>revoked.
     Some (d\<lparr>rbac_global := RemovePermissions globalPerms revoked\<rparr>)))"

definition SavePermission :: "u32 \<Rightarrow> bool \<Rightarrow> int \<Rightarrow> rbac_data \<Rightarrow> rbac_data" where
  "SavePermission permission granted realmId d =
     d\<lparr>rbac_saved := rbac_saved d @ [INS_RBAC_ACCOUNT_PERMISSION permission granted realmId]\<rparr>"

definition GrantPermission :: "permission_store \<Rightarrow> u32 \<Rightarrow> int \<Rightarrow> rbac_data \<Rightarrow> (rbac_result \<times> rbac_data) option" where
  "GrantPermission st permissionId realmId d =
     (if om_find permissionId st = None then Some (RBAC_ID_DOES_NOT_EXISTS, d)
      else if permissionId \<in> set (rbac_denied d) then Some (RBAC_IN_DENIED_LIST, d)
      else if permissionId \<in> set (rbac_granted d) then Some (RBAC_CANT_ADD_ALREADY_ADDED, d)
      else let d = d\<lparr>rbac_granted := ss_insert permissionId (rbac_granted d)\<rparr>
           in if realmId \<noteq> 0
              then map_option (Pair RBAC_OK) (CalculateNewPermissions st (SavePermission permissionId True realmId d))
              else Some (RBAC_OK, d))"

definition DenyPermission :: "permission_store \<Rightarrow> u32 \<Rightarrow> int \<Rightarrow> rbac_data \<Rightarrow> (rbac_result \<times> rbac_data) option" where
  "DenyPermission st permissionId realmId d =
     (if om_find permissionId st = None then Some (RBAC_ID_DOES_NOT_EXISTS, d)
      else if permissionId \<in> set (rbac_granted d) then Some (RBAC_IN_GRANTED_LIST, d)
      else if permissionId \<in> set (rbac_denied d) then Some (RBAC_CANT_ADD_ALREADY_ADDED, d)
      else let d = d\<lparr>rbac_denied := ss_insert permissionId (rbac_denied d)\<rparr>
           in if realmId \<noteq> 0
              then map_option (Pair RBAC_OK) (CalculateNewPermissions st (SavePermission permissionId False realmId d))
              else Some (RBAC_OK, d))"

definition RevokePermission :: "permission_store \<Rightarrow> u32 \<Rightarrow> int \<Rightarrow> rbac_data \<Rightarrow> (rbac_result \<times> rbac_data) option" where
  "RevokePermission st permissionId realmId d =
     (if permissionId \<notin> set (rbac_granted d) \<and> permissionId \<notin> set (rbac_denied d)
      then Some (RBAC_CANT_REVOKE_NOT_IN_LIST, d)
      else let d = d\<lparr>rbac_granted := ss_erase permissionId (rbac_granted d),
                     rbac_denied := ss_erase permissionId (rbac_denied d)\<rparr>
           in if realmId \<noteq> 0
              then map_option (Pair RBAC_OK) (CalculateNewPermissions st
                     (d\<lparr>rbac_saved := rbac_saved d @ [DEL_RBAC_ACCOUNT_PERMISSION permissionId realmId]\<rparr>))
              else Some (RBAC_OK, d))"

definition ClearData :: "rbac_data \<Rightarrow> rbac_data" where
  "ClearData d = d\<lparr>rbac_granted := [], rbac_denied := [], rbac_global := []\<rparr>"

text \<open>The query rows are pairs of a permission and the granted flag.\<close>

fun load_rows :: "permission_store \<Rightarrow> (u32 \<times> bool) list \<Rightarrow> rbac_data \<Rightarrow> rbac_data option" where
  "load_rows st [] d = Some d"
| "load_rows st ((p, granted) # rows) d =
     Option.bind (if granted then GrantPermission st p 0 d else DenyPermission st p 0 d) (\<lambda>(_, d). load_rows st rows d)"

definition LoadFromDBCallback ::
  "permission_store \<Rightarrow> (u8 \<Rightarrow> permissions) \<Rightarrow> (u32 \<times> bool) list \<Rightarrow> rbac_data \<Rightarrow> rbac_data option" where
  "LoadFromDBCallback st GetRBACDefaultPermissions result d =
     Option.bind (load_rows st result d) (\<lambda>d.
     Option.bind (load_rows st (map (\<lambda>p. (p, True)) (GetRBACDefaultPermissions (rbac_secLevel d))) d)
       (CalculateNewPermissions st))"

definition LoadFromDB ::
  "permission_store \<Rightarrow> (u8 \<Rightarrow> permissions) \<Rightarrow> (u32 \<times> bool) list \<Rightarrow> rbac_data \<Rightarrow> rbac_data option" where
  "LoadFromDB st GetRBACDefaultPermissions result d = LoadFromDBCallback st GetRBACDefaultPermissions result (ClearData d)"

definition SetSecurityLevel ::
  "permission_store \<Rightarrow> (u8 \<Rightarrow> permissions) \<Rightarrow> (u32 \<times> bool) list \<Rightarrow> u8 \<Rightarrow> rbac_data \<Rightarrow> rbac_data option" where
  "SetSecurityLevel st GetRBACDefaultPermissions result level d =
     LoadFromDB st GetRBACDefaultPermissions result (d\<lparr>rbac_secLevel := level\<rparr>)"

definition HasPermission :: "u32 \<Rightarrow> rbac_data \<Rightarrow> bool" where
  "HasPermission permission d \<longleftrightarrow> permission \<in> set (rbac_global d)"

section \<open>Expansion computes the closure under links\<close>

definition known :: "permission_store \<Rightarrow> u32 \<Rightarrow> bool" where
  "known st p \<longleftrightarrow> om_find p st \<noteq> None"

definition link :: "permission_store \<Rightarrow> u32 \<Rightarrow> u32 \<Rightarrow> bool" where
  "link st p q \<longleftrightarrow> (\<exists>ls. om_find p st = Some ls \<and> q \<in> set ls \<and> known st q)"

text \<open>\<open>closure st P\<close>: the known permissions reachable by links from known members of \<open>P\<close>.\<close>

inductive_set closure :: "permission_store \<Rightarrow> u32 set \<Rightarrow> u32 set" for st P where
  base: "p \<in> P \<Longrightarrow> known st p \<Longrightarrow> p \<in> closure st P"
| step: "p \<in> closure st P \<Longrightarrow> link st p q \<Longrightarrow> q \<in> closure st P"

lemma closure_known: "p \<in> closure st P \<Longrightarrow> known st p"
  by (induction rule: closure.induct) (auto simp: link_def)

lemma closure_mono: "p \<in> closure st P \<Longrightarrow> P \<subseteq> Q \<Longrightarrow> p \<in> closure st Q"
  by (induction rule: closure.induct) (auto intro: closure.intros)

lemma closure_least:
  assumes "p \<in> closure st P" "\<And>q. q \<in> P \<Longrightarrow> known st q \<Longrightarrow> q \<in> C" "\<And>q r. q \<in> C \<Longrightarrow> link st q r \<Longrightarrow> r \<in> C"
  shows "p \<in> C"
  using assms by (induction rule: closure.induct) auto

lemma check_linked_facts:
  "ss_ok tc \<Longrightarrow> ss_ok (check_linked out ls tc) \<and> set (check_linked out ls tc) = set tc \<union> (set ls - set out)"
  unfolding check_linked_def by (induction ls arbitrary: tc) auto

text \<open>The state of the worklist: what is expanded is closed up to what is still to be checked.\<close>

definition expand_inv :: "permission_store \<Rightarrow> u32 set \<Rightarrow> permissions \<Rightarrow> permissions \<Rightarrow> bool" where
  "expand_inv st P tc out \<longleftrightarrow> ss_ok tc \<and> ss_ok out \<and> set tc \<inter> set out = {} \<and>
     set out \<subseteq> closure st P \<and> (\<forall>p \<in> set tc. known st p \<longrightarrow> p \<in> closure st P) \<and>
     (\<forall>p \<in> P. known st p \<longrightarrow> p \<in> set tc \<union> set out) \<and>
     (\<forall>p \<in> set out. \<forall>q. link st p q \<longrightarrow> q \<in> set tc \<union> set out)"

lemma expand_inv_step:
  assumes "expand_inv st P (p # tc) out"
  shows "om_find p st = None \<Longrightarrow> expand_inv st P tc out"
    and "om_find p st = Some ls \<Longrightarrow> expand_inv st P (check_linked (ss_insert p out) ls tc) (ss_insert p out)"
proof -
  assume "om_find p st = None"
  then have nk: "\<not> known st p" "\<And>a. \<not> link st a p" by (simp_all add: known_def link_def)
  show "expand_inv st P tc out"
    unfolding expand_inv_def
  proof (intro conjI ballI impI allI)
    fix a assume "a \<in> P" "known st a"
    with nk assms show "a \<in> set tc \<union> set out" by (auto simp: expand_inv_def)
  next
    fix a q assume "a \<in> set out" "link st a q"
    with nk assms show "q \<in> set tc \<union> set out" by (fastforce simp: expand_inv_def)
  qed (use assms in \<open>auto simp: expand_inv_def\<close>)
next
  assume f: "om_find p st = Some ls"
  then have k: "known st p" by (simp add: known_def)
  with assms have c: "p \<in> closure st P" by (simp add: expand_inv_def)
  have tc: "ss_ok tc" using assms by (simp add: expand_inv_def)
  note cl = check_linked_facts [OF tc, of "ss_insert p out" ls]
  have "q \<in> closure st P" if "q \<in> set ls" "known st q" for q
    using that f c by (auto intro: closure.step simp: link_def)
  moreover have "q \<in> set ls" if "link st p q" for q using that f by (simp add: link_def)
  ultimately show "expand_inv st P (check_linked (ss_insert p out) ls tc) (ss_insert p out)"
    using assms cl c unfolding expand_inv_def by auto
qed

lemma ExpandPermissions_loop_closure:
  assumes "expand_inv st P tc out"
  shows "\<exists>r. ExpandPermissions_loop st tc out = Some r \<and> ss_ok r \<and> set r = closure st P"
  using assms
proof (induction "(card (fst ` set st - set out), length tc)" arbitrary: tc out rule: wf_induct_rule [OF wf_lex_prod, OF wf_less_than wf_less_than, consumes 0, case_names less])
  case (less tc out)
  show ?case
  proof (cases tc)
    case Nil
    with less.prems have "set out = closure st P"
      by (auto simp: expand_inv_def dest: closure_known elim: closure_least)
    with Nil less.prems show ?thesis by (simp add: ExpandPermissions_loop.simps expand_inv_def)
  next
    case (Cons p tc')
    show ?thesis
    proof (cases "om_find p st")
      case None
      have "\<exists>r. ExpandPermissions_loop st tc' out = Some r \<and> ss_ok r \<and> set r = closure st P"
        using less.hyps [of out tc'] less.prems expand_inv_step(1) [of st P p tc' out] None Cons by simp
      with None Cons ExpandPermissions_loop.simps [of st tc out] show ?thesis by simp
    next
      case (Some ls)
      let ?out = "ss_insert p out" and ?tc = "check_linked (ss_insert p out) ls tc'"
      have "set tc \<inter> set out = {}" using less.prems by (simp add: expand_inv_def)
      then have "p \<notin> set out" using Cons by auto
      moreover have "p \<in> fst ` set st" using om_find_in_set [OF Some] by (metis fst_conv image_eqI)
      ultimately have "p \<in> fst ` set st - set out" by blast
      moreover have "fst ` set st - set ?out = (fst ` set st - set out) - {p}" by auto
      ultimately have "card (fst ` set st - set ?out) < card (fst ` set st - set out)"
        by (metis List.finite_set card_Diff1_less finite_Diff finite_imageI)
      then have "((card (fst ` set st - set ?out), length ?tc), (card (fst ` set st - set out), length tc))
          \<in> less_than <*lex*> less_than" by simp
      moreover have "expand_inv st P ?tc ?out" using less.prems Cons Some by (auto intro: expand_inv_step(2))
      ultimately have "\<exists>r. ExpandPermissions_loop st ?tc ?out = Some r \<and> ss_ok r \<and> set r = closure st P"
        using less.hyps by blast
      with Some Cons ExpandPermissions_loop.simps [of st tc out] show ?thesis by simp
    qed
  qed
qed

lemma ExpandPermissions_closure:
  assumes "ss_ok perms"
  obtains r where "ExpandPermissions st perms = Some r" "ss_ok r" "set r = closure st (set perms)"
proof -
  have "expand_inv st (set perms) perms []"
    using assms by (auto simp: expand_inv_def intro: closure.base)
  from ExpandPermissions_loop_closure [OF this] that show ?thesis
    by (auto simp: ExpandPermissions_def)
qed

section \<open>Properties\<close>

definition rbac_ok :: "rbac_data \<Rightarrow> bool" where
  "rbac_ok d \<longleftrightarrow> ss_ok (rbac_granted d) \<and> ss_ok (rbac_denied d) \<and> set (rbac_granted d) \<inter> set (rbac_denied d) = {}"

definition rbac_computed :: "permission_store \<Rightarrow> rbac_data \<Rightarrow> bool" where
  "rbac_computed st d \<longleftrightarrow> (\<forall>p. HasPermission p d \<longleftrightarrow>
     p \<in> closure st (set (rbac_granted d)) \<and> p \<notin> closure st (set (rbac_denied d)))"

lemma CalculateNewPermissions_closure:
  assumes "rbac_ok d"
  obtains d' where "CalculateNewPermissions st d = Some d'" "rbac_computed st d'" "rbac_ok d'"
    "rbac_granted d' = rbac_granted d" "rbac_denied d' = rbac_denied d"
proof -
  obtain g where g: "ExpandPermissions st (rbac_granted d) = Some g" "ss_ok g" "set g = closure st (set (rbac_granted d))"
    using assms ExpandPermissions_closure by (metis rbac_ok_def)
  obtain r where r: "ExpandPermissions st (rbac_denied d) = Some r" "ss_ok r" "set r = closure st (set (rbac_denied d))"
    using assms ExpandPermissions_closure by (metis rbac_ok_def)
  have "set (RemovePermissions g r) = set g - set r" using ss.erase_all [OF g(2)] by (simp add: RemovePermissions_def)
  then show ?thesis using that g r assms
    by (auto simp: CalculateNewPermissions_def rbac_computed_def HasPermission_def rbac_ok_def)
qed

inductive rbac_step :: "permission_store \<Rightarrow> rbac_data \<Rightarrow> rbac_data \<Rightarrow> bool" for st where
  grant: "realm \<noteq> 0 \<Longrightarrow> GrantPermission st p realm d = Some (r, d') \<Longrightarrow> rbac_step st d d'"
| deny: "realm \<noteq> 0 \<Longrightarrow> DenyPermission st p realm d = Some (r, d') \<Longrightarrow> rbac_step st d d'"
| revoke: "realm \<noteq> 0 \<Longrightarrow> RevokePermission st p realm d = Some (r, d') \<Longrightarrow> rbac_step st d d'"
| load: "LoadFromDB st dflt rows d = Some d' \<Longrightarrow> rbac_step st d d'"
| level: "SetSecurityLevel st dflt rows l d = Some d' \<Longrightarrow> rbac_step st d d'"

definition RBACData_new :: "u8 \<Rightarrow> rbac_data" where
  "RBACData_new secLevel =
     \<lparr>rbac_secLevel = secLevel, rbac_granted = [], rbac_denied = [], rbac_global = [], rbac_saved = []\<rparr>"

lemma SavePermission_ok [simp]: "rbac_ok (SavePermission p b r d) = rbac_ok d"
  by (simp add: rbac_ok_def SavePermission_def)

text \<open>Every change computes the permissions anew unless it comes from the database (realm 0).\<close>

lemma CalculateNewPermissions_Some:
  "CalculateNewPermissions st d = Some d' \<Longrightarrow> rbac_ok d \<Longrightarrow> rbac_ok d' \<and> rbac_computed st d'"
  by (metis CalculateNewPermissions_closure option.inject)

lemma Grant_realm_cases:
  assumes "GrantPermission st p realm d = Some (r, d')" "rbac_ok d"
  shows "rbac_ok d'" and "d' = d \<or> realm = 0 \<or> rbac_computed st d'"
proof -
  let ?d = "d\<lparr>rbac_granted := ss_insert p (rbac_granted d)\<rparr>"
  have ok: "rbac_ok ?d" if "p \<notin> set (rbac_denied d)" using assms(2) that by (auto simp: rbac_ok_def)
  show "rbac_ok d'" "d' = d \<or> realm = 0 \<or> rbac_computed st d'"
    using assms ok CalculateNewPermissions_Some [of st "SavePermission p True realm ?d" d']
    by (auto simp: GrantPermission_def Let_def split: if_splits)
qed

lemma Deny_realm_cases:
  assumes "DenyPermission st p realm d = Some (r, d')" "rbac_ok d"
  shows "rbac_ok d'" and "d' = d \<or> realm = 0 \<or> rbac_computed st d'"
proof -
  let ?d = "d\<lparr>rbac_denied := ss_insert p (rbac_denied d)\<rparr>"
  have ok: "rbac_ok ?d" if "p \<notin> set (rbac_granted d)" using assms(2) that by (auto simp: rbac_ok_def)
  show "rbac_ok d'" "d' = d \<or> realm = 0 \<or> rbac_computed st d'"
    using assms ok CalculateNewPermissions_Some [of st "SavePermission p False realm ?d" d']
    by (auto simp: DenyPermission_def Let_def split: if_splits)
qed

lemma Revoke_realm_cases:
  assumes "RevokePermission st p realm d = Some (r, d')" "rbac_ok d"
  shows "rbac_ok d'" and "d' = d \<or> realm = 0 \<or> rbac_computed st d'"
proof -
  let ?d = "d\<lparr>rbac_granted := ss_erase p (rbac_granted d), rbac_denied := ss_erase p (rbac_denied d),
      rbac_saved := rbac_saved d @ [DEL_RBAC_ACCOUNT_PERMISSION p realm]\<rparr>"
  have ok: "rbac_ok (d\<lparr>rbac_granted := ss_erase p (rbac_granted d), rbac_denied := ss_erase p (rbac_denied d)\<rparr>)"
    "rbac_ok ?d" using assms(2) by (auto simp: rbac_ok_def)
  show "rbac_ok d'" "d' = d \<or> realm = 0 \<or> rbac_computed st d'"
    using assms ok CalculateNewPermissions_Some [of st ?d d']
    by (auto simp: RevokePermission_def Let_def split: if_splits)
qed

lemma load_rows_ok: "load_rows st rows d = Some d' \<Longrightarrow> rbac_ok d \<Longrightarrow> rbac_ok d'"
proof (induction st rows d rule: load_rows.induct)
  case (2 st p granted rows d)
  then obtain r d1 where d1: "(if granted then GrantPermission st p 0 d else DenyPermission st p 0 d) = Some (r, d1)"
      "load_rows st rows d1 = Some d'" by (auto simp: bind_eq_Some_conv)
  with "2.prems" have "rbac_ok d1" using Grant_realm_cases(1) Deny_realm_cases(1) by (metis (full_types))
  with "2.IH" [of "(r, d1)" r d1] d1 show ?case by simp
qed simp

lemma LoadFromDB_ok: "LoadFromDB st dflt rows d = Some d' \<Longrightarrow> rbac_ok d' \<and> rbac_computed st d'"
proof -
  have "rbac_ok (ClearData d)" by (simp add: rbac_ok_def ClearData_def)
  then show "LoadFromDB st dflt rows d = Some d' \<Longrightarrow> rbac_ok d' \<and> rbac_computed st d'"
    unfolding LoadFromDB_def LoadFromDBCallback_def bind_eq_Some_conv
    using load_rows_ok CalculateNewPermissions_Some by blast
qed

lemma rbac_step_inv:
  "rbac_step st d d' \<Longrightarrow> rbac_ok d \<Longrightarrow> rbac_computed st d \<Longrightarrow> rbac_ok d' \<and> rbac_computed st d'"
proof (induction rule: rbac_step.induct)
  case grant
  then show ?case using Grant_realm_cases by blast
next
  case deny
  then show ?case using Deny_realm_cases by blast
next
  case revoke
  then show ?case using Revoke_realm_cases by blast
qed (auto simp: SetSecurityLevel_def dest: LoadFromDB_ok)

text \<open>
  C9: After any sequence of grants, denials and revocations for a realm, loads and changes of the security
  level, no permission is both granted and denied, and \<^verbatim>\<open>HasPermission\<close> holds exactly for the known
  permissions reachable over links from a granted one and not reachable from a denied one.
\<close>

theorem HasPermission_granted_minus_denied:
  assumes "(rbac_step st)\<^sup>*\<^sup>* (RBACData_new l) d"
  shows "set (rbac_granted d) \<inter> set (rbac_denied d) = {} \<and>
    (HasPermission p d \<longleftrightarrow> p \<in> closure st (set (rbac_granted d)) \<and> p \<notin> closure st (set (rbac_denied d)))"
proof -
  have "p \<notin> closure st {}" for p using closure_least [of p st "{}" "{}"] by blast
  then have "rbac_ok (RBACData_new l) \<and> rbac_computed st (RBACData_new l)"
    by (simp add: rbac_ok_def rbac_computed_def RBACData_new_def HasPermission_def)
  with assms have "rbac_ok d \<and> rbac_computed st d" by (induction rule: rtranclp_induct) (auto dest: rbac_step_inv)
  then show ?thesis by (simp add: rbac_ok_def rbac_computed_def)
qed

lemma HasPermission_granted_minus_denied_witness:
  "let st = [(1, [2]), (2, [1])];
       d = \<lparr>rbac_secLevel = 0, rbac_granted = [1], rbac_denied = [], rbac_global = [1, 2],
              rbac_saved = [INS_RBAC_ACCOUNT_PERMISSION 1 True 1]\<rparr>
   in set (rbac_granted d) \<inter> set (rbac_denied d) = {} \<and>
      (HasPermission 2 d \<longleftrightarrow> 2 \<in> closure st (set (rbac_granted d)) \<and> 2 \<notin> closure st (set (rbac_denied d)))"
proof -
  let ?st = "[(1, [2]), (2, [1])] :: permission_store"
  let ?d = "\<lparr>rbac_secLevel = 0, rbac_granted = [1], rbac_denied = [], rbac_global = [1, 2],
              rbac_saved = [INS_RBAC_ACCOUNT_PERMISSION 1 True 1]\<rparr>"
  have "GrantPermission ?st 1 1 (RBACData_new 0) = Some (RBAC_OK, ?d)"
    by (simp add: GrantPermission_def RBACData_new_def Let_def SavePermission_def CalculateNewPermissions_def
        ExpandPermissions_def ExpandPermissions_loop.simps check_linked_def RemovePermissions_def)
  then have "rbac_step ?st (RBACData_new 0) ?d" by (rule rbac_step.grant [rotated]) simp
  then have "(rbac_step ?st)\<^sup>*\<^sup>* (RBACData_new 0) ?d" by (rule r_into_rtranclp)
  from HasPermission_granted_minus_denied [OF this] show ?thesis unfolding Let_def .
qed

text \<open>
  C31: The expansion loop ends on every set of permissions, even when the links form cycles, and returns
  exactly the closure.
\<close>

theorem ExpandPermissions_total:
  assumes "ss_ok perms"
  shows "\<exists>r. ExpandPermissions st perms = Some r \<and> ss_ok r \<and> set r = closure st (set perms)"
  using assms ExpandPermissions_closure by metis

lemma ExpandPermissions_total_witness:
  "\<exists>r. ExpandPermissions [(1, [2]), (2, [1, 3]), (3, [])] [1, 9] = Some r \<and> ss_ok r \<and>
     set r = closure [(1, [2]), (2, [1, 3]), (3, [])] {1, 9}"
  using ExpandPermissions_total [of "[1, 9]" "[(1, [2]), (2, [1, 3]), (3, [])]"] by simp

text \<open>
  Revoking a permission that is listed succeeds for every realm and removes it from both lists, so that
  afterwards it can be granted or denied again, whatever list it was in.
\<close>

theorem Revoke_then_free:
  assumes "rbac_ok d" "p \<in> set (rbac_granted d) \<union> set (rbac_denied d)"
  shows "\<exists>d'. RevokePermission st p realm d = Some (RBAC_OK, d') \<and>
     p \<notin> set (rbac_granted d') \<union> set (rbac_denied d') \<and>
     set (rbac_granted d') = set (rbac_granted d) - {p} \<and> set (rbac_denied d') = set (rbac_denied d) - {p}"
proof -
  let ?d = "d\<lparr>rbac_granted := ss_erase p (rbac_granted d), rbac_denied := ss_erase p (rbac_denied d),
      rbac_saved := rbac_saved d @ [DEL_RBAC_ACCOUNT_PERMISSION p realm]\<rparr>"
  have "rbac_ok ?d" using assms(1) by (auto simp: rbac_ok_def)
  from CalculateNewPermissions_closure [OF this, of st] obtain d' where
    "CalculateNewPermissions st ?d = Some d'" "rbac_granted d' = rbac_granted ?d" "rbac_denied d' = rbac_denied ?d"
    by metis
  with assms(2) show ?thesis by (auto simp: RevokePermission_def Let_def)
qed

lemma Revoke_then_free_witness:
  "let d = \<lparr>rbac_secLevel = 0, rbac_granted = [1], rbac_denied = [5], rbac_global = [], rbac_saved = []\<rparr>
   in \<exists>d'. RevokePermission [(1, [2])] 5 (-1) d = Some (RBAC_OK, d') \<and>
     5 \<notin> set (rbac_granted d') \<union> set (rbac_denied d') \<and> set (rbac_granted d') = {1} \<and> set (rbac_denied d') = {}"
  using Revoke_then_free [of "\<lparr>rbac_secLevel = 0, rbac_granted = [1], rbac_denied = [5], rbac_global = [], rbac_saved = []\<rparr>"
      5 "[(1, [2])]" "-1"]
  by (simp add: rbac_ok_def Let_def)

end
