(* ===== verification/SocialMgr.thy ===== *)
theory SocialMgr imports RBAC begin

text \<open>
  Friend and ignore lists, \<^verbatim>\<open>src/src/server/game/Entities/Player/SocialMgr.{h,cpp}\<close>. Guids are numbers in
  the order of \<^verbatim>\<open>ObjectGuid\<close>. The online players are a parameter: \<open>FindPlayer\<close> and the global
  visibility test. Truncation of notes (\<^verbatim>\<open>utf8truncate\<close>) uses the vendored UTF-8 library and is a parameter.
  Database writes are recorded as statements.
\<close>

section \<open>State\<close>

type_synonym guid = nat

definition FRIEND_STATUS_OFFLINE :: u32 where "FRIEND_STATUS_OFFLINE = 0"
definition FRIEND_STATUS_ONLINE :: u32 where "FRIEND_STATUS_ONLINE = 1"
definition FRIEND_STATUS_AFK :: u32 where "FRIEND_STATUS_AFK = 2"
definition FRIEND_STATUS_DND :: u32 where "FRIEND_STATUS_DND = 4"
definition FRIEND_STATUS_RAF :: u32 where "FRIEND_STATUS_RAF = 8"

definition SOCIAL_FLAG_FRIEND :: u8 where "SOCIAL_FLAG_FRIEND = 1"
definition SOCIAL_FLAG_IGNORED :: u8 where "SOCIAL_FLAG_IGNORED = 2"
definition SOCIAL_FLAG_MUTED :: u8 where "SOCIAL_FLAG_MUTED = 4"

lemmas social_flag_defs = SOCIAL_FLAG_FRIEND_def SOCIAL_FLAG_IGNORED_def SOCIAL_FLAG_MUTED_def

definition SOCIALMGR_FRIEND_LIMIT :: nat where "SOCIALMGR_FRIEND_LIMIT = 50"
definition SOCIALMGR_IGNORE_LIMIT :: nat where "SOCIALMGR_IGNORE_LIMIT = 50"

record friend_info =
  fi_WowAccountGuid :: guid
  fi_Status :: u32
  fi_Flags :: u8
  fi_Area :: u32
  fi_Level :: u8
  fi_Class :: u8
  fi_Note :: string

definition FriendInfo :: "guid \<Rightarrow> u8 \<Rightarrow> string \<Rightarrow> friend_info" where
  "FriendInfo accountGuid flags note =
     \<lparr>fi_WowAccountGuid = accountGuid, fi_Status = FRIEND_STATUS_OFFLINE, fi_Flags = flags,
      fi_Area = 0, fi_Level = 0, fi_Class = 0, fi_Note = note\<rparr>"

datatype social_statement =
    UPD_CHARACTER_SOCIAL_FLAGS u8 guid guid
  | INS_CHARACTER_SOCIAL guid guid u8
  | DEL_CHARACTER_SOCIAL guid guid
  | UPD_CHARACTER_SOCIAL_NOTE string guid guid

record player_social =
  so_map :: "(guid, friend_info) omap"
  so_ignoredAccounts :: "guid list"
  so_playerGUID :: guid
  so_saved :: "social_statement list"

definition PlayerSocial_new :: "guid \<Rightarrow> player_social" where
  "PlayerSocial_new g = \<lparr>so_map = [], so_ignoredAccounts = [], so_playerGUID = g, so_saved = []\<rparr>"

section \<open>Contacts\<close>

definition GetNumberOfSocialsWithFlag :: "u8 \<Rightarrow> player_social \<Rightarrow> nat" where
  "GetNumberOfSocialsWithFlag flag s = length (filter (\<lambda>x. fi_Flags (snd x) AND flag \<noteq> 0) (so_map s))"

definition save :: "social_statement \<Rightarrow> player_social \<Rightarrow> player_social" where
  "save stmt s = s\<lparr>so_saved := so_saved s @ [stmt]\<rparr>"

definition AddToSocialList :: "guid \<Rightarrow> guid \<Rightarrow> u8 \<Rightarrow> player_social \<Rightarrow> bool \<times> player_social" where
  "AddToSocialList friendGuid accountGuid flag s =
     (if GetNumberOfSocialsWithFlag flag s \<ge>
           (if flag AND SOCIAL_FLAG_FRIEND \<noteq> 0 then SOCIALMGR_FRIEND_LIMIT else SOCIALMGR_IGNORE_LIMIT)
      then (False, s)
      else let s = (case om_find friendGuid (so_map s) of
                      Some fi \<Rightarrow>
                        let fi = fi\<lparr>fi_WowAccountGuid := accountGuid, fi_Flags := fi_Flags fi OR flag\<rparr>
                        in save (UPD_CHARACTER_SOCIAL_FLAGS (fi_Flags fi) (so_playerGUID s) friendGuid)
                             (s\<lparr>so_map := om_set friendGuid fi (so_map s)\<rparr>)
                    | None \<Rightarrow>
                        save (INS_CHARACTER_SOCIAL (so_playerGUID s) friendGuid flag)
                          (s\<lparr>so_map := om_set friendGuid (FriendInfo accountGuid flag []) (so_map s)\<rparr>))
           in (True, if flag AND SOCIAL_FLAG_IGNORED \<noteq> 0
                     then s\<lparr>so_ignoredAccounts := ss_insert accountGuid (so_ignoredAccounts s)\<rparr> else s))"

definition RemoveFromSocialList :: "guid \<Rightarrow> u8 \<Rightarrow> player_social \<Rightarrow> player_social" where
  "RemoveFromSocialList friendGuid flag s =
     (case om_find friendGuid (so_map s) of
        None \<Rightarrow> s
      | Some fi \<Rightarrow>
          let flags = fi_Flags fi AND NOT flag
          in if flags = 0
             then let accountGuid = fi_WowAccountGuid fi;
                      s = save (DEL_CHARACTER_SOCIAL (so_playerGUID s) friendGuid)
                            (s\<lparr>so_map := om_erase friendGuid (so_map s)\<rparr>)
                  in if flag AND SOCIAL_FLAG_IGNORED \<noteq> 0 \<and>
                        \<not> list_ex (\<lambda>x. fi_Flags (snd x) AND SOCIAL_FLAG_IGNORED \<noteq> 0 \<and>
                                       fi_WowAccountGuid (snd x) = accountGuid) (so_map s)
                     then s\<lparr>so_ignoredAccounts := ss_erase accountGuid (so_ignoredAccounts s)\<rparr>
                     else s
             else save (UPD_CHARACTER_SOCIAL_FLAGS flags (so_playerGUID s) friendGuid)
                    (s\<lparr>so_map := om_set friendGuid (fi\<lparr>fi_Flags := flags\<rparr>) (so_map s)\<rparr>))"

definition SetFriendNote :: "(string \<Rightarrow> nat \<Rightarrow> string) \<Rightarrow> guid \<Rightarrow> string \<Rightarrow> player_social \<Rightarrow> player_social" where
  "SetFriendNote utf8truncate friendGuid note s =
     (case om_find friendGuid (so_map s) of
        None \<Rightarrow> s
      | Some fi \<Rightarrow>
          let fi = fi\<lparr>fi_Note := utf8truncate note 48\<rparr>
          in save (UPD_CHARACTER_SOCIAL_NOTE (fi_Note fi) (so_playerGUID s) friendGuid)
               (s\<lparr>so_map := om_set friendGuid fi (so_map s)\<rparr>))"

definition HasContact :: "guid \<Rightarrow> u8 \<Rightarrow> player_social \<Rightarrow> bool" where
  "HasContact g flags s \<longleftrightarrow>
     (case om_find g (so_map s) of Some fi \<Rightarrow> fi_Flags fi AND flags \<noteq> 0 | None \<Rightarrow> False)"

definition HasFriend :: "guid \<Rightarrow> player_social \<Rightarrow> bool" where
  "HasFriend friendGuid s \<longleftrightarrow> HasContact friendGuid SOCIAL_FLAG_FRIEND s"

definition HasIgnore :: "guid \<Rightarrow> guid \<Rightarrow> player_social \<Rightarrow> bool" where
  "HasIgnore ignoreGuid ignoreAccountGuid s \<longleftrightarrow>
     HasContact ignoreGuid SOCIAL_FLAG_IGNORED s \<or> ignoreAccountGuid \<in> set (so_ignoredAccounts s)"

text \<open>Rows are the friend's guid, account, flags and note.\<close>

definition SocialMgr_LoadFromDB :: "(guid \<times> guid \<times> u8 \<times> string) list \<Rightarrow> guid \<Rightarrow> player_social \<Rightarrow> player_social" where
  "SocialMgr_LoadFromDB result g social =
     fold (\<lambda>(friendGuid, friendAccountGuid, flag, note) s.
             let s = s\<lparr>so_map := om_set friendGuid (FriendInfo friendAccountGuid flag note) (so_map s)\<rparr>
             in if flag AND SOCIAL_FLAG_IGNORED \<noteq> 0
                then s\<lparr>so_ignoredAccounts := ss_insert friendAccountGuid (so_ignoredAccounts s)\<rparr> else s)
       result (social\<lparr>so_playerGUID := g\<rparr>)"

section \<open>What a player sees of a friend\<close>

record player_view =
  pv_guid :: guid
  pv_team :: u32
  pv_rbac :: rbac_data
  pv_security :: nat
  pv_accountId :: u32
  pv_recruiterId :: u32
  pv_isDND :: bool
  pv_isAFK :: bool
  pv_zone :: u32
  pv_level :: u8
  pv_class :: u8

definition RBAC_PERM_WHO_SEE_ALL_SEC_LEVELS :: u32 where "RBAC_PERM_WHO_SEE_ALL_SEC_LEVELS = 35"
definition RBAC_PERM_TWO_SIDE_WHO_LIST :: u32 where "RBAC_PERM_TWO_SIDE_WHO_LIST = 28"

text \<open>
  \<open>gmLevel\<close> is \<^verbatim>\<open>CONFIG_GM_LEVEL_IN_WHO_LIST\<close>, \<open>visible\<close> is \<^verbatim>\<open>target->IsVisibleGloballyFor(player)\<close> and
  \<open>social\<close> the list of the asking player.
\<close>

definition GetFriendInfo ::
  "nat \<Rightarrow> (player_view \<Rightarrow> player_view \<Rightarrow> bool) \<Rightarrow> (guid \<Rightarrow> player_view option) \<Rightarrow> player_view option \<Rightarrow>
   player_social \<Rightarrow> guid \<Rightarrow> friend_info \<Rightarrow> friend_info" where
  "GetFriendInfo gmLevel visible FindPlayer playerOpt social friendGUID friendInfo =
     (case playerOpt of
        None \<Rightarrow> friendInfo
      | Some player \<Rightarrow>
          let fi = friendInfo\<lparr>fi_Status := FRIEND_STATUS_OFFLINE, fi_Area := 0, fi_Level := 0, fi_Class := 0\<rparr>
          in case FindPlayer friendGUID of
               None \<Rightarrow> fi
             | Some target \<Rightarrow>
                 let fi = (case om_find friendGUID (so_map social) of
                             Some e \<Rightarrow> fi\<lparr>fi_Note := fi_Note e\<rparr> | None \<Rightarrow> fi)
                 in if \<not> HasPermission RBAC_PERM_WHO_SEE_ALL_SEC_LEVELS (pv_rbac player) \<and> pv_security target > gmLevel
                    then fi
                    else if pv_team target \<noteq> pv_team player \<and>
                            \<not> HasPermission RBAC_PERM_TWO_SIDE_WHO_LIST (pv_rbac player)
                    then fi
                    else if visible target player
                    then fi\<lparr>fi_Status :=
                              (if pv_isDND target then FRIEND_STATUS_DND
                               else if pv_isAFK target then FRIEND_STATUS_AFK
                               else if pv_recruiterId target = pv_accountId player \<or>
                                       pv_accountId target = pv_recruiterId player
                               then FRIEND_STATUS_ONLINE OR FRIEND_STATUS_RAF
                               else FRIEND_STATUS_ONLINE),
                            fi_Area := pv_zone target, fi_Level := pv_level target, fi_Class := pv_class target\<rparr>
                    else fi)"

fun SendSocialList_loop ::
  "(guid \<Rightarrow> friend_info \<Rightarrow> friend_info) \<Rightarrow> u32 \<Rightarrow> nat \<Rightarrow> nat \<Rightarrow> (guid, friend_info) omap \<Rightarrow>
   (guid, friend_info) omap \<times> (guid \<times> friend_info) list" where
  "SendSocialList_loop info flags friendsCount ignoredCount [] = ([], [])"
| "SendSocialList_loop info flags friendsCount ignoredCount ((g, fi) # m) =
     (let skip = (\<lambda>fc ic. let (m', cs) = SendSocialList_loop info flags fc ic m in ((g, fi) # m', cs));
          contactFlags = fi_Flags fi
      in if (ucast contactFlags :: u32) AND flags = 0 then skip friendsCount ignoredCount
         else let fc = (if contactFlags AND SOCIAL_FLAG_FRIEND \<noteq> 0 then friendsCount + 1 else friendsCount)
              in if contactFlags AND SOCIAL_FLAG_FRIEND \<noteq> 0 \<and> fc > SOCIALMGR_FRIEND_LIMIT then skip fc ignoredCount
                 else let ic = (if contactFlags AND SOCIAL_FLAG_IGNORED \<noteq> 0 then ignoredCount + 1 else ignoredCount)
                      in if contactFlags AND SOCIAL_FLAG_IGNORED \<noteq> 0 \<and> ic > SOCIALMGR_IGNORE_LIMIT then skip fc ic
                         else let fi' = info g fi;
                                  (m', cs) = SendSocialList_loop info flags fc ic m
                              in ((g, fi') # m', (g, fi') # cs))"

definition SendSocialList ::
  "nat \<Rightarrow> (player_view \<Rightarrow> player_view \<Rightarrow> bool) \<Rightarrow> (guid \<Rightarrow> player_view option) \<Rightarrow> player_view \<Rightarrow> u32 \<Rightarrow>
   player_social \<Rightarrow> player_social \<times> (guid \<times> friend_info) list" where
  "SendSocialList gmLevel visible FindPlayer player flags s =
     (let (m, contacts) = SendSocialList_loop (GetFriendInfo gmLevel visible FindPlayer (Some player) s) flags 0 0 (so_map s)
      in (s\<lparr>so_map := m\<rparr>, contacts))"

text \<open>The sessions that get the packet, in the order of the social map.\<close>

definition BroadcastToFriendListers ::
  "nat \<Rightarrow> (player_view \<Rightarrow> player_view \<Rightarrow> bool) \<Rightarrow> (guid \<Rightarrow> player_view option) \<Rightarrow> player_view \<Rightarrow>
   (guid, player_social) omap \<Rightarrow> guid list" where
  "BroadcastToFriendListers gmLevel visible FindPlayer player socialMap =
     map fst (filter (\<lambda>(g, social).
       (case om_find (pv_guid player) (so_map social) of
          None \<Rightarrow> False
        | Some fi \<Rightarrow> fi_Flags fi AND SOCIAL_FLAG_FRIEND \<noteq> 0 \<and>
            (case FindPlayer g of
               None \<Rightarrow> False
             | Some target \<Rightarrow>
                 \<not> (\<not> HasPermission RBAC_PERM_WHO_SEE_ALL_SEC_LEVELS (pv_rbac target) \<and> pv_security player > gmLevel) \<and>
                 \<not> (pv_team target \<noteq> pv_team player \<and> \<not> HasPermission RBAC_PERM_TWO_SIDE_WHO_LIST (pv_rbac target)) \<and>
                 visible player target)))
       socialMap)"

section \<open>Invariants\<close>

text \<open>Accounts do not change: \<open>acct\<close> gives the account of every character.\<close>

inductive so_step :: "(guid \<Rightarrow> guid) \<Rightarrow> player_social \<Rightarrow> player_social \<Rightarrow> bool" for acct where
  add: "flag \<in> {SOCIAL_FLAG_FRIEND, SOCIAL_FLAG_IGNORED} \<Longrightarrow> so_step acct s (snd (AddToSocialList g (acct g) flag s))"
| remove: "so_step acct s (RemoveFromSocialList g flag s)"
| set_note: "so_step acct s (SetFriendNote trunc g n s)"
| send: "so_step acct s (fst (SendSocialList gm vis fnd player flags s))"

definition so_inv :: "(guid \<Rightarrow> guid) \<Rightarrow> player_social \<Rightarrow> bool" where
  "so_inv acct s \<longleftrightarrow> om_ok (so_map s) \<and> ss_ok (so_ignoredAccounts s) \<and>
     (\<forall>g fi. om_find g (so_map s) = Some fi \<longrightarrow> fi_WowAccountGuid fi = acct g \<and>
        (fi_Flags fi AND SOCIAL_FLAG_IGNORED \<noteq> 0 \<longrightarrow> acct g \<in> set (so_ignoredAccounts s)))"

text \<open>At most the limit, or as many as the database held if these are more.\<close>

definition so_limits :: "nat \<Rightarrow> nat \<Rightarrow> player_social \<Rightarrow> bool" where
  "so_limits friends ignored s \<longleftrightarrow> om_ok (so_map s) \<and> GetNumberOfSocialsWithFlag SOCIAL_FLAG_FRIEND s \<le> max SOCIALMGR_FRIEND_LIMIT friends
     \<and> GetNumberOfSocialsWithFlag SOCIAL_FLAG_IGNORED s \<le> max SOCIALMGR_IGNORE_LIMIT ignored"

lemma save_fields [simp]:
  "so_map (save st s) = so_map s" "so_ignoredAccounts (save st s) = so_ignoredAccounts s"
  "so_playerGUID (save st s) = so_playerGUID s"
  by (simp_all add: save_def)

lemma flag_or_ignored:
  "(f OR SOCIAL_FLAG_FRIEND) AND SOCIAL_FLAG_IGNORED = f AND SOCIAL_FLAG_IGNORED"
  "(f OR SOCIAL_FLAG_IGNORED) AND SOCIAL_FLAG_FRIEND = f AND SOCIAL_FLAG_FRIEND"
  "SOCIAL_FLAG_FRIEND AND SOCIAL_FLAG_IGNORED = 0" "SOCIAL_FLAG_IGNORED AND SOCIAL_FLAG_FRIEND = 0"
  by (simp_all add: social_flag_defs bit.conj_disj_distrib2)

lemma flag_nonzero [simp]: "SOCIAL_FLAG_FRIEND \<noteq> 0" "SOCIAL_FLAG_IGNORED \<noteq> 0" 
  by (simp_all add: social_flag_defs)

lemma flag_remove: "(f AND NOT g) AND h \<noteq> 0 \<Longrightarrow> f AND h \<noteq> (0 :: u8)"
  by (metis and.assoc and.commute and_zero_eq)

lemma om_find_erase_iff:
  "om_find j (om_erase k m) = Some v \<longleftrightarrow> j \<noteq> k \<and> om_find j m = Some v"
  by simp

lemma SendSocialList_loop_keys:
  "map fst (fst (SendSocialList_loop info flags fc ic m)) = map fst m"
  by (induction info flags fc ic m rule: SendSocialList_loop.induct) (auto simp: Let_def split_def)

lemma SendSocialList_loop_find:
  assumes "\<And>g fi. fi_Flags (info g fi) = fi_Flags fi \<and> fi_WowAccountGuid (info g fi) = fi_WowAccountGuid fi"
  shows "map_option (\<lambda>fi. (fi_Flags fi, fi_WowAccountGuid fi)) (om_find g (fst (SendSocialList_loop info flags fc ic m))) =
    map_option (\<lambda>fi. (fi_Flags fi, fi_WowAccountGuid fi)) (om_find g m)"
  using assms
  by (induction info flags fc ic m rule: SendSocialList_loop.induct) (auto simp: Let_def split_def)

lemma GetFriendInfo_keeps:
  "fi_Flags (GetFriendInfo gm vis fnd p s g fi) = fi_Flags fi
   \<and> fi_WowAccountGuid (GetFriendInfo gm vis fnd p s g fi) = fi_WowAccountGuid fi"
  by (auto simp: GetFriendInfo_def Let_def split: option.splits)

lemma om_ok_keys: "map fst m = map fst n \<Longrightarrow> om_ok m = om_ok n"
  by (simp add: om_ok_def)

lemma SendSocialList_view:
  "om_ok (so_map (fst (SendSocialList gm vis fnd p flags s))) = om_ok (so_map s)"
  "so_ignoredAccounts (fst (SendSocialList gm vis fnd p flags s)) = so_ignoredAccounts s"
  "map_option (\<lambda>fi. (fi_Flags fi, fi_WowAccountGuid fi)) (om_find g (so_map (fst (SendSocialList gm vis fnd p flags s)))) =
    map_option (\<lambda>fi. (fi_Flags fi, fi_WowAccountGuid fi)) (om_find g (so_map s))"
  unfolding SendSocialList_def
  by (auto simp: split_def Let_def GetFriendInfo_keeps intro!: om_ok_keys SendSocialList_loop_keys SendSocialList_loop_find)

lemma so_step_inv: "so_step acct s s' \<Longrightarrow> so_inv acct s \<Longrightarrow> so_inv acct s'"
proof (induction rule: so_step.induct)
  case (add flag s g)
  then show ?case
    by (auto simp: so_inv_def AddToSocialList_def Let_def FriendInfo_def flag_or_ignored split: option.splits if_splits)
next
  case (remove s g flag)
  show ?case
  proof (cases "om_find g (so_map s)")
    case None
    with remove show ?thesis by (simp add: RemoveFromSocialList_def)
  next
    case (Some fi)
    have m: "om_ok (so_map s)" using remove by (simp add: so_inv_def)
    have ex: "list_ex (\<lambda>x. fi_Flags (snd x) AND SOCIAL_FLAG_IGNORED \<noteq> 0 \<and> fi_WowAccountGuid (snd x) = fi_WowAccountGuid fi)
        (om_erase g (so_map s))"
      if "j \<noteq> g" "om_find j (so_map s) = Some e" "fi_Flags e AND SOCIAL_FLAG_IGNORED \<noteq> 0" "acct j = acct g" for j e
    proof -
      have "(j, e) \<in> set (om_erase g (so_map s))" using that om_find_in_set [of j "om_erase g (so_map s)" e] by simp
      moreover have "fi_WowAccountGuid e = fi_WowAccountGuid fi"
        using that Some remove by (auto simp: so_inv_def)
      ultimately show ?thesis using that by (auto simp: list_ex_iff intro!: bexI [of _ "(j, e)"])
    qed
    from Some remove m ex show ?thesis
      by (auto simp: so_inv_def RemoveFromSocialList_def Let_def dest: flag_remove)
  qed
next
  case (set_note s trunc g n)
  then show ?case by (auto simp: so_inv_def SetFriendNote_def Let_def split: option.splits)
next
  case (send s gm vis fnd player flags)
  let ?t = "fst (SendSocialList gm vis fnd player flags s)"
  have "fi_WowAccountGuid fi = acct g \<and> (fi_Flags fi AND SOCIAL_FLAG_IGNORED \<noteq> 0 \<longrightarrow> acct g \<in> set (so_ignoredAccounts s))"
    if "om_find g (so_map ?t) = Some fi" for g fi
    using SendSocialList_view(3) [of g gm vis fnd player flags s] that send
    by (cases "om_find g (so_map s)") (auto simp: so_inv_def)
  with send show ?case by (simp add: so_inv_def SendSocialList_view)
qed

text \<open>
  Whoever is ignored through one character is ignored with the whole account: in every reachable list, if a
  contact carries the ignore flag then \<^verbatim>\<open>HasIgnore\<close> holds for each character of that contact's account.
\<close>

theorem ignored_account_covers_alts:
  assumes "(so_step acct)\<^sup>*\<^sup>* (PlayerSocial_new me) s" "HasContact g SOCIAL_FLAG_IGNORED s" "acct alt = acct g"
  shows "HasIgnore alt (acct alt) s"
proof -
  have "so_inv acct (PlayerSocial_new me)" by (simp add: so_inv_def PlayerSocial_new_def)
  with assms(1) have "so_inv acct s" by (induction rule: rtranclp_induct) (auto dest: so_step_inv)
  with assms(2,3) show ?thesis by (auto simp: HasContact_def HasIgnore_def so_inv_def split: option.splits)
qed

lemma ignored_account_covers_alts_witness:
  "HasIgnore 12 (12 div 10) (snd (AddToSocialList 11 (11 div 10) SOCIAL_FLAG_IGNORED (PlayerSocial_new 5)))"
proof (rule ignored_account_covers_alts [where acct = "\<lambda>g. g div 10" and g = 11])
  show "(so_step (\<lambda>g. g div 10))\<^sup>*\<^sup>* (PlayerSocial_new 5)
      (snd (AddToSocialList 11 (11 div 10) SOCIAL_FLAG_IGNORED (PlayerSocial_new 5)))"
    by (rule r_into_rtranclp) (rule so_step.add, simp)
qed (simp_all add: HasContact_def AddToSocialList_def GetNumberOfSocialsWithFlag_def PlayerSocial_new_def
    SOCIALMGR_IGNORE_LIMIT_def SOCIALMGR_FRIEND_LIMIT_def FriendInfo_def save_def)

text \<open>
  Taking somebody off the ignore list who stays on the friend list does not lift the account-wide ignore:
  \<^verbatim>\<open>RemoveFromSocialList\<close> forgets the account only when the whole contact is erased, so \<^verbatim>\<open>HasIgnore\<close> keeps holding.
\<close>

theorem RemoveFromSocialList_keeps_ignore:
  assumes "om_find g (so_map s) = Some fi" "fi_Flags fi = SOCIAL_FLAG_FRIEND OR SOCIAL_FLAG_IGNORED"
    "a \<in> set (so_ignoredAccounts s)"
  shows "let s' = RemoveFromSocialList g SOCIAL_FLAG_IGNORED s
         in HasFriend g s' \<and> \<not> HasContact g SOCIAL_FLAG_IGNORED s' \<and> HasIgnore g a s' \<and>
            HasIgnore g a (RemoveFromSocialList g SOCIAL_FLAG_FRIEND s')"
  using assms by (simp add: RemoveFromSocialList_def HasFriend_def HasIgnore_def HasContact_def Let_def social_flag_defs)

lemma RemoveFromSocialList_keeps_ignore_witness:
  "let s = snd (AddToSocialList 11 1 SOCIAL_FLAG_FRIEND (snd (AddToSocialList 11 1 SOCIAL_FLAG_IGNORED (PlayerSocial_new 5))));
       s' = RemoveFromSocialList 11 SOCIAL_FLAG_IGNORED s
   in HasFriend 11 s' \<and> \<not> HasContact 11 SOCIAL_FLAG_IGNORED s' \<and> HasIgnore 11 1 s' \<and>
      HasIgnore 11 1 (RemoveFromSocialList 11 SOCIAL_FLAG_FRIEND s')"
  unfolding Let_def [of "snd (AddToSocialList 11 1 SOCIAL_FLAG_FRIEND (snd (AddToSocialList 11 1 SOCIAL_FLAG_IGNORED (PlayerSocial_new 5))))"]
  by (rule RemoveFromSocialList_keeps_ignore [where fi = "FriendInfo 1 (SOCIAL_FLAG_FRIEND OR SOCIAL_FLAG_IGNORED) []"])
     (simp_all add: AddToSocialList_def GetNumberOfSocialsWithFlag_def PlayerSocial_new_def
       SOCIALMGR_IGNORE_LIMIT_def SOCIALMGR_FRIEND_LIMIT_def FriendInfo_def save_def social_flag_defs Let_def)

section \<open>Limits\<close>

lemma count_om_set:
  assumes "om_ok m"
  shows "length (filter (\<lambda>x. P (snd x)) (om_set k v m)) + (case om_find k m of Some w \<Rightarrow> if P w then 1 else 0 | None \<Rightarrow> 0) =
    length (filter (\<lambda>x. P (snd x)) m) + (if P v then 1 else 0)"
  using assms
proof (induction m)
  case (Cons x m)
  obtain a b where x: "x = (a, b)" by (cases x)
  have "k < a \<Longrightarrow> om_find k m = None" using Cons.prems x by (fastforce simp: om_find_None_iff)
  with Cons x show ?case by (auto split: option.splits)
qed simp

lemma count_om_set_le:
  assumes "om_ok m"
  shows "length (filter (\<lambda>x. P (snd x)) (om_set k v m)) \<le> Suc (length (filter (\<lambda>x. P (snd x)) m))"
    and "\<not> P v \<Longrightarrow> length (filter (\<lambda>x. P (snd x)) (om_set k v m)) \<le> length (filter (\<lambda>x. P (snd x)) m)"
    and "om_find k m = Some w \<Longrightarrow> (P v \<Longrightarrow> P w) \<Longrightarrow>
      length (filter (\<lambda>x. P (snd x)) (om_set k v m)) \<le> length (filter (\<lambda>x. P (snd x)) m)"
  using count_om_set [OF assms, of P k v] by (auto split: option.splits if_splits)

lemma AddToSocialList_count:
  assumes "om_ok (so_map s)" "flag \<in> {SOCIAL_FLAG_FRIEND, SOCIAL_FLAG_IGNORED}" "f \<in> {SOCIAL_FLAG_FRIEND, SOCIAL_FLAG_IGNORED}"
  shows "GetNumberOfSocialsWithFlag f (snd (AddToSocialList g a flag s)) \<le>
    (if f = flag \<and> GetNumberOfSocialsWithFlag f s < 50 then Suc (GetNumberOfSocialsWithFlag f s) else GetNumberOfSocialsWithFlag f s)"
proof -
  define n where "n m = length (filter (\<lambda>x. fi_Flags (snd x) AND f \<noteq> 0) m)" for m :: "(guid, friend_info) omap"
  note c = count_om_set_le [OF assms(1), where P = "\<lambda>fi. fi_Flags fi AND f \<noteq> 0" and k = g, folded n_def]
  have "f \<noteq> flag \<Longrightarrow> n (om_set g (fi\<lparr>fi_WowAccountGuid := a, fi_Flags := fi_Flags fi OR flag\<rparr>) (so_map s)) \<le> n (so_map s)"
    if "om_find g (so_map s) = Some fi" for fi
    using assms(2,3) by (intro c(3) [OF that]) (auto simp: flag_or_ignored)
  moreover have "f \<noteq> flag \<Longrightarrow> n (om_set g (FriendInfo a flag []) (so_map s)) \<le> n (so_map s)"
    using assms(2,3) by (intro c(2)) (auto simp: flag_or_ignored FriendInfo_def)
  moreover have lim: "(if x then SOCIALMGR_FRIEND_LIMIT else SOCIALMGR_IGNORE_LIMIT) = 50" for x
    by (simp add: SOCIALMGR_FRIEND_LIMIT_def SOCIALMGR_IGNORE_LIMIT_def)
  moreover have "GetNumberOfSocialsWithFlag f t = n (so_map t)" for t
    by (simp add: GetNumberOfSocialsWithFlag_def n_def)
  ultimately show ?thesis using c(1)
    by (cases "f = flag") (auto simp: AddToSocialList_def Let_def split: option.splits if_splits)
qed

lemma AddToSocialList_om_ok: "om_ok (so_map s) \<Longrightarrow> om_ok (so_map (snd (AddToSocialList g a flag s)))"
  by (auto simp: AddToSocialList_def Let_def split: option.splits)

lemma count_om_erase: "length (filter P (om_erase k m)) \<le> length (filter P m)"
  by (induction m) (auto simp: om_erase_def)

lemma SendSocialList_loop_count:
  assumes "\<And>g fi. fi_Flags (info g fi) = fi_Flags fi"
  shows "length (filter (\<lambda>x. fi_Flags (snd x) AND f \<noteq> 0) (fst (SendSocialList_loop info flags fc ic m))) =
    length (filter (\<lambda>x. fi_Flags (snd x) AND f \<noteq> 0) m)"
  using assms
  by (induction info flags fc ic m rule: SendSocialList_loop.induct) (auto simp: Let_def split_def)

lemma so_step_limits:
  "so_step acct s s' \<Longrightarrow> so_limits m n s \<Longrightarrow> so_limits m n s'"
proof (induction rule: so_step.induct)
  case (add flag s g)
  have m: "om_ok (so_map s)" using add by (simp add: so_limits_def)
  show ?case
    using add AddToSocialList_om_ok [OF m] AddToSocialList_count [OF m add(1), of SOCIAL_FLAG_FRIEND g "acct g"]
      AddToSocialList_count [OF m add(1), of SOCIAL_FLAG_IGNORED g "acct g"]
    unfolding so_limits_def SOCIALMGR_FRIEND_LIMIT_def SOCIALMGR_IGNORE_LIMIT_def by (auto split: if_splits simp: le_max_iff_disj)
next
  case (remove s g flag)
  have m: "om_ok (so_map s)" using remove by (simp add: so_limits_def)
  have c: "length (filter (\<lambda>x. fi_Flags (snd x) AND f \<noteq> 0) (om_set g (fi\<lparr>fi_Flags := fi_Flags fi AND NOT flag\<rparr>) (so_map s)))
      \<le> length (filter (\<lambda>x. fi_Flags (snd x) AND f \<noteq> 0) (so_map s))" if "om_find g (so_map s) = Some fi" for f fi
    using count_om_set [OF m, of "\<lambda>fi. fi_Flags fi AND f \<noteq> 0" g "fi\<lparr>fi_Flags := fi_Flags fi AND NOT flag\<rparr>"] that
    by (auto split: if_splits dest: flag_remove)
  note e = count_om_erase [where k = g and m = "so_map s"]
  show ?case using remove m
    by (auto simp: so_limits_def RemoveFromSocialList_def GetNumberOfSocialsWithFlag_def Let_def
        intro: order_trans [OF c] order_trans [OF e] split: option.splits)
next
  case (set_note s trunc g n)
  have m: "om_ok (so_map s)" using set_note by (simp add: so_limits_def)
  have c: "length (filter (\<lambda>x. fi_Flags (snd x) AND f \<noteq> 0) (om_set g (fi\<lparr>fi_Note := t\<rparr>) (so_map s)))
      = length (filter (\<lambda>x. fi_Flags (snd x) AND f \<noteq> 0) (so_map s))" if "om_find g (so_map s) = Some fi" for f fi t
    using count_om_set [OF m, of "\<lambda>fi. fi_Flags fi AND f \<noteq> 0" g "fi\<lparr>fi_Note := t\<rparr>"] that by (auto split: if_splits)
  with set_note show ?case
    by (auto simp: so_limits_def SetFriendNote_def GetNumberOfSocialsWithFlag_def Let_def split: option.splits)
next
  case (send s gm vis fnd player flags)
  then show ?case
    by (simp add: so_limits_def SendSocialList_view GetNumberOfSocialsWithFlag_def)
       (simp add: SendSocialList_def split_def Let_def SendSocialList_loop_count GetFriendInfo_keeps)
qed

text \<open>What the database gives counts at most once for each row.\<close>

definition rows_with :: "u8 \<Rightarrow> (guid \<times> guid \<times> u8 \<times> string) list \<Rightarrow> nat" where
  "rows_with f rows = length (filter (\<lambda>(g, a, flag, note). flag AND f \<noteq> 0) rows)"

lemma load_count:
  assumes "om_ok (so_map s)"
  shows "om_ok (so_map (SocialMgr_LoadFromDB rows me s)) \<and>
    GetNumberOfSocialsWithFlag f (SocialMgr_LoadFromDB rows me s) \<le> GetNumberOfSocialsWithFlag f s + rows_with f rows"
proof -
  define load :: "guid \<times> guid \<times> u8 \<times> string \<Rightarrow> player_social \<Rightarrow> player_social" where "load = (\<lambda>(friendGuid, friendAccountGuid, flag, note) s.
    let s = s\<lparr>so_map := om_set friendGuid (FriendInfo friendAccountGuid flag note) (so_map s)\<rparr>
    in if flag AND SOCIAL_FLAG_IGNORED \<noteq> 0 then s\<lparr>so_ignoredAccounts := ss_insert friendAccountGuid (so_ignoredAccounts s)\<rparr> else s)"
  have one: "om_ok (so_map (load r s))" "GetNumberOfSocialsWithFlag f (load r s) \<le> GetNumberOfSocialsWithFlag f s + rows_with f [r]"
    if "om_ok (so_map s)" for r s
    using count_om_set_le(1,2) [OF that, of "\<lambda>fi. fi_Flags fi AND f \<noteq> 0"] that
    by (auto simp: load_def Let_def GetNumberOfSocialsWithFlag_def rows_with_def FriendInfo_def split: prod.split option.splits)
  have "om_ok (so_map (fold load rows s)) \<and> GetNumberOfSocialsWithFlag f (fold load rows s) \<le> GetNumberOfSocialsWithFlag f s + rows_with f rows"
    if "om_ok (so_map s)" for s
    using that
  proof (induction rows arbitrary: s)
    case (Cons r rows)
    have "rows_with f (r # rows) = rows_with f [r] + rows_with f rows" by (simp add: rows_with_def split: prod.split)
    with Cons.IH [OF one(1) [OF Cons.prems, of r]] one(2) [OF Cons.prems, of r] show ?case by simp
  qed (simp add: rows_with_def)
  from this [of "s\<lparr>so_playerGUID := me\<rparr>"] assms show ?thesis
    by (simp add: SocialMgr_LoadFromDB_def load_def GetNumberOfSocialsWithFlag_def)
qed

text \<open>
  C29: A session starts with the list that the database holds, which is loaded without a check. However contacts are then added, removed,
  annotated and sent, the list never holds more than fifty friends, or as many as the rows that were loaded as friends if these are
  more, and the same for ignored characters: no addition takes a list beyond its limit.
\<close>

theorem social_limits:
  assumes "(so_step acct)\<^sup>*\<^sup>* (SocialMgr_LoadFromDB rows me (PlayerSocial_new me)) s"
  shows "GetNumberOfSocialsWithFlag SOCIAL_FLAG_FRIEND s \<le> max SOCIALMGR_FRIEND_LIMIT (rows_with SOCIAL_FLAG_FRIEND rows)
     \<and> GetNumberOfSocialsWithFlag SOCIAL_FLAG_IGNORED s \<le> max SOCIALMGR_IGNORE_LIMIT (rows_with SOCIAL_FLAG_IGNORED rows)"
proof -
  have "om_ok (so_map (PlayerSocial_new me))" "GetNumberOfSocialsWithFlag f (PlayerSocial_new me) = 0" for f
    by (simp_all add: PlayerSocial_new_def GetNumberOfSocialsWithFlag_def)
  then have "so_limits (rows_with SOCIAL_FLAG_FRIEND rows) (rows_with SOCIAL_FLAG_IGNORED rows) (SocialMgr_LoadFromDB rows me (PlayerSocial_new me))"
    using load_count [of "PlayerSocial_new me" rows me] by (simp add: so_limits_def le_max_iff_disj)
  with assms have "so_limits (rows_with SOCIAL_FLAG_FRIEND rows) (rows_with SOCIAL_FLAG_IGNORED rows) s"
    by (induction rule: rtranclp_induct) (auto dest: so_step_limits)
  then show ?thesis by (simp add: so_limits_def)
qed

lemma social_limits_witness:
  "let s = snd (AddToSocialList 11 1 SOCIAL_FLAG_FRIEND (SocialMgr_LoadFromDB [(12, 1, SOCIAL_FLAG_IGNORED, [])] 5 (PlayerSocial_new 5)))
   in GetNumberOfSocialsWithFlag SOCIAL_FLAG_FRIEND s \<le> 50 \<and> GetNumberOfSocialsWithFlag SOCIAL_FLAG_IGNORED s \<le> 50"
proof -
  let ?s = "SocialMgr_LoadFromDB [(12, 1, SOCIAL_FLAG_IGNORED, [])] 5 (PlayerSocial_new 5)"
  have "(so_step (\<lambda>_. 1))\<^sup>*\<^sup>* ?s (snd (AddToSocialList 11 1 SOCIAL_FLAG_FRIEND ?s))"
    by (rule r_into_rtranclp) (rule so_step.add, simp)
  from social_limits [OF this] show ?thesis
    by (simp add: Let_def rows_with_def flag_or_ignored SOCIALMGR_FRIEND_LIMIT_def SOCIALMGR_IGNORE_LIMIT_def)
qed

end
