(* ===== verification/Channel.thy ===== *)
theory Channel imports SocialMgr begin

text \<open>
  One chat channel, \<^verbatim>\<open>src/src/server/game/Chat/Channels/Channel.{h,cpp}\<close>, with the packets of
  \<^verbatim>\<open>ChannelAppenders.h\<close>. The state is the channel itself together with what its operations write outside of
  it: the list of joined channels of every player (\<^verbatim>\<open>Player::m_channels\<close>) and the packets sent, in order, with
  their receivers. The name inside a packet depends on the receiver's locale only and is left out.

  The online players are a parameter, the map behind \<^verbatim>\<open>ObjectAccessor::FindConnectedPlayer\<close>; permissions and
  ignore lists are those of the theories RBAC and SocialMgr. An operation that writes through a reference to an
  erased map node has no result (\<open>None\<close>).
\<close>

section \<open>Data\<close>

definition CHANNEL_FLAG_CUSTOM :: u8 where "CHANNEL_FLAG_CUSTOM = 0x01"
definition CHANNEL_FLAG_TRADE :: u8 where "CHANNEL_FLAG_TRADE = 0x04"
definition CHANNEL_FLAG_NOT_LFG :: u8 where "CHANNEL_FLAG_NOT_LFG = 0x08"
definition CHANNEL_FLAG_GENERAL :: u8 where "CHANNEL_FLAG_GENERAL = 0x10"
definition CHANNEL_FLAG_CITY :: u8 where "CHANNEL_FLAG_CITY = 0x20"
definition CHANNEL_FLAG_LFG :: u8 where "CHANNEL_FLAG_LFG = 0x40"

definition MEMBER_FLAG_NONE :: u8 where "MEMBER_FLAG_NONE = 0x00"
definition MEMBER_FLAG_OWNER :: u8 where "MEMBER_FLAG_OWNER = 0x01"
definition MEMBER_FLAG_MODERATOR :: u8 where "MEMBER_FLAG_MODERATOR = 0x02"
definition MEMBER_FLAG_MUTED :: u8 where "MEMBER_FLAG_MUTED = 0x08"

lemmas member_flag_defs =
  MEMBER_FLAG_NONE_def MEMBER_FLAG_OWNER_def MEMBER_FLAG_MODERATOR_def MEMBER_FLAG_MUTED_def

definition RBAC_PERM_TWO_SIDE_INTERACTION_CHANNEL :: u32 where "RBAC_PERM_TWO_SIDE_INTERACTION_CHANNEL = 26"
definition RBAC_PERM_SILENTLY_JOIN_CHANNEL :: u32 where "RBAC_PERM_SILENTLY_JOIN_CHANNEL = 45"
definition RBAC_PERM_CHANGE_CHANNEL_NOT_MODERATOR :: u32 where "RBAC_PERM_CHANGE_CHANNEL_NOT_MODERATOR = 46"

record player_info =
  pi_flags :: u8
  pi_invisible :: bool

definition PlayerInfo_new :: player_info where
  "PlayerInfo_new = \<lparr>pi_flags = MEMBER_FLAG_NONE, pi_invisible = False\<rparr>"

definition PlayerInfo_HasFlag :: "player_info \<Rightarrow> u8 \<Rightarrow> bool" where
  "PlayerInfo_HasFlag i flag \<longleftrightarrow> pi_flags i AND flag \<noteq> 0"

definition PlayerInfo_SetFlag :: "u8 \<Rightarrow> player_info \<Rightarrow> player_info" where
  "PlayerInfo_SetFlag flag i = i\<lparr>pi_flags := pi_flags i OR flag\<rparr>"

definition PlayerInfo_RemoveFlag :: "u8 \<Rightarrow> player_info \<Rightarrow> player_info" where
  "PlayerInfo_RemoveFlag flag i = i\<lparr>pi_flags := pi_flags i AND NOT flag\<rparr>"

definition IsOwner :: "player_info \<Rightarrow> bool" where
  "IsOwner i \<longleftrightarrow> PlayerInfo_HasFlag i MEMBER_FLAG_OWNER"

definition PlayerInfo_SetOwner :: "bool \<Rightarrow> player_info \<Rightarrow> player_info" where
  "PlayerInfo_SetOwner st = (if st then PlayerInfo_SetFlag MEMBER_FLAG_OWNER else PlayerInfo_RemoveFlag MEMBER_FLAG_OWNER)"

definition IsModerator :: "player_info \<Rightarrow> bool" where
  "IsModerator i \<longleftrightarrow> PlayerInfo_HasFlag i MEMBER_FLAG_MODERATOR"

definition PlayerInfo_SetModerator :: "bool \<Rightarrow> player_info \<Rightarrow> player_info" where
  "PlayerInfo_SetModerator st =
     (if st then PlayerInfo_SetFlag MEMBER_FLAG_MODERATOR else PlayerInfo_RemoveFlag MEMBER_FLAG_MODERATOR)"

definition IsMuted :: "player_info \<Rightarrow> bool" where
  "IsMuted i \<longleftrightarrow> PlayerInfo_HasFlag i MEMBER_FLAG_MUTED"

definition PlayerInfo_SetMuted :: "bool \<Rightarrow> player_info \<Rightarrow> player_info" where
  "PlayerInfo_SetMuted st =
     (if st then PlayerInfo_SetFlag MEMBER_FLAG_MUTED else PlayerInfo_RemoveFlag MEMBER_FLAG_MUTED)"

lemmas player_info_defs = PlayerInfo_new_def PlayerInfo_HasFlag_def PlayerInfo_SetFlag_def PlayerInfo_RemoveFlag_def
  IsOwner_def PlayerInfo_SetOwner_def IsModerator_def PlayerInfo_SetModerator_def IsMuted_def PlayerInfo_SetMuted_def

record channel =
  isDirty :: bool
  nextActivityUpdateTime :: int
  announceEnabled :: bool
  ownershipEnabled :: bool
  isOwnerInvisible :: bool
  channelFlags :: u8
  channelId :: u32
  channelTeam :: u32
  channelGuid :: guid
  ownerGuid :: guid
  channelName :: string
  channelPassword :: string
  playersStore :: "(guid, player_info) omap"
  bannedStore :: "guid list"
  zoneEntry :: "nat option"

section \<open>Packets\<close>

text \<open>The modifiers of a channel notification, and the notification they produce.\<close>

datatype appender =
    JoinedAppend guid | LeftAppend guid | YouJoinedAppend u32 | YouLeftAppend u32
  | WrongPasswordAppend | NotMemberAppend | NotModeratorAppend
  | PasswordChangedAppend guid | OwnerChangedAppend guid | PlayerNotFoundAppend string | NotOwnerAppend
  | ChannelOwnerAppend bool guid "string option" | ModeChangeAppend guid u8 u8
  | AnnouncementsOnAppend guid | AnnouncementsOffAppend guid | MutedAppend
  | PlayerKickedAppend guid guid | BannedAppend | PlayerBannedAppend guid guid | PlayerUnbannedAppend guid guid
  | PlayerNotBannedAppend string | PlayerAlreadyMemberAppend guid | InviteAppend guid | InviteWrongFactionAppend
  | WrongFactionAppend | InvalidNameAppend | NotModeratedAppend | PlayerInvitedAppend string
  | PlayerInviteBannedAppend string | ThrottledAppend | NotInAreaAppend | NotInLFGAppend
  | VoiceOnAppend guid bool | VoiceOffAppend guid

record channel_notify =
  cn_Type :: u8
  cn_SenderGuid :: guid
  cn_TargetGuid :: guid
  cn_Sender :: string
  cn_OldFlags :: u8
  cn_NewFlags :: u8
  cn_ChatChannelID :: u32

definition notify_of_type :: "u8 \<Rightarrow> channel_notify" where
  "notify_of_type t = \<lparr>cn_Type = t, cn_SenderGuid = 0, cn_TargetGuid = 0, cn_Sender = [], cn_OldFlags = 0,
     cn_NewFlags = 0, cn_ChatChannelID = 0\<rparr>"

fun Append :: "appender \<Rightarrow> channel_notify" where
  "Append (JoinedAppend g) = (notify_of_type 0x00)\<lparr>cn_SenderGuid := g\<rparr>"
| "Append (LeftAppend g) = (notify_of_type 0x01)\<lparr>cn_SenderGuid := g\<rparr>"
| "Append (YouJoinedAppend c) = (notify_of_type 0x02)\<lparr>cn_ChatChannelID := c\<rparr>"
| "Append (YouLeftAppend c) = (notify_of_type 0x03)\<lparr>cn_ChatChannelID := c\<rparr>"
| "Append WrongPasswordAppend = notify_of_type 0x04"
| "Append NotMemberAppend = notify_of_type 0x05"
| "Append NotModeratorAppend = notify_of_type 0x06"
| "Append (PasswordChangedAppend g) = (notify_of_type 0x07)\<lparr>cn_SenderGuid := g\<rparr>"
| "Append (OwnerChangedAppend g) = (notify_of_type 0x08)\<lparr>cn_SenderGuid := g\<rparr>"
| "Append (PlayerNotFoundAppend n) = (notify_of_type 0x09)\<lparr>cn_Sender := n\<rparr>"
| "Append NotOwnerAppend = notify_of_type 0x0A"
| "Append (ChannelOwnerAppend isConstant owner ownerName) =
     (notify_of_type 0x0B)\<lparr>cn_Sender := (if isConstant \<or> owner = 0 then ''Nobody''
        else case ownerName of Some n \<Rightarrow> n | None \<Rightarrow> [])\<rparr>"
| "Append (ModeChangeAppend g old new) =
     (notify_of_type 0x0C)\<lparr>cn_SenderGuid := g, cn_OldFlags := old, cn_NewFlags := new\<rparr>"
| "Append (AnnouncementsOnAppend g) = (notify_of_type 0x0D)\<lparr>cn_SenderGuid := g\<rparr>"
| "Append (AnnouncementsOffAppend g) = (notify_of_type 0x0E)\<lparr>cn_SenderGuid := g\<rparr>"
| "Append MutedAppend = notify_of_type 0x11"
| "Append (PlayerKickedAppend kicker kickee) =
     (notify_of_type 0x12)\<lparr>cn_SenderGuid := kicker, cn_TargetGuid := kickee\<rparr>"
| "Append BannedAppend = notify_of_type 0x13"
| "Append (PlayerBannedAppend moderator banned) =
     (notify_of_type 0x14)\<lparr>cn_SenderGuid := moderator, cn_TargetGuid := banned\<rparr>"
| "Append (PlayerUnbannedAppend moderator unbanned) =
     (notify_of_type 0x15)\<lparr>cn_SenderGuid := moderator, cn_TargetGuid := unbanned\<rparr>"
| "Append (PlayerNotBannedAppend n) = (notify_of_type 0x16)\<lparr>cn_Sender := n\<rparr>"
| "Append (PlayerAlreadyMemberAppend g) = (notify_of_type 0x17)\<lparr>cn_SenderGuid := g\<rparr>"
| "Append (InviteAppend g) = (notify_of_type 0x18)\<lparr>cn_SenderGuid := g\<rparr>"
| "Append InviteWrongFactionAppend = notify_of_type 0x19"
| "Append WrongFactionAppend = notify_of_type 0x1A"
| "Append InvalidNameAppend = notify_of_type 0x1B"
| "Append NotModeratedAppend = notify_of_type 0x1C"
| "Append (PlayerInvitedAppend n) = (notify_of_type 0x1D)\<lparr>cn_Sender := n\<rparr>"
| "Append (PlayerInviteBannedAppend n) = (notify_of_type 0x1E)\<lparr>cn_Sender := n\<rparr>"
| "Append ThrottledAppend = notify_of_type 0x1F"
| "Append NotInAreaAppend = notify_of_type 0x20"
| "Append NotInLFGAppend = notify_of_type 0x21"
| "Append (VoiceOnAppend g announce) = (notify_of_type (if announce then 0x22 else 0x24))\<lparr>cn_SenderGuid := g\<rparr>"
| "Append (VoiceOffAppend g) = (notify_of_type 0x23)\<lparr>cn_SenderGuid := g\<rparr>"

datatype channel_packet =
    Notify channel_notify
  | ChannelNotifyJoined u8 u8 \<comment> \<open>channel flags, user flags\<close>
  | ChannelNotifyLeft bool \<comment> \<open>suspended\<close>
  | UserlistAdd guid u8 u8
  | UserlistUpdate guid u8 u8
  | UserlistRemove guid u8
  | ChatMessage guid nat string
  | AddonMessage guid nat string string
  | ChannelListResponse u8 "(guid \<times> u8) list"

section \<open>Players and the state\<close>

record chat_player =
  cp_guid :: guid
  cp_name :: string
  cp_team :: u32
  cp_rbac :: rbac_data
  cp_security :: nat
  cp_isGMVisible :: bool
  cp_accountGuid :: guid
  cp_hasGroup :: bool
  cp_social :: player_social
  cp_addons :: "string list"

record chat_env =
  online :: "(guid, chat_player) omap"
  restrictedLfg :: bool
  twoSideChannels :: bool
  gmLevelInWhoList :: nat
  visibleFor :: "chat_player \<Rightarrow> chat_player \<Rightarrow> bool"
  characterName :: "guid \<Rightarrow> string option"

record chat = channel +
  m_channels :: "guid \<Rightarrow> guid list"
  sent :: "(guid \<times> channel_packet) list"

definition FindConnectedPlayer :: "chat_env \<Rightarrow> guid \<Rightarrow> chat_player option" where
  "FindConnectedPlayer E g = om_find g (online E)"

text \<open>The names of online players are unique; the handlers have normalised \<open>name\<close> before.\<close>

definition FindConnectedPlayerByName :: "chat_env \<Rightarrow> string \<Rightarrow> chat_player option" where
  "FindConnectedPlayerByName E name = map_option snd (List.find (\<lambda>(g, p). cp_name p = name) (online E))"

definition may :: "chat_player \<Rightarrow> u32 \<Rightarrow> bool" where
  "may p permission \<longleftrightarrow> HasPermission permission (cp_rbac p)"

definition IsConstant :: "'a channel_scheme \<Rightarrow> bool" where
  "IsConstant s \<longleftrightarrow> channelId s \<noteq> 0"

definition Channel_HasFlag :: "u8 \<Rightarrow> 'a channel_scheme \<Rightarrow> bool" where
  "Channel_HasFlag flag s \<longleftrightarrow> channelFlags s AND flag \<noteq> 0"

definition IsLFG :: "'a channel_scheme \<Rightarrow> bool" where
  "IsLFG s \<longleftrightarrow> channelFlags s AND CHANNEL_FLAG_LFG \<noteq> 0"

definition CheckPassword :: "string \<Rightarrow> 'a channel_scheme \<Rightarrow> bool" where
  "CheckPassword password s \<longleftrightarrow> channelPassword s = [] \<or> channelPassword s = password"

definition IsOn :: "guid \<Rightarrow> 'a channel_scheme \<Rightarrow> bool" where
  "IsOn who s \<longleftrightarrow> om_find who (playersStore s) \<noteq> None"

definition IsBanned :: "guid \<Rightarrow> 'a channel_scheme \<Rightarrow> bool" where
  "IsBanned g s \<longleftrightarrow> g \<in> set (bannedStore s)"

definition GetPlayerFlags :: "guid \<Rightarrow> 'a channel_scheme \<Rightarrow> u8" where
  "GetPlayerFlags g s = (case om_find g (playersStore s) of Some i \<Rightarrow> pi_flags i | None \<Rightarrow> 0)"

text \<open>\<^verbatim>\<open>_playersStore.at(g)\<close> for a member \<open>g\<close>, and a change of that entry.\<close>

definition info_at :: "guid \<Rightarrow> 'a channel_scheme \<Rightarrow> player_info" where
  "info_at g s = (case om_find g (playersStore s) of Some i \<Rightarrow> i | None \<Rightarrow> PlayerInfo_new)"

definition change_info :: "guid \<Rightarrow> (player_info \<Rightarrow> player_info) \<Rightarrow> 'a channel_scheme \<Rightarrow> 'a channel_scheme" where
  "change_info g f s =
     (case om_find g (playersStore s) of
        Some i \<Rightarrow> s\<lparr>playersStore := om_set g (f i) (playersStore s)\<rparr> | None \<Rightarrow> s)"

text \<open>A write through a reference to the entry of \<open>g\<close> that was obtained before: the entry must not have been erased since.\<close>

definition write_through :: "guid \<Rightarrow> (player_info \<Rightarrow> player_info) \<Rightarrow> 'a channel_scheme \<Rightarrow> 'a channel_scheme option" where
  "write_through g f s =
     (case om_find g (playersStore s) of
        Some i \<Rightarrow> Some (s\<lparr>playersStore := om_set g (f i) (playersStore s)\<rparr>) | None \<Rightarrow> None)"

section \<open>Sending\<close>

definition SendToAll :: "chat_env \<Rightarrow> channel_packet \<Rightarrow> guid \<Rightarrow> guid \<Rightarrow> chat \<Rightarrow> chat" where
  "SendToAll E pkt g accountGuid s =
     s\<lparr>sent := sent s @ map (\<lambda>i. (fst i, pkt)) (filter (\<lambda>i.
        case FindConnectedPlayer E (fst i) of None \<Rightarrow> False
        | Some player \<Rightarrow> g = 0 \<or> \<not> HasIgnore g accountGuid (cp_social player)) (playersStore s))\<rparr>"

definition SendToAllButOne :: "chat_env \<Rightarrow> channel_packet \<Rightarrow> guid \<Rightarrow> chat \<Rightarrow> chat" where
  "SendToAllButOne E pkt who s =
     s\<lparr>sent := sent s @ map (\<lambda>i. (fst i, pkt)) (filter (\<lambda>i.
        fst i \<noteq> who \<and> FindConnectedPlayer E (fst i) \<noteq> None) (playersStore s))\<rparr>"

definition SendToOne :: "chat_env \<Rightarrow> channel_packet \<Rightarrow> guid \<Rightarrow> chat \<Rightarrow> chat" where
  "SendToOne E pkt who s =
     (case FindConnectedPlayer E who of None \<Rightarrow> s | Some player \<Rightarrow> s\<lparr>sent := sent s @ [(who, pkt)]\<rparr>)"

definition SendToAllWithAddon :: "chat_env \<Rightarrow> channel_packet \<Rightarrow> string \<Rightarrow> guid \<Rightarrow> guid \<Rightarrow> chat \<Rightarrow> chat" where
  "SendToAllWithAddon E pkt addonPrefix g accountGuid s =
     s\<lparr>sent := sent s @ map (\<lambda>i. (fst i, pkt)) (filter (\<lambda>i.
        case FindConnectedPlayer E (fst i) of None \<Rightarrow> False
        | Some player \<Rightarrow> addonPrefix \<in> set (cp_addons player) \<and>
            (g = 0 \<or> \<not> HasIgnore g accountGuid (cp_social player))) (playersStore s))\<rparr>"

definition notify_one :: "chat_env \<Rightarrow> appender \<Rightarrow> guid \<Rightarrow> chat \<Rightarrow> chat" where
  "notify_one E a = SendToOne E (Notify (Append a))"

definition notify_all :: "chat_env \<Rightarrow> appender \<Rightarrow> chat \<Rightarrow> chat" where
  "notify_all E a = SendToAll E (Notify (Append a)) 0 0"

definition JoinNotify :: "chat_env \<Rightarrow> guid \<Rightarrow> chat \<Rightarrow> chat" where
  "JoinNotify E g s =
     (if IsConstant s then SendToAllButOne E (UserlistAdd g (channelFlags s) (GetPlayerFlags g s)) g s
      else SendToAll E (UserlistUpdate g (channelFlags s) (GetPlayerFlags g s)) 0 0 s)"

definition LeaveNotify :: "chat_env \<Rightarrow> guid \<Rightarrow> chat \<Rightarrow> chat" where
  "LeaveNotify E g s =
     (if IsConstant s then SendToAllButOne E (UserlistRemove g (channelFlags s)) g s
      else SendToAll E (UserlistRemove g (channelFlags s)) 0 0 s)"

text \<open>\<^verbatim>\<open>Player::JoinedChannel\<close> and \<^verbatim>\<open>Player::LeftChannel\<close>.\<close>

definition JoinedChannel :: "guid \<Rightarrow> chat \<Rightarrow> chat" where
  "JoinedChannel g s = s\<lparr>m_channels := (m_channels s)(g := m_channels s g @ [channelGuid s])\<rparr>"

definition LeftChannel :: "guid \<Rightarrow> chat \<Rightarrow> chat" where
  "LeftChannel g s = s\<lparr>m_channels := (m_channels s)(g := removeAll (channelGuid s) (m_channels s g))\<rparr>"

section \<open>Membership and ownership\<close>

definition SetOwner_guid :: "chat_env \<Rightarrow> guid \<Rightarrow> bool \<Rightarrow> chat \<Rightarrow> chat" where
  "SetOwner_guid E g exclaim s =
     (let s = (if ownerGuid s \<noteq> 0 then change_info (ownerGuid s) (PlayerInfo_SetOwner False) s else s);
          s = s\<lparr>ownerGuid := g\<rparr>
      in if g \<noteq> 0
         then (case om_find g (playersStore s) of
                 None \<Rightarrow> s
               | Some i \<Rightarrow>
                   let oldFlag = pi_flags i;
                       s = change_info g (\<lambda>i. PlayerInfo_SetOwner True (PlayerInfo_SetModerator True i)) s;
                       s = notify_all E (ModeChangeAppend g oldFlag (GetPlayerFlags g s)) s;
                       s = (if exclaim then notify_all E (OwnerChangedAppend g) s else s)
                   in s\<lparr>isDirty := True\<rparr>)
         else s)"

definition JoinChannel :: "chat_env \<Rightarrow> chat_player \<Rightarrow> string \<Rightarrow> chat \<Rightarrow> chat" where
  "JoinChannel E player pass s =
     (let g = cp_guid player in
      if IsOn g s then (if \<not> IsConstant s then notify_one E (PlayerAlreadyMemberAppend g) g s else s)
      else if IsBanned g s then notify_one E BannedAppend g s
      else if \<not> CheckPassword pass s then notify_one E WrongPasswordAppend g s
      else if Channel_HasFlag CHANNEL_FLAG_LFG s \<and> restrictedLfg E \<and> cp_security player = 0 \<and> cp_hasGroup player
      then notify_one E NotInLFGAppend g s
      else
        let s = JoinedChannel g s;
            s = (if announceEnabled s \<and> \<not> may player RBAC_PERM_SILENTLY_JOIN_CHANNEL
                 then notify_all E (JoinedAppend g) s else s);
            newChannel = (playersStore s = []);
            s = (if newChannel then s\<lparr>nextActivityUpdateTime := 0\<rparr> else s);
            invisible = (\<not> cp_isGMVisible player);
            s = s\<lparr>playersStore := om_set g (PlayerInfo_new\<lparr>pi_invisible := invisible\<rparr>) (playersStore s)\<rparr>;
            s = SendToOne E (ChannelNotifyJoined (channelFlags s) (GetPlayerFlags g s)) g s;
            s = JoinNotify E g s
        in if \<not> IsConstant s \<and> ownershipEnabled s \<and> (newChannel \<or> \<not> invisible) \<and>
              (ownerGuid s = 0 \<or> isOwnerInvisible s)
           then let s = s\<lparr>isOwnerInvisible := invisible\<rparr>;
                    s = SetOwner_guid E g (\<not> newChannel \<and> \<not> invisible) s
                in change_info g (PlayerInfo_SetModerator True) s
           else s)"

text \<open>The successor of an owner who leaves: the first visible member, or the first one.\<close>

definition next_owner :: "(guid, player_info) omap \<Rightarrow> guid \<times> player_info" where
  "next_owner m = (case List.find (\<lambda>x. \<not> pi_invisible (snd x)) m of Some x \<Rightarrow> x | None \<Rightarrow> hd m)"

definition LeaveChannel :: "chat_env \<Rightarrow> chat_player \<Rightarrow> bool \<Rightarrow> bool \<Rightarrow> chat \<Rightarrow> chat" where
  "LeaveChannel E player send suspend s =
     (let g = cp_guid player in
      if \<not> IsOn g s then (if send then notify_one E NotMemberAppend g s else s)
      else
        let s = (if send then LeftChannel g (SendToOne E (ChannelNotifyLeft suspend) g s) else s);
            changeowner = IsOwner (info_at g s);
            s = s\<lparr>playersStore := om_erase g (playersStore s)\<rparr>;
            s = (if announceEnabled s \<and> \<not> may player RBAC_PERM_SILENTLY_JOIN_CHANNEL
                 then notify_all E (LeftAppend g) s else s);
            s = LeaveNotify E g s
        in if \<not> IsConstant s \<and> changeowner \<and> ownershipEnabled s \<and> playersStore s \<noteq> []
           then let (newOwner, info) = next_owner (playersStore s);
                    s = change_info newOwner (PlayerInfo_SetModerator True) s;
                    s = SetOwner_guid E newOwner True s
                in if pi_invisible info then s\<lparr>isOwnerInvisible := True\<rparr> else s
           else s)"

section \<open>Commands of members\<close>

text \<open>The ban or the announcement of the kick, then the removal of the victim, then the guards.\<close>

definition ban_or_announce :: "chat_env \<Rightarrow> chat_player \<Rightarrow> guid \<Rightarrow> bool \<Rightarrow> chat \<Rightarrow> chat" where
  "ban_or_announce E player victim ban s =
     (if ban \<and> \<not> IsBanned victim s
      then let s = s\<lparr>bannedStore := ss_insert victim (bannedStore s), isDirty := True\<rparr>
           in if \<not> may player RBAC_PERM_SILENTLY_JOIN_CHANNEL
              then notify_all E (PlayerBannedAppend (cp_guid player) victim) s else s
      else if \<not> may player RBAC_PERM_SILENTLY_JOIN_CHANNEL
      then notify_all E (PlayerKickedAppend (cp_guid player) victim) s
      else s)"

definition remove_victim :: "chat_env \<Rightarrow> chat_player \<Rightarrow> guid \<Rightarrow> bool \<Rightarrow> chat \<Rightarrow> chat option" where
  "remove_victim E player victim ban s =
     (let good = cp_guid player;
          changeowner = (ownerGuid s = victim);
          s = ban_or_announce E player victim ban s;
          s = s\<lparr>playersStore := om_erase victim (playersStore s)\<rparr>;
          s = LeftChannel victim s
      in if changeowner \<and> ownershipEnabled s \<and> playersStore s \<noteq> []
         then Option.bind (write_through good (PlayerInfo_SetModerator True) s) (\<lambda>s. Some (SetOwner_guid E good True s))
         else Some s)"

definition KickOrBan :: "chat_env \<Rightarrow> chat_player \<Rightarrow> string \<Rightarrow> bool \<Rightarrow> chat \<Rightarrow> chat option" where
  "KickOrBan E player badname ban s =
     (let good = cp_guid player in
      if \<not> IsOn good s then Some (notify_one E NotMemberAppend good s)
      else if \<not> IsModerator (info_at good s) \<and> \<not> may player RBAC_PERM_CHANGE_CHANNEL_NOT_MODERATOR
      then Some (notify_one E NotModeratorAppend good s)
      else let bad = FindConnectedPlayerByName E badname;
               victim = (case bad of Some b \<Rightarrow> cp_guid b | None \<Rightarrow> 0)
           in if bad = None \<or> victim = 0 \<or> \<not> IsOn victim s
              then Some (notify_one E (PlayerNotFoundAppend badname) good s)
              else if \<not> may player RBAC_PERM_CHANGE_CHANNEL_NOT_MODERATOR \<and> ownerGuid s = victim \<and> good \<noteq> ownerGuid s
              then Some (notify_one E NotOwnerAppend good s)
              else remove_victim E player victim ban s)"

definition UnBan :: "chat_env \<Rightarrow> chat_player \<Rightarrow> string \<Rightarrow> chat \<Rightarrow> chat" where
  "UnBan E player badname s =
     (let good = cp_guid player in
      if \<not> IsOn good s then notify_one E NotMemberAppend good s
      else if \<not> IsModerator (info_at good s) \<and> \<not> may player RBAC_PERM_CHANGE_CHANNEL_NOT_MODERATOR
      then notify_one E NotModeratorAppend good s
      else let victim = (case FindConnectedPlayerByName E badname of Some b \<Rightarrow> cp_guid b | None \<Rightarrow> 0)
           in if victim = 0 \<or> \<not> IsBanned victim s
              then notify_one E (PlayerNotFoundAppend badname) good s
              else let s = s\<lparr>bannedStore := ss_erase victim (bannedStore s)\<rparr>;
                       s = notify_all E (PlayerUnbannedAppend good victim) s
                   in s\<lparr>isDirty := True\<rparr>)"

definition Channel_Password :: "chat_env \<Rightarrow> chat_player \<Rightarrow> string \<Rightarrow> chat \<Rightarrow> chat" where
  "Channel_Password E player pass s =
     (let g = cp_guid player in
      if \<not> IsOn g s then notify_one E NotMemberAppend g s
      else if \<not> IsModerator (info_at g s) \<and> \<not> may player RBAC_PERM_CHANGE_CHANNEL_NOT_MODERATOR
      then notify_one E NotModeratorAppend g s
      else let s = s\<lparr>channelPassword := pass\<rparr>;
               s = notify_all E (PasswordChangedAppend g) s
           in s\<lparr>isDirty := True\<rparr>)"

definition SetModerator_guid :: "chat_env \<Rightarrow> guid \<Rightarrow> bool \<Rightarrow> chat \<Rightarrow> chat" where
  "SetModerator_guid E g st s =
     (if \<not> IsOn g s then s
      else if IsModerator (info_at g s) \<noteq> st
      then let oldFlag = GetPlayerFlags g s;
               s = change_info g (PlayerInfo_SetModerator st) s
           in notify_all E (ModeChangeAppend g oldFlag (GetPlayerFlags g s)) s
      else s)"

definition SetMute_guid :: "chat_env \<Rightarrow> guid \<Rightarrow> bool \<Rightarrow> chat \<Rightarrow> chat" where
  "SetMute_guid E g st s =
     (if \<not> IsOn g s then s
      else if IsMuted (info_at g s) \<noteq> st
      then let oldFlag = GetPlayerFlags g s;
               s = change_info g (PlayerInfo_SetMuted st) s
           in notify_all E (ModeChangeAppend g oldFlag (GetPlayerFlags g s)) s
      else s)"

definition other_faction :: "chat_player \<Rightarrow> chat_player \<Rightarrow> bool" where
  "other_faction player newp \<longleftrightarrow> cp_team player \<noteq> cp_team newp \<and>
     (\<not> may player RBAC_PERM_TWO_SIDE_INTERACTION_CHANNEL \<or> \<not> may newp RBAC_PERM_TWO_SIDE_INTERACTION_CHANNEL)"

definition SetMode :: "chat_env \<Rightarrow> chat_player \<Rightarrow> string \<Rightarrow> bool \<Rightarrow> bool \<Rightarrow> chat \<Rightarrow> chat" where
  "SetMode E player p2n md st s =
     (let g = cp_guid player in
      if \<not> IsOn g s then notify_one E NotMemberAppend g s
      else if \<not> IsModerator (info_at g s) \<and> \<not> may player RBAC_PERM_CHANGE_CHANNEL_NOT_MODERATOR
      then notify_one E NotModeratorAppend g s
      else if g = ownerGuid s \<and> p2n = cp_name player \<and> md then s
      else case FindConnectedPlayerByName E p2n of
             None \<Rightarrow> notify_one E (PlayerNotFoundAppend p2n) g s
           | Some newp \<Rightarrow>
               let victim = cp_guid newp
               in if victim = 0 \<or> \<not> IsOn victim s \<or> other_faction player newp
                  then notify_one E (PlayerNotFoundAppend p2n) g s
                  else if ownerGuid s = victim \<and> ownerGuid s \<noteq> g then notify_one E NotOwnerAppend g s
                  else if md then SetModerator_guid E victim st s
                  else SetMute_guid E victim st s)"

definition Channel_SetInvisible :: "guid \<Rightarrow> bool \<Rightarrow> chat \<Rightarrow> chat" where
  "Channel_SetInvisible g on s =
     (if om_find g (playersStore s) = None then s
      else let s = change_info g (\<lambda>i. i\<lparr>pi_invisible := on\<rparr>) s
           in if ownerGuid s = g then s\<lparr>isOwnerInvisible := on\<rparr> else s)"

definition SetOwner_name :: "chat_env \<Rightarrow> chat_player \<Rightarrow> string \<Rightarrow> chat \<Rightarrow> chat" where
  "SetOwner_name E player newname s =
     (let g = cp_guid player in
      if \<not> IsOn g s then notify_one E NotMemberAppend g s
      else if \<not> may player RBAC_PERM_CHANGE_CHANNEL_NOT_MODERATOR \<and> g \<noteq> ownerGuid s
      then notify_one E NotOwnerAppend g s
      else case FindConnectedPlayerByName E newname of
             None \<Rightarrow> notify_one E (PlayerNotFoundAppend newname) g s
           | Some newp \<Rightarrow>
               let victim = cp_guid newp
               in if victim = 0 \<or> \<not> IsOn victim s \<or> other_faction player newp
                  then notify_one E (PlayerNotFoundAppend newname) g s
                  else SetOwner_guid E victim True (change_info victim (PlayerInfo_SetModerator True) s))"

definition SendWhoOwner :: "chat_env \<Rightarrow> chat_player \<Rightarrow> chat \<Rightarrow> chat" where
  "SendWhoOwner E player s =
     (let g = cp_guid player in
      if IsOn g s
      then notify_one E (ChannelOwnerAppend (IsConstant s) (ownerGuid s) (characterName E (ownerGuid s))) g s
      else notify_one E NotMemberAppend g s)"

definition Channel_List :: "chat_env \<Rightarrow> chat_player \<Rightarrow> chat \<Rightarrow> chat" where
  "Channel_List E player s =
     (let g = cp_guid player in
      if \<not> IsOn g s then notify_one E NotMemberAppend g s
      else s\<lparr>sent := sent s @ [(g, ChannelListResponse (channelFlags s)
        (map (\<lambda>i. (fst i, pi_flags (snd i))) (filter (\<lambda>i.
           case FindConnectedPlayer E (fst i) of None \<Rightarrow> False
           | Some member \<Rightarrow> (may player RBAC_PERM_WHO_SEE_ALL_SEC_LEVELS \<or> cp_security member \<le> gmLevelInWhoList E) \<and>
               visibleFor E member player) (playersStore s))))]\<rparr>)"

definition Announce :: "chat_env \<Rightarrow> chat_player \<Rightarrow> chat \<Rightarrow> chat" where
  "Announce E player s =
     (let g = cp_guid player in
      if \<not> IsOn g s then notify_one E NotMemberAppend g s
      else if \<not> IsModerator (info_at g s) \<and> \<not> may player RBAC_PERM_CHANGE_CHANNEL_NOT_MODERATOR
      then notify_one E NotModeratorAppend g s
      else let s = s\<lparr>announceEnabled := \<not> announceEnabled s\<rparr>;
               s = (if announceEnabled s then notify_all E (AnnouncementsOnAppend g) s
                    else notify_all E (AnnouncementsOffAppend g) s)
           in s\<lparr>isDirty := True\<rparr>)"

text \<open>The receiver test of messages: moderators are heard by everyone.\<close>

definition ignored_as :: "chat_env \<Rightarrow> guid \<Rightarrow> player_info \<Rightarrow> guid \<times> guid" where
  "ignored_as E g i =
     (if IsModerator i then (0, 0)
      else (g, case FindConnectedPlayer E g of Some p \<Rightarrow> cp_accountGuid p | None \<Rightarrow> 0))"

definition Say :: "chat_env \<Rightarrow> guid \<Rightarrow> string \<Rightarrow> nat \<Rightarrow> chat \<Rightarrow> chat" where
  "Say E g what lang s =
     (if what = [] then s
      else let lang = (if twoSideChannels E then 0 else lang)
           in if \<not> IsOn g s then notify_one E NotMemberAppend g s
              else if IsMuted (info_at g s) then notify_one E MutedAppend g s
              else case ignored_as E g (info_at g s) of
                     (ig, acct) \<Rightarrow> SendToAll E (ChatMessage g lang what) ig acct s)"

definition AddonSay :: "chat_env \<Rightarrow> guid \<Rightarrow> string \<Rightarrow> string \<Rightarrow> bool \<Rightarrow> chat \<Rightarrow> chat" where
  "AddonSay E g prefix what isLogged s =
     (if what = [] then s
      else if \<not> IsOn g s then notify_one E NotMemberAppend g s
      else if IsMuted (info_at g s) then notify_one E MutedAppend g s
      else case ignored_as E g (info_at g s) of
             (ig, acct) \<Rightarrow>
               SendToAllWithAddon E (AddonMessage g (if isLogged then 184 else 183) prefix what) prefix ig acct s)"

definition Channel_Invite :: "chat_env \<Rightarrow> chat_player \<Rightarrow> string \<Rightarrow> chat \<Rightarrow> chat" where
  "Channel_Invite E player newname s =
     (let g = cp_guid player in
      if \<not> IsOn g s then notify_one E NotMemberAppend g s
      else case FindConnectedPlayerByName E newname of
             None \<Rightarrow> notify_one E (PlayerNotFoundAppend newname) g s
           | Some newp \<Rightarrow>
               if \<not> cp_isGMVisible newp then notify_one E (PlayerNotFoundAppend newname) g s
               else if IsBanned (cp_guid newp) s then notify_one E (PlayerInviteBannedAppend newname) g s
               else if other_faction player newp then notify_one E InviteWrongFactionAppend g s
               else if IsOn (cp_guid newp) s then notify_one E (PlayerAlreadyMemberAppend (cp_guid newp)) g s
               else let s = (if \<not> HasIgnore g (cp_accountGuid player) (cp_social newp)
                             then notify_one E (InviteAppend g) (cp_guid newp) s else s)
                    in notify_one E (PlayerInvitedAppend (cp_name newp)) g s)"

text \<open>The bodies of \<^verbatim>\<open>SilenceAll\<close>, \<^verbatim>\<open>UnsilenceAll\<close> and \<^verbatim>\<open>DeclineInvite\<close> are empty.\<close>

definition SilenceAll :: "chat \<Rightarrow> chat" where "SilenceAll s = s"
definition UnsilenceAll :: "chat \<Rightarrow> chat" where "UnsilenceAll s = s"
definition DeclineInvite :: "chat \<Rightarrow> chat" where "DeclineInvite s = s"

section \<open>Client commands\<close>

datatype channel_opcode =
    CHAT_CHANNEL_ANNOUNCEMENTS | CHAT_CHANNEL_DECLINE_INVITE | CHAT_CHANNEL_DISPLAY_LIST | CHAT_CHANNEL_LIST
  | CHAT_CHANNEL_OWNER

fun channel_command :: "chat_env \<Rightarrow> channel_opcode \<Rightarrow> chat_player \<Rightarrow> chat \<Rightarrow> chat" where
  "channel_command E CHAT_CHANNEL_ANNOUNCEMENTS player s = Announce E player s"
| "channel_command E CHAT_CHANNEL_DECLINE_INVITE player s = DeclineInvite s"
| "channel_command E CHAT_CHANNEL_DISPLAY_LIST player s = Channel_List E player s"
| "channel_command E CHAT_CHANNEL_LIST player s = Channel_List E player s"
| "channel_command E CHAT_CHANNEL_OWNER player s = SendWhoOwner E player s"

datatype channel_player_opcode =
    CHAT_CHANNEL_BAN | CHAT_CHANNEL_INVITE | CHAT_CHANNEL_KICK | CHAT_CHANNEL_MODERATOR | CHAT_CHANNEL_MUTE
  | CHAT_CHANNEL_SET_OWNER | CHAT_CHANNEL_SILENCE_ALL | CHAT_CHANNEL_UNBAN | CHAT_CHANNEL_UNMODERATOR
  | CHAT_CHANNEL_UNMUTE | CHAT_CHANNEL_UNSILENCE_ALL

fun channel_player_command ::
  "chat_env \<Rightarrow> channel_player_opcode \<Rightarrow> chat_player \<Rightarrow> string \<Rightarrow> chat \<Rightarrow> chat option" where
  "channel_player_command E CHAT_CHANNEL_BAN player name s = KickOrBan E player name True s"
| "channel_player_command E CHAT_CHANNEL_INVITE player name s = Some (Channel_Invite E player name s)"
| "channel_player_command E CHAT_CHANNEL_KICK player name s = KickOrBan E player name False s"
| "channel_player_command E CHAT_CHANNEL_MODERATOR player name s = Some (SetMode E player name True True s)"
| "channel_player_command E CHAT_CHANNEL_MUTE player name s = Some (SetMode E player name False True s)"
| "channel_player_command E CHAT_CHANNEL_SET_OWNER player name s = Some (SetOwner_name E player name s)"
| "channel_player_command E CHAT_CHANNEL_SILENCE_ALL player name s = Some (SilenceAll s)"
| "channel_player_command E CHAT_CHANNEL_UNBAN player name s = Some (UnBan E player name s)"
| "channel_player_command E CHAT_CHANNEL_UNMODERATOR player name s = Some (SetMode E player name True False s)"
| "channel_player_command E CHAT_CHANNEL_UNMUTE player name s = Some (SetMode E player name False False s)"
| "channel_player_command E CHAT_CHANNEL_UNSILENCE_ALL player name s = Some (UnsilenceAll s)"

end
