(* ===== verification/Channel_Members.thy ===== *)
theory Channel_Members imports Channel begin

text \<open>
  What the operations of a channel do to its members: the frame of every operation as one equation
  (\<open>tell\<close> appends packets and changes nothing else), the invariant of members, owner and bans, and the
  properties of a single channel.
\<close>

section \<open>Frames\<close>

definition tell :: "(guid \<times> channel_packet) list \<Rightarrow> chat \<Rightarrow> chat" where
  "tell xs s = s\<lparr>sent := sent s @ xs\<rparr>"

lemma tell_fields [simp]:
  "isDirty (tell xs s) = isDirty s" "nextActivityUpdateTime (tell xs s) = nextActivityUpdateTime s"
  "announceEnabled (tell xs s) = announceEnabled s" "ownershipEnabled (tell xs s) = ownershipEnabled s"
  "isOwnerInvisible (tell xs s) = isOwnerInvisible s" "channelFlags (tell xs s) = channelFlags s"
  "channelId (tell xs s) = channelId s" "channelTeam (tell xs s) = channelTeam s"
  "channelGuid (tell xs s) = channelGuid s" "ownerGuid (tell xs s) = ownerGuid s"
  "channelName (tell xs s) = channelName s" "channelPassword (tell xs s) = channelPassword s"
  "playersStore (tell xs s) = playersStore s" "bannedStore (tell xs s) = bannedStore s"
  "zoneEntry (tell xs s) = zoneEntry s" "m_channels (tell xs s) = m_channels s" "sent (tell xs s) = sent s @ xs"
  by (simp_all add: tell_def)

lemma tell_tell [simp]: "tell ys (tell xs s) = tell (xs @ ys) s"
  by (simp add: tell_def)

lemma tell_update [simp]:
  "(tell xs s)\<lparr>isDirty := d\<rparr> = tell xs (s\<lparr>isDirty := d\<rparr>)"
  "(tell xs s)\<lparr>playersStore := p\<rparr> = tell xs (s\<lparr>playersStore := p\<rparr>)"
  "(tell xs s)\<lparr>ownerGuid := g\<rparr> = tell xs (s\<lparr>ownerGuid := g\<rparr>)"
  "(tell xs s)\<lparr>isOwnerInvisible := b\<rparr> = tell xs (s\<lparr>isOwnerInvisible := b\<rparr>)"
  "(tell xs s)\<lparr>nextActivityUpdateTime := t\<rparr> = tell xs (s\<lparr>nextActivityUpdateTime := t\<rparr>)"
  "(tell xs s)\<lparr>m_channels := mc\<rparr> = tell xs (s\<lparr>m_channels := mc\<rparr>)"
  by (simp_all add: tell_def)

lemma queries_tell [simp]:
  "IsOn g (tell xs s) = IsOn g s" "IsBanned g (tell xs s) = IsBanned g s" "IsConstant (tell xs s) = IsConstant s"
  "GetPlayerFlags g (tell xs s) = GetPlayerFlags g s" "info_at g (tell xs s) = info_at g s"
  by (simp_all add: IsOn_def IsBanned_def IsConstant_def GetPlayerFlags_def info_at_def)

definition receivers_all :: "chat_env \<Rightarrow> channel_packet \<Rightarrow> guid \<Rightarrow> guid \<Rightarrow> (guid, player_info) omap \<Rightarrow> (guid \<times> channel_packet) list" where
  "receivers_all E pkt g acct m = map (\<lambda>i. (fst i, pkt)) (filter (\<lambda>i.
     case FindConnectedPlayer E (fst i) of None \<Rightarrow> False
     | Some player \<Rightarrow> g = 0 \<or> \<not> HasIgnore g acct (cp_social player)) m)"

definition receivers_but :: "chat_env \<Rightarrow> channel_packet \<Rightarrow> guid \<Rightarrow> (guid, player_info) omap \<Rightarrow> (guid \<times> channel_packet) list" where
  "receivers_but E pkt who m = map (\<lambda>i. (fst i, pkt)) (filter (\<lambda>i.
     fst i \<noteq> who \<and> FindConnectedPlayer E (fst i) \<noteq> None) m)"

definition receiver :: "chat_env \<Rightarrow> channel_packet \<Rightarrow> guid \<Rightarrow> (guid \<times> channel_packet) list" where
  "receiver E pkt who = (if FindConnectedPlayer E who = None then [] else [(who, pkt)])"

lemma send_tell [simp]:
  "SendToAll E pkt g acct s = tell (receivers_all E pkt g acct (playersStore s)) s"
  "SendToAllButOne E pkt who s = tell (receivers_but E pkt who (playersStore s)) s"
  "SendToOne E pkt who s = tell (receiver E pkt who) s"
  "notify_one E a who s = tell (receiver E (Notify (Append a)) who) s"
  "notify_all E a s = tell (receivers_all E (Notify (Append a)) 0 0 (playersStore s)) s"
  by (auto simp: SendToAll_def SendToAllButOne_def SendToOne_def notify_one_def notify_all_def tell_def
      receivers_all_def receivers_but_def receiver_def split: option.splits)

lemma JoinNotify_tell: "\<exists>xs. JoinNotify E g s = tell xs s"
  by (auto simp: JoinNotify_def)

lemma LeaveNotify_tell: "\<exists>xs. LeaveNotify E g s = tell xs s"
  by (auto simp: LeaveNotify_def)

lemma tell_if: "(if b then tell xs s else s) = tell (if b then xs else []) s"
  by (simp add: tell_def)

lemma tell_Nil [simp]: "tell [] s = s"
  by (simp add: tell_def)

lemma tell_self [simp]: "\<exists>xs. tell ys s = tell xs s" "\<exists>xs. s = tell xs s"
  by (metis tell_Nil)+

section \<open>The member map\<close>

definition change_member :: "guid \<Rightarrow> (player_info \<Rightarrow> player_info) \<Rightarrow> (guid, player_info) omap \<Rightarrow> (guid, player_info) omap" where
  "change_member g f m = (case om_find g m of Some i \<Rightarrow> om_set g (f i) m | None \<Rightarrow> m)"

lemma change_info_eq: "change_info g f s = s\<lparr>playersStore := change_member g f (playersStore s)\<rparr>"
  by (simp add: change_info_def change_member_def split: option.splits)

lemma om_find_change_member [simp]:
  "om_find j (change_member g f m) = (if j = g then map_option f (om_find g m) else om_find j m)"
  by (simp add: change_member_def split: option.splits)

lemma om_ok_change_member [simp]: "om_ok m \<Longrightarrow> om_ok (change_member g f m)"
  by (simp add: change_member_def split: option.splits)

lemma change_member_Nil [simp]: "change_member g f [] = []"
  by (simp add: change_member_def)

lemma om_set_not_Nil [simp]: "om_set k v m \<noteq> []"
  by (cases m) (auto split: prod.splits if_splits)

lemma change_member_empty [simp]: "change_member g f m = [] \<longleftrightarrow> m = []"
  by (auto simp: change_member_def split: option.splits)

definition owner_members :: "guid \<Rightarrow> guid \<Rightarrow> (guid, player_info) omap \<Rightarrow> (guid, player_info) omap" where
  "owner_members old g m =
     (let m = (if old \<noteq> 0 then change_member old (PlayerInfo_SetOwner False) m else m)
      in if g \<noteq> 0 then change_member g (\<lambda>i. PlayerInfo_SetOwner True (PlayerInfo_SetModerator True i)) m else m)"

lemma change_member_absent: "om_find g m = None \<Longrightarrow> change_member g f m = m"
  by (simp add: change_member_def)

lemma SetOwner_guid_eq:
  "\<exists>xs d. SetOwner_guid E g ex s =
     tell xs (s\<lparr>ownerGuid := g, playersStore := owner_members (ownerGuid s) g (playersStore s), isDirty := d\<rparr>)"
proof -
  define t where "t = (if ownerGuid s \<noteq> 0 then change_info (ownerGuid s) (PlayerInfo_SetOwner False) s else s)"
  have t: "t = s\<lparr>playersStore := (if ownerGuid s \<noteq> 0 then change_member (ownerGuid s) (PlayerInfo_SetOwner False) (playersStore s)
      else playersStore s)\<rparr>"
    by (simp add: t_def change_info_eq)
  consider "g = 0" | "g \<noteq> 0" "om_find g (playersStore t) = None" | i where "g \<noteq> 0" "om_find g (playersStore t) = Some i"
    by blast
  then show ?thesis
  proof cases
    case 1
    have "SetOwner_guid E g ex s = tell [] (s\<lparr>ownerGuid := g, playersStore := owner_members (ownerGuid s) g (playersStore s),
        isDirty := isDirty s\<rparr>)"
      unfolding SetOwner_guid_def t_def [symmetric] Let_def using 1 by (simp add: t owner_members_def)
    then show ?thesis by blast
  next
    case 2
    have "SetOwner_guid E g ex s = tell [] (s\<lparr>ownerGuid := g, playersStore := owner_members (ownerGuid s) g (playersStore s),
        isDirty := isDirty s\<rparr>)"
      unfolding SetOwner_guid_def t_def [symmetric] Let_def using 2
      by (simp add: t owner_members_def change_member_absent split: if_splits)
    then show ?thesis by blast
  next
    case 3
    define F where "F = (\<lambda>i. PlayerInfo_SetOwner True (PlayerInfo_SetModerator True i))"
    define u where "u = s\<lparr>playersStore := change_member g F (playersStore t), ownerGuid := g\<rparr>"
    have u: "change_info g F (t\<lparr>ownerGuid := g\<rparr>) = u"
      by (simp add: change_info_eq u_def t)
    have "SetOwner_guid E g ex s = (if ex then notify_all E (OwnerChangedAppend g)
        (notify_all E (ModeChangeAppend g (pi_flags i) (GetPlayerFlags g u)) u)
        else notify_all E (ModeChangeAppend g (pi_flags i) (GetPlayerFlags g u)) u)\<lparr>isDirty := True\<rparr>"
      using 3 unfolding SetOwner_guid_def t_def [symmetric] Let_def F_def [symmetric] by (simp add: u)
    then have "\<exists>xs. SetOwner_guid E g ex s = tell xs (u\<lparr>isDirty := True\<rparr>)"
      by (cases ex) auto
    moreover have "playersStore u = owner_members (ownerGuid s) g (playersStore s)"
      using 3(1) by (simp add: u_def owner_members_def F_def t)
    then have "u\<lparr>isDirty := True\<rparr> = s\<lparr>ownerGuid := g, playersStore := owner_members (ownerGuid s) g (playersStore s), isDirty := True\<rparr>"
      by (simp add: u_def)
    ultimately show ?thesis by metis
  qed
qed

section \<open>The invariant\<close>

text \<open>
  Members are distinct and not banned; the owner flag sits on \<open>ownerGuid\<close> only, so at most one member has it,
  and an owner is a moderator.
\<close>

definition members_ok :: "(guid, player_info) omap \<Rightarrow> guid list \<Rightarrow> guid \<Rightarrow> bool" where
  "members_ok m banned owner \<longleftrightarrow> om_ok m \<and> ss_ok banned \<and>
     (\<forall>g i. om_find g m = Some i \<longrightarrow> g \<noteq> 0 \<and> g \<notin> set banned \<and> (IsOwner i \<longrightarrow> g = owner \<and> IsModerator i))"

definition channel_inv :: "'a channel_scheme \<Rightarrow> bool" where
  "channel_inv s \<longleftrightarrow> members_ok (playersStore s) (bannedStore s) (ownerGuid s)"

lemma channel_inv_tell [simp]: "channel_inv (tell xs s) = channel_inv s"
  by (simp add: channel_inv_def)

text \<open>The flags are independent.\<close>

lemma flag_updates [simp]:
  "IsOwner (PlayerInfo_SetOwner b i) = b" "IsModerator (PlayerInfo_SetOwner b i) = IsModerator i"
  "IsMuted (PlayerInfo_SetOwner b i) = IsMuted i"
  "IsOwner (PlayerInfo_SetModerator b i) = IsOwner i" "IsModerator (PlayerInfo_SetModerator b i) = b"
  "IsMuted (PlayerInfo_SetModerator b i) = IsMuted i"
  "IsOwner (PlayerInfo_SetMuted b i) = IsOwner i" "IsModerator (PlayerInfo_SetMuted b i) = IsModerator i"
  "IsMuted (PlayerInfo_SetMuted b i) = b"
  "IsOwner (i\<lparr>pi_invisible := v\<rparr>) = IsOwner i" "IsModerator (i\<lparr>pi_invisible := v\<rparr>) = IsModerator i"
  "\<not> IsOwner PlayerInfo_new" "\<not> IsModerator PlayerInfo_new" "\<not> IsMuted PlayerInfo_new"
proof -
  have c: "PlayerInfo_HasFlag (PlayerInfo_SetFlag f i) g = (f AND g \<noteq> 0 \<or> PlayerInfo_HasFlag i g)"
    if "f AND g = 0 \<or> f = g \<and> f \<noteq> 0" for f g i
    using that by (auto simp: player_info_defs bit.conj_disj_distrib2)
  have d: "PlayerInfo_HasFlag (PlayerInfo_RemoveFlag f i) g = (f \<noteq> g \<and> PlayerInfo_HasFlag i g)"
    if "f AND g = 0 \<or> f = g" for f g i
  proof -
    have "NOT f AND g = g" if "f AND g = 0"
      using that by (auto simp: bit_eq_iff bit_and_iff bit_not_iff dest: bit_imp_le_length)
    then show ?thesis
      using that by (auto simp: PlayerInfo_HasFlag_def PlayerInfo_RemoveFlag_def and.assoc)
  qed
  show "IsOwner (PlayerInfo_SetOwner b i) = b" "IsModerator (PlayerInfo_SetOwner b i) = IsModerator i"
    "IsMuted (PlayerInfo_SetOwner b i) = IsMuted i"
    "IsOwner (PlayerInfo_SetModerator b i) = IsOwner i" "IsModerator (PlayerInfo_SetModerator b i) = b"
    "IsMuted (PlayerInfo_SetModerator b i) = IsMuted i"
    "IsOwner (PlayerInfo_SetMuted b i) = IsOwner i" "IsModerator (PlayerInfo_SetMuted b i) = IsModerator i"
    "IsMuted (PlayerInfo_SetMuted b i) = b"
    by (simp_all add: IsOwner_def IsModerator_def IsMuted_def PlayerInfo_SetOwner_def PlayerInfo_SetModerator_def
        PlayerInfo_SetMuted_def c d member_flag_defs)
qed (simp_all add: player_info_defs member_flag_defs)

lemma members_okD:
  assumes "members_ok m banned owner" "om_find g m = Some i"
  shows "g \<noteq> 0" "g \<notin> set banned" "IsOwner i \<Longrightarrow> g = owner" "IsOwner i \<Longrightarrow> IsModerator i"
  using assms unfolding members_ok_def by blast+

lemma members_ok_wf: "members_ok m banned owner \<Longrightarrow> om_ok m" "members_ok m banned owner \<Longrightarrow> ss_ok banned"
  by (simp_all add: members_ok_def)

lemma members_ok_change:
  assumes "members_ok m banned owner"
    "\<And>i. om_find g m = Some i \<Longrightarrow> (IsOwner (f i) \<longrightarrow> g = owner \<and> IsModerator (f i))"
  shows "members_ok (change_member g f m) banned owner"
  using assms unfolding members_ok_def by auto

lemma members_ok_erase: "members_ok m banned owner \<Longrightarrow> members_ok (om_erase g m) banned owner"
  unfolding members_ok_def by auto

lemma members_ok_join:
  "members_ok m banned owner \<Longrightarrow> g \<noteq> 0 \<Longrightarrow> g \<notin> set banned \<Longrightarrow> \<not> IsOwner i \<Longrightarrow> members_ok (om_set g i m) banned owner"
  unfolding members_ok_def by auto

lemma members_ok_ban:
  "members_ok m banned owner \<Longrightarrow> members_ok (om_erase g m) (ss_insert g banned) owner"
  unfolding members_ok_def by auto

lemma members_ok_unban: "members_ok m banned owner \<Longrightarrow> members_ok m (ss_erase g banned) owner"
  unfolding members_ok_def by auto

lemma members_ok_owner:
  assumes "members_ok m banned old"
  shows "members_ok (owner_members old g m) banned g"
proof -
  define m1 where "m1 = (if old \<noteq> 0 then change_member old (PlayerInfo_SetOwner False) m else m)"
  have m1: "om_ok m1" "\<And>j i. om_find j m1 = Some i \<Longrightarrow> j \<noteq> 0 \<and> j \<notin> set banned \<and> \<not> IsOwner i"
    using assms unfolding members_ok_def m1_def by (auto split: if_splits)
  have "owner_members old g m =
      (if g \<noteq> 0 then change_member g (\<lambda>i. PlayerInfo_SetOwner True (PlayerInfo_SetModerator True i)) m1 else m1)"
    by (simp add: owner_members_def m1_def Let_def)
  with m1 members_ok_wf [OF assms] show ?thesis
    unfolding members_ok_def by (auto split: if_splits)
qed

lemma om_find_owner_members:
  "om_find j (owner_members old g m) =
     map_option (\<lambda>i. let i = (if j = old \<and> old \<noteq> 0 then PlayerInfo_SetOwner False i else i)
       in if j = g \<and> g \<noteq> 0 then PlayerInfo_SetOwner True (PlayerInfo_SetModerator True i) else i) (om_find j m)"
  by (auto simp: owner_members_def Let_def option.map_comp comp_def option.map_ident)

section \<open>Every operation keeps the invariant\<close>

text \<open>
  A connected player stands in the online map under its guid. What an operation does to the lists of joined
  channels is part of its frame: \<open>joined_change\<close>.
\<close>

definition chat_env_ok :: "chat_env \<Rightarrow> bool" where
  "chat_env_ok E \<longleftrightarrow> om_ok (online E) \<and> (\<forall>g p. om_find g (online E) = Some p \<longrightarrow> cp_guid p = g \<and> g \<noteq> 0)"

definition is_connected :: "chat_env \<Rightarrow> chat_player \<Rightarrow> bool" where
  "is_connected E p \<longleftrightarrow> FindConnectedPlayer E (cp_guid p) = Some p"

lemma connected_nonzero: "chat_env_ok E \<Longrightarrow> is_connected E p \<Longrightarrow> cp_guid p \<noteq> 0"
  unfolding chat_env_ok_def is_connected_def FindConnectedPlayer_def by blast

lemma by_name:
  assumes "chat_env_ok E" "FindConnectedPlayerByName E n = Some p"
  shows "is_connected E p" "cp_name p = n"
proof -
  obtain g where g: "List.find (\<lambda>(g, p). cp_name p = n) (online E) = Some (g, p)"
    using assms(2) by (auto simp: FindConnectedPlayerByName_def)
  then have "(g, p) \<in> set (online E)" "cp_name p = n"
    by (auto simp: find_Some_iff in_set_conv_nth)
  then show "is_connected E p" "cp_name p = n"
    using assms(1) by (auto simp: chat_env_ok_def is_connected_def FindConnectedPlayer_def om_find_iff)
qed

lemma SetOwner_guid_inv:
  assumes "members_ok (playersStore s) (bannedStore s) (ownerGuid s)"
  shows "channel_inv (SetOwner_guid E g ex s)"
proof -
  obtain xs d where "SetOwner_guid E g ex s =
     tell xs (s\<lparr>ownerGuid := g, playersStore := owner_members (ownerGuid s) g (playersStore s), isDirty := d\<rparr>)"
    using SetOwner_guid_eq by blast
  then show ?thesis using assms members_ok_owner by (simp add: channel_inv_def)
qed

lemma queries_update [simp]:
  "IsConstant (s\<lparr>playersStore := p\<rparr>) = IsConstant s" "IsConstant (s\<lparr>nextActivityUpdateTime := t\<rparr>) = IsConstant s"
  "IsConstant (s\<lparr>m_channels := mc\<rparr>) = IsConstant s"
  by (simp_all add: IsConstant_def)

text \<open>\<open>JoinChannel\<close> as the guards and, behind them, one equation.\<close>

definition admitted :: "chat_env \<Rightarrow> chat_player \<Rightarrow> string \<Rightarrow> 'a channel_scheme \<Rightarrow> bool" where
  "admitted E player pass s \<longleftrightarrow> \<not> IsOn (cp_guid player) s \<and> \<not> IsBanned (cp_guid player) s \<and> CheckPassword pass s \<and>
     \<not> (Channel_HasFlag CHANNEL_FLAG_LFG s \<and> restrictedLfg E \<and> cp_security player = 0 \<and> cp_hasGroup player)"

lemma refused_branches:
  assumes "\<not> (\<not> a \<and> \<not> b \<and> c \<and> \<not> d)"
    "\<exists>xs. A = tell xs s" "\<exists>xs. B = tell xs s" "\<exists>xs. C = tell xs s" "\<exists>xs. D = tell xs s"
  shows "\<exists>xs. (if a then A else if b then B else if \<not> c then C else if d then D else R) = tell xs s"
  using assms by auto

lemma JoinChannel_refused:
  assumes "\<not> admitted E player pass s"
  shows "\<exists>xs. JoinChannel E player pass s = tell xs s"
  unfolding JoinChannel_def Let_def
  by (rule refused_branches [OF assms [unfolded admitted_def]]) simp_all

definition entered :: "chat_player \<Rightarrow> chat \<Rightarrow> chat" where
  "entered player s =
     (let g = cp_guid player; s' = JoinedChannel g s;
          s' = (if playersStore s = [] then s'\<lparr>nextActivityUpdateTime := 0\<rparr> else s')
      in s'\<lparr>playersStore := om_set g (PlayerInfo_new\<lparr>pi_invisible := \<not> cp_isGMVisible player\<rparr>) (playersStore s)\<rparr>)"

definition takes_ownership :: "chat_player \<Rightarrow> 'a channel_scheme \<Rightarrow> bool" where
  "takes_ownership player s \<longleftrightarrow> \<not> IsConstant s \<and> ownershipEnabled s \<and>
     (playersStore s = [] \<or> cp_isGMVisible player) \<and> (ownerGuid s = 0 \<or> isOwnerInvisible s)"

lemma JoinedChannel_fields [simp]:
  "playersStore (JoinedChannel g s) = playersStore s" "ownerGuid (JoinedChannel g s) = ownerGuid s"
  "bannedStore (JoinedChannel g s) = bannedStore s" "channelGuid (JoinedChannel g s) = channelGuid s"
  "isOwnerInvisible (JoinedChannel g s) = isOwnerInvisible s" "ownershipEnabled (JoinedChannel g s) = ownershipEnabled s"
  "channelId (JoinedChannel g s) = channelId s" "announceEnabled (JoinedChannel g s) = announceEnabled s"
  "m_channels (JoinedChannel g s) = (m_channels s)(g := m_channels s g @ [channelGuid s])"
  by (simp_all add: JoinedChannel_def)

lemma entered_fields [simp]:
  "playersStore (entered player s) =
     om_set (cp_guid player) (PlayerInfo_new\<lparr>pi_invisible := \<not> cp_isGMVisible player\<rparr>) (playersStore s)"
  "ownerGuid (entered player s) = ownerGuid s" "bannedStore (entered player s) = bannedStore s"
  "channelGuid (entered player s) = channelGuid s" "isOwnerInvisible (entered player s) = isOwnerInvisible s"
  "ownershipEnabled (entered player s) = ownershipEnabled s" "channelId (entered player s) = channelId s"
  "m_channels (entered player s) = (m_channels s)(cp_guid player := m_channels s (cp_guid player) @ [channelGuid s])"
  by (simp_all add: entered_def Let_def)

lemma JoinChannel_admitted:
  assumes "admitted E player pass s"
  shows "\<exists>xs. JoinChannel E player pass s =
    (let s' = tell xs (entered player s) in
     if takes_ownership player s
     then change_info (cp_guid player) (PlayerInfo_SetModerator True)
       (SetOwner_guid E (cp_guid player) (playersStore s \<noteq> [] \<and> cp_isGMVisible player)
          (s'\<lparr>isOwnerInvisible := \<not> cp_isGMVisible player\<rparr>))
     else s')"
proof -
  let ?g = "cp_guid player"
  have c: "IsConstant (JoinedChannel g s) = IsConstant s" for g by (simp add: IsConstant_def)
  define xs0 where "xs0 = (if announceEnabled s \<and> \<not> may player RBAC_PERM_SILENTLY_JOIN_CHANNEL
     then receivers_all E (Notify (Append (JoinedAppend ?g))) 0 0 (playersStore s) else [])"
  have e: "(if announceEnabled (JoinedChannel ?g s) \<and> \<not> may player RBAC_PERM_SILENTLY_JOIN_CHANNEL
      then notify_all E (JoinedAppend ?g) (JoinedChannel ?g s) else JoinedChannel ?g s) = tell xs0 (JoinedChannel ?g s)"
    by (simp add: xs0_def)
  define t where "t = tell xs0 (JoinedChannel ?g s)"
  define t1 where "t1 = (if playersStore t = [] then t\<lparr>nextActivityUpdateTime := 0\<rparr> else t)
     \<lparr>playersStore := om_set ?g (PlayerInfo_new\<lparr>pi_invisible := \<not> cp_isGMVisible player\<rparr>)
        (playersStore (if playersStore t = [] then t\<lparr>nextActivityUpdateTime := 0\<rparr> else t))\<rparr>"
  have t1: "t1 = tell xs0 (entered player s)"
    by (simp add: t1_def t_def entered_def Let_def)
  define t2 where "t2 = JoinNotify E ?g (SendToOne E (ChannelNotifyJoined (channelFlags t1) (GetPlayerFlags ?g t1)) ?g t1)"
  obtain xs where t2: "t2 = tell xs (entered player s)"
    using JoinNotify_tell [of E ?g] unfolding t2_def t1 by (metis send_tell(3) tell_tell)
  have "JoinChannel E player pass s =
     (if \<not> IsConstant t2 \<and> ownershipEnabled t2 \<and> (playersStore t = [] \<or> \<not> \<not> cp_isGMVisible player) \<and>
         (ownerGuid t2 = 0 \<or> isOwnerInvisible t2)
      then change_info ?g (PlayerInfo_SetModerator True)
        (SetOwner_guid E ?g (playersStore t \<noteq> [] \<and> \<not> \<not> cp_isGMVisible player) (t2\<lparr>isOwnerInvisible := \<not> cp_isGMVisible player\<rparr>))
      else t2)"
    using assms unfolding JoinChannel_def admitted_def Let_def e
    by (simp only: t_def [symmetric] t1_def [symmetric] t2_def [symmetric] if_False simp_thms)
  moreover have "playersStore t = playersStore s" "IsConstant t2 = IsConstant s"
    by (simp_all add: t2 t_def IsConstant_def)
  then have "(\<not> IsConstant t2 \<and> ownershipEnabled t2 \<and> (playersStore t = [] \<or> \<not> \<not> cp_isGMVisible player) \<and>
         (ownerGuid t2 = 0 \<or> isOwnerInvisible t2)) = takes_ownership player s"
    by (simp add: t2 takes_ownership_def)
  ultimately have "JoinChannel E player pass s =
    (let s' = tell xs (entered player s) in
     if takes_ownership player s
     then change_info ?g (PlayerInfo_SetModerator True)
       (SetOwner_guid E ?g (playersStore s \<noteq> [] \<and> cp_isGMVisible player)
          (s'\<lparr>isOwnerInvisible := \<not> cp_isGMVisible player\<rparr>))
     else s')"
    using \<open>playersStore t = playersStore s\<close> by (simp only: t2 Let_def not_not)
  then show ?thesis by blast
qed

lemma JoinChannel_inv:
  assumes "chat_env_ok E" "is_connected E player" "channel_inv s"
  shows "channel_inv (JoinChannel E player pass s)"
proof (cases "admitted E player pass s")
  case False
  then show ?thesis using assms JoinChannel_refused by (metis channel_inv_tell)
next
  case True
  let ?g = "cp_guid player"
  have i: "members_ok (playersStore (entered player s)) (bannedStore s) (ownerGuid s)"
    using assms(3) True connected_nonzero [OF assms(1,2)]
    by (simp add: members_ok_join channel_inv_def admitted_def IsBanned_def)
  obtain xs where xs: "JoinChannel E player pass s =
    (let s' = tell xs (entered player s) in
     if takes_ownership player s
     then change_info ?g (PlayerInfo_SetModerator True)
       (SetOwner_guid E ?g (playersStore s \<noteq> [] \<and> cp_isGMVisible player)
          (s'\<lparr>isOwnerInvisible := \<not> cp_isGMVisible player\<rparr>))
     else s')"
    using JoinChannel_admitted [OF True] by blast
  show ?thesis
  proof (cases "takes_ownership player s")
    case False
    then show ?thesis using i by (simp add: xs channel_inv_def)
  next
    case T: True
    let ?t = "SetOwner_guid E ?g (playersStore s \<noteq> [] \<and> cp_isGMVisible player)
          (tell xs (entered player s)\<lparr>isOwnerInvisible := \<not> cp_isGMVisible player\<rparr>)"
    have "channel_inv ?t" by (rule SetOwner_guid_inv) (use i in simp)
    then have "channel_inv (change_info ?g (PlayerInfo_SetModerator True) ?t)"
      unfolding channel_inv_def change_info_eq by (auto intro!: members_ok_change dest: members_okD)
    then show ?thesis using T by (simp add: xs)
  qed
qed

end
