(* ===== verification/Channel_Rules.thy ===== *)
theory Channel_Rules imports Channel_Members begin

text \<open>
  Every operation of a channel preserves its invariant and the agreement between the members of the channel and
  the lists of joined channels of the players; the properties of a single channel.
\<close>

section \<open>Preservation\<close>

text \<open>\<open>lists_ok\<close>: the channel stands once in the list of each member and in no other list.\<close>

definition lists_ok :: "chat \<Rightarrow> bool" where
  "lists_ok s \<longleftrightarrow> (\<forall>p. count_list (m_channels s p) (channelGuid s) = (if IsOn p s then 1 else 0))"

definition other_channels :: "guid \<Rightarrow> guid list \<Rightarrow> guid list" where
  "other_channels c cs = filter (\<lambda>h. h \<noteq> c) cs"

definition same_channel :: "chat \<Rightarrow> chat \<Rightarrow> bool" where
  "same_channel s s' \<longleftrightarrow> channelGuid s' = channelGuid s \<and> channelId s' = channelId s \<and> zoneEntry s' = zoneEntry s \<and>
     (\<forall>p. other_channels (channelGuid s) (m_channels s' p) = other_channels (channelGuid s) (m_channels s p))"

definition preserves :: "chat \<Rightarrow> chat \<Rightarrow> bool" where
  "preserves s s' \<longleftrightarrow> same_channel s s' \<and> (channel_inv s \<longrightarrow> channel_inv s') \<and> (lists_ok s \<longrightarrow> lists_ok s')"

lemma preserves_refl [simp]: "preserves s s"
  by (simp add: preserves_def same_channel_def)

lemma preserves_tell [simp]: "preserves s (tell xs s)"
  by (simp add: preserves_def same_channel_def lists_ok_def)

lemma preserves_trans: "preserves s t \<Longrightarrow> preserves t u \<Longrightarrow> preserves s u"
  by (auto simp: preserves_def same_channel_def)

text \<open>A change of the member map that keeps its keys, and of fields that no list depends on.\<close>

lemma preserves_members:
  assumes "channelGuid s' = channelGuid s" "channelId s' = channelId s" "zoneEntry s' = zoneEntry s"
    "m_channels s' = m_channels s" "\<And>p. IsOn p s' = IsOn p s" "channel_inv s \<Longrightarrow> channel_inv s'"
  shows "preserves s s'"
  using assms by (simp add: preserves_def same_channel_def lists_ok_def)

lemma IsOn_change_info [simp]: "IsOn p (change_info g f s) = IsOn p s"
  by (auto simp: IsOn_def change_info_eq)

lemma change_info_fields [simp]:
  "channelGuid (change_info g f s) = channelGuid s" "channelId (change_info g f s) = channelId s"
  "zoneEntry (change_info g f s) = zoneEntry s" "m_channels (change_info g f s) = m_channels s"
  "ownerGuid (change_info g f s) = ownerGuid s" "bannedStore (change_info g f s) = bannedStore s"
  "playersStore (change_info g f s) = change_member g f (playersStore s)"
  "isOwnerInvisible (change_info g f s) = isOwnerInvisible s" "ownershipEnabled (change_info g f s) = ownershipEnabled s"
  by (simp_all add: change_info_eq)

lemma SetOwner_guid_fields [simp]:
  "channelGuid (SetOwner_guid E g ex s) = channelGuid s" "channelId (SetOwner_guid E g ex s) = channelId s"
  "zoneEntry (SetOwner_guid E g ex s) = zoneEntry s" "m_channels (SetOwner_guid E g ex s) = m_channels s"
  "bannedStore (SetOwner_guid E g ex s) = bannedStore s" "ownerGuid (SetOwner_guid E g ex s) = g"
  "playersStore (SetOwner_guid E g ex s) = owner_members (ownerGuid s) g (playersStore s)"
  "isOwnerInvisible (SetOwner_guid E g ex s) = isOwnerInvisible s"
  "ownershipEnabled (SetOwner_guid E g ex s) = ownershipEnabled s"
  using SetOwner_guid_eq [of E g ex s] by auto

lemma IsOn_SetOwner_guid [simp]: "IsOn p (SetOwner_guid E g ex s) = IsOn p s"
  by (simp add: IsOn_def om_find_owner_members)

lemma preserves_SetOwner_guid: "preserves s (SetOwner_guid E g ex s)"
  by (rule preserves_members) (simp_all add: SetOwner_guid_inv channel_inv_def members_ok_owner)

lemma preserves_moderator: "g \<noteq> ownerGuid s \<or> b \<Longrightarrow> preserves s (change_info g (PlayerInfo_SetModerator b) s)"
  by (rule preserves_members) (auto simp: channel_inv_def intro!: members_ok_change dest: members_okD)

lemma preserves_change:
  "(\<And>i. IsOwner (f i) = IsOwner i \<and> IsModerator (f i) = IsModerator i) \<Longrightarrow> preserves s (change_info g f s)"
  by (rule preserves_members) (auto simp: channel_inv_def intro!: members_ok_change dest: members_okD)

lemma other_channels_simps [simp]:
  "other_channels c (cs @ [c]) = other_channels c cs" "other_channels c (removeAll c cs) = other_channels c cs"
  by (simp_all add: other_channels_def removeAll_filter_not_eq) (metis (mono_tags, lifting))

lemma count_list_removeAll: "count_list (removeAll c cs) c = 0"
  by (simp add: count_list_0_iff)

lemma IsOn_simps [simp]:
  "IsOn p (s\<lparr>playersStore := om_set g i m\<rparr>) = (p = g \<or> om_find p m \<noteq> None)"
  "IsOn p (s\<lparr>playersStore := om_erase g m\<rparr>) = (p \<noteq> g \<and> om_find p m \<noteq> None)"
  by (simp_all add: IsOn_def)

lemma preserves_entered:
  assumes "admitted E player pass s" "chat_env_ok E" "is_connected E player"
  shows "preserves s (entered player s)"
proof -
  have "\<not> IsOn (cp_guid player) s" using assms(1) by (simp add: admitted_def)
  then have "lists_ok s \<longrightarrow> lists_ok (entered player s)"
    by (auto simp: lists_ok_def IsOn_def)
  moreover have "channel_inv s \<longrightarrow> channel_inv (entered player s)"
    using assms connected_nonzero [OF assms(2,3)]
    by (simp add: members_ok_join channel_inv_def admitted_def IsBanned_def)
  moreover have "zoneEntry (entered player s) = zoneEntry s"
    by (simp add: entered_def Let_def JoinedChannel_def)
  ultimately show ?thesis
    by (simp add: preserves_def same_channel_def)
qed

lemma preserves_invisible_owner: "preserves t (t\<lparr>isOwnerInvisible := b\<rparr>)"
  by (rule preserves_members) (simp_all add: IsOn_def channel_inv_def)

lemma preserves_JoinChannel:
  assumes "chat_env_ok E" "is_connected E player"
  shows "preserves s (JoinChannel E player pass s)"
proof (cases "admitted E player pass s")
  case False
  then obtain xs where "JoinChannel E player pass s = tell xs s" using JoinChannel_refused by blast
  then show ?thesis by simp
next
  case True
  let ?g = "cp_guid player"
  obtain xs where xs: "JoinChannel E player pass s =
    (let s' = tell xs (entered player s) in
     if takes_ownership player s
     then change_info ?g (PlayerInfo_SetModerator True)
       (SetOwner_guid E ?g (playersStore s \<noteq> [] \<and> cp_isGMVisible player)
          (s'\<lparr>isOwnerInvisible := \<not> cp_isGMVisible player\<rparr>))
     else s')"
    using JoinChannel_admitted [OF True] by blast
  have e: "preserves s (tell xs (entered player s))"
    using preserves_entered [OF True assms] preserves_tell preserves_trans by blast
  show ?thesis
  proof (cases "takes_ownership player s")
    case False
    with e show ?thesis by (simp add: xs)
  next
    case T: True
    show ?thesis
      unfolding xs Let_def if_P [OF T]
      by (rule preserves_trans [OF e], rule preserves_trans [OF preserves_invisible_owner],
          rule preserves_trans [OF preserves_SetOwner_guid], rule preserves_moderator) simp
  qed
qed

section \<open>Leaving\<close>

definition departed :: "bool \<Rightarrow> guid \<Rightarrow> chat \<Rightarrow> chat" where
  "departed send g s = (if send then LeftChannel g s else s)\<lparr>playersStore := om_erase g (playersStore s)\<rparr>"

lemma LeftChannel_fields [simp]:
  "playersStore (LeftChannel g s) = playersStore s" "ownerGuid (LeftChannel g s) = ownerGuid s"
  "bannedStore (LeftChannel g s) = bannedStore s" "channelGuid (LeftChannel g s) = channelGuid s"
  "isOwnerInvisible (LeftChannel g s) = isOwnerInvisible s" "ownershipEnabled (LeftChannel g s) = ownershipEnabled s"
  "channelId (LeftChannel g s) = channelId s" "announceEnabled (LeftChannel g s) = announceEnabled s"
  "zoneEntry (LeftChannel g s) = zoneEntry s" "channelFlags (LeftChannel g s) = channelFlags s"
  "m_channels (LeftChannel g s) = (m_channels s)(g := removeAll (channelGuid s) (m_channels s g))"
  by (simp_all add: LeftChannel_def)

lemma LeftChannel_tell [simp]: "LeftChannel g (tell xs s) = tell xs (LeftChannel g s)"
  by (simp add: LeftChannel_def)

lemma departed_fields [simp]:
  "playersStore (departed send g s) = om_erase g (playersStore s)" "ownerGuid (departed send g s) = ownerGuid s"
  "bannedStore (departed send g s) = bannedStore s" "channelGuid (departed send g s) = channelGuid s"
  "isOwnerInvisible (departed send g s) = isOwnerInvisible s" "ownershipEnabled (departed send g s) = ownershipEnabled s"
  "channelId (departed send g s) = channelId s" "zoneEntry (departed send g s) = zoneEntry s"
  "m_channels (departed send g s) =
     (if send then (m_channels s)(g := removeAll (channelGuid s) (m_channels s g)) else m_channels s)"
  by (simp_all add: departed_def)

definition passes_ownership :: "guid \<Rightarrow> 'a channel_scheme \<Rightarrow> bool" where
  "passes_ownership g s \<longleftrightarrow> \<not> IsConstant s \<and> IsOwner (info_at g s) \<and> ownershipEnabled s \<and> om_erase g (playersStore s) \<noteq> []"

definition pass_on :: "chat_env \<Rightarrow> guid \<times> player_info \<Rightarrow> chat \<Rightarrow> chat" where
  "pass_on E n t =
     (let (newOwner, info) = n;
          s'' = SetOwner_guid E newOwner True (change_info newOwner (PlayerInfo_SetModerator True) t)
      in if pi_invisible info then s''\<lparr>isOwnerInvisible := True\<rparr> else s'')"

lemma LeaveChannel_absent:
  "\<not> IsOn (cp_guid player) s \<Longrightarrow> \<exists>xs. LeaveChannel E player send suspend s = tell xs s"
  by (simp add: LeaveChannel_def)

lemma LeaveChannel_member:
  assumes "IsOn (cp_guid player) s"
  shows "\<exists>xs. LeaveChannel E player send suspend s =
    (let s' = tell xs (departed send (cp_guid player) s) in
     if passes_ownership (cp_guid player) s
     then pass_on E (next_owner (om_erase (cp_guid player) (playersStore s))) s'
     else s')"
proof -
  let ?g = "cp_guid player"
  define t where "t = (if send then LeftChannel ?g (SendToOne E (ChannelNotifyLeft suspend) ?g s) else s)"
  have t: "\<exists>xs. t = tell xs (if send then LeftChannel ?g s else s)"
    by (cases send) (simp_all add: t_def)
  define t1 where "t1 = (let t' = t\<lparr>playersStore := om_erase ?g (playersStore t)\<rparr> in
     if announceEnabled t' \<and> \<not> may player RBAC_PERM_SILENTLY_JOIN_CHANNEL then notify_all E (LeftAppend ?g) t' else t')"
  have "t\<lparr>playersStore := om_erase ?g (playersStore t)\<rparr> = tell xs (departed send ?g s)"
    if "t = tell xs (if send then LeftChannel ?g s else s)" for xs
    using that by (simp add: departed_def)
  with t have "\<exists>xs. t1 = tell xs (departed send ?g s)"
    unfolding t1_def Let_def by (metis send_tell(5) tell_tell)
  then obtain xs where xs: "LeaveNotify E ?g t1 = tell xs (departed send ?g s)"
    using LeaveNotify_tell by (metis tell_tell)
  have i: "info_at ?g t = info_at ?g s" using t by (auto simp: info_at_def)
  have "LeaveChannel E player send suspend s =
     (let s' = LeaveNotify E ?g t1 in
      if \<not> IsConstant s' \<and> IsOwner (info_at ?g t) \<and> ownershipEnabled s' \<and> playersStore s' \<noteq> []
      then pass_on E (next_owner (playersStore s')) s'
      else s')"
    using assms unfolding LeaveChannel_def t1_def t_def by (simp only: Let_def pass_on_def if_False not_True_eq_False simp_thms)
  moreover have "IsConstant (tell xs (departed send ?g s)) = IsConstant s"
    by (simp add: IsConstant_def)
  ultimately have "LeaveChannel E player send suspend s =
    (let s' = tell xs (departed send ?g s) in
     if passes_ownership ?g s
     then pass_on E (next_owner (om_erase ?g (playersStore s))) s'
     else s')"
    unfolding xs i by (simp only: Let_def passes_ownership_def tell_fields departed_fields)
  then show ?thesis by blast
qed

lemma preserves_pass_on: "preserves t (pass_on E n t)"
proof -
  obtain a b where n: "n = (a, b)" by (cases n)
  have p: "preserves t (SetOwner_guid E a True (change_info a (PlayerInfo_SetModerator True) t))"
    by (rule preserves_trans [OF preserves_moderator preserves_SetOwner_guid]) simp
  then show ?thesis
    using preserves_trans [OF p preserves_invisible_owner] by (simp add: n pass_on_def Let_def)
qed

lemma preserves_departed: "preserves s (departed True g s)"
  by (auto simp: preserves_def same_channel_def lists_ok_def IsOn_def count_list_removeAll channel_inv_def members_ok_erase)

text \<open>
  Leaving with a message keeps the lists; a silent leave keeps them once the caller has taken the channel off
  the player's list, before (\<^verbatim>\<open>CleanupChannels\<close>) or after (\<^verbatim>\<open>UpdateLocalChannels\<close>).
\<close>

lemma preserves_LeaveChannel: "preserves s (LeaveChannel E player True suspend s)"
proof (cases "IsOn (cp_guid player) s")
  case False
  then obtain xs where "LeaveChannel E player True suspend s = tell xs s" using LeaveChannel_absent by blast
  then show ?thesis by simp
next
  case True
  have "preserves s (tell xs (departed True (cp_guid player) s))" for xs
    using preserves_departed preserves_tell preserves_trans by blast
  then have "preserves s (let s' = tell xs (departed True (cp_guid player) s)
      in if P then pass_on E n s' else s')" for xs P n
    using preserves_pass_on preserves_trans by (cases P) (simp_all add: Let_def, blast)
  then show ?thesis
    using LeaveChannel_member [OF True, of E True suspend] by metis
qed

end
