(* ===== verification/Channel_Props.thy ===== *)
theory Channel_Props imports Channel_Rules begin

text \<open>
  The commands of members: who may change a channel, which command has no defined result, how ownership moves,
  and who hears a message. The properties of one channel are at the end.
\<close>

section \<open>Kicks and bans\<close>

definition privileged :: "chat_player \<Rightarrow> 'a channel_scheme \<Rightarrow> bool" where
  "privileged player s \<longleftrightarrow> IsOn (cp_guid player) s \<and>
     (IsModerator (info_at (cp_guid player) s) \<or> may player RBAC_PERM_CHANGE_CHANNEL_NOT_MODERATOR)"

definition kick_allowed :: "chat_env \<Rightarrow> chat_player \<Rightarrow> string \<Rightarrow> chat_player \<Rightarrow> 'a channel_scheme \<Rightarrow> bool" where
  "kick_allowed E player badname bad s \<longleftrightarrow> privileged player s \<and>
     FindConnectedPlayerByName E badname = Some bad \<and> cp_guid bad \<noteq> 0 \<and> IsOn (cp_guid bad) s \<and>
     (ownerGuid s = cp_guid bad \<longrightarrow> cp_guid player = ownerGuid s \<or> may player RBAC_PERM_CHANGE_CHANNEL_NOT_MODERATOR)"

definition removed :: "bool \<Rightarrow> guid \<Rightarrow> chat \<Rightarrow> chat" where
  "removed ban victim s = LeftChannel victim
     ((if ban then s\<lparr>bannedStore := ss_insert victim (bannedStore s), isDirty := True\<rparr> else s)
        \<lparr>playersStore := om_erase victim (playersStore s)\<rparr>)"

lemma removed_fields [simp]:
  "playersStore (removed ban v s) = om_erase v (playersStore s)" "ownerGuid (removed ban v s) = ownerGuid s"
  "bannedStore (removed ban v s) = (if ban then ss_insert v (bannedStore s) else bannedStore s)"
  "channelGuid (removed ban v s) = channelGuid s" "channelId (removed ban v s) = channelId s"
  "zoneEntry (removed ban v s) = zoneEntry s" "ownershipEnabled (removed ban v s) = ownershipEnabled s"
  "m_channels (removed ban v s) = (m_channels s)(v := removeAll (channelGuid s) (m_channels s v))"
  by (simp_all add: removed_def)

lemma KickOrBan_refused:
  assumes "\<forall>bad. \<not> kick_allowed E player badname bad s"
  shows "\<exists>xs. KickOrBan E player badname ban s = Some (tell xs s)"
proof (cases "FindConnectedPlayerByName E badname")
  case None
  then show ?thesis by (simp add: KickOrBan_def Let_def)
next
  case (Some bad)
  then have "\<not> kick_allowed E player badname bad s" using assms by blast
  then show ?thesis
    using Some by (auto simp: KickOrBan_def kick_allowed_def privileged_def Let_def)
qed

lemma tell_branches:
  "\<exists>xs. (if b then if c then tell ys u else u else if c then tell zs v else v) = tell xs (if b then u else v)"
  by (cases b; cases c) simp_all

lemma ban_or_announce_eq:
  "\<exists>xs. ban_or_announce E player v ban s =
     tell xs (if ban \<and> \<not> IsBanned v s then s\<lparr>bannedStore := ss_insert v (bannedStore s), isDirty := True\<rparr> else s)"
  unfolding ban_or_announce_def Let_def send_tell by (rule tell_branches)

lemma write_through_eq: "write_through g f s = (if IsOn g s then Some (change_info g f s) else None)"
  by (auto simp: write_through_def change_info_def IsOn_def split: option.split)

lemma remove_victim_eq:
  assumes "IsOn (cp_guid player) s"
  shows "\<exists>xs. remove_victim E player v ban s =
    (let s' = tell xs (removed (ban \<and> \<not> IsBanned v s) v s)
     in if ownerGuid s = v \<and> ownershipEnabled s \<and> om_erase v (playersStore s) \<noteq> []
        then if cp_guid player = v then None
             else Some (SetOwner_guid E (cp_guid player) True
               (change_info (cp_guid player) (PlayerInfo_SetModerator True) s'))
        else Some s')"
proof -
  obtain xs where xs: "ban_or_announce E player v ban s =
     tell xs (if ban \<and> \<not> IsBanned v s then s\<lparr>bannedStore := ss_insert v (bannedStore s), isDirty := True\<rparr> else s)"
    using ban_or_announce_eq by blast
  let ?a = "ban_or_announce E player v ban s"
  have r: "LeftChannel v (?a\<lparr>playersStore := om_erase v (playersStore ?a)\<rparr>) = tell xs (removed (ban \<and> \<not> IsBanned v s) v s)"
    by (simp add: xs removed_def)
  show ?thesis
    using assms unfolding remove_victim_def Let_def r by (intro exI [of _ xs]) (simp add: write_through_eq IsOn_def)
qed

lemma kick_allowed_on: "kick_allowed E player badname bad s \<Longrightarrow> IsOn (cp_guid player) s"
  by (simp add: kick_allowed_def privileged_def)

lemma KickOrBan_allowed:
  assumes "kick_allowed E player badname bad s"
  shows "KickOrBan E player badname ban s = remove_victim E player (cp_guid bad) ban s"
  using assms by (simp add: KickOrBan_def kick_allowed_def privileged_def Let_def) (metis)

lemma preserves_removed:
  "preserves s (removed (ban \<and> \<not> IsBanned v s) v s)"
proof -
  have "channel_inv s \<longrightarrow> channel_inv (removed (ban \<and> \<not> IsBanned v s) v s)"
    by (simp add: channel_inv_def members_ok_erase members_ok_ban)
  then show ?thesis
    by (auto simp: preserves_def same_channel_def lists_ok_def IsOn_def count_list_removeAll)
qed

lemma preserves_KickOrBan:
  assumes "KickOrBan E player badname ban s = Some s'"
  shows "preserves s s'"
proof (cases "\<exists>bad. kick_allowed E player badname bad s")
  case False
  then obtain xs where "KickOrBan E player badname ban s = Some (tell xs s)" using KickOrBan_refused by blast
  with assms have "s' = tell xs s" by simp
  then show ?thesis by simp
next
  case True
  then obtain bad where bad: "kick_allowed E player badname bad s" by blast
  obtain xs where xs: "remove_victim E player (cp_guid bad) ban s =
    (let s' = tell xs (removed (ban \<and> \<not> IsBanned (cp_guid bad) s) (cp_guid bad) s)
     in if ownerGuid s = cp_guid bad \<and> ownershipEnabled s \<and> om_erase (cp_guid bad) (playersStore s) \<noteq> []
        then if cp_guid player = cp_guid bad then None
             else Some (SetOwner_guid E (cp_guid player) True
               (change_info (cp_guid player) (PlayerInfo_SetModerator True) s'))
        else Some s')"
    using remove_victim_eq [OF kick_allowed_on [OF bad]] by blast
  let ?t = "tell xs (removed (ban \<and> \<not> IsBanned (cp_guid bad) s) (cp_guid bad) s)"
  have t: "preserves s ?t" using preserves_trans [OF preserves_removed preserves_tell] by blast
  have "preserves ?t (SetOwner_guid E (cp_guid player) True (change_info (cp_guid player) (PlayerInfo_SetModerator True) ?t))"
    by (rule preserves_trans [OF preserves_moderator preserves_SetOwner_guid]) simp
  then have "preserves s (SetOwner_guid E (cp_guid player) True (change_info (cp_guid player) (PlayerInfo_SetModerator True) ?t))"
    using preserves_trans [OF t] by blast
  then show ?thesis
    using assms t unfolding KickOrBan_allowed [OF bad] xs Let_def by (auto split: if_splits)
qed

section \<open>The other commands\<close>

lemma preserves_fields:
  "preserves s (s\<lparr>isDirty := d\<rparr>)" "preserves s (s\<lparr>channelPassword := w\<rparr>)" "preserves s (s\<lparr>announceEnabled := b\<rparr>)"
  "preserves s (s\<lparr>bannedStore := ss_erase v (bannedStore s)\<rparr>)"
  by (rule preserves_members; simp add: IsOn_def channel_inv_def members_ok_unban)+

lemmas preserves_simps =
  preserves_trans [OF _ preserves_tell] preserves_trans [OF _ preserves_fields(1)]

lemma preserves_tell_then: "preserves t u \<Longrightarrow> preserves t (tell xs u)" "preserves t u \<Longrightarrow> preserves t (u\<lparr>isDirty := d\<rparr>)"
  using preserves_trans [OF _ preserves_tell] preserves_trans [OF _ preserves_fields(1)] by blast+

lemma preserves_UnBan: "preserves s (UnBan E player badname s)"
  unfolding UnBan_def Let_def by (auto intro!: preserves_tell_then preserves_fields split: option.split)

lemma preserves_Password: "preserves s (Channel_Password E player pass s)"
  unfolding Channel_Password_def Let_def by (auto intro!: preserves_tell_then preserves_fields)

lemma preserves_Announce: "preserves s (Announce E player s)"
  unfolding Announce_def Let_def by (auto intro!: preserves_tell_then preserves_fields)

lemma preserves_SetMute: "preserves s (SetMute_guid E g b s)"
  unfolding SetMute_guid_def Let_def by (auto intro!: preserves_tell_then preserves_change)

lemma preserves_SetModerator:
  "g \<noteq> ownerGuid s \<or> b \<Longrightarrow> preserves s (SetModerator_guid E g b s)"
  unfolding SetModerator_guid_def Let_def by (auto intro!: preserves_tell_then preserves_moderator)

lemma preserves_SetMode:
  assumes "chat_env_ok E" "is_connected E player"
  shows "preserves s (SetMode E player p2n md st s)"
proof -
  have "preserves s (SetModerator_guid E (cp_guid newp) st s)"
    if "FindConnectedPlayerByName E p2n = Some newp" "\<not> (cp_guid player = ownerGuid s \<and> p2n = cp_name player \<and> md)" md
      "\<not> (ownerGuid s = cp_guid newp \<and> ownerGuid s \<noteq> cp_guid player)" for newp
  proof (rule preserves_SetModerator)
    have "cp_guid newp \<noteq> ownerGuid s"
    proof
      assume o: "cp_guid newp = ownerGuid s"
      then have "cp_guid player = cp_guid newp" using that(4) by metis
      then have "player = newp" using assms(2) by_name [OF assms(1) that(1)] by (simp add: is_connected_def)
      then show False using that(2,3) o by_name [OF assms(1) that(1)] by simp
    qed
    then show "cp_guid newp \<noteq> ownerGuid s \<or> st" by simp
  qed
  then show ?thesis
    unfolding SetMode_def Let_def by (auto intro: preserves_SetMute split: option.split)
qed

lemma preserves_SetInvisible: "preserves s (Channel_SetInvisible g b s)"
  unfolding Channel_SetInvisible_def Let_def
  by (auto intro: preserves_trans [OF preserves_change preserves_invisible_owner] preserves_change)

lemma preserves_SetOwner_name: "preserves s (SetOwner_name E player n s)"
  unfolding SetOwner_name_def Let_def
  by (auto intro: preserves_trans [OF preserves_moderator preserves_SetOwner_guid] split: option.split)

lemma List_tell: "\<exists>xs. Channel_List E player s = tell xs s"
  by (auto simp: Channel_List_def tell_def Let_def)

lemma WhoOwner_tell: "\<exists>xs. SendWhoOwner E player s = tell xs s"
  by (auto simp: SendWhoOwner_def Let_def)

lemma Invite_tell: "\<exists>xs. Channel_Invite E player n s = tell xs s"
  unfolding Channel_Invite_def Let_def by (auto split: option.split)

lemma preserves_channel_command: "preserves s (channel_command E op player s)"
proof (cases op)
  case CHAT_CHANNEL_DISPLAY_LIST
  then show ?thesis using List_tell [of E player s] by auto
next
  case CHAT_CHANNEL_LIST
  then show ?thesis using List_tell [of E player s] by auto
next
  case CHAT_CHANNEL_OWNER
  then show ?thesis using WhoOwner_tell [of E player s] by auto
qed (simp_all add: preserves_Announce DeclineInvite_def)

lemma preserves_channel_player_command:
  assumes "chat_env_ok E" "is_connected E player" "channel_player_command E op player name s = Some s'"
  shows "preserves s s'"
proof (cases op)
  case CHAT_CHANNEL_INVITE
  then show ?thesis using assms(3) Invite_tell [of E player name s] by auto
qed (use assms in \<open>auto intro: preserves_KickOrBan preserves_SetMode preserves_SetOwner_name preserves_UnBan
      simp: SilenceAll_def UnsilenceAll_def\<close>)

section \<open>Authority\<close>

lemma truncate_tell [simp]: "channel.truncate (tell xs s) = channel.truncate s"
  by (simp add: tell_def channel.defs)

text \<open>The commands that ask for a moderator change nothing for anybody else.\<close>

lemma unprivileged_tell:
  assumes "\<not> privileged player s"
  shows "\<exists>xs. KickOrBan E player n ban s = Some (tell xs s)" "\<exists>xs. UnBan E player n s = tell xs s"
    "\<exists>xs. SetMode E player n md st s = tell xs s" "\<exists>xs. Announce E player s = tell xs s"
    "\<exists>xs. Channel_Password E player w s = tell xs s"
  using assms
  by (auto simp: KickOrBan_def UnBan_def SetMode_def Announce_def Channel_Password_def privileged_def Let_def)

definition gm :: "chat_player \<Rightarrow> bool" where
  "gm player \<longleftrightarrow> may player RBAC_PERM_CHANGE_CHANNEL_NOT_MODERATOR"

lemma SetOwner_name_authority:
  assumes "\<not> (IsOn (cp_guid player) s \<and> (gm player \<or> cp_guid player = ownerGuid s))"
  shows "\<exists>xs. SetOwner_name E player n s = tell xs s"
  using assms by (auto simp: SetOwner_name_def gm_def Let_def)

text \<open>What a moderator who is neither owner nor game master cannot touch.\<close>

definition owner_untouched :: "chat \<Rightarrow> chat \<Rightarrow> bool" where
  "owner_untouched s s' \<longleftrightarrow> ownerGuid s' = ownerGuid s \<and>
     om_find (ownerGuid s) (playersStore s') = om_find (ownerGuid s) (playersStore s)"

lemma owner_untouched_tell [simp]:
  "owner_untouched s (tell xs s)" "owner_untouched s s" "owner_untouched s (tell xs t) = owner_untouched s t"
  "owner_untouched s (t\<lparr>isDirty := d\<rparr>) = owner_untouched s t"
  by (simp_all add: owner_untouched_def)

lemma owner_untouched_KickOrBan:
  assumes "KickOrBan E player n ban s = Some s'" "\<not> gm player" "cp_guid player \<noteq> ownerGuid s"
  shows "owner_untouched s s'"
proof (cases "\<exists>bad. kick_allowed E player n bad s")
  case False
  then obtain xs where "KickOrBan E player n ban s = Some (tell xs s)" using KickOrBan_refused by blast
  with assms have "s' = tell xs s" by simp
  then show ?thesis by simp
next
  case True
  then obtain bad where bad: "kick_allowed E player n bad s" by blast
  then have v: "ownerGuid s \<noteq> cp_guid bad" using assms by (auto simp: kick_allowed_def gm_def)
  obtain xs where "remove_victim E player (cp_guid bad) ban s =
      Some (tell xs (removed (ban \<and> \<not> IsBanned (cp_guid bad) s) (cp_guid bad) s))"
    using remove_victim_eq [OF kick_allowed_on [OF bad], of E "cp_guid bad" ban] v by auto
  then have "s' = tell xs (removed (ban \<and> \<not> IsBanned (cp_guid bad) s) (cp_guid bad) s)"
    using assms(1) KickOrBan_allowed [OF bad] by simp
  then show ?thesis using v by (simp add: owner_untouched_def)
qed

lemma owner_untouched_SetMode:
  assumes "cp_guid player \<noteq> ownerGuid s"
  shows "owner_untouched s (SetMode E player n md st s)"
proof -
  have "owner_untouched s (SetModerator_guid E g st s)" "owner_untouched s (SetMute_guid E g st s)" if "ownerGuid s \<noteq> g" for g
    using that by (auto simp: SetModerator_guid_def SetMute_guid_def Let_def owner_untouched_def)
  then show ?thesis
    using assms unfolding SetMode_def Let_def by (auto split: option.split)
qed

lemma owner_untouched_UnBan: "owner_untouched s (UnBan E player n s)"
  unfolding UnBan_def Let_def by (auto simp: owner_untouched_def split: option.split)

lemma unauthorized_command:
  assumes "channel_player_command E op player name s = Some s'"
    and "\<not> (privileged player s \<or> op = CHAT_CHANNEL_SET_OWNER \<and> IsOn (cp_guid player) s \<and> cp_guid player = ownerGuid s)"
  shows "\<exists>xs. s' = tell xs s"
proof (cases op)
  case CHAT_CHANNEL_SET_OWNER
  then have "\<not> (IsOn (cp_guid player) s \<and> (gm player \<or> cp_guid player = ownerGuid s))"
    using assms(2) by (auto simp: privileged_def gm_def)
  then show ?thesis using SetOwner_name_authority assms(1) CHAT_CHANNEL_SET_OWNER by (metis channel_player_command.simps(6) option.inject)
next
  case CHAT_CHANNEL_INVITE
  then show ?thesis using assms(1) Invite_tell [of E player name s] by auto
next
  case CHAT_CHANNEL_BAN
  then have "\<not> privileged player s" using assms(2) by simp
  then show ?thesis using assms(1) CHAT_CHANNEL_BAN unprivileged_tell(1) [of player s E name True] by auto
next
  case CHAT_CHANNEL_KICK
  then have "\<not> privileged player s" using assms(2) by simp
  then show ?thesis using assms(1) CHAT_CHANNEL_KICK unprivileged_tell(1) [of player s E name False] by auto
next
  case CHAT_CHANNEL_UNBAN
  then have "\<not> privileged player s" using assms(2) by simp
  then show ?thesis using assms(1) CHAT_CHANNEL_UNBAN unprivileged_tell(2) [of player s E name] by auto
next
  case CHAT_CHANNEL_MODERATOR
  then have "\<not> privileged player s" using assms(2) by simp
  then show ?thesis using assms(1) CHAT_CHANNEL_MODERATOR unprivileged_tell(3) [of player s E name True True] by auto
next
  case CHAT_CHANNEL_UNMODERATOR
  then have "\<not> privileged player s" using assms(2) by simp
  then show ?thesis using assms(1) CHAT_CHANNEL_UNMODERATOR unprivileged_tell(3) [of player s E name True False] by auto
next
  case CHAT_CHANNEL_MUTE
  then have "\<not> privileged player s" using assms(2) by simp
  then show ?thesis using assms(1) CHAT_CHANNEL_MUTE unprivileged_tell(3) [of player s E name False True] by auto
next
  case CHAT_CHANNEL_UNMUTE
  then have "\<not> privileged player s" using assms(2) by simp
  then show ?thesis using assms(1) CHAT_CHANNEL_UNMUTE unprivileged_tell(3) [of player s E name False False] by auto
qed (use assms(1) in \<open>simp_all add: SilenceAll_def UnsilenceAll_def\<close>)

lemma owner_untouched_command:
  assumes "channel_player_command E op player name s = Some s'" "\<not> gm player" "cp_guid player \<noteq> ownerGuid s"
  shows "owner_untouched s s'"
proof (cases op)
  case CHAT_CHANNEL_SET_OWNER
  have "\<not> (IsOn (cp_guid player) s \<and> (gm player \<or> cp_guid player = ownerGuid s))" using assms(2,3) by blast
  then obtain xs where "SetOwner_name E player name s = tell xs s" using SetOwner_name_authority by blast
  then have "s' = tell xs s" using assms(1) CHAT_CHANNEL_SET_OWNER by simp
  then show ?thesis by simp
next
  case CHAT_CHANNEL_INVITE
  then show ?thesis using assms(1) Invite_tell [of E player name s] by auto
qed (use assms in \<open>auto intro: owner_untouched_KickOrBan owner_untouched_SetMode owner_untouched_UnBan
    simp: SilenceAll_def UnsilenceAll_def\<close>)

text \<open>
  C10: A command of a member on another player changes the channel only when it comes from a member who is a
  moderator or holds the game master permission, or from the owner handing the channel over. One who is neither
  owner nor game master leaves the owner, the owner's entry and its flags as they are.
\<close>

theorem command_authority:
  assumes "channel_player_command E op player name s = Some s'"
  shows "(channel.truncate s' \<noteq> channel.truncate s \<longrightarrow> IsOn (cp_guid player) s \<and>
      (IsModerator (info_at (cp_guid player) s) \<or> gm player \<or>
       op = CHAT_CHANNEL_SET_OWNER \<and> cp_guid player = ownerGuid s)) \<and>
    (\<not> gm player \<and> cp_guid player \<noteq> ownerGuid s \<longrightarrow> ownerGuid s' = ownerGuid s \<and>
      om_find (ownerGuid s) (playersStore s') = om_find (ownerGuid s) (playersStore s))"
proof -
  have "channel.truncate s' \<noteq> channel.truncate s \<Longrightarrow> privileged player s \<or>
      op = CHAT_CHANNEL_SET_OWNER \<and> IsOn (cp_guid player) s \<and> cp_guid player = ownerGuid s"
    using unauthorized_command [OF assms] by (metis truncate_tell)
  then show ?thesis
    using owner_untouched_command [OF assms]
    unfolding privileged_def gm_def [symmetric] owner_untouched_def by blast
qed

text \<open>Players and a channel for the witnesses: an owner, a moderator, a plain member and a stranger.\<close>

definition demo_player :: "nat \<Rightarrow> string \<Rightarrow> u32 list \<Rightarrow> bool \<Rightarrow> chat_player" where
  "demo_player g n perms visible = \<lparr>cp_guid = g, cp_name = n, cp_team = 1, cp_rbac = (RBACData_new 0)\<lparr>rbac_global := perms\<rparr>,
     cp_security = 0, cp_isGMVisible = visible, cp_accountGuid = 100 + g, cp_hasGroup = False,
     cp_social = PlayerSocial_new g, cp_addons = []\<rparr>"

definition demo_ann :: chat_player where "demo_ann = demo_player 1 ''Ann'' [] True"
definition demo_bob :: chat_player where "demo_bob = demo_player 2 ''Bob'' [] True"
definition demo_cid :: chat_player where "demo_cid = (demo_player 3 ''Cid'' [] True)
  \<lparr>cp_social := snd (AddToSocialList 2 102 SOCIAL_FLAG_IGNORED (PlayerSocial_new 3))\<rparr>"
definition demo_eve :: chat_player where "demo_eve = demo_player 4 ''Eve'' [RBAC_PERM_CHANGE_CHANNEL_NOT_MODERATOR] False"

definition demo_chat_env :: chat_env where
  "demo_chat_env = \<lparr>online = [(1, demo_ann), (2, demo_bob), (3, demo_cid), (4, demo_eve)], restrictedLfg = False, twoSideChannels = False,
     gmLevelInWhoList = 0, visibleFor = (\<lambda>_ _. True), characterName = (\<lambda>_. None)\<rparr>"

definition demo_channel :: chat where
  "demo_channel = \<lparr>isDirty = False, nextActivityUpdateTime = 0, announceEnabled = True, ownershipEnabled = True,
     isOwnerInvisible = False, channelFlags = CHANNEL_FLAG_CUSTOM, channelId = 0, channelTeam = 1, channelGuid = 77,
     ownerGuid = 0, channelName = ''x'', channelPassword = [], playersStore = [], bannedStore = [], zoneEntry = None,
     m_channels = (\<lambda>_. []), sent = []\<rparr>"

definition demo_full :: chat where
  "demo_full = demo_channel\<lparr>ownerGuid := 1, playersStore := [(1, \<lparr>pi_flags = 3, pi_invisible = False\<rparr>),
     (2, \<lparr>pi_flags = 0, pi_invisible = False\<rparr>), (3, \<lparr>pi_flags = 0, pi_invisible = False\<rparr>)],
     m_channels := (\<lambda>p. if p \<in> {1, 2, 3} then [77] else [])\<rparr>"

lemmas demo_defs = demo_player_def demo_ann_def demo_bob_def demo_cid_def demo_eve_def demo_chat_env_def demo_channel_def demo_full_def
  RBACData_new_def PlayerSocial_new_def

lemma command_authority_witness:
  "\<exists>s'. channel_player_command demo_chat_env CHAT_CHANNEL_KICK demo_ann ''Bob'' demo_full = Some s' \<and>
     channel.truncate s' \<noteq> channel.truncate demo_full \<and> IsModerator (info_at 1 demo_full)"
proof -
  obtain s' where s': "channel_player_command demo_chat_env CHAT_CHANNEL_KICK demo_ann ''Bob'' demo_full = Some s'"
      "playersStore s' \<noteq> playersStore demo_full"
    by (simp add: KickOrBan_def remove_victim_def write_through_def ban_or_announce_def Let_def demo_defs FindConnectedPlayerByName_def
        IsOn_def info_at_def IsModerator_def player_info_defs member_flag_defs om_erase_def may_def HasPermission_def)
  then have n: "channel.truncate s' \<noteq> channel.truncate demo_full"
    by (auto simp: channel.defs)
  have "IsOn (cp_guid demo_ann) demo_full \<and> (IsModerator (info_at (cp_guid demo_ann) demo_full) \<or> gm demo_ann \<or> False)"
    using command_authority [OF s'(1)] n by auto
  then have "IsModerator (info_at 1 demo_full)"
    by (auto simp: gm_def may_def HasPermission_def demo_defs)
  with s' n show ?thesis by blast
qed

section \<open>A member who kicks himself\<close>

lemma erase_nonempty: "om_ok (playersStore s) \<Longrightarrow> om_erase v (playersStore s) \<noteq> [] \<longleftrightarrow> (\<exists>h. IsOn h s \<and> h \<noteq> v)"
  by (force simp: IsOn_def om_erase_def filter_empty_conv om_find_iff)

lemma KickOrBan_None:
  assumes "om_ok (playersStore s)"
  shows "KickOrBan E player badname ban s = None \<longleftrightarrow>
    (\<exists>bad h. kick_allowed E player badname bad s \<and> cp_guid bad = cp_guid player \<and> ownerGuid s = cp_guid player \<and>
       ownershipEnabled s \<and> IsOn h s \<and> h \<noteq> cp_guid player)"
proof (cases "\<exists>bad. kick_allowed E player badname bad s")
  case False
  then obtain xs where "KickOrBan E player badname ban s = Some (tell xs s)" using KickOrBan_refused by blast
  with False show ?thesis by auto
next
  case True
  then obtain bad where bad: "kick_allowed E player badname bad s" by blast
  have u: "bad' = bad" if "kick_allowed E player badname bad' s" for bad'
    using that bad by (simp add: kick_allowed_def)
  note o = erase_nonempty [OF assms]
  have "KickOrBan E player badname ban s = None \<longleftrightarrow> ownerGuid s = cp_guid bad \<and> ownershipEnabled s \<and>
      om_erase (cp_guid bad) (playersStore s) \<noteq> [] \<and> cp_guid player = cp_guid bad"
    unfolding KickOrBan_allowed [OF bad] using remove_victim_eq [OF kick_allowed_on [OF bad], of E "cp_guid bad" ban]
    by (auto simp: Let_def split: if_splits)
  also have "\<dots> \<longleftrightarrow> (\<exists>h. cp_guid bad = cp_guid player \<and> ownerGuid s = cp_guid player \<and> ownershipEnabled s \<and>
      IsOn h s \<and> h \<noteq> cp_guid player)"
    unfolding o by auto
  finally show ?thesis using bad u by metis
qed

text \<open>What a kick or ban that is allowed does when it has a result.\<close>

definition kick_result :: "chat_player \<Rightarrow> guid \<Rightarrow> bool \<Rightarrow> chat \<Rightarrow> chat \<Rightarrow> bool" where
  "kick_result player victim ban s s' \<longleftrightarrow> \<not> IsOn victim s' \<and> (\<forall>h. h \<noteq> victim \<longrightarrow> IsOn h s' = IsOn h s) \<and> (ban \<longrightarrow> IsBanned victim s') \<and>
     (if ownerGuid s = victim \<and> ownershipEnabled s \<and> (\<exists>h. IsOn h s \<and> h \<noteq> victim)
      then ownerGuid s' = cp_guid player \<and> IsOwner (info_at (cp_guid player) s') \<and> IsModerator (info_at (cp_guid player) s')
      else ownerGuid s' = ownerGuid s)"

lemma KickOrBan_result:
  assumes ok: "om_ok (playersStore s)" and bad: "kick_allowed E player badname bad s" and "KickOrBan E player badname ban s = Some s'"
    and "cp_guid player \<noteq> 0"
  shows "kick_result player (cp_guid bad) ban s s'"
proof -
  let ?v = "cp_guid bad"
  let ?b = "ban \<and> \<not> IsBanned ?v s"
  obtain xs where xs: "remove_victim E player ?v ban s =
    (let s' = tell xs (removed ?b ?v s)
     in if ownerGuid s = ?v \<and> ownershipEnabled s \<and> om_erase ?v (playersStore s) \<noteq> []
        then if cp_guid player = ?v then None
             else Some (SetOwner_guid E (cp_guid player) True (change_info (cp_guid player) (PlayerInfo_SetModerator True) s'))
        else Some s')"
    using remove_victim_eq [OF kick_allowed_on [OF bad]] by blast
  have on: "IsOn (cp_guid player) s" using kick_allowed_on [OF bad] .
  have banned: "ban \<longrightarrow> ?v \<in> set (if ?b then ss_insert ?v (bannedStore s) else bannedStore s)" by (auto simp: IsBanned_def)
  show ?thesis
  proof (cases "ownerGuid s = ?v \<and> ownershipEnabled s \<and> om_erase ?v (playersStore s) \<noteq> []")
    case True
    then have s': "cp_guid player \<noteq> ?v"
        "s' = SetOwner_guid E (cp_guid player) True (change_info (cp_guid player) (PlayerInfo_SetModerator True) (tell xs (removed ?b ?v s)))"
      using xs assms(3) unfolding KickOrBan_allowed [OF bad] by (auto simp: Let_def split: if_splits)
    let ?t = "change_info (cp_guid player) (PlayerInfo_SetModerator True) (tell xs (removed ?b ?v s))"
    have t: "playersStore ?t = change_member (cp_guid player) (PlayerInfo_SetModerator True) (om_erase ?v (playersStore s))"
      "bannedStore ?t = (if ?b then ss_insert ?v (bannedStore s) else bannedStore s)"
      by (simp_all add: change_info_eq)
    have f: "om_find h (playersStore s') = map_option (\<lambda>i. let i = (if h = ownerGuid ?t \<and> ownerGuid ?t \<noteq> 0 then PlayerInfo_SetOwner False i else i)
        in if h = cp_guid player then PlayerInfo_SetOwner True (PlayerInfo_SetModerator True i) else i) (om_find h (playersStore ?t))" for h
      using assms(4) unfolding s'(2) by (simp add: om_find_owner_members)
    have "IsOn h s' = (h \<noteq> ?v \<and> IsOn h s)" for h using f [of h] by (simp add: IsOn_def t om_find_change_member)
    moreover have "IsOwner (info_at (cp_guid player) s') \<and> IsModerator (info_at (cp_guid player) s')"
      using f [of "cp_guid player"] on s'(1) by (auto simp: info_at_def t om_find_change_member IsOn_def split: option.split)
    moreover have "ownerGuid s' = cp_guid player" "bannedStore s' = bannedStore ?t" unfolding s'(2) by simp_all
    ultimately show ?thesis using True banned t(2) unfolding kick_result_def erase_nonempty [OF ok, symmetric] by (simp add: IsBanned_def)
  next
    case False
    then have "s' = tell xs (removed ?b ?v s)" using xs assms(3) unfolding KickOrBan_allowed [OF bad] by (simp only: Let_def if_False) simp
    with False banned show ?thesis unfolding kick_result_def erase_nonempty [OF ok, symmetric] by (auto simp: IsOn_def IsBanned_def)
  qed
qed

text \<open>
  C39: Kicking or banning has a defined result except in one case: the owner of a channel with ownership names
  himself while other members remain. The code then writes the moderator flag through the reference \<^verbatim>\<open>info\<close> to
  his own entry, which it has just erased. In every other case that is allowed exactly the named member is off the channel, and when he
  was the owner of a channel with ownership and others remain, the one who kicked him is owner and moderator.
\<close>

theorem self_kick_undefined:
  assumes "om_ok (playersStore s)" "cp_guid player \<noteq> 0"
  shows "(KickOrBan E player badname ban s = None \<longleftrightarrow>
    (\<exists>bad h. kick_allowed E player badname bad s \<and> cp_guid bad = cp_guid player \<and> ownerGuid s = cp_guid player \<and>
       ownershipEnabled s \<and> IsOn h s \<and> h \<noteq> cp_guid player)) \<and>
    (\<forall>bad s'. kick_allowed E player badname bad s \<longrightarrow> KickOrBan E player badname ban s = Some s' \<longrightarrow> kick_result player (cp_guid bad) ban s s')"
  using KickOrBan_None [OF assms(1)] KickOrBan_result [OF assms(1) _ _ assms(2)] by blast

lemma self_kick_undefined_witness: "KickOrBan demo_chat_env demo_ann ''Ann'' False demo_full = None"
proof -
  have "om_ok (playersStore demo_full)" "cp_guid demo_ann \<noteq> 0" by (simp_all add: demo_defs)
  moreover have "kick_allowed demo_chat_env demo_ann ''Ann'' demo_ann demo_full \<and> cp_guid demo_ann = cp_guid demo_ann \<and>
      ownerGuid demo_full = cp_guid demo_ann \<and> ownershipEnabled demo_full \<and> IsOn 2 demo_full \<and> 2 \<noteq> cp_guid demo_ann"
    by (simp add: kick_allowed_def privileged_def demo_defs FindConnectedPlayerByName_def
        IsOn_def info_at_def player_info_defs member_flag_defs)
  ultimately show ?thesis using self_kick_undefined by blast
qed

section \<open>Ownership\<close>

definition ownerless :: "'a channel_scheme \<Rightarrow> bool" where
  "ownerless s \<longleftrightarrow> ownerGuid s \<noteq> 0 \<and> \<not> isOwnerInvisible s \<and>
     (\<forall>h i. om_find h (playersStore s) = Some i \<longrightarrow> \<not> IsOwner i \<and> \<not> IsModerator i)"

lemma ownerless_tell [simp]: "ownerless (tell xs s) = ownerless s"
  by (simp add: ownerless_def)

lemma join_ownerless:
  assumes "ownerless s"
  shows "ownerless (JoinChannel E p w s)"
proof (cases "admitted E p w s")
  case False
  then obtain xs where "JoinChannel E p w s = tell xs s" using JoinChannel_refused by blast
  then show ?thesis using assms by simp
next
  case True
  have "\<not> takes_ownership p s" using assms by (simp add: takes_ownership_def ownerless_def)
  then obtain xs where xs: "JoinChannel E p w s = tell xs (entered p s)"
    using JoinChannel_admitted [OF True] by (auto simp: Let_def)
  have "ownerless (entered p s)" using assms by (auto simp: ownerless_def)
  then show ?thesis by (simp add: xs)
qed

lemma leave_ownerless:
  assumes "ownerless s"
  shows "ownerless (LeaveChannel E player send suspend s)"
proof (cases "IsOn (cp_guid player) s")
  case False
  then show ?thesis using assms LeaveChannel_absent [OF False, of E send suspend] by auto
next
  case True
  with assms have "\<not> passes_ownership (cp_guid player) s"
    by (auto simp: passes_ownership_def ownerless_def IsOn_def info_at_def)
  then obtain xs where "LeaveChannel E player send suspend s = tell xs (departed send (cp_guid player) s)"
    using LeaveChannel_member [OF True, of E send suspend] by (auto simp: Let_def)
  moreover have "ownerless (departed send (cp_guid player) s)" using assms by (auto simp: ownerless_def om_find_erase split: if_splits)
  ultimately show ?thesis by simp
qed

text \<open>Players come (\<open>Inl\<close>) and go (\<open>Inr\<close>) in any order.\<close>

definition come_and_go :: "chat_env \<Rightarrow> chat_player \<times> string + chat_player \<times> bool \<times> bool \<Rightarrow> chat \<Rightarrow> chat" where
  "come_and_go E m = (case m of Inl (p, w) \<Rightarrow> JoinChannel E p w | Inr (p, send, suspend) \<Rightarrow> LeaveChannel E p send suspend)"

lemma moves_ownerless: "ownerless s \<Longrightarrow> ownerless (fold (come_and_go E) moves s)"
  by (induction moves arbitrary: s) (auto simp: come_and_go_def join_ownerless leave_ownerless split: sum.split)

text \<open>
  C40: The last member of a channel, its visible owner, leaves. \<open>ownerGuid\<close> keeps his guid, so however players, the former
  owner included, then join and leave the channel, no member is owner or moderator by that, although custom channels with ownership
  give ownership to whoever joins first and pass it on when the owner leaves. A command can still change it: \<open>SetOwner\<close> of a
  game master, or of the former owner, whose guid is the recorded one.
\<close>

theorem abandoned_channel_ownerless:
  assumes "IsOn (cp_guid player) s" "om_erase (cp_guid player) (playersStore s) = []"
    and "ownerGuid s = cp_guid player" "cp_guid player \<noteq> 0" "\<not> isOwnerInvisible s"
  shows "let s' = fold (come_and_go E) moves (LeaveChannel E player send suspend s)
    in ownerGuid s' \<noteq> 0 \<and> (\<forall>h i. om_find h (playersStore s') = Some i \<longrightarrow> \<not> IsOwner i \<and> \<not> IsModerator i)"
proof -
  have "\<not> passes_ownership (cp_guid player) s" using assms by (simp add: passes_ownership_def)
  then obtain xs where "LeaveChannel E player send suspend s = tell xs (departed send (cp_guid player) s)"
    using LeaveChannel_member [OF assms(1), of E send suspend] by (auto simp: Let_def)
  moreover have "ownerless (departed send (cp_guid player) s)" using assms by (simp add: ownerless_def)
  ultimately have "ownerless (LeaveChannel E player send suspend s)" by simp
  then have "ownerless (fold (come_and_go E) moves (LeaveChannel E player send suspend s))"
    by (rule moves_ownerless)
  then show ?thesis by (simp add: ownerless_def Let_def)
qed

definition demo_solo :: chat where
  "demo_solo = demo_channel\<lparr>ownerGuid := 1, playersStore := [(1, \<lparr>pi_flags = 3, pi_invisible = False\<rparr>)],
     m_channels := (\<lambda>p. if p = 1 then [77] else [])\<rparr>"

lemma abandoned_channel_ownerless_witness:
  "let s' = JoinChannel demo_chat_env demo_bob [] (JoinChannel demo_chat_env demo_ann [] (LeaveChannel demo_chat_env demo_ann True False demo_solo))
   in ownerGuid s' \<noteq> 0 \<and> IsOn 2 s' \<and> \<not> IsModerator (info_at 2 s')"
proof -
  let ?s = "JoinChannel demo_chat_env demo_bob [] (JoinChannel demo_chat_env demo_ann [] (LeaveChannel demo_chat_env demo_ann True False demo_solo))"
  have "ownerGuid ?s \<noteq> 0 \<and> (\<forall>h i. om_find h (playersStore ?s) = Some i \<longrightarrow> \<not> IsOwner i \<and> \<not> IsModerator i)"
    using abandoned_channel_ownerless [of demo_ann demo_solo demo_chat_env "[Inl (demo_ann, []), Inl (demo_bob, [])]" True False]
    by (simp add: demo_solo_def demo_defs IsOn_def om_erase_def Let_def come_and_go_def)
  moreover have "IsOn 2 ?s" by code_simp
  ultimately show ?thesis
    by (auto simp: Let_def IsOn_def info_at_def split: option.split)
qed

text \<open>
  An owner who is an invisible game master leaves and a visible member is picked as the new owner. The mark
  \<open>isOwnerInvisible\<close> stays set, so the next visible player who joins takes the channel from the new owner.
\<close>

lemma next_owner_visible:
  assumes "om_find v m = Some i" "\<not> pi_invisible i"
  shows "\<not> pi_invisible (snd (next_owner m)) \<and> next_owner m \<in> set m"
proof -
  have "(v, i) \<in> set m" using assms(1) by (rule om_find_in_set)
  then obtain x where x: "List.find (\<lambda>x. \<not> pi_invisible (snd x)) m = Some x"
    using assms(2) by (cases "List.find (\<lambda>x. \<not> pi_invisible (snd x)) m") (auto simp: find_None_iff)
  then have "x \<in> set m" "\<not> pi_invisible (snd x)" by (auto simp: find_Some_iff)
  then show ?thesis by (simp add: next_owner_def x)
qed

lemma owner_leaves:
  assumes "channel_inv s" "\<not> IsConstant s" "ownershipEnabled s"
    and "IsOn (cp_guid player) s" "IsOwner (info_at (cp_guid player) s)"
    and "om_find v (playersStore s) = Some i" "v \<noteq> cp_guid player" "\<not> pi_invisible i"
  obtains w wi xs where "om_find w (playersStore s) = Some wi" "\<not> pi_invisible wi" "w \<noteq> cp_guid player" "w \<noteq> 0"
    "LeaveChannel E player send suspend s =
       SetOwner_guid E w True (change_info w (PlayerInfo_SetModerator True) (tell xs (departed send (cp_guid player) s)))"
proof -
  let ?m = "om_erase (cp_guid player) (playersStore s)"
  obtain w wi where n: "next_owner ?m = (w, wi)" by (cases "next_owner ?m")
  have ok: "om_ok (playersStore s)" using assms(1) by (simp add: channel_inv_def members_ok_def)
  have "om_find v ?m = Some i" using assms(6,7) by simp
  then have wi: "(w, wi) \<in> set ?m" "\<not> pi_invisible wi"
    using next_owner_visible [of v ?m i] assms(8) n by simp_all
  then have w: "om_find w (playersStore s) = Some wi" "w \<noteq> cp_guid player"
    using ok by (simp_all add: om_erase_def om_find_iff)
  have "w \<noteq> 0" using assms(1) w(1) unfolding channel_inv_def by (rule members_okD)
  have "?m \<noteq> []" using wi(1) by (cases ?m) simp_all
  then have "passes_ownership (cp_guid player) s" using assms by (simp add: passes_ownership_def)
  then obtain xs where "LeaveChannel E player send suspend s =
       SetOwner_guid E w True (change_info w (PlayerInfo_SetModerator True) (tell xs (departed send (cp_guid player) s)))"
    using LeaveChannel_member [OF assms(4), of E send suspend] wi(2)
    by (auto simp: pass_on_def n Let_def)
  with that w wi(2) \<open>w \<noteq> 0\<close> show ?thesis by blast
qed

lemma SetOwner_guid_more [simp]:
  "channelPassword (SetOwner_guid E g ex s) = channelPassword s" "channelFlags (SetOwner_guid E g ex s) = channelFlags s"
  "channelPassword (change_info g f s) = channelPassword s" "channelFlags (change_info g f s) = channelFlags s"
  "channelPassword (departed send g s) = channelPassword s" "channelFlags (departed send g s) = channelFlags s"
  using SetOwner_guid_eq [of E g ex s] by (auto simp: change_info_eq departed_def LeftChannel_def)

theorem stale_invisible_owner:
  assumes "channel_inv s" "\<not> IsConstant s" "ownershipEnabled s" "isOwnerInvisible s"
    and "IsOn (cp_guid player) s" "IsOwner (info_at (cp_guid player) s)"
    and "om_find v (playersStore s) = Some i" "v \<noteq> cp_guid player" "\<not> pi_invisible i"
    and "cp_guid newcomer \<noteq> 0" "cp_isGMVisible newcomer" "admitted E newcomer pass s"
  shows "let s1 = LeaveChannel E player send suspend s; s2 = JoinChannel E newcomer pass s1
    in IsOwner (info_at (ownerGuid s1) s1) \<and> \<not> pi_invisible (info_at (ownerGuid s1) s1) \<and>
       ownerGuid s2 = cp_guid newcomer \<and> IsOn (ownerGuid s1) s2 \<and> \<not> IsOwner (info_at (ownerGuid s1) s2)"
proof -
  let ?n = "cp_guid newcomer"
  obtain w wi xs where w: "om_find w (playersStore s) = Some wi" "\<not> pi_invisible wi" "w \<noteq> cp_guid player" "w \<noteq> 0"
    and l: "LeaveChannel E player send suspend s =
       SetOwner_guid E w True (change_info w (PlayerInfo_SetModerator True) (tell xs (departed send (cp_guid player) s)))"
    using owner_leaves [OF assms(1-3,5-9)] by blast
  define s1 where "s1 = LeaveChannel E player send suspend s"
  have own: "ownerGuid s = cp_guid player"
    using assms(1,5,6) unfolding channel_inv_def by (auto simp: IsOn_def info_at_def dest: members_okD)
  have wn: "om_find ?n (playersStore s) = None" using assms(12) by (simp add: admitted_def IsOn_def)
  have f: "ownerGuid s1 = w" "isOwnerInvisible s1" "ownershipEnabled s1" "\<not> IsConstant s1"
    "om_find w (playersStore s1) =
       Some (PlayerInfo_SetOwner True (PlayerInfo_SetModerator True (PlayerInfo_SetModerator True wi)))"
    "om_find ?n (playersStore s1) = None" "bannedStore s1 = bannedStore s" "channelPassword s1 = channelPassword s"
    "channelFlags s1 = channelFlags s"
    using assms(2-4) w own wn by (auto simp: s1_def l om_find_owner_members IsConstant_def)
  have adm: "admitted E newcomer pass s1"
    using assms(12) f by (simp add: admitted_def IsOn_def IsBanned_def CheckPassword_def Channel_HasFlag_def)
  have t: "takes_ownership newcomer s1" using f assms(11) by (simp add: takes_ownership_def)
  obtain ys where s2: "JoinChannel E newcomer pass s1 = change_info ?n (PlayerInfo_SetModerator True)
       (SetOwner_guid E ?n (playersStore s1 \<noteq> [] \<and> cp_isGMVisible newcomer)
          ((tell ys (entered newcomer s1))\<lparr>isOwnerInvisible := \<not> cp_isGMVisible newcomer\<rparr>))"
    using JoinChannel_admitted [OF adm] t by (auto simp: Let_def)
  have "w \<noteq> ?n" using w(1) wn by auto
  then have "om_find w (playersStore (JoinChannel E newcomer pass s1)) = Some (PlayerInfo_SetOwner False
      (PlayerInfo_SetOwner True (PlayerInfo_SetModerator True (PlayerInfo_SetModerator True wi))))"
    using f w(4) by (simp add: s2 om_find_owner_members)
  moreover have "ownerGuid (JoinChannel E newcomer pass s1) = ?n" by (simp add: s2)
  moreover have "pi_invisible (PlayerInfo_SetOwner True (PlayerInfo_SetModerator True (PlayerInfo_SetModerator True wi))) =
      pi_invisible wi"
    by (simp add: player_info_defs)
  ultimately show ?thesis
    using f w by (simp add: s1_def [symmetric] Let_def IsOn_def info_at_def)
qed

definition demo_ghost :: chat where
  "demo_ghost = demo_channel\<lparr>ownerGuid := 4, isOwnerInvisible := True,
     playersStore := [(1, \<lparr>pi_flags = 0, pi_invisible = False\<rparr>), (4, \<lparr>pi_flags = 3, pi_invisible = True\<rparr>)]\<rparr>"

lemma stale_invisible_owner_witness:
  "let s1 = LeaveChannel demo_chat_env demo_eve True False demo_ghost; s2 = JoinChannel demo_chat_env demo_bob [] s1
   in IsOwner (info_at (ownerGuid s1) s1) \<and> ownerGuid s2 = 2 \<and> \<not> IsOwner (info_at (ownerGuid s1) s2)"
proof -
  have "channel_inv demo_ghost"
    by (auto simp: channel_inv_def members_ok_def demo_ghost_def demo_defs player_info_defs member_flag_defs)
  moreover have "\<not> IsConstant demo_ghost" "IsOn (cp_guid demo_eve) demo_ghost" "IsOwner (info_at (cp_guid demo_eve) demo_ghost)"
    "admitted demo_chat_env demo_bob [] demo_ghost"
    by code_simp+
  moreover have "ownershipEnabled demo_ghost" "isOwnerInvisible demo_ghost" "cp_guid demo_bob = 2" "cp_isGMVisible demo_bob"
    "om_find 1 (playersStore demo_ghost) = Some \<lparr>pi_flags = 0, pi_invisible = False\<rparr>" "1 \<noteq> cp_guid demo_eve"
    by (simp_all add: demo_ghost_def demo_defs)
  ultimately show ?thesis
    using stale_invisible_owner [of demo_ghost demo_eve 1 "\<lparr>pi_flags = 0, pi_invisible = False\<rparr>" demo_bob demo_chat_env "[]" True False]
    by (simp add: Let_def)
qed

section \<open>Who hears a message\<close>

text \<open>
  A message of an unmuted member reaches exactly the connected members, each once, and nobody who ignores the
  speaker or his account, unless the speaker is a moderator, whom every member hears. A muted member and one who
  is not on the channel reach nobody.
\<close>

theorem Say_delivery:
  assumes "channel_inv s" "what \<noteq> []"
  shows "\<exists>xs. Say E g what lang s = tell xs s \<and> distinct (map fst xs) \<and>
    (if IsOn g s \<and> \<not> IsMuted (info_at g s)
     then (\<forall>r pkt. (r, pkt) \<in> set xs \<longleftrightarrow>
        pkt = ChatMessage g (if twoSideChannels E then 0 else lang) what \<and> IsOn r s \<and>
        (\<exists>p. FindConnectedPlayer E r = Some p \<and> (IsModerator (info_at g s) \<or> \<not> HasIgnore g
           (case FindConnectedPlayer E g of Some sp \<Rightarrow> cp_accountGuid sp | None \<Rightarrow> 0) (cp_social p))))
     else set xs \<subseteq> {(g, Notify (Append (if IsOn g s then MutedAppend else NotMemberAppend)))})"
proof (cases "IsOn g s \<and> \<not> IsMuted (info_at g s)")
  case False
  have "\<exists>xs. Say E g what lang s = tell xs s \<and> distinct (map fst xs) \<and>
      set xs \<subseteq> {(g, Notify (Append (if IsOn g s then MutedAppend else NotMemberAppend)))}"
    using False assms(2) by (intro exI [of _ "receiver E (Notify (Append (if IsOn g s then MutedAppend else NotMemberAppend))) g"])
      (auto simp: Say_def receiver_def Let_def)
  then show ?thesis unfolding if_not_P [OF False] .
next
  case True
  then have "g \<noteq> 0" using assms(1) unfolding channel_inv_def IsOn_def by (auto dest: members_okD)
  have ok: "om_ok (playersStore s)" using assms(1) by (simp add: channel_inv_def members_ok_def)
  define acct where "acct = (case FindConnectedPlayer E g of Some sp \<Rightarrow> cp_accountGuid sp | None \<Rightarrow> 0)"
  define pkt where "pkt = ChatMessage g (if twoSideChannels E then 0 else lang) what"
  define ig where "ig = ignored_as E g (info_at g s)"
  let ?xs = "receivers_all E pkt (fst ig) (snd ig) (playersStore s)"
  have say: "Say E g what lang s = tell ?xs s"
    using True assms(2) by (simp add: Say_def pkt_def ig_def [symmetric] split_def Let_def)
  have d: "distinct (map fst ?xs)"
    using ok by (auto simp: receivers_all_def comp_def distinct_map_filter om_ok_distinct)
  have t: "(fst ig = 0 \<or> \<not> HasIgnore (fst ig) (snd ig) so) = (IsModerator (info_at g s) \<or> \<not> HasIgnore g acct so)" for so
    using \<open>g \<noteq> 0\<close> by (simp add: ig_def ignored_as_def acct_def)
  have "(r, q) \<in> set ?xs \<longleftrightarrow> q = pkt \<and> IsOn r s \<and>
      (\<exists>p. FindConnectedPlayer E r = Some p \<and> (IsModerator (info_at g s) \<or> \<not> HasIgnore g acct (cp_social p)))" for r q
    using ok by (force simp: receivers_all_def IsOn_def om_find_iff t split: option.splits)
  then show ?thesis
    using True say d by (auto simp: pkt_def acct_def)
qed

lemma Say_delivery_witness:
  "sent (Say demo_chat_env 2 ''hi'' 7 demo_full) = [(1, ChatMessage 2 7 ''hi''), (2, ChatMessage 2 7 ''hi'')]"
proof -
  have i: "channel_inv demo_full"
    by (auto simp: channel_inv_def members_ok_def demo_defs player_info_defs member_flag_defs)
  obtain xs where "Say demo_chat_env 2 ''hi'' 7 demo_full = tell xs demo_full"
    using Say_delivery [OF i, of "''hi''" demo_chat_env 2 7] by auto
  moreover have "sent (Say demo_chat_env 2 ''hi'' 7 demo_full) = [(1, ChatMessage 2 7 ''hi''), (2, ChatMessage 2 7 ''hi'')]"
    by code_simp
  ultimately show ?thesis by simp
qed

end
