(* ===== verification/Channel_Bans.thy ===== *)
theory Channel_Bans imports Channel_Props begin

text \<open>
  How a custom channel is written to the database and built from it: the two constructors of \<^verbatim>\<open>Channel\<close>,
  \<^verbatim>\<open>Channel::UpdateChannelInDB\<close>, \<^verbatim>\<open>ObjectGuid::ToHexString\<close>, \<^verbatim>\<open>Trinity::Tokenize\<close> and the base 16 case of
  \<^verbatim>\<open>Trinity::StringTo<uint64>\<close>. An uncaught \<^verbatim>\<open>std::out_of_range\<close> of \<^verbatim>\<open>substr\<close> is \<open>None\<close>. The set of bans is
  unordered in the code; the model writes it in the order of the guids.
\<close>

section \<open>Guids as text\<close>

definition hex_digit :: "nat \<Rightarrow> char" where
  "hex_digit d = ''0123456789ABCDEF'' ! d"

fun hex_pad :: "nat \<Rightarrow> nat \<Rightarrow> string" where
  "hex_pad 0 n = []"
| "hex_pad (Suc k) n = hex_pad k (n div 16) @ [hex_digit (n mod 16)]"

text \<open>\<^verbatim>\<open>{:016X}\<close>\<close>

definition hex16 :: "nat \<Rightarrow> string" where
  "hex16 n = hex_pad 16 n"

definition ToHexString :: "guid \<Rightarrow> string" where
  "ToHexString g = ''0x'' @ hex16 (g div 2 ^ 64) @ hex16 (g mod 2 ^ 64)"

text \<open>\<^verbatim>\<open>std::from_chars\<close> for base 16 on the whole text: digits of both cases, no prefix, no sign.\<close>

definition hex_value :: "char \<Rightarrow> nat option" where
  "hex_value c =
     (let n = (of_char c :: nat) in
      if 48 \<le> n \<and> n \<le> 57 then Some (n - 48)
      else if 65 \<le> n \<and> n \<le> 70 then Some (n - 55)
      else if 97 \<le> n \<and> n \<le> 102 then Some (n - 87)
      else None)"

fun hex_number :: "nat \<Rightarrow> string \<Rightarrow> nat option" where
  "hex_number v [] = Some v"
| "hex_number v (c # cs) = (case hex_value c of None \<Rightarrow> None | Some d \<Rightarrow> hex_number (16 * v + d) cs)"

definition StringTo_hex64 :: "string \<Rightarrow> nat option" where
  "StringTo_hex64 str =
     (if str = [] then None
      else case hex_number 0 str of None \<Rightarrow> None | Some v \<Rightarrow> if v < 2 ^ 64 then Some v else None)"

fun Tokenize :: "char \<Rightarrow> bool \<Rightarrow> string \<Rightarrow> string \<Rightarrow> string list" where
  "Tokenize sep keepEmpty token [] = (if keepEmpty \<or> token \<noteq> [] then [token] else [])"
| "Tokenize sep keepEmpty token (c # cs) =
     (if c = sep then (if keepEmpty \<or> token \<noteq> [] then [token] else []) @ Tokenize sep keepEmpty [] cs
      else Tokenize sep keepEmpty (token @ [c]) cs)"

text \<open>\<^verbatim>\<open>std::string_view::substr(pos, n)\<close> throws when \<open>pos\<close> lies behind the end.\<close>

definition substr :: "nat \<Rightarrow> nat \<Rightarrow> string \<Rightarrow> string option" where
  "substr pos n s = (if pos > length s then None else Some (take n (drop pos s)))"

text \<open>One entry of the list of bans.\<close>

definition load_ban :: "string \<Rightarrow> guid list \<Rightarrow> guid list option" where
  "load_ban tok banned =
     (let tok = (if length tok > 2 \<and> take 2 tok = ''0x'' then take (length tok - 2) tok else tok)
      in case substr 16 16 tok of
           None \<Rightarrow> None
         | Some lowText \<Rightarrow>
             (case (StringTo_hex64 (take 16 tok), StringTo_hex64 lowText) of
                (Some high, Some low) \<Rightarrow>
                  (let g = high * 2 ^ 64 + low in Some (if g = 0 then banned else ss_insert g banned))
              | _ \<Rightarrow> Some banned))"

fun load_bans :: "string list \<Rightarrow> guid list \<Rightarrow> guid list option" where
  "load_bans [] banned = Some banned"
| "load_bans (tok # toks) banned = Option.bind (load_ban tok banned) (load_bans toks)"

definition Channel_custom :: "guid \<Rightarrow> string \<Rightarrow> u32 \<Rightarrow> string \<Rightarrow> channel option" where
  "Channel_custom g name team banList =
     map_option (\<lambda>banned.
       \<lparr>isDirty = False, nextActivityUpdateTime = 0, announceEnabled = True, ownershipEnabled = True,
        isOwnerInvisible = False, channelFlags = CHANNEL_FLAG_CUSTOM, channelId = 0, channelTeam = team,
        channelGuid = g, ownerGuid = 0, channelName = name, channelPassword = [], playersStore = [],
        bannedStore = banned, zoneEntry = None\<rparr>)
       (load_bans (Tokenize (CHR '' '') False [] banList) [])"

text \<open>The flags of a row of \<^verbatim>\<open>ChatChannels.db2\<close> that the code asks for.\<close>

record chat_channels_entry =
  cce_AllowItemLinks :: bool
  cce_LinkedChannel :: bool
  cce_LookingForGroup :: bool
  cce_ZoneBased :: bool
  cce_GlobalForTournament :: bool
  cce_Initial :: bool
  cce_Global :: bool
  cce_CityOnly :: bool

definition Channel_builtin :: "chat_channels_entry \<Rightarrow> guid \<Rightarrow> u32 \<Rightarrow> u32 \<Rightarrow> nat option \<Rightarrow> channel" where
  "Channel_builtin entry g cid team zone =
     \<lparr>isDirty = False, nextActivityUpdateTime = 0, announceEnabled = False, ownershipEnabled = False,
      isOwnerInvisible = False,
      channelFlags = (let f = CHANNEL_FLAG_GENERAL;
                          f = (if cce_AllowItemLinks entry then f OR CHANNEL_FLAG_TRADE else f);
                          f = (if cce_LinkedChannel entry then f OR CHANNEL_FLAG_CITY else f)
                      in if cce_LookingForGroup entry then f OR CHANNEL_FLAG_LFG else f OR CHANNEL_FLAG_NOT_LFG),
      channelId = cid, channelTeam = team, channelGuid = g, ownerGuid = 0, channelName = [], channelPassword = [],
      playersStore = [], bannedStore = [], zoneEntry = zone\<rparr>"

datatype channel_statement =
    UPD_CHANNEL string u32 bool bool string string
  | UPD_CHANNEL_USAGE string u32
  | DEL_OLD_CHANNELS nat
  | DEL_CHANNEL string u32

definition banlist :: "guid list \<Rightarrow> string" where
  "banlist banned = concat (map (\<lambda>g. ToHexString g @ '' '') banned)"

text \<open>\<open>delay\<close> is the random delay until the next activity update, in seconds.\<close>

definition UpdateChannelInDB :: "int \<Rightarrow> int \<Rightarrow> channel \<Rightarrow> channel \<times> channel_statement list" where
  "UpdateChannelInDB now delay c =
     (let done = (\<lambda>stmts. (c\<lparr>isDirty := False, nextActivityUpdateTime := now + delay\<rparr>, stmts))
      in if isDirty c
         then done [UPD_CHANNEL (channelName c) (channelTeam c) (announceEnabled c) (ownershipEnabled c)
                      (channelPassword c) (banlist (bannedStore c))]
         else if nextActivityUpdateTime c \<le> now
         then done (if playersStore c \<noteq> [] then [UPD_CHANNEL_USAGE (channelName c) (channelTeam c)] else [])
         else (c, []))"

section \<open>Text lemmas\<close>

lemma length_hex_pad [simp]: "length (hex_pad k n) = k"
  by (induction k n rule: hex_pad.induct) auto

lemma hex_digit_values: "\<forall>d \<in> set [0..<16]. hex_value (hex_digit d) = Some d"
  by code_simp

lemma hex_digit_value: "d < 16 \<Longrightarrow> hex_value (hex_digit d) = Some d"
  using hex_digit_values by simp

lemma hex_digit_not_space: "d < 16 \<Longrightarrow> hex_digit d \<noteq> CHR '' ''"
  using hex_digit_value [of d] by (auto simp: hex_value_def)

lemma hex_number_append:
  "hex_number v (a @ b) = Option.bind (hex_number v a) (\<lambda>w. hex_number w b)"
  by (induction v a rule: hex_number.induct) (auto split: option.splits)

lemma hex_number_pad: "n < 16 ^ k \<Longrightarrow> hex_number v (hex_pad k n) = Some (v * 16 ^ k + n)"
proof (induction k n arbitrary: v rule: hex_pad.induct)
  case (2 k n)
  then have "n div 16 < 16 ^ k" by (simp add: less_mult_imp_div_less)
  with 2 show ?case by (simp add: hex_number_append hex_digit_value algebra_simps)
qed simp

lemma length_hex16 [simp]: "length (hex16 n) = 16"
  by (simp add: hex16_def)

lemma hex16_not_Nil [simp]: "hex16 n \<noteq> []"
  using length_hex16 [of n] by fastforce

lemma hex64_hex16: "n < 2 ^ 64 \<Longrightarrow> StringTo_hex64 (hex16 n) = Some n"
  using hex_number_pad [of n 16 0] by (simp add: StringTo_hex64_def hex16_def [symmetric])

lemma hex_pad_no_space: "CHR '' '' \<notin> set (hex_pad k n)"
  by (induction k n rule: hex_pad.induct) (auto simp: hex_digit_not_space [symmetric] dest: hex_digit_not_space)

lemma hex16_no_space [simp]: "CHR '' '' \<notin> set (hex16 n)"
  by (simp add: hex16_def hex_pad_no_space)

lemma Tokenize_word:
  "sep \<notin> set w \<Longrightarrow> Tokenize sep keep token (w @ sep # rest) =
     (if keep \<or> token @ w \<noteq> [] then [token @ w] else []) @ Tokenize sep keep [] rest"
  by (induction w arbitrary: token) auto

lemma Tokenize_words:
  "(\<forall>w \<in> set ws. w \<noteq> [] \<and> sep \<notin> set w) \<Longrightarrow> Tokenize sep False [] (concat (map (\<lambda>w. w @ [sep]) ws)) = ws"
  by (induction ws) (auto simp: Tokenize_word)

section \<open>What survives a restart\<close>

text \<open>The form of the list older databases hold: no prefix.\<close>

definition legacy_hex :: "guid \<Rightarrow> string" where
  "legacy_hex g = hex16 (g div 2 ^ 64) @ hex16 (g mod 2 ^ 64)"

definition legacy_banlist :: "guid list \<Rightarrow> string" where
  "legacy_banlist banned = concat (map (\<lambda>g. legacy_hex g @ '' '') banned)"

lemma hex_number_x: "hex_number v (CHR ''0'' # CHR ''x'' # r) = None"
  by (simp add: hex_value_def)

lemma take2: "length t > 2 \<Longrightarrow> take 2 t = ''0x'' \<Longrightarrow> \<exists>r. t = CHR ''0'' # CHR ''x'' # r"
  by (metis append_Cons append_Nil append_take_drop_id)

lemma hex16_no_prefix: "n < 2 ^ 64 \<Longrightarrow> hex16 n \<noteq> CHR ''0'' # CHR ''x'' # r"
  using hex_number_pad [of n 16 0] hex_number_x [of 0 r] by (auto simp: hex16_def [symmetric])

lemma load_ban_legacy:
  assumes "g < 2 ^ 128" "g \<noteq> 0"
  shows "load_ban (legacy_hex g) banned = Some (ss_insert g banned)"
proof -
  define hi where "hi = g div 2 ^ 64"
  define lo where "lo = g mod 2 ^ 64"
  have b: "hi < 2 ^ 64" "lo < 2 ^ 64" using assms(1) by (simp_all add: hi_def lo_def less_mult_imp_div_less)
  have l: "legacy_hex g = hex16 hi @ hex16 lo" by (simp add: legacy_hex_def hi_def lo_def)
  have "take 2 (hex16 hi @ hex16 lo) \<noteq> ''0x''"
  proof
    assume "take 2 (hex16 hi @ hex16 lo) = ''0x''"
    then have "take 2 (hex16 hi) = ''0x''" by simp
    then obtain r where "hex16 hi = CHR ''0'' # CHR ''x'' # r" using take2 [of "hex16 hi"] by auto
    then show False using hex16_no_prefix [OF b(1)] by blast
  qed
  moreover have "hi * 2 ^ 64 + lo = g" by (simp add: hi_def lo_def)
  ultimately show ?thesis
    using assms(2) hex64_hex16 [OF b(1)] hex64_hex16 [OF b(2)] by (simp add: load_ban_def l substr_def Let_def)
qed

lemma load_ban_saved: "load_ban (ToHexString g) banned = Some banned"
proof -
  define t where "t = hex16 (g div 2 ^ 64) @ hex16 (g mod 2 ^ 64)"
  have t: "ToHexString g = CHR ''0'' # CHR ''x'' # t" "length t = 32"
    by (simp_all add: ToHexString_def t_def)
  have "take 2 (ToHexString g) = ''0x''" by (simp add: t)
  moreover have "take 32 (ToHexString g) = CHR ''0'' # CHR ''x'' # take 30 t" by (simp add: t)
  moreover have "StringTo_hex64 (take 16 (CHR ''0'' # CHR ''x'' # take 30 t)) = None"
    by (simp add: StringTo_hex64_def hex_value_def)
  ultimately show ?thesis
    by (simp add: load_ban_def t(2) substr_def split: option.split) (simp add: t)
qed

lemma load_bans_saved: "load_bans (map ToHexString bs) banned = Some banned"
  by (induction bs) (simp_all add: load_ban_saved)

lemma load_bans_legacy:
  "\<forall>b \<in> set bs. b \<noteq> 0 \<and> b < 2 ^ 128 \<Longrightarrow>
   \<exists>r. load_bans (map legacy_hex bs) acc = Some r \<and> set r = set bs \<union> set acc"
proof (induction bs arbitrary: acc)
  case (Cons b bs)
  have "load_ban (legacy_hex b) acc = Some (ss_insert b acc)"
    by (rule load_ban_legacy) (use Cons.prems in simp_all)
  moreover obtain r where "load_bans (map legacy_hex bs) (ss_insert b acc) = Some r" "set r = set bs \<union> set (ss_insert b acc)"
    using Cons.IH [of "ss_insert b acc"] Cons.prems by auto
  ultimately show ?case by auto
qed simp

lemma Tokenize_banlists:
  "Tokenize (CHR '' '') False [] (banlist banned) = map ToHexString banned"
  "Tokenize (CHR '' '') False [] (legacy_banlist banned) = map legacy_hex banned"
proof -
  have "banlist banned = concat (map (\<lambda>w. w @ '' '') (map ToHexString banned))"
    by (simp add: banlist_def comp_def)
  moreover have "\<forall>w \<in> set (map ToHexString banned). w \<noteq> [] \<and> CHR '' '' \<notin> set w"
    by (simp add: ToHexString_def)
  ultimately show "Tokenize (CHR '' '') False [] (banlist banned) = map ToHexString banned"
    using Tokenize_words by metis
  have "legacy_banlist banned = concat (map (\<lambda>w. w @ '' '') (map legacy_hex banned))"
    by (simp add: legacy_banlist_def comp_def)
  moreover have "\<forall>w \<in> set (map legacy_hex banned). w \<noteq> [] \<and> CHR '' '' \<notin> set w"
    by (simp add: legacy_hex_def)
  ultimately show "Tokenize (CHR '' '') False [] (legacy_banlist banned) = map legacy_hex banned"
    using Tokenize_words by metis
qed

text \<open>
  C21: The list of bans that \<^verbatim>\<open>UpdateChannelInDB\<close> writes is read back as no bans at all, whatever the bans are,
  because the constructor drops the last two characters of a guid instead of its prefix \<^verbatim>\<open>0x\<close>. The form of
  older databases, without the prefix, is read back completely.
\<close>

theorem bans_lost_at_restart:
  assumes "\<forall>b \<in> set banned. b \<noteq> 0 \<and> b < 2 ^ 128"
  shows "map_option bannedStore (Channel_custom g name team (banlist banned)) = Some [] \<and>
    map_option (\<lambda>c. set (bannedStore c)) (Channel_custom g name team (legacy_banlist banned)) = Some (set banned)"
proof -
  obtain r where r: "load_bans (map legacy_hex banned) [] = Some r" "set r = set banned"
    using load_bans_legacy [OF assms, of "[]"] by auto
  show ?thesis
    by (simp add: Channel_custom_def Tokenize_banlists load_bans_saved r)
qed

lemma bans_lost_at_restart_witness:
  "map_option bannedStore (Channel_custom 9 ''x'' 469 (banlist [5, 1000])) = Some []"
  using bans_lost_at_restart [of "[5, 1000]" 9 "''x''" 469] by simp

end
