(* ===== verification/ChannelMgr.thy ===== *)
theory ChannelMgr imports Channel_Bans "HOL-Library.AList" begin

text \<open>
  The channels of one faction, \<^verbatim>\<open>src/src/server/game/Chat/Channels/ChannelMgr.cpp\<close>, with the client handlers of
  \<^verbatim>\<open>Handlers/ChannelHandler.cpp\<close> and the parts of \<^verbatim>\<open>Entities/Player/Player.cpp\<close> that keep
  \<^verbatim>\<open>Player::m_channels\<close>. Channels live in a heap; a \<^verbatim>\<open>Channel*\<close> is the guid of its channel, and a pointer to a
  deleted channel has no result (\<open>None\<close>) when it is read. All players belong to the faction of the manager, so
  \<^verbatim>\<open>ForTeam\<close> is this manager. Wide strings, letter case, names of built-in channels and the tables of channels and
  zones are parameters; a zone is its id.
\<close>

section \<open>State and parameters\<close>

record chat_mgr =
  heap :: "guid \<Rightarrow> channel option"
  customChannels :: "(string \<times> guid) list"
  builtinChannels :: "guid list"
  nextCounter :: nat
  joinedChannels :: "guid \<Rightarrow> guid list"
  packets :: "(guid \<times> channel_packet) list"
  chat_saved :: "channel_statement list"
  stopped :: bool

record mgr_env =
  mgr_team :: u32
  realmId :: u64
  tournamentRealm :: bool
  channelEntry :: "u32 \<Rightarrow> chat_channels_entry option"
  entryIds :: "u32 list"
  to_wide :: "string \<Rightarrow> string option"
  to_lower :: "string \<Rightarrow> string"
  builtinName :: "u32 \<Rightarrow> nat option \<Rightarrow> string"
  utf8_length :: "string \<Rightarrow> nat"
  normalize :: "string \<Rightarrow> string option"
  preserveCustom :: bool
  preserveDays :: nat

definition ALLIANCE :: u32 where "ALLIANCE = 469"
definition MAX_CHANNEL_NAME_STR :: nat where "MAX_CHANNEL_NAME_STR = 0x31"
definition MAX_CHANNEL_PASS_STR :: nat where "MAX_CHANNEL_PASS_STR = 31"

definition ChannelMgr_new :: chat_mgr where
  "ChannelMgr_new = \<lparr>heap = (\<lambda>_. None), customChannels = [], builtinChannels = [], nextCounter = 1,
     joinedChannels = (\<lambda>_. []), packets = [], chat_saved = [], stopped = False\<rparr>"

section \<open>Guids of channels\<close>

definition chat_channel_high :: "u64 \<Rightarrow> bool \<Rightarrow> bool \<Rightarrow> u64 \<Rightarrow> u64 \<Rightarrow> u64" where
  "chat_channel_high realm builtIn trade zoneId factionGroupMask =
     push_bit 58 26 OR push_bit 42 (realm AND 0x1FFF) OR push_bit 25 (of_bool builtIn) OR push_bit 24 (of_bool trade) OR
     push_bit 10 (zoneId AND 0x3FFF) OR push_bit 4 (factionGroupMask AND 0x3F)"

definition CreateChatChannel :: "u64 \<Rightarrow> bool \<Rightarrow> bool \<Rightarrow> u64 \<Rightarrow> u64 \<Rightarrow> nat \<Rightarrow> guid" where
  "CreateChatChannel realm builtIn trade zoneId factionGroupMask counter =
     unat (chat_channel_high realm builtIn trade zoneId factionGroupMask) * 2 ^ 64 + counter"

definition faction_mask :: "mgr_env \<Rightarrow> u64" where
  "faction_mask M = (if mgr_team M = ALLIANCE then 3 else 5)"

definition CustomChannelGuid :: "mgr_env \<Rightarrow> nat \<Rightarrow> guid" where
  "CustomChannelGuid M counter = CreateChatChannel (realmId M) False False 0 (faction_mask M) counter"

text \<open>\<^verbatim>\<open>ObjectGuidGenerator::Generate\<close>: near the end of the range of counters the server stops.\<close>

definition CreateCustomChannelGuid :: "mgr_env \<Rightarrow> chat_mgr \<Rightarrow> guid \<times> chat_mgr" where
  "CreateCustomChannelGuid M w =
     (CustomChannelGuid M (nextCounter w),
      w\<lparr>nextCounter := nextCounter w + 1, stopped := stopped w \<or> nextCounter w \<ge> 0xFFFFFFFFFF - 1\<rparr>)"

definition CreateBuiltinChannelGuid :: "mgr_env \<Rightarrow> u32 \<Rightarrow> nat option \<Rightarrow> guid option" where
  "CreateBuiltinChannelGuid M cid zone =
     map_option (\<lambda>entry.
       let zoneId = (case zone of Some z \<Rightarrow> if cce_ZoneBased entry \<and> \<not> cce_LinkedChannel entry then z else 0 | None \<Rightarrow> 0);
           zoneId = (if cce_GlobalForTournament entry \<and> tournamentRealm M then 0 else zoneId)
       in CreateChatChannel (realmId M) True (cce_LinkedChannel entry) (of_nat zoneId) (faction_mask M) (unat cid))
       (channelEntry M cid)"

section \<open>Calls on a channel\<close>

text \<open>The view a channel has of the world during a call, and the world after it.\<close>

definition attach :: "channel \<Rightarrow> chat_mgr \<Rightarrow> chat" where
  "attach c w = channel.extend c \<lparr>m_channels = joinedChannels w, sent = packets w\<rparr>"

definition detach :: "guid \<Rightarrow> chat \<Rightarrow> chat_mgr \<Rightarrow> chat_mgr" where
  "detach g s w = w\<lparr>heap := (heap w)(g \<mapsto> channel.truncate s), joinedChannels := m_channels s, packets := sent s\<rparr>"

definition on_channel :: "(chat \<Rightarrow> chat option) \<Rightarrow> guid \<Rightarrow> chat_mgr \<Rightarrow> chat_mgr option" where
  "on_channel f g w =
     (case heap w g of None \<Rightarrow> None | Some c \<Rightarrow> map_option (\<lambda>s. detach g s w) (f (attach c w)))"

definition send_notify :: "guid \<Rightarrow> channel_notify \<Rightarrow> chat_mgr \<Rightarrow> chat_mgr" where
  "send_notify who n w = w\<lparr>packets := packets w @ [(who, Notify n)]\<rparr>"

section \<open>Finding, creating and deleting channels\<close>

definition GetSystemChannel :: "mgr_env \<Rightarrow> u32 \<Rightarrow> nat option \<Rightarrow> chat_mgr \<Rightarrow> (guid \<times> chat_mgr) option" where
  "GetSystemChannel M cid zone w =
     (case (CreateBuiltinChannelGuid M cid zone, channelEntry M cid) of
        (Some g, Some entry) \<Rightarrow>
          Some (if g \<in> set (builtinChannels w) then (g, w)
                else (g, w\<lparr>heap := (heap w)(g \<mapsto> Channel_builtin entry g cid (mgr_team M) zone),
                           builtinChannels := ss_insert g (builtinChannels w)\<rparr>))
      | _ \<Rightarrow> None)"

definition lower_name :: "mgr_env \<Rightarrow> string \<Rightarrow> string option" where
  "lower_name M name = map_option (to_lower M) (to_wide M name)"

definition new_custom :: "mgr_env \<Rightarrow> string \<Rightarrow> string \<Rightarrow> (channel \<Rightarrow> channel) \<Rightarrow> string \<Rightarrow> chat_mgr \<Rightarrow> (guid \<times> chat_mgr) option" where
  "new_custom M key name setup banList w =
     (let (g, w) = CreateCustomChannelGuid M w
      in map_option (\<lambda>c. (g, w\<lparr>heap := (heap w)(g \<mapsto> setup c), customChannels := (key, g) # customChannels w\<rparr>))
           (Channel_custom g name (mgr_team M) banList))"

definition CreateCustomChannel :: "mgr_env \<Rightarrow> string \<Rightarrow> chat_mgr \<Rightarrow> (guid option \<times> chat_mgr) option" where
  "CreateCustomChannel M name w =
     (case lower_name M name of
        None \<Rightarrow> Some (None, w)
      | Some key \<Rightarrow>
          if map_of (customChannels w) key \<noteq> None then Some (None, w)
          else map_option (\<lambda>(g, w). (Some g, w)) (new_custom M key name (\<lambda>c. c\<lparr>isDirty := True\<rparr>) [] w))"

definition GetCustomChannel :: "mgr_env \<Rightarrow> string \<Rightarrow> chat_mgr \<Rightarrow> guid option" where
  "GetCustomChannel M name w = Option.bind (lower_name M name) (map_of (customChannels w))"

text \<open>\<open>who\<close> gets a notice when the channel is missing; an unknown built-in id fails an assertion.\<close>

definition GetChannel ::
  "mgr_env \<Rightarrow> u32 \<Rightarrow> string \<Rightarrow> guid \<Rightarrow> bool \<Rightarrow> nat option \<Rightarrow> chat_mgr \<Rightarrow> (guid option \<times> chat_mgr) option" where
  "GetChannel M cid name who notify zone w =
     (let found = (\<lambda>r. Some (r, if r = None \<and> notify then send_notify who (notify_of_type 0x05) w else w))
      in if cid \<noteq> 0
         then (case CreateBuiltinChannelGuid M cid zone of
                 None \<Rightarrow> None
               | Some g \<Rightarrow> found (if g \<in> set (builtinChannels w) then Some g else None))
         else (case lower_name M name of
                 None \<Rightarrow> Some (None, w)
               | Some key \<Rightarrow> found (map_of (customChannels w) key)))"

definition mgr_LeftChannel :: "mgr_env \<Rightarrow> u32 \<Rightarrow> nat option \<Rightarrow> chat_mgr \<Rightarrow> chat_mgr option" where
  "mgr_LeftChannel M cid zone w =
     (case CreateBuiltinChannelGuid M cid zone of
        None \<Rightarrow> None
      | Some g \<Rightarrow>
          if g \<notin> set (builtinChannels w) then Some w
          else (case heap w g of
                  None \<Rightarrow> None
                | Some c \<Rightarrow>
                    Some (if playersStore c = []
                          then w\<lparr>heap := (heap w)(g := None), builtinChannels := ss_erase g (builtinChannels w)\<rparr>
                          else w)))"

section \<open>Database\<close>

text \<open>A row is name, announce, ownership, password and list of bans; its team is that of the manager.\<close>

definition load_channel_row :: "mgr_env \<Rightarrow> string \<times> bool \<times> bool \<times> string \<times> string \<Rightarrow> chat_mgr \<times> string list \<Rightarrow>
  (chat_mgr \<times> string list) option" where
  "load_channel_row M row st =
     (case (row, st) of
        ((dbName, dbAnnounce, dbOwnership, dbPass, dbBanned), (w, toDelete)) \<Rightarrow>
          (case to_wide M dbName of
             None \<Rightarrow> Some (w, toDelete @ [dbName])
           | Some key \<Rightarrow>
               if map_of (customChannels w) key \<noteq> None then Some (w, toDelete)
               else map_option (\<lambda>(g, w). (w, toDelete))
                 (new_custom M key dbName (\<lambda>c. c\<lparr>announceEnabled := dbAnnounce, ownershipEnabled := dbOwnership,
                    channelPassword := dbPass\<rparr>) dbBanned w)))"

fun load_channel_rows :: "mgr_env \<Rightarrow> (string \<times> bool \<times> bool \<times> string \<times> string) list \<Rightarrow> chat_mgr \<times> string list \<Rightarrow>
  (chat_mgr \<times> string list) option" where
  "load_channel_rows M [] st = Some st"
| "load_channel_rows M (row # rows) st = Option.bind (load_channel_row M row st) (load_channel_rows M rows)"

definition ChannelMgr_LoadFromDB :: "mgr_env \<Rightarrow> (string \<times> bool \<times> bool \<times> string \<times> string) list \<Rightarrow> chat_mgr \<Rightarrow> chat_mgr option" where
  "ChannelMgr_LoadFromDB M rows w =
     (if \<not> preserveCustom M then Some w
      else let w = (if preserveDays M \<noteq> 0
                    then w\<lparr>chat_saved := chat_saved w @ [DEL_OLD_CHANNELS (preserveDays M * 86400)]\<rparr> else w)
           in map_option (\<lambda>(w, toDelete).
                w\<lparr>chat_saved := chat_saved w @ map (\<lambda>n. DEL_CHANNEL n (mgr_team M)) toDelete\<rparr>)
              (load_channel_rows M rows (w, [])))"

fun save_channels :: "int \<Rightarrow> int \<Rightarrow> guid list \<Rightarrow> chat_mgr \<Rightarrow> chat_mgr option" where
  "save_channels now delay [] w = Some w"
| "save_channels now delay (g # gs) w =
     (case heap w g of
        None \<Rightarrow> None
      | Some c \<Rightarrow>
          (let (c, stmts) = UpdateChannelInDB now delay c
           in save_channels now delay gs (w\<lparr>heap := (heap w)(g \<mapsto> c), chat_saved := chat_saved w @ stmts\<rparr>)))"

definition SaveToDB :: "int \<Rightarrow> int \<Rightarrow> chat_mgr \<Rightarrow> chat_mgr option" where
  "SaveToDB now delay w = save_channels now delay (map snd (customChannels w)) w"

section \<open>The joined channels of a player\<close>

definition Channel_GetName :: "mgr_env \<Rightarrow> channel \<Rightarrow> string" where
  "Channel_GetName M c = (if channelId c \<noteq> 0 then builtinName M (channelId c) (zoneEntry c) else channelName c)"

definition prefix_of :: "string \<Rightarrow> string \<Rightarrow> bool" where
  "prefix_of part name \<longleftrightarrow> take (length part) name = part"

fun find_by_part :: "mgr_env \<Rightarrow> string \<Rightarrow> guid list \<Rightarrow> chat_mgr \<Rightarrow> guid option option" where
  "find_by_part M part [] w = Some None"
| "find_by_part M part (g # gs) w =
     (case heap w g of
        None \<Rightarrow> None
      | Some c \<Rightarrow>
          (case lower_name M (Channel_GetName M c) of
             None \<Rightarrow> find_by_part M part gs w
           | Some name \<Rightarrow> if prefix_of part name then Some (Some g) else find_by_part M part gs w))"

definition GetChannelForPlayerByNamePart :: "mgr_env \<Rightarrow> string \<Rightarrow> guid \<Rightarrow> chat_mgr \<Rightarrow> guid option option" where
  "GetChannelForPlayerByNamePart M namePart who w =
     (case lower_name M namePart of
        None \<Rightarrow> Some None | Some part \<Rightarrow> find_by_part M part (joinedChannels w who) w)"

fun GetChannelForPlayerByGuid :: "guid \<Rightarrow> guid list \<Rightarrow> chat_mgr \<Rightarrow> guid option option" where
  "GetChannelForPlayerByGuid g [] w = Some None"
| "GetChannelForPlayerByGuid g (h # hs) w =
     (case heap w h of
        None \<Rightarrow> None | Some c \<Rightarrow> if channelGuid c = g then Some (Some h) else GetChannelForPlayerByGuid g hs w)"

text \<open>
  \<^verbatim>\<open>CleanupChannels\<close>: the first channel is taken off the list and left silently, until the list is empty;
  \<open>n\<close> counts the channels left to do, which is the length of the list.
\<close>

fun cleanup_channels :: "nat \<Rightarrow> mgr_env \<Rightarrow> chat_env \<Rightarrow> chat_player \<Rightarrow> chat_mgr \<Rightarrow> chat_mgr option" where
  "cleanup_channels 0 M E player w = Some w"
| "cleanup_channels (Suc n) M E player w =
     (case joinedChannels w (cp_guid player) of
        [] \<Rightarrow> Some w
      | ch # chs \<Rightarrow>
          (let w = w\<lparr>joinedChannels := (joinedChannels w)(cp_guid player := chs)\<rparr>
           in case on_channel (\<lambda>s. Some (LeaveChannel E player False False s)) ch w of
                None \<Rightarrow> None
              | Some w \<Rightarrow>
                  (case heap w ch of
                     None \<Rightarrow> None
                   | Some c \<Rightarrow>
                       Option.bind (if IsConstant c then mgr_LeftChannel M (channelId c) (zoneEntry c) w else Some w)
                         (cleanup_channels n M E player))))"

definition CleanupChannels :: "mgr_env \<Rightarrow> chat_env \<Rightarrow> chat_player \<Rightarrow> chat_mgr \<Rightarrow> chat_mgr option" where
  "CleanupChannels M E player w = cleanup_channels (length (joinedChannels w (cp_guid player))) M E player w"

fun set_invisible_on :: "guid \<Rightarrow> bool \<Rightarrow> guid list \<Rightarrow> chat_mgr \<Rightarrow> chat_mgr option" where
  "set_invisible_on g on [] w = Some w"
| "set_invisible_on g on (ch # chs) w =
     Option.bind (on_channel (\<lambda>s. Some (Channel_SetInvisible g on s)) ch w) (set_invisible_on g on chs)"

text \<open>The part of \<^verbatim>\<open>Player::SetGMVisible\<close> that concerns channels.\<close>

definition SetGMVisible :: "chat_player \<Rightarrow> bool \<Rightarrow> chat_mgr \<Rightarrow> chat_mgr option" where
  "SetGMVisible player on w = set_invisible_on (cp_guid player) (\<not> on) (joinedChannels w (cp_guid player)) w"

text \<open>
  \<^verbatim>\<open>UpdateLocalChannels\<close> on entering the zone \<open>z\<close>: per built-in channel, the channel to join and the one to leave.
\<close>

fun used_channel :: "u32 \<Rightarrow> guid list \<Rightarrow> chat_mgr \<Rightarrow> guid option option" where
  "used_channel i [] w = Some None"
| "used_channel i (g # gs) w =
     (case heap w g of None \<Rightarrow> None | Some c \<Rightarrow> if channelId c = i then Some (Some g) else used_channel i gs w)"

definition switch_channel ::
  "mgr_env \<Rightarrow> chat_env \<Rightarrow> chat_player \<Rightarrow> guid option \<Rightarrow> guid option \<Rightarrow> bool \<Rightarrow> chat_mgr \<Rightarrow> chat_mgr option" where
  "switch_channel M E player joinChannel removeChannel sendRemove w =
     Option.bind (case joinChannel of None \<Rightarrow> Some w
                  | Some g \<Rightarrow> on_channel (\<lambda>s. Some (JoinChannel E player [] s)) g w)
       (\<lambda>w. case removeChannel of None \<Rightarrow> Some w
           | Some g \<Rightarrow>
               Option.bind (on_channel (\<lambda>s. Some (LeaveChannel E player sendRemove True s)) g w)
                 (\<lambda>w. let w = w\<lparr>joinedChannels := (joinedChannels w)
                              (cp_guid player := removeAll g (joinedChannels w (cp_guid player)))\<rparr>
                     in case heap w g of None \<Rightarrow> None
                        | Some c \<Rightarrow> mgr_LeftChannel M (channelId c) (zoneEntry c) w))"

definition local_channel ::
  "mgr_env \<Rightarrow> chat_env \<Rightarrow> chat_player \<Rightarrow> nat \<Rightarrow> (u32 \<Rightarrow> nat \<Rightarrow> bool) \<Rightarrow> u32 \<Rightarrow> chat_mgr \<Rightarrow> chat_mgr option" where
  "local_channel M E player z canJoin i w =
     (case channelEntry M i of
        None \<Rightarrow> Some w
      | Some entry \<Rightarrow>
          if \<not> cce_Initial entry then Some w
          else case used_channel i (joinedChannels w (cp_guid player)) w of
                 None \<Rightarrow> None
               | Some used \<Rightarrow>
                   if canJoin i z
                   then if \<not> cce_Global entry
                        then if cce_CityOnly entry \<and> used \<noteq> None then Some w
                             else case GetSystemChannel M i (Some z) w of
                                    None \<Rightarrow> None
                                  | Some (g, w) \<Rightarrow>
                                      (case used of
                                         None \<Rightarrow> switch_channel M E player (Some g) None True w
                                       | Some u \<Rightarrow> if g \<noteq> u then switch_channel M E player (Some g) (Some u) False w
                                                   else switch_channel M E player None None True w)
                        else case GetSystemChannel M i None w of
                               None \<Rightarrow> None
                             | Some (g, w) \<Rightarrow> switch_channel M E player (Some g) None True w
                   else switch_channel M E player None used True w)"

fun local_channels ::
  "mgr_env \<Rightarrow> chat_env \<Rightarrow> chat_player \<Rightarrow> nat \<Rightarrow> (u32 \<Rightarrow> nat \<Rightarrow> bool) \<Rightarrow> u32 list \<Rightarrow> chat_mgr \<Rightarrow> chat_mgr option" where
  "local_channels M E player z canJoin [] w = Some w"
| "local_channels M E player z canJoin (i # is) w =
     Option.bind (local_channel M E player z canJoin i w) (local_channels M E player z canJoin is)"

definition UpdateLocalChannels ::
  "mgr_env \<Rightarrow> chat_env \<Rightarrow> chat_player \<Rightarrow> bool \<Rightarrow> nat option \<Rightarrow> (u32 \<Rightarrow> nat \<Rightarrow> bool) \<Rightarrow> chat_mgr \<Rightarrow> chat_mgr option" where
  "UpdateLocalChannels M E player loading newZone canJoin w =
     (if loading then Some w
      else case newZone of None \<Rightarrow> Some w | Some z \<Rightarrow> local_channels M E player z canJoin (entryIds M) w)"

section \<open>Client handlers\<close>

text \<open>
  \<open>zone\<close> is the player's zone; \<open>canJoin\<close> is \<^verbatim>\<open>CanJoinConstantChannelInZone\<close>, \<open>allowed\<close> the result of
  \<^verbatim>\<open>DisallowHyperlinksAndMaybeKick\<close>.
\<close>

definition is_digit :: "char \<Rightarrow> bool" where
  "is_digit c \<longleftrightarrow> 48 \<le> (of_char c :: nat) \<and> (of_char c :: nat) \<le> 57"

definition HandleJoinChannel ::
  "mgr_env \<Rightarrow> chat_env \<Rightarrow> chat_player \<Rightarrow> nat option \<Rightarrow> (u32 \<Rightarrow> nat \<Rightarrow> bool) \<Rightarrow> bool \<Rightarrow> u32 \<Rightarrow> string \<Rightarrow> string \<Rightarrow>
   chat_mgr \<Rightarrow> chat_mgr option" where
  "HandleJoinChannel M E player zone canJoin allowed cid name password w =
     (let join = (\<lambda>pass g w. on_channel (\<lambda>s. Some (JoinChannel E player pass s)) g w) in
      if cid \<noteq> 0
      then if channelEntry M cid = None then Some w
           else (case zone of
                   None \<Rightarrow> Some w
                 | Some z \<Rightarrow>
                     if \<not> canJoin cid z then Some w
                     else (case GetSystemChannel M cid zone w of None \<Rightarrow> None | Some (g, w) \<Rightarrow> join [] g w))
      else if name = [] \<or> is_digit (hd name) then Some (send_notify (cp_guid player) (notify_of_type 0x1B) w)
      else if utf8_length M name > MAX_CHANNEL_NAME_STR then Some (send_notify (cp_guid player) (notify_of_type 0x1B) w)
      else if length password > MAX_CHANNEL_PASS_STR then Some w
      else if \<not> allowed then Some w
      else (case GetCustomChannel M name w of
              Some g \<Rightarrow> join password g w
            | None \<Rightarrow>
                (case CreateCustomChannel M name w of
                   None \<Rightarrow> None
                 | Some (None, w) \<Rightarrow> Some w
                 | Some (Some g, w) \<Rightarrow>
                     Option.bind (on_channel (\<lambda>s. Some (s\<lparr>channelPassword := password\<rparr>)) g w) (join password g))))"

definition HandleLeaveChannel ::
  "mgr_env \<Rightarrow> chat_env \<Rightarrow> chat_player \<Rightarrow> nat option \<Rightarrow> (u32 \<Rightarrow> nat \<Rightarrow> bool) \<Rightarrow> u32 \<Rightarrow> string \<Rightarrow> chat_mgr \<Rightarrow> chat_mgr option" where
  "HandleLeaveChannel M E player zone canJoin cid name w =
     (if name = [] \<and> cid = 0 then Some w
      else if cid \<noteq> 0 \<and> (channelEntry M cid = None \<or> (case zone of None \<Rightarrow> True | Some z \<Rightarrow> \<not> canJoin cid z)) then Some w
      else case GetChannel M cid name (cp_guid player) True zone w of
             None \<Rightarrow> None
           | Some (r, w) \<Rightarrow>
               Option.bind
                 (case r of None \<Rightarrow> Some w
                  | Some g \<Rightarrow> on_channel (\<lambda>s. Some (LeaveChannel E player True False s)) g w)
                 (\<lambda>w. if cid \<noteq> 0 then mgr_LeftChannel M cid zone w else Some w))"

definition HandleChannelCommand ::
  "mgr_env \<Rightarrow> chat_env \<Rightarrow> chat_player \<Rightarrow> channel_opcode \<Rightarrow> string \<Rightarrow> chat_mgr \<Rightarrow> chat_mgr option" where
  "HandleChannelCommand M E player op name w =
     (case GetChannelForPlayerByNamePart M name (cp_guid player) w of
        None \<Rightarrow> None
      | Some None \<Rightarrow> Some w
      | Some (Some g) \<Rightarrow> on_channel (\<lambda>s. Some (channel_command E op player s)) g w)"

definition HandleChannelPlayerCommand ::
  "mgr_env \<Rightarrow> chat_env \<Rightarrow> chat_player \<Rightarrow> channel_player_opcode \<Rightarrow> string \<Rightarrow> string \<Rightarrow> chat_mgr \<Rightarrow> chat_mgr option" where
  "HandleChannelPlayerCommand M E player op channel name w =
     (if length name \<ge> MAX_CHANNEL_NAME_STR then Some w
      else case normalize M name of
             None \<Rightarrow> Some w
           | Some name \<Rightarrow>
               (case GetChannelForPlayerByNamePart M channel (cp_guid player) w of
                  None \<Rightarrow> None
                | Some None \<Rightarrow> Some w
                | Some (Some g) \<Rightarrow> on_channel (channel_player_command E op player name) g w))"

definition HandleChannelPassword ::
  "mgr_env \<Rightarrow> chat_env \<Rightarrow> chat_player \<Rightarrow> string \<Rightarrow> string \<Rightarrow> chat_mgr \<Rightarrow> chat_mgr option" where
  "HandleChannelPassword M E player channel password w =
     (if length password > MAX_CHANNEL_PASS_STR then Some w
      else case GetChannelForPlayerByNamePart M channel (cp_guid player) w of
             None \<Rightarrow> None
           | Some None \<Rightarrow> Some w
           | Some (Some g) \<Rightarrow> on_channel (\<lambda>s. Some (Channel_Password E player password s)) g w)"

end
