(* ===== verification/ChannelMgr_Inv.thy ===== *)
theory ChannelMgr_Inv imports ChannelMgr begin

text \<open>
  The invariant of the channel manager and of the joined channels of all players: a channel stands in the list
  of a player exactly when he is one of its members, so no list holds a pointer to a deleted channel.
\<close>

section \<open>Guids of channels do not collide\<close>

lemma high_counter:
  assumes "CreateChatChannel r b t z f n = CreateChatChannel r' b' t' z' f' n'" "n < 2 ^ 64" "n' < 2 ^ 64"
  shows "chat_channel_high r b t z f = chat_channel_high r' b' t' z' f'" "n = n'"
proof -
  let ?h = "unat (chat_channel_high r b t z f)" and ?h' = "unat (chat_channel_high r' b' t' z' f')"
  have e: "?h * 2 ^ 64 + n = ?h' * 2 ^ 64 + n'" using assms(1) by (simp only: CreateChatChannel_def)
  have d: "(h * 2 ^ 64 + m) div 2 ^ 64 = h" "(h * 2 ^ 64 + m) mod 2 ^ 64 = m" if "m < 2 ^ 64" for h m :: nat
    using that by simp_all
  have "?h = ?h'" using arg_cong [OF e, of "\<lambda>x. x div 2 ^ 64"] unfolding d(1) [OF assms(2)] d(1) [OF assms(3)] .
  then show "chat_channel_high r b t z f = chat_channel_high r' b' t' z' f'" by (rule unsigned_word_eqI)
  show "n = n'" using arg_cong [OF e, of "\<lambda>x. x mod 2 ^ 64"] unfolding d(2) [OF assms(2)] d(2) [OF assms(3)] .
qed

lemma high_bit25: "bit (chat_channel_high r b t z f) 25 = b"
proof -
  have "\<not> bit (push_bit 10 (z AND 0x3FFF)) 25" 
    by (simp add: bit_push_bit_iff bit_and_iff bit_numeral_rec)
  then show ?thesis
    by (simp add: chat_channel_high_def bit_or_iff bit_push_bit_iff bit_and_iff bit_numeral_rec)
qed

lemma custom_not_builtin:
  assumes "CreateBuiltinChannelGuid M cid zone = Some g" "k < 2 ^ 64"
  shows "g \<noteq> CustomChannelGuid M k"
proof -
  obtain t z where g: "g = CreateChatChannel (realmId M) True t z (faction_mask M) (unat cid)"
    using assms(1) by (auto simp: CreateBuiltinChannelGuid_def Let_def)
  have "unat cid < 2 ^ LENGTH(32)" by (rule unsigned_less)
  then have "unat cid < 2 ^ 64" by simp
  then show ?thesis
    using high_counter(1) [of "realmId M" True t z "faction_mask M" "unat cid" "realmId M" False False 0 "faction_mask M" k]
      assms(2) high_bit25 unfolding g CustomChannelGuid_def by metis
qed

lemma custom_inj: "CustomChannelGuid M k = CustomChannelGuid M l \<Longrightarrow> k < 2 ^ 64 \<Longrightarrow> l < 2 ^ 64 \<Longrightarrow> k = l"
  unfolding CustomChannelGuid_def by (rule high_counter(2))

section \<open>The invariant\<close>

definition on_list :: "chat_mgr \<Rightarrow> guid \<Rightarrow> guid \<Rightarrow> bool" where
  "on_list w p g \<longleftrightarrow> (case heap w g of None \<Rightarrow> False | Some c \<Rightarrow> IsOn p c)"

text \<open>\<open>lists_except\<close>: the lists of joined channels agree with the members, except for one player and channel.\<close>

definition lists_except :: "chat_mgr \<Rightarrow> (guid \<times> guid) set \<Rightarrow> bool" where
  "lists_except w X \<longleftrightarrow> (\<forall>p g. (p, g) \<notin> X \<longrightarrow> count_list (joinedChannels w p) g = (if on_list w p g then 1 else 0))"

definition is_custom :: "mgr_env \<Rightarrow> nat \<Rightarrow> guid \<Rightarrow> bool" where
  "is_custom M n g \<longleftrightarrow> (\<exists>k < n. g = CustomChannelGuid M k)"

lemma is_custom_Suc: "is_custom M n g \<Longrightarrow> is_custom M (Suc n) g" "is_custom M (Suc n) (CustomChannelGuid M n)"
  unfolding is_custom_def using less_Suc_eq by blast+

definition chat_heap_ok :: "mgr_env \<Rightarrow> chat_mgr \<Rightarrow> bool" where
  "chat_heap_ok M w \<longleftrightarrow>
     (\<forall>g c. heap w g = Some c \<longrightarrow> channelGuid c = g \<and> channel_inv c \<and>
        (if channelId c \<noteq> 0 then g \<in> set (builtinChannels w) \<and> CreateBuiltinChannelGuid M (channelId c) (zoneEntry c) = Some g
         else g \<in> set (map snd (customChannels w)) \<and> is_custom M (nextCounter w) g)) \<and>
     (\<forall>g \<in> set (builtinChannels w). \<exists>c. heap w g = Some c \<and> channelId c \<noteq> 0) \<and>
     (\<forall>g \<in> set (map snd (customChannels w)). \<exists>c. heap w g = Some c \<and> channelId c = 0) \<and>
     distinct (map fst (customChannels w)) \<and> distinct (map snd (customChannels w)) \<and>
     nextCounter w \<le> 0xFFFFFFFFFF \<and> (nextCounter w \<ge> 0xFFFFFFFFFF \<longrightarrow> stopped w)"

definition mgr_inv :: "mgr_env \<Rightarrow> chat_mgr \<Rightarrow> bool" where
  "mgr_inv M w \<longleftrightarrow> chat_heap_ok M w \<and> lists_except w {}"

lemma heap_okD:
  assumes "chat_heap_ok M w" "heap w g = Some c"
  shows "channelGuid c = g" "channel_inv c"
    "channelId c \<noteq> 0 \<Longrightarrow> g \<in> set (builtinChannels w)"
    "channelId c \<noteq> 0 \<Longrightarrow> CreateBuiltinChannelGuid M (channelId c) (zoneEntry c) = Some g"
    "channelId c = 0 \<Longrightarrow> g \<in> set (map snd (customChannels w))"
    "channelId c = 0 \<Longrightarrow> is_custom M (nextCounter w) g"
  using assms unfolding chat_heap_ok_def by (auto split: if_splits)

lemma heap_ok_builtin: "chat_heap_ok M w \<Longrightarrow> g \<in> set (builtinChannels w) \<Longrightarrow> \<exists>c. heap w g = Some c \<and> channelId c \<noteq> 0"
  unfolding chat_heap_ok_def by blast

lemma heap_ok_custom:
  "chat_heap_ok M w \<Longrightarrow> g \<in> set (map snd (customChannels w)) \<Longrightarrow> \<exists>c. heap w g = Some c \<and> channelId c = 0"
  unfolding chat_heap_ok_def by blast

lemma joined_alive:
  assumes "lists_except w X" "g \<in> set (joinedChannels w p)" "(p, g) \<notin> X"
  obtains c where "heap w g = Some c" "IsOn p c"
proof -
  have "count_list (joinedChannels w p) g \<noteq> 0" using assms(2) by (simp add: count_list_0_iff)
  then have "on_list w p g" using assms(1,3) unfolding lists_except_def by (auto split: if_splits)
  then show ?thesis using that by (auto simp: on_list_def split: option.splits)
qed

section \<open>A call on a channel\<close>

lemma attach_fields [simp]:
  "m_channels (attach c w) = joinedChannels w" "playersStore (attach c w) = playersStore c"
  "bannedStore (attach c w) = bannedStore c" "ownerGuid (attach c w) = ownerGuid c"
  "channelGuid (attach c w) = channelGuid c" "channelId (attach c w) = channelId c"
  "zoneEntry (attach c w) = zoneEntry c"
  by (simp_all add: attach_def channel.defs)

lemma truncate_fields [simp]:
  "playersStore (channel.truncate s) = playersStore s" "bannedStore (channel.truncate s) = bannedStore s"
  "ownerGuid (channel.truncate s) = ownerGuid s" "channelGuid (channel.truncate s) = channelGuid s"
  "channelId (channel.truncate s) = channelId s" "zoneEntry (channel.truncate s) = zoneEntry s"
  by (simp_all add: channel.defs)

lemma view_simps [simp]:
  "channel_inv (attach c w) = channel_inv c" "IsOn p (attach c w) = IsOn p c"
  "channel_inv (channel.truncate s) = channel_inv s" "IsOn p (channel.truncate s) = IsOn p s"
  by (simp_all add: channel_inv_def IsOn_def)

lemma detach_fields [simp]:
  "heap (detach g s w) = (heap w)(g \<mapsto> channel.truncate s)" "joinedChannels (detach g s w) = m_channels s"
  "customChannels (detach g s w) = customChannels w" "builtinChannels (detach g s w) = builtinChannels w"
  "nextCounter (detach g s w) = nextCounter w" "stopped (detach g s w) = stopped w"
  by (simp_all add: detach_def)

lemma heap_ok_detach:
  assumes "chat_heap_ok M w" "heap w g = Some c" "same_channel (attach c w) s" "channel_inv s"
  shows "chat_heap_ok M (detach g s w)"
proof -
  have "channelGuid s = channelGuid c" "channelId s = channelId c" "zoneEntry s = zoneEntry c"
    using assms(3) by (simp_all add: same_channel_def)
  with assms(1,2,4) show ?thesis
    unfolding chat_heap_ok_def by (auto split: if_splits)
qed

lemma count_other_channels: "h \<noteq> c \<Longrightarrow> count_list (other_channels c cs) h = count_list cs h"
  by (induction cs) (auto simp: other_channels_def)

lemma lists_detach:
  assumes "lists_except w X" "heap w g = Some c" "channelGuid c = g" "same_channel (attach c w) s"
    and "\<And>p. (p, g) \<notin> X \<Longrightarrow> count_list (m_channels s p) g = (if IsOn p s then 1 else 0)"
  shows "lists_except (detach g s w) X"
  unfolding lists_except_def
proof (intro allI impI)
  fix p h assume X: "(p, h) \<notin> X"
  show "count_list (joinedChannels (detach g s w) p) h = (if on_list (detach g s w) p h then 1 else 0)"
  proof (cases "h = g")
    case True
    then show ?thesis using assms(5) X by (simp add: on_list_def)
  next
    case False
    have "other_channels g (m_channels s p) = other_channels g (joinedChannels w p)"
      using assms(3,4) by (simp add: same_channel_def)
    then have "count_list (m_channels s p) h = count_list (joinedChannels w p) h"
      using count_other_channels [OF False] by metis
    then show ?thesis using assms(1) X False by (simp add: lists_except_def on_list_def)
  qed
qed

text \<open>A call that preserves its channel preserves the invariant of the manager.\<close>

lemma mgr_inv_detach:
  assumes "mgr_inv M w" "heap w g = Some c" "preserves (attach c w) s"
  shows "mgr_inv M (detach g s w)"
proof -
  have h: "chat_heap_ok M w" "lists_except w {}" using assms(1) by (simp_all add: mgr_inv_def)
  have g: "channelGuid c = g" "channel_inv c" using heap_okD [OF h(1) assms(2)] by simp_all
  have l: "lists_ok (attach c w)"
    using h(2) g assms(2) by (simp add: lists_ok_def lists_except_def on_list_def)
  have s: "same_channel (attach c w) s" "channel_inv s" "lists_ok s"
    using assms(3) g l by (simp_all add: preserves_def)
  have "channelGuid s = g" using s(1) g by (simp add: same_channel_def)
  with s(3) have "count_list (m_channels s p) g = (if IsOn p s then 1 else 0)" for p
    by (simp add: lists_ok_def)
  then show ?thesis
    using heap_ok_detach [OF h(1) assms(2) s(1,2)] lists_detach [OF h(2) assms(2) g(1) s(1)] by (simp add: mgr_inv_def)
qed

lemma on_channel_inv:
  assumes "mgr_inv M w" "on_channel f g w = Some w'" "\<And>c s. f (attach c w) = Some s \<Longrightarrow> preserves (attach c w) s"
  shows "mgr_inv M w'"
proof -
  obtain c s where "heap w g = Some c" "f (attach c w) = Some s" "w' = detach g s w"
    using assms(2) by (auto simp: on_channel_def split: option.splits)
  then show ?thesis using mgr_inv_detach [OF assms(1)] assms(3) by blast
qed

lemma on_channel_defined:
  "heap w g = Some c \<Longrightarrow> on_channel (\<lambda>s. Some (f s)) g w = Some (detach g (f (attach c w)) w)"
  by (simp add: on_channel_def)

section \<open>Creating and deleting channels\<close>

lemma mgr_inv_packets [simp]: "mgr_inv M (w\<lparr>packets := x\<rparr>) = mgr_inv M w" "mgr_inv M (w\<lparr>chat_saved := y\<rparr>) = mgr_inv M w"
  by (simp_all add: mgr_inv_def chat_heap_ok_def lists_except_def on_list_def)

lemma mgr_inv_send [simp]: "mgr_inv M (send_notify p n w) = mgr_inv M w"
  by (simp add: send_notify_def)

lemma channel_inv_fresh: "playersStore c = [] \<Longrightarrow> ss_ok (bannedStore c) \<Longrightarrow> channel_inv c"
  by (simp add: channel_inv_def members_ok_def)

lemma IsOn_empty: "playersStore c = [] \<Longrightarrow> \<not> IsOn p c"
  by (simp add: IsOn_def)

lemma load_bans_ok: "load_bans toks b = Some b' \<Longrightarrow> ss_ok b \<Longrightarrow> ss_ok b'"
proof (induction toks arbitrary: b)
  case (Cons t toks)
  obtain b1 where b1: "load_ban t b = Some b1" "load_bans toks b1 = Some b'"
    using Cons.prems(1) by (auto simp: bind_eq_Some_conv)
  have "ss_ok b1" using b1(1) Cons.prems(2) by (auto simp: load_ban_def Let_def split: option.splits if_splits)
  then show ?case using Cons.IH b1(2) by blast
qed simp

lemma heap_fresh:
  assumes "mgr_inv M w" "heap w g = None" "playersStore c = []"
  shows "lists_except (w\<lparr>heap := (heap w)(g \<mapsto> c)\<rparr>) {}"
proof -
  have "on_list (w\<lparr>heap := (heap w)(g \<mapsto> c)\<rparr>) p h = on_list w p h" for p h
    using assms(2,3) by (simp add: on_list_def IsOn_empty)
  then show ?thesis using assms(1) by (simp add: mgr_inv_def lists_except_def)
qed

lemma builtin_fresh:
  assumes "mgr_inv M w" "CreateBuiltinChannelGuid M cid zone = Some g" "g \<notin> set (builtinChannels w)"
  shows "heap w g = None"
proof (rule ccontr)
  assume "heap w g \<noteq> None"
  then obtain c where c: "heap w g = Some c" by blast
  have h: "chat_heap_ok M w" using assms(1) by (simp add: mgr_inv_def)
  have "channelId c = 0" using heap_okD(3) [OF h c] assms(3) by blast
  then obtain k where "k < nextCounter w" "g = CustomChannelGuid M k" using heap_okD(6) [OF h c] by (auto simp: is_custom_def)
  moreover have "nextCounter w \<le> 0xFFFFFFFFFF" using h by (simp add: chat_heap_ok_def)
  ultimately show False using custom_not_builtin [OF assms(2), of k] by simp
qed

lemma GetSystemChannel_inv:
  assumes "mgr_inv M w" "GetSystemChannel M cid zone w = Some (g, w')" "cid \<noteq> 0"
  shows "mgr_inv M w'" "heap w' g \<noteq> None" "joinedChannels w' = joinedChannels w"
    "\<And>h. heap w h \<noteq> None \<Longrightarrow> heap w' h = heap w h" "builtinChannels w' = ss_insert g (builtinChannels w) \<or> w' = w"
    "CreateBuiltinChannelGuid M cid zone = Some g"
proof -
  obtain entry where e: "CreateBuiltinChannelGuid M cid zone = Some g" "channelEntry M cid = Some entry"
    and w': "w' = (if g \<in> set (builtinChannels w) then w
       else w\<lparr>heap := (heap w)(g \<mapsto> Channel_builtin entry g cid (mgr_team M) zone),
              builtinChannels := ss_insert g (builtinChannels w)\<rparr>)"
    using assms(2) by (auto simp: GetSystemChannel_def split: option.splits if_splits)
  show "CreateBuiltinChannelGuid M cid zone = Some g" by (rule e)
  have "mgr_inv M w' \<and> heap w' g \<noteq> None \<and> joinedChannels w' = joinedChannels w \<and>
      (\<forall>h. heap w h \<noteq> None \<longrightarrow> heap w' h = heap w h) \<and> (builtinChannels w' = ss_insert g (builtinChannels w) \<or> w' = w)"
  proof (cases "g \<in> set (builtinChannels w)")
    case True
    then have "heap w g \<noteq> None" using assms(1) heap_ok_builtin [of M w g] by (auto simp: mgr_inv_def)
    then show ?thesis using w' True assms(1) by simp
  next
    case False
    let ?c = "Channel_builtin entry g cid (mgr_team M) zone"
    have n: "heap w g = None" by (rule builtin_fresh [OF assms(1) e(1) False])
    have c: "playersStore ?c = []" "bannedStore ?c = []" "channelGuid ?c = g" "channelId ?c = cid" "zoneEntry ?c = zone"
      by (simp_all add: Channel_builtin_def)
    have "chat_heap_ok M w" using assms(1) by (simp add: mgr_inv_def)
    then have "chat_heap_ok M w'"
      using False e(1) assms(3) c n unfolding chat_heap_ok_def w' by (auto simp: channel_inv_fresh split: if_splits)
    moreover have "lists_except w' {}"
      using heap_fresh [OF assms(1) n c(1)] False by (simp add: w' lists_except_def on_list_def)
    ultimately show ?thesis using w' False n by (auto simp: mgr_inv_def)
  qed
  then show "mgr_inv M w'" "heap w' g \<noteq> None" "joinedChannels w' = joinedChannels w"
    "\<And>h. heap w h \<noteq> None \<Longrightarrow> heap w' h = heap w h" "builtinChannels w' = ss_insert g (builtinChannels w) \<or> w' = w"
    by blast+
qed

lemma new_custom_inv:
  assumes "mgr_inv M w" "\<not> stopped w" "new_custom M key name setup banList w = Some (g, w')"
    "map_of (customChannels w) key = None"
    "\<And>c. playersStore (setup c) = playersStore c \<and> bannedStore (setup c) = bannedStore c \<and>
      channelGuid (setup c) = channelGuid c \<and> channelId (setup c) = channelId c"
  shows "mgr_inv M w'" "heap w' g \<noteq> None" "joinedChannels w' = joinedChannels w"
proof -
  let ?n = "nextCounter w"
  obtain c where c: "Channel_custom g name (mgr_team M) banList = Some c" and g: "g = CustomChannelGuid M ?n"
    and w': "w' = w\<lparr>nextCounter := ?n + 1, stopped := stopped w \<or> ?n \<ge> 0xFFFFFFFFFF - 1, heap := (heap w)(g \<mapsto> setup c),
       customChannels := (key, g) # customChannels w\<rparr>"
    using assms(3) by (auto simp: new_custom_def CreateCustomChannelGuid_def)
  have f: "playersStore (setup c) = []" "channelGuid (setup c) = g" "channelId (setup c) = 0" "ss_ok (bannedStore (setup c))"
    using c assms(5) by (auto simp: Channel_custom_def dest: load_bans_ok)
  have h: "chat_heap_ok M w" using assms(1) by (simp add: mgr_inv_def)
  have b: "?n < 0xFFFFFFFFFF" using h assms(2) by (auto simp: chat_heap_ok_def)
  have n: "heap w g = None"
  proof (rule ccontr)
    assume "heap w g \<noteq> None"
    then obtain d where d: "heap w g = Some d" by blast
    show False
    proof (cases "channelId d = 0")
      case True
      then obtain k where "k < ?n" "g = CustomChannelGuid M k" using heap_okD(6) [OF h d] by (auto simp: is_custom_def)
      then show False using custom_inj [of M ?n k] g b by simp
    next
      case False
      then show False using heap_okD(4) [OF h d] custom_not_builtin [of M "channelId d" "zoneEntry d" g ?n] g b by simp
    qed
  qed
  have "g \<notin> set (map snd (customChannels w))" using heap_ok_custom [OF h, of g] n by auto
  moreover have "key \<notin> fst ` set (customChannels w)" using assms(4) by (simp add: map_of_eq_None_iff)
  ultimately have "chat_heap_ok M w'"
    using h f b g n unfolding chat_heap_ok_def w'
    by (auto simp: channel_inv_fresh is_custom_Suc split: if_splits)
  moreover have "lists_except w' {}"
    using heap_fresh [OF assms(1) n f(1)] by (simp add: w' lists_except_def on_list_def)
  ultimately show "mgr_inv M w'" "heap w' g \<noteq> None" "joinedChannels w' = joinedChannels w"
    by (simp_all add: mgr_inv_def w')
qed

text \<open>An empty channel may go: nobody has it on his list.\<close>

lemma mgr_LeftChannel_inv:
  assumes "mgr_inv M w" "channelEntry M cid \<noteq> None"
  obtains w' where "mgr_LeftChannel M cid zone w = Some w'" "mgr_inv M w'" "joinedChannels w' = joinedChannels w"
proof -
  obtain g where g: "CreateBuiltinChannelGuid M cid zone = Some g"
    using assms(2) by (auto simp: CreateBuiltinChannelGuid_def)
  show ?thesis
  proof (cases "g \<in> set (builtinChannels w)")
    case False
    then show ?thesis using that assms(1) g by (simp add: mgr_LeftChannel_def)
  next
    case True
    have h: "chat_heap_ok M w" using assms(1) by (simp add: mgr_inv_def)
    obtain c where c: "heap w g = Some c" "channelId c \<noteq> 0" using heap_ok_builtin [OF h True] by blast
    have cu: "g \<notin> set (map snd (customChannels w))" using heap_ok_custom [OF h, of g] c by auto
    let ?w = "w\<lparr>heap := (heap w)(g := None), builtinChannels := ss_erase g (builtinChannels w)\<rparr>"
    show ?thesis
    proof (cases "playersStore c = []")
      case False
      then show ?thesis using that assms(1) g c True by (simp add: mgr_LeftChannel_def)
    next
      case e: True
      have "on_list ?w p h = on_list w p h" for p h
        using c e by (simp add: on_list_def IsOn_empty)
      then have "lists_except ?w {}" using assms(1) by (simp add: mgr_inv_def lists_except_def)
      moreover have "chat_heap_ok M ?w"
        using h cu c unfolding chat_heap_ok_def by (auto split: if_splits)
      ultimately show ?thesis using that g c True e by (simp add: mgr_LeftChannel_def mgr_inv_def)
    qed
  qed
qed

section \<open>Silent leaves\<close>

lemma IsOn_invisible [simp]: "IsOn p (t\<lparr>isOwnerInvisible := b\<rparr>) = IsOn p t"
  by (simp add: IsOn_def)

lemma pass_on_fields [simp]:
  "m_channels (pass_on E n t) = m_channels t" "IsOn p (pass_on E n t) = IsOn p t"
  by (cases n; simp add: pass_on_def Let_def; fail)+

lemma LeaveChannel_silent:
  assumes "channel_inv c"
  shows "same_channel (attach c w) (LeaveChannel E player False suspend (attach c w))"
    "channel_inv (LeaveChannel E player False suspend (attach c w))"
    "m_channels (LeaveChannel E player False suspend (attach c w)) = joinedChannels w"
    "IsOn q (LeaveChannel E player False suspend (attach c w)) = (q \<noteq> cp_guid player \<and> IsOn q c)"
proof -
  let ?a = "attach c w" and ?g = "cp_guid player"
  let ?s = "LeaveChannel E player False suspend ?a"
  have "same_channel ?a ?s \<and> channel_inv ?s \<and> m_channels ?s = joinedChannels w \<and>
      IsOn q ?s = (q \<noteq> ?g \<and> IsOn q c)"
  proof (cases "IsOn ?g c")
    case False
    then have "?s = ?a" by (simp add: LeaveChannel_def)
    then show ?thesis using assms False by (auto simp: same_channel_def)
  next
    case True
    have d: "same_channel ?a (departed False ?g ?a)" "channel_inv (departed False ?g ?a)"
      "IsOn q (departed False ?g ?a) = (q \<noteq> ?g \<and> IsOn q c)"
      using assms by (auto simp: same_channel_def channel_inv_def members_ok_erase IsOn_def)
    have e: "same_channel ?a (tell xs (departed False ?g ?a))" for xs
      using d(1) by (simp add: same_channel_def)
    have p: "preserves t (pass_on E n t)" for n t by (rule preserves_pass_on)
    obtain xs where "?s = (let s' = tell xs (departed False ?g ?a) in
        if passes_ownership ?g ?a then pass_on E (next_owner (om_erase ?g (playersStore ?a))) s' else s')"
      using LeaveChannel_member [of player ?a E False suspend] True by auto
    moreover have "same_channel t u \<Longrightarrow> same_channel u v \<Longrightarrow> same_channel t v" for t u v
      by (simp add: same_channel_def)
    ultimately show ?thesis
      using d e p [of "tell xs (departed False ?g ?a)" "next_owner (om_erase ?g (playersStore ?a))"]
      by (cases "passes_ownership ?g ?a") (simp_all add: Let_def preserves_def, blast)
  qed
  then show "same_channel ?a ?s" "channel_inv ?s" "m_channels ?s = joinedChannels w"
    "IsOn q ?s = (q \<noteq> ?g \<and> IsOn q c)"
    by blast+
qed

lemma silent_leave:
  assumes "chat_heap_ok M w" "lists_except w X" "X \<subseteq> {(cp_guid player, g)}" "heap w g = Some c"
  obtains w' where "on_channel (\<lambda>s. Some (LeaveChannel E player False suspend s)) g w = Some w'" "chat_heap_ok M w'"
    "lists_except w' {(cp_guid player, g)}" "joinedChannels w' = joinedChannels w" "\<not> on_list w' (cp_guid player) g"
    "\<exists>c'. heap w' g = Some c' \<and> channelId c' = channelId c \<and> zoneEntry c' = zoneEntry c"
proof -
  let ?s = "LeaveChannel E player False suspend (attach c w)"
  have c: "channelGuid c = g" "channel_inv c" using heap_okD [OF assms(1,4)] by simp_all
  note l = LeaveChannel_silent [OF c(2), where w = w and E = E and player = player and suspend = suspend]
  have x: "lists_except w {(cp_guid player, g)}" using assms(2,3) unfolding lists_except_def by blast
  have "count_list (m_channels ?s p) g = (if IsOn p ?s then 1 else 0)" if "(p, g) \<notin> {(cp_guid player, g)}" for p
    using x that assms(4) l(3) l(4) [where q = p] by (auto simp: lists_except_def on_list_def)
  then have "lists_except (detach g ?s w) {(cp_guid player, g)}"
    by (intro lists_detach [OF x assms(4) c(1) l(1)])
  moreover have "chat_heap_ok M (detach g ?s w)" by (rule heap_ok_detach [OF assms(1,4) l(1,2)])
  moreover have "\<not> on_list (detach g ?s w) (cp_guid player) g" using l(4) by (simp add: on_list_def)
  moreover have "channelId ?s = channelId c" "zoneEntry ?s = zoneEntry c" using l(1) by (simp_all add: same_channel_def)
  ultimately show ?thesis
    using that [of "detach g ?s w"] assms(4) l(3) by (simp add: on_channel_def)
qed

lemma heap_ok_joined [simp]: "chat_heap_ok M (w\<lparr>joinedChannels := j\<rparr>) = chat_heap_ok M w"
  by (simp add: chat_heap_ok_def)

lemma on_list_joined [simp]: "on_list (w\<lparr>joinedChannels := j\<rparr>) = on_list w"
  by (simp add: on_list_def fun_eq_iff)

text \<open>Closing the gap: the player has left the channel and it is not on his list.\<close>

lemma lists_close:
  assumes "lists_except w {(p, g)}" "\<not> on_list w p g" "count_list (joinedChannels w p) g = 0"
  shows "lists_except w {}"
  unfolding lists_except_def
proof (intro allI impI)
  fix q h
  show "count_list (joinedChannels w q) h = (if on_list w q h then 1 else 0)"
    using assms by (cases "(q, h) = (p, g)") (simp_all add: lists_except_def)
qed

lemma builtin_entry:
  assumes "chat_heap_ok M w" "heap w g = Some c" "channelId c \<noteq> 0"
  shows "channelEntry M (channelId c) \<noteq> None"
  using heap_okD(4) [OF assms] by (auto simp: CreateBuiltinChannelGuid_def)

lemma cleanup_step:
  assumes "mgr_inv M w" "joinedChannels w (cp_guid player) = ch # chs"
  obtains w2 w3 c where
    "on_channel (\<lambda>s. Some (LeaveChannel E player False False s)) ch
       (w\<lparr>joinedChannels := (joinedChannels w)(cp_guid player := chs)\<rparr>) = Some w2"
    "heap w2 ch = Some c" "(if IsConstant c then mgr_LeftChannel M (channelId c) (zoneEntry c) w2 else Some w2) = Some w3"
    "mgr_inv M w3" "joinedChannels w3 = (joinedChannels w)(cp_guid player := chs)"
proof -
  let ?p = "cp_guid player"
  let ?w1 = "w\<lparr>joinedChannels := (joinedChannels w)(?p := chs)\<rparr>"
  have h: "chat_heap_ok M w" "lists_except w {}" using assms(1) by (simp_all add: mgr_inv_def)
  obtain c where c: "heap w ch = Some c" "IsOn ?p c"
    by (rule joined_alive [OF h(2), of ch ?p]) (simp_all add: assms(2))
  have x: "lists_except ?w1 {(?p, ch)}"
    unfolding lists_except_def
  proof (intro allI impI)
    fix q g assume n: "(q, g) \<notin> {(?p, ch)}"
    have "count_list (joinedChannels w q) g = (if on_list w q g then 1 else 0)" using h(2) by (simp add: lists_except_def)
    then show "count_list (joinedChannels ?w1 q) g = (if on_list ?w1 q g then 1 else 0)"
      using n assms(2) by (cases "q = ?p") auto
  qed
  have one: "count_list chs ch = 0"
  proof -
    have "count_list (joinedChannels w ?p) ch = 1" using h(2) c by (simp add: lists_except_def on_list_def)
    then show ?thesis using assms(2) by simp
  qed
  obtain w2 where w2: "on_channel (\<lambda>s. Some (LeaveChannel E player False False s)) ch ?w1 = Some w2" "chat_heap_ok M w2"
    "lists_except w2 {(?p, ch)}" "joinedChannels w2 = joinedChannels ?w1" "\<not> on_list w2 ?p ch"
    and e: "\<exists>c'. heap w2 ch = Some c' \<and> channelId c' = channelId c \<and> zoneEntry c' = zoneEntry c"
    by (rule silent_leave [of M ?w1 "{(?p, ch)}" player ch c E False]) (use h x c in simp_all)
  obtain c' where c': "heap w2 ch = Some c'" using e by blast
  have "lists_except w2 {}"
    by (rule lists_close [OF w2(3,5)]) (use w2(4) one in simp)
  with w2 have i2: "mgr_inv M w2" by (simp add: mgr_inv_def)
  show ?thesis
  proof (cases "IsConstant c'")
    case False
    then show ?thesis using that w2 c' i2 by auto
  next
    case True
    then have "channelEntry M (channelId c') \<noteq> None"
      using builtin_entry [OF w2(2) c'] by (simp add: IsConstant_def)
    then obtain w3 where "mgr_LeftChannel M (channelId c') (zoneEntry c') w2 = Some w3" "mgr_inv M w3"
      "joinedChannels w3 = joinedChannels w2"
      using mgr_LeftChannel_inv [OF i2] by metis
    then show ?thesis using that w2 c' True by auto
  qed
qed

lemma CleanupChannels_inv:
  assumes "mgr_inv M w"
  obtains w' where "CleanupChannels M E player w = Some w'" "mgr_inv M w'" 
    "joinedChannels w' = (joinedChannels w)(cp_guid player := [])"
proof -
  have "\<exists>w'. cleanup_channels n M E player w = Some w' \<and> mgr_inv M w' \<and>
      joinedChannels w' = (joinedChannels w)(cp_guid player := [])"
    if "mgr_inv M w" "length (joinedChannels w (cp_guid player)) = n" for n w
    using that
  proof (induction n arbitrary: w)
    case (Suc n)
    then obtain ch chs where l: "joinedChannels w (cp_guid player) = ch # chs" by (cases "joinedChannels w (cp_guid player)") auto
    obtain w2 w3 c where s: "on_channel (\<lambda>s. Some (LeaveChannel E player False False s)) ch
       (w\<lparr>joinedChannels := (joinedChannels w)(cp_guid player := chs)\<rparr>) = Some w2"
      "heap w2 ch = Some c" "(if IsConstant c then mgr_LeftChannel M (channelId c) (zoneEntry c) w2 else Some w2) = Some w3"
      "mgr_inv M w3" "joinedChannels w3 = (joinedChannels w)(cp_guid player := chs)"
      using cleanup_step [OF Suc.prems(1) l] by metis
    have "length (joinedChannels w3 (cp_guid player)) = n" using s(5) l Suc.prems(2) by simp
    then obtain w' where "cleanup_channels n M E player w3 = Some w'" "mgr_inv M w'"
      "joinedChannels w' = (joinedChannels w3)(cp_guid player := [])"
      using Suc.IH s(4) by blast
    then show ?case using s l by (simp add: Let_def fun_eq_iff)
  qed (auto simp: fun_upd_idem)
  then show ?thesis using that assms unfolding CleanupChannels_def by metis
qed

end
