(* ===== verification/ChannelMgr_Handlers.thy ===== *)
theory ChannelMgr_Handlers imports ChannelMgr_Inv begin

text \<open>
  Every handler of the channel manager keeps the invariant and reads no deleted channel. The only command
  without a result is a member who kicks or bans himself.
\<close>

section \<open>Handlers\<close>

lemma call_ok:
  assumes "mgr_inv M w" "heap w g \<noteq> None" "\<And>s. preserves s (f s)"
  obtains w' where "on_channel (\<lambda>s. Some (f s)) g w = Some w'" "mgr_inv M w'"
proof -
  obtain c where c: "heap w g = Some c" using assms(2) by blast
  show ?thesis
    using that [OF on_channel_defined [OF c] mgr_inv_detach [OF assms(1) c assms(3)]] .
qed

lemma call_keeps_heap: "on_channel f g w = Some w' \<Longrightarrow> heap w h \<noteq> None \<Longrightarrow> heap w' h \<noteq> None"
  by (auto simp: on_channel_def split: option.splits)

lemma find_by_part_ok:
  assumes "mgr_inv M w" "set gs \<subseteq> set (joinedChannels w p)"
  obtains r where "find_by_part M part gs w = Some r" "\<And>g. r = Some g \<Longrightarrow> heap w g \<noteq> None"
proof -
  have a: "heap w g \<noteq> None" if "g \<in> set (joinedChannels w p)" for g
    using joined_alive [of w "{}" g p] assms(1) that by (auto simp: mgr_inv_def)
  have "\<exists>r. find_by_part M part gs w = Some r \<and> (\<forall>g. r = Some g \<longrightarrow> heap w g \<noteq> None)"
    if "set gs \<subseteq> set (joinedChannels w p)" for gs
    using that
  proof (induction gs)
    case (Cons g gs)
    then obtain c where "heap w g = Some c" using a by fastforce
    with Cons show ?case by (auto split: option.split)
  qed simp
  then show ?thesis using that assms(2) by blast
qed

lemma by_name_part_ok:
  assumes "mgr_inv M w"
  obtains r where "GetChannelForPlayerByNamePart M n p w = Some r" "\<And>g. r = Some g \<Longrightarrow> heap w g \<noteq> None"
proof (cases "lower_name M n")
  case None
  then show ?thesis using that by (simp add: GetChannelForPlayerByNamePart_def)
next
  case (Some part)
  obtain r where "find_by_part M part (joinedChannels w p) w = Some r" "\<And>g. r = Some g \<Longrightarrow> heap w g \<noteq> None"
    using find_by_part_ok [OF assms order_refl] by blast
  then show ?thesis using that Some by (simp add: GetChannelForPlayerByNamePart_def)
qed

lemma preserves_set_password: "preserves s (s\<lparr>channelPassword := w\<rparr>)"
  by (rule preserves_fields)

lemma GetSystemChannel_defined:
  assumes "channelEntry M cid \<noteq> None"
  obtains g w' where "GetSystemChannel M cid zone w = Some (g, w')"
proof -
  obtain entry g where e: "channelEntry M cid = Some entry" "CreateBuiltinChannelGuid M cid zone = Some g"
    using assms by (auto simp: CreateBuiltinChannelGuid_def)
  show ?thesis by (cases "g \<in> set (builtinChannels w)") (auto intro: that simp: GetSystemChannel_def e)
qed

lemma HandleJoinChannel_ok:
  assumes "mgr_inv M w" "\<not> stopped w" "chat_env_ok E" "is_connected E player"
  obtains w' where "HandleJoinChannel M E player zone canJoin allowed cid name password w = Some w'" "mgr_inv M w'"
proof -
  let ?j = "\<lambda>pass g w. on_channel (\<lambda>s. Some (JoinChannel E player pass s)) g w"
  have j: "\<exists>w'. ?j pass g w = Some w' \<and> mgr_inv M w'" if "mgr_inv M w" "heap w g \<noteq> None" for pass g w
    using call_ok [OF that, of "JoinChannel E player pass"] preserves_JoinChannel [OF assms(3,4)] by metis
  have b: "\<exists>w'. (case GetSystemChannel M cid zone w of None \<Rightarrow> None | Some (g, w) \<Rightarrow> ?j [] g w) = Some w' \<and> mgr_inv M w'"
    if e: "channelEntry M cid \<noteq> None" "cid \<noteq> 0"
  proof -
    obtain g w1 where s: "GetSystemChannel M cid zone w = Some (g, w1)"
      using GetSystemChannel_defined [OF e(1)] by blast
    show ?thesis using j [OF GetSystemChannel_inv(1,2) [OF assms(1) s e(2)]] s by simp
  qed
  have c: "\<exists>w'. (case GetCustomChannel M name w of Some g \<Rightarrow> ?j password g w
      | None \<Rightarrow> (case CreateCustomChannel M name w of None \<Rightarrow> None | Some (None, w) \<Rightarrow> Some w
          | Some (Some g, w) \<Rightarrow> Option.bind (on_channel (\<lambda>s. Some (s\<lparr>channelPassword := password\<rparr>)) g w) (?j password g)))
      = Some w' \<and> mgr_inv M w'"
  proof (cases "GetCustomChannel M name w")
    case (Some g)
    then have "g \<in> set (map snd (customChannels w))"
      by (force simp: GetCustomChannel_def bind_eq_Some_conv dest: map_of_SomeD)
    then have "heap w g \<noteq> None" using heap_ok_custom assms(1) by (metis mgr_inv_def option.distinct(1))
    then show ?thesis using j [OF assms(1)] Some by simp
  next
    case None
    show ?thesis
    proof (cases "lower_name M name")
      case None
      then show ?thesis using assms(1) by (simp add: CreateCustomChannel_def GetCustomChannel_def)
    next
      case (Some key)
      then have k: "map_of (customChannels w) key = None" using None by (simp add: GetCustomChannel_def)
      obtain g w1 where n: "new_custom M key name (\<lambda>c. c\<lparr>isDirty := True\<rparr>) [] w = Some (g, w1)"
        by (auto simp: new_custom_def CreateCustomChannelGuid_def Channel_custom_def)
      have i: "mgr_inv M w1" "heap w1 g \<noteq> None"
        using new_custom_inv(1,2) [OF assms(1,2) n k] by simp_all
      obtain w2 where w2: "on_channel (\<lambda>s. Some (s\<lparr>channelPassword := password\<rparr>)) g w1 = Some w2" "mgr_inv M w2"
        using call_ok [OF i, of "\<lambda>s. s\<lparr>channelPassword := password\<rparr>"] preserves_set_password by metis
      have "heap w2 g \<noteq> None" by (rule call_keeps_heap [OF w2(1) i(2)])
      then obtain w3 where "?j password g w2 = Some w3" "mgr_inv M w3" using j [OF w2(2)] by blast
      then show ?thesis using None Some k n w2 by (simp add: CreateCustomChannel_def)
    qed
  qed
  have "\<exists>w'. HandleJoinChannel M E player zone canJoin allowed cid name password w = Some w' \<and> mgr_inv M w'"
  proof (cases "cid = 0")
    case True
    then show ?thesis using assms(1) c by (auto simp: HandleJoinChannel_def Let_def)
  next
    case False
    show ?thesis
    proof (cases "channelEntry M cid = None \<or> (case zone of None \<Rightarrow> True | Some z \<Rightarrow> \<not> canJoin cid z)")
      case True
      then show ?thesis using assms(1) False by (auto simp: HandleJoinChannel_def Let_def split: option.splits)
    next
      case e: False
      then show ?thesis using b False by (auto simp: HandleJoinChannel_def Let_def split: option.splits)
    qed
  qed
  then show ?thesis using that by blast
qed

lemma GetChannel_ok:
  assumes "mgr_inv M w" "cid = 0 \<or> channelEntry M cid \<noteq> None"
  obtains r w' where "GetChannel M cid name p notify zone w = Some (r, w')" "mgr_inv M w'" "\<And>g. r = Some g \<Longrightarrow> heap w' g \<noteq> None"
proof -
  have h: "chat_heap_ok M w" using assms(1) by (simp add: mgr_inv_def)
  let ?f = "\<lambda>r. (r, if r = None \<and> notify then send_notify p (notify_of_type 0x05) w else w)"
  have "\<exists>r w'. ?f r0 = (r, w') \<and> mgr_inv M w' \<and> (\<forall>g. r = Some g \<longrightarrow> heap w' g \<noteq> None)"
    if "\<And>g. r0 = Some g \<Longrightarrow> heap w g \<noteq> None" for r0
    using assms(1) that by (cases r0) auto
  moreover have "heap w g \<noteq> None" if "map_of (customChannels w) key = Some g" for key g
  proof -
    have "g \<in> set (map snd (customChannels w))" using map_of_SomeD [OF that] by force
    then show ?thesis using heap_ok_custom [OF h] by fastforce
  qed
  moreover have "heap w g \<noteq> None" if "g \<in> set (builtinChannels w)" for g
    using heap_ok_builtin [OF h that] by auto
  ultimately have "\<exists>r w'. GetChannel M cid name p notify zone w = Some (r, w') \<and> mgr_inv M w' \<and>
      (\<forall>g. r = Some g \<longrightarrow> heap w' g \<noteq> None)"
    using assms by (auto simp: GetChannel_def Let_def CreateBuiltinChannelGuid_def split: option.split)
  then show ?thesis using that by blast
qed

lemma HandleLeaveChannel_ok:
  assumes "mgr_inv M w"
  obtains w' where "HandleLeaveChannel M E player zone canJoin cid name w = Some w'" "mgr_inv M w'"
proof -
  have "\<exists>w'. HandleLeaveChannel M E player zone canJoin cid name w = Some w' \<and> mgr_inv M w'"
  proof (cases "name = [] \<and> cid = 0 \<or>
      cid \<noteq> 0 \<and> (channelEntry M cid = None \<or> (case zone of None \<Rightarrow> True | Some z \<Rightarrow> \<not> canJoin cid z))")
    case True
    then show ?thesis using assms by (auto simp: HandleLeaveChannel_def)
  next
    case False
    then have e: "cid = 0 \<or> channelEntry M cid \<noteq> None" by auto
    obtain r w1 where g: "GetChannel M cid name (cp_guid player) True zone w = Some (r, w1)" "mgr_inv M w1"
      "\<And>g. r = Some g \<Longrightarrow> heap w1 g \<noteq> None"
      using GetChannel_ok [OF assms e] by metis
    obtain w2 where l: "(case r of None \<Rightarrow> Some w1
        | Some g \<Rightarrow> on_channel (\<lambda>s. Some (LeaveChannel E player True False s)) g w1) = Some w2" "mgr_inv M w2"
    proof (cases r)
      case None
      then show ?thesis using that g(2) by simp
    next
      case (Some h)
      then show ?thesis
        using that call_ok [OF g(2), of h "LeaveChannel E player True False"] g(3) preserves_LeaveChannel by auto
    qed
    obtain w3 where "(if cid \<noteq> 0 then mgr_LeftChannel M cid zone w2 else Some w2) = Some w3" "mgr_inv M w3"
    proof (cases "cid = 0")
      case True
      then show ?thesis using that l(2) by simp
    next
      case c: False
      with e have "channelEntry M cid \<noteq> None" by blast
      then obtain w3 where "mgr_LeftChannel M cid zone w2 = Some w3" "mgr_inv M w3"
        using mgr_LeftChannel_inv [OF l(2)] by metis
      then show ?thesis using that c by simp
    qed
    then show ?thesis
      using False g(1) l(1) by (auto simp: HandleLeaveChannel_def)
  qed
  then show ?thesis using that by blast
qed

lemma HandleChannelCommand_ok:
  assumes "mgr_inv M w"
  obtains w' where "HandleChannelCommand M E player op name w = Some w'" "mgr_inv M w'"
proof -
  obtain r where r: "GetChannelForPlayerByNamePart M name (cp_guid player) w = Some r" "\<And>g. r = Some g \<Longrightarrow> heap w g \<noteq> None"
    using by_name_part_ok [OF assms] by blast
  show ?thesis
  proof (cases r)
    case None
    then show ?thesis using that r assms by (simp add: HandleChannelCommand_def)
  next
    case (Some g)
    then show ?thesis
      using that call_ok [OF assms, of g "channel_command E op player"] r preserves_channel_command
      by (auto simp: HandleChannelCommand_def)
  qed
qed

lemma HandleChannelPassword_ok:
  assumes "mgr_inv M w"
  obtains w' where "HandleChannelPassword M E player channel password w = Some w'" "mgr_inv M w'"
proof -
  obtain r where r: "GetChannelForPlayerByNamePart M channel (cp_guid player) w = Some r" "\<And>g. r = Some g \<Longrightarrow> heap w g \<noteq> None"
    using by_name_part_ok [OF assms] by blast
  show ?thesis
  proof (cases r)
    case None
    then show ?thesis using that r assms by (simp add: HandleChannelPassword_def)
  next
    case (Some g)
    then have "heap w g \<noteq> None" using r(2) by blast
    then obtain w1 where "on_channel (\<lambda>s. Some (Channel_Password E player password s)) g w = Some w1" "mgr_inv M w1"
      using call_ok [OF assms, of g "Channel_Password E player password"] preserves_Password by metis
    then show ?thesis
      using that r(1) Some assms by (cases "length password > MAX_CHANNEL_PASS_STR") (simp_all add: HandleChannelPassword_def)
  qed
qed

text \<open>A command on a player keeps the invariant when it has a result, and it has one unless it is a self-kick.\<close>

definition self_kick :: "chat_env \<Rightarrow> chat_player \<Rightarrow> channel_player_opcode \<Rightarrow> string \<Rightarrow> channel \<Rightarrow> bool" where
  "self_kick E player op name c \<longleftrightarrow> op \<in> {CHAT_CHANNEL_KICK, CHAT_CHANNEL_BAN} \<and>
     FindConnectedPlayerByName E name = Some player \<and> ownerGuid c = cp_guid player \<and> ownershipEnabled c \<and>
     (\<exists>h. IsOn h c \<and> h \<noteq> cp_guid player)"

lemma HandleChannelPlayerCommand_inv:
  assumes "mgr_inv M w" "chat_env_ok E" "is_connected E player"
    "HandleChannelPlayerCommand M E player op channel name w = Some w'"
  shows "mgr_inv M w'"
proof -
  obtain r where r: "GetChannelForPlayerByNamePart M channel (cp_guid player) w = Some r"
    using by_name_part_ok [OF assms(1)] by blast
  have i: "mgr_inv M w''" if "on_channel (channel_player_command E op player n) g w = Some w''" for g n w''
    by (rule on_channel_inv [OF assms(1) that]) (use preserves_channel_player_command [OF assms(2,3)] in blast)
  show ?thesis
    using assms(1,4) i r by (auto simp: HandleChannelPlayerCommand_def split: if_splits option.splits)
qed

lemma HandleChannelPlayerCommand_defined:
  assumes "mgr_inv M w" "chat_env_ok E" "is_connected E player"
    "HandleChannelPlayerCommand M E player op channel name w = None"
  obtains n g c where "normalize M name = Some n" "heap w g = Some c" "self_kick E player op n c"
proof -
  obtain r where r: "GetChannelForPlayerByNamePart M channel (cp_guid player) w = Some r" "\<And>g. r = Some g \<Longrightarrow> heap w g \<noteq> None"
    using by_name_part_ok [OF assms(1)] by blast
  have h: "chat_heap_ok M w" using assms(1) by (simp add: mgr_inv_def)
  obtain n g where n: "normalize M name = Some n" "r = Some g" "on_channel (channel_player_command E op player n) g w = None"
    using assms(4) r(1) by (auto simp: HandleChannelPlayerCommand_def split: if_splits option.splits)
  obtain c where c: "heap w g = Some c" using r(2) n(2) by blast
  then have k: "channel_player_command E op player n (attach c w) = None"
    using n(3) by (simp add: on_channel_def)
  obtain ban where ban: "KickOrBan E player n ban (attach c w) = None" "op \<in> {CHAT_CHANNEL_KICK, CHAT_CHANNEL_BAN}"
    using k by (cases op) auto
  have ok: "om_ok (playersStore (attach c w))" using heap_okD(2) [OF h c] by (simp add: channel_inv_def members_ok_def)
  obtain bad x where b: "kick_allowed E player n bad (attach c w)" "cp_guid bad = cp_guid player"
    "ownerGuid c = cp_guid player" "ownershipEnabled (attach c w)" "IsOn x c" "x \<noteq> cp_guid player"
    using ban(1) KickOrBan_None [OF ok, of E player n ban] by auto
  have "FindConnectedPlayerByName E n = Some bad" using b(1) by (simp add: kick_allowed_def)
  then have "bad = player"
    using by_name(1) [OF assms(2), of n bad] assms(3) b(2) by (simp add: is_connected_def)
  moreover have "ownershipEnabled (attach c w) = ownershipEnabled c" by (simp add: attach_def channel.defs)
  ultimately have "self_kick E player op n c"
    using b ban(2) by (auto simp: self_kick_def kick_allowed_def)
  then show ?thesis using that n(1) c by blast
qed

lemma SetGMVisible_ok:
  assumes "mgr_inv M w"
  obtains w' where "SetGMVisible player on w = Some w'" "mgr_inv M w'"
proof -
  have "\<exists>w'. set_invisible_on p b gs w = Some w' \<and> mgr_inv M w'"
    if "mgr_inv M w" "\<forall>g \<in> set gs. heap w g \<noteq> None" for p b gs w
    using that
  proof (induction gs arbitrary: w)
    case (Cons g gs)
    obtain w1 where w1: "on_channel (\<lambda>s. Some (Channel_SetInvisible p b s)) g w = Some w1" "mgr_inv M w1"
      using call_ok [OF Cons.prems(1), of g "Channel_SetInvisible p b"] Cons.prems(2) preserves_SetInvisible by auto
    have "\<forall>h \<in> set gs. heap w1 h \<noteq> None" using Cons.prems(2) call_keeps_heap [OF w1(1)] by auto
    then show ?case using Cons.IH [OF w1(2)] w1(1) by auto
  qed simp
  moreover have "heap w g \<noteq> None" if "g \<in> set (joinedChannels w (cp_guid player))" for g
    using joined_alive [of w "{}" g "cp_guid player"] assms that by (auto simp: mgr_inv_def)
  ultimately show ?thesis using that assms unfolding SetGMVisible_def by blast
qed

lemma used_channel_ok:
  assumes "\<forall>g \<in> set gs. heap w g \<noteq> None"
  shows "\<exists>r. used_channel i gs w = Some r \<and> (\<forall>g. r = Some g \<longrightarrow> g \<in> set gs \<and> (\<exists>c. heap w g = Some c \<and> channelId c = i))"
  using assms by (induction gs) (auto split: option.splits)

lemma join_ok:
  assumes "mgr_inv M w" "heap w g \<noteq> None" "chat_env_ok E" "is_connected E player"
  obtains w' where "on_channel (\<lambda>s. Some (JoinChannel E player pass s)) g w = Some w'" "mgr_inv M w'"
  using call_ok [OF assms(1,2), of "JoinChannel E player pass"] preserves_JoinChannel [OF assms(3,4)] by metis

lemma count_removeAll: "count_list (removeAll g cs) h = (if h = g then 0 else count_list cs h)"
  by (induction cs) auto

lemma leave_switched_ok:
  assumes "mgr_inv M w" "heap w g = Some c" "channelId c \<noteq> 0"
  shows "\<exists>w'. Option.bind (on_channel (\<lambda>s. Some (LeaveChannel E player sendRemove True s)) g w)
       (\<lambda>w. let w = w\<lparr>joinedChannels := (joinedChannels w)
                              (cp_guid player := removeAll g (joinedChannels w (cp_guid player)))\<rparr>
           in case heap w g of None \<Rightarrow> None | Some c \<Rightarrow> mgr_LeftChannel M (channelId c) (zoneEntry c) w) = Some w' \<and>
     mgr_inv M w'"
proof -
  let ?p = "cp_guid player"
  let ?r = "\<lambda>w. w\<lparr>joinedChannels := (joinedChannels w)(?p := removeAll g (joinedChannels w ?p))\<rparr>"
  have h: "chat_heap_ok M w" "lists_except w {}" using assms(1) by (simp_all add: mgr_inv_def)
  have "\<exists>w1 c1. on_channel (\<lambda>s. Some (LeaveChannel E player sendRemove True s)) g w = Some w1 \<and> mgr_inv M (?r w1) \<and>
      heap w1 g = Some c1 \<and> channelId c1 = channelId c"
  proof (cases sendRemove)
    case True
    let ?s = "LeaveChannel E player True True (attach c w)"
    have c: "on_channel (\<lambda>s. Some (LeaveChannel E player sendRemove True s)) g w = Some (detach g ?s w)"
      using on_channel_defined [OF assms(2), of "LeaveChannel E player sendRemove True"] True by simp
    have i: "mgr_inv M (detach g ?s w)"
      by (rule mgr_inv_detach [OF assms(1,2) preserves_LeaveChannel])
    have "\<not> IsOn ?p ?s"
    proof (cases "IsOn ?p c")
      case False
      then obtain xs where "?s = tell xs (attach c w)" using LeaveChannel_absent [of player "attach c w" E True True] by auto
      then show ?thesis using False by simp
    next
      case True
      then obtain xs where "?s = (let s' = tell xs (departed True ?p (attach c w)) in
        if passes_ownership ?p (attach c w) then pass_on E (next_owner (om_erase ?p (playersStore (attach c w)))) s' else s')"
        using LeaveChannel_member [of player "attach c w" E True True] by auto
      moreover have "\<not> IsOn ?p (departed True ?p (attach c w))" by (simp add: IsOn_def)
      ultimately show ?thesis by (simp add: Let_def)
    qed
    then have "\<not> on_list (detach g ?s w) ?p g" by (simp add: on_list_def)
    then have "count_list (joinedChannels (detach g ?s w) ?p) g = 0"
      using i by (simp add: mgr_inv_def lists_except_def)
    then have "?r (detach g ?s w) = detach g ?s w"
      by (simp add: count_list_0_iff removeAll_id fun_upd_triv)
    moreover have "channelId ?s = channelId c"
      using preserves_LeaveChannel [of "attach c w" E player True] by (simp add: preserves_def same_channel_def)
    ultimately show ?thesis using c i by simp
  next
    case False
    obtain w1 where w1: "on_channel (\<lambda>s. Some (LeaveChannel E player False True s)) g w = Some w1" "chat_heap_ok M w1"
      "lists_except w1 {(?p, g)}" "\<not> on_list w1 ?p g"
      and c1: "\<exists>c'. heap w1 g = Some c' \<and> channelId c' = channelId c \<and> zoneEntry c' = zoneEntry c"
      by (rule silent_leave [of M w "{}" player g c E True]) (use h assms(2) in simp_all)
    have "lists_except (?r w1) {}"
      unfolding lists_except_def
    proof (intro allI impI)
      fix q k
      show "count_list (joinedChannels (?r w1) q) k = (if on_list (?r w1) q k then 1 else 0)"
        using w1(3,4) by (cases "q = ?p"; cases "k = g") (simp_all add: lists_except_def count_removeAll)
    qed
    then have "mgr_inv M (?r w1)" using w1(2) by (simp add: mgr_inv_def)
    then show ?thesis using w1(1) c1 False by auto
  qed
  then obtain w1 c1 where w1: "on_channel (\<lambda>s. Some (LeaveChannel E player sendRemove True s)) g w = Some w1"
    "mgr_inv M (?r w1)" "heap w1 g = Some c1" "channelId c1 = channelId c" by blast
  have "channelEntry M (channelId c1) \<noteq> None"
    using builtin_entry [of M "?r w1" g c1] w1(2-4) assms(3) by (simp add: mgr_inv_def)
  then obtain w2 where "mgr_LeftChannel M (channelId c1) (zoneEntry c1) (?r w1) = Some w2" "mgr_inv M w2"
    using mgr_LeftChannel_inv [OF w1(2)] by metis
  then show ?thesis using w1 by (simp add: Let_def)
qed

lemma switch_channel_ok:
  assumes "mgr_inv M w" "chat_env_ok E" "is_connected E player"
    "\<And>g. joinChannel = Some g \<Longrightarrow> heap w g \<noteq> None"
    "\<And>g. removeChannel = Some g \<Longrightarrow> \<exists>c. heap w g = Some c \<and> channelId c \<noteq> 0"
  shows "\<exists>w'. switch_channel M E player joinChannel removeChannel sendRemove w = Some w' \<and> mgr_inv M w'"
proof -
  obtain w1 where w1: "(case joinChannel of None \<Rightarrow> Some w
      | Some g \<Rightarrow> on_channel (\<lambda>s. Some (JoinChannel E player [] s)) g w) = Some w1" "mgr_inv M w1"
    "\<And>g. removeChannel = Some g \<Longrightarrow> \<exists>c. heap w1 g = Some c \<and> channelId c \<noteq> 0"
  proof (cases joinChannel)
    case None
    then show ?thesis using that assms by simp
  next
    case (Some j)
    then obtain c where c: "heap w j = Some c" using assms(4) by blast
    let ?s = "JoinChannel E player [] (attach c w)"
    have p: "preserves (attach c w) ?s" by (rule preserves_JoinChannel [OF assms(2,3)])
    have "on_channel (\<lambda>s. Some (JoinChannel E player [] s)) j w = Some (detach j ?s w)"
      by (rule on_channel_defined [OF c])
    moreover have "mgr_inv M (detach j ?s w)" by (rule mgr_inv_detach [OF assms(1) c p])
    moreover have "\<exists>c. heap (detach j ?s w) g = Some c \<and> channelId c \<noteq> 0" if "removeChannel = Some g" for g
      using assms(5) [OF that] c p by (auto simp: preserves_def same_channel_def)
    ultimately show ?thesis using that Some by simp
  qed
  show ?thesis
  proof (cases removeChannel)
    case None
    then show ?thesis using w1 by (simp add: switch_channel_def)
  next
    case (Some g)
    then obtain c where "heap w1 g = Some c" "channelId c \<noteq> 0" using w1(3) by blast
    then show ?thesis using leave_switched_ok [OF w1(2)] w1(1) Some by (simp add: switch_channel_def)
  qed
qed

lemma local_channel_ok:
  assumes "mgr_inv M w" "chat_env_ok E" "is_connected E player" "i \<noteq> 0"
  shows "\<exists>w'. local_channel M E player z canJoin i w = Some w' \<and> mgr_inv M w'"
proof -
  let ?js = "joinedChannels w (cp_guid player)"
  have l: "lists_except w {}" using assms(1) by (simp add: mgr_inv_def)
  have a: "\<forall>g \<in> set ?js. heap w g \<noteq> None"
  proof
    fix g
    assume "g \<in> set ?js"
    then obtain c where "heap w g = Some c" using joined_alive [OF l, of g "cp_guid player"] by blast
    then show "heap w g \<noteq> None" by simp
  qed
  obtain used where u: "used_channel i ?js w = Some used"
    "\<And>g. used = Some g \<Longrightarrow> \<exists>c. heap w g = Some c \<and> channelId c \<noteq> 0"
    using used_channel_ok [OF a, of i] assms(4) by metis
  note sw = switch_channel_ok [OF _ assms(2,3)]
  show ?thesis
  proof (cases "channelEntry M i")
    case None
    then show ?thesis using assms(1) by (simp add: local_channel_def)
  next
    case (Some entry)
    have e: "channelEntry M i \<noteq> None" using Some by simp
    have system: "\<exists>g w1. GetSystemChannel M i zn w = Some (g, w1) \<and> mgr_inv M w1 \<and> heap w1 g \<noteq> None \<and>
      (\<forall>k. used = Some k \<longrightarrow> (\<exists>c. heap w1 k = Some c \<and> channelId c \<noteq> 0))" for zn
    proof -
      obtain g w1 where s: "GetSystemChannel M i zn w = Some (g, w1)" using GetSystemChannel_defined [OF e] by blast
      note i1 = GetSystemChannel_inv [OF assms(1) s assms(4)]
      have "\<exists>c. heap w1 k = Some c \<and> channelId c \<noteq> 0" if k: "used = Some k" for k
      proof -
        obtain c where c: "heap w k = Some c" "channelId c \<noteq> 0" using u(2) [OF k] by blast
        have "heap w1 k = heap w k" by (rule i1(4)) (simp add: c)
        then show ?thesis using c by simp
      qed
      then show ?thesis using s i1(1,2) by blast
    qed
    obtain gz wz where z: "GetSystemChannel M i (Some z) w = Some (gz, wz)" "mgr_inv M wz" "heap wz gz \<noteq> None"
      "\<And>k. used = Some k \<Longrightarrow> \<exists>c. heap wz k = Some c \<and> channelId c \<noteq> 0"
      using system [of "Some z"] by metis
    obtain gn wn where n: "GetSystemChannel M i None w = Some (gn, wn)" "mgr_inv M wn" "heap wn gn \<noteq> None"
      using system [of None] by metis
    obtain w1 where w1: "switch_channel M E player (Some gz) used (used = None) wz = Some w1" "mgr_inv M w1"
      using sw [OF z(2), of "Some gz" used "used = None"] z(3,4) by auto
    obtain w2 where w2: "switch_channel M E player None None True wz = Some w2" "mgr_inv M w2"
      using sw [OF z(2), of None None True] by auto
    obtain w3 where w3: "switch_channel M E player (Some gn) None True wn = Some w3" "mgr_inv M w3"
      using sw [OF n(2), of "Some gn" None True] n(3) by auto
    obtain w4 where w4: "switch_channel M E player None used True w = Some w4" "mgr_inv M w4"
      using sw [OF assms(1), of None used True] u(2) by auto
    show ?thesis
      using assms(1) Some u(1) z(1) n(1) w1 w2 w3 w4 by (cases used) (simp_all add: local_channel_def)
  qed
qed

lemma local_channels_ok:
  assumes "chat_env_ok E" "is_connected E player" "channelEntry M 0 = None"
  shows "mgr_inv M w \<Longrightarrow> \<exists>w'. local_channels M E player z canJoin is w = Some w' \<and> mgr_inv M w'"
proof (induction "is" arbitrary: w)
  case (Cons i "is")
  have "\<exists>w1. local_channel M E player z canJoin i w = Some w1 \<and> mgr_inv M w1"
  proof (cases "i = 0")
    case True
    then show ?thesis using assms(3) Cons.prems by (simp add: local_channel_def)
  next
    case False
    then show ?thesis by (rule local_channel_ok [OF Cons.prems assms(1,2)])
  qed
  then obtain w1 where w1: "local_channel M E player z canJoin i w = Some w1" "mgr_inv M w1" by blast
  show ?case using Cons.IH [OF w1(2)] w1(1) by simp
qed simp

lemma UpdateLocalChannels_ok:
  assumes "mgr_inv M w" "chat_env_ok E" "is_connected E player" "channelEntry M 0 = None"
  obtains w' where "UpdateLocalChannels M E player loading newZone canJoin w = Some w'" "mgr_inv M w'"
proof (cases "loading \<or> newZone = None")
  case True
  then show ?thesis using that assms(1) by (auto simp: UpdateLocalChannels_def)
next
  case False
  then obtain z where z: "newZone = Some z" "\<not> loading" by blast
  obtain w' where "local_channels M E player z canJoin (entryIds M) w = Some w'" "mgr_inv M w'"
    using local_channels_ok [OF assms(2-4,1)] by blast
  then show ?thesis using that z by (simp add: UpdateLocalChannels_def)
qed

lemma save_channels_ok:
  assumes "mgr_inv M w" "\<forall>g \<in> set gs. heap w g \<noteq> None"
  obtains w' where "save_channels now delay gs w = Some w'" "mgr_inv M w'"
proof -
  have "\<exists>w'. save_channels now delay gs w = Some w' \<and> mgr_inv M w'"
    using assms
  proof (induction gs arbitrary: w)
    case (Cons g gs)
    obtain c where c: "heap w g = Some c" using Cons.prems(2) by auto
    obtain d stmts where u: "UpdateChannelInDB now delay c = (d, stmts)" by (cases "UpdateChannelInDB now delay c")
    then have d: "channelGuid d = channelGuid c" "channelId d = channelId c" "zoneEntry d = zoneEntry c"
      "playersStore d = playersStore c" "bannedStore d = bannedStore c" "ownerGuid d = ownerGuid c"
      by (auto simp: UpdateChannelInDB_def Let_def split: if_splits)
    let ?w = "w\<lparr>heap := (heap w)(g \<mapsto> d), chat_saved := chat_saved w @ stmts\<rparr>"
    have h: "chat_heap_ok M w" "lists_except w {}" using Cons.prems(1) by (simp_all add: mgr_inv_def)
    have "channel_inv d = channel_inv c" using d by (simp add: channel_inv_def)
    then have "chat_heap_ok M ?w" using h(1) c d unfolding chat_heap_ok_def by (auto split: if_splits)
    moreover have "on_list ?w p k = on_list w p k" for p k
      using c d by (simp add: on_list_def IsOn_def)
    then have "lists_except ?w {}" using h(2) by (simp add: lists_except_def)
    ultimately have "mgr_inv M ?w" by (simp add: mgr_inv_def)
    moreover have "\<forall>k \<in> set gs. heap ?w k \<noteq> None" using Cons.prems(2) by simp
    ultimately obtain w' where "save_channels now delay gs ?w = Some w'" "mgr_inv M w'" using Cons.IH [of ?w] by blast
    then show ?case using c u by (simp add: Let_def)
  qed simp
  then show ?thesis using that by blast
qed

lemma SaveToDB_ok:
  assumes "mgr_inv M w"
  obtains w' where "SaveToDB now delay w = Some w'" "mgr_inv M w'"
proof -
  have "heap w g \<noteq> None" if "g \<in> set (map snd (customChannels w))" for g
    using heap_ok_custom [of M w g] that assms by (auto simp: mgr_inv_def)
  then show ?thesis
    using save_channels_ok [OF assms] that unfolding SaveToDB_def by blast
qed

end
