(* ===== verification/ChannelMgr_Props.thy ===== *)
theory ChannelMgr_Props imports ChannelMgr_Handlers begin

text \<open>
  The states the channel manager reaches from the start of the server by the calls of the client handlers and of
  \<^verbatim>\<open>Player\<close>, and the properties of the manager.
\<close>

section \<open>Reachable states\<close>

text \<open>One step is one call of a handler for a connected player, with any state of the players.\<close>

inductive mgr_step :: "mgr_env \<Rightarrow> chat_mgr \<Rightarrow> chat_mgr \<Rightarrow> bool" for M where
  join: "chat_env_ok E \<Longrightarrow> is_connected E p \<Longrightarrow> \<not> stopped w \<Longrightarrow>
     HandleJoinChannel M E p zone canJoin allowed i name pass w = Some w' \<Longrightarrow> mgr_step M w w'"
| leave: "HandleLeaveChannel M E p zone canJoin i name w = Some w' \<Longrightarrow> mgr_step M w w'"
| command: "HandleChannelCommand M E p op name w = Some w' \<Longrightarrow> mgr_step M w w'"
| player_command: "chat_env_ok E \<Longrightarrow> is_connected E p \<Longrightarrow>
     HandleChannelPlayerCommand M E p pop chan name w = Some w' \<Longrightarrow> mgr_step M w w'"
| password: "HandleChannelPassword M E p chan pass w = Some w' \<Longrightarrow> mgr_step M w w'"
| logout: "CleanupChannels M E p w = Some w' \<Longrightarrow> mgr_step M w w'"
| gm_visible: "SetGMVisible p b w = Some w' \<Longrightarrow> mgr_step M w w'"
| zone_change: "chat_env_ok E \<Longrightarrow> is_connected E p \<Longrightarrow>
     UpdateLocalChannels M E p loading newZone canJoin w = Some w' \<Longrightarrow> mgr_step M w w'"
| save: "SaveToDB now delay w = Some w' \<Longrightarrow> mgr_step M w w'"

lemma mgr_step_inv:
  assumes "mgr_step M w w'" "channelEntry M 0 = None" "mgr_inv M w"
  shows "mgr_inv M w'"
  using assms
proof (induction rule: mgr_step.induct)
  case (join E p w zone canJoin allowed i name pass w')
  then show ?case using HandleJoinChannel_ok [of M w E p zone canJoin allowed i name pass] by auto
next
  case (leave E p zone canJoin i name w w')
  then show ?case using HandleLeaveChannel_ok [of M w E p zone canJoin i name] by auto
next
  case (command E p op name w w')
  then show ?case using HandleChannelCommand_ok [of M w E p op name] by auto
next
  case (player_command E p pop chan name w w')
  then show ?case using HandleChannelPlayerCommand_inv by blast
next
  case (password E p chan pass w w')
  then show ?case using HandleChannelPassword_ok [of M w E p chan pass] by auto
next
  case (logout E p w w')
  then show ?case using CleanupChannels_inv [of M w E p] by auto
next
  case (gm_visible p b w w')
  then show ?case using SetGMVisible_ok [of M w p b] by auto
next
  case (zone_change E p loading newZone canJoin w w')
  then show ?case using UpdateLocalChannels_ok [of M w E p loading newZone canJoin] by auto
next
  case (save now delay w w')
  then show ?case using SaveToDB_ok [of M w now delay] by auto
qed

lemma mgr_inv_new: "mgr_inv M ChannelMgr_new"
  by (simp add: mgr_inv_def chat_heap_ok_def lists_except_def on_list_def ChannelMgr_new_def)

lemma load_rows_inv:
  "mgr_inv M w \<Longrightarrow> nextCounter w + length rows < 0xFFFFFFFFFF - 1 \<Longrightarrow> \<not> stopped w \<Longrightarrow> load_channel_rows M rows (w, d) = Some (w', d') \<Longrightarrow>
   mgr_inv M w'"
proof (induction rows arbitrary: w d)
  case (Cons row rows)
  obtain w1 d1 where r: "load_channel_row M row (w, d) = Some (w1, d1)" "load_channel_rows M rows (w1, d1) = Some (w', d')"
    using Cons.prems(4) by (auto simp: bind_eq_Some_conv)
  obtain n an ow pw bans where row: "row = (n, an, ow, pw, bans)" by (cases row)
  have "mgr_inv M w1 \<and> nextCounter w1 \<le> nextCounter w + 1 \<and> \<not> stopped w1"
  proof (cases "to_wide M n = None \<or> (\<exists>key. to_wide M n = Some key \<and> map_of (customChannels w) key \<noteq> None)")
    case True
    then have "w1 = w" using r(1) by (auto simp: load_channel_row_def row split: if_splits)
    then show ?thesis using Cons.prems by simp
  next
    case False
    then obtain key where key: "to_wide M n = Some key" "map_of (customChannels w) key = None" by auto
    obtain g where g: "new_custom M key n (\<lambda>c. c\<lparr>announceEnabled := an, ownershipEnabled := ow, channelPassword := pw\<rparr>) bans w
        = Some (g, w1)"
      using r(1) key by (auto simp: load_channel_row_def row)
    have "mgr_inv M w1" by (rule new_custom_inv(1) [OF Cons.prems(1,3) g key(2)]) simp
    moreover have "nextCounter w1 = nextCounter w + 1 \<and> (stopped w1 \<longleftrightarrow> nextCounter w \<ge> 0xFFFFFFFFFF - 1)"
      using g Cons.prems(3) by (auto simp: new_custom_def CreateCustomChannelGuid_def)
    ultimately show ?thesis using Cons.prems(2) by simp
  qed
  then show ?case using Cons.IH [of w1 d1] r(2) Cons.prems(2) by simp
qed simp

lemma LoadFromDB_inv:
  assumes "ChannelMgr_LoadFromDB M rows ChannelMgr_new = Some w" "length rows < 0xFFFFFFFFF0"
  shows "mgr_inv M w"
proof (cases "preserveCustom M")
  case False
  then show ?thesis using assms(1) mgr_inv_new by (simp add: ChannelMgr_LoadFromDB_def)
next
  case True
  let ?w = "if preserveDays M \<noteq> 0 then ChannelMgr_new\<lparr>chat_saved := chat_saved ChannelMgr_new @
      [DEL_OLD_CHANNELS (preserveDays M * 86400)]\<rparr> else ChannelMgr_new"
  obtain w1 d where l: "load_channel_rows M rows (?w, []) = Some (w1, d)"
    and w: "w = w1\<lparr>chat_saved := chat_saved w1 @ map (\<lambda>n. DEL_CHANNEL n (mgr_team M)) d\<rparr>"
    using assms(1) True unfolding ChannelMgr_LoadFromDB_def Let_def by (auto split: if_splits)
  have i: "mgr_inv M ?w" by (simp add: mgr_inv_new)
  have n: "nextCounter ?w = 1" "\<not> stopped ?w" by (simp_all add: ChannelMgr_new_def)
  have "mgr_inv M w1" by (rule load_rows_inv [OF i _ n(2) l]) (use assms(2) n(1) in simp)
  then show ?thesis by (simp add: w)
qed

text \<open>The guids of 2^40 custom channels run out before the server started with this many rows.\<close>

inductive chat_reachable :: "mgr_env \<Rightarrow> chat_mgr \<Rightarrow> bool" for M where
  loaded: "length rows < 0xFFFFFFFFF0 \<Longrightarrow> ChannelMgr_LoadFromDB M rows ChannelMgr_new = Some w \<Longrightarrow> chat_reachable M w"
| stepped: "chat_reachable M w \<Longrightarrow> mgr_step M w w' \<Longrightarrow> chat_reachable M w'"

lemma chat_reachable_inv: "chat_reachable M w \<Longrightarrow> channelEntry M 0 = None \<Longrightarrow> mgr_inv M w"
  by (induction rule: chat_reachable.induct) (auto intro: LoadFromDB_inv mgr_step_inv)

lemma count_member: "count_list xs x = (if P then 1 else 0) \<Longrightarrow> x \<in> set xs \<longleftrightarrow> P"
  by (metis count_list_0_iff zero_neq_one)

lemma count_distinct: "(\<And>x. count_list xs x \<le> 1) \<Longrightarrow> distinct xs"
proof (induction xs)
  case (Cons a xs)
  have "count_list xs x \<le> 1" for x using Cons.prems [of x] by (auto split: if_splits)
  moreover have "a \<notin> set xs" using Cons.prems [of a] by (simp add: count_list_0_iff)
  ultimately show ?case using Cons.IH by simp
qed simp

lemma lists_agree:
  assumes "lists_except w {}"
  shows "distinct (joinedChannels w p)" "g \<in> set (joinedChannels w p) \<longleftrightarrow> on_list w p g"
proof -
  have c: "count_list (joinedChannels w p) g = (if on_list w p g then 1 else 0)" for g
    using assms by (simp add: lists_except_def)
  show "distinct (joinedChannels w p)" by (rule count_distinct) (simp add: c)
  show "g \<in> set (joinedChannels w p) \<longleftrightarrow> on_list w p g" by (rule count_member [OF c])
qed

section \<open>A concrete server\<close>

definition demo_mgr :: mgr_env where
  "demo_mgr = \<lparr>mgr_team = 469, realmId = 1, tournamentRealm = False, channelEntry = (\<lambda>_. None), entryIds = [],
     to_wide = Some, to_lower = map (\<lambda>c. if c = CHR ''X'' then CHR ''x'' else c), builtinName = (\<lambda>_ _. []), utf8_length = length,
     normalize = Some, preserveCustom = True, preserveDays = 0\<rparr>"

definition demo_start :: chat_mgr where
  "demo_start = the (ChannelMgr_LoadFromDB demo_mgr [(''X'', True, True, [], [])] ChannelMgr_new)"

definition demo_joined :: chat_mgr where
  "demo_joined = the (HandleJoinChannel demo_mgr demo_chat_env demo_ann None (\<lambda>_ _. False) True 0 ''x'' [] demo_start)"

lemmas demo_mgr_defs = ChannelMgr_LoadFromDB_def load_channel_row_def demo_mgr_def ChannelMgr_new_def new_custom_def
  CreateCustomChannelGuid_def Channel_custom_def HandleJoinChannel_def CreateCustomChannel_def MAX_CHANNEL_NAME_STR_def
  MAX_CHANNEL_PASS_STR_def is_digit_def GetCustomChannel_def lower_name_def on_channel_def

lemma demo_start: "ChannelMgr_LoadFromDB demo_mgr [(''X'', True, True, [], [])] ChannelMgr_new = Some demo_start"
  unfolding demo_start_def by (simp add: demo_mgr_defs)

lemma demo_join: "HandleJoinChannel demo_mgr demo_chat_env demo_ann None (\<lambda>_ _. False) True 0 ''x'' [] demo_start = Some demo_joined"
  unfolding demo_joined_def demo_start_def by (simp add: demo_mgr_defs)

lemma joins_list:
  assumes "admitted E player pass s"
  shows "m_channels (JoinChannel E player pass s) = m_channels (JoinedChannel (cp_guid player) s)"
proof -
  obtain xs where "JoinChannel E player pass s =
    (let s' = tell xs (entered player s) in
     if takes_ownership player s
     then change_info (cp_guid player) (PlayerInfo_SetModerator True)
       (SetOwner_guid E (cp_guid player) (playersStore s \<noteq> [] \<and> cp_isGMVisible player)
          (s'\<lparr>isOwnerInvisible := \<not> cp_isGMVisible player\<rparr>))
     else s')" using JoinChannel_admitted [OF assms] by blast
  then show ?thesis by (auto simp: Let_def entered_def split: if_splits)
qed

lemma demo_joined_list: "joinedChannels demo_joined 1 = [CustomChannelGuid demo_mgr 2]"
  apply (simp add: demo_joined_def demo_start_def demo_mgr_defs)
  apply (subst joins_list)
   apply (simp add: attach_def channel.defs admitted_def demo_defs IsOn_def IsBanned_def CheckPassword_def Channel_HasFlag_def)
  apply (simp add: attach_def channel.defs JoinedChannel_def demo_defs numeral_2_eq_2)
  done

lemma demo_env_ok: "chat_env_ok demo_chat_env" "is_connected demo_chat_env demo_ann" "is_connected demo_chat_env demo_bob"
  by (simp_all add: chat_env_ok_def is_connected_def FindConnectedPlayer_def demo_defs)

lemma demo_chat_reachable: "chat_reachable demo_mgr demo_joined" "\<not> stopped demo_start" "channelEntry demo_mgr 0 = None"
proof -
  show s: "\<not> stopped demo_start" by (simp add: demo_start_def demo_mgr_defs)
  have "chat_reachable demo_mgr demo_start" by (rule chat_reachable.loaded [OF _ demo_start]) simp
  then show "chat_reachable demo_mgr demo_joined"
    by (rule chat_reachable.stepped) (rule mgr_step.join [OF demo_env_ok(1,2) s demo_join])
  show "channelEntry demo_mgr 0 = None" by (simp add: demo_mgr_def)
qed

section \<open>The joined channels of the players\<close>

text \<open>
  C6: In every state the server reaches, the list \<open>m_channels\<close> of a player holds each of his channels once: it
  has no duplicates and holds exactly the channels that exist and have the player as a member, so it holds no
  pointer to a deleted channel.
\<close>

theorem joined_channels_consistent:
  assumes "chat_reachable M w" "channelEntry M 0 = None"
  shows "distinct (joinedChannels w p) \<and>
    (g \<in> set (joinedChannels w p) \<longleftrightarrow> (\<exists>c. heap w g = Some c \<and> channelGuid c = g \<and> IsOn p c))"
proof -
  have i: "chat_heap_ok M w" "lists_except w {}" using chat_reachable_inv [OF assms] by (simp_all add: mgr_inv_def)
  have "on_list w p g \<longleftrightarrow> (\<exists>c. heap w g = Some c \<and> channelGuid c = g \<and> IsOn p c)"
    using heap_okD(1) [OF i(1), of g] by (auto simp: on_list_def split: option.splits)
  then show ?thesis using lists_agree [OF i(2)] by simp
qed

lemma joined_channels_consistent_witness:
  "joinedChannels demo_joined 1 = [CustomChannelGuid demo_mgr 2] \<and>
   (\<exists>c. heap demo_joined (CustomChannelGuid demo_mgr 2) = Some c \<and> IsOn 1 c)"
proof -
  have "CustomChannelGuid demo_mgr 2 \<in> set (joinedChannels demo_joined 1)" unfolding demo_joined_list by simp
  then have "\<exists>c. heap demo_joined (CustomChannelGuid demo_mgr 2) = Some c \<and>
      channelGuid c = CustomChannelGuid demo_mgr 2 \<and> IsOn 1 c"
    using joined_channels_consistent [OF demo_chat_reachable(1,3), of 1 "CustomChannelGuid demo_mgr 2"] by simp
  then show ?thesis using demo_joined_list by blast
qed

text \<open>
  C20: In every state the server reaches, each channel has at most one owner: a member with the owner flag is the
  one \<open>ownerGuid\<close> names and is a moderator. No member of a channel is banned from it.
\<close>

theorem channel_owner_unique:
  assumes "chat_reachable M w" "channelEntry M 0 = None" "heap w g = Some c" "IsOn p c"
  shows "\<not> IsBanned p c \<and> (IsOwner (info_at p c) \<longrightarrow> p = ownerGuid c \<and> IsModerator (info_at p c))"
proof -
  have "chat_heap_ok M w" using chat_reachable_inv [OF assms(1,2)] by (simp add: mgr_inv_def)
  then have "channel_inv c" using heap_okD(2) assms(3) by blast
  then show ?thesis
    using assms(4) by (auto simp: channel_inv_def members_ok_def IsOn_def IsBanned_def info_at_def)
qed

lemma channel_owner_unique_witness:
  "\<exists>c. heap demo_joined (CustomChannelGuid demo_mgr 2) = Some c \<and> \<not> IsBanned 1 c"
proof -
  have "lists_except demo_joined {}" using chat_reachable_inv [OF demo_chat_reachable(1,3)] by (simp add: mgr_inv_def)
  then obtain c where "heap demo_joined (CustomChannelGuid demo_mgr 2) = Some c" "IsOn 1 c"
    using joined_alive [of demo_joined "{}" "CustomChannelGuid demo_mgr 2" 1] demo_joined_list by auto
  then show ?thesis using channel_owner_unique [OF demo_chat_reachable(1,3)] by blast
qed

section \<open>No handler reads a deleted channel\<close>



section \<open>Logging out\<close>

text \<open>
  A player who logs out leaves every channel: his list of joined channels is empty, no channel has him as a
  member, and the lists of the other players stay as they are.
\<close>

theorem logout_leaves_channels:
  assumes "chat_reachable M w" "channelEntry M 0 = None"
  shows "\<exists>w'. CleanupChannels M E p w = Some w' \<and> joinedChannels w' = (joinedChannels w)(cp_guid p := []) \<and>
    (\<forall>g. \<not> on_list w' (cp_guid p) g)"
proof (rule CleanupChannels_inv [OF chat_reachable_inv [OF assms], of E p])
  fix w'
  assume w': "CleanupChannels M E p w = Some w'" "mgr_inv M w'" "joinedChannels w' = (joinedChannels w)(cp_guid p := [])"
  have "lists_except w' {}" using w'(2) by (simp add: mgr_inv_def)
  then show ?thesis using lists_agree(2) [of w' _ "cp_guid p"] w' by auto
qed

lemma logout_leaves_channels_witness:
  "\<exists>w'. CleanupChannels demo_mgr demo_chat_env demo_ann demo_joined = Some w' \<and> joinedChannels demo_joined 1 \<noteq> [] \<and>
     joinedChannels w' 1 = []"
proof -
  have "cp_guid demo_ann = 1" by (simp add: demo_defs)
  then show ?thesis using logout_leaves_channels [OF demo_chat_reachable(1,3), of demo_chat_env demo_ann] demo_joined_list by auto
qed

section \<open>Names of channels after a restart\<close>

definition row_keys :: "mgr_env \<Rightarrow> (string \<times> bool \<times> bool \<times> string \<times> string) list \<Rightarrow> string set" where
  "row_keys M rows = {key. \<exists>row \<in> set rows. to_wide M (fst row) = Some key}"

lemma load_row_keys:
  assumes "load_channel_row M row (w, d) = Some (w', d')"
  shows "dom (map_of (customChannels w')) = dom (map_of (customChannels w)) \<union> set_option (to_wide M (fst row))"
  using assms
  by (auto simp: load_channel_row_def new_custom_def CreateCustomChannelGuid_def Channel_custom_def dom_def split: prod.splits option.splits if_splits)

lemma load_rows_keys:
  "load_channel_rows M rows (w, d) = Some (w', d') \<Longrightarrow>
   dom (map_of (customChannels w')) = dom (map_of (customChannels w)) \<union> row_keys M rows"
proof (induction rows arbitrary: w d)
  case (Cons row rows)
  obtain w1 d1 where r: "load_channel_row M row (w, d) = Some (w1, d1)" "load_channel_rows M rows (w1, d1) = Some (w', d')"
    using Cons.prems by (auto simp: bind_eq_Some_conv)
  have "row_keys M (row # rows) = set_option (to_wide M (fst row)) \<union> row_keys M rows"
    by (auto simp: row_keys_def)
  then show ?case using Cons.IH [OF r(2)] load_row_keys [OF r(1)] by auto
qed (simp add: row_keys_def)

text \<open>
  C38: A custom channel of the database whose name has an upper-case letter cannot be joined after a restart:
  \<^verbatim>\<open>LoadFromDB\<close> stores it under its name as it is, every search uses the name in lower case. Joining it
  creates a second channel.
\<close>

theorem uppercase_channel_unreachable:
  assumes "preserveCustom M" "ChannelMgr_LoadFromDB M rows ChannelMgr_new = Some w"
    and "row \<in> set rows" "to_wide M (fst row) = Some key" "to_lower M key \<notin> row_keys M rows"
  shows "map_of (customChannels w) key \<noteq> None \<and> GetCustomChannel M (fst row) w = None \<and>
    (\<exists>g w'. CreateCustomChannel M (fst row) w = Some (Some g, w'))"
proof -
  let ?w = "if preserveDays M \<noteq> 0 then ChannelMgr_new\<lparr>chat_saved := chat_saved ChannelMgr_new @
      [DEL_OLD_CHANNELS (preserveDays M * 86400)]\<rparr> else ChannelMgr_new"
  obtain w1 d where l: "load_channel_rows M rows (?w, []) = Some (w1, d)" "customChannels w = customChannels w1"
    using assms(1,2) unfolding ChannelMgr_LoadFromDB_def Let_def by (auto split: if_splits)
  have "customChannels ?w = []" by (simp add: ChannelMgr_new_def)
  then have k: "dom (map_of (customChannels w)) = row_keys M rows" using load_rows_keys [OF l(1)] l(2) by simp
  have "key \<in> row_keys M rows" using assms(3,4) by (auto simp: row_keys_def)
  then have a: "map_of (customChannels w) key \<noteq> None" using k by blast
  have b: "map_of (customChannels w) (to_lower M key) = None" using k assms(5) by blast
  show ?thesis
    using a b assms(4)
    by (simp add: GetCustomChannel_def CreateCustomChannel_def lower_name_def new_custom_def CreateCustomChannelGuid_def Channel_custom_def)
qed

lemma uppercase_channel_unreachable_witness:
  "map_of (customChannels demo_start) ''X'' \<noteq> None \<and> GetCustomChannel demo_mgr ''X'' demo_start = None"
proof -
  have "preserveCustom demo_mgr" "to_wide demo_mgr (fst (''X'', True, True, [], [])) = Some ''X''"
    "to_lower demo_mgr ''X'' \<notin> row_keys demo_mgr [(''X'', True, True, [], [])]"
    by (simp_all add: demo_mgr_def row_keys_def)
  then show ?thesis using uppercase_channel_unreachable [OF _ demo_start] by auto
qed

end
