(* ===== verification/MPSCQueue.thy ===== *)
theory MPSCQueue imports Prelude begin

text \<open>
  The lock-free queue of many producers and one consumer, \<^verbatim>\<open>src/src/common/Threading/MPSCQueue.h\<close>, in both
  forms: the one that allocates its nodes and the one that links the queued objects themselves. Every access to
  shared memory is one step, and the steps of the threads interleave; memory is sequentially consistent. An access
  to a node that is not allocated has no result (\<open>None\<close>). A deleted address may be allocated again.
\<close>

type_synonym node_id = nat

section \<open>The queue that allocates its nodes\<close>

record 'a mpsc_node =
  Data :: "'a option" \<comment> \<open>\<open>None\<close>: not initialised\<close>
  Next :: "node_id option"

text \<open>Where a thread stands in \<^verbatim>\<open>Enqueue\<close>, and the consumer in \<^verbatim>\<open>Dequeue\<close>; the arguments are the local variables.\<close>

datatype 'a producer = Not_enqueuing | At_exchange node_id 'a | At_link node_id node_id

datatype 'a consumer =
  Not_dequeuing | At_next node_id | At_data node_id node_id | At_tail node_id node_id 'a | At_delete node_id 'a

text \<open>\<open>enqueued\<close> lists the values in the order of the exchanges of the head, \<open>dequeued\<close> those that were returned.\<close>

record 'a mpsc_queue =
  mq_nodes :: "node_id \<Rightarrow> 'a mpsc_node option"
  mq_head :: node_id
  mq_tail :: node_id
  producers :: "nat \<Rightarrow> 'a producer"
  consumer :: "'a consumer"
  enqueued :: "'a list"
  dequeued :: "'a list"

definition MPSCQueue_new :: "node_id \<Rightarrow> 'a mpsc_queue" where
  "MPSCQueue_new a = \<lparr>mq_nodes = [a \<mapsto> \<lparr>Data = None, Next = None\<rparr>], mq_head = a, mq_tail = a,
     producers = (\<lambda>_. Not_enqueuing), consumer = Not_dequeuing, enqueued = [], dequeued = []\<rparr>"

definition set_producer :: "nat \<Rightarrow> 'a producer \<Rightarrow> 'a mpsc_queue \<Rightarrow> 'a mpsc_queue" where
  "set_producer t p s = s\<lparr>producers := (producers s)(t := p)\<rparr>"

text \<open>The next step of \<^verbatim>\<open>Enqueue\<close> of thread \<open>t\<close>; a new call is for the value \<open>x\<close> and gets its node at \<open>a\<close>.\<close>

definition Enqueue_step :: "nat \<Rightarrow> 'a \<Rightarrow> node_id \<Rightarrow> 'a mpsc_queue \<Rightarrow> 'a mpsc_queue option" where
  "Enqueue_step t x a s =
     (case producers s t of
        Not_enqueuing \<Rightarrow>
          Some (set_producer t (At_exchange a x) (s\<lparr>mq_nodes := (mq_nodes s)(a \<mapsto> \<lparr>Data = Some x, Next = None\<rparr>)\<rparr>))
      | At_exchange node y \<Rightarrow>
          Some (set_producer t (At_link (mq_head s) node) (s\<lparr>mq_head := node, enqueued := enqueued s @ [y]\<rparr>))
      | At_link prevHead node \<Rightarrow>
          (case mq_nodes s prevHead of
             None \<Rightarrow> None
           | Some n \<Rightarrow>
               Some (set_producer t Not_enqueuing (s\<lparr>mq_nodes := (mq_nodes s)(prevHead \<mapsto> n\<lparr>Next := Some node\<rparr>)\<rparr>))))"

definition Dequeue_step :: "'a mpsc_queue \<Rightarrow> 'a mpsc_queue option" where
  "Dequeue_step s =
     (case consumer s of
        Not_dequeuing \<Rightarrow> Some (s\<lparr>consumer := At_next (mq_tail s)\<rparr>)
      | At_next tail \<Rightarrow>
          (case mq_nodes s tail of
             None \<Rightarrow> None
           | Some n \<Rightarrow>
               Some (s\<lparr>consumer := (case Next n of None \<Rightarrow> Not_dequeuing | Some next \<Rightarrow> At_data tail next)\<rparr>))
      | At_data tail next \<Rightarrow>
          (case mq_nodes s next of
             None \<Rightarrow> None
           | Some n \<Rightarrow> (case Data n of None \<Rightarrow> None | Some x \<Rightarrow> Some (s\<lparr>consumer := At_tail tail next x\<rparr>)))
      | At_tail tail next x \<Rightarrow> Some (s\<lparr>mq_tail := next, consumer := At_delete tail x\<rparr>)
      | At_delete tail x \<Rightarrow>
          (case mq_nodes s tail of
             None \<Rightarrow> None
           | Some n \<Rightarrow>
               Some (s\<lparr>mq_nodes := (mq_nodes s)(tail := None), consumer := Not_dequeuing, dequeued := dequeued s @ [x]\<rparr>)))"

inductive mpsc_step :: "'a mpsc_queue \<Rightarrow> 'a mpsc_queue \<Rightarrow> bool" where
  enqueue: "(producers s t = Not_enqueuing \<Longrightarrow> mq_nodes s a = None) \<Longrightarrow> Enqueue_step t x a s = Some s' \<Longrightarrow> mpsc_step s s'"
| dequeue: "Dequeue_step s = Some s' \<Longrightarrow> mpsc_step s s'"

inductive mpsc_reachable :: "'a mpsc_queue \<Rightarrow> bool" where
  new: "mpsc_reachable (MPSCQueue_new a)"
| stepped: "mpsc_reachable s \<Longrightarrow> mpsc_step s s' \<Longrightarrow> mpsc_reachable s'"

text \<open>A whole call of \<^verbatim>\<open>Dequeue\<close> that nobody interrupts: five steps, or two when there is nothing to return.\<close>

definition Dequeue :: "'a mpsc_queue \<Rightarrow> ('a option \<times> 'a mpsc_queue) option" where
  "Dequeue s =
     Option.bind (Dequeue_step s) (\<lambda>s. Option.bind (Dequeue_step s) (\<lambda>s.
       if consumer s = Not_dequeuing then Some (None, s)
       else Option.bind (Dequeue_step s) (\<lambda>s. Option.bind (Dequeue_step s) (\<lambda>s.
              case consumer s of At_delete _ x \<Rightarrow> map_option (Pair (Some x)) (Dequeue_step s) | _ \<Rightarrow> None))))"

text \<open>The destructor: the values it deletes and the queue after it.\<close>

partial_function (option) delete_values :: "'a mpsc_queue \<Rightarrow> ('a list \<times> 'a mpsc_queue) option" where
  "delete_values s =
     Option.bind (Dequeue s) (\<lambda>(r, s).
       case r of None \<Rightarrow> Some ([], s) | Some output \<Rightarrow> Option.bind (delete_values s) (\<lambda>(xs, s). Some (output # xs, s)))"

definition MPSCQueue_destroy :: "'a mpsc_queue \<Rightarrow> ('a list \<times> 'a mpsc_queue) option" where
  "MPSCQueue_destroy s =
     Option.bind (delete_values s) (\<lambda>(xs, s).
       case mq_nodes s (mq_head s) of
         None \<Rightarrow> None
       | Some _ \<Rightarrow> Some (xs, s\<lparr>mq_nodes := (mq_nodes s)(mq_head s := None)\<rparr>))"

section \<open>The queue that links the objects\<close>

datatype link_producer = Not_linking | At_null node_id | At_swap node_id | At_store node_id node_id

datatype link_consumer =
  Not_taking | At_first node_id | At_skip node_id | At_second node_id | At_advance node_id node_id
| At_head node_id | At_enqueue node_id | At_third node_id

text \<open>
  \<open>lq_link\<close> is the member that links an object, \<open>None\<close> where no object lives; \<open>outside\<close> holds the objects that
  are not in the queue and that the threads own.
\<close>

record link_queue =
  lq_link :: "node_id \<Rightarrow> node_id option option"
  dummy :: node_id
  lq_head :: node_id
  lq_tail :: node_id
  linkers :: "nat \<Rightarrow> link_producer"
  taker :: link_consumer
  outside :: "node_id set"
  put_in :: "node_id list"
  taken :: "node_id list"

definition LinkQueue_new :: "node_id \<Rightarrow> link_queue" where
  "LinkQueue_new d = \<lparr>lq_link = [d \<mapsto> None], dummy = d, lq_head = d, lq_tail = d, linkers = (\<lambda>_. Not_linking),
     taker = Not_taking, outside = {}, put_in = [], taken = []\<rparr>"

definition set_linker :: "nat \<Rightarrow> link_producer \<Rightarrow> link_queue \<Rightarrow> link_queue" where
  "set_linker t p s = s\<lparr>linkers := (linkers s)(t := p)\<rparr>"

definition store_link :: "node_id \<Rightarrow> node_id option \<Rightarrow> link_queue \<Rightarrow> link_queue option" where
  "store_link a n s = (if lq_link s a = None then None else Some (s\<lparr>lq_link := (lq_link s)(a \<mapsto> n)\<rparr>))"

text \<open>One step of \<^verbatim>\<open>Enqueue(a)\<close> of thread \<open>t\<close>. The consumer enqueues the dummy as thread 0.\<close>

definition link_Enqueue_step :: "nat \<Rightarrow> node_id \<Rightarrow> link_queue \<Rightarrow> link_queue option" where
  "link_Enqueue_step t a s =
     (case linkers s t of
        Not_linking \<Rightarrow> Some (set_linker t (At_null a) (s\<lparr>outside := outside s - {a}\<rparr>))
      | At_null input \<Rightarrow> map_option (set_linker t (At_swap input)) (store_link input None s)
      | At_swap input \<Rightarrow>
          Some (set_linker t (At_store (lq_head s) input)
            (s\<lparr>lq_head := input, put_in := (if input = dummy s then put_in s else put_in s @ [input])\<rparr>))
      | At_store prevHead input \<Rightarrow> map_option (set_linker t Not_linking) (store_link prevHead (Some input) s))"

text \<open>After a load of the link of \<open>tail\<close>, which is not the dummy.\<close>

definition advance_or :: "node_id \<Rightarrow> node_id option \<Rightarrow> link_consumer \<Rightarrow> link_queue \<Rightarrow> link_queue" where
  "advance_or tail next other s =
     s\<lparr>taker := (case next of Some n \<Rightarrow> At_advance tail n | None \<Rightarrow> other)\<rparr>"

definition link_Dequeue_step :: "link_queue \<Rightarrow> link_queue option" where
  "link_Dequeue_step s =
     (case taker s of
        Not_taking \<Rightarrow> Some (s\<lparr>taker := At_first (lq_tail s)\<rparr>)
      | At_first tail \<Rightarrow>
          map_option (\<lambda>next.
            if tail = dummy s
            then s\<lparr>taker := (case next of None \<Rightarrow> Not_taking | Some n \<Rightarrow> At_skip n)\<rparr>
            else advance_or tail next (At_head tail) s) (lq_link s tail)
      | At_skip next \<Rightarrow> Some (s\<lparr>lq_tail := next, taker := At_second next\<rparr>)
      | At_second tail \<Rightarrow> map_option (\<lambda>next. advance_or tail next (At_head tail) s) (lq_link s tail)
      | At_advance tail next \<Rightarrow>
          Some (s\<lparr>lq_tail := next, taker := Not_taking, outside := insert tail (outside s), taken := taken s @ [tail]\<rparr>)
      | At_head tail \<Rightarrow> Some (s\<lparr>taker := (if tail \<noteq> lq_head s then Not_taking else At_enqueue tail)\<rparr>)
      | At_enqueue tail \<Rightarrow> map_option (\<lambda>s. s\<lparr>taker := At_third tail\<rparr>) (link_Enqueue_step 0 (dummy s) s)
      | At_third tail \<Rightarrow>
          if linkers s 0 \<noteq> Not_linking then link_Enqueue_step 0 (dummy s) s
          else map_option (\<lambda>next. advance_or tail next Not_taking s) (lq_link s tail))"

text \<open>The threads: they create objects, enqueue and delete those outside the queue; thread 0 consumes.\<close>

inductive link_step :: "link_queue \<Rightarrow> link_queue \<Rightarrow> bool" where
  create: "lq_link s a = None \<Longrightarrow> link_step s (s\<lparr>lq_link := (lq_link s)(a \<mapsto> n), outside := insert a (outside s)\<rparr>)"
| delete: "a \<in> outside s \<Longrightarrow> link_step s (s\<lparr>lq_link := (lq_link s)(a := None), outside := outside s - {a}\<rparr>)"
| enqueue: "t \<noteq> 0 \<Longrightarrow> (linkers s t = Not_linking \<Longrightarrow> a \<in> outside s) \<Longrightarrow> link_Enqueue_step t a s = Some s' \<Longrightarrow> link_step s s'"
| dequeue: "link_Dequeue_step s = Some s' \<Longrightarrow> link_step s s'"

inductive link_reachable :: "link_queue \<Rightarrow> bool" where
  new: "link_reachable (LinkQueue_new d)"
| stepped: "link_reachable s \<Longrightarrow> link_step s s' \<Longrightarrow> link_reachable s'"

text \<open>The consumer alone, for at most \<open>n\<close> steps of its call.\<close>

fun link_Dequeue_run :: "nat \<Rightarrow> link_queue \<Rightarrow> link_queue option" where
  "link_Dequeue_run 0 s = Some s"
| "link_Dequeue_run (Suc n) s =
     (if taker s = Not_taking then Some s else Option.bind (link_Dequeue_step s) (link_Dequeue_run n))"

definition link_Dequeue :: "link_queue \<Rightarrow> (node_id option \<times> link_queue) option" where
  "link_Dequeue s =
     Option.bind (link_Dequeue_step s) (\<lambda>s1. Option.bind (link_Dequeue_run 10 s1) (\<lambda>s'.
       if taker s' \<noteq> Not_taking then None
       else Some (if length (taken s') > length (taken s) then Some (last (taken s')) else None, s')))"

end
