(* ===== verification/MPSCQueue_Chain.thy ===== *)
theory MPSCQueue_Chain imports MPSCQueue begin

text \<open>
  The chain of nodes from the tail to the head, of either form of the queue: each node links the next one, or a
  thread has yet to store this link. The invariant of the queue that allocates its nodes.
\<close>

section \<open>Chains with pending links\<close>

fun linked :: "(node_id \<Rightarrow> node_id option) \<Rightarrow> (node_id \<times> node_id) set \<Rightarrow> node_id list \<Rightarrow> bool" where
  "linked nx P [] = False"
| "linked nx P [a] = (nx a = None \<and> (\<forall>b. (a, b) \<notin> P))"
| "linked nx P (a # b # ns) =
     ((nx a = Some b \<and> (\<forall>c. (a, c) \<notin> P) \<or> nx a = None \<and> (\<forall>c. (a, c) \<in> P \<longleftrightarrow> c = b)) \<and> linked nx P (b # ns))"

lemma linked_not_Nil: "linked nx P ns \<Longrightarrow> ns \<noteq> []"
  by (cases ns) auto

lemma linked_cong:
  assumes "\<And>a. a \<in> set ns \<Longrightarrow> nx a = nx' a" "\<And>a c. a \<in> set ns \<Longrightarrow> (a, c) \<in> P \<longleftrightarrow> (a, c) \<in> P'"
  shows "linked nx P ns = linked nx' P' ns"
  using assms by (induction nx P ns rule: linked.induct) auto

lemma linked_tl: "linked nx P (a # b # ns) \<Longrightarrow> linked nx P (b # ns)"
  by simp

text \<open>The exchange of the head puts \<open>a\<close> at the end, linked later.\<close>

lemma linked_snoc:
  assumes "linked nx P ns" "a \<notin> set ns" "nx a = None" "\<And>c. (a, c) \<notin> P" "distinct ns"
  shows "linked nx (insert (last ns, a) P) (ns @ [a])"
  using assms
proof (induction nx P ns rule: linked.induct)
  case (3 nx P x y ns)
  have "linked nx (insert (last (y # ns), a) P) ((y # ns) @ [a])" by (rule "3.IH") (use "3.prems" in auto)
  moreover have "x \<noteq> last (y # ns)" using "3.prems"(5) by (metis distinct.simps(2) last_in_set list.discI)
  ultimately show ?case using "3.prems"(1) by auto
qed auto

text \<open>The store of the pending link of \<open>p\<close>.\<close>

lemma linked_pending:
  assumes "linked nx P ns" "(p, a) \<in> P" "p \<in> set ns"
  shows "nx p = None \<and> a \<in> set ns \<and> (\<forall>c. (p, c) \<in> P \<longrightarrow> c = a)"
  using assms
proof (induction nx P ns rule: linked.induct)
  case (3 nx P x y ns)
  show ?case
  proof (cases "x = p")
    case True
    then have "nx p = None" "\<forall>c. (p, c) \<in> P \<longleftrightarrow> c = y" using "3.prems"(1,2) by auto
    then show ?thesis using "3.prems"(2) by simp
  next
    case False
    then have "nx p = None \<and> a \<in> set (y # ns) \<and> (\<forall>c. (p, c) \<in> P \<longrightarrow> c = a)"
      by (intro "3.IH") (use "3.prems" in simp_all)
    then show ?thesis by simp
  qed
qed simp_all

lemma linked_store:
  assumes "linked nx P ns" "(p, a) \<in> P" "p \<in> set ns" "distinct ns"
  shows "linked (nx(p := Some a)) (P - {(p, a)}) ns"
  using assms
proof (induction nx P ns rule: linked.induct)
  case (3 nx P x y ns)
  show ?case
  proof (cases "x = p")
    case True
    have "linked (nx(p := Some a)) (P - {(p, a)}) (y # ns) = linked nx P (y # ns)"
      by (rule linked_cong) (use "3.prems"(4) True in auto)
    moreover have c: "\<forall>c. (p, c) \<in> P \<longleftrightarrow> c = y" using True "3.prems"(1,2) by auto
    moreover have "a = y" using c "3.prems"(2) by blast
    ultimately show ?thesis using "3.prems"(1) unfolding True by (simp del: fun_upd_apply add: fun_upd_same)
  next
    case False
    have "linked (nx(p := Some a)) (P - {(p, a)}) (y # ns)" by (rule "3.IH") (use "3.prems" False in simp_all)
    moreover have "(nx(p := Some a)) x = nx x" "\<And>c. (x, c) \<in> P - {(p, a)} \<longleftrightarrow> (x, c) \<in> P" using False by simp_all
    ultimately show ?thesis using "3.prems"(1) unfolding linked.simps by simp
  qed
qed simp_all

lemma linked_next:
  assumes "linked nx P ns" "nx (hd ns) = Some n"
  obtains ms where "ns = hd ns # n # ms" "linked nx P (n # ms)" "\<And>c. (hd ns, c) \<notin> P"
proof (cases ns rule: remdups_adj.cases)
  case (3 x y ms)
  then show ?thesis using assms that [of ms] by auto
qed (use assms in auto)

lemma linked_end:
  assumes "linked nx P ns" "nx (hd ns) = None" "\<And>c. (hd ns, c) \<notin> P"
  shows "ns = [hd ns]"
  using assms by (cases "(nx, P, ns)" rule: linked.cases) auto

section \<open>The invariant\<close>

definition next_of :: "'a mpsc_queue \<Rightarrow> node_id \<Rightarrow> node_id option" where
  "next_of s a = Option.bind (mq_nodes s a) Next"

definition data_of :: "'a mpsc_queue \<Rightarrow> node_id \<Rightarrow> 'a option" where
  "data_of s a = Option.bind (mq_nodes s a) Data"

definition pending :: "'a mpsc_queue \<Rightarrow> (node_id \<times> node_id) set" where
  "pending s = {(p, a). \<exists>t. producers s t = At_link p a}"

text \<open>The node a thread is about to insert or to link.\<close>

fun node_at :: "'a producer \<Rightarrow> node_id option" where
  "node_at Not_enqueuing = None"
| "node_at (At_exchange a x) = Some a"
| "node_at (At_link p a) = Some a"

definition fresh_nodes :: "'a mpsc_queue \<Rightarrow> node_id set" where
  "fresh_nodes s = {a. \<exists>t x. producers s t = At_exchange a x}"

fun held :: "'a consumer \<Rightarrow> 'a list" where
  "held (At_delete t x) = [x]"
| "held _ = []"

fun removed_node :: "'a consumer \<Rightarrow> node_id set" where
  "removed_node (At_delete t x) = {t}"
| "removed_node _ = {}"

fun consumer_ok :: "'a mpsc_queue \<Rightarrow> 'a consumer \<Rightarrow> bool" where
  "consumer_ok s Not_dequeuing = True"
| "consumer_ok s (At_next t) = (t = mq_tail s)"
| "consumer_ok s (At_data t n) = (t = mq_tail s \<and> next_of s t = Some n)"
| "consumer_ok s (At_tail t n x) = (t = mq_tail s \<and> next_of s t = Some n \<and> data_of s n = Some x)"
| "consumer_ok s (At_delete t x) = True"

definition producers_ok :: "'a mpsc_queue \<Rightarrow> node_id list \<Rightarrow> bool" where
  "producers_ok s ns \<longleftrightarrow>
     (\<forall>t a x. producers s t = At_exchange a x \<longrightarrow> mq_nodes s a = Some \<lparr>Data = Some x, Next = None\<rparr> \<and> a \<notin> set ns) \<and>
     (\<forall>t p a. producers s t = At_link p a \<longrightarrow> p \<in> set ns) \<and>
     (\<forall>t t' a. node_at (producers s t) = Some a \<longrightarrow> node_at (producers s t') = Some a \<longrightarrow> t = t')"

lemma producers_okD:
  assumes "producers_ok s ns"
  shows "producers s t = At_exchange a x \<Longrightarrow> mq_nodes s a = Some \<lparr>Data = Some x, Next = None\<rparr> \<and> a \<notin> set ns"
    "producers s t = At_link p a \<Longrightarrow> p \<in> set ns"
    "(p, a) \<in> pending s \<Longrightarrow> p \<in> set ns"
    "node_at (producers s t) = Some a \<Longrightarrow> node_at (producers s t') = Some a \<Longrightarrow> t = t'"
proof -
  show l: "producers s t = At_link p a \<Longrightarrow> p \<in> set ns" for t p a using assms unfolding producers_ok_def by blast
  show "(p, a) \<in> pending s \<Longrightarrow> p \<in> set ns" using l by (auto simp: pending_def)
qed (use assms in \<open>unfold producers_ok_def, blast+\<close>)

lemma producers_ok_keep:
  assumes "producers_ok s ns" "\<And>v. producers s' v = producers s v \<or> producers s' v = Not_enqueuing"
    "\<And>v b y. producers s v = At_exchange b y \<Longrightarrow> mq_nodes s' b = mq_nodes s b"
    "\<And>v q b. producers s' v = At_link q b \<Longrightarrow> q \<in> set ms" "set ms \<subseteq> set ns"
  shows "producers_ok s' ms"
  unfolding producers_ok_def
proof (intro conjI allI impI)
  fix v b y
  assume "producers s' v = At_exchange b y"
  then have "producers s v = At_exchange b y" using assms(2) [of v] by auto
  then show "mq_nodes s' b = Some \<lparr>Data = Some y, Next = None\<rparr>" "b \<notin> set ms"
    using producers_okD(1) [OF assms(1), of v b y] assms(3,5) by auto
next
  fix v v' b
  assume "node_at (producers s' v) = Some b" "node_at (producers s' v') = Some b"
  then show "v = v'"
    using producers_okD(4) [OF assms(1), of v b v'] assms(2) [of v] assms(2) [of v'] by auto
qed (rule assms(4))

definition mpsc_chain :: "'a mpsc_queue \<Rightarrow> node_id list \<Rightarrow> bool" where
  "mpsc_chain s ns \<longleftrightarrow>
     linked (next_of s) (pending s) ns \<and> distinct ns \<and> hd ns = mq_tail s \<and> last ns = mq_head s \<and>
     dom (mq_nodes s) = set ns \<union> fresh_nodes s \<union> removed_node (consumer s) \<and>
     removed_node (consumer s) \<inter> (set ns \<union> fresh_nodes s) = {} \<and>
     consumer_ok s (consumer s) \<and> producers_ok s ns \<and>
     map Some (enqueued s) = map Some (dequeued s @ held (consumer s)) @ map (data_of s) (tl ns)"

lemma mpsc_chainD:
  assumes "mpsc_chain s ns"
  shows "linked (next_of s) (pending s) ns" "distinct ns" "hd ns = mq_tail s" "last ns = mq_head s"
    "dom (mq_nodes s) = set ns \<union> fresh_nodes s \<union> removed_node (consumer s)"
    "removed_node (consumer s) \<inter> (set ns \<union> fresh_nodes s) = {}"
    "consumer_ok s (consumer s)" "producers_ok s ns"
    "map Some (enqueued s) = map Some (dequeued s @ held (consumer s)) @ map (data_of s) (tl ns)" "ns \<noteq> []"
  using assms linked_not_Nil unfolding mpsc_chain_def by blast+

lemma mpsc_chain_new: "mpsc_chain (MPSCQueue_new a) [a]"
  by (auto simp: mpsc_chain_def MPSCQueue_new_def next_of_def pending_def fresh_nodes_def producers_ok_def split: if_splits)

section \<open>Every step keeps the invariant\<close>

lemma set_producer_fields [simp]:
  "mq_nodes (set_producer t p s) = mq_nodes s" "mq_head (set_producer t p s) = mq_head s"
  "mq_tail (set_producer t p s) = mq_tail s" "producers (set_producer t p s) = (producers s)(t := p)"
  "consumer (set_producer t p s) = consumer s" "enqueued (set_producer t p s) = enqueued s"
  "dequeued (set_producer t p s) = dequeued s"
  by (simp_all add: set_producer_def)

lemma fresh_set_producer:
  "b \<in> fresh_nodes (set_producer t p s) \<longleftrightarrow> (\<exists>x. p = At_exchange b x) \<or> (\<exists>u x. u \<noteq> t \<and> producers s u = At_exchange b x)"
  unfolding fresh_nodes_def by (simp, metis)

lemma fresh_other:
  assumes "\<And>b x. producers s t \<noteq> At_exchange b x"
  shows "(\<exists>u x. u \<noteq> t \<and> producers s u = At_exchange b x) \<longleftrightarrow> b \<in> fresh_nodes s"
  unfolding fresh_nodes_def using assms by (simp, metis)

lemma consumer_ok_cong:
  assumes "mq_tail s' = mq_tail s" "next_of s' (mq_tail s) = next_of s (mq_tail s)"
    "\<And>n. data_of s n \<noteq> None \<Longrightarrow> data_of s' n = data_of s n"
  shows "consumer_ok s c \<Longrightarrow> consumer_ok s' c"
  using assms by (cases c) auto

lemma mpsc_new_node:
  assumes "mpsc_chain s ns" "producers s t = Not_enqueuing" "mq_nodes s a = None"
  shows "mpsc_chain (set_producer t (At_exchange a x) (s\<lparr>mq_nodes := (mq_nodes s)(a \<mapsto> \<lparr>Data = Some x, Next = None\<rparr>)\<rparr>)) ns"
    (is "mpsc_chain ?s ns")
proof -
  note c = mpsc_chainD [OF assms(1)]
  have a: "a \<notin> set ns" "a \<notin> fresh_nodes s" "a \<notin> removed_node (consumer s)" using c(5) assms(3) by blast+
  have t: "mq_tail s \<in> set ns" using c(3,10) hd_in_set by metis
  have n: "next_of ?s k = next_of s k" "data_of ?s k = data_of s k" if "k \<noteq> a" for k
    using that by (simp_all add: next_of_def data_of_def)
  have p: "pending ?s = pending s" using assms(2) by (force simp: pending_def)
  have f: "fresh_nodes ?s = insert a (fresh_nodes s)"
  proof (intro set_eqI)
    fix b
    show "b \<in> fresh_nodes ?s \<longleftrightarrow> b \<in> insert a (fresh_nodes s)"
      using fresh_other [of s t b] assms(2) by (auto simp: fresh_set_producer)
  qed
  have l: "linked (next_of ?s) (pending ?s) ns"
    using c(1) linked_cong [of ns "next_of ?s" "next_of s" "pending s" "pending s"] n(1) a(1) p by metis
  have o: "node_at (producers s u) \<noteq> Some a" for u
  proof
    assume u: "node_at (producers s u) = Some a"
    then consider "\<exists>y. producers s u = At_exchange a y" | p where "producers s u = At_link p a"
      by (cases "producers s u") auto
    then show False
    proof cases
      case 1
      then show False using a(2) by (auto simp: fresh_nodes_def)
    next
      case (2 q)
      then have "q \<in> set ns" "(q, a) \<in> pending s" using producers_okD(2) [OF c(8)] by (auto simp: pending_def)
      then show False using linked_pending [OF c(1)] a(1) by blast
    qed
  qed
  have "producers_ok ?s ns"
    using c(8) a assms(2,3) o unfolding producers_ok_def by (auto split: if_splits)
  moreover have "consumer_ok ?s (consumer ?s)"
  proof -
    have "data_of ?s k = data_of s k" if "data_of s k \<noteq> None" for k
      using that assms(3) by (auto simp: data_of_def)
    moreover have "next_of ?s (mq_tail s) = next_of s (mq_tail s)" using n(1) t a(1) by metis
    ultimately show ?thesis using consumer_ok_cong [of ?s s, OF _ _ _ c(7)] by simp
  qed
  moreover have "map (data_of ?s) (tl ns) = map (data_of s) (tl ns)"
    using n(2) a(1) list.set_sel(2) [OF c(10)] by (metis (mono_tags, lifting) map_eq_conv)
  ultimately show ?thesis
    unfolding mpsc_chain_def using c l f a by auto
qed

lemma mpsc_exchange:
  assumes "mpsc_chain s ns" "producers s t = At_exchange a x"
  shows "mpsc_chain (set_producer t (At_link (mq_head s) a) (s\<lparr>mq_head := a, enqueued := enqueued s @ [x]\<rparr>)) (ns @ [a])"
    (is "mpsc_chain ?s _")
proof -
  note c = mpsc_chainD [OF assms(1)]
  have a: "mq_nodes s a = Some \<lparr>Data = Some x, Next = None\<rparr>" "a \<notin> set ns"
    using c(8) assms(2) by (auto simp: producers_ok_def)
  have u: "\<And>u b. node_at (producers s u) = Some b \<Longrightarrow> b = a \<Longrightarrow> u = t"
    using c(8) assms(2) by (auto simp: producers_ok_def)
  have n: "next_of ?s = next_of s" "data_of ?s = data_of s" by (simp_all add: next_of_def data_of_def fun_eq_iff)
  have p: "pending ?s = insert (last ns, a) (pending s)" 
    using assms(2) c(4) by (force simp: pending_def)
  have f: "fresh_nodes ?s = fresh_nodes s - {a}"
  proof -
    have "b \<in> fresh_nodes ?s \<longleftrightarrow> b \<in> fresh_nodes s - {a}" for b
    proof
      assume "b \<in> fresh_nodes ?s"
      then obtain v y where "v \<noteq> t" "producers s v = At_exchange b y" by (auto simp: fresh_nodes_def split: if_splits)
      then show "b \<in> fresh_nodes s - {a}" using u [of v b] by (auto simp: fresh_nodes_def)
    next
      assume "b \<in> fresh_nodes s - {a}"
      then obtain v y where v: "b \<noteq> a" "producers s v = At_exchange b y" by (auto simp: fresh_nodes_def)
      then have "v \<noteq> t" using assms(2) by auto
      then show "b \<in> fresh_nodes ?s" using v(2) by (auto simp: fresh_set_producer)
    qed
    then show ?thesis by blast
  qed
  have g: "a \<in> fresh_nodes s" using assms(2) by (auto simp: fresh_nodes_def)
  have "linked (next_of s) (insert (last ns, a) (pending s)) (ns @ [a])"
  proof (rule linked_snoc [OF c(1) a(2) _ _ c(2)])
    show "next_of s a = None" using a(1) by (simp add: next_of_def)
    show "(a, b) \<notin> pending s" for b using producers_okD(3) [OF c(8)] a(2) by blast
  qed
  moreover have "producers_ok ?s (ns @ [a])"
    unfolding producers_ok_def
  proof (intro conjI allI impI)
    fix v b y
    assume v: "producers ?s v = At_exchange b y"
    then have "v \<noteq> t" "producers s v = At_exchange b y" by (auto split: if_splits)
    then show "mq_nodes ?s b = Some \<lparr>Data = Some y, Next = None\<rparr>" "b \<notin> set (ns @ [a])"
      using c(8) u [of v b] by (auto simp: producers_ok_def)
  next
    fix v q b
    assume "producers ?s v = At_link q b"
    then show "q \<in> set (ns @ [a])"
      using producers_okD(2) [OF c(8), of v q b] c(4,10) last_in_set [of ns] by (auto split: if_splits)
  next
    fix v v' b
    assume "node_at (producers ?s v) = Some b" "node_at (producers ?s v') = Some b"
    then show "v = v'" using c(8) u by (auto simp: producers_ok_def split: if_splits)
  qed
  moreover have "consumer_ok ?s (consumer ?s)"
    using c(7) consumer_ok_cong [of ?s s, OF _ _ _ c(7)] n by simp
  moreover have "map Some (enqueued ?s) = map Some (dequeued ?s @ held (consumer ?s)) @ map (data_of ?s) (tl (ns @ [a]))"
    using c(9,10) a(1) n by (simp add: tl_append2 data_of_def)
  ultimately show ?thesis
    unfolding mpsc_chain_def using c(2-6,10) n p f g a(2) by auto
qed

lemma mpsc_link:
  assumes "mpsc_chain s ns" "producers s t = At_link p a"
  obtains n where "mq_nodes s p = Some n"
    "mpsc_chain (set_producer t Not_enqueuing (s\<lparr>mq_nodes := (mq_nodes s)(p \<mapsto> n\<lparr>Next := Some a\<rparr>)\<rparr>)) ns"
proof -
  note c = mpsc_chainD [OF assms(1)]
  have p: "p \<in> set ns" using producers_okD(2) [OF c(8) assms(2)] .
  then obtain n where n: "mq_nodes s p = Some n" using c(5) by blast
  let ?s = "set_producer t Not_enqueuing (s\<lparr>mq_nodes := (mq_nodes s)(p \<mapsto> n\<lparr>Next := Some a\<rparr>)\<rparr>)"
  have pa: "(p, a) \<in> pending s" using assms(2) by (auto simp: pending_def)
  note l = linked_pending [OF c(1) pa p]
  have x: "next_of ?s = (next_of s)(p := Some a)" "data_of ?s = data_of s"
    using n by (simp_all add: next_of_def data_of_def fun_eq_iff)
  have u: "v = t" if "producers s v = At_link q a" for v q
    by (rule producers_okD(4) [OF c(8)]) (use that assms(2) in auto)
  have pd: "pending ?s = pending s - {(p, a)}"
  proof (intro set_eqI)
    fix e :: "node_id \<times> node_id"
    obtain q b where e: "e = (q, b)" by (cases e)
    show "e \<in> pending ?s \<longleftrightarrow> e \<in> pending s - {(p, a)}"
    proof
      assume "e \<in> pending ?s"
      then obtain v where v: "v \<noteq> t" "producers s v = At_link q b" by (auto simp: e pending_def split: if_splits)
      then show "e \<in> pending s - {(p, a)}" using u [of v q] by (auto simp: e pending_def)
    next
      assume "e \<in> pending s - {(p, a)}"
      then obtain v where v: "(q, b) \<noteq> (p, a)" "producers s v = At_link q b" by (auto simp: e pending_def)
      then have "v \<noteq> t" using assms(2) by auto
      then show "e \<in> pending ?s" using v by (auto simp: e pending_def)
    qed
  qed
  have f: "fresh_nodes ?s = fresh_nodes s"
    by (intro set_eqI) (use fresh_other [of s t] assms(2) in \<open>simp add: fresh_set_producer\<close>)
  have "linked (next_of ?s) (pending ?s) ns"
    unfolding x pd by (rule linked_store [OF c(1) pa p c(2)])
  moreover have "producers_ok ?s ns"
  proof (rule producers_ok_keep [OF c(8)])
    fix v b y
    assume "producers s v = At_exchange b y"
    then have "b \<noteq> p" using producers_okD(1) [OF c(8), of v b y] p by auto
    then show "mq_nodes ?s b = mq_nodes s b" by simp
  qed (use producers_okD(2) [OF c(8)] in \<open>auto split: if_splits\<close>)
  moreover have "consumer_ok ?s (consumer s)"
  proof (cases "consumer s")
    case (At_data t' m)
    then show ?thesis using c(7) x l by auto
  next
    case (At_tail t' m y)
    then show ?thesis using c(7) x l by auto
  qed (use c(7) in auto)
  moreover have "dom (mq_nodes ?s) = dom (mq_nodes s)" using n by auto
  ultimately have "mpsc_chain ?s ns"
    unfolding mpsc_chain_def using c(2-6,9) x f by simp
  then show ?thesis using that n by blast
qed

lemma Enqueue_step_chain:
  assumes "mpsc_chain s ns" "producers s t = Not_enqueuing \<Longrightarrow> mq_nodes s a = None"
  shows "\<exists>s' ns'. Enqueue_step t x a s = Some s' \<and> mpsc_chain s' ns'"
proof (cases "producers s t")
  case Not_enqueuing
  then show ?thesis using mpsc_new_node [OF assms(1) Not_enqueuing assms(2) [OF Not_enqueuing]] by (auto simp: Enqueue_step_def)
next
  case (At_exchange b y)
  then show ?thesis using mpsc_exchange [OF assms(1) At_exchange] by (auto simp: Enqueue_step_def)
next
  case (At_link p b)
  obtain n where "mq_nodes s p = Some n"
    "mpsc_chain (set_producer t Not_enqueuing (s\<lparr>mq_nodes := (mq_nodes s)(p \<mapsto> n\<lparr>Next := Some b\<rparr>)\<rparr>)) ns"
    by (rule mpsc_link [OF assms(1) At_link])
  then show ?thesis using At_link by (auto simp: Enqueue_step_def)
qed

section \<open>The consumer\<close>

lemma consumer_fields [simp]:
  "next_of (s\<lparr>consumer := c\<rparr>) = next_of s" "data_of (s\<lparr>consumer := c\<rparr>) = data_of s"
  "pending (s\<lparr>consumer := c\<rparr>) = pending s" "fresh_nodes (s\<lparr>consumer := c\<rparr>) = fresh_nodes s"
  "producers_ok (s\<lparr>consumer := c\<rparr>) ns = producers_ok s ns" "consumer_ok (s\<lparr>consumer := c\<rparr>) d = consumer_ok s d"
  by (simp_all add: next_of_def data_of_def pending_def fresh_nodes_def producers_ok_def fun_eq_iff) (cases d; simp add: next_of_def data_of_def)

text \<open>A load moves the consumer on.\<close>

lemma mpsc_consumer:
  assumes "mpsc_chain s ns" "consumer_ok s c" "held c = []" "removed_node c = {}"
    "held (consumer s) = []" "removed_node (consumer s) = {}"
  shows "mpsc_chain (s\<lparr>consumer := c\<rparr>) ns"
  using assms by (simp add: mpsc_chain_def)

text \<open>The node behind the tail: it is linked and holds the next value.\<close>

lemma chain_second:
  assumes "mpsc_chain s ns" "next_of s (mq_tail s) = Some n"
  obtains ms x where "ns = mq_tail s # n # ms" "linked (next_of s) (pending s) (n # ms)" "data_of s n = Some x"
    "\<And>c. (mq_tail s, c) \<notin> pending s"
proof -
  note c = mpsc_chainD [OF assms(1)]
  obtain ms where ms: "ns = mq_tail s # n # ms" "linked (next_of s) (pending s) (n # ms)" "\<And>c. (mq_tail s, c) \<notin> pending s"
    using linked_next [OF c(1), of n] assms(2) c(3) by metis
  have "map (data_of s) (tl ns) = map Some (drop (length (dequeued s @ held (consumer s))) (enqueued s))"
    using arg_cong [OF c(9), of "drop (length (dequeued s @ held (consumer s)))"] by (simp add: drop_map)
  then obtain x where "data_of s n = Some x" by (cases "drop (length (dequeued s @ held (consumer s))) (enqueued s)") (auto simp: ms(1))
  then show ?thesis using that ms by blast
qed

lemma mpsc_store_tail:
  assumes "mpsc_chain s ns" "consumer s = At_tail t n x"
  shows "mpsc_chain (s\<lparr>mq_tail := n, consumer := At_delete t x\<rparr>) (tl ns)" (is "mpsc_chain ?s _")
proof -
  note c = mpsc_chainD [OF assms(1)]
  have t: "t = mq_tail s" "next_of s t = Some n" "data_of s n = Some x" using c(7) assms(2) by auto
  obtain ms y where ms: "ns = mq_tail s # n # ms" "linked (next_of s) (pending s) (n # ms)" "\<And>c. (mq_tail s, c) \<notin> pending s"
    using chain_second [OF assms(1), of n] t by metis
  have x: "next_of ?s = next_of s" "data_of ?s = data_of s" "pending ?s = pending s" "fresh_nodes ?s = fresh_nodes s"
    by (simp_all add: next_of_def data_of_def pending_def fresh_nodes_def fun_eq_iff)
  have "t \<notin> fresh_nodes s" using producers_okD(1) [OF c(8)] ms(1) t(1) by (auto simp: fresh_nodes_def)
  moreover have "producers_ok ?s (n # ms)"
  proof (rule producers_ok_keep [OF c(8)])
    fix v q b
    assume "producers ?s v = At_link q b"
    then have "q \<in> set ns" "(q, b) \<in> pending s" using producers_okD(2) [OF c(8), of v q b] by (auto simp: pending_def)
    then show "q \<in> set (n # ms)" using ms(1,3) by auto
  qed (auto simp: ms(1))
  ultimately show ?thesis
    unfolding mpsc_chain_def using c(2,4,5,9) ms(1,2) x t assms(2) by auto
qed

lemma mpsc_delete:
  assumes "mpsc_chain s ns" "consumer s = At_delete t x"
  obtains n where "mq_nodes s t = Some n"
    "mpsc_chain (s\<lparr>mq_nodes := (mq_nodes s)(t := None), consumer := Not_dequeuing, dequeued := dequeued s @ [x]\<rparr>) ns"
proof -
  note c = mpsc_chainD [OF assms(1)]
  have t: "t \<notin> set ns" "t \<notin> fresh_nodes s" using c(6) assms(2) by auto
  obtain n where n: "mq_nodes s t = Some n" using c(5) assms(2) by auto
  let ?s = "s\<lparr>mq_nodes := (mq_nodes s)(t := None), consumer := Not_dequeuing, dequeued := dequeued s @ [x]\<rparr>"
  have x: "next_of ?s k = next_of s k" "data_of ?s k = data_of s k" if "k \<noteq> t" for k
    using that by (simp_all add: next_of_def data_of_def)
  have p: "pending ?s = pending s" "fresh_nodes ?s = fresh_nodes s" by (simp_all add: pending_def fresh_nodes_def)
  have "linked (next_of ?s) (pending ?s) ns"
    using c(1) linked_cong [of ns "next_of ?s" "next_of s" "pending s" "pending s"] x(1) t(1) p by metis
  moreover have "map (data_of ?s) (tl ns) = map (data_of s) (tl ns)"
    using x(2) t(1) list.set_sel(2) [OF c(10)] by (metis (mono_tags, lifting) map_eq_conv)
  moreover have "producers_ok ?s ns"
  proof (rule producers_ok_keep [OF c(8)])
    fix v b y
    assume "producers s v = At_exchange b y"
    then have "b \<noteq> t" using t(2) by (auto simp: fresh_nodes_def)
    then show "mq_nodes ?s b = mq_nodes s b" by simp
  qed (use producers_okD(2) [OF c(8)] in auto)
  ultimately have "mpsc_chain ?s ns"
    unfolding mpsc_chain_def using c(2-5,9) t p assms(2) by auto
  then show ?thesis using that n by blast
qed

lemma Dequeue_step_chain:
  assumes "mpsc_chain s ns"
  shows "\<exists>s' ns'. Dequeue_step s = Some s' \<and> mpsc_chain s' ns'"
proof -
  note c = mpsc_chainD [OF assms]
  have tl: "mq_tail s \<in> set ns" using c(3,10) hd_in_set by metis
  show ?thesis
  proof (cases "consumer s")
    case Not_dequeuing
    then show ?thesis using mpsc_consumer [OF assms, of "At_next (mq_tail s)"] by (auto simp: Dequeue_step_def)
  next
    case (At_next t)
    then have t: "t = mq_tail s" using c(7) by simp
    obtain n where n: "mq_nodes s t = Some n" using tl t c(5) by blast
    show ?thesis
    proof (cases "Next n")
      case None
      then show ?thesis using mpsc_consumer [OF assms, of Not_dequeuing] At_next n by (auto simp: Dequeue_step_def)
    next
      case (Some m)
      then have "next_of s t = Some m" using n by (simp add: next_of_def)
      then show ?thesis using mpsc_consumer [OF assms, of "At_data t m"] At_next n t Some by (auto simp: Dequeue_step_def)
    qed
  next
    case (At_data t m)
    then have t: "t = mq_tail s" "next_of s t = Some m" using c(7) by auto
    obtain ms x where ms: "data_of s m = Some x" using chain_second [OF assms, of m] t by metis
    then obtain n where n: "mq_nodes s m = Some n" "Data n = Some x" by (auto simp: data_of_def bind_eq_Some_conv)
    show ?thesis
      using mpsc_consumer [OF assms, of "At_tail t m x"] At_data n t ms by (auto simp: Dequeue_step_def)
  next
    case (At_tail t n x)
    then show ?thesis using mpsc_store_tail [OF assms At_tail] by (auto simp: Dequeue_step_def)
  next
    case (At_delete t x)
    obtain n where "mq_nodes s t = Some n"
      "mpsc_chain (s\<lparr>mq_nodes := (mq_nodes s)(t := None), consumer := Not_dequeuing, dequeued := dequeued s @ [x]\<rparr>) ns"
      by (rule mpsc_delete [OF assms At_delete])
    then show ?thesis using At_delete by (auto simp: Dequeue_step_def)
  qed
qed

lemma reachable_chain: "mpsc_reachable s \<Longrightarrow> \<exists>ns. mpsc_chain s ns"
proof (induction rule: mpsc_reachable.induct)
  case (stepped s s')
  then obtain ns where ns: "mpsc_chain s ns" by blast
  from stepped(2) show ?case
  proof cases
    case (enqueue t a x)
    then show ?thesis using Enqueue_step_chain [OF ns, of t a x] by auto
  next
    case dequeue
    then show ?thesis using Dequeue_step_chain [OF ns] by auto
  qed
qed (use mpsc_chain_new in blast)

end
