(* ===== verification/MPSCQueue_Props.thy ===== *)
theory MPSCQueue_Props imports MPSCQueue_Chain begin

text \<open>
  What the queue that allocates its nodes promises: whatever the interleaving, it is a first-in first-out queue,
  touches no deleted node and leaks none.
\<close>

section \<open>A first-in first-out queue\<close>

definition contents :: "'a mpsc_queue \<Rightarrow> 'a list" where
  "contents s = drop (length (dequeued s)) (enqueued s)"

lemma chain_values:
  assumes "mpsc_chain s ns"
  obtains xs where "enqueued s = dequeued s @ xs" "map Some xs = map Some (held (consumer s)) @ map (data_of s) (tl ns)"
proof -
  note c = mpsc_chainD(9) [OF assms]
  have "take (length (dequeued s)) (map Some (enqueued s)) = map Some (dequeued s)" using c by simp
  then have "map Some (take (length (dequeued s)) (enqueued s)) = map Some (dequeued s)" by (simp add: take_map)
  then have t: "take (length (dequeued s)) (enqueued s) = dequeued s" by (simp add: inj_map_eq_map)
  have "drop (length (dequeued s)) (map Some (enqueued s)) = map Some (held (consumer s)) @ map (data_of s) (tl ns)"
    using c by simp
  then show ?thesis using that [of "drop (length (dequeued s)) (enqueued s)"] t append_take_drop_id by (metis drop_map)
qed

lemma enqueued_contents: "mpsc_chain s ns \<Longrightarrow> enqueued s = dequeued s @ contents s"
  by (erule chain_values) (simp add: contents_def)

lemma Enqueue_step_contents:
  assumes "Enqueue_step t x a s = Some s'" "enqueued s = dequeued s @ contents s"
  shows "dequeued s' = dequeued s \<and> (contents s' = contents s \<or> (\<exists>y. contents s' = contents s @ [y]))"
  using assms by (auto simp: Enqueue_step_def contents_def split: producer.splits option.splits)

lemma Dequeue_step_contents:
  assumes "Dequeue_step s = Some s'" "mpsc_chain s ns"
  shows "enqueued s' = enqueued s \<and>
    (contents s' = contents s \<and> dequeued s' = dequeued s \<or> (\<exists>y. contents s = y # contents s' \<and> dequeued s' = dequeued s @ [y]))"
proof -
  obtain xs where xs: "enqueued s = dequeued s @ xs" "map Some xs = map Some (held (consumer s)) @ map (data_of s) (tl ns)"
    using chain_values [OF assms(2)] .
  show ?thesis
  proof (cases "consumer s")
    case (At_delete t y)
    then obtain ys where "xs = y # ys" using xs(2) by auto
    then show ?thesis using assms(1) xs(1) At_delete by (auto simp: Dequeue_step_def contents_def split: option.splits)
  qed (use assms(1) in \<open>auto simp: Dequeue_step_def contents_def split: option.splits\<close>)
qed

text \<open>A server thread that has enqueued two values while another one stands between its exchange and its store.\<close>

fun enqueue_steps :: "(nat \<times> 'a \<times> node_id) list \<Rightarrow> 'a mpsc_queue \<Rightarrow> 'a mpsc_queue" where
  "enqueue_steps [] s = s"
| "enqueue_steps ((t, x, a) # es) s = enqueue_steps es (the (Enqueue_step t x a s))"

definition demo_queue :: "nat mpsc_queue" where
  "demo_queue = enqueue_steps [(1, 10, 5), (2, 20, 6), (2, 20, 6), (1, 10, 5), (1, 10, 5)] (MPSCQueue_new 0)"

lemma demo_queue_reachable: "mpsc_reachable demo_queue"
proof -
  have e: "mpsc_reachable (the (Enqueue_step t x a s))"
    if r: "mpsc_reachable s" and f: "producers s t = Not_enqueuing \<Longrightarrow> mq_nodes s a = None" for t x a and s :: "nat mpsc_queue"
  proof -
    obtain ns where ns: "mpsc_chain s ns" using reachable_chain [OF r] by blast
    from Enqueue_step_chain [OF ns f, where x = x] obtain s' where s': "Enqueue_step t x a s = Some s'" by blast
    show ?thesis using mpsc_reachable.stepped [OF r mpsc_step.enqueue [OF f s']] s' by simp
  qed
  show ?thesis
    unfolding demo_queue_def enqueue_steps.simps
    by (intro e mpsc_reachable.new) (simp_all add: MPSCQueue_new_def Enqueue_step_def set_producer_def)
qed

text \<open>
  C5: Whatever the interleaving of producers and consumer, the queue is first-in first-out: what was returned, then
  its contents, are the values in the order of the exchanges of the head; every step of a producer leaves the contents or appends
  one value, every step of the consumer leaves them or returns the first value.
\<close>

theorem mpsc_refines_fifo:
  assumes "mpsc_reachable s" "mpsc_step s s'"
  shows "enqueued s = dequeued s @ contents s \<and>
    (contents s' = contents s \<and> dequeued s' = dequeued s \<or>
     (\<exists>x. contents s' = contents s @ [x] \<and> dequeued s' = dequeued s) \<or>
     (\<exists>x. contents s = x # contents s' \<and> dequeued s' = dequeued s @ [x]))"
proof -
  obtain ns where ns: "mpsc_chain s ns" using reachable_chain [OF assms(1)] by blast
  note e = enqueued_contents [OF ns]
  from assms(2) show ?thesis
  proof cases
    case (enqueue t a x)
    then show ?thesis using Enqueue_step_contents [OF _ e] e by blast
  next
    case dequeue
    then show ?thesis using Dequeue_step_contents [OF _ ns] e by blast
  qed
qed

lemma mpsc_refines_fifo_witness: "contents demo_queue = [20, 10] \<and> enqueued demo_queue = [20, 10]"
proof -
  have d: "dequeued demo_queue = []" "enqueued demo_queue = [20, 10]" 
    by (simp_all add: demo_queue_def MPSCQueue_new_def Enqueue_step_def set_producer_def)
  obtain s' where s': "Dequeue_step demo_queue = Some s'"
    using Dequeue_step_chain reachable_chain [OF demo_queue_reachable] by blast
  show ?thesis using mpsc_refines_fifo [OF demo_queue_reachable mpsc_step.dequeue [OF s']] d by simp
qed

section \<open>Memory\<close>

text \<open>
  C22: No thread ever accesses a node that was deleted, and no node is leaked: in every reachable state each step
  of a producer and of the consumer has a result, and the nodes that live are those of the chain, one more than
  there are values in it, those that producers are about to insert and the one the consumer is about to delete.
\<close>

theorem mpsc_memory_safe:
  assumes "mpsc_reachable s" "producers s t = Not_enqueuing \<Longrightarrow> mq_nodes s a = None"
  shows "Enqueue_step t x a s \<noteq> None \<and> Dequeue_step s \<noteq> None \<and>
    (\<exists>ns. distinct ns \<and> length ns + length (held (consumer s)) = Suc (length (contents s)) \<and>
       dom (mq_nodes s) = set ns \<union> fresh_nodes s \<union> removed_node (consumer s))"
proof -
  obtain ns where ns: "mpsc_chain s ns" using reachable_chain [OF assms(1)] by blast
  note c = mpsc_chainD [OF ns]
  obtain xs where xs: "enqueued s = dequeued s @ xs" "map Some xs = map Some (held (consumer s)) @ map (data_of s) (tl ns)"
    using chain_values [OF ns] .
  have "length xs = length (held (consumer s)) + length (tl ns)" using arg_cong [OF xs(2), of length] by simp
  then have "length ns + length (held (consumer s)) = Suc (length (contents s))"
    using xs(1) c(10) by (cases ns) (auto simp: contents_def)
  then have "\<exists>ns. distinct ns \<and> length ns + length (held (consumer s)) = Suc (length (contents s)) \<and>
       dom (mq_nodes s) = set ns \<union> fresh_nodes s \<union> removed_node (consumer s)"
    using c(2,5) by blast
  then show ?thesis
    using Enqueue_step_chain [OF ns assms(2)] Dequeue_step_chain [OF ns] by (metis option.distinct(1))
qed

lemma mpsc_memory_safe_witness: "Enqueue_step 2 20 6 demo_queue \<noteq> None \<and> producers demo_queue 2 = At_link 0 6"
proof -
  have p: "producers demo_queue 2 = At_link 0 6"
    by (simp add: demo_queue_def MPSCQueue_new_def Enqueue_step_def set_producer_def)
  then show ?thesis using mpsc_memory_safe [OF demo_queue_reachable, of 2 6 20] by simp
qed

section \<open>Whole calls\<close>

lemma Dequeue_chain:
  assumes "mpsc_chain s ns" "consumer s = Not_dequeuing"
  shows "\<exists>r s' ns'. Dequeue s = Some (r, s') \<and> mpsc_chain s' ns' \<and> consumer s' = Not_dequeuing \<and>
    producers s' = producers s \<and> enqueued s' = enqueued s \<and>
    (case r of Some x \<Rightarrow> contents s = x # contents s' \<and> dequeued s' = dequeued s @ [x]
     | None \<Rightarrow> s' = s \<and> (contents s = [] \<or> (\<exists>t a. producers s t = At_link (mq_tail s) a)))"
proof -
  note c = mpsc_chainD [OF assms(1)]
  have tl: "mq_tail s \<in> set ns" using c(3,10) hd_in_set by metis
  then obtain n where n: "mq_nodes s (mq_tail s) = Some n" using c(5) by blast
  obtain xs where xs: "enqueued s = dequeued s @ xs" "map Some xs = map Some (held (consumer s)) @ map (data_of s) (tl ns)"
    using chain_values [OF assms(1)] .
  let ?s1 = "s\<lparr>consumer := At_next (mq_tail s)\<rparr>"
  have 1: "Dequeue_step s = Some ?s1" by (simp add: Dequeue_step_def assms(2))
  show ?thesis
  proof (cases "Next n")
    case None
    have "ns = [mq_tail s]" if "\<nexists>t a. producers s t = At_link (mq_tail s) a"
      using linked_end [OF c(1)] None n c(3) that by (auto simp: next_of_def pending_def)
    moreover have "contents s = []" if "ns = [mq_tail s]"
      using xs that assms(2) by (simp add: contents_def)
    moreover have "Dequeue s = Some (None, s)"
      unfolding Dequeue_def 1 using None n assms(2) by (simp add: Dequeue_step_def)
    ultimately show ?thesis using assms by auto
  next
    case (Some m)
    then have m: "next_of s (mq_tail s) = Some m" using n by (simp add: next_of_def)
    obtain ms x where x: "ns = mq_tail s # m # ms" "data_of s m = Some x" using chain_second [OF assms(1) m] by metis
    then obtain k where k: "mq_nodes s m = Some k" "Data k = Some x" by (auto simp: data_of_def bind_eq_Some_conv)
    let ?s4 = "s\<lparr>mq_tail := m, consumer := At_delete (mq_tail s) x\<rparr>"
    let ?s5 = "s\<lparr>mq_tail := m, mq_nodes := (mq_nodes s)(mq_tail s := None), consumer := Not_dequeuing, dequeued := dequeued s @ [x]\<rparr>"
    have ck: "mpsc_chain (s\<lparr>consumer := At_tail (mq_tail s) m x\<rparr>) ns"
      by (rule mpsc_consumer [OF assms(1)]) (use m x(2) assms(2) in simp_all)
    have c4: "mpsc_chain ?s4 (tl ns)" using mpsc_store_tail [OF ck] by simp
    have 5: "Dequeue_step ?s4 = Some ?s5" by (simp add: Dequeue_step_def n)
    obtain ns' where "mpsc_chain ?s5 ns'" using Dequeue_step_chain [OF c4] 5 by auto
    moreover have "contents ?s4 = x # contents ?s5"
      using Dequeue_step_contents [OF 5 c4] by (auto simp: contents_def)
    moreover have "Dequeue s = Some (Some x, ?s5)"
      unfolding Dequeue_def 1 using Some n k by (simp add: Dequeue_step_def)
    ultimately show ?thesis by (auto simp: contents_def)
  qed
qed

text \<open>
  A call of \<^verbatim>\<open>Dequeue\<close> that the consumer makes in any reachable state ends after at most five steps. It
  returns the first value of the contents, and it returns nothing only when the queue is empty or a producer has
  yet to link the node behind the tail.
\<close>

theorem Dequeue_returns_first:
  assumes "mpsc_reachable s" "consumer s = Not_dequeuing"
  shows "\<exists>r s'. Dequeue s = Some (r, s') \<and> consumer s' = Not_dequeuing \<and>
    (case r of Some x \<Rightarrow> contents s = x # contents s' \<and> dequeued s' = dequeued s @ [x]
     | None \<Rightarrow> s' = s \<and> (contents s = [] \<or> (\<exists>t a. producers s t = At_link (mq_tail s) a)))"
proof -
  obtain ns where "mpsc_chain s ns" using reachable_chain [OF assms(1)] by blast
  then show ?thesis using Dequeue_chain [OF _ assms(2)] by blast
qed

text \<open>The value 20 was put first, but its producer has not linked it, so nothing can be returned yet.\<close>

lemma Dequeue_returns_first_witness:
  "\<exists>r s'. Dequeue demo_queue = Some (r, s') \<and> r = None \<and> contents demo_queue = [20, 10]"
proof -
  have d: "consumer demo_queue = Not_dequeuing" "contents demo_queue = [20, 10]"
    by (simp_all add: demo_queue_def MPSCQueue_new_def Enqueue_step_def set_producer_def contents_def)
  obtain r s' where r: "Dequeue demo_queue = Some (r, s')"
    "(case r of Some x \<Rightarrow> contents demo_queue = x # contents s' \<and> dequeued s' = dequeued demo_queue @ [x]
     | None \<Rightarrow> s' = demo_queue \<and> (contents demo_queue = [] \<or> (\<exists>t a. producers demo_queue t = At_link (mq_tail demo_queue) a)))"
    using Dequeue_returns_first [OF demo_queue_reachable d(1)] by blast
  have "Dequeue demo_queue = Some (None, demo_queue)"
    by (simp add: Dequeue_def Dequeue_step_def demo_queue_def MPSCQueue_new_def Enqueue_step_def set_producer_def)
  then show ?thesis using r(1) d(2) by simp
qed

section \<open>The destructor\<close>

definition quiescent :: "'a mpsc_queue \<Rightarrow> bool" where
  "quiescent s \<longleftrightarrow> consumer s = Not_dequeuing \<and> (\<forall>t. producers s t = Not_enqueuing)"

lemma delete_values_ok:
  assumes "mpsc_chain s ns" "quiescent s"
  shows "\<exists>s' ns'. delete_values s = Some (contents s, s') \<and> mpsc_chain s' ns' \<and> quiescent s' \<and> contents s' = []"
  using assms
proof (induction "contents s" arbitrary: s ns)
  case Nil
  have k: "consumer s = Not_dequeuing" using Nil(3) by (simp add: quiescent_def)
  obtain r s' where r: "Dequeue s = Some (r, s')" "case r of Some x \<Rightarrow> contents s = x # contents s' \<and> dequeued s' = dequeued s @ [x]
     | None \<Rightarrow> s' = s \<and> (contents s = [] \<or> (\<exists>t a. producers s t = At_link (mq_tail s) a))"
    using Dequeue_chain [OF Nil(2) k] by blast
  then have "r = None" "s' = s" using Nil(1) by (cases r; simp)+
  then have "delete_values s = Some ([], s)" using r(1) by (subst delete_values.simps) simp
  then show ?case using Nil by metis
next
  case (Cons x xs)
  have k: "consumer s = Not_dequeuing" using Cons(4) by (simp add: quiescent_def)
  obtain r s' ns' where r: "Dequeue s = Some (r, s')" "mpsc_chain s' ns'" "consumer s' = Not_dequeuing" "producers s' = producers s"
    "case r of Some x \<Rightarrow> contents s = x # contents s' \<and> dequeued s' = dequeued s @ [x]
     | None \<Rightarrow> s' = s \<and> (contents s = [] \<or> (\<exists>t a. producers s t = At_link (mq_tail s) a))"
    using Dequeue_chain [OF Cons(3) k] by blast
  have q: "quiescent s'" using r(3,4) Cons(4) by (simp add: quiescent_def)
  have c: "contents s = x # xs" using Cons(2) by simp
  have n: "r \<noteq> None" using r(5) c Cons(4) by (cases r) (simp_all add: quiescent_def)
  then have "r = Some x" "contents s' = xs" using r(5) c by (cases r; simp)+
  then obtain s2 ns2 where s2: "delete_values s' = Some (xs, s2)" "mpsc_chain s2 ns2" "quiescent s2" "contents s2 = []"
    using Cons(1) [OF _ r(2) q] by metis
  then have "delete_values s = Some (x # xs, s2)" using r(1) \<open>r = Some x\<close> by (subst delete_values.simps) simp
  then show ?case using s2 c by metis
qed

text \<open>
  C24: The destructor ends, deletes each value that is still in the queue exactly once, in order, and frees every
  node, when no other thread uses the queue.
\<close>

theorem MPSCQueue_destroy_frees:
  assumes "mpsc_reachable s" "quiescent s"
  shows "\<exists>s'. MPSCQueue_destroy s = Some (contents s, s') \<and> mq_nodes s' = Map.empty"
proof -
  obtain ns where "mpsc_chain s ns" using reachable_chain [OF assms(1)] by blast
  then obtain s2 ms where s2: "delete_values s = Some (contents s, s2)" "mpsc_chain s2 ms" "quiescent s2" "contents s2 = []"
    using delete_values_ok [OF _ assms(2)] by blast
  note c = mpsc_chainD [OF s2(2)]
  obtain xs where xs: "enqueued s2 = dequeued s2 @ xs" "map Some xs = map Some (held (consumer s2)) @ map (data_of s2) (tl ms)"
    using chain_values [OF s2(2)] .
  have "tl ms = []" using xs s2(4) by (simp add: contents_def)
  then have "ms = [mq_head s2]" using c(4,10) by (cases ms) auto
  moreover have "fresh_nodes s2 = {}" "removed_node (consumer s2) = {}" using s2(3) by (simp_all add: quiescent_def fresh_nodes_def)
  ultimately have d: "dom (mq_nodes s2) = {mq_head s2}" using c(5) by simp
  then obtain n where n: "mq_nodes s2 (mq_head s2) = Some n" by auto
  have "(mq_nodes s2)(mq_head s2 := None) = Map.empty" using d by (metis dom_eq_empty_conv dom_fun_upd Diff_cancel)
  then show ?thesis using s2(1) n by (simp add: MPSCQueue_destroy_def)
qed

definition demo_quiet :: "nat mpsc_queue" where
  "demo_quiet = enqueue_steps [(2, 20, 6)] demo_queue"

lemma MPSCQueue_destroy_frees_witness:
  "\<exists>s'. MPSCQueue_destroy demo_quiet = Some ([20, 10], s') \<and> mq_nodes s' = Map.empty"
proof -
  have d: "demo_quiet = the (Enqueue_step 2 20 6 demo_queue)" by (simp add: demo_quiet_def)
  have "mpsc_step demo_queue demo_quiet"
    unfolding d
    by (rule mpsc_step.enqueue [of _ 2 6 20])
      (simp_all add: demo_queue_def MPSCQueue_new_def Enqueue_step_def set_producer_def)
  then have "mpsc_reachable demo_quiet" by (rule mpsc_reachable.stepped [OF demo_queue_reachable])
  moreover have "quiescent demo_quiet" "contents demo_quiet = [20, 10]"
    by (simp_all add: quiescent_def contents_def demo_quiet_def demo_queue_def MPSCQueue_new_def Enqueue_step_def set_producer_def)
  ultimately show ?thesis using MPSCQueue_destroy_frees [of demo_quiet] by simp
qed

end
