(* ===== verification/MPSCQueue_Links.thy ===== *)
theory MPSCQueue_Links imports MPSCQueue_Chain begin

text \<open>
  The queue that links the queued objects themselves: the same chain, with a dummy that the consumer puts in when
  it takes the last object. An object that was returned belongs to its new owner, who may delete it at once.
\<close>

section \<open>The invariant\<close>

definition nxt :: "link_queue \<Rightarrow> node_id \<Rightarrow> node_id option" where
  "nxt s a = Option.bind (lq_link s a) id"

definition stores :: "link_queue \<Rightarrow> (node_id \<times> node_id) set" where
  "stores s = {(p, a). \<exists>t. linkers s t = At_store p a}"

fun object_at :: "link_producer \<Rightarrow> node_id option" where
  "object_at Not_linking = None"
| "object_at (At_null a) = Some a"
| "object_at (At_swap a) = Some a"
| "object_at (At_store p a) = Some a"

definition floating :: "link_queue \<Rightarrow> node_id set" where
  "floating s = {a. \<exists>t. linkers s t = At_null a \<or> linkers s t = At_swap a}"

definition linkers_ok :: "link_queue \<Rightarrow> node_id list \<Rightarrow> bool" where
  "linkers_ok s ns \<longleftrightarrow>
     (\<forall>t a. linkers s t = At_null a \<longrightarrow> a \<notin> set ns) \<and>
     (\<forall>t a. linkers s t = At_swap a \<longrightarrow> lq_link s a = Some None \<and> a \<notin> set ns) \<and>
     (\<forall>t p a. linkers s t = At_store p a \<longrightarrow> p \<in> set ns) \<and>
     (\<forall>t t' a. object_at (linkers s t) = Some a \<longrightarrow> object_at (linkers s t') = Some a \<longrightarrow> t = t') \<and>
     (\<forall>t a. object_at (linkers s t) = Some a \<longrightarrow> (t = 0 \<longleftrightarrow> a = dummy s))"

fun taker_ok :: "link_queue \<Rightarrow> node_id list \<Rightarrow> link_consumer \<Rightarrow> bool" where
  "taker_ok s ns Not_taking = (linkers s 0 = Not_linking)"
| "taker_ok s ns (At_first t) = (linkers s 0 = Not_linking \<and> t = lq_tail s)"
| "taker_ok s ns (At_skip n) = (linkers s 0 = Not_linking \<and> lq_tail s = dummy s \<and> nxt s (dummy s) = Some n)"
| "taker_ok s ns (At_second t) = (linkers s 0 = Not_linking \<and> t = lq_tail s \<and> t \<noteq> dummy s)"
| "taker_ok s ns (At_advance t n) = (linkers s 0 = Not_linking \<and> t = lq_tail s \<and> t \<noteq> dummy s \<and> nxt s t = Some n)"
| "taker_ok s ns (At_head t) = (linkers s 0 = Not_linking \<and> t = lq_tail s \<and> t \<noteq> dummy s)"
| "taker_ok s ns (At_enqueue t) = (linkers s 0 = Not_linking \<and> t = lq_tail s \<and> t \<noteq> dummy s \<and> dummy s \<notin> set ns)"
| "taker_ok s ns (At_third t) = (t = lq_tail s \<and> t \<noteq> dummy s \<and>
     (dummy s \<notin> set ns \<longrightarrow> (\<exists>a. linkers s 0 = At_null a \<or> linkers s 0 = At_swap a)))"

text \<open>All but what the consumer knows.\<close>

definition link_base :: "link_queue \<Rightarrow> node_id list \<Rightarrow> bool" where
  "link_base s ns \<longleftrightarrow>
     linked (nxt s) (stores s) ns \<and> distinct ns \<and> hd ns = lq_tail s \<and> last ns = lq_head s \<and>
     dom (lq_link s) = set ns \<union> outside s \<union> floating s \<union> {dummy s} \<and>
     outside s \<inter> (set ns \<union> floating s \<union> {dummy s}) = {} \<and> linkers_ok s ns \<and>
     put_in s = taken s @ filter (\<lambda>a. a \<noteq> dummy s) ns"

definition link_chain :: "link_queue \<Rightarrow> node_id list \<Rightarrow> bool" where
  "link_chain s ns \<longleftrightarrow> link_base s ns \<and> taker_ok s ns (taker s)"

lemma link_baseD:
  assumes "link_base s ns"
  shows "linked (nxt s) (stores s) ns" "distinct ns" "hd ns = lq_tail s" "last ns = lq_head s"
    "dom (lq_link s) = set ns \<union> outside s \<union> floating s \<union> {dummy s}"
    "outside s \<inter> (set ns \<union> floating s \<union> {dummy s}) = {}" "linkers_ok s ns"
    "put_in s = taken s @ filter (\<lambda>a. a \<noteq> dummy s) ns" "ns \<noteq> []"
  using assms linked_not_Nil unfolding link_base_def by blast+

lemma linkers_okD:
  assumes "linkers_ok s ns"
  shows "linkers s t = At_null a \<Longrightarrow> a \<notin> set ns"
    "linkers s t = At_swap a \<Longrightarrow> lq_link s a = Some None \<and> a \<notin> set ns"
    "linkers s t = At_store p a \<Longrightarrow> p \<in> set ns" "(p, a) \<in> stores s \<Longrightarrow> p \<in> set ns"
    "object_at (linkers s t) = Some a \<Longrightarrow> object_at (linkers s t') = Some a \<Longrightarrow> t = t'"
    "object_at (linkers s t) = Some a \<Longrightarrow> t = 0 \<longleftrightarrow> a = dummy s"
proof -
  show l: "linkers s t = At_store p a \<Longrightarrow> p \<in> set ns" for t p a using assms unfolding linkers_ok_def by blast
  show "(p, a) \<in> stores s \<Longrightarrow> p \<in> set ns" using l by (auto simp: stores_def)
qed (use assms in \<open>unfold linkers_ok_def, blast+\<close>)

lemma floating_alive: "link_base s ns \<Longrightarrow> linkers s t = At_null a \<or> linkers s t = At_swap a \<Longrightarrow> lq_link s a \<noteq> None"
  using link_baseD(5) [of s ns] by (auto simp: floating_def)

lemma chain_alive: "link_base s ns \<Longrightarrow> a \<in> set ns \<Longrightarrow> lq_link s a \<noteq> None"
  using link_baseD(5) [of s ns] by auto

lemma link_chain_new: "link_chain (LinkQueue_new d) [d]"
  by (auto simp: link_chain_def link_base_def LinkQueue_new_def nxt_def stores_def floating_def linkers_ok_def split: if_splits)

section \<open>Enqueue\<close>

lemma set_linker_fields [simp]:
  "lq_link (set_linker t p s) = lq_link s" "dummy (set_linker t p s) = dummy s" "lq_head (set_linker t p s) = lq_head s"
  "lq_tail (set_linker t p s) = lq_tail s" "linkers (set_linker t p s) = (linkers s)(t := p)"
  "taker (set_linker t p s) = taker s" "outside (set_linker t p s) = outside s" "put_in (set_linker t p s) = put_in s"
  "taken (set_linker t p s) = taken s"
  by (simp_all add: set_linker_def)

text \<open>What a thread may enqueue: an object it owns, or the consumer the dummy.\<close>

definition may_enqueue :: "link_queue \<Rightarrow> node_id list \<Rightarrow> nat \<Rightarrow> node_id \<Rightarrow> bool" where
  "may_enqueue s ns t a \<longleftrightarrow> (if t = 0 then a = dummy s \<and> dummy s \<notin> set ns else a \<in> outside s)"

text \<open>The rest of the state sees only this of a step of \<^verbatim>\<open>Enqueue\<close>.\<close>

definition enqueue_frame :: "nat \<Rightarrow> link_queue \<Rightarrow> node_id list \<Rightarrow> link_queue \<Rightarrow> node_id list \<Rightarrow> bool" where
  "enqueue_frame t s ns s' ns' \<longleftrightarrow>
     lq_tail s' = lq_tail s \<and> taker s' = taker s \<and> dummy s' = dummy s \<and> taken s' = taken s \<and>
     (\<forall>u. u \<noteq> t \<longrightarrow> linkers s' u = linkers s u) \<and>
     (\<forall>k \<in> set ns. nxt s k \<noteq> None \<longrightarrow> nxt s' k = nxt s k) \<and>
     (t \<noteq> 0 \<longrightarrow> (dummy s \<in> set ns' \<longleftrightarrow> dummy s \<in> set ns)) \<and> set ns \<subseteq> set ns'"

lemma floating_set_linker:
  "b \<in> floating (set_linker t p s) \<longleftrightarrow>
     p = At_null b \<or> p = At_swap b \<or> (\<exists>u. u \<noteq> t \<and> (linkers s u = At_null b \<or> linkers s u = At_swap b))"
  unfolding floating_def by (simp, metis)

lemma linkers_ok_keep:
  assumes "linkers_ok s ns" "dummy s' = dummy s"
    "\<And>v. v \<noteq> t \<Longrightarrow> linkers s' v = linkers s v" 
    "\<And>v a. v \<noteq> t \<Longrightarrow> linkers s v = At_null a \<or> linkers s v = At_swap a \<Longrightarrow> a \<notin> set ms"
    "\<And>v a. v \<noteq> t \<Longrightarrow> linkers s v = At_swap a \<Longrightarrow> lq_link s' a = lq_link s a"
    "\<And>v q b. v \<noteq> t \<Longrightarrow> linkers s v = At_store q b \<Longrightarrow> q \<in> set ms"
    "\<And>a. linkers s' t = At_null a \<Longrightarrow> a \<notin> set ms"
    "\<And>a. linkers s' t = At_swap a \<Longrightarrow> lq_link s' a = Some None \<and> a \<notin> set ms"
    "\<And>q b. linkers s' t = At_store q b \<Longrightarrow> q \<in> set ms"
    "\<And>a. object_at (linkers s' t) = Some a \<Longrightarrow> (t = 0 \<longleftrightarrow> a = dummy s) \<and> (\<forall>v. v \<noteq> t \<longrightarrow> object_at (linkers s v) \<noteq> Some a)"
  shows "linkers_ok s' ms"
  unfolding linkers_ok_def
proof (intro conjI allI impI)
  fix v a
  assume v: "linkers s' v = At_null a"
  show "a \<notin> set ms"
  proof (cases "v = t")
    case True
    then show ?thesis using v assms(7) by simp
  next
    case False
    then show ?thesis using v assms(3,4) by metis
  qed
next
  fix v a
  assume v: "linkers s' v = At_swap a"
  have "lq_link s' a = Some None \<and> a \<notin> set ms"
  proof (cases "v = t")
    case True
    then show ?thesis using v assms(8) by simp
  next
    case False
    then have "linkers s v = At_swap a" using v assms(3) by metis
    then show ?thesis using linkers_okD(2) [OF assms(1), of v a] assms(4,5) [OF False, of a] by simp
  qed
  then show "lq_link s' a = Some None" "a \<notin> set ms" by simp_all
next
  fix v q b
  assume v: "linkers s' v = At_store q b"
  show "q \<in> set ms"
  proof (cases "v = t")
    case True
    then show ?thesis using v assms(9) by simp
  next
    case False
    then show ?thesis using v assms(3,6) by metis
  qed
next
  fix v v' a
  assume v: "object_at (linkers s' v) = Some a" "object_at (linkers s' v') = Some a"
  show "v = v'"
  proof (cases "v = t \<or> v' = t")
    case True
    then show ?thesis using v assms(3,10) by metis
  next
    case False
    then show ?thesis using v linkers_okD(5) [OF assms(1), of v a v'] assms(3) by simp
  qed
next
  fix v a
  assume v: "object_at (linkers s' v) = Some a"
  show "(v = 0) = (a = dummy s')"
  proof (cases "v = t")
    case True
    then show ?thesis using v assms(2,10) by simp
  next
    case False
    then show ?thesis using v linkers_okD(6) [OF assms(1), of v a] assms(2,3) by simp
  qed
qed

lemma link_call:
  assumes "link_base s ns" "linkers s t = Not_linking" "may_enqueue s ns t a"
  shows "link_base (set_linker t (At_null a) (s\<lparr>outside := outside s - {a}\<rparr>)) ns" (is "link_base ?s ns")
proof -
  note c = link_baseD [OF assms(1)]
  have a: "a \<notin> set ns" "lq_link s a \<noteq> None" using c(5,6) assms(3) by (auto simp: may_enqueue_def split: if_splits)
  have o: "object_at (linkers s u) \<noteq> Some a" for u
  proof
    assume u: "object_at (linkers s u) = Some a"
    show False
    proof (cases "t = 0")
      case True
      then have "u = 0" using linkers_okD(6) [OF c(7) u] assms(3) by (simp add: may_enqueue_def)
      then show False using u assms(2) True by simp
    next
      case False
      then have x: "a \<in> outside s" using assms(3) by (simp add: may_enqueue_def)
      then have "a \<notin> floating s" using c(6) by blast
      then obtain p where "linkers s u = At_store p a" using u by (cases "linkers s u") (auto simp: floating_def)
      then have "(p, a) \<in> stores s" "p \<in> set ns" using linkers_okD(3) [OF c(7)] by (auto simp: stores_def)
      then show False using linked_pending [OF c(1)] a(1) by blast
    qed
  qed
  have z: "t = 0 \<longleftrightarrow> a = dummy s" using assms(3) c(6) by (auto simp: may_enqueue_def split: if_splits)
  have n: "nxt ?s = nxt s" by (simp add: nxt_def fun_eq_iff)
  have p: "stores ?s = stores s" using assms(2) by (force simp: stores_def)
  have f: "floating ?s = insert a (floating s)"
  proof (intro set_eqI)
    fix b
    have "(\<exists>u. u \<noteq> t \<and> (linkers s u = At_null b \<or> linkers s u = At_swap b)) \<longleftrightarrow> b \<in> floating s"
      unfolding floating_def using assms(2) by (simp, metis link_producer.distinct(1,3))
    then show "b \<in> floating ?s \<longleftrightarrow> b \<in> insert a (floating s)" by (auto simp: floating_set_linker)
  qed
  have "linkers_ok ?s ns"
    by (rule linkers_ok_keep [OF c(7), of _ t])
      (use linkers_okD(1-3) [OF c(7)] a o z in auto)
  moreover have "dom (lq_link ?s) = set ns \<union> outside ?s \<union> floating ?s \<union> {dummy ?s}" using c(5) f a(2) by auto
  ultimately show ?thesis
    unfolding link_base_def using c(1-4,6,8) n p f by auto
qed

lemma link_null:
  assumes "link_base s ns" "linkers s t = At_null a"
  shows "link_base (set_linker t (At_swap a) (s\<lparr>lq_link := (lq_link s)(a \<mapsto> None)\<rparr>)) ns" (is "link_base ?s ns")
proof -
  note c = link_baseD [OF assms(1)]
  have a: "a \<notin> set ns" "lq_link s a \<noteq> None" using linkers_okD(1) [OF c(7) assms(2)] floating_alive [OF assms(1)] assms(2) by blast+
  have u: "u = t" if "object_at (linkers s u) = Some a" for u
    by (rule linkers_okD(5) [OF c(7)]) (use that assms(2) in auto)
  have n: "nxt ?s k = nxt s k" if "k \<in> set ns" for k using that a(1) by (auto simp: nxt_def)
  have p: "stores ?s = stores s" using assms(2) by (force simp: stores_def)
  have l: "linked (nxt ?s) (stores ?s) ns"
    using c(1) linked_cong [of ns "nxt ?s" "nxt s" "stores s" "stores s"] n p by metis
  have "b \<in> floating ?s \<longleftrightarrow> b \<in> floating s" for b
    unfolding floating_set_linker using assms(2) unfolding floating_def by (simp, metis link_producer.distinct(7) link_producer.inject(1))
  then have f: "floating ?s = floating s" by blast
  have "linkers_ok ?s ns"
  proof (rule linkers_ok_keep [OF c(7), of _ t])
    fix v b
    assume "v \<noteq> t" "linkers s v = At_swap b"
    then show "lq_link ?s b = lq_link s b" using u [of v] by auto
  next
    fix b
    assume "object_at (linkers ?s t) = Some b"
    then show "(t = 0) = (b = dummy s) \<and> (\<forall>v. v \<noteq> t \<longrightarrow> object_at (linkers s v) \<noteq> Some b)"
      using u linkers_okD(6) [OF c(7), of t a] assms(2) by auto
  qed (use linkers_okD(1-3) [OF c(7)] a in auto)
  moreover have "dom (lq_link ?s) = dom (lq_link s)" using a(2) by auto
  ultimately show ?thesis
    unfolding link_base_def using c(2-6,8) l f by simp
qed

lemma link_swap:
  assumes "link_base s ns" "linkers s t = At_swap a"
  shows "link_base (set_linker t (At_store (lq_head s) a)
    (s\<lparr>lq_head := a, put_in := (if a = dummy s then put_in s else put_in s @ [a])\<rparr>)) (ns @ [a])" (is "link_base ?s _")
proof -
  note c = link_baseD [OF assms(1)]
  have a: "lq_link s a = Some None" "a \<notin> set ns" using linkers_okD(2) [OF c(7) assms(2)] by simp_all
  have u: "v = t" if "object_at (linkers s v) = Some a" for v
    by (rule linkers_okD(5) [OF c(7)]) (use that assms(2) in auto)
  have h: "lq_head s \<in> set ns" using c(4,9) last_in_set by metis
  have n: "nxt ?s = nxt s" by (simp add: nxt_def fun_eq_iff)
  have p: "stores ?s = insert (last ns, a) (stores s)" using assms(2) c(4) by (force simp: stores_def)
  have f: "floating ?s = floating s - {a}"
  proof (intro set_eqI iffI)
    fix b
    assume "b \<in> floating ?s"
    then obtain v where v: "v \<noteq> t" "linkers s v = At_null b \<or> linkers s v = At_swap b" by (auto simp: floating_set_linker)
    then show "b \<in> floating s - {a}" using u [of v] by (auto simp: floating_def)
  next
    fix b
    assume "b \<in> floating s - {a}"
    then obtain v where v: "b \<noteq> a" "linkers s v = At_null b \<or> linkers s v = At_swap b" by (auto simp: floating_def)
    then have "v \<noteq> t" using assms(2) by auto
    then show "b \<in> floating ?s" using v(2) by (auto simp: floating_set_linker)
  qed
  have g: "a \<in> floating s" using assms(2) by (auto simp: floating_def)
  have "linked (nxt s) (insert (last ns, a) (stores s)) (ns @ [a])"
  proof (rule linked_snoc [OF c(1) a(2) _ _ c(2)])
    show "nxt s a = None" using a(1) by (simp add: nxt_def)
    show "(a, b) \<notin> stores s" for b using linkers_okD(4) [OF c(7)] a(2) by blast
  qed
  moreover have "linkers_ok ?s (ns @ [a])"
  proof (rule linkers_ok_keep [OF c(7), of _ t])
    fix v b
    assume v: "v \<noteq> t" "linkers s v = At_null b \<or> linkers s v = At_swap b"
    then have "b \<noteq> a" using u [of v] by auto
    then show "b \<notin> set (ns @ [a])" using v(2) linkers_okD(1,2) [OF c(7)] by auto
  next
    fix b
    assume "object_at (linkers ?s t) = Some b"
    then show "(t = 0) = (b = dummy s) \<and> (\<forall>v. v \<noteq> t \<longrightarrow> object_at (linkers s v) \<noteq> Some b)"
      using u linkers_okD(6) [OF c(7), of t a] assms(2) by auto
  qed (use linkers_okD(3) [OF c(7)] h in auto)
  moreover have "dom (lq_link s) = set (ns @ [a]) \<union> outside s \<union> floating ?s \<union> {dummy s}" using c(5) f g by auto
  moreover have "outside s \<inter> (set (ns @ [a]) \<union> floating ?s \<union> {dummy s}) = {}" using c(6) f g by auto
  ultimately show ?thesis
    unfolding link_base_def using c(2-4,8,9) n p a(2) by simp
qed

lemma link_store:
  assumes "link_base s ns" "linkers s t = At_store p a"
  shows "lq_link s p \<noteq> None" "nxt s p = None"
    "link_base (set_linker t Not_linking (s\<lparr>lq_link := (lq_link s)(p \<mapsto> Some a)\<rparr>)) ns" (is "link_base ?s ns")
proof -
  note c = link_baseD [OF assms(1)]
  have p: "p \<in> set ns" using linkers_okD(3) [OF c(7) assms(2)] .
  then show d: "lq_link s p \<noteq> None" using chain_alive [OF assms(1)] by blast
  have pa: "(p, a) \<in> stores s" using assms(2) by (auto simp: stores_def)
  note l = linked_pending [OF c(1) pa p]
  then show "nxt s p = None" by blast
  have x: "nxt ?s = (nxt s)(p := Some a)" by (simp add: nxt_def fun_eq_iff)
  have u: "v = t" if "linkers s v = At_store q a" for v q
    by (rule linkers_okD(5) [OF c(7)]) (use that assms(2) in auto)
  have pd: "stores ?s = stores s - {(p, a)}"
  proof (intro set_eqI)
    fix e :: "node_id \<times> node_id"
    obtain q b where e: "e = (q, b)" by (cases e)
    show "e \<in> stores ?s \<longleftrightarrow> e \<in> stores s - {(p, a)}"
    proof
      assume "e \<in> stores ?s"
      then obtain v where v: "v \<noteq> t" "linkers s v = At_store q b" by (auto simp: e stores_def split: if_splits)
      then show "e \<in> stores s - {(p, a)}" using u [of v q] by (auto simp: e stores_def)
    next
      assume "e \<in> stores s - {(p, a)}"
      then obtain v where v: "(q, b) \<noteq> (p, a)" "linkers s v = At_store q b" by (auto simp: e stores_def)
      then have "v \<noteq> t" using assms(2) by auto
      then show "e \<in> stores ?s" using v by (auto simp: e stores_def)
    qed
  qed
  have "b \<in> floating ?s \<longleftrightarrow> b \<in> floating s" for b
    unfolding floating_set_linker using assms(2) unfolding floating_def by (simp, metis link_producer.distinct(9,11))
  then have f: "floating ?s = floating s" by blast
  have "linked (nxt ?s) (stores ?s) ns"
    unfolding x pd by (rule linked_store [OF c(1) pa p c(2)])
  moreover have "linkers_ok ?s ns"
  proof (rule linkers_ok_keep [OF c(7), of _ t])
    fix v b
    assume "v \<noteq> t" "linkers s v = At_swap b"
    then show "lq_link ?s b = lq_link s b" using linkers_okD(2) [OF c(7), of v b] p by auto
  qed (use linkers_okD(1-3) [OF c(7)] in auto)
  moreover have "dom (lq_link ?s) = dom (lq_link s)" using d by auto
  ultimately show "link_base ?s ns"
    unfolding link_base_def using c(2-6,8) f by simp
qed

lemma link_Enqueue_step_base:
  assumes "link_base s ns" "linkers s t = Not_linking \<Longrightarrow> may_enqueue s ns t a"
  shows "\<exists>s' ns'. link_Enqueue_step t a s = Some s' \<and> link_base s' ns' \<and> enqueue_frame t s ns s' ns'"
proof (cases "linkers s t")
  case Not_linking
  have "nxt (set_linker t (At_null a) (s\<lparr>outside := outside s - {a}\<rparr>)) = nxt s" by (simp add: nxt_def fun_eq_iff)
  then show ?thesis
    using link_call [OF assms(1) Not_linking assms(2) [OF Not_linking]] Not_linking
    by (auto simp: link_Enqueue_step_def enqueue_frame_def)
next
  case (At_null b)
  let ?s = "set_linker t (At_swap b) (s\<lparr>lq_link := (lq_link s)(b \<mapsto> None)\<rparr>)"
  have "b \<notin> set ns" using linkers_okD(1) [OF link_baseD(7) [OF assms(1)] At_null] .
  then have "nxt ?s k = nxt s k" if "k \<in> set ns" for k using that by (auto simp: nxt_def)
  then have "enqueue_frame t s ns ?s ns" by (simp add: enqueue_frame_def)
  moreover have "link_Enqueue_step t a s = Some ?s"
    using floating_alive [OF assms(1), of t b] At_null by (simp add: link_Enqueue_step_def store_link_def)
  ultimately show ?thesis using link_null [OF assms(1) At_null] by blast
next
  case (At_swap b)
  have "t \<noteq> 0 \<Longrightarrow> b \<noteq> dummy s" using linkers_okD(6) [OF link_baseD(7) [OF assms(1)], of t b] At_swap by simp
  moreover have "nxt (set_linker t (At_store (lq_head s) b)
      (s\<lparr>lq_head := b, put_in := (if b = dummy s then put_in s else put_in s @ [b])\<rparr>)) = nxt s"
    by (simp add: nxt_def fun_eq_iff)
  ultimately show ?thesis
    using link_swap [OF assms(1) At_swap] At_swap by (auto simp: link_Enqueue_step_def enqueue_frame_def)
next
  case (At_store p b)
  note l = link_store [OF assms(1) At_store]
  let ?s = "set_linker t Not_linking (s\<lparr>lq_link := (lq_link s)(p \<mapsto> Some b)\<rparr>)"
  have "nxt ?s k = nxt s k" if "nxt s k \<noteq> None" for k using that l(2) by (auto simp: nxt_def)
  then have "enqueue_frame t s ns ?s ns" by (simp add: enqueue_frame_def)
  moreover have "link_Enqueue_step t a s = Some ?s"
    using l(1) At_store by (simp add: link_Enqueue_step_def store_link_def)
  ultimately show ?thesis using l(3) by blast
qed

lemma taker_ok_frame:
  assumes "enqueue_frame t s ns s' ns'" "t \<noteq> 0" "link_base s ns"
  shows "taker_ok s ns c \<Longrightarrow> taker_ok s' ns' c"
proof -
  note f = assms(1) [unfolded enqueue_frame_def]
  have t: "lq_tail s \<in> set ns" using link_baseD(3,9) [OF assms(3)] hd_in_set by metis
  have z: "linkers s' 0 = linkers s 0" using f assms(2) by metis
  have n: "nxt s (lq_tail s) = Some n \<Longrightarrow> nxt s' (lq_tail s) = Some n" for n using f t by auto
  show "taker_ok s ns c \<Longrightarrow> taker_ok s' ns' c"
    using f z n assms(2) by (cases c) auto
qed

lemma link_Enqueue_step_chain:
  assumes "link_chain s ns" "t \<noteq> 0" "linkers s t = Not_linking \<Longrightarrow> a \<in> outside s"
  shows "\<exists>s' ns'. link_Enqueue_step t a s = Some s' \<and> link_chain s' ns' \<and> enqueue_frame t s ns s' ns'"
proof -
  have b: "link_base s ns" "taker_ok s ns (taker s)" using assms(1) by (simp_all add: link_chain_def)
  obtain s' ns' where s': "link_Enqueue_step t a s = Some s'" "link_base s' ns'" "enqueue_frame t s ns s' ns'"
    using link_Enqueue_step_base [OF b(1), of t a] assms(2,3) by (auto simp: may_enqueue_def)
  have "taker_ok s' ns' (taker s')"
    using taker_ok_frame [OF s'(3) assms(2) b(1,2)] s'(3) by (simp add: enqueue_frame_def)
  then show ?thesis using s' by (auto simp: link_chain_def)
qed

section \<open>Creation and deletion of objects\<close>

lemma change_outside:
  assumes "link_chain s ns" "a \<notin> set ns" "a \<notin> floating s" "a \<noteq> dummy s"
    and s': "s' = s\<lparr>lq_link := (lq_link s)(a := n), outside := if n = None then outside s - {a} else insert a (outside s)\<rparr>"
  shows "link_chain s' ns"
proof -
  have b: "link_base s ns" "taker_ok s ns (taker s)" using assms(1) by (simp_all add: link_chain_def)
  note c = link_baseD [OF b(1)]
  have x: "nxt s' k = nxt s k" if "k \<noteq> a" for k using that by (simp add: nxt_def s')
  have p: "stores s' = stores s" "floating s' = floating s" "linkers s' = linkers s"
    by (simp_all add: stores_def floating_def s')
  have l: "linked (nxt s') (stores s') ns"
    using c(1) linked_cong [of ns "nxt s'" "nxt s" "stores s" "stores s"] x assms(2) p(1) by metis
  have "linkers_ok s' ns"
  proof (rule linkers_ok_keep [OF c(7), of _ 0])
    fix v b
    assume "linkers s v = At_swap b"
    then have "b \<in> floating s" by (auto simp: floating_def)
    then show "lq_link s' b = lq_link s b" using assms(3) by (auto simp: s')
  next
    fix b
    assume b: "linkers s' 0 = At_swap b"
    then have "b \<in> floating s" using p by (auto simp: floating_def)
    then have "b \<noteq> a" using assms(3) by blast
    then show "lq_link s' b = Some None \<and> b \<notin> set ns" using linkers_okD(2) [OF c(7), of 0 b] b p by (simp add: s')
  next
    fix b
    assume "object_at (linkers s' 0) = Some b"
    then show "(0 = (0 :: nat)) = (b = dummy s) \<and> (\<forall>v. v \<noteq> 0 \<longrightarrow> object_at (linkers s v) \<noteq> Some b)"
      using linkers_okD(5,6) [OF c(7), of 0 b] p by auto
  qed (use linkers_okD(1-3) [OF c(7)] p in \<open>auto simp: s'\<close>)
  moreover have "dom (lq_link s') = set ns \<union> outside s' \<union> floating s' \<union> {dummy s'}"
    using c(5) assms(2-4) p(2) by (auto simp: s' dom_def)
  moreover have "outside s' \<inter> (set ns \<union> floating s' \<union> {dummy s'}) = {}" using c(6) assms(2-4) p(2) by (auto simp: s')
  moreover have "put_in s' = taken s' @ filter (\<lambda>a. a \<noteq> dummy s') ns" "hd ns = lq_tail s'" "last ns = lq_head s'"
    using c(3,4,8) by (simp_all add: s')
  ultimately have "link_base s' ns" using l c(2) by (simp add: link_base_def)
  moreover have "taker_ok s' ns (taker s')"
  proof -
    have "lq_tail s \<noteq> a" using c(3,9) assms(2) hd_in_set by metis
    then have "nxt s' (lq_tail s) = nxt s (lq_tail s)" "nxt s' (dummy s) = nxt s (dummy s)" using x assms(4) by simp_all
    then show ?thesis using b(2) p(3) by (cases "taker s") (auto simp: s')
  qed
  ultimately show ?thesis by (simp add: link_chain_def)
qed

section \<open>Dequeue\<close>

lemma taker_fields [simp]:
  "nxt (s\<lparr>taker := c\<rparr>) = nxt s" "stores (s\<lparr>taker := c\<rparr>) = stores s" "floating (s\<lparr>taker := c\<rparr>) = floating s"
  "linkers_ok (s\<lparr>taker := c\<rparr>) ns = linkers_ok s ns" "link_base (s\<lparr>taker := c\<rparr>) ns = link_base s ns"
  "taker_ok (s\<lparr>taker := c\<rparr>) ns d = taker_ok s ns d"
proof -
  show 1: "nxt (s\<lparr>taker := c\<rparr>) = nxt s" "stores (s\<lparr>taker := c\<rparr>) = stores s" "floating (s\<lparr>taker := c\<rparr>) = floating s"
    "linkers_ok (s\<lparr>taker := c\<rparr>) ns = linkers_ok s ns"
    by (simp_all add: nxt_def stores_def floating_def linkers_ok_def fun_eq_iff)
  then show "link_base (s\<lparr>taker := c\<rparr>) ns = link_base s ns" by (simp add: link_base_def)
  show "taker_ok (s\<lparr>taker := c\<rparr>) ns d = taker_ok s ns d" using 1 by (cases d) simp_all
qed

text \<open>The tail moves to the next node; the old one is the dummy or is handed out.\<close>

lemma advance_tail:
  assumes "link_base s ns" "nxt s (lq_tail s) = Some n" "linkers s 0 = Not_linking"
    and s': "s' = s\<lparr>lq_tail := n, taker := c, outside := (if lq_tail s = dummy s then outside s else insert (lq_tail s) (outside s)),
      taken := (if lq_tail s = dummy s then taken s else taken s @ [lq_tail s])\<rparr>"
  shows "link_base s' (tl ns)" "lq_tail s \<notin> set (tl ns)" "nxt s' = nxt s" "n \<in> set (tl ns)"
proof -
  note b = link_baseD [OF assms(1)]
  obtain ms where ms: "ns = lq_tail s # n # ms" "linked (nxt s) (stores s) (n # ms)" "\<And>c. (lq_tail s, c) \<notin> stores s"
    using linked_next [OF b(1), of n] assms(2) b(3) by metis
  show t: "lq_tail s \<notin> set (tl ns)" "n \<in> set (tl ns)" using b(2) ms(1) by auto
  have x: "nxt s' = nxt s" "stores s' = stores s" "floating s' = floating s" "linkers s' = linkers s" "dummy s' = dummy s"
    by (simp_all add: nxt_def stores_def floating_def fun_eq_iff s')
  then show "nxt s' = nxt s" by simp
  have "lq_tail s \<notin> floating s"
    using linkers_okD(1,2) [OF b(7)] ms(1) by (fastforce simp: floating_def)
  moreover have "linkers_ok s' (n # ms)"
  proof (rule linkers_ok_keep [OF b(7), of _ 0])
    fix v q k
    assume "linkers s v = At_store q k"
    then have "q \<in> set ns" "(q, k) \<in> stores s" using linkers_okD(3) [OF b(7)] by (auto simp: stores_def)
    then show "q \<in> set (n # ms)" using ms(1,3) by auto
  qed (use linkers_okD(1,2) [OF b(7)] ms(1) x assms(3) in \<open>auto simp: s'\<close>)
  ultimately show "link_base s' (tl ns)"
    unfolding link_base_def using b(2-6,8) ms x s' by auto
qed

lemma link_Dequeue_step_chain:
  assumes "link_chain s ns"
  shows "\<exists>s' ns'. link_Dequeue_step s = Some s' \<and> link_chain s' ns'"
proof -
  have b: "link_base s ns" "taker_ok s ns (taker s)" using assms by (simp_all add: link_chain_def)
  note c = link_baseD [OF b(1)]
  have tl: "lq_tail s \<in> set ns" using c(3,9) hd_in_set by metis
  have move: "link_chain (s\<lparr>taker := d\<rparr>) ns" if "taker_ok s ns d" for d using that b(1) by (simp add: link_chain_def)
  obtain nx where nx: "lq_link s (lq_tail s) = Some nx" using chain_alive [OF b(1) tl] by blast
  then have nt: "nxt s (lq_tail s) = nx" by (simp add: nxt_def)
  show ?thesis
  proof (cases "taker s")
    case Not_taking
    then show ?thesis using move [of "At_first (lq_tail s)"] b(2) by (auto simp: link_Dequeue_step_def)
  next
    case (At_first t)
    then have t: "t = lq_tail s" "linkers s 0 = Not_linking" using b(2) by simp_all
    show ?thesis
    proof (cases "t = dummy s")
      case True
      then show ?thesis
        using move [of "case nx of None \<Rightarrow> Not_taking | Some n \<Rightarrow> At_skip n"] At_first t nx nt
        by (cases nx) (auto simp: link_Dequeue_step_def)
    next
      case False
      then show ?thesis
        using move [of "case nx of None \<Rightarrow> At_head t | Some n \<Rightarrow> At_advance t n"] At_first t nx nt
        by (cases nx) (auto simp: link_Dequeue_step_def advance_or_def)
    qed
  next
    case (At_skip n)
    then have t: "linkers s 0 = Not_linking" "lq_tail s = dummy s" "nxt s (lq_tail s) = Some n" using b(2) by simp_all
    let ?s = "s\<lparr>lq_tail := n, taker := At_second n\<rparr>"
    have e: "?s = s\<lparr>lq_tail := n, taker := At_second n, outside := (if lq_tail s = dummy s then outside s else insert (lq_tail s) (outside s)),
      taken := (if lq_tail s = dummy s then taken s else taken s @ [lq_tail s])\<rparr>"
      using t(2) by simp
    note a = advance_tail [OF b(1) t(3,1) e]
    have "n \<noteq> dummy s" using a(2,4) t(2) by auto
    then have "link_chain ?s (tl ns)" using a(1) t(1) by (simp add: link_chain_def)
    then show ?thesis using At_skip by (auto simp: link_Dequeue_step_def)
  next
    case (At_second t)
    then have t: "t = lq_tail s" "linkers s 0 = Not_linking" "t \<noteq> dummy s" using b(2) by simp_all
    then show ?thesis
      using move [of "case nx of None \<Rightarrow> At_head t | Some n \<Rightarrow> At_advance t n"] At_second nx nt
      by (cases nx) (auto simp: link_Dequeue_step_def advance_or_def)
  next
    case (At_advance t n)
    then have t: "linkers s 0 = Not_linking" "t = lq_tail s" "t \<noteq> dummy s" "nxt s (lq_tail s) = Some n" using b(2) by auto
    let ?s = "s\<lparr>lq_tail := n, taker := Not_taking, outside := insert t (outside s), taken := taken s @ [t]\<rparr>"
    have e: "?s = s\<lparr>lq_tail := n, taker := Not_taking, outside := (if lq_tail s = dummy s then outside s else insert (lq_tail s) (outside s)),
      taken := (if lq_tail s = dummy s then taken s else taken s @ [lq_tail s])\<rparr>"
      using t(2,3) by simp
    have "link_chain ?s (tl ns)" using advance_tail(1) [OF b(1) t(4,1) e] t(1) by (simp add: link_chain_def)
    then show ?thesis using At_advance by (auto simp: link_Dequeue_step_def)
  next
    case (At_head t)
    then have t: "t = lq_tail s" "linkers s 0 = Not_linking" "t \<noteq> dummy s" using b(2) by simp_all
    show ?thesis
    proof (cases "t = lq_head s")
      case True
      then have "hd ns = last ns" using c(3,4) t(1) by simp
      then have "ns = [t]" using c(2,3,9) t(1) by (cases ns) (auto split: if_splits dest: last_in_set)
      then show ?thesis using move [of "At_enqueue t"] At_head t True by (auto simp: link_Dequeue_step_def)
    next
      case False
      then show ?thesis using move [of Not_taking] At_head t by (auto simp: link_Dequeue_step_def)
    qed
  next
    case (At_enqueue t)
    then have t: "linkers s 0 = Not_linking" "t = lq_tail s" "t \<noteq> dummy s" "dummy s \<notin> set ns" using b(2) by simp_all
    have m: "may_enqueue s ns 0 (dummy s)" using t(4) by (simp add: may_enqueue_def)
    let ?s = "set_linker 0 (At_null (dummy s)) (s\<lparr>outside := outside s - {dummy s}\<rparr>)"
    have "link_chain (?s\<lparr>taker := At_third t\<rparr>) ns"
      using link_call [OF b(1) t(1) m] t by (simp add: link_chain_def)
    then show ?thesis using At_enqueue t(1) by (auto simp: link_Dequeue_step_def link_Enqueue_step_def)
  next
    case (At_third t)
    then have t: "t = lq_tail s" "t \<noteq> dummy s"
      "dummy s \<notin> set ns \<Longrightarrow> \<exists>a. linkers s 0 = At_null a \<or> linkers s 0 = At_swap a" using b(2) by auto
    show ?thesis
    proof (cases "linkers s 0")
      case Not_linking
      then show ?thesis
        using move [of "case nx of None \<Rightarrow> Not_taking | Some n \<Rightarrow> At_advance t n"] At_third t nx nt
        by (cases nx) (auto simp: link_Dequeue_step_def advance_or_def)
    next
      case (At_null a)
      have f: "lq_link s a \<noteq> None" using floating_alive [OF b(1), of 0 a] At_null by simp
      have "link_chain (set_linker 0 (At_swap a) (s\<lparr>lq_link := (lq_link s)(a \<mapsto> None)\<rparr>)) ns"
        using link_null [OF b(1) At_null] At_third t by (simp add: link_chain_def)
      then show ?thesis using At_third At_null f by (auto simp: link_Dequeue_step_def link_Enqueue_step_def store_link_def)
    next
      case (At_swap a)
      have d: "a = dummy s" using linkers_okD(6) [OF c(7), of 0 a] At_swap by simp
      have "link_chain (set_linker 0 (At_store (lq_head s) a)
        (s\<lparr>lq_head := a, put_in := (if a = dummy s then put_in s else put_in s @ [a])\<rparr>)) (ns @ [a])"
        using link_swap [OF b(1) At_swap] At_third t d by (simp add: link_chain_def)
      then show ?thesis using At_third At_swap by (auto simp: link_Dequeue_step_def link_Enqueue_step_def)
    next
      case (At_store p a)
      note l = link_store [OF b(1) At_store]
      have "link_chain (set_linker 0 Not_linking (s\<lparr>lq_link := (lq_link s)(p \<mapsto> Some a)\<rparr>)) ns"
        using l(3) At_third t At_store by (auto simp: link_chain_def)
      then show ?thesis using At_third At_store l(1) by (auto simp: link_Dequeue_step_def link_Enqueue_step_def store_link_def)
    qed
  qed
qed

lemma link_reachable_chain: "link_reachable s \<Longrightarrow> \<exists>ns. link_chain s ns"
proof (induction rule: link_reachable.induct)
  case (stepped s s')
  then obtain ns where ns: "link_chain s ns" by blast
  then have "link_base s ns" by (simp add: link_chain_def)
  note c = link_baseD [OF this]
  from stepped(2) show ?case
  proof cases
    case (create a n)
    then have "a \<notin> set ns" "a \<notin> floating s" "a \<noteq> dummy s" using c(5) by blast+
    then show ?thesis using change_outside [OF ns, of a s' "Some n"] create by auto
  next
    case (delete a)
    then have "a \<notin> set ns" "a \<notin> floating s" "a \<noteq> dummy s" using c(6) by blast+
    then show ?thesis using change_outside [OF ns, of a s' None] delete by auto
  next
    case (enqueue t a)
    then show ?thesis using link_Enqueue_step_chain [OF ns, of t a] by auto
  next
    case dequeue
    then show ?thesis using link_Dequeue_step_chain [OF ns] by auto
  qed
qed (use link_chain_new in blast)

end
