(* ===== verification/MPSCQueue_Take.thy ===== *)
theory MPSCQueue_Take imports MPSCQueue_Links begin

text \<open>What the queue that links the objects promises.\<close>

section \<open>Order and ownership\<close>

definition inside :: "link_queue \<Rightarrow> node_id list" where
  "inside s = drop (length (taken s)) (put_in s)"

lemma base_inside: "link_base s ns \<Longrightarrow> inside s = filter (\<lambda>a. a \<noteq> dummy s) ns \<and> put_in s = taken s @ inside s"
  using link_baseD(8) [of s ns] by (simp add: inside_def)

lemma link_Enqueue_step_inside:
  assumes "link_Enqueue_step t a s = Some s'" "put_in s = taken s @ inside s"
  shows "taken s' = taken s \<and> dummy s' = dummy s \<and> (inside s' = inside s \<or> (\<exists>b. inside s' = inside s @ [b]))"
  using assms by (auto simp: link_Enqueue_step_def inside_def store_link_def split: link_producer.splits if_splits)

lemma link_Dequeue_step_inside:
  assumes "link_Dequeue_step s = Some s'" "link_chain s ns"
  shows "inside s' = inside s \<and> taken s' = taken s \<or>
    (\<exists>a. inside s = a # inside s' \<and> taken s' = taken s @ [a] \<and> a \<in> outside s' \<and> taker s' = Not_taking)"
proof -
  have b: "link_base s ns" "taker_ok s ns (taker s)" using assms(2) by (simp_all add: link_chain_def)
  note c = link_baseD [OF b(1)]
  note i = base_inside [OF b(1)]
  have z: "inside s' = inside s \<and> taken s' = taken s"
    if e: "link_Enqueue_step 0 (dummy s) s = Some s'" "\<And>a. linkers s 0 = At_swap a \<Longrightarrow> a = dummy s" for s'
    using e by (auto simp: link_Enqueue_step_def inside_def store_link_def split: link_producer.splits if_splits)
  have d: "a = dummy s" if "linkers s 0 = At_swap a" for a using linkers_okD(6) [OF c(7), of 0 a] that by simp
  show ?thesis
  proof (cases "taker s")
    case (At_advance t n)
    then have t: "t = lq_tail s" "t \<noteq> dummy s" using b(2) by simp_all
    obtain ms where "ns = t # ms" using c(3,9) t(1) by (cases ns) auto
    then have f: "inside s = t # filter (\<lambda>a. a \<noteq> dummy s) ms" using i t(2) by simp
    then have p: "put_in s = taken s @ t # filter (\<lambda>a. a \<noteq> dummy s) ms" using i by metis
    have s': "s' = s\<lparr>lq_tail := n, taker := Not_taking, outside := insert t (outside s), taken := taken s @ [t]\<rparr>"
      using assms(1) At_advance by (simp add: link_Dequeue_step_def)
    have "inside s' = filter (\<lambda>a. a \<noteq> dummy s) ms" by (simp add: inside_def s' p)
    then show ?thesis using f by (simp add: s')
  next
    case (At_enqueue t)
    then obtain w where "link_Enqueue_step 0 (dummy s) s = Some w" "s' = w\<lparr>taker := At_third t\<rparr>"
      using assms(1) by (auto simp: link_Dequeue_step_def)
    moreover from this have "inside s' = inside w \<and> taken s' = taken w" by (simp add: inside_def)
    ultimately show ?thesis using z [of w] d by metis
  next
    case (At_third t)
    show ?thesis
    proof (cases "linkers s 0 = Not_linking")
      case True
      then show ?thesis using assms(1) At_third by (auto simp: link_Dequeue_step_def inside_def advance_or_def)
    next
      case False
      then show ?thesis using z [of s'] d assms(1) At_third by (simp add: link_Dequeue_step_def)
    qed
  qed (use assms(1) in \<open>auto simp: link_Dequeue_step_def inside_def advance_or_def split: if_splits\<close>)
qed

text \<open>Two objects, 7 and 8; the first is in the queue, the second is being put in.\<close>

fun link_run :: "(nat \<times> node_id) list \<Rightarrow> link_queue \<Rightarrow> link_queue" where
  "link_run [] s = s"
| "link_run ((t, a) # es) s = link_run es (the (link_Enqueue_step t a s))"

definition demo_objects :: link_queue where
  "demo_objects = (LinkQueue_new 0)\<lparr>lq_link := [0 \<mapsto> None, 7 \<mapsto> Some 99, 8 \<mapsto> None], outside := {7, 8}\<rparr>"

definition demo_links :: link_queue where
  "demo_links = link_run [(1, 7), (1, 7), (1, 7), (1, 7)] demo_objects"

definition demo_halfway :: link_queue where
  "demo_halfway = link_run [(2, 8), (2, 8), (2, 8)] demo_links"

lemmas demo_link_defs = demo_halfway_def demo_links_def demo_objects_def LinkQueue_new_def link_Enqueue_step_def
  set_linker_def store_link_def

lemma link_reachable_enqueue:
  assumes "link_reachable s" "t \<noteq> 0" "linkers s t = Not_linking \<Longrightarrow> a \<in> outside s"
  shows "link_reachable (the (link_Enqueue_step t a s))"
proof -
  obtain ns where ns: "link_chain s ns" using link_reachable_chain [OF assms(1)] by blast
  from link_Enqueue_step_chain [OF ns assms(2,3)] obtain s' where s': "link_Enqueue_step t a s = Some s'" by blast
  then show ?thesis using link_reachable.stepped [OF assms(1) link_step.enqueue [OF assms(2,3) s']] by simp
qed

lemma demo_links_reachable: "link_reachable demo_links"
proof -
  let ?n = "LinkQueue_new 0"
  let ?a = "?n\<lparr>lq_link := (lq_link ?n)(7 \<mapsto> Some 99), outside := insert 7 (outside ?n)\<rparr>"
  have "link_step ?n ?a" by (rule link_step.create) (simp add: LinkQueue_new_def)
  then have 1: "link_reachable ?a" by (rule link_reachable.stepped [OF link_reachable.new])
  have "link_step ?a (?a\<lparr>lq_link := (lq_link ?a)(8 \<mapsto> None), outside := insert 8 (outside ?a)\<rparr>)"
    by (rule link_step.create) (simp add: LinkQueue_new_def)
  then have "link_reachable (?a\<lparr>lq_link := (lq_link ?a)(8 \<mapsto> None), outside := insert 8 (outside ?a)\<rparr>)"
    by (rule link_reachable.stepped [OF 1])
  moreover have "?a\<lparr>lq_link := (lq_link ?a)(8 \<mapsto> None), outside := insert 8 (outside ?a)\<rparr> = demo_objects"
    by (simp add: demo_objects_def LinkQueue_new_def insert_commute)
  ultimately have "link_reachable demo_objects" by simp
  then show ?thesis
    unfolding demo_links_def link_run.simps
    by (intro link_reachable_enqueue) (simp_all add: demo_link_defs)
qed

lemma demo_halfway_reachable: "link_reachable demo_halfway"
  unfolding demo_halfway_def link_run.simps
  by (intro link_reachable_enqueue demo_links_reachable) (simp_all add: demo_link_defs)

text \<open>
  C4: The queue that links its objects is first-in first-out for every interleaving, and ownership is exclusive:
  an object in the queue is in it once and belongs to nobody; the one the consumer returns belongs to him, and no
  producer will still write to it.
\<close>

theorem link_queue_fifo:
  assumes "link_reachable s" "link_step s s'"
  shows "put_in s = taken s @ inside s \<and> distinct (inside s) \<and> set (inside s) \<inter> outside s = {} \<and>
    (\<forall>t p a. linkers s t = At_store p a \<longrightarrow> p \<notin> outside s) \<and>
    (inside s' = inside s \<and> taken s' = taken s \<or>
     (\<exists>a. inside s' = inside s @ [a] \<and> taken s' = taken s) \<or>
     (\<exists>a. inside s = a # inside s' \<and> taken s' = taken s @ [a] \<and> a \<in> outside s'))"
proof -
  obtain ns where ns: "link_chain s ns" using link_reachable_chain [OF assms(1)] by blast
  then have b: "link_base s ns" by (simp add: link_chain_def)
  note c = link_baseD [OF b]
  note i = base_inside [OF b]
  have o: "distinct (inside s) \<and> set (inside s) \<inter> outside s = {}" using i c(2,6) by auto
  have w: "\<forall>t p a. linkers s t = At_store p a \<longrightarrow> p \<notin> outside s" using linkers_okD(3) [OF c(7)] c(6) by blast
  from assms(2) have "inside s' = inside s \<and> taken s' = taken s \<or>
     (\<exists>a. inside s' = inside s @ [a] \<and> taken s' = taken s) \<or>
     (\<exists>a. inside s = a # inside s' \<and> taken s' = taken s @ [a] \<and> a \<in> outside s')"
  proof cases
    case (enqueue t a)
    then show ?thesis using link_Enqueue_step_inside [OF enqueue(3)] i by blast
  next
    case dequeue
    then show ?thesis using link_Dequeue_step_inside [OF _ ns] by blast
  qed (simp_all add: inside_def)
  then show ?thesis using i o w by blast
qed

lemma link_queue_fifo_witness: "inside demo_halfway = [7, 8] \<and> put_in demo_halfway = taken demo_halfway @ [7, 8]"
proof -
  have i: "inside demo_halfway = [7, 8]" by (simp add: inside_def demo_link_defs)
  have "link_step demo_halfway (demo_halfway\<lparr>lq_link := (lq_link demo_halfway)(9 \<mapsto> None), outside := insert 9 (outside demo_halfway)\<rparr>)"
    by (rule link_step.create) (simp add: demo_link_defs)
  then show ?thesis using link_queue_fifo [OF demo_halfway_reachable] i by metis
qed

text \<open>
  C23: No thread ever reads or writes the link of an object that was deleted, although objects may be deleted as
  soon as they are returned: in every reachable state each step of a producer and of the consumer has a result.
\<close>

theorem link_memory_safe:
  assumes "link_reachable s" "t \<noteq> 0" "linkers s t = Not_linking \<Longrightarrow> a \<in> outside s"
  shows "link_Enqueue_step t a s \<noteq> None \<and> link_Dequeue_step s \<noteq> None"
proof -
  obtain ns where ns: "link_chain s ns" using link_reachable_chain [OF assms(1)] by blast
  from link_Enqueue_step_chain [OF ns assms(2,3)] link_Dequeue_step_chain [OF ns] show ?thesis by auto
qed

lemma link_memory_safe_witness:
  "link_Enqueue_step 2 8 demo_halfway \<noteq> None \<and> linkers demo_halfway 2 = At_store 7 8 \<and> outside demo_halfway = {}"
proof -
  have l: "linkers demo_halfway 2 = At_store 7 8" "outside demo_halfway = {}" by (auto simp: demo_link_defs)
  then show ?thesis using link_memory_safe [OF demo_halfway_reachable, of 2 8] by simp
qed

section \<open>Whole calls\<close>

definition others_idle :: "link_queue \<Rightarrow> bool" where
  "others_idle s \<longleftrightarrow> (\<forall>t. t \<noteq> 0 \<longrightarrow> linkers s t = Not_linking)"

text \<open>The steps a call has left, when nobody else moves.\<close>

fun enqueue_left :: "link_producer \<Rightarrow> nat" where
  "enqueue_left Not_linking = 0"
| "enqueue_left (At_store p a) = 1"
| "enqueue_left (At_swap a) = 2"
| "enqueue_left (At_null a) = 3"

fun steps_left :: "link_queue \<Rightarrow> link_consumer \<Rightarrow> nat" where
  "steps_left s Not_taking = 0"
| "steps_left s (At_advance t n) = 1"
| "steps_left s (At_third t) = 2 + enqueue_left (linkers s 0)"
| "steps_left s (At_enqueue t) = 6"
| "steps_left s (At_head t) = 7"
| "steps_left s (At_second t) = 8"
| "steps_left s (At_skip n) = 9"
| "steps_left s (At_first t) = 10"

fun read_empty :: "link_queue \<Rightarrow> link_consumer \<Rightarrow> bool" where
  "read_empty s (At_head t) = (nxt s t = None)"
| "read_empty s _ = True"

lemma quiet_step:
  assumes "link_chain s ns" "others_idle s" "read_empty s (taker s)" "taker s \<noteq> Not_taking"
  shows "\<exists>s'. link_Dequeue_step s = Some s' \<and> others_idle s' \<and> read_empty s' (taker s') \<and>
    steps_left s' (taker s') < steps_left s (taker s) \<and>
    (taken s' = taken s \<longrightarrow> taker s' = Not_taking \<longrightarrow> inside s = [])"
proof -
  have b: "link_base s ns" "taker_ok s ns (taker s)" using assms(1) by (simp_all add: link_chain_def)
  note c = link_baseD [OF b(1)]
  have tl: "lq_tail s \<in> set ns" using c(3,9) hd_in_set by metis
  obtain nx where nx: "lq_link s (lq_tail s) = Some nx" using chain_alive [OF b(1) tl] by blast
  then have nt: "nxt s (lq_tail s) = nx" by (simp add: nxt_def)
  have e: "stores s = {}" if "linkers s 0 = Not_linking"
  proof -
    have "linkers s u = Not_linking" for u using assms(2) that by (cases "u = 0") (simp_all add: others_idle_def)
    then show ?thesis by (simp add: stores_def)
  qed
  have n: "ns = [lq_tail s]" if "linkers s 0 = Not_linking" "nx = None"
    using linked_end [OF c(1)] e [OF that(1)] that(2) c(3) nt by auto
  have i: "inside s = filter (\<lambda>a. a \<noteq> dummy s) ns" using base_inside [OF b(1)] by simp
  have o: "others_idle (s\<lparr>taker := d\<rparr>)" for d using assms(2) by (simp add: others_idle_def)
  show ?thesis
  proof (cases "taker s")
    case (At_first t)
    then show ?thesis
      using b(2) nx nt n i o by (cases nx) (auto simp: link_Dequeue_step_def advance_or_def)
  next
    case (At_second t)
    then show ?thesis
      using b(2) nx nt o by (cases nx) (auto simp: link_Dequeue_step_def advance_or_def)
  next
    case (At_head t)
    then have "ns = [t]" using n b(2) assms(3) nt by simp
    then have "t = lq_head s" using c(4) by simp
    then show ?thesis using At_head b(2) o by (auto simp: link_Dequeue_step_def)
  next
    case (At_third t)
    show ?thesis
    proof (cases "linkers s 0")
      case Not_linking
      have "nx \<noteq> None"
      proof
        assume "nx = None"
        then have "ns = [lq_tail s]" using n Not_linking by blast
        then show False using b(2) At_third Not_linking by auto
      qed
      then show ?thesis using At_third Not_linking b(2) nx o by (auto simp: link_Dequeue_step_def advance_or_def)
    next
      case (At_null a)
      have "lq_link s a \<noteq> None" using floating_alive [OF b(1), of 0 a] At_null by simp
      then show ?thesis
        using At_third At_null assms(2) by (auto simp: link_Dequeue_step_def link_Enqueue_step_def store_link_def others_idle_def)
    next
      case (At_swap a)
      then show ?thesis
        using At_third assms(2) by (auto simp: link_Dequeue_step_def link_Enqueue_step_def others_idle_def)
    next
      case (At_store p a)
      then show ?thesis
        using link_store(1) [OF b(1) At_store] At_third assms(2)
        by (auto simp: link_Dequeue_step_def link_Enqueue_step_def store_link_def others_idle_def)
    qed
  next
    case (At_enqueue t)
    then show ?thesis
      using b(2) assms(2) by (auto simp: link_Dequeue_step_def link_Enqueue_step_def others_idle_def)
  qed (use assms(2,4) in \<open>auto simp: link_Dequeue_step_def others_idle_def\<close>)
qed

lemma quiet_run:
  assumes "link_chain s ns" "others_idle s" "read_empty s (taker s)" "steps_left s (taker s) \<le> n" "taker s \<noteq> Not_taking"
  shows "\<exists>s' ns'. link_Dequeue_run n s = Some s' \<and> link_chain s' ns' \<and> taker s' = Not_taking \<and> others_idle s' \<and>
    (inside s = [] \<and> inside s' = [] \<and> taken s' = taken s \<or> (\<exists>a. inside s = a # inside s' \<and> taken s' = taken s @ [a] \<and> a \<in> outside s'))"
  using assms
proof (induction n arbitrary: s ns)
  case 0
  then show ?case by (cases "taker s") auto
next
  case (Suc n)
  obtain s1 where s1: "link_Dequeue_step s = Some s1" "others_idle s1" "read_empty s1 (taker s1)"
    "steps_left s1 (taker s1) < steps_left s (taker s)" "taken s1 = taken s \<longrightarrow> taker s1 = Not_taking \<longrightarrow> inside s = []"
    using quiet_step [OF Suc.prems(1-3,5)] by blast
  obtain ns1 where ns1: "link_chain s1 ns1" using link_Dequeue_step_chain [OF Suc.prems(1)] s1(1) by auto
  note i = link_Dequeue_step_inside [OF s1(1) Suc.prems(1)]
  have r: "link_Dequeue_run (Suc n) s = link_Dequeue_run n s1" using s1(1) Suc.prems(5) by simp
  show ?case
  proof (cases "taker s1 = Not_taking")
    case True
    have "link_Dequeue_run n s1 = Some s1" using True by (cases n) simp_all
    then show ?thesis using r ns1 True s1(2,5) i by auto
  next
    case False
    then have "inside s1 = inside s" "taken s1 = taken s" using i by auto
    then show ?thesis using Suc.IH [OF ns1 s1(2,3) _ False] s1(4) Suc.prems(4) r by auto
  qed
qed

text \<open>
  A call of \<^verbatim>\<open>Dequeue\<close> that no producer interrupts ends after at most eleven steps and returns the first
  object of the queue; it returns nothing exactly when the queue is empty.
\<close>

theorem link_Dequeue_first:
  assumes "link_reachable s" "taker s = Not_taking" "others_idle s"
  shows "\<exists>s'. taker s' = Not_taking \<and> link_Dequeue s =
    Some (case inside s of [] \<Rightarrow> None | a # _ \<Rightarrow> Some a, s') \<and> inside s' = tl (inside s)"
proof -
  obtain ns where ns: "link_chain s ns" using link_reachable_chain [OF assms(1)] by blast
  let ?s1 = "s\<lparr>taker := At_first (lq_tail s)\<rparr>"
  have 1: "link_Dequeue_step s = Some ?s1" by (simp add: link_Dequeue_step_def assms(2))
  have c: "link_chain ?s1 ns" using ns assms(2) by (simp add: link_chain_def)
  have q: "others_idle ?s1" using assms(3) by (simp add: others_idle_def)
  obtain s' where s': "link_Dequeue_run 10 ?s1 = Some s'" "taker s' = Not_taking"
    "inside ?s1 = [] \<and> inside s' = [] \<and> taken s' = taken ?s1 \<or> (\<exists>a. inside ?s1 = a # inside s' \<and> taken s' = taken ?s1 @ [a])"
    using quiet_run [OF c q, of 10] by auto
  have "inside ?s1 = inside s" by (simp add: inside_def)
  then show ?thesis using s' 1 unfolding link_Dequeue_def by auto
qed

lemma link_Dequeue_first_witness:
  "\<exists>s'. link_Dequeue demo_links = Some (Some 7, s') \<and> inside s' = []"
proof -
  have d: "taker demo_links = Not_taking" "others_idle demo_links" "inside demo_links = [7]"
    by (simp_all add: demo_link_defs others_idle_def inside_def)
  show ?thesis using link_Dequeue_first [OF demo_links_reachable d(1,2)] d(3) by auto
qed

end
