(* ===== verification/Spec2Isabelle.thy ===== *)
theory Spec2Isabelle
  imports ByteBuffer_Bits EventMap EventProcessor TaskScheduler_Run PhasingUpdates_Areas BaseEncoding ThreatManager_Props ThreatModifiers InstanceLocks ChannelMgr_Props MPSCQueue_Props MPSCQueue_Take
begin

text \<open>
  A verification library for the game server under \<^verbatim>\<open>src/src\<close>, a TrinityCore derivative: the world server, the authentication
  server and the shared libraries they are built from. It models subsystems with state and rules of their own, as
  definitions that follow the source operation by operation, and proves what makes each of them correct. Paths below are under
  \<^verbatim>\<open>src/src\<close>; definitions carry the names of the functions they model, with the class in front where a name occurs twice.
\<close>

section \<open>The program and the theories that model it\<close>

text \<open>
  Units of the world fight, see and talk to each other. The parts modelled here and how they touch:

  \<^item> Combat (\<^verbatim>\<open>server/game/Combat\<close>). \<open>CombatManager\<close> models the references between units in combat: one per pair, entered on both
    sides, with suppression, timers and the combat state they imply. \<open>CombatManager_Refs\<close> proves its contract. \<open>ThreatManager\<close>
    adds the threat lists of creatures: references kept in the sorted heap, in the list of the creature and in that of the victim, with
    redirection, taunts, fixate and the choice of the victim. \<open>ThreatManager_Refs\<close>, \<open>_Select\<close>, \<open>_Contract\<close>, \<open>_Steps\<close> and
    \<open>_Props\<close> prove that every operation keeps the three places consistent, chooses the victim by the documented rule, terminates, and
    refines the set of threat pairs that \<open>CombatManager\<close> works with: ending combat ends threat and threat implies combat.
    \<open>ThreatModifiers\<close> is the cache of the threat multipliers by spell school and the aura sum it caches; \<open>AddThreat\<close> takes the modified
    threat from its environment.

  \<^item> Phasing (\<^verbatim>\<open>server/game/Phasing\<close>). \<open>PhaseShift\<close> is the reference-counted set of phases of an object and \<open>CanSee\<close>;
    \<open>PhasingHandler\<close> the operations on one shift; \<open>PhasingVisitor\<close> the recursion over controlled units, summons and passengers;
    \<open>PhasingUpdates\<close> the recomputation on a change of map, area or conditions, with its proofs in \<open>PhasingUpdates_Phases\<close>,
    \<open>PhasingUpdates_Props\<close> and \<open>PhasingUpdates_Areas\<close>.

  \<^item> Chat (\<^verbatim>\<open>server/game/Chat/Channels\<close>, \<^verbatim>\<open>Handlers/ChannelHandler.cpp\<close> and the channel list of \<^verbatim>\<open>Player\<close>). \<open>Channel\<close>
    is one channel, \<open>Channel_Members\<close>, \<open>_Rules\<close> and \<open>_Props\<close> its invariant and rules, \<open>Channel_Bans\<close> its database form;
    \<open>ChannelMgr\<close> the channels of a faction on a heap together with the handlers, \<open>ChannelMgr_Inv\<close>, \<open>_Handlers\<close> and \<open>_Props\<close>
    the agreement of channels and players in every reachable state.

  \<^item> Friends (\<^verbatim>\<open>Entities/Player/SocialMgr.cpp\<close>), permissions (\<^verbatim>\<open>Accounts/RBAC.cpp\<close>), instance locks
    (\<^verbatim>\<open>Instances/InstanceLockMgr.cpp\<close>) and the pool of instance ids (\<^verbatim>\<open>Maps/MapManager.cpp\<close>): \<open>SocialMgr\<close>, \<open>RBAC\<close>,
    \<open>InstanceLockMgr\<close> with its properties in \<open>InstanceLocks\<close>, and \<open>InstanceIds\<close>, which the lock manager fills when it loads.

  \<^item> Shared libraries (\<^verbatim>\<open>common\<close>, \<^verbatim>\<open>server/shared\<close>). \<open>EventMap\<close> schedules the events of scripts, \<open>EventProcessor\<close> the
    delayed events of objects and \<open>TaskScheduler\<close> the tasks of AI scripts, whose queue stays sorted under delays (\<open>TaskScheduler_Props\<close>) and
    is worked off in order (\<open>TaskScheduler_Run\<close>); \<open>MPSCQueue\<close> is the lock-free queue in both its forms, with its invariants in \<open>MPSCQueue_Chain\<close>,
    \<open>_Links\<close> and its properties in \<open>_Props\<close>, \<open>_Take\<close>; \<open>ByteBuffer\<close> and \<open>ByteBuffer_Bits\<close> are the encoding of packets;
    \<open>BaseEncoding\<close> is Base32 and Base64. \<open>StdContainers\<close> models the containers all of them use (multimap, map, set, the flat set of
    \<^verbatim>\<open>common/Containers\<close>), with locales for the interfaces of maps, sets and ordered queues. \<open>Prelude\<close> holds types and generic lemmas.

  State is passed explicitly. A pointer is an address in a map of objects, a record is a class with the fields that are read, a map or set
  of the standard library an ordered list or a function, an iteration over an unordered container an order given as a parameter. Sums and
  options stand for exceptions and for what has no result: \<open>None\<close> is a failed assertion, a read through a dangling or null pointer, or fuel
  that has run out. Packets, database statements and notifications of scripts are values the operations return or append to a log.
\<close>

section \<open>What is proved\<close>

text \<open>
  For each component there are invariants of the reachable states, proved by rule induction over a step relation whose steps are the
  operations, and on top of them the behaviour a caller relies on: contracts of components (\<open>CombatManager_contract\<close>,
  \<open>ThreatManager_contract\<close>), agreement of two components (\<open>joined_channels_consistent\<close>, \<open>shared_state_consistent\<close>), refinement
  (\<open>ThreatManager_refines_CombatManager\<close>, \<open>mpsc_refines_fifo\<close>), memory safety under all interleavings, round trips of the encodings,
  optimised code against its specification (\<open>ReselectVictim_rule\<close>, \<open>CalculateModifiedThreat_uncached\<close>), termination, bounds,
  and what the code does in its error paths. Some properties show that the code does not do what it means to do; the manifest lists these as
  findings, with the lines.

  Fuel and termination. \<open>AddThreat\<close> recurses over vehicles, owners of personal spawns and redirections; where chains of the first two have at
  most \<open>N\<close> links, fuel \<open>2 * N + 2\<close> is enough, because a redirected call is made with redirection off. \<open>phase_visit\<close> takes the number of objects plus
  one: each call enters an object for the first time. \<open>link_Dequeue\<close> runs the consumer for at most ten of its own steps and is proved to be
  done by then when no producer is in the middle of an operation. Loops that need not end (\<open>pad_count\<close>, \<open>ExpandPermissions_loop\<close>, the loops of
  \<open>EventProcessor\<close>, \<open>dispatch_loop\<close>, the loops that end all combat or threat, \<open>delete_values\<close>, \<open>area_walk\<close>) are partial functions; that
  they return is a theorem for each, for \<open>area_walk\<close> under the condition that the parents of an area do not form a circle, for
  \<open>dispatch_loop\<close> when the handlers use positive durations and repeat a task at most once (\<open>positive_code\<close>).
\<close>

section \<open>Parameters and what is assumed of them\<close>

text \<open>
  Floats and the heap of boost are parameters of the threat model: \<open>float_ops\<close> are the operations the code uses, \<open>float_ok\<close> the laws of IEEE
  addition and multiplication it relies on (rounding is monotone), and \<open>heap_ok\<close> says that the top of a heap is one of its largest elements and
  that its ordered iteration is a sorted permutation. What a unit reports (alive, faction, distance, flags) is an environment; \<open>env_ok\<close>
  says that only creatures have threat lists, \<open>nesting_ok\<close> that nobody rides or owns himself. \<open>script_ok\<close> says that an event adds itself again only
  when it does not report that it is finished, and that aborting adds nothing. \<open>chat_env\<close> and \<open>mgr_env\<close> hold the connected players with their
  rights, the tables of channels and the letter case of names; \<open>chat_env_ok\<close> says that players are registered under their own guid. The
  conditions of phases are a parameter; \<open>stable_conditions\<close> says that they do not depend on the phases themselves. Each such hypothesis is
  met by a concrete environment in the witness of the property that uses it.

  Some step relations leave a case to the caller. In \<open>cw_step\<close> threat is added only between units in combat, which \<open>AddThreat\<close> sees to
  before it creates a reference (\<open>ThreatManager_refines_CombatManager\<close>); \<open>rbac_step\<close> grants, denies and revokes for a realm, because calls with
  realm 0 are the rows of a load and are followed by a recomputation; a new instance lock gets an id that no other has, which is what
  \<open>InstanceIds\<close> is about. A session of \<open>SocialMgr\<close> starts from any list of rows the database may hold.
\<close>

section \<open>Not modelled\<close>

text \<open>
  Reactions of scripts and AI to a notification, which could call back into the component that sends it; threads other than those of the
  queue, whose operations are interleaved under sequential consistency, without the weaker orders of its atomics; the text of chat and log messages and the
  names of channels, with the assertion in \<^verbatim>\<open>Channel::GetChannelName\<close> that a channel of a zone has one. The clock is an argument. Signed 32-bit counters of references are integers.

  Of the server as a whole, everything else is left aside: units, items, spells and their effects, maps and grids, movement, quests,
  battlegrounds, guilds and groups, which are driven by client data and touch each other's state throughout; the database, network and
  cryptographic layers, which wrap external libraries; content scripts, generated protocol code and vendored libraries. The manifest lists
  them with the reason. Of \<^verbatim>\<open>MapManager\<close> only the ids are modelled: creating and updating maps needs the maps.
\<close>

end
